(* ===== verification/Kernel_Prelude.thy ===== *)
theory Kernel_Prelude
  imports Main "HOL-Library.Word" "HOL-Library.List_Lexorder" "HOL-Library.Char_ord"
begin

text \<open>
  The vocabulary every component of the kernel model shares.

  \<^item> Rust's \<open>&str\<close> and \<open>String\<close> are the list of their UTF-8 bytes (HOL's
    \<open>char\<close> is one byte), so \<open>len\<close> counts bytes, \<open>sort\<close> compares bytewise and
    \<open>split\<close>, \<open>starts_with\<close> and \<open>contains\<close> on ASCII patterns are the byte
    operations. \<open>trim\<close> removes the UTF-8 encodings of Unicode's White_Space.
  \<^item> \<open>u64\<close> is \<open>64 word\<close>, with Rust's \<open>checked_add\<close> and \<open>saturating_add\<close>.
  \<^item> \<open>Result<A, E>\<close> is \<open>E + A\<close>; the \<open>?\<close> operator is \<open>and_then\<close>.
  \<^item> Instants, durations and wall-clock seconds that the code only adds and compares
    are \<open>nat\<close>.
  \<^item> A component with state is a step relation; \<open>reachable\<close>, \<open>run\<close> and the locale
    \<open>invariant_system\<close> carry an invariant from single steps to whole runs.
  \<^item> The locale \<open>sep_format\<close> is the contract of a separator-delimited key: when the
    first field never contains the separator, the key determines its fields.
\<close>

section \<open>Types and collections\<close>

type_synonym u64 = "64 word"
type_synonym u16 = "16 word"
type_synonym byte = "8 word"
type_synonym instant = nat
type_synonym duration = nat

named_theorems kernel_defs \<open>definitions of the model's accessors and small helpers\<close>

section \<open>Results\<close>

fun and_then :: "'e + 'a \<Rightarrow> ('a \<Rightarrow> 'e + 'b) \<Rightarrow> 'e + 'b" where
  "and_then (Inl e) f = Inl e"
| "and_then (Inr x) f = f x"

fun ok_or :: "'e \<Rightarrow> 'a option \<Rightarrow> 'e + 'a" where
  "ok_or e None = Inl e"
| "ok_or e (Some x) = Inr x"

section \<open>Unsigned 64-bit arithmetic\<close>

definition checked_add_u64 :: "u64 \<Rightarrow> u64 \<Rightarrow> u64 option" where
  "checked_add_u64 a b = (if unat a + unat b < 2 ^ 64 then Some (a + b) else None)"

definition saturating_add_u64 :: "u64 \<Rightarrow> u64 \<Rightarrow> u64" where
  "saturating_add_u64 a b = (if unat a + unat b < 2 ^ 64 then a + b else - 1)"

definition clamp_u64 :: "u64 \<Rightarrow> u64 \<Rightarrow> u64 \<Rightarrow> u64" where
  "clamp_u64 x lo hi = (if x < lo then lo else if hi < x then hi else x)"

section \<open>Strings\<close>

definition starts_with :: "string \<Rightarrow> string \<Rightarrow> bool" where
  "starts_with s p \<longleftrightarrow> take (length p) s = p"

definition ends_with_char :: "string \<Rightarrow> char \<Rightarrow> bool" where
  "ends_with_char s c \<longleftrightarrow> s \<noteq> [] \<and> last s = c"

fun contains_str :: "string \<Rightarrow> string \<Rightarrow> bool" where
  "contains_str [] p \<longleftrightarrow> p = []"
| "contains_str (x # xs) p \<longleftrightarrow> starts_with (x # xs) p \<or> contains_str xs p"

fun split_char :: "char \<Rightarrow> string \<Rightarrow> string list" where
  "split_char c [] = [[]]"
| "split_char c (x # xs) =
     (if x = c then [] # split_char c xs
      else (case split_char c xs of [] \<Rightarrow> [[x]] | p # ps \<Rightarrow> (x # p) # ps))"

fun split_once_char :: "char \<Rightarrow> string \<Rightarrow> (string \<times> string) option" where
  "split_once_char c [] = None"
| "split_once_char c (x # xs) =
     (if x = c then Some ([], xs)
      else map_option (\<lambda>(a, b). (x # a, b)) (split_once_char c xs))"

fun join :: "string \<Rightarrow> string list \<Rightarrow> string" where
  "join sep [] = []"
| "join sep [x] = x"
| "join sep (x # y # zs) = x @ sep @ join sep (y # zs)"

definition is_ascii_digit :: "char \<Rightarrow> bool" where
  "is_ascii_digit c \<longleftrightarrow> 48 \<le> (of_char c :: nat) \<and> (of_char c :: nat) \<le> 57"

definition is_ascii_upper :: "char \<Rightarrow> bool" where
  "is_ascii_upper c \<longleftrightarrow> 65 \<le> (of_char c :: nat) \<and> (of_char c :: nat) \<le> 90"

definition is_ascii_lower :: "char \<Rightarrow> bool" where
  "is_ascii_lower c \<longleftrightarrow> 97 \<le> (of_char c :: nat) \<and> (of_char c :: nat) \<le> 122"

definition is_ascii_alphanumeric :: "char \<Rightarrow> bool" where
  "is_ascii_alphanumeric c \<longleftrightarrow> is_ascii_digit c \<or> is_ascii_upper c \<or> is_ascii_lower c"

definition to_ascii_lower :: "char \<Rightarrow> char" where
  "to_ascii_lower c = (if is_ascii_upper c then char_of ((of_char c :: nat) + 32) else c)"

definition to_ascii_upper :: "char \<Rightarrow> char" where
  "to_ascii_upper c = (if is_ascii_lower c then char_of ((of_char c :: nat) - 32) else c)"

definition eq_ignore_ascii_case :: "string \<Rightarrow> string \<Rightarrow> bool" where
  "eq_ignore_ascii_case a b \<longleftrightarrow> map to_ascii_lower a = map to_ascii_lower b"

text \<open>
  \<open>white_space_utf8\<close>: the UTF-8 encodings of the code points with the Unicode property
  White_Space, which are what \<open>str::trim\<close> removes. A string that is valid UTF-8 ends in
  one of them exactly when its last code point is white space.
\<close>

definition white_space_utf8 :: "string list" where
  "white_space_utf8 =
     map (\<lambda>n. [char_of n]) [9, 10, 11, 12, 13, 32 :: nat]
     @ map (\<lambda>n. [char_of (194 :: nat), char_of n]) [133, 160 :: nat]
     @ [[char_of (225 :: nat), char_of (154 :: nat), char_of (128 :: nat)]]
     @ map (\<lambda>n. [char_of (226 :: nat), char_of (128 :: nat), char_of n])
         ([128 ..< 139] @ [168, 169, 175 :: nat])
     @ [[char_of (226 :: nat), char_of (129 :: nat), char_of (159 :: nat)]]
     @ [[char_of (227 :: nat), char_of (128 :: nat), char_of (128 :: nat)]]"

lemma starts_with_drop_less:
  "starts_with s w \<Longrightarrow> w \<noteq> [] \<Longrightarrow> length (drop (length w) s) < length s"
  by (cases s) (auto simp: starts_with_def)

function strip_prefixes :: "string list \<Rightarrow> string \<Rightarrow> string" where
  "strip_prefixes ws s =
     (case find (\<lambda>w. w \<noteq> [] \<and> starts_with s w) ws of
        None \<Rightarrow> s
      | Some w \<Rightarrow> strip_prefixes ws (drop (length w) s))"
  by pat_completeness auto
termination
  by (relation "measure (\<lambda>(ws, s). length s)")
    (auto simp: find_Some_iff dest!: starts_with_drop_less)

declare strip_prefixes.simps [simp del]

definition trim :: "string \<Rightarrow> string" where
  "trim s = rev (strip_prefixes (map rev white_space_utf8)
                   (rev (strip_prefixes white_space_utf8 s)))"

text \<open>Decimal rendering and parsing of unsigned integers.\<close>

definition digit_char :: "nat \<Rightarrow> char" where
  "digit_char d = char_of (48 + d)"

fun dec_of_nat :: "nat \<Rightarrow> string" where
  "dec_of_nat n =
     (if n < 10 then [digit_char n] else dec_of_nat (n div 10) @ [digit_char (n mod 10)])"

declare dec_of_nat.simps [simp del]

definition dec_of_u64 :: "u64 \<Rightarrow> string" where
  "dec_of_u64 w = dec_of_nat (unat w)"

definition digits_value :: "string \<Rightarrow> nat" where
  "digits_value s = foldl (\<lambda>a c. 10 * a + (of_char c - 48)) 0 s"

definition parse_u64 :: "string \<Rightarrow> u64 option" where
  "parse_u64 s =
     (let ds = (case s of c # cs \<Rightarrow> if c = CHR ''+'' then cs else s | [] \<Rightarrow> s)
      in if ds \<noteq> [] \<and> list_all is_ascii_digit ds \<and> digits_value ds < 2 ^ 64
         then Some (of_nat (digits_value ds)) else None)"

definition utf8_cont :: "nat \<Rightarrow> bool" where
  "utf8_cont b \<longleftrightarrow> 128 \<le> b \<and> b < 192"

text \<open>\<open>String::from_utf8\<close> accepts the byte sequences of the Unicode standard's table of well-formed UTF-8.\<close>

fun is_utf8 :: "nat list \<Rightarrow> bool" where
  "is_utf8 [] \<longleftrightarrow> True"
| "is_utf8 (b # bs) \<longleftrightarrow>
     (if b < 128 then is_utf8 bs
      else if 194 \<le> b \<and> b < 224
      then (case bs of c1 # r \<Rightarrow> utf8_cont c1 \<and> is_utf8 r | _ \<Rightarrow> False)
      else if 224 \<le> b \<and> b < 240
      then (case bs of
              c1 # c2 # r \<Rightarrow>
                utf8_cont c1 \<and> (b = 224 \<longrightarrow> 160 \<le> c1) \<and> (b = 237 \<longrightarrow> c1 < 160) \<and> utf8_cont c2 \<and> is_utf8 r
            | _ \<Rightarrow> False)
      else if 240 \<le> b \<and> b < 245
      then (case bs of
              c1 # c2 # c3 # r \<Rightarrow>
                utf8_cont c1 \<and> (b = 240 \<longrightarrow> 144 \<le> c1) \<and> (b = 244 \<longrightarrow> c1 < 144)
                \<and> utf8_cont c2 \<and> utf8_cont c3 \<and> is_utf8 r
            | _ \<Rightarrow> False)
      else False)"

section \<open>Steps, runs and reachable states\<close>

inductive reachable :: "('s \<Rightarrow> bool) \<Rightarrow> ('s \<Rightarrow> 'a \<Rightarrow> 's \<Rightarrow> bool) \<Rightarrow> 's \<Rightarrow> bool"
  for init step where
  reach_init: "init s \<Longrightarrow> reachable init step s"
| reach_step: "reachable init step s \<Longrightarrow> step s a s' \<Longrightarrow> reachable init step s'"

inductive run :: "('s \<Rightarrow> 'a \<Rightarrow> 's \<Rightarrow> bool) \<Rightarrow> 's \<Rightarrow> 'a list \<Rightarrow> 's \<Rightarrow> bool"
  for step where
  run_nil: "run step s [] s"
| run_cons: "step s a s' \<Longrightarrow> run step s' as s'' \<Longrightarrow> run step s (a # as) s''"

inductive_simps run_nil_iff [simp]: "run step s [] s'"
inductive_simps run_cons_iff: "run step s (a # as) s''"
inductive_cases run_consE: "run step s (a # as) s''"

locale invariant_system =
  fixes init :: "'s \<Rightarrow> bool"
    and step :: "'s \<Rightarrow> 'a \<Rightarrow> 's \<Rightarrow> bool"
    and inv :: "'s \<Rightarrow> bool"
  assumes inv_init: "init s \<Longrightarrow> inv s"
    and inv_step: "inv s \<Longrightarrow> step s a s' \<Longrightarrow> inv s'"
begin

lemma reachable_inv: "reachable init step s \<Longrightarrow> inv s"
  by (induction rule: reachable.induct) (auto intro: inv_init inv_step)

lemma run_inv: "run step s as s' \<Longrightarrow> inv s \<Longrightarrow> inv s'"
  by (induction rule: run.induct) (auto intro: inv_step)

lemma run_reachable: "run step s as s' \<Longrightarrow> reachable init step s \<Longrightarrow> reachable init step s'"
  by (induction rule: run.induct) (auto intro: reachable.reach_step)

end

section \<open>Trimming\<close>

definition ascii_graph :: "char \<Rightarrow> bool" where
  "ascii_graph c \<longleftrightarrow> (33 :: nat) \<le> of_char c \<and> of_char c \<le> (126 :: nat)"

lemma strip_prefixes_none:
  assumes "\<forall>w \<in> set ws. w \<noteq> [] \<longrightarrow> hd w \<noteq> hd s" and "s \<noteq> []"
  shows "strip_prefixes ws s = s"
proof -
  have "starts_with s w \<Longrightarrow> w \<noteq> [] \<Longrightarrow> hd w = hd s" for w
    by (cases w; cases s) (auto simp: starts_with_def)
  then have "find (\<lambda>w. w \<noteq> [] \<and> starts_with s w) ws = None"
    using assms(1) by (auto simp: find_None_iff)
  then show ?thesis by (subst strip_prefixes.simps) simp
qed

lemma white_space_not_graph:
  "\<forall>w \<in> set white_space_utf8. \<not> ascii_graph (hd w)" "\<forall>w \<in> set (map rev white_space_utf8). \<not> ascii_graph (hd w)"
  by (auto simp: white_space_utf8_def ascii_graph_def)

lemma trim_plain: "s \<noteq> [] \<Longrightarrow> ascii_graph (hd s) \<Longrightarrow> ascii_graph (last s) \<Longrightarrow> trim s = s"
  using white_space_not_graph strip_prefixes_none [of white_space_utf8 s]
    strip_prefixes_none [of "map rev white_space_utf8" "rev s"]
  unfolding trim_def by (metis hd_rev rev_is_Nil_conv rev_rev_ident)

section \<open>Separator-delimited keys\<close>

locale sep_format =
  fixes sep :: char
    and field :: "string \<Rightarrow> bool"
  assumes field_sep: "field s \<Longrightarrow> sep \<notin> set s"
begin

lemma key_inj:
  assumes "field a" and "field b"
  shows "a @ sep # x = b @ sep # y \<longleftrightarrow> a = b \<and> x = y"
proof -
  have "a = takeWhile (\<lambda>c. c \<noteq> sep) (a @ sep # x)" "b = takeWhile (\<lambda>c. c \<noteq> sep) (b @ sep # y)"
    using field_sep [OF assms(1)] field_sep [OF assms(2)] by (auto simp: takeWhile_append)
  then show ?thesis by (metis append_same_eq same_append_eq list.inject)
qed

lemma prefix_unique:
  assumes "field a" and "field b" and "starts_with k (a @ [sep])" and "starts_with k (b @ [sep])"
  shows "a = b"
proof -
  obtain x y where "k = a @ sep # x" "k = b @ sep # y"
    using assms(3,4) unfolding starts_with_def
    by (metis append_take_drop_id append.assoc append_Cons append_Nil)
  then show ?thesis using key_inj [OF assms(1,2), of x y] by simp
qed

end

section \<open>Lemmas on results and words\<close>

lemma and_then_Inr: "and_then r f = Inr y \<longleftrightarrow> (\<exists>x. r = Inr x \<and> f x = Inr y)"
  by (cases r) auto

lemma and_then_Inl: "and_then r f = Inl e \<longleftrightarrow> r = Inl e \<or> (\<exists>x. r = Inr x \<and> f x = Inl e)"
  by (cases r) auto

lemma map_sum_eq_Inr: "map_sum f g r = Inr x \<longleftrightarrow> (\<exists>y. r = Inr y \<and> x = g y)"
  by (cases r) auto

lemma apsnd_eq_iff: "apsnd f p = (a, b) \<longleftrightarrow> (\<exists>x. p = (a, x) \<and> f x = b)"
  by (cases p) auto

lemma ok_or_Inr [simp]: "ok_or e m = Inr x \<longleftrightarrow> m = Some x"
  by (cases m) auto

lemma unat_u64_bound: "unat (w :: u64) < 2 ^ 64"
  by (rule order.strict_trans2 [OF unsigned_less]) simp

lemma checked_add_u64_Some:
  "checked_add_u64 a b = Some c \<longleftrightarrow> unat a + unat b < 2 ^ 64 \<and> c = a + b"
  by (auto simp: checked_add_u64_def)

lemma unat_add_u64: "unat a + unat (b :: u64) < 2 ^ 64 \<Longrightarrow> unat (a + b) = unat a + unat b"
  by (simp add: unat_word_ariths)

lemma checked_add_one_lt:
  assumes "(a :: u64) < m"
  shows "checked_add_u64 a 1 = Some (a + 1)" and "unat (a + 1) = unat a + 1"
proof -
  have "unat a < unat m" using assms by (simp add: word_less_nat_alt)
  then have "unat a + unat (1 :: u64) < 2 ^ 64" using unat_u64_bound [of m] by simp
  then show "checked_add_u64 a 1 = Some (a + 1)" and "unat (a + 1) = unat a + 1"
    using unat_add_u64 [of a 1] by (simp_all add: checked_add_u64_def)
qed

lemma unat_saturating_add_u64:
  "unat (saturating_add_u64 a b) = min (unat a + unat b) (2 ^ 64 - 1)"
proof (cases "unat a + unat b < 2 ^ 64")
  case True
  then show ?thesis using unat_add_u64 [OF True] by (simp add: saturating_add_u64_def)
next
  case False
  then show ?thesis by (simp add: saturating_add_u64_def unsigned_minus_1_eq_mask mask_eq_exp_minus_1)
qed

lemma clamp_u64_bounds: "lo \<le> hi \<Longrightarrow> lo \<le> clamp_u64 x lo hi \<and> clamp_u64 x lo hi \<le> hi"
  by (auto simp: clamp_u64_def)

section \<open>Lemmas on strings\<close>

lemma starts_with_append [simp]: "starts_with (p @ s) p"
  by (simp add: starts_with_def)

lemma starts_with_iff: "starts_with s p \<longleftrightarrow> (\<exists>t. s = p @ t)"
  by (metis append_eq_conv_conj starts_with_def)

lemma split_char_nonempty [simp]: "split_char c s \<noteq> []"
  by (cases s) (auto split: list.splits)

lemma split_char_no_sep: "p \<in> set (split_char c s) \<Longrightarrow> c \<notin> set p"
  by (induction s arbitrary: p) (auto split: if_splits list.splits)

lemma join_cons: "ps \<noteq> [] \<Longrightarrow> join sep (p # ps) = p @ sep @ join sep ps"
  by (cases ps) auto

lemma join_split_char: "join [c] (split_char c s) = s"
proof (induction s)
  case (Cons x xs)
  obtain p ps where p: "split_char c xs = p # ps"
    by (metis split_char_nonempty list.exhaust)
  show ?case
    using Cons.IH p by (cases ps) (auto simp: join_cons)
qed simp

lemma split_char_no_occ: "c \<notin> set s \<Longrightarrow> split_char c s = [s]"
  by (induction s) auto

lemma split_char_append: "c \<notin> set p \<Longrightarrow> split_char c (p @ c # s) = p # split_char c s"
  by (induction p) auto

lemma split_char_join:
  "ps \<noteq> [] \<Longrightarrow> (\<And>p. p \<in> set ps \<Longrightarrow> c \<notin> set p) \<Longrightarrow> split_char c (join [c] ps) = ps"
proof (induction ps)
  case (Cons p ps)
  show ?case
    using Cons by (cases ps) (auto simp: split_char_no_occ split_char_append)
qed simp

lemma split_once_char_Some:
  "split_once_char c s = Some (a, b) \<longleftrightarrow> s = a @ c # b \<and> c \<notin> set a"
proof (induction s arbitrary: a)
  case (Cons x xs)
  show ?case
  proof (cases a)
    case Nil
    then show ?thesis by auto
  next
    case (Cons y ys)
    then show ?thesis using Cons.IH [of ys] by (auto simp: Cons.IH)
  qed
qed simp

lemma of_char_digit: "d < 10 \<Longrightarrow> of_char (digit_char d) = (48 + d :: nat)"
  by (simp add: digit_char_def)

lemma is_ascii_digit_digit_char [simp]: "d < 10 \<Longrightarrow> is_ascii_digit (digit_char d)"
  by (simp add: is_ascii_digit_def of_char_digit)

lemma dec_of_nat_digits: "list_all is_ascii_digit (dec_of_nat n) \<and> dec_of_nat n \<noteq> []"
proof (induction n rule: dec_of_nat.induct)
  case (1 n)
  then show ?case by (subst (1 2) dec_of_nat.simps) auto
qed

lemma digits_value_snoc: "digits_value (s @ [c]) = 10 * digits_value s + (of_char c - 48)"
  by (simp add: digits_value_def)

lemma digits_value_dec: "digits_value (dec_of_nat n) = n"
proof (induction n rule: dec_of_nat.induct)
  case (1 n)
  show ?case
  proof (cases "n < 10")
    case True
    then show ?thesis
      by (subst dec_of_nat.simps) (simp add: digits_value_def of_char_digit)
  next
    case False
    then have "digits_value (dec_of_nat n) = 10 * digits_value (dec_of_nat (n div 10)) + n mod 10"
      by (subst dec_of_nat.simps) (simp add: digits_value_snoc of_char_digit)
    with 1 False show ?thesis by simp
  qed
qed

lemma dec_of_nat_no_char: "\<not> is_ascii_digit c \<Longrightarrow> c \<notin> set (dec_of_nat n)"
  using dec_of_nat_digits [of n] by (auto simp: list_all_iff)

theorem parse_dec_of_u64: "parse_u64 (dec_of_u64 w) = Some w"
proof -
  obtain d ds where d: "dec_of_nat (unat w) = d # ds" "is_ascii_digit d"
    using dec_of_nat_digits [of "unat w"] by (cases "dec_of_nat (unat w)") auto
  then have "d \<noteq> CHR ''+''" by (auto simp: is_ascii_digit_def)
  moreover have "digits_value (d # ds) = unat w"
    using digits_value_dec [of "unat w"] d by simp
  ultimately show ?thesis
    using d dec_of_nat_digits [of "unat w"] unat_u64_bound [of w]
    by (simp add: parse_u64_def dec_of_u64_def)
qed

end
