(* ===== verification/Auth_Context.thy ===== *)
theory Auth_Context
  imports Kernel_Prelude
begin

text \<open>
  Principals and tenant contexts (\<open>kernel-data/src/auth_context.rs\<close>): the validated
  newtypes \<open>TenantId\<close> and \<open>UserId\<close>, the \<open>TenantContext\<close> every data operation takes, and
  the reserved system context. The database handle is a type parameter: the code only
  stores it and passes it on.
\<close>

section \<open>Definitions\<close>

definition principal_byte :: "char \<Rightarrow> bool" where
  "principal_byte b \<longleftrightarrow>
     is_ascii_lower b \<or> is_ascii_upper b \<or> is_ascii_digit b
     \<or> b = CHR ''-'' \<or> b = CHR ''_'' \<or> b = CHR ''.''"

definition is_valid_principal :: "string \<Rightarrow> bool" where
  "is_valid_principal value \<longleftrightarrow>
     value \<noteq> [] \<and> length value \<le> 128 \<and> list_all principal_byte value"

datatype tenant_id = TenantId (tenant_str: string)
datatype user_id = UserId (user_str: string)

definition principal_new :: "string \<Rightarrow> bool \<Rightarrow> string \<Rightarrow> string + string" where
  "principal_new label reserve_system s =
     (if is_valid_principal s \<and> \<not> (reserve_system \<and> s = ''system'')
      then Inr s else Inl (''Invalid '' @ label @ '' format''))"

definition TenantId_new :: "string \<Rightarrow> string + tenant_id" where
  "TenantId_new s = map_sum id TenantId (principal_new ''tenant_id'' True s)"

definition UserId_new :: "string \<Rightarrow> string + user_id" where
  "UserId_new s = map_sum id UserId (principal_new ''user_id'' False s)"

record 'db tenant_context =
  ctx_tenant_id :: tenant_id
  ctx_user_id :: "user_id option"
  ctx_db :: "'db option"

definition TenantContext_new :: "tenant_id \<Rightarrow> user_id option \<Rightarrow> 'db tenant_context" where
  "TenantContext_new t u = \<lparr>ctx_tenant_id = t, ctx_user_id = u, ctx_db = None\<rparr>"

definition with_db :: "'db tenant_context \<Rightarrow> 'db \<Rightarrow> 'db tenant_context" where
  "with_db ctx db = ctx\<lparr>ctx_db := Some db\<rparr>"

definition is_system :: "'db tenant_context \<Rightarrow> bool" where
  "is_system ctx \<longleftrightarrow> tenant_str (ctx_tenant_id ctx) = ''system''"

definition context_db :: "'db tenant_context \<Rightarrow> string + 'db" where
  "context_db ctx = ok_or ''Database connection not attached to context'' (ctx_db ctx)"

definition system_tenant_context :: "'db tenant_context" where
  "system_tenant_context = \<lparr>ctx_tenant_id = TenantId ''system'', ctx_user_id = None, ctx_db = None\<rparr>"

definition with_system_context ::
    "'db tenant_context \<Rightarrow> ('db tenant_context \<Rightarrow> 'r) \<Rightarrow> string + 'r" where
  "with_system_context ctx f =
     (case ctx_db ctx of
        None \<Rightarrow> Inl ''Database connection not attached to context''
      | Some db \<Rightarrow> Inr (f (with_db system_tenant_context db)))"

lemmas [kernel_defs] =
  TenantContext_new_def with_db_def is_system_def context_db_def system_tenant_context_def
  with_system_context_def TenantId_new_def UserId_new_def principal_new_def

section \<open>Principals never contain a key separator\<close>

lemma principal_byte_colon [simp]: "\<not> principal_byte CHR '':''"
  by (simp add: principal_byte_def is_ascii_lower_def is_ascii_upper_def is_ascii_digit_def)

lemma principal_byte_slash [simp]: "\<not> principal_byte CHR ''/''"
  by (simp add: principal_byte_def is_ascii_lower_def is_ascii_upper_def is_ascii_digit_def)

interpretation colon_key: sep_format "CHR '':''" is_valid_principal
  by unfold_locales (auto simp: is_valid_principal_def list_all_iff)

interpretation slash_key: sep_format "CHR ''/''" is_valid_principal
  by unfold_locales (auto simp: is_valid_principal_def list_all_iff)

lemma TenantId_new_Inr:
  "TenantId_new s = Inr t \<longleftrightarrow> t = TenantId s \<and> is_valid_principal s \<and> s \<noteq> ''system''"
  by (auto simp: kernel_defs)

lemma UserId_new_Inr: "UserId_new s = Inr u \<longleftrightarrow> u = UserId s \<and> is_valid_principal s"
  by (auto simp: kernel_defs)

lemma valid_principal_system [simp]: "is_valid_principal ''system''"
  by (simp add: is_valid_principal_def principal_byte_def is_ascii_lower_def)

section \<open>Properties\<close>

text \<open>
  A context built from any string that \<open>TenantId::new\<close> accepts is never the
  system context, and \<open>with_system_context\<close> is the only way up: it runs its closure on a
  context that is the system's, carries no user and uses the caller's own connection, and
  it refuses when no connection is attached.
\<close>

theorem system_context_not_forgeable:
  fixes db :: 'db
  assumes "TenantId_new s = Inr t"
  shows "\<not> is_system (TenantContext_new t u :: 'db tenant_context)
    \<and> \<not> is_system (with_db (TenantContext_new t u) db)
    \<and> with_system_context (with_db (TenantContext_new t u) db)
          (\<lambda>c. (is_system c, ctx_user_id c, ctx_db c)) = Inr (True, None, Some db)
    \<and> (\<exists>e. with_system_context (TenantContext_new t u :: 'db tenant_context) f = Inl e)"
  using assms by (auto simp: TenantId_new_Inr) (auto simp: kernel_defs)

theorem system_context_not_forgeable_witness:
  "TenantId_new ''tenant_001'' = Inr (TenantId ''tenant_001'')
   \<and> \<not> is_system (TenantContext_new (TenantId ''tenant_001'') None :: nat tenant_context)"
proof -
  have h: "TenantId_new ''tenant_001'' = Inr (TenantId ''tenant_001'')"
    by (simp add: TenantId_new_Inr is_valid_principal_def principal_byte_def is_ascii_lower_def
        is_ascii_digit_def)
  show ?thesis using h system_context_not_forgeable [OF h, where u = None and db = "0 :: nat"] by blast
qed

end
