(* ===== verification/Event_Types.thy ===== *)
theory Event_Types
  imports Auth_Context
begin

text \<open>
  The event vocabulary of \<open>kernel-data/src/event/types.rs\<close>: order modes, ordering keys,
  envelopes, deliveries, the sharding rule and the tenant check on stream keys, with the
  two order-mode functions of \<open>kernel-core/src/event.rs\<close>.

  Two pieces of third-party code are arguments: \<open>ustr\<close>, the \<open>Display\<close> rendering of a
  \<open>Uuid\<close>, and \<open>xxh64\<close>, twox-hash's XxHash64 with seed 0. An error carries the values its
  message formats rather than the rendered text. The JSON payload is a type parameter,
  since no operation looks into it.
\<close>

section \<open>Data\<close>

type_synonym uuid = "128 word"

datatype order_mode =
    OrderMode_Entity uuid "u64 option"
  | OrderMode_Causality string "u64 option"

datatype ordering_key =
    OrderingKey_Entity uuid
  | OrderingKey_Causality string

record tenant_scoped_ordering_key =
  tsk_tenant_id :: tenant_id
  tsk_ordering :: ordering_key

datatype event_message =
    StreamKeyMismatch string tenant_id
  | RebuildRequiredFor string u64
  | MissingOrderingSequence string
  | OrderingKeyMismatch string tenant_scoped_ordering_key tenant_scoped_ordering_key
  | SequenceOverflow tenant_scoped_ordering_key
  | ReplayKeyMismatch tenant_scoped_ordering_key tenant_scoped_ordering_key
  | ReplayGapKeyMismatch tenant_scoped_ordering_key tenant_scoped_ordering_key
  | ReplayMissingSequence
  | ReplaySequenceMismatch u64 u64
  | NoActiveGap
  | ReplayNotActiveGap
  | ReplaySequenceOverflow tenant_scoped_ordering_key
  | MismatchedEntityId uuid uuid
  | MismatchedCausalityKey string string
  | MixedOrderMode
  | Message string

datatype event_error =
    Serialization string
  | Store string
  | Producer event_message
  | Consumer event_message

record 'p event_envelope =
  event_id :: uuid
  ev_tenant_id :: tenant_id
  ev_order_mode :: order_mode
  payload :: 'p
  created_at :: int
  event_type :: string

record 'p delivery =
  delivery_id :: string
  stream_key :: string
  dl_event :: "'p event_envelope"

datatype retry_policy = Immediate | BackoffUntil int

datatype ordering = Less | Equal | Greater

definition cmp_u64 :: "u64 \<Rightarrow> u64 \<Rightarrow> ordering" where
  "cmp_u64 a b = (if a < b then Less else if a = b then Equal else Greater)"

section \<open>Operations\<close>

fun om_ordering_key :: "order_mode \<Rightarrow> ordering_key" where
  "om_ordering_key (OrderMode_Entity entity_id seq) = OrderingKey_Entity entity_id"
| "om_ordering_key (OrderMode_Causality key seq) = OrderingKey_Causality key"

fun om_seq :: "order_mode \<Rightarrow> u64 option" where
  "om_seq (OrderMode_Entity entity_id seq) = seq"
| "om_seq (OrderMode_Causality key seq) = seq"

definition om_tenant_scoped_ordering_key ::
    "order_mode \<Rightarrow> tenant_id \<Rightarrow> tenant_scoped_ordering_key" where
  "om_tenant_scoped_ordering_key m t = \<lparr>tsk_tenant_id = t, tsk_ordering = om_ordering_key m\<rparr>"

fun ok_logical_key :: "(uuid \<Rightarrow> string) \<Rightarrow> ordering_key \<Rightarrow> string" where
  "ok_logical_key ustr (OrderingKey_Entity entity_id) = ustr entity_id"
| "ok_logical_key ustr (OrderingKey_Causality key) = key"

definition tsk_logical_key :: "(uuid \<Rightarrow> string) \<Rightarrow> tenant_scoped_ordering_key \<Rightarrow> string" where
  "tsk_logical_key ustr k = ok_logical_key ustr (tsk_ordering k)"

definition om_entity_or_causality_key :: "(uuid \<Rightarrow> string) \<Rightarrow> order_mode \<Rightarrow> string" where
  "om_entity_or_causality_key ustr m = ok_logical_key ustr (om_ordering_key m)"

definition tsk_shard_input :: "(uuid \<Rightarrow> string) \<Rightarrow> tenant_scoped_ordering_key \<Rightarrow> string" where
  "tsk_shard_input ustr k =
     (case tsk_ordering k of
        OrderingKey_Entity entity_id \<Rightarrow> tenant_str (tsk_tenant_id k) @ '':e:'' @ ustr entity_id
      | OrderingKey_Causality key \<Rightarrow> tenant_str (tsk_tenant_id k) @ '':c:'' @ key)"

definition SHARD_COUNT :: u64 where
  "SHARD_COUNT = 64"

definition calculate_shard :: "(string \<Rightarrow> u64) \<Rightarrow> string \<Rightarrow> u64" where
  "calculate_shard xxh64 key = xxh64 key mod SHARD_COUNT"

definition tsk_shard ::
    "(string \<Rightarrow> u64) \<Rightarrow> (uuid \<Rightarrow> string) \<Rightarrow> tenant_scoped_ordering_key \<Rightarrow> u64" where
  "tsk_shard xxh64 ustr k = calculate_shard xxh64 (tsk_shard_input ustr k)"

definition om_shard ::
    "(string \<Rightarrow> u64) \<Rightarrow> (uuid \<Rightarrow> string) \<Rightarrow> order_mode \<Rightarrow> tenant_id \<Rightarrow> u64" where
  "om_shard xxh64 ustr m t = tsk_shard xxh64 ustr (om_tenant_scoped_ordering_key m t)"

definition validate_stream_key :: "string \<Rightarrow> tenant_id \<Rightarrow> event_error + unit" where
  "validate_stream_key key t =
     (let prefix = tenant_str t @ '':''
      in if \<not> starts_with key prefix then Inl (Consumer (StreamKeyMismatch key t)) else Inr ())"

fun same_discriminant :: "order_mode \<Rightarrow> order_mode \<Rightarrow> bool" where
  "same_discriminant (OrderMode_Entity _ _) (OrderMode_Entity _ _) = True"
| "same_discriminant (OrderMode_Causality _ _) (OrderMode_Causality _ _) = True"
| "same_discriminant _ _ = False"

definition validate_order_mode_transition ::
    "order_mode option \<Rightarrow> order_mode \<Rightarrow> event_error + unit" where
  "validate_order_mode_transition existing nxt =
     (case existing of
        None \<Rightarrow> Inr ()
      | Some existing_mode \<Rightarrow>
          and_then
            (case (existing_mode, nxt) of
               (OrderMode_Entity e1 _, OrderMode_Entity e2 _) \<Rightarrow>
                 if e1 \<noteq> e2 then Inl (Producer (MismatchedEntityId e1 e2)) else Inr ()
             | (OrderMode_Causality k1 _, OrderMode_Causality k2 _) \<Rightarrow>
                 if k1 \<noteq> k2 then Inl (Producer (MismatchedCausalityKey k1 k2)) else Inr ()
             | _ \<Rightarrow> Inr ())
            (\<lambda>_. if \<not> same_discriminant existing_mode nxt
                 then Inl (Producer MixedOrderMode) else Inr ()))"

definition compare_event_order :: "'p event_envelope \<Rightarrow> 'p event_envelope \<Rightarrow> ordering option" where
  "compare_event_order a b =
     (case (ev_order_mode a, ev_order_mode b) of
        (OrderMode_Entity aid (Some aseq), OrderMode_Entity bid (Some bseq)) \<Rightarrow>
          if aid = bid then Some (cmp_u64 aseq bseq) else None
      | (OrderMode_Causality akey (Some aseq), OrderMode_Causality bkey (Some bseq)) \<Rightarrow>
          if akey = bkey then Some (cmp_u64 aseq bseq) else None
      | _ \<Rightarrow> None)"

section \<open>Sharding and tenant isolation\<close>

lemma cmp_u64_simps [simp]:
  "cmp_u64 a b = Less \<longleftrightarrow> a < b" "cmp_u64 a b = Equal \<longleftrightarrow> a = b" "cmp_u64 a b = Greater \<longleftrightarrow> b < a"
  by (auto simp: cmp_u64_def)

lemma tsk_shard_input_alt:
  "tsk_shard_input ustr k =
     tenant_str (tsk_tenant_id k) @ CHR '':'' #
       (case tsk_ordering k of OrderingKey_Entity i \<Rightarrow> CHR ''e'' # CHR '':'' # ustr i
                             | OrderingKey_Causality c \<Rightarrow> CHR ''c'' # CHR '':'' # c)"
  by (simp add: tsk_shard_input_def split: ordering_key.splits)

text \<open>
  The shard input is a faithful key. For tenants with valid identifiers,
  two scoped keys have the same shard input only if tenant, namespace and logical key are
  all equal, so an entity and a causality key with the same text, or two tenants, never
  share one; it always begins with the tenant's own prefix.
\<close>

theorem shard_input_injective:
  assumes "inj ustr"
    and "is_valid_principal (tenant_str (tsk_tenant_id k1))"
    and "is_valid_principal (tenant_str (tsk_tenant_id k2))"
  shows "(tsk_shard_input ustr k1 = tsk_shard_input ustr k2 \<longleftrightarrow> k1 = k2)
    \<and> validate_stream_key (tsk_shard_input ustr k1) (tsk_tenant_id k1) = Inr ()"
proof
  show "tsk_shard_input ustr k1 = tsk_shard_input ustr k2 \<longleftrightarrow> k1 = k2"
    unfolding tsk_shard_input_alt colon_key.key_inj [OF assms(2,3)]
    using assms(1)
    by (cases k1; cases k2) (auto split: ordering_key.splits dest: injD intro: tenant_id.expand)
  show "validate_stream_key (tsk_shard_input ustr k1) (tsk_tenant_id k1) = Inr ()"
    by (simp add: validate_stream_key_def tsk_shard_input_alt starts_with_def)
qed

theorem shard_input_injective_witness:
  "tsk_shard_input (\<lambda>u. dec_of_nat (unat u))
     \<lparr>tsk_tenant_id = TenantId ''t'', tsk_ordering = OrderingKey_Entity 7\<rparr>
   \<noteq> tsk_shard_input (\<lambda>u. dec_of_nat (unat u))
     \<lparr>tsk_tenant_id = TenantId ''t'', tsk_ordering = OrderingKey_Causality ''7''\<rparr>"
proof -
  have inj: "inj (\<lambda>u :: uuid. dec_of_nat (unat u))"
    by (rule injI) (metis digits_value_dec unsigned_word_eqI)
  have v: "is_valid_principal ''t''"
    by (simp add: is_valid_principal_def principal_byte_def is_ascii_lower_def)
  show ?thesis
    using shard_input_injective [OF inj, of
        "\<lparr>tsk_tenant_id = TenantId ''t'', tsk_ordering = OrderingKey_Entity 7\<rparr>"
        "\<lparr>tsk_tenant_id = TenantId ''t'', tsk_ordering = OrderingKey_Causality ''7''\<rparr>"] v
    by simp
qed

text \<open>
  Every event goes to one of the 64 shards, and the shard depends on the
  tenant and the ordering key alone, never on the sequence number, so that all events of
  one logical key share one stream.
\<close>

theorem shard_bounds_and_stable:
  "om_shard xxh64 ustr m t < SHARD_COUNT
   \<and> (om_ordering_key m = om_ordering_key m' \<longrightarrow> om_shard xxh64 ustr m t = om_shard xxh64 ustr m' t)"
  by (simp add: om_shard_def tsk_shard_def calculate_shard_def SHARD_COUNT_def
      om_tenant_scoped_ordering_key_def word_mod_less_divisor)

theorem shard_bounds_and_stable_witness:
  "om_shard (\<lambda>s. of_nat (length s)) (\<lambda>u. ''u'') (OrderMode_Causality ''k'' (Some 1)) (TenantId ''t'')
   = om_shard (\<lambda>s. of_nat (length s)) (\<lambda>u. ''u'') (OrderMode_Causality ''k'' None) (TenantId ''t'')"
  using shard_bounds_and_stable [of "\<lambda>s. of_nat (length s)" "\<lambda>u. ''u''"
      "OrderMode_Causality ''k'' (Some 1)" "TenantId ''t''" "OrderMode_Causality ''k'' None"]
  by simp

text \<open>
  Tenant isolation of stream keys. A stream key that \<open>validate_stream_key\<close>
  accepts for one tenant is refused, with a consumer error naming key and tenant, for
  every other tenant.
\<close>

theorem stream_key_isolation:
  assumes "is_valid_principal (tenant_str t1)" and "is_valid_principal (tenant_str t2)"
    and "validate_stream_key key t1 = Inr ()" and "t1 \<noteq> t2"
  shows "validate_stream_key key t2 = Inl (Consumer (StreamKeyMismatch key t2))"
proof -
  have "tenant_str t1 \<noteq> tenant_str t2" using assms(4) by (metis tenant_id.expand)
  moreover have "starts_with key (tenant_str t1 @ '':'')"
    using assms(3) by (simp add: validate_stream_key_def split: if_splits)
  ultimately have "\<not> starts_with key (tenant_str t2 @ '':'')"
    using colon_key.prefix_unique [OF assms(1,2)] by blast
  then show ?thesis by (simp add: validate_stream_key_def)
qed

theorem stream_key_isolation_witness:
  "validate_stream_key ''tenant-a:orders:0'' (TenantId ''tenant-a_1'')
   = Inl (Consumer (StreamKeyMismatch ''tenant-a:orders:0'' (TenantId ''tenant-a_1'')))"
  by (rule stream_key_isolation [of "TenantId ''tenant-a''"])
    (simp_all add: is_valid_principal_def principal_byte_def is_ascii_lower_def is_ascii_digit_def
      validate_stream_key_def starts_with_def)

section \<open>Order modes\<close>

text \<open>
  An order-mode transition is accepted exactly when there is no previous
  mode or both modes have the same ordering key; a change of namespace is always refused
  with the mixed-mode error.
\<close>

theorem order_mode_transition_spec:
  "(validate_order_mode_transition existing nxt = Inr ()
      \<longleftrightarrow> (case existing of None \<Rightarrow> True | Some m \<Rightarrow> om_ordering_key m = om_ordering_key nxt))
   \<and> validate_order_mode_transition (Some (OrderMode_Entity i s)) (OrderMode_Causality k s')
       = Inl (Producer MixedOrderMode)
   \<and> validate_order_mode_transition (Some (OrderMode_Causality k s')) (OrderMode_Entity i s)
       = Inl (Producer MixedOrderMode)"
  by (cases nxt) (auto simp: validate_order_mode_transition_def split: option.splits order_mode.splits)

lemma compare_event_order_Some:
  "compare_event_order a b = Some r \<longleftrightarrow>
     om_ordering_key (ev_order_mode a) = om_ordering_key (ev_order_mode b)
     \<and> (\<exists>x y. om_seq (ev_order_mode a) = Some x \<and> om_seq (ev_order_mode b) = Some y
              \<and> cmp_u64 x y = r)"
  by (auto simp: compare_event_order_def split: order_mode.splits option.splits)

fun flip_ordering :: "ordering \<Rightarrow> ordering" where
  "flip_ordering Less = Greater"
| "flip_ordering Equal = Equal"
| "flip_ordering Greater = Less"

lemma cmp_u64_flip: "flip_ordering (cmp_u64 a b) = cmp_u64 b a"
  by (auto simp: cmp_u64_def)

definition sample_event :: "u64 \<Rightarrow> unit event_envelope" where
  "sample_event n =
     \<lparr>event_id = 1, ev_tenant_id = TenantId ''t'', ev_order_mode = OrderMode_Entity 5 (Some n),
      payload = (), created_at = 0, event_type = ''entity.updated''\<rparr>"

text \<open>
  \<open>compare_event_order\<close> is a partial order on events: it is defined on
  events of the same logical key that both carry a sequence number, swapping the arguments
  flips the answer, and "before" is transitive.
\<close>

theorem compare_event_order_partial_order:
  "compare_event_order b a = map_option flip_ordering (compare_event_order a b)
   \<and> (compare_event_order a b = Some Less \<and> compare_event_order b c = Some Less
        \<longrightarrow> compare_event_order a c = Some Less)
   \<and> (compare_event_order a b = None \<longleftrightarrow>
        om_ordering_key (ev_order_mode a) \<noteq> om_ordering_key (ev_order_mode b)
        \<or> om_seq (ev_order_mode a) = None \<or> om_seq (ev_order_mode b) = None)"
proof (intro conjI impI)
  show "compare_event_order b a = map_option flip_ordering (compare_event_order a b)"
    by (auto simp: compare_event_order_def cmp_u64_flip split: order_mode.splits option.splits)
next
  assume "compare_event_order a b = Some Less \<and> compare_event_order b c = Some Less"
  then show "compare_event_order a c = Some Less"
    by (auto simp: compare_event_order_Some)
next
  show "compare_event_order a b = None \<longleftrightarrow>
        om_ordering_key (ev_order_mode a) \<noteq> om_ordering_key (ev_order_mode b)
        \<or> om_seq (ev_order_mode a) = None \<or> om_seq (ev_order_mode b) = None"
    by (auto simp: compare_event_order_def split: order_mode.splits option.splits)
qed

theorem compare_event_order_partial_order_witness:
  "compare_event_order (sample_event 1) (sample_event 3) = Some Less"
proof -
  have "compare_event_order (sample_event 1) (sample_event 2) = Some Less"
       "compare_event_order (sample_event 2) (sample_event 3) = Some Less"
    by (simp_all add: sample_event_def compare_event_order_def cmp_u64_def)
  then show ?thesis
    using compare_event_order_partial_order [of "sample_event 2" "sample_event 1" "sample_event 3"]
    by blast
qed

end
