(* ===== verification/Gap_Tracker.thy ===== *)
theory Gap_Tracker
  imports Event_Types
begin

text \<open>
  The gap tracker of \<open>kernel-core/src/event.rs\<close>: per ordering key, the next expected
  sequence number, the recovery state machine and the active gap.

  Every operation takes \<open>dbg\<close>, whether the build has debug assertions, and returns an
  option: \<open>None\<close> is the panic of \<open>debug_assert!\<close> in \<open>progress_gap_recovery\<close>. An
  operation on \<open>&mut self\<close> returns the new tracker beside its \<open>Result\<close>. The asynchronous
  \<open>lookup_missing\<close> closure is an argument; \<open>Instant\<close> is \<open>nat\<close>, whose truncated
  subtraction is \<open>Instant::duration_since\<close>.
\<close>

section \<open>Data\<close>

datatype gap_recovery_state = Normal | GapDetected | Recovering | RebuildRequired

record gap_observation =
  go_ordering_key :: tenant_scoped_ordering_key
  go_expected_seq :: u64
  go_actual_seq :: u64

datatype delivery_resolution =
    Apply
  | Duplicate
  | Resolution_GapDetected gap_observation
  | Deferred gap_observation

datatype 'p gap_recovery_action =
    AwaitingTimeout gap_observation
  | ReplayApply gap_observation "'p event_envelope"
  | MarkPoisonAndRebuild tenant_scoped_ordering_key

record gap_tracker =
  gt_ordering_key :: tenant_scoped_ordering_key
  gt_expected_seq :: u64
  gt_state :: gap_recovery_state
  gt_gap_started_at :: "instant option"
  gt_active_gap :: "gap_observation option"

section \<open>Operations\<close>

definition GapTracker_new :: "tenant_scoped_ordering_key \<Rightarrow> u64 \<Rightarrow> gap_tracker" where
  "GapTracker_new k n =
     \<lparr>gt_ordering_key = k, gt_expected_seq = n, gt_state = Normal,
      gt_gap_started_at = None, gt_active_gap = None\<rparr>"

definition progress_gap_recovery ::
    "bool \<Rightarrow> gap_recovery_state \<Rightarrow> bool \<Rightarrow> gap_recovery_state option" where
  "progress_gap_recovery dbg state outbox_has_missing_seq =
     (if state = Normal \<and> outbox_has_missing_seq
      then (if dbg then None else Some GapDetected)
      else Some (case (state, outbox_has_missing_seq) of
                   (Normal, _) \<Rightarrow> Normal
                 | (GapDetected, True) \<Rightarrow> Recovering
                 | (GapDetected, False) \<Rightarrow> RebuildRequired
                 | (Recovering, True) \<Rightarrow> Recovering
                 | (Recovering, False) \<Rightarrow> Normal
                 | (RebuildRequired, _) \<Rightarrow> RebuildRequired))"

definition observe_equal ::
    "bool \<Rightarrow> gap_tracker \<Rightarrow> instant \<Rightarrow> (gap_tracker \<times> (event_error + delivery_resolution)) option" where
  "observe_equal dbg t now =
     (case checked_add_u64 (gt_expected_seq t) 1 of
        None \<Rightarrow> Some (t, Inl (Consumer (SequenceOverflow (gt_ordering_key t))))
      | Some n \<Rightarrow>
          (case gt_active_gap t of
             Some g \<Rightarrow>
               if n < go_actual_seq g
               then Option.bind
                      (if gt_state t \<noteq> Normal then progress_gap_recovery dbg (gt_state t) True
                       else Some (gt_state t))
                      (\<lambda>st. Some (t\<lparr>gt_expected_seq := n, gt_state := st, gt_gap_started_at := Some now,
                                     gt_active_gap := Some (g\<lparr>go_expected_seq := n\<rparr>)\<rparr>, Inr Apply))
               else Some (t\<lparr>gt_expected_seq := n, gt_state := Normal, gt_gap_started_at := None,
                            gt_active_gap := None\<rparr>, Inr Apply)
           | None \<Rightarrow> Some (t\<lparr>gt_expected_seq := n, gt_state := Normal, gt_gap_started_at := None,
                             gt_active_gap := None\<rparr>, Inr Apply)))"

definition observe_greater ::
    "gap_tracker \<Rightarrow> u64 \<Rightarrow> instant \<Rightarrow> gap_tracker \<times> (event_error + delivery_resolution)" where
  "observe_greater t delivery_seq now =
     (case gt_active_gap t of
        Some g \<Rightarrow>
          let g' = (if delivery_seq > go_actual_seq g then g\<lparr>go_actual_seq := delivery_seq\<rparr> else g)
          in (t\<lparr>gt_active_gap := Some g'\<rparr>, Inr (Deferred g'))
      | None \<Rightarrow>
          let g = \<lparr>go_ordering_key = gt_ordering_key t, go_expected_seq = gt_expected_seq t,
                   go_actual_seq = delivery_seq\<rparr>
          in (t\<lparr>gt_state := GapDetected,
                gt_gap_started_at := Some (case gt_gap_started_at t of None \<Rightarrow> now | Some i \<Rightarrow> i),
                gt_active_gap := Some g\<rparr>, Inr (Resolution_GapDetected g)))"

definition observe_delivery ::
    "bool \<Rightarrow> gap_tracker \<Rightarrow> 'p delivery \<Rightarrow> instant
       \<Rightarrow> (gap_tracker \<times> (event_error + delivery_resolution)) option" where
  "observe_delivery dbg t d now =
     (if gt_state t = RebuildRequired
      then Some (t, Inl (Consumer (RebuildRequiredFor (delivery_id d) (gt_expected_seq t))))
      else case om_seq (ev_order_mode (dl_event d)) of
        None \<Rightarrow> Some (t, Inl (Consumer (MissingOrderingSequence (delivery_id d))))
      | Some delivery_seq \<Rightarrow>
          let delivery_key = om_tenant_scoped_ordering_key (ev_order_mode (dl_event d))
                               (ev_tenant_id (dl_event d))
          in if delivery_key \<noteq> gt_ordering_key t
             then Some (t, Inl (Consumer (OrderingKeyMismatch (delivery_id d) (gt_ordering_key t)
                                            delivery_key)))
             else (case cmp_u64 delivery_seq (gt_expected_seq t) of
                     Less \<Rightarrow> Some (t, Inr Duplicate)
                   | Equal \<Rightarrow> observe_equal dbg t now
                   | Greater \<Rightarrow> Some (observe_greater t delivery_seq now)))"

definition recover_gap ::
    "bool \<Rightarrow> gap_tracker \<Rightarrow> instant \<Rightarrow> duration
       \<Rightarrow> (gap_observation \<Rightarrow> event_error + 'p event_envelope option)
       \<Rightarrow> (gap_tracker \<times> (event_error + 'p gap_recovery_action option)) option" where
  "recover_gap dbg t now gap_timeout lookup_missing =
     (case gt_gap_started_at t of
        None \<Rightarrow> Some (t, Inr None)
      | Some started_at \<Rightarrow>
     (case gt_active_gap t of
        None \<Rightarrow> Some (t, Inr None)
      | Some gap \<Rightarrow>
          if now - started_at < gap_timeout then Some (t, Inr (Some (AwaitingTimeout gap)))
          else (case lookup_missing gap of
                  Inl e \<Rightarrow> Some (t, Inl e)
                | Inr maybe_missing \<Rightarrow>
                    let rebuild = Some (t\<lparr>gt_state := RebuildRequired, gt_gap_started_at := None,
                                          gt_active_gap := None\<rparr>,
                                        Inr (Some (MarkPoisonAndRebuild (go_ordering_key gap))))
                    in (case maybe_missing of
                          None \<Rightarrow> rebuild
                        | Some event \<Rightarrow>
                            if om_tenant_scoped_ordering_key (ev_order_mode event) (ev_tenant_id event)
                                 = go_ordering_key gap
                               \<and> om_seq (ev_order_mode event) = Some (go_expected_seq gap)
                            then Option.bind (progress_gap_recovery dbg (gt_state t) True)
                                   (\<lambda>st. Some (t\<lparr>gt_state := st, gt_gap_started_at := Some now\<rparr>,
                                               Inr (Some (ReplayApply gap event))))
                            else rebuild))))"

definition confirm_gap_replay ::
    "bool \<Rightarrow> gap_tracker \<Rightarrow> gap_observation \<Rightarrow> 'p event_envelope \<Rightarrow> instant
       \<Rightarrow> (gap_tracker \<times> (event_error + unit)) option" where
  "confirm_gap_replay dbg t gap event now =
     (let replay_key = om_tenant_scoped_ordering_key (ev_order_mode event) (ev_tenant_id event)
      in if replay_key \<noteq> gt_ordering_key t
         then Some (t, Inl (Consumer (ReplayKeyMismatch (gt_ordering_key t) replay_key)))
         else if go_ordering_key gap \<noteq> gt_ordering_key t
         then Some (t, Inl (Consumer (ReplayGapKeyMismatch (gt_ordering_key t) (go_ordering_key gap))))
         else case om_seq (ev_order_mode event) of
           None \<Rightarrow> Some (t, Inl (Consumer ReplayMissingSequence))
         | Some replay_seq \<Rightarrow>
             if replay_seq \<noteq> go_expected_seq gap
             then Some (t, Inl (Consumer (ReplaySequenceMismatch (go_expected_seq gap) replay_seq)))
             else if replay_seq < gt_expected_seq t then Some (t, Inr ())
             else (case gt_active_gap t of
                     None \<Rightarrow> Some (t, Inl (Consumer NoActiveGap))
                   | Some active_gap \<Rightarrow>
                       if go_ordering_key active_gap \<noteq> go_ordering_key gap
                          \<or> go_expected_seq active_gap \<noteq> go_expected_seq gap
                       then Some (t, Inl (Consumer ReplayNotActiveGap))
                       else (case checked_add_u64 (gt_expected_seq t) 1 of
                               None \<Rightarrow> Some (t, Inl (Consumer (ReplaySequenceOverflow (gt_ordering_key t))))
                             | Some n \<Rightarrow>
                                 if n < go_actual_seq active_gap
                                 then Option.bind (progress_gap_recovery dbg (gt_state t) True)
                                        (\<lambda>st. Some (t\<lparr>gt_expected_seq := n, gt_state := st,
                                                      gt_gap_started_at := Some now,
                                                      gt_active_gap := Some (active_gap\<lparr>go_expected_seq := n\<rparr>)\<rparr>,
                                                    Inr ()))
                                 else Option.bind (progress_gap_recovery dbg Recovering False)
                                        (\<lambda>st. Some (t\<lparr>gt_expected_seq := n, gt_state := st,
                                                      gt_gap_started_at := None,
                                                      gt_active_gap := None\<rparr>, Inr ())))))"

section \<open>The tracker as a transition system\<close>

text \<open>
  One step is one call by the consumer, labelled with its arguments and its outcome. The
  system pairs the tracker with the log of sequence numbers whose events have been
  accounted for: applied by \<open>observe_delivery\<close>, or confirmed by \<open>confirm_gap_replay\<close> at
  the expected position.
\<close>

datatype 'p gap_call =
    Observed "'p delivery" instant "event_error + delivery_resolution"
  | Recovered instant duration "gap_observation \<Rightarrow> event_error + 'p event_envelope option"
      "event_error + 'p gap_recovery_action option"
  | Confirmed gap_observation "'p event_envelope" instant "event_error + unit"

fun accounted :: "gap_tracker \<Rightarrow> 'p gap_call \<Rightarrow> u64 list" where
  "accounted t (Observed d now (Inr Apply)) =
     (case om_seq (ev_order_mode (dl_event d)) of Some n \<Rightarrow> [n] | None \<Rightarrow> [])"
| "accounted t (Confirmed gap event now (Inr _)) =
     (if om_seq (ev_order_mode event) = Some (gt_expected_seq t) then [gt_expected_seq t] else [])"
| "accounted t _ = []"

inductive gap_step :: "bool \<Rightarrow> gap_tracker \<times> u64 list \<Rightarrow> 'p gap_call \<Rightarrow> gap_tracker \<times> u64 list \<Rightarrow> bool"
  for dbg where
  observe: "observe_delivery dbg t d now = Some (t', r) \<Longrightarrow>
     gap_step dbg (t, log) (Observed d now r) (t', log @ accounted t (Observed d now r))"
| recover: "recover_gap dbg t now tmo lookup = Some (t', r) \<Longrightarrow>
     gap_step dbg (t, log) (Recovered now tmo lookup r) (t', log)"
| confirm: "confirm_gap_replay dbg t gap event now = Some (t', r) \<Longrightarrow>
     gap_step dbg (t, log) (Confirmed gap event now r) (t', log @ accounted t (Confirmed gap event now r))"

inductive_cases gap_stepE: "gap_step dbg s c s'"

definition gap_init :: "u64 \<Rightarrow> gap_tracker \<times> u64 list \<Rightarrow> bool" where
  "gap_init n s \<longleftrightarrow> (\<exists>k. s = (GapTracker_new k n, []))"

section \<open>The invariant\<close>

definition gap_inv :: "gap_tracker \<Rightarrow> bool" where
  "gap_inv t \<longleftrightarrow>
     (case gt_active_gap t of
        None \<Rightarrow> gt_state t \<in> {Normal, RebuildRequired} \<and> gt_gap_started_at t = None
      | Some g \<Rightarrow> gt_state t \<in> {GapDetected, Recovering} \<and> gt_gap_started_at t \<noteq> None
                 \<and> go_ordering_key g = gt_ordering_key t
                 \<and> go_expected_seq g = gt_expected_seq t
                 \<and> gt_expected_seq t < go_actual_seq g)"

definition gap_sys_inv :: "u64 \<Rightarrow> gap_tracker \<times> u64 list \<Rightarrow> bool" where
  "gap_sys_inv n s \<longleftrightarrow>
     gap_inv (fst s) \<and> n \<le> gt_expected_seq (fst s)
     \<and> map unat (snd s) = [unat n ..< unat (gt_expected_seq (fst s))]"

lemma gap_inv_new: "gap_inv (GapTracker_new k n)"
  by (simp add: gap_inv_def GapTracker_new_def)

text \<open>What one call does to the expected sequence number: nothing, or one step ahead.\<close>

definition advances :: "gap_tracker \<Rightarrow> gap_tracker \<Rightarrow> bool" where
  "advances t t' \<longleftrightarrow> unat (gt_expected_seq t') = unat (gt_expected_seq t) + 1"

lemma checked_add_one_Some:
  "checked_add_u64 a 1 = Some n \<Longrightarrow> unat n = unat a + 1"
  by (auto simp: checked_add_u64_Some unat_add_u64)

lemmas gap_call_splits =
  option.splits if_splits ordering.splits Option.bind_splits

lemma observe_delivery_step:
  assumes "gap_inv t" and "observe_delivery dbg t d now = Some (t', r)"
  shows "gap_inv t' \<and> gt_ordering_key t' = gt_ordering_key t
    \<and> (if r = Inr Apply
       then advances t t' \<and> om_seq (ev_order_mode (dl_event d)) = Some (gt_expected_seq t)
       else gt_expected_seq t' = gt_expected_seq t)"
  using assms
  by (auto simp: observe_delivery_def observe_equal_def observe_greater_def gap_inv_def advances_def
      progress_gap_recovery_def Let_def dest!: checked_add_one_Some split: gap_call_splits)

lemma recover_gap_step:
  assumes "gap_inv t" and "recover_gap dbg t now tmo lookup = Some (t', r)"
  shows "gap_inv t' \<and> gt_ordering_key t' = gt_ordering_key t \<and> gt_expected_seq t' = gt_expected_seq t"
  using assms
  by (auto simp: recover_gap_def gap_inv_def progress_gap_recovery_def Let_def
      split: gap_call_splits sum.splits)

lemma confirm_gap_replay_step:
  assumes "gap_inv t" and "confirm_gap_replay dbg t gap event now = Some (t', r)"
  shows "gap_inv t' \<and> gt_ordering_key t' = gt_ordering_key t
    \<and> (if r = Inr () \<and> om_seq (ev_order_mode event) = Some (gt_expected_seq t)
       then advances t t' else t' = t)"
  using assms
  by (auto simp: confirm_gap_replay_def gap_inv_def advances_def progress_gap_recovery_def Let_def
      dest!: checked_add_one_Some split: gap_call_splits)

section \<open>No panic\<close>

lemma progress_no_panic: "st \<noteq> Normal \<Longrightarrow> progress_gap_recovery dbg st b = progress_gap_recovery False st b"
  by (simp add: progress_gap_recovery_def)

lemma progress_returns: "st \<noteq> Normal \<Longrightarrow> \<exists>st'. progress_gap_recovery dbg st b = Some st'"
  by (simp add: progress_gap_recovery_def)

lemma observe_equal_release: "observe_equal dbg t now = observe_equal False t now"
  by (simp add: observe_equal_def progress_no_panic [of _ dbg] split: option.split)

lemma gap_inv_active_state: "gap_inv t \<Longrightarrow> gt_active_gap t = Some g \<Longrightarrow> gt_state t \<noteq> Normal"
  by (auto simp: gap_inv_def)

lemma observe_delivery_returns:
  "\<exists>t' r. observe_delivery dbg t d now = Some (t', r)"
  using progress_returns [of "gt_state t" dbg True]
  by (auto simp: observe_delivery_def observe_equal_def Let_def split: option.splits ordering.splits)

lemma recover_gap_returns:
  assumes "gap_inv t"
  shows "\<exists>t' r. recover_gap dbg t now tmo lookup = Some (t', r)"
  using progress_returns [OF gap_inv_active_state [OF assms], of _ dbg True]
  by (fastforce simp: recover_gap_def Let_def split: option.splits sum.splits)

lemma confirm_gap_replay_returns:
  assumes "gap_inv t"
  shows "\<exists>t' r. confirm_gap_replay dbg t gap event now = Some (t', r)"
  using progress_returns [OF gap_inv_active_state [OF assms], of _ dbg True]
    progress_returns [of Recovering dbg False]
  by (fastforce simp: confirm_gap_replay_def Let_def split: option.splits)

section \<open>Every reachable tracker\<close>

lemma accounted_apply:
  "accounted t (Observed d now r) =
     (if r = Inr Apply
      then (case om_seq (ev_order_mode (dl_event d)) of Some n \<Rightarrow> [n] | None \<Rightarrow> []) else [])"
  by (cases r; cases "projr r") auto

lemma accounted_confirm:
  "accounted t (Confirmed gap event now r) =
     (if r = Inr () \<and> om_seq (ev_order_mode event) = Some (gt_expected_seq t)
      then [gt_expected_seq t] else [])"
  by (cases r) auto

lemma gap_sys_inv_advance:
  assumes "gap_sys_inv n (t, log)" and "gap_inv t'" and "advances t t'"
  shows "gap_sys_inv n (t', log @ [gt_expected_seq t])"
  using assms by (auto simp: gap_sys_inv_def advances_def word_le_nat_alt)

lemma gap_sys_inv_stay:
  assumes "gap_sys_inv n (t, log)" and "gap_inv t'" and "gt_expected_seq t' = gt_expected_seq t"
  shows "gap_sys_inv n (t', log)"
  using assms by (auto simp: gap_sys_inv_def)

lemma gap_step_inv:
  assumes "gap_sys_inv n s" and "gap_step dbg s c s'"
  shows "gap_sys_inv n s'"
  using assms(2)
proof (cases rule: gap_step.cases)
  case (observe t d now t' r log)
  then have "gap_sys_inv n (t, log)" "gap_inv t" using assms(1) by (auto simp: gap_sys_inv_def)
  then show ?thesis
    using observe_delivery_step [OF \<open>gap_inv t\<close> observe(4)] observe
    by (auto simp: accounted_apply intro: gap_sys_inv_advance gap_sys_inv_stay split: if_splits)
next
  case (recover t now tmo lookup t' r log)
  then have "gap_sys_inv n (t, log)" "gap_inv t" using assms(1) by (auto simp: gap_sys_inv_def)
  then show ?thesis
    using recover_gap_step [OF \<open>gap_inv t\<close> recover(4)] recover by (auto intro: gap_sys_inv_stay)
next
  case (confirm t gap event now t' r log)
  then have "gap_sys_inv n (t, log)" "gap_inv t" using assms(1) by (auto simp: gap_sys_inv_def)
  then show ?thesis
    using confirm_gap_replay_step [OF \<open>gap_inv t\<close> confirm(4)] confirm
    by (auto simp: accounted_confirm intro: gap_sys_inv_advance gap_sys_inv_stay split: if_splits)
qed

interpretation gap: invariant_system "gap_init n" "gap_step dbg" "gap_sys_inv n" for n dbg
proof
  show "gap_init n s \<Longrightarrow> gap_sys_inv n s" for s
    by (auto simp: gap_init_def gap_sys_inv_def gap_inv_new) (simp add: GapTracker_new_def)+
  show "gap_sys_inv n s \<Longrightarrow> gap_step dbg s a s' \<Longrightarrow> gap_sys_inv n s'" for s a s'
    by (rule gap_step_inv)
qed

section \<open>Properties\<close>

definition sample_key :: tenant_scoped_ordering_key where
  "sample_key = \<lparr>tsk_tenant_id = TenantId ''t'', tsk_ordering = OrderingKey_Entity 5\<rparr>"

definition sample_delivery :: "u64 \<Rightarrow> unit delivery" where
  "sample_delivery n = \<lparr>delivery_id = ''1-0'', stream_key = ''t:events:0'', dl_event = sample_event n\<rparr>"

definition sample_gap_tracker :: gap_tracker where
  "sample_gap_tracker =
     \<lparr>gt_ordering_key = sample_key, gt_expected_seq = 3, gt_state = GapDetected,
      gt_gap_started_at = Some 10,
      gt_active_gap = Some \<lparr>go_ordering_key = sample_key, go_expected_seq = 3, go_actual_seq = 5\<rparr>\<rparr>"

lemmas sample_gap_defs =
  sample_key_def sample_delivery_def sample_event_def sample_gap_tracker_def GapTracker_new_def
  om_tenant_scoped_ordering_key_def cmp_u64_def

abbreviation sample_step :: "gap_tracker \<times> u64 list \<Rightarrow> unit gap_call \<Rightarrow> gap_tracker \<times> u64 list \<Rightarrow> bool" where
  "sample_step \<equiv> gap_step True"

lemma sample_gap_reachable: "reachable (gap_init 2) sample_step (sample_gap_tracker, [2])"
proof -
  let ?t0 = "GapTracker_new sample_key 2" and ?t1 = "GapTracker_new sample_key 3"
  have "gap_step True (?t0, []) (Observed (sample_delivery 2) 7 (Inr Apply))
          (?t1, [] @ accounted ?t0 (Observed (sample_delivery 2) 7 (Inr Apply)))"
    by (rule gap_step.observe)
      (simp add: sample_gap_defs observe_delivery_def observe_equal_def checked_add_u64_def)
  then have 1: "gap_step True (?t0, []) (Observed (sample_delivery 2) 7 (Inr Apply)) (?t1, [2])"
    by (simp add: sample_gap_defs)
  let ?r = "Inr (Resolution_GapDetected
                 \<lparr>go_ordering_key = sample_key, go_expected_seq = 3, go_actual_seq = 5\<rparr>)"
  have "gap_step True (?t1, [2]) (Observed (sample_delivery 5) 10 ?r)
          (sample_gap_tracker, [2] @ accounted ?t1 (Observed (sample_delivery 5) 10 ?r))"
    by (rule gap_step.observe) (simp add: sample_gap_defs observe_delivery_def observe_greater_def Let_def)
  then have 2: "gap_step True (?t1, [2]) (Observed (sample_delivery 5) 10 ?r) (sample_gap_tracker, [2])"
    by simp
  have "gap_init 2 (?t0, [])" by (auto simp: gap_init_def)
  then have "reachable (gap_init 2) sample_step (?t0, [])" by (rule reachable.reach_init)
  then have "reachable (gap_init 2) sample_step (?t1, [2])"
    by (rule reachable.reach_step) (rule 1)
  then show ?thesis by (rule reachable.reach_step) (rule 2)
qed

text \<open>
  C1 (safety): exactly once, in order. However deliveries, recovery polls and replay
  confirmations interleave, in whatever order and with whatever duplicates they arrive,
  the sequence numbers accounted for by a tracker started at \<open>n\<close> are exactly
  \<open>n, n+1, ...\<close> up to the expected one: none is skipped, repeated or reordered.
\<close>

theorem gap_exactly_once_in_order:
  assumes "reachable (gap_init n) (gap_step dbg) (t, log)"
  shows "map unat log = [unat n ..< unat (gt_expected_seq t)]"
  using gap.reachable_inv [OF assms] by (simp add: gap_sys_inv_def)

theorem gap_exactly_once_in_order_witness:
  "map unat [2 :: u64] = [unat (2 :: u64) ..< unat (gt_expected_seq sample_gap_tracker)]"
  by (rule gap_exactly_once_in_order [OF sample_gap_reachable])

text \<open>
  in every reachable state the tracker is consistent: an active gap exists
  exactly in the states \<open>GapDetected\<close> and \<open>Recovering\<close>, with its timer running; it is a
  gap of the tracker's own key that starts at the expected sequence number and ends
  strictly after it.
\<close>

theorem gap_state_consistent:
  assumes "reachable (gap_init n) (gap_step dbg) (t, log)"
  shows "(gt_state t \<in> {GapDetected, Recovering} \<longleftrightarrow> gt_active_gap t \<noteq> None)
    \<and> (gt_gap_started_at t = None \<longleftrightarrow> gt_active_gap t = None)
    \<and> (\<forall>g. gt_active_gap t = Some g \<longrightarrow>
         go_ordering_key g = gt_ordering_key t \<and> go_expected_seq g = gt_expected_seq t
         \<and> gt_expected_seq t < go_actual_seq g)"
  using gap.reachable_inv [OF assms] by (auto simp: gap_sys_inv_def gap_inv_def split: option.splits)

theorem gap_state_consistent_witness:
  "gt_expected_seq sample_gap_tracker < 5"
  using gap_state_consistent [OF sample_gap_reachable] by (simp add: sample_gap_tracker_def)

text \<open>
  The debug assertion of \<open>progress_gap_recovery\<close> never fires. In every
  reachable state all three operations return, in debug and in release builds alike, and
  both builds compute the same tracker and the same result.
\<close>

theorem gap_operations_never_panic:
  assumes "reachable (gap_init n) (gap_step dbg) (t, log)"
  shows "(\<exists>t' r. observe_delivery True t d now = Some (t', r) \<and> observe_delivery False t d now = Some (t', r))
    \<and> (\<exists>t' r. recover_gap True t now tmo lookup = Some (t', r) \<and> recover_gap False t now tmo lookup = Some (t', r))
    \<and> (\<exists>t' r. confirm_gap_replay True t gap event now = Some (t', r)
              \<and> confirm_gap_replay False t gap event now = Some (t', r))"
proof -
  have inv: "gap_inv t" using gap.reachable_inv [OF assms] by (simp add: gap_sys_inv_def)
  have "observe_delivery True t d now = observe_delivery False t d now"
    unfolding observe_delivery_def observe_equal_release [of True] ..
  moreover have "recover_gap True t now tmo lookup = recover_gap False t now tmo lookup"
    using gap_inv_active_state [OF inv]
    by (simp add: recover_gap_def progress_no_panic [of _ True] Let_def split: option.split sum.split)
  moreover have "confirm_gap_replay True t gap event now = confirm_gap_replay False t gap event now"
    using gap_inv_active_state [OF inv]
    by (simp add: confirm_gap_replay_def progress_no_panic [of _ True] Let_def split: option.split)
  ultimately show ?thesis
    using observe_delivery_returns [of False t d now] recover_gap_returns [OF inv, of False now tmo lookup]
      confirm_gap_replay_returns [OF inv, of False gap event now] by simp
qed

theorem gap_operations_never_panic_witness:
  "\<exists>t' r. confirm_gap_replay True sample_gap_tracker
     \<lparr>go_ordering_key = sample_key, go_expected_seq = 3, go_actual_seq = 5\<rparr> (sample_event 3) 20
     = Some (t', r)"
  using gap_operations_never_panic [OF sample_gap_reachable] by blast

lemma rebuild_step:
  assumes "gap_inv t" and "gt_state t = RebuildRequired" and "gap_step dbg (t, log) c (t', log')"
  shows "t' = t"
  using assms(3)
proof (cases rule: gap_step.cases)
  case (confirm gap event now r)
  then show ?thesis
    using assms(1,2)
    by (auto simp: confirm_gap_replay_def gap_inv_def Let_def split: option.splits if_splits)
qed (use assms(1,2) in \<open>auto simp: observe_delivery_def recover_gap_def gap_inv_def split: option.splits\<close>)

text \<open>
  \<open>RebuildRequired\<close> is absorbing. Once a reachable tracker needs a rebuild,
  no sequence of calls changes it, and every later delivery is refused with an error.
\<close>

theorem rebuild_required_absorbing:
  assumes "reachable (gap_init n) (gap_step dbg) (t, log)" and "gt_state t = RebuildRequired"
    and "run (gap_step dbg) (t, log) calls (t', log')"
  shows "t' = t \<and> observe_delivery dbg t' d now
    = Some (t', Inl (Consumer (RebuildRequiredFor (delivery_id d) (gt_expected_seq t))))"
proof -
  have inv: "gap_inv t" using gap.reachable_inv [OF assms(1)] by (simp add: gap_sys_inv_def)
  have "fst s' = fst s" if "run (gap_step dbg) s calls s'" "gap_inv (fst s)" "gt_state (fst s) = RebuildRequired"
    for s s'
    using that
  proof (induction rule: run.induct)
    case (run_cons s a s' as s'')
    then have "fst s' = fst s" using rebuild_step [of "fst s" dbg "snd s" a "fst s'" "snd s'"] by simp
    then show ?case using run_cons by simp
  qed simp
  from this [OF assms(3)] have "t' = t" using inv assms(2) by simp
  then show ?thesis using assms(2) by (simp add: observe_delivery_def)
qed

lemma sample_rebuild_reachable:
  "reachable (gap_init 2) sample_step
     (sample_gap_tracker\<lparr>gt_state := RebuildRequired, gt_gap_started_at := None, gt_active_gap := None\<rparr>, [2])"
  by (rule reachable.reach_step [OF sample_gap_reachable
        gap_step.recover [where now = 20 and tmo = 5 and lookup = "\<lambda>_. Inr None"
          and r = "Inr (Some (MarkPoisonAndRebuild sample_key))"]])
    (simp add: recover_gap_def sample_gap_tracker_def Let_def)

theorem rebuild_required_absorbing_witness:
  "observe_delivery True
     (sample_gap_tracker\<lparr>gt_state := RebuildRequired, gt_gap_started_at := None, gt_active_gap := None\<rparr>)
     (sample_delivery 3) 30
   = Some (sample_gap_tracker\<lparr>gt_state := RebuildRequired, gt_gap_started_at := None, gt_active_gap := None\<rparr>,
       Inl (Consumer (RebuildRequiredFor ''1-0'' 3)))"
  using rebuild_required_absorbing [OF sample_rebuild_reachable _ run.run_nil, of "sample_delivery 3" 30]
  by (simp add: sample_delivery_def sample_gap_tracker_def)

section \<open>Recovery closes the gap\<close>

text \<open>
  The documented protocol of a consumer: poll \<open>recover_gap\<close> once the timeout has passed,
  apply the replayed event and confirm it.
\<close>

definition replay_round ::
    "bool \<Rightarrow> gap_tracker \<Rightarrow> instant \<Rightarrow> duration
       \<Rightarrow> (gap_observation \<Rightarrow> event_error + 'p event_envelope option) \<Rightarrow> gap_tracker option" where
  "replay_round dbg t now tmo lookup =
     (case recover_gap dbg t now tmo lookup of
        Some (t1, Inr (Some (ReplayApply gap event))) \<Rightarrow>
          (case confirm_gap_replay dbg t1 gap event now of
             Some (t2, Inr ()) \<Rightarrow> Some t2
           | _ \<Rightarrow> None)
      | _ \<Rightarrow> None)"

fun replay_rounds ::
    "bool \<Rightarrow> duration \<Rightarrow> (gap_observation \<Rightarrow> event_error + 'p event_envelope option)
       \<Rightarrow> nat \<Rightarrow> gap_tracker \<Rightarrow> gap_tracker option" where
  "replay_rounds dbg tmo lookup 0 t = Some t"
| "replay_rounds dbg tmo lookup (Suc n) t =
     (case gt_gap_started_at t of
        None \<Rightarrow> Some t
      | Some s \<Rightarrow> Option.bind (replay_round dbg t (s + tmo) tmo lookup) (replay_rounds dbg tmo lookup n))"

definition lookup_complete ::
    "tenant_scoped_ordering_key \<Rightarrow> u64 \<Rightarrow> (gap_observation \<Rightarrow> event_error + 'p event_envelope option) \<Rightarrow> bool" where
  "lookup_complete k hi lookup \<longleftrightarrow>
     (\<forall>g. go_ordering_key g = k \<and> go_expected_seq g < hi \<longrightarrow>
        (\<exists>e. lookup g = Inr (Some e)
             \<and> om_tenant_scoped_ordering_key (ev_order_mode e) (ev_tenant_id e) = k
             \<and> om_seq (ev_order_mode e) = Some (go_expected_seq g)))"

lemma replay_round_advances:
  assumes "gap_inv t" and "gt_active_gap t = Some g" and "gt_gap_started_at t = Some s"
    and "lookup_complete (gt_ordering_key t) (go_actual_seq g) lookup"
  shows "\<exists>t'. replay_round dbg t (s + tmo) tmo lookup = Some t' \<and> gap_inv t' \<and> advances t t'
    \<and> gt_ordering_key t' = gt_ordering_key t
    \<and> (if gt_expected_seq t' < go_actual_seq g
       then \<exists>g'. gt_active_gap t' = Some g' \<and> go_actual_seq g' = go_actual_seq g
       else gt_active_gap t' = None \<and> gt_state t' = Normal)"
proof -
  have g: "go_ordering_key g = gt_ordering_key t" "go_expected_seq g = gt_expected_seq t"
      "gt_expected_seq t < go_actual_seq g" "gt_state t \<in> {GapDetected, Recovering}"
    using assms(1,2) by (auto simp: gap_inv_def)
  then obtain e where e: "lookup g = Inr (Some e)"
      "om_tenant_scoped_ordering_key (ev_order_mode e) (ev_tenant_id e) = gt_ordering_key t"
      "om_seq (ev_order_mode e) = Some (gt_expected_seq t)"
    using assms(4) unfolding lookup_complete_def by metis
  let ?t1 = "t\<lparr>gt_state := Recovering, gt_gap_started_at := Some (s + tmo)\<rparr>"
  have r: "recover_gap dbg t (s + tmo) tmo lookup = Some (?t1, Inr (Some (ReplayApply g e)))"
    using g e assms(2,3) by (auto simp: recover_gap_def progress_gap_recovery_def)
  have n: "checked_add_u64 (gt_expected_seq t) 1 = Some (gt_expected_seq t + 1)"
      "unat (gt_expected_seq t + 1) = unat (gt_expected_seq t) + 1"
    using checked_add_one_lt [OF g(3)] by auto
  have inv1: "gap_inv ?t1" using assms(1,2) g by (simp add: gap_inv_def)
  let ?t2 = "if gt_expected_seq t + 1 < go_actual_seq g
    then ?t1\<lparr>gt_expected_seq := gt_expected_seq t + 1,
             gt_active_gap := Some (g\<lparr>go_expected_seq := gt_expected_seq t + 1\<rparr>)\<rparr>
    else ?t1\<lparr>gt_expected_seq := gt_expected_seq t + 1, gt_state := Normal,
             gt_gap_started_at := None, gt_active_gap := None\<rparr>"
  have c: "confirm_gap_replay dbg ?t1 g e (s + tmo) = Some (?t2, Inr ())"
    using g(1,2) e assms(2) n by (simp add: confirm_gap_replay_def progress_gap_recovery_def)
  have "replay_round dbg t (s + tmo) tmo lookup = Some ?t2"
    unfolding replay_round_def r by (simp only: prod.case sum.case option.case gap_recovery_action.case c unit.case)
  moreover have "gap_inv ?t2" using confirm_gap_replay_step [OF inv1 c] by blast
  ultimately show ?thesis using n(2) by (auto simp: advances_def)
qed

text \<open>
  C19 (liveness): a gap closes. If every missing event can still be looked up, the tracker
  polled at its timeout reaches \<open>Normal\<close> after exactly as many replay rounds as there are
  missing sequence numbers, expecting the sequence number at which the gap was seen.
\<close>

theorem recovery_closes_gap:
  assumes "gap_inv t" and "gt_active_gap t = Some g"
    and "lookup_complete (gt_ordering_key t) (go_actual_seq g) lookup"
  shows "\<exists>t'. replay_rounds dbg tmo lookup (unat (go_actual_seq g) - unat (gt_expected_seq t)) t = Some t'
    \<and> gt_state t' = Normal \<and> gt_active_gap t' = None \<and> gt_expected_seq t' = go_actual_seq g"
  using assms
proof (induction "unat (go_actual_seq g) - unat (gt_expected_seq t)" arbitrary: t g)
  case 0
  then have "gt_expected_seq t < go_actual_seq g" by (simp add: gap_inv_def)
  with 0 show ?case by (simp add: word_less_nat_alt)
next
  case (Suc n)
  from Suc.prems obtain s where s: "gt_gap_started_at t = Some s" by (auto simp: gap_inv_def)
  obtain t1 where t1: "replay_round dbg t (s + tmo) tmo lookup = Some t1" "gap_inv t1" "advances t t1"
      "gt_ordering_key t1 = gt_ordering_key t"
      "if gt_expected_seq t1 < go_actual_seq g
       then \<exists>g'. gt_active_gap t1 = Some g' \<and> go_actual_seq g' = go_actual_seq g
       else gt_active_gap t1 = None \<and> gt_state t1 = Normal"
    using replay_round_advances [OF Suc.prems(1,2) s Suc.prems(3)] by blast
  have n: "n = unat (go_actual_seq g) - unat (gt_expected_seq t1)"
    using Suc.hyps(2) t1(3) by (simp add: advances_def)
  have rounds: "replay_rounds dbg tmo lookup (unat (go_actual_seq g) - unat (gt_expected_seq t)) t
      = replay_rounds dbg tmo lookup n t1"
    using Suc.hyps(2) [symmetric] s t1(1) by simp
  show ?case
  proof (cases "gt_expected_seq t1 < go_actual_seq g")
    case True
    then obtain g' where g': "gt_active_gap t1 = Some g'" "go_actual_seq g' = go_actual_seq g"
      using t1(5) by auto
    show ?thesis
      using Suc.hyps(1) [of g' t1] n g' t1(2,4) Suc.prems(3) rounds by simp
  next
    case False
    have "gt_expected_seq t < go_actual_seq g" using Suc.prems by (simp add: gap_inv_def)
    with False t1(3) have "gt_expected_seq t1 = go_actual_seq g"
      by (simp add: advances_def word_less_nat_alt word_unat_eq_iff)
    with False t1(5) n rounds show ?thesis by simp
  qed
qed

theorem recovery_closes_gap_witness:
  "\<exists>t'. replay_rounds False 5 (\<lambda>gap. Inr (Some (sample_event (go_expected_seq gap)))) 2 sample_gap_tracker = Some t'
     \<and> gt_state t' = Normal \<and> gt_expected_seq t' = 5"
proof -
  let ?l = "\<lambda>gap. Inr (Some (sample_event (go_expected_seq gap)))"
  have inv: "gap_inv sample_gap_tracker" by (simp add: gap_inv_def sample_gap_tracker_def)
  have act: "gt_active_gap sample_gap_tracker
      = Some \<lparr>go_ordering_key = sample_key, go_expected_seq = 3, go_actual_seq = 5\<rparr>"
    by (simp add: sample_gap_tracker_def)
  have "lookup_complete (gt_ordering_key sample_gap_tracker) 5 ?l"
    by (auto simp: lookup_complete_def sample_gap_tracker_def sample_key_def sample_event_def
        om_tenant_scoped_ordering_key_def)
  then show ?thesis
    using recovery_closes_gap [OF inv act, of ?l False 5] by (auto simp: sample_gap_tracker_def)
qed

end
