(* ===== verification/Http_Types.thy ===== *)
theory Http_Types
  imports Auth_Context
begin

text \<open>
  What the API's middlewares share: HTTP responses, the parts of the http crate they call,
  and the hexadecimal digests that go into every Redis key
  (\<open>append_sha256_hex\<close> of \<open>kernel-api/src/middleware.rs\<close>).

  A response is its status, its body and its header insertions in order (a later insertion
  of a name replaces an earlier one in the crate's \<open>HeaderMap\<close>); header values are bytes.
  The crate's validity tests and \<open>HeaderValue::to_str\<close> are the fields of \<open>http_env\<close>, and
  SHA-256 is an argument of every definition that hashes.
\<close>

section \<open>Definitions\<close>

record http_env =
  header_name_ok :: "string \<Rightarrow> bool"
  header_value_ok :: "string \<Rightarrow> bool"
  header_to_str :: "string \<Rightarrow> string option"

record http_response =
  resp_status :: nat
  resp_body :: string
  resp_headers :: "(string \<times> string) list"

definition status_into_response :: "nat \<Rightarrow> http_response" where
  "status_into_response c = \<lparr>resp_status = c, resp_body = [], resp_headers = []\<rparr>"

definition insert_valid_headers ::
    "http_env \<Rightarrow> (string \<times> string) list \<Rightarrow> (string \<times> string) list" where
  "insert_valid_headers env hs =
     filter (\<lambda>(name, value). header_name_ok env name \<and> header_value_ok env value) hs"

definition hex_digit :: "nat \<Rightarrow> char" where
  "hex_digit n = ''0123456789abcdef'' ! n"

definition hex_of_bytes :: "byte list \<Rightarrow> string" where
  "hex_of_bytes bs =
     concat (map (\<lambda>b. [hex_digit (unat (drop_bit 4 b)), hex_digit (unat (and b 15))]) bs)"

definition append_sha256_hex :: "(string \<Rightarrow> byte list) \<Rightarrow> string \<Rightarrow> string \<Rightarrow> string" where
  "append_sha256_hex sha256 input out = out @ hex_of_bytes (sha256 input)"

definition compute_body_hash :: "(string \<Rightarrow> byte list) \<Rightarrow> string \<Rightarrow> string" where
  "compute_body_hash sha256 body = append_sha256_hex sha256 body []"

section \<open>What is assumed of the libraries\<close>

text \<open>
  The http crate: \<open>Retry-After\<close> is a header name; digits, lower-case letters and
  underscores make header values. SHA-256: 32 bytes, and no collision among the inputs at
  hand (it cannot be injective on all strings).
\<close>

definition http_header_laws :: "http_env \<Rightarrow> bool" where
  "http_header_laws env \<longleftrightarrow>
     header_name_ok env ''Retry-After''
     \<and> (\<forall>v. v \<noteq> [] \<and> list_all (\<lambda>c. is_ascii_digit c \<or> is_ascii_lower c \<or> c = CHR ''_'') v \<longrightarrow> header_value_ok env v)"

definition sha256_ok :: "(string \<Rightarrow> byte list) \<Rightarrow> string set \<Rightarrow> bool" where
  "sha256_ok sha256 inputs \<longleftrightarrow> (\<forall>x. length (sha256 x) = 32) \<and> inj_on sha256 inputs"

definition permissive_http :: http_env where
  "permissive_http = \<lparr>header_name_ok = (\<lambda>_. True), header_value_ok = (\<lambda>_. True), header_to_str = Some\<rparr>"

lemma permissive_http_laws: "http_header_laws permissive_http"
  by (simp add: http_header_laws_def permissive_http_def)

section \<open>Hexadecimal digests\<close>

lemma nibble_bounds: "unat (drop_bit 4 (b :: byte)) < 16" "unat (and (b :: byte) 15) < 16"
proof -
  have "and b 15 = take_bit 4 b" by (simp add: take_bit_eq_mask mask_eq_exp_minus_1)
  then show "unat (and b 15) < 16"
    using take_bit_nat_less_exp [of 4 "unat b"] by (simp add: unsigned_take_bit_eq)
  have "unat b < 256" using unsigned_less [of b, where ?'a = nat] by simp
  then show "unat (drop_bit 4 b) < 16" by (simp add: drop_bit_eq_div unat_div_distrib)
qed

lemma hex_digit_inj: "a < 16 \<Longrightarrow> b < 16 \<Longrightarrow> hex_digit a = hex_digit b \<longleftrightarrow> a = b"
  unfolding hex_digit_def by (rule nth_eq_iff_index_eq) simp_all

lemma byte_of_nibbles:
  "drop_bit 4 (a :: byte) = drop_bit 4 b \<Longrightarrow> and a 15 = and b 15 \<Longrightarrow> a = b"
proof -
  assume d: "drop_bit 4 a = drop_bit 4 b" and m: "and a 15 = and b 15"
  have "take_bit 4 a = take_bit 4 b" using m by (simp add: take_bit_eq_mask mask_eq_exp_minus_1)
  then show ?thesis using d by (metis bits_ident)
qed

lemma hex_of_bytes_inj: "hex_of_bytes xs = hex_of_bytes ys \<Longrightarrow> xs = ys"
proof (induction xs arbitrary: ys)
  case Nil
  then show ?case by (cases ys) (auto simp: hex_of_bytes_def)
next
  case (Cons x xs)
  then obtain y ys' where ys: "ys = y # ys'" by (cases ys) (auto simp: hex_of_bytes_def)
  from Cons.prems ys have eqs: "hex_digit (unat (drop_bit 4 x)) = hex_digit (unat (drop_bit 4 y))"
      "hex_digit (unat (and x 15)) = hex_digit (unat (and y 15))" "hex_of_bytes xs = hex_of_bytes ys'"
    by (simp_all add: hex_of_bytes_def)
  then have "unat (drop_bit 4 x) = unat (drop_bit 4 y)" "unat (and x 15) = unat (and y 15)"
    using hex_digit_inj nibble_bounds by blast+
  then have "x = y" using byte_of_nibbles by (metis unsigned_word_eqI)
  with eqs(3) Cons.IH ys show ?case by simp
qed

lemma length_hex_of_bytes: "length (hex_of_bytes bs) = 2 * length bs"
  by (induction bs) (auto simp: hex_of_bytes_def)

lemma sha256_hex_eq:
  assumes "sha256_ok sha256 S" and "a \<in> S" and "b \<in> S"
  shows "hex_of_bytes (sha256 a) @ x = hex_of_bytes (sha256 b) @ y \<longleftrightarrow> a = b \<and> x = y"
proof -
  have "length (hex_of_bytes (sha256 a)) = length (hex_of_bytes (sha256 b))"
    using assms(1) by (simp add: length_hex_of_bytes sha256_ok_def)
  moreover have "hex_of_bytes (sha256 a) = hex_of_bytes (sha256 b) \<longleftrightarrow> a = b"
    using assms hex_of_bytes_inj by (auto simp: sha256_ok_def dest: inj_onD)
  ultimately show ?thesis by simp
qed

definition sample_sha256 :: "string \<Rightarrow> byte list" where
  "sample_sha256 s = replicate 31 0 @ [of_nat (length s)]"

end
