(* ===== verification/Quota.thy ===== *)
theory Quota
  imports Complex_Main Http_Types
begin

text \<open>
  Quota enforcement: the layers and violations of \<open>kernel-core/src/quota.rs\<close>, and of
  \<open>kernel-api/src/middleware.rs\<close> the per-layer configuration, the two Lua scripts of
  \<open>RedisQuotaStore\<close> (single and atomic multi-layer), the stores behind the \<open>QuotaStore\<close>
  trait, the mapping of violations to HTTP responses and \<open>quota_middleware\<close>.

  Floats are exact: a finite \<open>f64\<close> and a Lua number are a rational, so the rounding of
  double arithmetic is outside the model; NaN and the infinities are \<open>NonFin\<close>.

  Redis is an argument: a record of the four hash commands the scripts call, over an
  abstract store and the server's clock in milliseconds. \<open>redis_hash_laws\<close> states what
  the Redis documentation promises of them.
\<close>

section \<open>Layers and violations (kernel-core)\<close>

datatype quota_layer = TenantBudget | ApiRateLimit | SystemHardLimit | CircuitBreaker

fun violation_type :: "quota_layer \<Rightarrow> string" where
  "violation_type SystemHardLimit = ''system_hard_limit''"
| "violation_type CircuitBreaker = ''circuit_breaker''"
| "violation_type TenantBudget = ''tenant_budget''"
| "violation_type ApiRateLimit = ''api_rate_limit''"

record quota_violation =
  qv_layer :: quota_layer
  qv_retry_after_s :: u64

definition status_code :: "quota_violation \<Rightarrow> nat" where
  "status_code v =
     (case qv_layer v of
        TenantBudget \<Rightarrow> 429 | ApiRateLimit \<Rightarrow> 429
      | SystemHardLimit \<Rightarrow> 503 | CircuitBreaker \<Rightarrow> 503)"

definition retry_after_value :: "quota_violation \<Rightarrow> u64" where
  "retry_after_value v =
     (case qv_layer v of
        SystemHardLimit \<Rightarrow> clamp_u64 (qv_retry_after_s v) 1 30
      | CircuitBreaker \<Rightarrow> clamp_u64 (qv_retry_after_s v) 1 31536000
      | TenantBudget \<Rightarrow> clamp_u64 (qv_retry_after_s v) 1 31536000
      | ApiRateLimit \<Rightarrow> clamp_u64 (qv_retry_after_s v) 1 31536000)"

definition violation_headers :: "quota_violation \<Rightarrow> (string \<times> string) list" where
  "violation_headers v = [(''Retry-After'', dec_of_u64 (retry_after_value v))]"

section \<open>HTTP responses to violations\<close>

definition violation_to_status :: "quota_violation \<Rightarrow> nat" where
  "violation_to_status v =
     (case qv_layer v of
        SystemHardLimit \<Rightarrow> 503 | CircuitBreaker \<Rightarrow> 503
      | TenantBudget \<Rightarrow> 429 | ApiRateLimit \<Rightarrow> 429)"

definition violation_to_response :: "http_env \<Rightarrow> quota_violation \<Rightarrow> http_response" where
  "violation_to_response env v =
     (let status = violation_to_status v;
          message = (if status = 429 then ''Rate limit exceeded'' else ''Quota limit exceeded'');
          vt = violation_type (qv_layer v)
      in \<lparr>resp_status = status, resp_body = message,
          resp_headers = insert_valid_headers env (violation_headers v)
            @ [(''X-Violation-Type'', if header_value_ok env vt then vt else ''unknown'')]\<rparr>)"

section \<open>Layer configuration\<close>

datatype f64 = Fin rat | NonFin

fun positive_finite :: "f64 \<Rightarrow> bool" where
  "positive_finite (Fin r) = (r > 0)"
| "positive_finite NonFin = False"

record quota_layer_config =
  ql_rate :: f64
  ql_capacity :: f64
  ql_cost :: f64
  ql_backoff_s :: f64

record tenant_quota_override =
  to_system_hard_limit :: "quota_layer_config option"
  to_tenant_budget :: "quota_layer_config option"
  to_api_rate_limit :: "quota_layer_config option"
  to_circuit_breaker :: "quota_layer_config option"

record quota_config =
  qc_system_hard_limit :: quota_layer_config
  qc_tenant_budget :: quota_layer_config
  qc_api_rate_limit :: quota_layer_config
  qc_circuit_breaker :: quota_layer_config
  qc_tenant_overrides :: "string \<rightharpoonup> tenant_quota_override"

definition valid_quota :: "quota_layer_config \<Rightarrow> bool" where
  "valid_quota q \<longleftrightarrow> positive_finite (ql_rate q) \<and> positive_finite (ql_capacity q)
                    \<and> positive_finite (ql_cost q) \<and> positive_finite (ql_backoff_s q)"

definition validate_quota :: "quota_layer_config \<Rightarrow> quota_layer_config \<Rightarrow> quota_layer_config" where
  "validate_quota q fallback = (if valid_quota q then q else fallback)"

fun layer_default :: "quota_config \<Rightarrow> quota_layer \<Rightarrow> quota_layer_config" where
  "layer_default c SystemHardLimit = qc_system_hard_limit c"
| "layer_default c TenantBudget = qc_tenant_budget c"
| "layer_default c ApiRateLimit = qc_api_rate_limit c"
| "layer_default c CircuitBreaker = qc_circuit_breaker c"

fun layer_override :: "tenant_quota_override \<Rightarrow> quota_layer \<Rightarrow> quota_layer_config option" where
  "layer_override ov SystemHardLimit = to_system_hard_limit ov"
| "layer_override ov TenantBudget = to_tenant_budget ov"
| "layer_override ov ApiRateLimit = to_api_rate_limit ov"
| "layer_override ov CircuitBreaker = to_circuit_breaker ov"

fun layer_key :: "(string \<Rightarrow> byte list) \<Rightarrow> tenant_id \<Rightarrow> quota_layer \<Rightarrow> string" where
  "layer_key sha256 t SystemHardLimit = ''quota:{global}:system''"
| "layer_key sha256 t TenantBudget =
     append_sha256_hex sha256 (tenant_str t) ''quota:{global}:tenant:'' @ '':cpu''"
| "layer_key sha256 t ApiRateLimit =
     append_sha256_hex sha256 (tenant_str t) ''quota:{global}:tenant:'' @ '':api''"
| "layer_key sha256 t CircuitBreaker =
     append_sha256_hex sha256 (tenant_str t) ''quota:{global}:tenant:'' @ '':cb''"

record quota_check =
  ck_layer :: quota_layer
  ck_key :: string
  ck_config :: quota_layer_config
  ck_is_cb :: bool

definition layer_config ::
    "(string \<Rightarrow> byte list) \<Rightarrow> quota_config \<Rightarrow> tenant_id \<Rightarrow> quota_layer \<Rightarrow> quota_check option" where
  "layer_config sha256 cfg t layer =
     (let tenant_override = qc_tenant_overrides cfg (tenant_str t);
          chosen = (case Option.bind tenant_override (\<lambda>ov. layer_override ov layer) of
                      None \<Rightarrow> layer_default cfg layer | Some q \<Rightarrow> q);
          q = validate_quota chosen (layer_default cfg layer)
      in Some \<lparr>ck_layer = layer, ck_key = layer_key sha256 t layer, ck_config = q,
               ck_is_cb = (layer = CircuitBreaker)\<rparr>)"

section \<open>Redis hashes\<close>

datatype lua_value = LNum rat | LStr string

record 's redis_hash =
  r_hget :: "'s \<Rightarrow> rat \<Rightarrow> string \<Rightarrow> string \<Rightarrow> lua_value option"
  r_hset :: "'s \<Rightarrow> rat \<Rightarrow> string \<Rightarrow> string \<Rightarrow> lua_value \<Rightarrow> 's"
  r_hdel :: "'s \<Rightarrow> rat \<Rightarrow> string \<Rightarrow> string \<Rightarrow> 's"
  r_pexpire :: "'s \<Rightarrow> rat \<Rightarrow> string \<Rightarrow> int \<Rightarrow> 's"

text \<open>
  What the scripts rely on: a field reads back as last written, other fields and other keys
  are untouched, a key with time to live \<open>ttl\<close> keeps its fields until then and has none
  from then on. All reads and writes of one script happen at one server time.
\<close>

definition redis_hash_laws :: "'s redis_hash \<Rightarrow> bool" where
  "redis_hash_laws R \<longleftrightarrow>
     (\<forall>s st k f v k' f'. r_hget R (r_hset R s st k f v) st k' f' =
        (if k' = k \<and> f' = f then Some v else r_hget R s st k' f'))
     \<and> (\<forall>s st k f k' f'. r_hget R (r_hdel R s st k f) st k' f' =
        (if k' = k \<and> f' = f then None else r_hget R s st k' f'))
     \<and> (\<forall>s st k ttl k' f' st'. 0 < ttl \<and> st \<le> st' \<longrightarrow> r_hget R (r_pexpire R s st k ttl) st' k' f' =
        (if k' = k then (if st' < st + of_int ttl then r_hget R s st k' f' else None)
         else r_hget R s st' k' f'))"

fun tonumber :: "lua_value option \<Rightarrow> rat option" where
  "tonumber (Some (LNum r)) = Some r"
| "tonumber (Some (LStr s)) = None"
| "tonumber None = None"

section \<open>The Lua scripts\<close>

definition compute_refill_ttl_ms :: "rat \<Rightarrow> rat \<Rightarrow> rat \<Rightarrow> int" where
  "compute_refill_ttl_ms rate capacity tokens =
     (if rate \<le> 0 then 1
      else let missing = max 0 (capacity - tokens)
           in if missing \<le> 0 then 1 else max 1 \<lceil>(missing / rate) * 1000\<rceil>)"

record lua_args =
  la_key :: string
  la_rate :: rat
  la_capacity :: rat
  la_cost :: rat
  la_backoff_s :: rat
  la_is_cb :: bool

text \<open>Seconds left of an open circuit breaker, if the call is within its window.\<close>

definition cb_open_for :: "'s redis_hash \<Rightarrow> 's \<Rightarrow> rat \<Rightarrow> string \<Rightarrow> rat \<Rightarrow> int option" where
  "cb_open_for R s st key now =
     (if r_hget R s st key ''state'' = Some (LStr ''open'')
      then (case tonumber (r_hget R s st key ''until'') of
              Some cb_until \<Rightarrow> if now < cb_until then Some \<lceil>cb_until - now\<rceil> else None
            | None \<Rightarrow> None)
      else None)"

text \<open>
  The refilled level of a bucket; \<open>None\<close> is the Lua error on a hash that has \<open>tokens\<close> but
  no \<open>last_refill\<close>.
\<close>

definition bucket_filled :: "'s redis_hash \<Rightarrow> 's \<Rightarrow> rat \<Rightarrow> lua_args \<Rightarrow> rat \<Rightarrow> rat option" where
  "bucket_filled R s st a now =
     (let tokens0 = tonumber (r_hget R s st (la_key a) ''tokens'');
          last_refill0 = tonumber (r_hget R s st (la_key a) ''last_refill'');
          tokens = (case tokens0 of None \<Rightarrow> la_capacity a | Some x \<Rightarrow> x);
          last_refill = (case tokens0 of None \<Rightarrow> Some now | Some _ \<Rightarrow> last_refill0)
      in map_option (\<lambda>lr. min (la_capacity a) (tokens + max 0 (now - lr) * la_rate a)) last_refill)"

definition commit_bucket :: "'s redis_hash \<Rightarrow> rat \<Rightarrow> rat \<Rightarrow> lua_args \<Rightarrow> rat \<Rightarrow> 's \<Rightarrow> 's" where
  "commit_bucket R st now a new_tokens s =
     (let key = la_key a;
          s1 = r_hset R (r_hset R s st key ''tokens'' (LNum new_tokens)) st key ''last_refill'' (LNum now)
      in if la_is_cb a
         then r_pexpire R (r_hdel R (r_hset R s1 st key ''state'' (LStr ''closed'')) st key ''until'')
                st key (compute_refill_ttl_ms (la_rate a) (la_capacity a) new_tokens)
         else r_pexpire R s1 st key 60000)"

definition cb_retry_after :: "rat \<Rightarrow> int" where
  "cb_retry_after backoff_s = max 1 (min 31536000 \<lceil>backoff_s\<rceil>)"

definition trip_breaker :: "'s redis_hash \<Rightarrow> rat \<Rightarrow> rat \<Rightarrow> lua_args \<Rightarrow> 's \<Rightarrow> 's" where
  "trip_breaker R st now a s =
     (let retry_after = cb_retry_after (la_backoff_s a);
          key = la_key a
      in r_pexpire R
           (r_hset R (r_hset R s st key ''state'' (LStr ''open'')) st key ''until''
              (LNum (now + of_int retry_after)))
           st key (retry_after * 1000 + 30000))"

definition bucket_retry_after :: "lua_args \<Rightarrow> rat \<Rightarrow> int" where
  "bucket_retry_after a filled =
     (if la_rate a \<le> 0 then 60 else \<lceil>(la_cost a - filled) / la_rate a\<rceil>)"

datatype script_error = LuaError | RedisUnavailable

definition quota_script ::
    "'s redis_hash \<Rightarrow> rat \<Rightarrow> rat \<Rightarrow> lua_args \<Rightarrow> 's \<Rightarrow> 's \<times> (script_error + int \<times> int)" where
  "quota_script R st now a s =
     (case (if la_is_cb a then cb_open_for R s st (la_key a) now else None) of
        Some left \<Rightarrow> (s, Inr (0, left))
      | None \<Rightarrow>
          (case bucket_filled R s st a now of
             None \<Rightarrow> (s, Inl LuaError)
           | Some filled \<Rightarrow>
               if filled \<ge> la_cost a
               then (commit_bucket R st now a (filled - la_cost a) s, Inr (1, \<lfloor>filled - la_cost a\<rfloor>))
               else if la_is_cb a
               then (trip_breaker R st now a s, Inr (0, cb_retry_after (la_backoff_s a)))
               else (s, Inr (0, bucket_retry_after a filled))))"

datatype 's pass1 =
    P1_Return 's int int
  | P1_Error
  | P1_Ok "(lua_args \<times> rat) list"

fun quota_pass1 :: "'s redis_hash \<Rightarrow> rat \<Rightarrow> rat \<Rightarrow> 's \<Rightarrow> int \<Rightarrow> lua_args list \<Rightarrow> 's pass1" where
  "quota_pass1 R st now s i [] = P1_Ok []"
| "quota_pass1 R st now s i (a # as) =
     (case (if la_is_cb a then cb_open_for R s st (la_key a) now else None) of
        Some left \<Rightarrow> P1_Return s i left
      | None \<Rightarrow>
          (case bucket_filled R s st a now of
             None \<Rightarrow> P1_Error
           | Some filled \<Rightarrow>
               if filled < la_cost a
               then (if la_is_cb a
                     then P1_Return (trip_breaker R st now a s) i (cb_retry_after (la_backoff_s a))
                     else P1_Return s i (bucket_retry_after a filled))
               else (case quota_pass1 R st now s (i + 1) as of
                       P1_Ok rest \<Rightarrow> P1_Ok ((a, filled - la_cost a) # rest)
                     | r \<Rightarrow> r)))"

definition quota_script_multi ::
    "'s redis_hash \<Rightarrow> rat \<Rightarrow> rat \<Rightarrow> lua_args list \<Rightarrow> 's \<Rightarrow> 's \<times> (script_error + int \<times> int \<times> int)" where
  "quota_script_multi R st now as s =
     (case quota_pass1 R st now s 1 as of
        P1_Return s' i retry_after \<Rightarrow> (s', Inr (0, i, retry_after))
      | P1_Error \<Rightarrow> (s, Inl LuaError)
      | P1_Ok commits \<Rightarrow>
          (fold (\<lambda>(a, new_tokens). commit_bucket R st now a new_tokens) commits s, Inr (1, 0, 0)))"

section \<open>The quota stores\<close>

text \<open>
  A world \<open>'w\<close> holds the Redis store. \<open>qr_up\<close> says whether an invocation reaches the
  server; a script called with a non-finite argument answers \<open>qr_nonfinite\<close>, which is
  left open.
\<close>

record 's quota_redis =
  qr_hash :: "'s redis_hash"
  qr_up :: bool
  qr_nonfinite :: "'s \<Rightarrow> 's \<times> (script_error + int \<times> int \<times> int)"

fun lua_args_of :: "quota_check \<Rightarrow> lua_args option" where
  "lua_args_of ck =
     (case (ql_rate (ck_config ck), ql_capacity (ck_config ck), ql_cost (ck_config ck), ql_backoff_s (ck_config ck)) of
        (Fin r, Fin c, Fin k, Fin b) \<Rightarrow>
          Some \<lparr>la_key = ck_key ck, la_rate = r, la_capacity = c, la_cost = k, la_backoff_s = b,
                la_is_cb = ck_is_cb ck\<rparr>
      | _ \<Rightarrow> None)"

definition ceil_as_u64 :: "int \<Rightarrow> u64" where
  "ceil_as_u64 v = (if v \<le> 0 then 0 else if v \<ge> 2 ^ 64 then - 1 else of_int v)"

definition redis_check_and_update ::
    "(string \<Rightarrow> byte list) \<Rightarrow> quota_config \<Rightarrow> 's quota_redis \<Rightarrow> rat \<Rightarrow> rat
       \<Rightarrow> tenant_id \<Rightarrow> quota_layer \<Rightarrow> 's \<Rightarrow> 's \<times> (quota_violation + unit)" where
  "redis_check_and_update sha256 cfg Q st now t layer s =
     (case layer_config sha256 cfg t layer of
        None \<Rightarrow> (s, Inr ())
      | Some ck \<Rightarrow>
          (case (if \<not> qr_up Q then (s, Inl RedisUnavailable)
                 else case lua_args_of ck of
                        Some a \<Rightarrow> quota_script (qr_hash Q) st now a s
                      | None \<Rightarrow> (case qr_nonfinite Q s of
                                   (s', Inr (allowed, _, val)) \<Rightarrow> (s', Inr (allowed, val))
                                 | (s', Inl e) \<Rightarrow> (s', Inl e))) of
             (s', Inr (allowed, val)) \<Rightarrow>
               if allowed = 1 then (s', Inr ())
               else (s', Inl \<lparr>qv_layer = layer, qv_retry_after_s = ceil_as_u64 val\<rparr>)
           | (s', Inl e) \<Rightarrow> (s', Inl \<lparr>qv_layer = SystemHardLimit, qv_retry_after_s = 1\<rparr>)))"

definition multi_verdict ::
    "quota_check list \<Rightarrow> script_error + int \<times> int \<times> int \<Rightarrow> quota_violation + unit" where
  "multi_verdict checks res =
     (case res of
        Inr (allowed, idx, retry_after) \<Rightarrow>
          if allowed = 1 then Inr ()
          else if allowed = 0
          then (if 1 \<le> idx \<and> nat (idx - 1) < length checks
                then Inl \<lparr>qv_layer = ck_layer (checks ! nat (idx - 1)),
                          qv_retry_after_s = ceil_as_u64 retry_after\<rparr>
                else Inl \<lparr>qv_layer = SystemHardLimit, qv_retry_after_s = ceil_as_u64 retry_after\<rparr>)
          else Inl \<lparr>qv_layer = SystemHardLimit, qv_retry_after_s = 1\<rparr>
      | Inl e \<Rightarrow> Inl \<lparr>qv_layer = SystemHardLimit, qv_retry_after_s = 1\<rparr>)"

definition redis_check_and_update_multi ::
    "(string \<Rightarrow> byte list) \<Rightarrow> quota_config \<Rightarrow> 's quota_redis \<Rightarrow> rat \<Rightarrow> rat
       \<Rightarrow> tenant_id \<Rightarrow> quota_layer list \<Rightarrow> 's \<Rightarrow> 's \<times> (quota_violation + unit)" where
  "redis_check_and_update_multi sha256 cfg Q st now t layers s =
     (let checks = List.map_filter (layer_config sha256 cfg t) layers
      in if checks = [] then (s, Inr ())
         else apsnd (multi_verdict checks)
                (if \<not> qr_up Q then (s, Inl RedisUnavailable)
                 else case those (map lua_args_of checks) of
                        Some as \<Rightarrow> quota_script_multi (qr_hash Q) st now as s
                      | None \<Rightarrow> qr_nonfinite Q s))"

text \<open>The trait's default, non-atomic \<open>check_and_update_multi\<close>, and the no-op store.\<close>

fun default_check_and_update_multi ::
    "(tenant_id \<Rightarrow> quota_layer \<Rightarrow> 's \<Rightarrow> 's \<times> (quota_violation + unit))
       \<Rightarrow> tenant_id \<Rightarrow> quota_layer list \<Rightarrow> 's \<Rightarrow> 's \<times> (quota_violation + unit)" where
  "default_check_and_update_multi chk t [] s = (s, Inr ())"
| "default_check_and_update_multi chk t (l # ls) s =
     (case chk t l s of
        (s', Inl v) \<Rightarrow> (s', Inl v)
      | (s', Inr _) \<Rightarrow> default_check_and_update_multi chk t ls s')"

definition in_memory_check_and_update ::
    "tenant_id \<Rightarrow> quota_layer \<Rightarrow> 's \<Rightarrow> 's \<times> (quota_violation + unit)" where
  "in_memory_check_and_update t layer s = (s, Inr ())"

section \<open>The middleware\<close>

text \<open>
  The middleware of a production build (without the \<open>test-utils\<close> mock headers). The two
  extensions are options; \<open>next\<close> is the rest of the stack.
\<close>

definition quota_middleware ::
    "http_env \<Rightarrow> (tenant_id \<Rightarrow> quota_layer list \<Rightarrow> 'w \<Rightarrow> 'w \<times> (quota_violation + unit))
       \<Rightarrow> 'db tenant_context option \<Rightarrow> 'cfg option \<Rightarrow> ('w \<Rightarrow> 'w \<times> 'r) \<Rightarrow> 'w
       \<Rightarrow> 'w \<times> (http_response + 'r)" where
  "quota_middleware env check_multi tenant_ctx state nxt w =
     (case tenant_ctx of
        None \<Rightarrow> (w, Inl (status_into_response 401))
      | Some ctx \<Rightarrow>
          (case state of
             None \<Rightarrow> (w, Inl (status_into_response 500))
           | Some _ \<Rightarrow>
               (case check_multi (ctx_tenant_id ctx)
                       [SystemHardLimit, CircuitBreaker, TenantBudget, ApiRateLimit] w of
                  (w', Inl v) \<Rightarrow> (w', Inl (violation_to_response env v))
                | (w', Inr _) \<Rightarrow> apsnd Inr (nxt w'))))"

section \<open>Consequences of the Redis laws\<close>

lemma hget_hset:
  "redis_hash_laws R \<Longrightarrow> r_hget R (r_hset R s st k f v) st k' f' =
     (if k' = k \<and> f' = f then Some v else r_hget R s st k' f')"
  by (simp add: redis_hash_laws_def)

lemma hget_hdel:
  "redis_hash_laws R \<Longrightarrow> r_hget R (r_hdel R s st k f) st k' f' =
     (if k' = k \<and> f' = f then None else r_hget R s st k' f')"
  by (simp add: redis_hash_laws_def)

lemma hget_pexpire:
  "redis_hash_laws R \<Longrightarrow> 0 < ttl \<Longrightarrow> st \<le> st' \<Longrightarrow> r_hget R (r_pexpire R s st k ttl) st' k' f' =
     (if k' = k then (if st' < st + of_int ttl then r_hget R s st k' f' else None)
      else r_hget R s st' k' f')"
  by (simp add: redis_hash_laws_def)

lemma ttl_positive: "0 < compute_refill_ttl_ms r c t"
  by (simp add: compute_refill_ttl_ms_def Let_def)

lemma cb_retry_after_bounds: "1 \<le> cb_retry_after b \<and> cb_retry_after b \<le> 31536000"
  by (simp add: cb_retry_after_def)

lemmas redis_simps = hget_hset hget_hdel hget_pexpire ttl_positive

lemma trip_breaker_frame:
  assumes "redis_hash_laws R" and "f \<in> {''tokens'', ''last_refill''}"
  shows "r_hget R (trip_breaker R st now a s) st k f = r_hget R s st k f"
  using assms cb_retry_after_bounds [of "la_backoff_s a"]
  by (auto simp: trip_breaker_def Let_def redis_simps)

lemma commit_bucket_reads:
  assumes "redis_hash_laws R"
  shows "r_hget R (commit_bucket R st now a n s) st (la_key a) ''tokens'' = Some (LNum n)"
    and "r_hget R (commit_bucket R st now a n s) st (la_key a) ''last_refill'' = Some (LNum now)"
    and "k \<noteq> la_key a \<Longrightarrow> r_hget R (commit_bucket R st now a n s) st k f = r_hget R s st k f"
  using assms by (auto simp: commit_bucket_def Let_def redis_simps)

section \<open>The multi-layer script\<close>

lemma pass1_return:
  assumes "redis_hash_laws R" and "quota_pass1 R st now s i as = P1_Return s' j ra"
  shows "i \<le> j \<and> nat (j - i) < length as \<and> (\<not> la_is_cb (as ! nat (j - i)) \<longrightarrow> s' = s)
    \<and> (\<forall>k f. f \<in> {''tokens'', ''last_refill''} \<longrightarrow> r_hget R s' st k f = r_hget R s st k f)"
  using assms(2)
proof (induction as arbitrary: i)
  case (Cons a as)
  show ?case
  proof (cases "quota_pass1 R st now s (i + 1) as = P1_Return s' j ra")
    case True
    from Cons.IH [OF True] have IH: "i + 1 \<le> j" "nat (j - (i + 1)) < length as"
        "\<not> la_is_cb (as ! nat (j - (i + 1))) \<longrightarrow> s' = s"
        "\<forall>k f. f \<in> {''tokens'', ''last_refill''} \<longrightarrow> r_hget R s' st k f = r_hget R s st k f"
      by auto
    have "nat (j - i) = Suc (nat (j - (i + 1)))" using IH(1) by linarith
    with IH show ?thesis by simp
  next
    case False
    with Cons.prems have "j = i \<and> (s' = s \<or> la_is_cb a \<and> s' = trip_breaker R st now a s)"
      by (auto split: option.splits if_splits pass1.splits)
    then show ?thesis using trip_breaker_frame [OF assms(1)] by auto
  qed
qed simp

lemma pass1_ok:
  assumes "quota_pass1 R st now s i as = P1_Ok cs"
  shows "map fst cs = as \<and> (\<forall>(a, n) \<in> set cs. \<exists>filled. bucket_filled R s st a now = Some filled
           \<and> la_cost a \<le> filled \<and> n = filled - la_cost a)"
  using assms
  by (induction as arbitrary: i cs) (fastforce split: option.splits if_splits pass1.splits)+

lemma commit_fold_reads:
  assumes "redis_hash_laws R" and "distinct (map (la_key \<circ> fst) cs)"
  shows "((a, n) \<in> set cs \<longrightarrow> r_hget R (fold (\<lambda>(a, n). commit_bucket R st now a n) cs s) st (la_key a) ''tokens''
            = Some (LNum n))
    \<and> (k \<notin> la_key ` fst ` set cs \<longrightarrow>
         r_hget R (fold (\<lambda>(a, n). commit_bucket R st now a n) cs s) st k f = r_hget R s st k f)"
  using assms(2)
proof (induction cs rule: rev_induct)
  case (snoc c cs)
  then show ?case
    using commit_bucket_reads [OF assms(1), where a = "fst c" and n = "snd c" and st = st]
    by (cases c) (auto simp: image_iff)
qed simp

section \<open>Properties\<close>

definition map_redis :: "(rat \<Rightarrow> string \<Rightarrow> string \<Rightarrow> lua_value option) redis_hash" where
  "map_redis =
     \<lparr>r_hget = (\<lambda>s st k f. s st k f),
      r_hset = (\<lambda>s st k f v st' k' f'. if k' = k \<and> f' = f then Some v else s st' k' f'),
      r_hdel = (\<lambda>s st k f st' k' f'. if k' = k \<and> f' = f then None else s st' k' f'),
      r_pexpire = (\<lambda>s st k ttl st' k' f'.
         if k' = k then (if st' < st + of_int ttl then s st k' f' else None) else s st' k' f')\<rparr>"

lemma map_redis_laws: "redis_hash_laws map_redis"
  by (simp add: redis_hash_laws_def map_redis_def)

definition sample_args :: "string \<Rightarrow> lua_args" where
  "sample_args k = \<lparr>la_key = k, la_rate = 2, la_capacity = 10, la_cost = 4, la_backoff_s = 30, la_is_cb = False\<rparr>"

definition drained :: "rat \<Rightarrow> string \<Rightarrow> string \<Rightarrow> lua_value option" where
  "drained = (\<lambda>st k f. if k = ''b'' then (if f = ''tokens'' then Some (LNum 1)
                                        else if f = ''last_refill'' then Some (LNum 0) else None) else None)"

lemmas quota_eval =
  quota_script_multi_def bucket_filled_def sample_args_def map_redis_def drained_def Let_def

text \<open>
  C18 (safety): the multi-layer check is atomic. When any layer denies the request, no
  bucket of any layer has lost a token or moved its refill time; the only trace a denial
  can leave is the tripped circuit breaker itself, and the reply names the index of a
  layer that was checked.
\<close>

theorem quota_denial_consumes_nothing:
  assumes "redis_hash_laws R" and "quota_script_multi R st now as s = (s', Inr (0, i, ra))"
  shows "1 \<le> i \<and> nat (i - 1) < length as
    \<and> (\<forall>k f. f \<in> {''tokens'', ''last_refill''} \<longrightarrow> r_hget R s' st k f = r_hget R s st k f)
    \<and> (\<not> la_is_cb (as ! nat (i - 1)) \<longrightarrow> s' = s)"
  using assms(2) pass1_return [OF assms(1), of st now s 1 as]
  by (auto simp: quota_script_multi_def split: pass1.splits)

theorem quota_denial_consumes_nothing_witness:
  "quota_script_multi map_redis 1000 1 [sample_args ''a'', sample_args ''b''] drained
     = (drained, Inr (0, 2, 1))
   \<and> nat (2 - 1) < length [sample_args ''a'', sample_args ''b'']"
proof -
  have h: "quota_script_multi map_redis 1000 1 [sample_args ''a'', sample_args ''b''] drained
      = (drained, Inr (0, 2, 1))"
    by (simp add: quota_eval bucket_retry_after_def ceiling_eq_iff)
  then show ?thesis using quota_denial_consumes_nothing [OF map_redis_laws h] by blast
qed

text \<open>
  When the multi-layer check admits a request, every layer had at least
  its cost available and every bucket is charged exactly that cost; keys of other tenants
  and layers are untouched.
\<close>

theorem quota_admission_charges_every_layer:
  assumes "redis_hash_laws R" and "distinct (map la_key as)"
    and "quota_script_multi R st now as s = (s', Inr (1, x, y))"
  shows "(\<forall>a \<in> set as. \<exists>filled. bucket_filled R s st a now = Some filled \<and> la_cost a \<le> filled
            \<and> r_hget R s' st (la_key a) ''tokens'' = Some (LNum (filled - la_cost a)))
    \<and> (\<forall>k f. k \<notin> la_key ` set as \<longrightarrow> r_hget R s' st k f = r_hget R s st k f)"
proof -
  obtain cs where cs: "quota_pass1 R st now s 1 as = P1_Ok cs"
      "s' = fold (\<lambda>(a, n). commit_bucket R st now a n) cs s"
    using assms(3) by (auto simp: quota_script_multi_def split: pass1.splits)
  have as: "map fst cs = as" using pass1_ok [OF cs(1)] by blast
  then have d: "distinct (map (la_key \<circ> fst) cs)" using assms(2) by (metis map_map)
  have keys: "la_key ` fst ` set cs = la_key ` set as" using as by (metis set_map)
  have "\<exists>filled. bucket_filled R s st a now = Some filled \<and> la_cost a \<le> filled
            \<and> r_hget R s' st (la_key a) ''tokens'' = Some (LNum (filled - la_cost a))"
    if "a \<in> set as" for a
  proof -
    have "a \<in> fst ` set cs" using that as by (metis set_map)
    then obtain n where n: "(a, n) \<in> set cs" by auto
    with pass1_ok [OF cs(1)] obtain filled where "bucket_filled R s st a now = Some filled"
        "la_cost a \<le> filled" "n = filled - la_cost a" by auto
    then show ?thesis using commit_fold_reads [OF assms(1) d] n cs(2) by blast
  qed
  then show ?thesis using commit_fold_reads [OF assms(1) d] cs(2) keys by auto
qed

theorem quota_admission_charges_every_layer_witness:
  "\<exists>filled. bucket_filled map_redis (\<lambda>_ _ _. None) 1000 (sample_args ''a'') 1 = Some filled \<and> 4 \<le> filled"
proof -
  have "\<exists>s'. quota_script_multi map_redis 1000 1 [sample_args ''a'', sample_args ''b''] (\<lambda>_ _ _. None)
      = (s', Inr (1, 0, 0))"
    by (simp add: quota_eval)
  then obtain s' where h: "quota_script_multi map_redis 1000 1 [sample_args ''a'', sample_args ''b'']
      (\<lambda>_ _ _. None) = (s', Inr (1, 0, 0))" ..
  have d: "distinct (map la_key [sample_args ''a'', sample_args ''b''])" by (simp add: sample_args_def)
  show ?thesis
    using quota_admission_charges_every_layer [OF map_redis_laws d h]
    by (force simp: sample_args_def)
qed

section \<open>The bucket against an ideal token bucket\<close>

text \<open>
  The specification: a bucket that starts at level \<open>l\<close> at time \<open>t\<close>, gains \<open>rate\<close> tokens
  per second up to \<open>cap\<close>, and admits a request when it can pay \<open>cost\<close>.
\<close>

definition ideal_level :: "rat \<Rightarrow> rat \<Rightarrow> rat \<Rightarrow> rat \<Rightarrow> rat \<Rightarrow> rat" where
  "ideal_level cap rate l t t' = min cap (l + (t' - t) * rate)"

fun ideal_run :: "rat \<Rightarrow> rat \<Rightarrow> rat \<Rightarrow> rat \<Rightarrow> rat \<Rightarrow> rat list \<Rightarrow> bool list" where
  "ideal_run cap rate cost l t [] = []"
| "ideal_run cap rate cost l t (t' # ts) =
     (let lev = ideal_level cap rate l t t'
      in if cost \<le> lev then True # ideal_run cap rate cost (lev - cost) t' ts
         else False # ideal_run cap rate cost lev t' ts)"

text \<open>A sequence of calls of the script at the given times (seconds, one clock).\<close>

fun script_run :: "'s redis_hash \<Rightarrow> lua_args \<Rightarrow> rat list \<Rightarrow> 's \<Rightarrow> bool list" where
  "script_run R a [] s = []"
| "script_run R a (t # ts) s =
     (case quota_script R (t * 1000) t a s of
        (s', Inr (allowed, _)) \<Rightarrow> (allowed = 1) # script_run R a ts s'
      | (s', Inl _) \<Rightarrow> False # script_run R a ts s')"

definition at_level :: "'s redis_hash \<Rightarrow> lua_args \<Rightarrow> 's \<Rightarrow> rat \<Rightarrow> rat \<Rightarrow> bool" where
  "at_level R a s t l \<longleftrightarrow> 0 \<le> l \<and> l \<le> la_capacity a
     \<and> (\<forall>t' \<ge> t. bucket_filled R s (t' * 1000) a t' = Some (ideal_level (la_capacity a) (la_rate a) l t t'))"

lemma at_level_later:
  assumes "at_level R a s t l" and "t \<le> t'" and "0 \<le> la_rate a"
  shows "at_level R a s t' (ideal_level (la_capacity a) (la_rate a) l t t')"
proof -
  let ?c = "la_capacity a" and ?r = "la_rate a"
  have pos: "0 \<le> l" "l \<le> ?c" "0 \<le> (t' - t) * ?r" using assms by (auto simp: at_level_def)
  have "ideal_level ?c ?r (ideal_level ?c ?r l t t') t' t'' = ideal_level ?c ?r l t t''" if "t' \<le> t''" for t''
  proof -
    have "0 \<le> (t'' - t') * ?r" using that assms(3) by simp
    then show ?thesis by (auto simp: ideal_level_def algebra_simps min_def)
  qed
  then show ?thesis
    using assms(1,2) pos by (auto simp: at_level_def ideal_level_def)
qed

lemma commit_at_level:
  assumes "redis_hash_laws R" and "\<not> la_is_cb a" and "0 < la_rate a" and "la_capacity a \<le> 60 * la_rate a"
    and "0 \<le> n" and "n \<le> la_capacity a"
  shows "at_level R a (commit_bucket R (t * 1000) t a n s) t n"
proof -
  let ?s = "commit_bucket R (t * 1000) t a n s"
  have rd: "r_hget R ?s (t' * 1000) (la_key a) ''tokens'' = (if t' < t + 60 then Some (LNum n) else None)"
           "r_hget R ?s (t' * 1000) (la_key a) ''last_refill'' = (if t' < t + 60 then Some (LNum t) else None)"
    if "t \<le> t'" for t'
    using that assms(1,2) by (auto simp: commit_bucket_def Let_def redis_simps)
  have "la_capacity a \<le> n + (t' - t) * la_rate a" if "t + 60 \<le> t'" for t'
  proof -
    have "60 * la_rate a \<le> (t' - t) * la_rate a" using that assms(3) by (simp add: mult_right_mono)
    then show ?thesis using assms(4,5) by linarith
  qed
  then show ?thesis
    using assms(5,6) by (auto simp: at_level_def bucket_filled_def ideal_level_def rd Let_def min_def)
qed

lemma script_run_ideal:
  assumes "redis_hash_laws R" and "\<not> la_is_cb a" and "0 < la_rate a" and "0 \<le> la_cost a"
    and "la_capacity a \<le> 60 * la_rate a" and "at_level R a s t l" and "sorted (t # ts)"
  shows "script_run R a ts s = ideal_run (la_capacity a) (la_rate a) (la_cost a) l t ts"
  using assms(6,7)
proof (induction ts arbitrary: s t l)
  case (Cons t' ts)
  let ?lev = "ideal_level (la_capacity a) (la_rate a) l t t'"
  have le: "t \<le> t'" and sorted: "sorted (t' # ts)" using Cons.prems(2) by auto
  have f: "bucket_filled R s (t' * 1000) a t' = Some ?lev"
    using Cons.prems(1) le by (simp add: at_level_def)
  have lev: "at_level R a s t' ?lev"
    using at_level_later [OF Cons.prems(1) le] assms(3) by simp
  show ?case
  proof (cases "la_cost a \<le> ?lev")
    case True
    then have "at_level R a (commit_bucket R (t' * 1000) t' a (?lev - la_cost a) s) t' (?lev - la_cost a)"
      using lev assms(1-5) by (intro commit_at_level) (auto simp: at_level_def)
    from Cons.IH [OF this sorted] show ?thesis
      using True f assms(2) by (simp add: quota_script_def Let_def)
  next
    case False
    then show ?thesis
      using f assms(2) Cons.IH [OF lev sorted] by (simp add: quota_script_def Let_def)
  qed
qed simp

text \<open>
  C7 (refinement): the Lua bucket implements the ideal token bucket. For a layer whose
  capacity refills within the key's 60 second lifetime, every sequence of calls at
  non-decreasing times gets, call by call, the ideal bucket's answers, in spite of the
  lazy refill and of keys expiring in between.
\<close>

theorem quota_script_refines_token_bucket:
  assumes "redis_hash_laws R" and "\<not> la_is_cb a" and "0 < la_rate a" and "0 \<le> la_cost a"
    and "la_capacity a \<le> 60 * la_rate a" and "at_level R a s t l" and "sorted (t # ts)"
  shows "script_run R a ts s = ideal_run (la_capacity a) (la_rate a) (la_cost a) l t ts"
  by (rule script_run_ideal [OF assms])

lemma fresh_at_level:
  "(\<And>st f. r_hget R s st (la_key a) f = None) \<Longrightarrow> 0 \<le> la_capacity a \<Longrightarrow> 0 \<le> la_rate a \<Longrightarrow>
     at_level R a s t (la_capacity a)"
  by (auto simp: at_level_def bucket_filled_def ideal_level_def min_def)

theorem quota_script_refines_token_bucket_witness:
  "script_run map_redis (sample_args ''a'') [0, 0, 0, 1, 100] (\<lambda>_ _ _. None)
     = ideal_run 10 2 4 10 0 [0, 0, 0, 1, 100]"
proof -
  have "at_level map_redis (sample_args ''a'') (\<lambda>_ _ _. None) 0 10"
    using fresh_at_level [of map_redis "\<lambda>_ _ _. None" "sample_args ''a''" 0]
    by (simp add: sample_args_def map_redis_def)
  then show ?thesis
    using quota_script_refines_token_bucket [OF map_redis_laws, of "sample_args ''a''"
        "\<lambda>_ _ _. None" 0 10 "[0, 0, 0, 1, 100]"]
    by (simp add: sample_args_def)
qed

lemma ideal_run_bound:
  assumes "0 \<le> rate" and "0 \<le> cost" and "0 \<le> l" and "l \<le> cap" and "sorted (t # ts)"
  shows "of_nat (length (filter id (ideal_run cap rate cost l t ts))) * cost \<le> l + (last (t # ts) - t) * rate"
  using assms(3-5)
proof (induction ts arbitrary: l t)
  case (Cons t' ts)
  let ?lev = "ideal_level cap rate l t t'"
  have le: "t \<le> t'" and sorted: "sorted (t' # ts)" using Cons.prems by auto
  have pos: "0 \<le> (t' - t) * rate" using le assms(1) by simp
  have lev: "0 \<le> ?lev" "?lev \<le> cap" "?lev \<le> l + (t' - t) * rate"
    using Cons.prems pos by (auto simp: ideal_level_def)
  show ?case
    using Cons.IH [of "?lev - cost" t'] Cons.IH [of ?lev t'] lev sorted assms(2)
    by (auto simp: Let_def algebra_simps)
qed simp

text \<open>
  The rate limit holds. Starting from a full bucket, the requests a layer
  admits up to time \<open>last ts\<close> never cost more than its capacity plus what the rate
  accrues since the start, under the same condition on the key's lifetime.
\<close>

theorem quota_rate_bound:
  assumes "redis_hash_laws R" and "\<not> la_is_cb a" and "0 < la_rate a" and "0 \<le> la_cost a"
    and "0 \<le> la_capacity a" and "la_capacity a \<le> 60 * la_rate a"
    and "\<And>st f. r_hget R s st (la_key a) f = None" and "sorted (t # ts)"
  shows "of_nat (length (filter id (script_run R a ts s))) * la_cost a
    \<le> la_capacity a + (last (t # ts) - t) * la_rate a"
proof -
  let ?ideal = "ideal_run (la_capacity a) (la_rate a) (la_cost a) (la_capacity a) t ts"
  have lvl: "at_level R a s t (la_capacity a)" using assms by (intro fresh_at_level) auto
  have eq: "script_run R a ts s = ?ideal"
    by (rule script_run_ideal [OF assms(1-4,6) lvl assms(8)])
  show ?thesis
    unfolding eq using assms(3-5) by (intro ideal_run_bound [OF _ _ _ _ assms(8)]) auto
qed

theorem quota_rate_bound_witness:
  "of_nat (length (filter id (script_run map_redis (sample_args ''a'') [0, 0, 0, 1] (\<lambda>_ _ _. None)))) * 4
     \<le> (12 :: rat)"
  using quota_rate_bound [OF map_redis_laws, of "sample_args ''a''" "\<lambda>_ _ _. None" 0 "[0, 0, 0, 1]"]
  by (simp add: sample_args_def map_redis_def)

text \<open>
  without that condition the bound fails. The key of a non-breaker bucket
  lives for 60 seconds after the last admitted request, so after an idle minute the bucket
  is full again whatever its rate: a bucket that accrues less than its capacity per minute
  forgives what was spent.
\<close>

theorem quota_idle_minute_refills:
  assumes "redis_hash_laws R" and "\<not> la_is_cb a" and "t + 60 \<le> t'"
    and "quota_script R (t * 1000) t a s = (s', Inr (1, x))"
  shows "bucket_filled R s' (t' * 1000) a t' = Some (la_capacity a)"
proof -
  obtain n where "s' = commit_bucket R (t * 1000) t a n s"
    using assms(2,4) by (auto simp: quota_script_def split: option.splits if_splits)
  then show ?thesis
    using assms(1-3) by (auto simp: bucket_filled_def commit_bucket_def Let_def redis_simps)
qed

theorem quota_idle_minute_refills_witness:
  "\<exists>s'. quota_script map_redis 0 0
        \<lparr>la_key = ''slow'', la_rate = 1, la_capacity = 600, la_cost = 600, la_backoff_s = 30, la_is_cb = False\<rparr>
        (\<lambda>_ _ _. None) = (s', Inr (1, 0))
      \<and> bucket_filled map_redis s' 60000
        \<lparr>la_key = ''slow'', la_rate = 1, la_capacity = 600, la_cost = 600, la_backoff_s = 30, la_is_cb = False\<rparr> 60
        = Some 600"
proof -
  let ?a = "\<lparr>la_key = ''slow'', la_rate = 1, la_capacity = 600, la_cost = 600, la_backoff_s = 30, la_is_cb = False\<rparr>"
  have "\<exists>s'. quota_script map_redis (0 * 1000) 0 ?a (\<lambda>_ _ _. None) = (s', Inr (1, 0))"
    by (simp add: quota_script_def quota_eval)
  then obtain s' where h: "quota_script map_redis (0 * 1000) 0 ?a (\<lambda>_ _ _. None) = (s', Inr (1, 0))" ..
  show ?thesis
    using quota_idle_minute_refills [OF map_redis_laws _ _ h, of 60] h by auto
qed

section \<open>The circuit breaker\<close>

text \<open>
  An open breaker stays closed to traffic. After a call trips the breaker,
  every later call in the announced window is denied, with a retry time between one
  second and what is left of the window, and changes nothing.
\<close>

theorem breaker_open_denies:
  assumes "redis_hash_laws R" and "la_is_cb a" and "cb_open_for R s st (la_key a) now = None"
    and "quota_script R st now a s = (s', Inr (0, ra))"
    and "now \<le> now'" and "now' < now + of_int ra"
    and "st \<le> st'" and "st' < st + of_int (ra * 1000 + 30000)"
  shows "\<exists>left. quota_script R st' now' a s' = (s', Inr (0, left)) \<and> 1 \<le> left \<and> left \<le> ra"
proof -
  have t: "s' = trip_breaker R st now a s" "ra = cb_retry_after (la_backoff_s a)"
    using assms(2-4) by (auto simp: quota_script_def split: option.splits if_splits)
  have b: "0 < ra * 1000 + 30000" using cb_retry_after_bounds [of "la_backoff_s a"] t(2) by linarith
  have "r_hget R s' st' (la_key a) ''state'' = Some (LStr ''open'')"
       "r_hget R s' st' (la_key a) ''until'' = Some (LNum (now + of_int ra))"
    using assms(1,7,8) b t by (auto simp: trip_breaker_def Let_def redis_simps)
  then have "cb_open_for R s' st' (la_key a) now' = Some \<lceil>now + of_int ra - now'\<rceil>"
    using assms(6) by (simp add: cb_open_for_def)
  moreover have "1 \<le> \<lceil>now + of_int ra - now'\<rceil>" "\<lceil>now + of_int ra - now'\<rceil> \<le> ra"
    using assms(5,6) by (auto simp: ceiling_le_iff one_le_ceiling)
  ultimately show ?thesis using assms(2) by (simp add: quota_script_def)
qed

definition sample_breaker :: lua_args where
  "sample_breaker =
     \<lparr>la_key = ''cb'', la_rate = 1, la_capacity = 1, la_cost = 2, la_backoff_s = 30, la_is_cb = True\<rparr>"

theorem breaker_open_denies_witness:
  "\<exists>s' left. quota_script map_redis 0 0 sample_breaker (\<lambda>_ _ _. None) = (s', Inr (0, 30))
     \<and> quota_script map_redis 29000 29 sample_breaker s' = (s', Inr (0, left)) \<and> 1 \<le> left"
proof -
  have c: "cb_open_for map_redis (\<lambda>_ _ _. None) 0 (la_key sample_breaker) 0 = None"
    by (simp add: cb_open_for_def map_redis_def)
  have "\<exists>s'. quota_script map_redis 0 0 sample_breaker (\<lambda>_ _ _. None) = (s', Inr (0, 30))"
    by (simp add: quota_script_def quota_eval sample_breaker_def cb_open_for_def cb_retry_after_def)
  then obtain s' where h: "quota_script map_redis 0 0 sample_breaker (\<lambda>_ _ _. None) = (s', Inr (0, 30))" ..
  show ?thesis
    using breaker_open_denies [OF map_redis_laws _ c h, of 29 29000] h by (auto simp: sample_breaker_def)
qed

section \<open>Responses to violations\<close>

lemma dec_header_ok: "http_header_laws env \<Longrightarrow> header_value_ok env (dec_of_u64 w)"
  using dec_of_nat_digits [of "unat w"]
  by (auto simp: http_header_laws_def dec_of_u64_def list_all_iff)

lemma violation_type_ok: "http_header_laws env \<Longrightarrow> header_value_ok env (violation_type l)"
  by (cases l) (simp_all add: http_header_laws_def is_ascii_lower_def)

text \<open>
  Every response to a quota violation carries exactly two inserted headers, a
  \<open>Retry-After\<close> that parses back to a number of seconds in \<open>1..31536000\<close> (at most 30 for the
  system limit, however large the store's answer was) and the \<open>X-Violation-Type\<close> of the
  layer; the API's status is the one \<open>kernel-core\<close> assigns, 429 or 503.
\<close>

theorem violation_response_contract:
  assumes "http_header_laws env"
  shows "\<exists>n. resp_headers (violation_to_response env v)
        = [(''Retry-After'', dec_of_u64 n), (''X-Violation-Type'', violation_type (qv_layer v))]
      \<and> parse_u64 (dec_of_u64 n) = Some n \<and> 1 \<le> n \<and> n \<le> 31536000
      \<and> (qv_layer v = SystemHardLimit \<longrightarrow> n \<le> 30)
      \<and> resp_status (violation_to_response env v) = status_code v
      \<and> status_code v \<in> {429, 503}"
proof -
  have "1 \<le> retry_after_value v" "retry_after_value v \<le> 31536000"
      "qv_layer v = SystemHardLimit \<longrightarrow> retry_after_value v \<le> 30"
    using clamp_u64_bounds [of 1 30 "qv_retry_after_s v"] clamp_u64_bounds [of 1 31536000 "qv_retry_after_s v"]
    by (auto simp: retry_after_value_def intro: order_trans split: quota_layer.split)
  moreover have "resp_headers (violation_to_response env v)
      = [(''Retry-After'', dec_of_u64 (retry_after_value v)), (''X-Violation-Type'', violation_type (qv_layer v))]"
    using assms dec_header_ok [OF assms] violation_type_ok [OF assms]
    by (simp add: violation_to_response_def insert_valid_headers_def violation_headers_def Let_def
        http_header_laws_def)
  moreover have "resp_status (violation_to_response env v) = status_code v" "status_code v \<in> {429, 503}"
    by (auto simp: violation_to_response_def violation_to_status_def status_code_def Let_def
        split: quota_layer.split)
  ultimately show ?thesis using parse_dec_of_u64 by blast
qed

theorem violation_response_contract_witness:
  "\<exists>n. resp_headers (violation_to_response permissive_http \<lparr>qv_layer = SystemHardLimit, qv_retry_after_s = 100\<rparr>)
        = [(''Retry-After'', dec_of_u64 n), (''X-Violation-Type'', ''system_hard_limit'')] \<and> n \<le> 30"
  using violation_response_contract [of permissive_http "\<lparr>qv_layer = SystemHardLimit, qv_retry_after_s = 100\<rparr>"]
    permissive_http_laws by auto

section \<open>The store interface and the middleware\<close>

lemma outcome_cases [case_names denied passed]:
  obtains w1 v where "x = (w1, Inl v)" | w1 where "x = (w1, Inr ())"
  by (cases x) (metis old.sum.exhaust old.unit.exhaust)

lemma quota_middleware_simps:
  "quota_middleware env chk None st nxt w = (w, Inl (status_into_response 401))"
  "quota_middleware env chk (Some c) None nxt w = (w, Inl (status_into_response 500))"
  "chk (ctx_tenant_id c) [SystemHardLimit, CircuitBreaker, TenantBudget, ApiRateLimit] w = (w1, Inl v) \<Longrightarrow>
     quota_middleware env chk (Some c) (Some x) nxt w = (w1, Inl (violation_to_response env v))"
  "chk (ctx_tenant_id c) [SystemHardLimit, CircuitBreaker, TenantBudget, ApiRateLimit] w = (w1, Inr ()) \<Longrightarrow>
     quota_middleware env chk (Some c) (Some x) nxt w = apsnd Inr (nxt w1)"
  by (simp_all add: quota_middleware_def)

text \<open>
  What \<open>quota_middleware\<close> relies on from an implementation of the \<open>QuotaStore\<close> trait: a
  check of no layers passes and changes nothing, and a violation names one of the layers
  that were asked for or the fail-closed system limit.
\<close>

locale quota_store =
  fixes check_multi :: "tenant_id \<Rightarrow> quota_layer list \<Rightarrow> 'w \<Rightarrow> 'w \<times> (quota_violation + unit)"
  assumes no_layers: "check_multi t [] w = (w, Inr ())"
    and violation_layer: "check_multi t ls w = (w', Inl v) \<Longrightarrow> qv_layer v \<in> insert SystemHardLimit (set ls)"
begin

lemma middleware_admits:
  "quota_middleware env check_multi ctx st nxt w = (w', Inr r) \<longleftrightarrow>
     (\<exists>c w1. ctx = Some c \<and> st \<noteq> None
        \<and> check_multi (ctx_tenant_id c) [SystemHardLimit, CircuitBreaker, TenantBudget, ApiRateLimit] w = (w1, Inr ())
        \<and> nxt w1 = (w', r))"
  by (cases ctx; cases st;
      cases "check_multi (ctx_tenant_id (the ctx)) [SystemHardLimit, CircuitBreaker, TenantBudget, ApiRateLimit] w"
        rule: outcome_cases)
    (auto simp: quota_middleware_simps apsnd_eq_iff)

lemma middleware_rejects:
  assumes "quota_middleware env check_multi ctx st nxt w = (w', Inl r)"
  shows "resp_status r \<in> {401, 500, 429, 503}"
  using assms
  by (cases ctx; cases st;
      cases "check_multi (ctx_tenant_id (the ctx)) [SystemHardLimit, CircuitBreaker, TenantBudget, ApiRateLimit] w"
        rule: outcome_cases)
    (auto simp: quota_middleware_simps apsnd_eq_iff status_into_response_def violation_to_response_def
      violation_to_status_def Let_def split: quota_layer.splits)

end

lemma layer_config_Some: "\<exists>ck. layer_config sha256 cfg t l = Some ck \<and> ck_layer ck = l"
  by (simp add: layer_config_def Let_def)

lemma checks_layers: "map ck_layer (List.map_filter (layer_config sha256 cfg t) ls) = ls"
  by (induction ls) (auto simp: List.map_filter_simps layer_config_def Let_def)

lemma checks_empty: "List.map_filter (layer_config sha256 cfg t) ls = [] \<longleftrightarrow> ls = []"
  using checks_layers [of sha256 cfg t ls] by (metis Nil_is_map_conv)

lemma multi_verdict_layer:
  "multi_verdict checks res = Inl v \<Longrightarrow>
     qv_layer v = SystemHardLimit \<or> (\<exists>i < length checks. qv_layer v = ck_layer (checks ! i))"
  by (auto simp: multi_verdict_def split: sum.splits prod.splits if_splits)

lemma redis_down:
  "\<not> qr_up Q \<Longrightarrow> ls \<noteq> [] \<Longrightarrow> redis_check_and_update_multi sha256 cfg Q st now t ls w
     = (w, Inl \<lparr>qv_layer = SystemHardLimit, qv_retry_after_s = 1\<rparr>)"
  by (simp add: redis_check_and_update_multi_def checks_empty multi_verdict_def Let_def)

interpretation redis_quota: quota_store "redis_check_and_update_multi sha256 cfg Q st now"
  for sha256 cfg and Q :: "'s quota_redis" and st now
proof
  fix t ls and w w' :: 's and v
  show "redis_check_and_update_multi sha256 cfg Q st now t [] w = (w, Inr ())"
    by (simp add: redis_check_and_update_multi_def)
  assume a: "redis_check_and_update_multi sha256 cfg Q st now t ls w = (w', Inl v)"
  let ?c = "List.map_filter (layer_config sha256 cfg t) ls"
  have "qv_layer v = SystemHardLimit \<or> (\<exists>i < length ?c. qv_layer v = ck_layer (?c ! i))"
    using a multi_verdict_layer [of ?c _ v]
    by (auto simp: redis_check_and_update_multi_def Let_def apsnd_eq_iff split: if_splits)
  moreover have "ck_layer (?c ! i) \<in> set ls" if "i < length ?c" for i
    using that checks_layers [of sha256 cfg t ls] by (metis length_map nth_map nth_mem)
  ultimately show "qv_layer v \<in> insert SystemHardLimit (set ls)" by auto
qed

lemma default_multi_in_memory: "default_check_and_update_multi in_memory_check_and_update t ls w = (w, Inr ())"
  by (induction ls) (auto simp: in_memory_check_and_update_def)

interpretation memory_quota: quota_store "default_check_and_update_multi in_memory_check_and_update"
  by unfold_locales (auto simp: default_multi_in_memory)

text \<open>
  quota enforcement fails closed. A request reaches the handler only if it
  has a tenant context and a state and the store admitted all four layers, in the order
  system, breaker, tenant, API; when Redis is unreachable the request is refused with the
  system limit's 503 and nothing else runs.
\<close>

theorem quota_middleware_fails_closed:
  fixes Q :: "'s quota_redis"
  shows "(quota_middleware env (redis_check_and_update_multi sha256 cfg Q st now) ctx state nxt w = (w', Inr r)
      \<longleftrightarrow> (\<exists>c w1. ctx = Some c \<and> state \<noteq> None
            \<and> redis_check_and_update_multi sha256 cfg Q st now (ctx_tenant_id c)
                [SystemHardLimit, CircuitBreaker, TenantBudget, ApiRateLimit] w = (w1, Inr ())
            \<and> nxt w1 = (w', r)))
    \<and> (\<not> qr_up Q \<and> ctx \<noteq> None \<and> state \<noteq> None \<longrightarrow>
         quota_middleware env (redis_check_and_update_multi sha256 cfg Q st now) ctx state nxt w
           = (w, Inl (violation_to_response env \<lparr>qv_layer = SystemHardLimit, qv_retry_after_s = 1\<rparr>)))"
proof (intro conjI impI)
  show "quota_middleware env (redis_check_and_update_multi sha256 cfg Q st now) ctx state nxt w = (w', Inr r)
      \<longleftrightarrow> (\<exists>c w1. ctx = Some c \<and> state \<noteq> None
            \<and> redis_check_and_update_multi sha256 cfg Q st now (ctx_tenant_id c)
                [SystemHardLimit, CircuitBreaker, TenantBudget, ApiRateLimit] w = (w1, Inr ())
            \<and> nxt w1 = (w', r))"
    by (rule redis_quota.middleware_admits)
next
  assume "\<not> qr_up Q \<and> ctx \<noteq> None \<and> state \<noteq> None"
  then obtain c x where "ctx = Some c" "state = Some x" "\<not> qr_up Q" by auto
  then show "quota_middleware env (redis_check_and_update_multi sha256 cfg Q st now) ctx state nxt w
           = (w, Inl (violation_to_response env \<lparr>qv_layer = SystemHardLimit, qv_retry_after_s = 1\<rparr>))"
    by (simp add: quota_middleware_def redis_down)
qed

definition sample_quota_config :: quota_config where
  "sample_quota_config =
     (let q = \<lparr>ql_rate = Fin 1000, ql_capacity = Fin 1000, ql_cost = Fin 1, ql_backoff_s = Fin 30\<rparr>
      in \<lparr>qc_system_hard_limit = q, qc_tenant_budget = q, qc_api_rate_limit = q, qc_circuit_breaker = q,
          qc_tenant_overrides = Map.empty\<rparr>)"

theorem quota_middleware_fails_closed_witness:
  "quota_middleware permissive_http
     (redis_check_and_update_multi (\<lambda>_. []) sample_quota_config
        \<lparr>qr_hash = map_redis, qr_up = False, qr_nonfinite = (\<lambda>s. (s, Inl LuaError))\<rparr> 0 0)
     (Some (TenantContext_new (TenantId ''t'') None :: unit tenant_context)) (Some ())
     (\<lambda>w. (w, status_into_response 200)) (\<lambda>_ _ _. None)
   = (\<lambda>_ _ _. None, Inl (violation_to_response permissive_http
        \<lparr>qv_layer = SystemHardLimit, qv_retry_after_s = 1\<rparr>))"
  using quota_middleware_fails_closed
      [of permissive_http "\<lambda>_. []" sample_quota_config
        "\<lparr>qr_hash = map_redis, qr_up = False, qr_nonfinite = (\<lambda>s. (s, Inl LuaError))\<rparr>" 0 0
        "Some (TenantContext_new (TenantId ''t'') None :: unit tenant_context)" "Some ()"
        "\<lambda>w. (w, status_into_response 200)" "\<lambda>_ _ _. None"]
  by simp

section \<open>Keys\<close>

lemma layer_key_alt:
  "layer_key sha256 t l = (if l = SystemHardLimit then ''quota:{global}:system''
     else ''quota:{global}:tenant:'' @ hex_of_bytes (sha256 (tenant_str t)) @
            (case l of TenantBudget \<Rightarrow> '':cpu'' | ApiRateLimit \<Rightarrow> '':api'' | _ \<Rightarrow> '':cb''))"
  by (cases l) (simp_all add: append_sha256_hex_def)

lemma layer_keys_distinct: "distinct (map (layer_key sha256 t) [SystemHardLimit, CircuitBreaker, TenantBudget, ApiRateLimit])"
  by (simp add: layer_key_alt)

text \<open>
  Buckets are not shared. Two checks use the same Redis key exactly when they
  are for the same layer and, apart from the global system limit, for the same tenant, as
  long as the digests of the two tenant identifiers do not collide.
\<close>

theorem quota_keys_isolated:
  assumes "sha256_ok sha256 {tenant_str t1, tenant_str t2}"
  shows "layer_key sha256 t1 l1 = layer_key sha256 t2 l2
    \<longleftrightarrow> l1 = l2 \<and> (l1 = SystemHardLimit \<or> t1 = t2)"
proof -
  have "hex_of_bytes (sha256 (tenant_str t1)) @ x = hex_of_bytes (sha256 (tenant_str t2)) @ y
      \<longleftrightarrow> t1 = t2 \<and> x = y" for x y
    using sha256_hex_eq [OF assms, of "tenant_str t1" "tenant_str t2" x y] by (auto intro: tenant_id.expand)
  then show ?thesis by (auto simp: layer_key_alt split: quota_layer.split)
qed

theorem quota_keys_isolated_witness:
  "layer_key sample_sha256 (TenantId ''a'') ApiRateLimit \<noteq> layer_key sample_sha256 (TenantId ''bb'') ApiRateLimit"
  using quota_keys_isolated [of sample_sha256 "TenantId ''a''" "TenantId ''bb''" ApiRateLimit ApiRateLimit]
  by (simp add: sha256_ok_def sample_sha256_def)

end
