(* ===== verification/Idempotency_Core.thy ===== *)
theory Idempotency_Core
  imports Kernel_Prelude "HOL-Library.Multiset"
begin

text \<open>
  The pure part of idempotency, \<open>kernel-core/src/idempotency.rs\<close>: the canonical request
  target under which a request's outcome is remembered, and the conflict test. The url
  crate is an argument, \<open>url_path\<close>: the path of a URL, or \<open>None\<close> where parsing fails.
\<close>

section \<open>Definitions\<close>

definition canonical_path :: "(string \<Rightarrow> string option) \<Rightarrow> string \<Rightarrow> string" where
  "canonical_path url_path path =
     (let path_str = (if starts_with path ''http://'' \<or> starts_with path ''https://''
                      then (case url_path path of Some p \<Rightarrow> p | None \<Rightarrow> path)
                      else path)
      in if length path_str > 1 \<and> ends_with_char path_str (CHR ''/'') then butlast path_str else path_str)"

definition canonical_query :: "string option \<Rightarrow> string option" where
  "canonical_query query =
     (case query of
        Some q \<Rightarrow> if q = [] then None else Some (join ''&'' (sort (split_char (CHR ''&'') q)))
      | None \<Rightarrow> None)"

definition canonicalize_request_target ::
    "(string \<Rightarrow> string option) \<Rightarrow> string \<Rightarrow> string option \<Rightarrow> string" where
  "canonicalize_request_target url_path path query =
     (case canonical_query query of
        Some q \<Rightarrow> canonical_path url_path path @ ''?'' @ q
      | None \<Rightarrow> canonical_path url_path path)"

definition check_idempotency_conflict :: "string \<Rightarrow> string \<Rightarrow> string \<Rightarrow> string \<Rightarrow> bool" where
  "check_idempotency_conflict key_a hash_a key_b hash_b =
     (if key_a = key_b then hash_a \<noteq> hash_b else False)"

text \<open>The parameters of a query, as the specification sees them: a multiset of raw pairs.\<close>

definition query_params :: "string option \<Rightarrow> string multiset" where
  "query_params query =
     (case query of Some q \<Rightarrow> if q = [] then {#} else mset (split_char (CHR ''&'') q) | None \<Rightarrow> {#})"

section \<open>Lemmas\<close>

lemma split_sorted_join:
  "split_char (CHR ''&'') (join ''&'' (sort (split_char (CHR ''&'') q))) = sort (split_char (CHR ''&'') q)"
proof (rule split_char_join)
  show "sort (split_char (CHR ''&'') q) \<noteq> []"
    by (metis split_char_nonempty set_empty set_sort)
  show "\<And>p. p \<in> set (sort (split_char (CHR ''&'') q)) \<Longrightarrow> CHR ''&'' \<notin> set p"
    by (simp add: split_char_no_sep)
qed

lemma sort_eq_iff_mset: "sort xs = sort ys \<longleftrightarrow> mset xs = mset ys"
proof
  assume "sort xs = sort ys"
  then have "mset (sort xs) = mset (sort ys)" by simp
  then show "mset xs = mset ys" by simp
next
  assume "mset xs = mset ys"
  then have "mset (sort ys) = mset xs" by simp
  then show "sort xs = sort ys" by (rule properties_for_sort) simp
qed

lemma canonical_query_params: "canonical_query a = canonical_query b \<longleftrightarrow> query_params a = query_params b"
proof -
  have "join ''&'' (sort (split_char (CHR ''&'') p)) = join ''&'' (sort (split_char (CHR ''&'') q))
      \<longleftrightarrow> mset (split_char (CHR ''&'') p) = mset (split_char (CHR ''&'') q)" for p q
    unfolding sort_eq_iff_mset [symmetric] using split_sorted_join [of p] split_sorted_join [of q] by metis
  then show ?thesis
    by (auto simp: canonical_query_def query_params_def split: option.splits if_splits)
qed

lemma sort_join_nonempty: "q \<noteq> [] \<Longrightarrow> join ''&'' (sort (split_char (CHR ''&'') q)) \<noteq> []"
proof
  assume "q \<noteq> []" and "join ''&'' (sort (split_char (CHR ''&'') q)) = []"
  then have "sort (split_char (CHR ''&'') q) = [[]]" using split_sorted_join [of q] by simp
  then have s: "sort (split_char (CHR ''&'') q) = [[]]" .
  then have "length (split_char (CHR ''&'') q) = 1" by (metis One_nat_def length_Cons length_sort list.size(3))
  then obtain x where "split_char (CHR ''&'') q = [x]" by (auto simp: length_Suc_conv)
  with s have "split_char (CHR ''&'') q = [[]]" by simp
  then have "q = []" using join_split_char [of "CHR ''&''" q] by simp
  with \<open>q \<noteq> []\<close> show False by simp
qed

lemma canonical_query_idem: "canonical_query (canonical_query q) = canonical_query q"
  by (auto simp: canonical_query_def sort_join_nonempty split_sorted_join sorted_sort_id split: option.splits)

section \<open>Properties\<close>

interpretation target_key: sep_format "CHR ''?''" "\<lambda>p. CHR ''?'' \<notin> set p"
  by unfold_locales

text \<open>
  Two requests have the same canonical target exactly when their paths are
  equal up to the trailing slash and their queries consist of the same raw parameters, in
  any order, duplicates counted; an empty query is the same as none.
\<close>

theorem canonical_target_characterisation:
  assumes "CHR ''?'' \<notin> set (canonical_path url_path p1)" and "CHR ''?'' \<notin> set (canonical_path url_path p2)"
  shows "canonicalize_request_target url_path p1 q1 = canonicalize_request_target url_path p2 q2
    \<longleftrightarrow> canonical_path url_path p1 = canonical_path url_path p2 \<and> query_params q1 = query_params q2"
proof -
  have no: "b @ CHR ''?'' # x \<noteq> a" if "CHR ''?'' \<notin> set a" for a b x
    using that by (metis in_set_conv_decomp)
  have "canonicalize_request_target url_path p1 q1 = canonicalize_request_target url_path p2 q2
    \<longleftrightarrow> canonical_path url_path p1 = canonical_path url_path p2 \<and> canonical_query q1 = canonical_query q2"
    using target_key.key_inj [OF assms] no [OF assms(1)] no [OF assms(2)]
    by (auto simp: canonicalize_request_target_def dest: sym split: option.splits)
  then show ?thesis by (simp add: canonical_query_params)
qed

theorem canonical_target_characterisation_witness:
  "canonicalize_request_target (\<lambda>_. None) ''/orders/'' (Some ''b=2&a=1'')
     = canonicalize_request_target (\<lambda>_. None) ''/orders'' (Some ''a=1&b=2'')"
proof -
  have "CHR ''?'' \<notin> set (canonical_path (\<lambda>_. None) ''/orders/'')"
       "CHR ''?'' \<notin> set (canonical_path (\<lambda>_. None) ''/orders'')"
    by (simp_all add: canonical_path_def starts_with_def ends_with_char_def)
  from canonical_target_characterisation [OF this, of "Some ''b=2&a=1''" "Some ''a=1&b=2''"]
  show ?thesis
    by (simp add: query_params_def canonical_path_def starts_with_def ends_with_char_def)
qed

text \<open>
  The order of the canonical query is that of the raw parameters, not
  "key ascending, then value ascending" as documented: the parameter \<open>a-b=1\<close> comes before
  \<open>a=2\<close> although the key \<open>a\<close> is the smaller one.
\<close>

theorem canonical_query_not_key_order:
  "canonical_query (Some ''a=2&a-b=1'') = Some ''a-b=1&a=2'' \<and> ''a'' < ''a-b''"
  by (simp add: canonical_query_def)

end
