(* ===== verification/Idempotency_Store.thy ===== *)
theory Idempotency_Store
  imports Http_Types
begin

text \<open>
  The idempotency stores of \<open>kernel-api/src/middleware.rs\<close>: the records and leases, the
  \<open>IdempotencyStore\<close> trait as a record of operations with its contract as a locale, and
  the in-memory implementation.

  A store operation takes and returns a world. The in-memory world holds the map behind
  the mutex, the clock (one reading per operation), the wall-clock milliseconds, the
  number of UUIDs and \<open>Notify\<close> objects drawn so far and the set of \<open>Notify\<close> objects whose
  waiters have been woken. UUIDs are drawn from the argument \<open>uuid_v7\<close>. \<open>try_acquire\<close> is
  split at the point where the code drops and re-takes the mutex.
\<close>

section \<open>Records, leases and entries\<close>

record idempotency_scope_key =
  sk_tenant_id :: tenant_id
  sk_method :: string
  sk_canonical_target :: string
  sk_idempotency_key :: string

record idempotency_record =
  ir_body_hash :: string
  ir_action_id :: string
  ir_status :: nat
  ir_headers :: "(string \<times> string) list"
  ir_body :: string
  ir_expires_at :: instant

datatype idempotency_entry =
    InFlight (if_owner_token: string) (if_body_hash: string) (if_notify: nat) (if_expires_at: instant)
  | Completed idempotency_record

record idempotency_lease =
  il_owner_token :: string
  il_version :: u64

datatype idempotency_acquire_result =
    Acquired idempotency_lease
  | Existing idempotency_entry
  | Retry

datatype idempotency_store_error = BackendUnavailable

fun entry_expires_at :: "idempotency_entry \<Rightarrow> instant" where
  "entry_expires_at (InFlight owner_token body_hash notify expires_at) = expires_at"
| "entry_expires_at (Completed r) = ir_expires_at r"

section \<open>The trait and its contract\<close>

record 'w idempotency_ops =
  op_try_acquire :: "idempotency_scope_key \<Rightarrow> string \<Rightarrow> duration \<Rightarrow> 'w
                       \<Rightarrow> 'w \<times> (idempotency_store_error + idempotency_acquire_result)"
  op_complete :: "idempotency_scope_key \<Rightarrow> idempotency_lease \<Rightarrow> idempotency_record \<Rightarrow> 'w
                    \<Rightarrow> 'w \<times> (idempotency_store_error + unit)"
  op_release_inflight :: "idempotency_scope_key \<Rightarrow> idempotency_lease \<Rightarrow> 'w
                            \<Rightarrow> 'w \<times> (idempotency_store_error + unit)"

text \<open>
  The abstract store: per scope key nothing, a claim held by an owner for a body, or the
  finished response (without its expiry time, which is the store's own business).
\<close>

datatype claim =
    Held string string
  | Done string string nat "(string \<times> string) list" string

fun claim_of_record :: "idempotency_record \<Rightarrow> claim" where
  "claim_of_record r = Done (ir_body_hash r) (ir_action_id r) (ir_status r) (ir_headers r) (ir_body r)"

fun claim_of_entry :: "idempotency_entry \<Rightarrow> claim" where
  "claim_of_entry (InFlight owner_token body_hash notify expires_at) = Held owner_token body_hash"
| "claim_of_entry (Completed r) = claim_of_record r"

text \<open>
  The contract: \<open>view\<close> is the abstract store of a world, \<open>stale w k\<close> says that the claim at
  \<open>k\<close> has outlived its time, \<open>avail\<close> that the backend answers, and \<open>inv\<close> is the store's
  representation invariant. \<open>rely\<close> relates two abstract stores when other clients may turn the
  first into the second while a \<open>try_acquire\<close> is under way, between the attempt to claim the
  key and the look at the claim that was in the way. Each operation takes effect at one point:
  an acquisition at the attempt, on the store it finds; an answer that a claim exists at the
  look, so it reports the claim as the others have left it; and \<open>Retry\<close> says that the claim in
  the way was gone by then. It is promised for the scope keys of \<open>keys\<close> and the body hashes
  that satisfy \<open>hash_ok\<close>; the status of a record is a \<open>StatusCode\<close>, which lies between 100
  and 999.
\<close>

locale idempotency_store =
  fixes ops :: "'w idempotency_ops"
    and view :: "'w \<Rightarrow> idempotency_scope_key \<Rightarrow> claim option"
    and stale :: "'w \<Rightarrow> idempotency_scope_key \<Rightarrow> bool"
    and avail :: "'w \<Rightarrow> bool"
    and inv :: "'w \<Rightarrow> bool"
    and keys :: "idempotency_scope_key set"
    and hash_ok :: "string \<Rightarrow> bool"
    and rely :: "(idempotency_scope_key \<Rightarrow> claim option) \<Rightarrow> (idempotency_scope_key \<Rightarrow> claim option) \<Rightarrow> bool"
  assumes acquire_inv: "inv w \<Longrightarrow> k \<in> keys \<Longrightarrow> hash_ok h \<Longrightarrow> op_try_acquire ops k h ttl w = (w', res) \<Longrightarrow> inv w'"
    and acquired: "inv w \<Longrightarrow> k \<in> keys \<Longrightarrow> hash_ok h \<Longrightarrow>
      op_try_acquire ops k h ttl w = (w', Inr (Acquired l)) \<Longrightarrow>
      (view w k = None \<or> stale w k) \<and> view w' = (view w)(k \<mapsto> Held (il_owner_token l) h)"
    and existing: "inv w \<Longrightarrow> k \<in> keys \<Longrightarrow> hash_ok h \<Longrightarrow>
      op_try_acquire ops k h ttl w = (w', Inr (Existing e)) \<Longrightarrow>
      view w k \<noteq> None \<and> rely (view w) (view w') \<and> view w' k = Some (claim_of_entry e)"
    and retry: "inv w \<Longrightarrow> k \<in> keys \<Longrightarrow> hash_ok h \<Longrightarrow>
      op_try_acquire ops k h ttl w = (w', Inr Retry) \<Longrightarrow>
      view w k \<noteq> None \<and> rely (view w) (view w') \<and> view w' k = None"
    and answers_existing: "avail w \<Longrightarrow> inv w \<Longrightarrow> k \<in> keys \<Longrightarrow> hash_ok h \<Longrightarrow> view w k = Some c \<Longrightarrow> \<not> stale w k \<Longrightarrow>
      \<exists>w' res. op_try_acquire ops k h ttl w = (w', Inr res) \<and> (\<forall>l. res \<noteq> Acquired l) \<and> avail w'"
    and answers_acquired: "avail w \<Longrightarrow> inv w \<Longrightarrow> k \<in> keys \<Longrightarrow> hash_ok h \<Longrightarrow> view w k = None \<or> stale w k \<Longrightarrow>
      \<exists>w' l. op_try_acquire ops k h ttl w = (w', Inr (Acquired l)) \<and> avail w'"
    and complete_inv: "inv w \<Longrightarrow> k \<in> keys \<Longrightarrow> 100 \<le> ir_status r \<and> ir_status r \<le> 999 \<Longrightarrow>
      op_complete ops k l r w = (w', res') \<Longrightarrow> inv w'"
    and completed: "inv w \<Longrightarrow> k \<in> keys \<Longrightarrow> 100 \<le> ir_status r \<and> ir_status r \<le> 999 \<Longrightarrow>
      op_complete ops k l r w = (w', res') \<Longrightarrow>
      view w' = (if res' = Inr () then (view w)(k \<mapsto> claim_of_record r) else view w)
      \<and> (res' = Inr () \<longrightarrow> (\<exists>h. view w k = Some (Held (il_owner_token l) h)))"
    and answers_complete: "avail w \<Longrightarrow> inv w \<Longrightarrow> k \<in> keys \<Longrightarrow> 100 \<le> ir_status r \<and> ir_status r \<le> 999 \<Longrightarrow>
      view w k = Some (Held (il_owner_token l) h) \<Longrightarrow>
      \<exists>w'. op_complete ops k l r w = (w', Inr ()) \<and> avail w'"
    and release_inv: "inv w \<Longrightarrow> k \<in> keys \<Longrightarrow> op_release_inflight ops k l w = (w', res') \<Longrightarrow> inv w'"
    and released: "inv w \<Longrightarrow> k \<in> keys \<Longrightarrow> op_release_inflight ops k l w = (w', res') \<Longrightarrow>
      view w' = view w \<or> (\<exists>h. view w k = Some (Held (il_owner_token l) h)) \<and> view w' = (view w)(k := None)"
    and answers_release: "avail w \<Longrightarrow> inv w \<Longrightarrow> k \<in> keys \<Longrightarrow> view w k = Some (Held (il_owner_token l) h) \<Longrightarrow>
      \<exists>w'. op_release_inflight ops k l w = (w', Inr ()) \<and> view w' = (view w)(k := None)"
begin

text \<open>Only the owner's claim can be completed or released: nobody else's is touched.\<close>

lemma foreign_claim_kept:
  assumes "inv w" and "k \<in> keys" and "view w k = Some (Held owner h)" and "il_owner_token l \<noteq> owner"
  shows "100 \<le> ir_status r \<and> ir_status r \<le> 999 \<Longrightarrow> op_complete ops k l r w = (w', res) \<Longrightarrow>
           view w' = view w \<and> res = Inl BackendUnavailable"
    and "op_release_inflight ops k l w = (w', res') \<Longrightarrow> view w' = view w"
proof -
  assume "100 \<le> ir_status r \<and> ir_status r \<le> 999" "op_complete ops k l r w = (w', res)"
  from completed [OF assms(1,2) this] assms show "view w' = view w \<and> res = Inl BackendUnavailable"
    by (cases res) (auto split: if_splits intro: idempotency_store_error.exhaust)
next
  assume "op_release_inflight ops k l w = (w', res')"
  from released [OF assms(1,2) this] assms show "view w' = view w" by auto
qed

text \<open>A live claim that the others keep is reported, and no second one is given.\<close>

lemma live_claim_excludes:
  assumes "avail w" and "inv w" and "k \<in> keys" and "hash_ok h" and "view w k = Some c" and "\<not> stale w k"
    and "\<forall>V V'. rely V V' \<longrightarrow> V' k = V k"
  shows "\<exists>w' e. op_try_acquire ops k h ttl w = (w', Inr (Existing e)) \<and> claim_of_entry e = c
           \<and> view w' k = view w k \<and> inv w' \<and> avail w'"
proof -
  obtain w' res where a: "op_try_acquire ops k h ttl w = (w', Inr res)" "\<forall>l. res \<noteq> Acquired l" "avail w'"
    using answers_existing [OF assms(1-6)] by blast
  have "res \<noteq> Retry"
  proof
    assume "res = Retry"
    then have "rely (view w) (view w') \<and> view w' k = None" using retry [OF assms(2-4)] a(1) by blast
    moreover from this have "view w' k = view w k" using assms(7) by blast
    ultimately show False using assms(5) by simp
  qed
  then obtain e where e: "res = Existing e" using a(2) by (cases res) auto
  have "rely (view w) (view w')" "view w' k = Some (claim_of_entry e)" using existing [OF assms(2-4)] a(1) e by blast+
  moreover from this have "view w' k = view w k" using assms(7) by blast
  ultimately show ?thesis using a e acquire_inv [OF assms(2-4) a(1)] assms(5) by auto
qed

end

section \<open>The in-memory store\<close>

record mem_world =
  mw_inner :: "idempotency_scope_key \<rightharpoonup> idempotency_entry"
  mw_now :: instant
  mw_unix_ms :: u64
  mw_drawn :: nat
  mw_notified :: "nat set"

definition mem_get :: "idempotency_scope_key \<Rightarrow> mem_world
    \<Rightarrow> mem_world \<times> (idempotency_store_error + idempotency_entry option)" where
  "mem_get key w =
     (case mw_inner w key of
        None \<Rightarrow> (w, Inr None)
      | Some e \<Rightarrow>
          if entry_expires_at e \<le> mw_now w
          then (w\<lparr>mw_inner := (mw_inner w)(key := None)\<rparr>, Inr None)
          else (w, Inr (mw_inner w key)))"

datatype acquire_phase =
    Decided idempotency_acquire_result
  | Proceed
  | Relock

definition mem_acquire_begin :: "idempotency_scope_key \<Rightarrow> mem_world \<Rightarrow> mem_world \<times> acquire_phase" where
  "mem_acquire_begin key w =
     (case mw_inner w key of
        None \<Rightarrow> (w, Proceed)
      | Some (InFlight owner_token body_hash notify expires_at) \<Rightarrow>
          if expires_at \<le> mw_now w
          then (w\<lparr>mw_inner := (mw_inner w)(key := None), mw_notified := insert notify (mw_notified w)\<rparr>, Relock)
          else (w, Decided (Existing (InFlight owner_token body_hash notify expires_at)))
      | Some (Completed record) \<Rightarrow>
          if ir_expires_at record \<le> mw_now w
          then (w\<lparr>mw_inner := (mw_inner w)(key := None)\<rparr>, Proceed)
          else (w, Decided (Existing (Completed record))))"

definition mem_acquire_finish :: "(nat \<Rightarrow> string) \<Rightarrow> idempotency_scope_key \<Rightarrow> string \<Rightarrow> duration \<Rightarrow> mem_world
    \<Rightarrow> mem_world \<times> idempotency_acquire_result" where
  "mem_acquire_finish uuid_v7 key body_hash ttl w =
     (let lease = \<lparr>il_owner_token = uuid_v7 (mw_drawn w), il_version = mw_unix_ms w\<rparr>
      in (w\<lparr>mw_inner := (mw_inner w)(key \<mapsto> InFlight (il_owner_token lease) body_hash (mw_drawn w) (mw_now w + ttl)),
            mw_drawn := mw_drawn w + 1\<rparr>, Acquired lease))"

definition mem_try_acquire :: "(nat \<Rightarrow> string) \<Rightarrow> idempotency_scope_key \<Rightarrow> string \<Rightarrow> duration \<Rightarrow> mem_world
    \<Rightarrow> mem_world \<times> (idempotency_store_error + idempotency_acquire_result)" where
  "mem_try_acquire uuid_v7 key body_hash ttl w =
     (case mem_acquire_begin key w of
        (w', Decided r) \<Rightarrow> (w', Inr r)
      | (w', Proceed) \<Rightarrow> apsnd Inr (mem_acquire_finish uuid_v7 key body_hash ttl w')
      | (w', Relock) \<Rightarrow> apsnd Inr (mem_acquire_finish uuid_v7 key body_hash ttl w'))"

text \<open>The \<open>Notify\<close> of the in-flight entry that a lease owns.\<close>

definition owned_notify :: "mem_world \<Rightarrow> idempotency_scope_key \<Rightarrow> idempotency_lease \<Rightarrow> nat option" where
  "owned_notify w key lease =
     (case mw_inner w key of
        Some (InFlight owner_token body_hash notify expires_at) \<Rightarrow>
          if owner_token = il_owner_token lease then Some notify else None
      | _ \<Rightarrow> None)"

definition mem_complete :: "idempotency_scope_key \<Rightarrow> idempotency_lease \<Rightarrow> idempotency_record \<Rightarrow> mem_world
    \<Rightarrow> mem_world \<times> (idempotency_store_error + unit)" where
  "mem_complete key lease record w =
     (case owned_notify w key lease of
        None \<Rightarrow> (w, Inl BackendUnavailable)
      | Some notify \<Rightarrow>
          (w\<lparr>mw_inner := (mw_inner w)(key \<mapsto> Completed record), mw_notified := insert notify (mw_notified w)\<rparr>, Inr ()))"

definition mem_release_inflight :: "idempotency_scope_key \<Rightarrow> idempotency_lease \<Rightarrow> mem_world
    \<Rightarrow> mem_world \<times> (idempotency_store_error + unit)" where
  "mem_release_inflight key lease w =
     (case owned_notify w key lease of
        None \<Rightarrow> (w, Inl BackendUnavailable)
      | Some notify \<Rightarrow>
          (w\<lparr>mw_inner := (mw_inner w)(key := None), mw_notified := insert notify (mw_notified w)\<rparr>, Inr ()))"

definition mem_cleanup :: "mem_world \<Rightarrow> mem_world" where
  "mem_cleanup w =
     w\<lparr>mw_inner := (\<lambda>k. case mw_inner w k of
                          Some e \<Rightarrow> if entry_expires_at e > mw_now w then Some e else None
                        | None \<Rightarrow> None),
       mw_notified := mw_notified w
         \<union> {n. \<exists>k o' h x. mw_inner w k = Some (InFlight o' h n x) \<and> \<not> x > mw_now w}\<rparr>"

definition mem_ops :: "(nat \<Rightarrow> string) \<Rightarrow> mem_world idempotency_ops" where
  "mem_ops uuid_v7 =
     \<lparr>op_try_acquire = mem_try_acquire uuid_v7, op_complete = mem_complete,
      op_release_inflight = mem_release_inflight\<rparr>"

definition mem_view :: "mem_world \<Rightarrow> idempotency_scope_key \<Rightarrow> claim option" where
  "mem_view w k = map_option claim_of_entry (mw_inner w k)"

definition mem_stale :: "mem_world \<Rightarrow> idempotency_scope_key \<Rightarrow> bool" where
  "mem_stale w k \<longleftrightarrow> (\<exists>e. mw_inner w k = Some e \<and> entry_expires_at e \<le> mw_now w)"

section \<open>The in-memory store meets the contract\<close>

lemma mem_acquire_alt:
  "mem_try_acquire uuid_v7 k h ttl w =
     (if mw_inner w k = None \<or> mem_stale w k
      then (\<lparr>mw_inner = (mw_inner w)(k \<mapsto> InFlight (uuid_v7 (mw_drawn w)) h (mw_drawn w) (mw_now w + ttl)),
             mw_now = mw_now w, mw_unix_ms = mw_unix_ms w, mw_drawn = mw_drawn w + 1,
             mw_notified = (case mw_inner w k of Some (InFlight _ _ n _) \<Rightarrow> insert n (mw_notified w)
                                                | _ \<Rightarrow> mw_notified w)\<rparr>,
            Inr (Acquired \<lparr>il_owner_token = uuid_v7 (mw_drawn w), il_version = mw_unix_ms w\<rparr>))
      else (w, Inr (Existing (the (mw_inner w k)))))"
  by (cases w) (auto simp: mem_try_acquire_def mem_acquire_begin_def mem_acquire_finish_def mem_stale_def
      Let_def split: option.splits idempotency_entry.splits)

lemma owned_notify_Some:
  "owned_notify w k l = Some n \<longleftrightarrow> (\<exists>h x. mw_inner w k = Some (InFlight (il_owner_token l) h n x))"
  by (auto simp: owned_notify_def split: option.splits idempotency_entry.splits if_splits)

lemma owned_notify_view:
  "owned_notify w k l = None \<longleftrightarrow> (\<forall>h. mem_view w k \<noteq> Some (Held (il_owner_token l) h))"
  by (auto simp: owned_notify_def mem_view_def split: option.splits idempotency_entry.splits)

lemma mem_view_upd:
  "mem_view (w\<lparr>mw_inner := (mw_inner w)(k \<mapsto> e), mw_notified := ns\<rparr>) = (mem_view w)(k \<mapsto> claim_of_entry e)"
  "mem_view (w\<lparr>mw_inner := (mw_inner w)(k := None), mw_notified := ns\<rparr>) = (mem_view w)(k := None)"
  by (auto simp: mem_view_def fun_eq_iff)

interpretation mem: idempotency_store "mem_ops uuid_v7" mem_view mem_stale "\<lambda>_. True" "\<lambda>_. True" UNIV "\<lambda>_. True" "(=)"
  for uuid_v7
proof (unfold_locales, goal_cases)
  case (2 w k h ttl w' l)
  then show ?case by (auto simp: mem_ops_def mem_acquire_alt mem_view_def fun_eq_iff split: if_splits)
next
  case (3 w k h ttl w' e)
  then show ?case by (auto simp: mem_ops_def mem_acquire_alt mem_view_def split: if_splits)
next
  case (4 w k h ttl w')
  then show ?case by (auto simp: mem_ops_def mem_acquire_alt split: if_splits)
next
  case (5 w k h c ttl)
  then show ?case by (auto simp: mem_ops_def mem_acquire_alt mem_view_def)
next
  case (6 w k h ttl)
  then show ?case by (auto simp: mem_ops_def mem_acquire_alt mem_view_def)
next
  case (8 w k r l w' res)
  then show ?case
    by (auto simp: mem_ops_def mem_complete_def mem_view_upd owned_notify_Some mem_view_def
        simp del: claim_of_record.simps split: option.splits)
next
  case (9 w k r l h)
  then show ?case using owned_notify_view [of w k l] by (auto simp: mem_ops_def mem_complete_def)
next
  case (11 w k l w' res)
  then show ?case using owned_notify_view [of w k l]
    by (auto simp: mem_ops_def mem_release_inflight_def mem_view_upd split: option.splits)
next
  case (12 w k l h)
  then show ?case using owned_notify_view [of w k l]
    by (auto simp: mem_ops_def mem_release_inflight_def mem_view_upd)
qed simp_all

section \<open>Exclusive claims\<close>

text \<open>
  Sequences of store calls, with the clock advancing between them. A call is foreign to an
  owner when it does not present that owner's token.
\<close>

datatype mem_call =
    CTryAcquire idempotency_scope_key string duration
  | CComplete idempotency_scope_key idempotency_lease idempotency_record
  | CRelease idempotency_scope_key idempotency_lease
  | CGet idempotency_scope_key
  | CCleanup
  | CTick duration

fun mem_exec :: "(nat \<Rightarrow> string) \<Rightarrow> mem_call \<Rightarrow> mem_world \<Rightarrow> mem_world" where
  "mem_exec uuid_v7 (CTryAcquire k h ttl) w = fst (mem_try_acquire uuid_v7 k h ttl w)"
| "mem_exec uuid_v7 (CComplete k l r) w = fst (mem_complete k l r w)"
| "mem_exec uuid_v7 (CRelease k l) w = fst (mem_release_inflight k l w)"
| "mem_exec uuid_v7 (CGet k) w = fst (mem_get k w)"
| "mem_exec uuid_v7 CCleanup w = mem_cleanup w"
| "mem_exec uuid_v7 (CTick d) w = w\<lparr>mw_now := mw_now w + d\<rparr>"

fun foreign_call :: "string \<Rightarrow> mem_call \<Rightarrow> bool" where
  "foreign_call owner (CComplete k l r) \<longleftrightarrow> il_owner_token l \<noteq> owner"
| "foreign_call owner (CRelease k l) \<longleftrightarrow> il_owner_token l \<noteq> owner"
| "foreign_call owner _ \<longleftrightarrow> True"

lemmas mem_op_defs = mem_complete_def mem_release_inflight_def mem_get_def mem_cleanup_def

lemma mem_exec_now: "mw_now w \<le> mw_now (mem_exec uuid_v7 c w)"
  by (cases c) (auto simp: mem_acquire_alt mem_op_defs split: option.splits)

lemma mem_exec_keeps_claim:
  assumes "mw_inner w k = Some (InFlight owner h n x)" and "mw_now w < x" and "foreign_call owner c"
  shows "mw_inner (mem_exec uuid_v7 c w) k = Some (InFlight owner h n x)"
  using assms by (cases c)
    (auto simp: mem_acquire_alt mem_op_defs mem_stale_def owned_notify_Some split: option.splits)

lemma mem_run_keeps_claim:
  assumes "mw_inner w k = Some (InFlight owner h n x)" and "list_all (foreign_call owner) cs"
    and "mw_now (fold (mem_exec uuid_v7) cs w) < x"
  shows "mw_inner (fold (mem_exec uuid_v7) cs w) k = Some (InFlight owner h n x)"
  using assms(2,3)
proof (induction cs rule: rev_induct)
  case (snoc c cs)
  then show ?case
    using mem_exec_now [of "fold (mem_exec uuid_v7) cs w" uuid_v7 c]
    by (auto intro: mem_exec_keeps_claim)
qed (simp add: assms(1))

text \<open>
  a claim is exclusive until it expires. Whatever other clients do with the
  store, one call at a time, the claim of an owner that has not yet expired is still there,
  a further client is told of it instead of acquiring, and the owner can complete it.
\<close>

theorem claim_exclusive_until_expiry:
  assumes "mw_inner w k = Some (InFlight owner h n x)" and "list_all (foreign_call owner) cs"
    and "w' = fold (mem_exec uuid_v7) cs w" and "mw_now w' < x"
  shows "mem_try_acquire uuid_v7 k h' ttl w' = (w', Inr (Existing (InFlight owner h n x)))
    \<and> (il_owner_token l \<noteq> owner \<longrightarrow> mem_complete k l r w' = (w', Inl BackendUnavailable))
    \<and> (il_owner_token l = owner \<longrightarrow> (\<exists>w''. mem_complete k l r w' = (w'', Inr ()) \<and> mem_get k w''
         = (if ir_expires_at r \<le> mw_now w' then (w''\<lparr>mw_inner := (mw_inner w'')(k := None)\<rparr>, Inr None)
            else (w'', Inr (Some (Completed r))))))"
proof -
  have here: "mw_inner w' k = Some (InFlight owner h n x)"
    using mem_run_keeps_claim [OF assms(1,2)] assms(3,4) by simp
  then show ?thesis
    using assms(4)
    by (auto simp: mem_acquire_alt mem_stale_def mem_complete_def owned_notify_def mem_get_def)
qed

definition sample_scope :: idempotency_scope_key where
  "sample_scope = \<lparr>sk_tenant_id = TenantId ''t1'', sk_method = ''POST'', sk_canonical_target = ''/orders'',
                   sk_idempotency_key = ''key-1''\<rparr>"

definition sample_mem :: "idempotency_entry option \<Rightarrow> mem_world" where
  "sample_mem e = \<lparr>mw_inner = (\<lambda>k. if k = sample_scope then e else None), mw_now = 100, mw_unix_ms = 7,
                   mw_drawn = 0, mw_notified = {}\<rparr>"

theorem claim_exclusive_until_expiry_witness:
  "mem_try_acquire (\<lambda>n. replicate n CHR ''u'') sample_scope ''h2'' 50
     (fold (mem_exec (\<lambda>n. replicate n CHR ''u''))
        [CTryAcquire sample_scope ''h2'' 50, CTick 10, CRelease sample_scope \<lparr>il_owner_token = ''y'', il_version = 1\<rparr>, CCleanup]
        (sample_mem (Some (InFlight ''x'' ''h'' 5 120))))
   = (fold (mem_exec (\<lambda>n. replicate n CHR ''u''))
        [CTryAcquire sample_scope ''h2'' 50, CTick 10, CRelease sample_scope \<lparr>il_owner_token = ''y'', il_version = 1\<rparr>, CCleanup]
        (sample_mem (Some (InFlight ''x'' ''h'' 5 120))), Inr (Existing (InFlight ''x'' ''h'' 5 120)))"
  using claim_exclusive_until_expiry [where w = "sample_mem (Some (InFlight ''x'' ''h'' 5 120))" and k = sample_scope
      and cs = "[CTryAcquire sample_scope ''h2'' 50, CTick 10, CRelease sample_scope \<lparr>il_owner_token = ''y'', il_version = 1\<rparr>, CCleanup]"
      and ?uuid_v7.0 = "\<lambda>n. replicate n CHR ''u''" and h' = "''h2''" and ttl = 50, OF _ _ refl]
  by (simp add: sample_mem_def mem_acquire_alt mem_op_defs mem_stale_def owned_notify_def)

text \<open>
  C28 (safety): the exclusion does not survive interleaving. A call that finds an expired
  claim removes it, releases the mutex to wake the waiters, takes the mutex again and
  inserts its own claim without looking: a second client that acquires in between loses its
  fresh claim. Both clients then hold a lease for the same request, and the completion of
  the second one fails.
\<close>

theorem expired_claim_acquired_twice:
  assumes "mw_inner w k = Some (InFlight owner h n x)" and "x \<le> mw_now w" and "inj uuid_v7"
  shows "\<exists>w1 w2 w3 l1 l2. mem_acquire_begin k w = (w1, Relock)
    \<and> mem_try_acquire uuid_v7 k h2 ttl w1 = (w2, Inr (Acquired l2))
    \<and> mem_acquire_finish uuid_v7 k h1 ttl w2 = (w3, Acquired l1)
    \<and> il_owner_token l1 \<noteq> il_owner_token l2
    \<and> mem_complete k l2 r w3 = (w3, Inl BackendUnavailable)
    \<and> (\<exists>w4. mem_complete k l1 r w3 = (w4, Inr ()))"
proof -
  have "uuid_v7 (mw_drawn w) \<noteq> uuid_v7 (Suc (mw_drawn w))" using assms(3) by (simp add: inj_eq)
  then show ?thesis
    using assms(1,2)
    by (simp add: mem_acquire_begin_def mem_acquire_alt mem_acquire_finish_def Let_def mem_complete_def owned_notify_def)
qed

theorem expired_claim_acquired_twice_witness:
  "\<exists>w1 w2 w3 l1 l2. mem_acquire_begin sample_scope (sample_mem (Some (InFlight ''x'' ''h'' 5 90))) = (w1, Relock)
    \<and> mem_try_acquire (\<lambda>n. replicate n CHR ''u'') sample_scope ''h'' 50 w1 = (w2, Inr (Acquired l2))
    \<and> mem_acquire_finish (\<lambda>n. replicate n CHR ''u'') sample_scope ''h'' 50 w2 = (w3, Acquired l1)
    \<and> il_owner_token l1 \<noteq> il_owner_token l2
    \<and> mem_complete sample_scope l2 \<lparr>ir_body_hash = ''h'', ir_action_id = ''a'', ir_status = 200, ir_headers = [],
          ir_body = [], ir_expires_at = 400\<rparr> w3 = (w3, Inl BackendUnavailable)"
proof -
  have i: "inj (\<lambda>n. replicate n CHR ''u'')" by (metis injI length_replicate)
  have "mw_inner (sample_mem (Some (InFlight ''x'' ''h'' 5 90))) sample_scope = Some (InFlight ''x'' ''h'' 5 90)"
       "90 \<le> mw_now (sample_mem (Some (InFlight ''x'' ''h'' 5 90)))"
    by (simp_all add: sample_mem_def)
  from expired_claim_acquired_twice [OF this i, where ?h1.0 = "''h''" and ?h2.0 = "''h''" and ttl = 50 and
      r = "\<lparr>ir_body_hash = ''h'', ir_action_id = ''a'', ir_status = 200, ir_headers = [], ir_body = [], ir_expires_at = 400\<rparr>"]
  show ?thesis by blast
qed

end
