(* ===== verification/Idempotency_Redis.thy ===== *)
theory Idempotency_Redis
  imports Idempotency_Store "HOL-Library.Countable"
begin

text \<open>
  The Redis idempotency store of \<open>kernel-api/src/middleware.rs\<close>: the key and value formats,
  the waiter registry, and the trait's operations over GET, SET NX EX and the two Lua
  compare-and-set scripts. Redis, serde\_json, base64, SHA-256, the http crate's status
  check and UUIDs are arguments; \<open>redis_kv_laws\<close> and \<open>codec_laws\<close> state what is relied on.

  A world holds the database, the server's time, the local clocks, the counters of UUIDs
  and \<open>Notify\<close> objects, the faults of the coming commands (one per command, none past the
  end of the list), the subscriptions behind their mutex, the stored \<open>notify_one\<close> permits,
  the listener tasks spawned and the messages published. \<open>redis_try_acquire\<close> and \<open>redis_ops\<close> take
  what other clients do between the failed SET NX and the GET as an argument. The body of the listener task is
  not modelled here.
\<close>

section \<open>Redis and the codecs\<close>

record 's redis_kv =
  kv_get :: "'s \<Rightarrow> nat \<Rightarrow> string \<Rightarrow> string option"
  kv_set :: "'s \<Rightarrow> nat \<Rightarrow> string \<Rightarrow> string \<Rightarrow> nat \<Rightarrow> 's"
  kv_del :: "'s \<Rightarrow> nat \<Rightarrow> string \<Rightarrow> 's"

text \<open>
  GET at a later time sees the last SET until its expiry (seconds, on a millisecond clock),
  nothing after DEL, and other keys as they were.
\<close>

definition redis_kv_laws :: "'s redis_kv \<Rightarrow> bool" where
  "redis_kv_laws R \<longleftrightarrow>
     (\<forall>s st k v ex st' k'. 0 < ex \<and> st \<le> st' \<longrightarrow> kv_get R (kv_set R s st k v ex) st' k' =
        (if k' = k then (if st' < st + ex * 1000 then Some v else None) else kv_get R s st' k'))
     \<and> (\<forall>s st k st' k'. st \<le> st' \<longrightarrow> kv_get R (kv_del R s st k) st' k' =
        (if k' = k then None else kv_get R s st' k'))"

record redis_idempotency_record_dto =
  dto_body_hash :: string
  dto_action_id :: string
  dto_status :: nat
  dto_headers :: "(string \<times> string) list"
  dto_body :: string
  dto_owner_token :: string
  dto_version :: u64
  dto_completed_at_unix_ms :: u64

record idem_codec =
  to_json :: "redis_idempotency_record_dto \<Rightarrow> string option"
  from_json :: "string \<Rightarrow> redis_idempotency_record_dto option"
  b64_encode :: "string \<Rightarrow> string"
  b64_decode :: "string \<Rightarrow> string option"
  status_from_u16 :: "nat \<Rightarrow> nat option"

definition codec_laws :: "idem_codec \<Rightarrow> bool" where
  "codec_laws C \<longleftrightarrow>
     (\<forall>d. \<exists>s. to_json C d = Some (CHR ''{'' # s) \<and> from_json C (CHR ''{'' # s) = Some d)
     \<and> (\<forall>b. b64_decode C (b64_encode C b) = Some b)
     \<and> (\<forall>n. 100 \<le> n \<and> n \<le> 999 \<longrightarrow> status_from_u16 C n = Some n)"

record channel_subscription_state =
  cs_waiters :: "nat list"
  cs_running :: bool

record 's redis_world =
  rw_db :: 's
  rw_time :: nat
  rw_now :: instant
  rw_unix_ms :: u64
  rw_uuids :: nat
  rw_notifies :: nat
  rw_faults :: "bool list"
  rw_subscriptions :: "string \<rightharpoonup> channel_subscription_state"
  rw_permits :: "nat set"
  rw_spawned :: "string list"
  rw_published :: "(string \<times> string) list"

definition take_fault :: "'s redis_world \<Rightarrow> 's redis_world \<times> bool" where
  "take_fault w = (w\<lparr>rw_faults := tl (rw_faults w)\<rparr>, rw_faults w \<noteq> [] \<and> hd (rw_faults w))"

definition conn_get :: "'s redis_kv \<Rightarrow> string \<Rightarrow> 's redis_world \<Rightarrow> 's redis_world \<times> (unit + string option)" where
  "conn_get R key w =
     (case take_fault w of
        (w', True) \<Rightarrow> (w', Inl ())
      | (w', False) \<Rightarrow> (w', Inr (kv_get R (rw_db w') (rw_time w') key)))"

text \<open>\<open>SET key value NX EX secs\<close>.\<close>

definition conn_set_nx :: "'s redis_kv \<Rightarrow> string \<Rightarrow> string \<Rightarrow> nat \<Rightarrow> 's redis_world \<Rightarrow> 's redis_world \<times> (unit + bool)" where
  "conn_set_nx R key val ex w =
     (case take_fault w of
        (w', True) \<Rightarrow> (w', Inl ())
      | (w', False) \<Rightarrow>
          if kv_get R (rw_db w') (rw_time w') key = None
          then (w'\<lparr>rw_db := kv_set R (rw_db w') (rw_time w') key val ex\<rparr>, Inr True)
          else (w', Inr False))"

section \<open>Keys, values and waiters\<close>

definition format_key :: "(string \<Rightarrow> byte list) \<Rightarrow> idempotency_scope_key \<Rightarrow> string" where
  "format_key sha256 key =
     append_sha256_hex sha256 (sk_idempotency_key key)
       (append_sha256_hex sha256 (sk_canonical_target key)
          (append_sha256_hex sha256 (tenant_str (sk_tenant_id key)) ''idemp:v3:''
             @ '':'' @ sk_method key @ '':'') @ '':'')"

definition channel_name :: "string \<Rightarrow> string" where
  "channel_name redis_key = ''idemp:ch:'' @ redis_key"

definition inflight_value :: "idempotency_lease \<Rightarrow> string \<Rightarrow> string" where
  "inflight_value lease body_hash =
     ''IN_FLIGHT|'' @ il_owner_token lease @ ''|'' @ body_hash @ ''|'' @ dec_of_u64 (il_version lease)"

definition parse_inflight_value :: "string \<Rightarrow> (string \<times> string \<times> u64) option" where
  "parse_inflight_value val =
     (case split_char (CHR ''|'') val of
        state # rest \<Rightarrow>
          if state \<noteq> ''IN_FLIGHT'' then None
          else (case rest of
                  owner_token # body_hash # version # _ \<Rightarrow>
                    map_option (\<lambda>v. (owner_token, body_hash, v)) (parse_u64 version)
                | _ \<Rightarrow> None)
      | [] \<Rightarrow> None)"

text \<open>The live part of a waiter list, and its length; \<open>alive\<close> says which weak references upgrade.\<close>

definition notify_waiters_and_prune :: "(nat \<Rightarrow> bool) \<Rightarrow> nat list \<Rightarrow> nat list \<times> nat list \<times> nat" where
  "notify_waiters_and_prune alive waiters =
     (let kept = filter alive waiters in (kept, kept, length kept))"

definition prune_waiters :: "(nat \<Rightarrow> bool) \<Rightarrow> nat list \<Rightarrow> nat list \<times> nat" where
  "prune_waiters alive waiters = (let kept = filter alive waiters in (kept, length kept))"

definition register_waiter :: "'s redis_kv \<Rightarrow> idem_codec \<Rightarrow> string \<Rightarrow> string \<Rightarrow> 's redis_world
    \<Rightarrow> 's redis_world \<times> nat" where
  "register_waiter R C redis_key channel w =
     (let notify = rw_notifies w;
          state = (case rw_subscriptions w channel of
                     Some st \<Rightarrow> st | None \<Rightarrow> \<lparr>cs_waiters = [], cs_running = False\<rparr>);
          should_spawn = (\<not> cs_running state);
          state' = \<lparr>cs_waiters = cs_waiters state @ [notify], cs_running = True\<rparr>;
          w1 = w\<lparr>rw_notifies := notify + 1, rw_subscriptions := (rw_subscriptions w)(channel \<mapsto> state')\<rparr>;
          (w2, res) = conn_get R redis_key w1;
          should_notify = (case res of
                             Inr (Some s) \<Rightarrow> from_json C s \<noteq> None
                           | Inr None \<Rightarrow> True
                           | Inl _ \<Rightarrow> False);
          w3 = (if should_notify then w2\<lparr>rw_permits := insert notify (rw_permits w2)\<rparr> else w2);
          w4 = (if should_spawn then w3\<lparr>rw_spawned := rw_spawned w3 @ [channel]\<rparr> else w3)
      in (w4, notify))"

section \<open>The operations\<close>

definition record_of_dto :: "idem_codec \<Rightarrow> instant \<Rightarrow> redis_idempotency_record_dto \<Rightarrow> idempotency_record option" where
  "record_of_dto C now dto =
     (case b64_decode C (dto_body dto) of
        None \<Rightarrow> None
      | Some body_bytes \<Rightarrow>
          (case status_from_u16 C (dto_status dto) of
             None \<Rightarrow> None
           | Some status \<Rightarrow>
               Some \<lparr>ir_body_hash = dto_body_hash dto, ir_action_id = dto_action_id dto, ir_status = status,
                     ir_headers = dto_headers dto, ir_body = body_bytes, ir_expires_at = now + 3600 * 1000\<rparr>))"

definition redis_get :: "'s redis_kv \<Rightarrow> idem_codec \<Rightarrow> (string \<Rightarrow> byte list) \<Rightarrow> idempotency_scope_key \<Rightarrow> 's redis_world
    \<Rightarrow> 's redis_world \<times> (idempotency_store_error + idempotency_entry option)" where
  "redis_get R C sha256 key w =
     (let redis_key = format_key sha256 key in
      case conn_get R redis_key w of
        (w1, Inl _) \<Rightarrow> (w1, Inl BackendUnavailable)
      | (w1, Inr None) \<Rightarrow> (w1, Inr None)
      | (w1, Inr (Some s)) \<Rightarrow>
          (case parse_inflight_value s of
             Some (owner_token, body_hash, _) \<Rightarrow>
               (case register_waiter R C redis_key (channel_name redis_key) w1 of
                  (w2, notify) \<Rightarrow>
                    (w2, Inr (Some (InFlight owner_token body_hash notify (rw_now w2 + 60 * 1000)))))
           | None \<Rightarrow>
               (case from_json C s of
                  Some dto \<Rightarrow> (w1, Inr (map_option Completed (record_of_dto C (rw_now w1) dto)))
                | None \<Rightarrow> (w1, Inr None))))"

text \<open>
  \<open>between\<close> is what other clients do between the failed SET NX and the GET that follows it.
\<close>

definition redis_try_acquire :: "'s redis_kv \<Rightarrow> idem_codec \<Rightarrow> (string \<Rightarrow> byte list) \<Rightarrow> (nat \<Rightarrow> string)
    \<Rightarrow> ('s redis_world \<Rightarrow> 's redis_world) \<Rightarrow> idempotency_scope_key \<Rightarrow> string \<Rightarrow> duration \<Rightarrow> 's redis_world
    \<Rightarrow> 's redis_world \<times> (idempotency_store_error + idempotency_acquire_result)" where
  "redis_try_acquire R C sha256 uuid_v7 between key body_hash ttl w =
     (let redis_key = format_key sha256 key;
          lease = \<lparr>il_owner_token = uuid_v7 (rw_uuids w), il_version = rw_unix_ms w\<rparr>;
          val = inflight_value lease body_hash;
          ttl_secs = max (ttl div 1000) 1
      in case conn_set_nx R redis_key val ttl_secs (w\<lparr>rw_uuids := rw_uuids w + 1\<rparr>) of
           (w1, Inr True) \<Rightarrow> (w1, Inr (Acquired lease))
         | (w1, Inr False) \<Rightarrow>
             (case redis_get R C sha256 key (between w1) of
                (w2, Inl e) \<Rightarrow> (w2, Inl e)
              | (w2, Inr (Some entry)) \<Rightarrow> (w2, Inr (Existing entry))
              | (w2, Inr None) \<Rightarrow> (w2, Inr Retry))
         | (w1, Inl _) \<Rightarrow> (w1, Inl BackendUnavailable))"

text \<open>The Lua pattern \<open>^IN_FLIGHT|([^|]+)|\<close>.\<close>

definition lua_inflight_owner :: "string \<Rightarrow> string option" where
  "lua_inflight_owner current =
     (if starts_with current ''IN_FLIGHT|''
      then (let rest = drop 10 current; owner = takeWhile (\<lambda>c. c \<noteq> CHR ''|'') rest
            in if owner \<noteq> [] \<and> length owner < length rest then Some owner else None)
      else None)"

definition complete_script :: "'s redis_kv \<Rightarrow> string \<Rightarrow> string \<Rightarrow> string \<Rightarrow> string \<Rightarrow> nat \<Rightarrow> 's redis_world
    \<Rightarrow> 's redis_world \<times> int" where
  "complete_script R key channel expected_owner payload ttl w =
     (case kv_get R (rw_db w) (rw_time w) key of
        None \<Rightarrow> (w, 0)
      | Some current \<Rightarrow>
          (case lua_inflight_owner current of
             None \<Rightarrow> (w, -1)
           | Some owner \<Rightarrow>
               if owner \<noteq> expected_owner then (w, -1)
               else (w\<lparr>rw_db := kv_set R (rw_db w) (rw_time w) key payload ttl,
                       rw_published := rw_published w @ [(channel, ''completed'')]\<rparr>, 1)))"

definition redis_complete :: "'s redis_kv \<Rightarrow> idem_codec \<Rightarrow> (string \<Rightarrow> byte list) \<Rightarrow> idempotency_scope_key
    \<Rightarrow> idempotency_lease \<Rightarrow> idempotency_record \<Rightarrow> 's redis_world
    \<Rightarrow> 's redis_world \<times> (idempotency_store_error + unit)" where
  "redis_complete R C sha256 key lease record w =
     (let redis_key = format_key sha256 key;
          channel = channel_name redis_key;
          dto = \<lparr>dto_body_hash = ir_body_hash record, dto_action_id = ir_action_id record,
                 dto_status = ir_status record, dto_headers = ir_headers record,
                 dto_body = b64_encode C (ir_body record), dto_owner_token = il_owner_token lease,
                 dto_version = il_version lease, dto_completed_at_unix_ms = rw_unix_ms w\<rparr>
      in case to_json C dto of
           None \<Rightarrow> (w, Inl BackendUnavailable)
         | Some json \<Rightarrow>
             (let ttl_secs = (if ir_expires_at record > rw_now w
                              then max ((ir_expires_at record - rw_now w) div 1000) 1 else 1)
              in case take_fault w of
                   (w1, True) \<Rightarrow> (w1, Inl BackendUnavailable)
                 | (w1, False) \<Rightarrow>
                     (case complete_script R redis_key channel (il_owner_token lease) json ttl_secs w1 of
                        (w2, res) \<Rightarrow> (w2, if res = 1 then Inr () else Inl BackendUnavailable))))"

definition release_script :: "'s redis_kv \<Rightarrow> string \<Rightarrow> string \<Rightarrow> string \<Rightarrow> 's redis_world \<Rightarrow> 's redis_world \<times> int" where
  "release_script R key channel expected_owner w =
     (case kv_get R (rw_db w) (rw_time w) key of
        None \<Rightarrow> (w, 0)
      | Some current \<Rightarrow>
          if lua_inflight_owner current = Some expected_owner
          then (w\<lparr>rw_db := kv_del R (rw_db w) (rw_time w) key,
                  rw_published := rw_published w @ [(channel, ''released'')]\<rparr>, 1)
          else (w, 0))"

definition redis_release_inflight :: "'s redis_kv \<Rightarrow> (string \<Rightarrow> byte list) \<Rightarrow> idempotency_scope_key
    \<Rightarrow> idempotency_lease \<Rightarrow> 's redis_world \<Rightarrow> 's redis_world \<times> (idempotency_store_error + unit)" where
  "redis_release_inflight R sha256 key lease w =
     (let redis_key = format_key sha256 key
      in case take_fault w of
           (w1, True) \<Rightarrow> (w1, Inl BackendUnavailable)
         | (w1, False) \<Rightarrow>
             apsnd (\<lambda>_. Inr ()) (release_script R redis_key (channel_name redis_key) (il_owner_token lease) w1))"

definition redis_ops :: "'s redis_kv \<Rightarrow> idem_codec \<Rightarrow> (string \<Rightarrow> byte list) \<Rightarrow> (nat \<Rightarrow> string)
    \<Rightarrow> ('s redis_world \<Rightarrow> 's redis_world) \<Rightarrow> 's redis_world idempotency_ops" where
  "redis_ops R C sha256 uuid_v7 between =
     \<lparr>op_try_acquire = redis_try_acquire R C sha256 uuid_v7 between,
      op_complete = redis_complete R C sha256,
      op_release_inflight = redis_release_inflight R sha256\<rparr>"

section \<open>Formats\<close>

interpretation method_key: sep_format "CHR '':''" "\<lambda>m. CHR '':'' \<notin> set m"
  by unfold_locales

text \<open>The strings hashed for a set of scope keys; methods are HTTP tokens, without a colon.\<close>

definition hashed_parts :: "idempotency_scope_key set \<Rightarrow> string set" where
  "hashed_parts keys = (\<Union>k\<in>keys. {tenant_str (sk_tenant_id k), sk_canonical_target k, sk_idempotency_key k})"

definition scope_keys_ok :: "(string \<Rightarrow> byte list) \<Rightarrow> idempotency_scope_key set \<Rightarrow> bool" where
  "scope_keys_ok sha256 keys \<longleftrightarrow> sha256_ok sha256 (hashed_parts keys) \<and> (\<forall>k\<in>keys. CHR '':'' \<notin> set (sk_method k))"

lemma format_key_alt:
  "format_key sha256 k = ''idemp:v3:'' @ hex_of_bytes (sha256 (tenant_str (sk_tenant_id k))) @ CHR '':'' # sk_method k
     @ CHR '':'' # hex_of_bytes (sha256 (sk_canonical_target k)) @ CHR '':'' # hex_of_bytes (sha256 (sk_idempotency_key k))"
  by (simp add: format_key_def append_sha256_hex_def)

lemma format_key_inj:
  assumes "scope_keys_ok sha256 keys" and "a \<in> keys" and "b \<in> keys"
  shows "format_key sha256 a = format_key sha256 b \<longleftrightarrow> a = b"
proof -
  have sha: "sha256_ok sha256 (hashed_parts keys)" and m: "CHR '':'' \<notin> set (sk_method a)" "CHR '':'' \<notin> set (sk_method b)"
    using assms by (auto simp: scope_keys_ok_def)
  have hs: "f \<in> {\<lambda>k. tenant_str (sk_tenant_id k), sk_canonical_target, sk_idempotency_key} \<Longrightarrow>
      (hex_of_bytes (sha256 (f a)) @ x = hex_of_bytes (sha256 (f b)) @ y \<longleftrightarrow> f a = f b \<and> x = y)" for f x y
    using assms(2,3) by (intro sha256_hex_eq [OF sha]) (auto simp: hashed_parts_def)
  have "format_key sha256 a = format_key sha256 b \<longleftrightarrow>
      tenant_str (sk_tenant_id a) = tenant_str (sk_tenant_id b) \<and> sk_method a = sk_method b
      \<and> sk_canonical_target a = sk_canonical_target b \<and> sk_idempotency_key a = sk_idempotency_key b"
    using hs [of "\<lambda>k. tenant_str (sk_tenant_id k)"] hs [of sk_canonical_target] hs [of sk_idempotency_key "[]" "[]"]
    by (simp add: format_key_alt method_key.key_inj [OF m])
  then show ?thesis by (cases a; cases b) (auto intro: tenant_id.expand)
qed

definition token_ok :: "string \<Rightarrow> bool" where
  "token_ok t \<longleftrightarrow> t \<noteq> [] \<and> CHR ''|'' \<notin> set t"

lemma dec_no_bar: "CHR ''|'' \<notin> set (dec_of_u64 v)"
  by (simp add: dec_of_u64_def dec_of_nat_no_char is_ascii_digit_def)

lemma inflight_round_trip:
  assumes "token_ok (il_owner_token l)" and "CHR ''|'' \<notin> set h"
  shows "parse_inflight_value (inflight_value l h) = Some (il_owner_token l, h, il_version l)"
proof -
  have "split_char (CHR ''|'') (inflight_value l h) = [''IN_FLIGHT'', il_owner_token l, h, dec_of_u64 (il_version l)]"
    using assms split_char_append [of "CHR ''|''" "''IN_FLIGHT''"]
    by (simp add: inflight_value_def token_ok_def split_char_append split_char_no_occ dec_no_bar)
  then show ?thesis by (simp add: parse_inflight_value_def parse_dec_of_u64)
qed

lemma lua_owner_inflight:
  assumes "token_ok (il_owner_token l)"
  shows "lua_inflight_owner (inflight_value l h) = Some (il_owner_token l)"
proof -
  have "takeWhile (\<lambda>c. c \<noteq> CHR ''|'') (il_owner_token l @ CHR ''|'' # x) = il_owner_token l" for x
    using assms by (auto simp: token_ok_def takeWhile_append)
  then show ?thesis
    using assms by (simp add: lua_inflight_owner_def inflight_value_def starts_with_def token_ok_def)
qed

lemma json_not_inflight:
  "parse_inflight_value (CHR ''{'' # s) = None" "lua_inflight_owner (CHR ''{'' # s) = None"
  by (auto simp: parse_inflight_value_def lua_inflight_owner_def starts_with_def split: list.splits)

section \<open>The abstract store behind the database\<close>

definition decode_claim :: "idem_codec \<Rightarrow> string \<Rightarrow> claim option" where
  "decode_claim C s =
     (case parse_inflight_value s of
        Some (owner_token, body_hash, _) \<Rightarrow> Some (Held owner_token body_hash)
      | None \<Rightarrow> (case from_json C s of
                   Some dto \<Rightarrow> map_option claim_of_record (record_of_dto C 0 dto)
                 | None \<Rightarrow> None))"

definition redis_view :: "'s redis_kv \<Rightarrow> idem_codec \<Rightarrow> (string \<Rightarrow> byte list) \<Rightarrow> idempotency_scope_key set
    \<Rightarrow> 's redis_world \<Rightarrow> idempotency_scope_key \<Rightarrow> claim option" where
  "redis_view R C sha256 keys w k =
     (if k \<in> keys then Option.bind (kv_get R (rw_db w) (rw_time w) (format_key sha256 k)) (decode_claim C) else None)"

definition value_ok :: "idem_codec \<Rightarrow> string \<Rightarrow> bool" where
  "value_ok C s \<longleftrightarrow>
     (\<exists>l h. token_ok (il_owner_token l) \<and> CHR ''|'' \<notin> set h \<and> s = inflight_value l h)
     \<or> (\<exists>s' dto r. s = CHR ''{'' # s' \<and> from_json C s = Some dto \<and> record_of_dto C 0 dto = Some r)"

text \<open>Every value under a scope key, now and until it expires, was written by the store.\<close>

definition redis_inv :: "'s redis_kv \<Rightarrow> idem_codec \<Rightarrow> (string \<Rightarrow> byte list) \<Rightarrow> idempotency_scope_key set
    \<Rightarrow> 's redis_world \<Rightarrow> bool" where
  "redis_inv R C sha256 keys w \<longleftrightarrow>
     (\<forall>k\<in>keys. \<forall>t \<ge> rw_time w. \<forall>s. kv_get R (rw_db w) t (format_key sha256 k) = Some s \<longrightarrow> value_ok C s)"

definition redis_avail :: "'s redis_world \<Rightarrow> bool" where
  "redis_avail w \<longleftrightarrow> list_all Not (rw_faults w)"

definition same_db :: "'s redis_world \<Rightarrow> 's redis_world \<Rightarrow> bool" where
  "same_db w w' \<longleftrightarrow> rw_db w' = rw_db w \<and> rw_time w' = rw_time w"

lemma same_db_view: "same_db w w' \<Longrightarrow> redis_view R C sha256 keys w' = redis_view R C sha256 keys w"
  by (simp add: same_db_def redis_view_def fun_eq_iff)

lemma same_db_inv: "same_db w w' \<Longrightarrow> redis_inv R C sha256 keys w' = redis_inv R C sha256 keys w"
  by (simp add: same_db_def redis_inv_def)

lemma take_fault_db:
  "take_fault w = (w', b) \<Longrightarrow> same_db w w' \<and> (redis_avail w \<longrightarrow> \<not> b \<and> redis_avail w')"
  by (cases "rw_faults w") (auto simp: take_fault_def same_db_def redis_avail_def)

lemma conn_get_db:
  "conn_get R key w = (w', res) \<Longrightarrow> same_db w w' \<and> (redis_avail w \<longrightarrow> redis_avail w')
     \<and> res \<in> {Inl (), Inr (kv_get R (rw_db w) (rw_time w) key)} \<and> (redis_avail w \<longrightarrow> res \<noteq> Inl ())"
  using take_fault_db [of w]
  by (auto simp: conn_get_def same_db_def split: prod.splits bool.splits)

lemma register_waiter_db:
  assumes "register_waiter R C key ch w = (w', n)"
  shows "same_db w w' \<and> (redis_avail w \<longrightarrow> redis_avail w')"
proof -
  let ?w1 = "\<lambda>f. w\<lparr>rw_notifies := rw_notifies w + 1, rw_subscriptions := f\<rparr>"
  have "same_db (?w1 f) w2 \<Longrightarrow> same_db w w2" "redis_avail (?w1 f) = redis_avail w" for f w2
    by (simp_all add: same_db_def redis_avail_def)
  then show ?thesis
    using assms conn_get_db [of R key "?w1 _"]
    by (auto simp: register_waiter_def Let_def same_db_def redis_avail_def split: prod.splits if_splits)
qed

lemma record_of_dto_claim:
  "record_of_dto C t dto = Some r \<Longrightarrow> map_option claim_of_record (record_of_dto C 0 dto) = Some (claim_of_record r)"
  by (auto simp: record_of_dto_def split: option.splits)

lemma redis_get_spec:
  assumes "redis_get R C sha256 k w = (w', res)"
  shows "same_db w w' \<and> (redis_avail w \<longrightarrow> redis_avail w' \<and> res \<noteq> Inl BackendUnavailable)
    \<and> (\<forall>e. res = Inr e \<longrightarrow>
         map_option claim_of_entry e = Option.bind (kv_get R (rw_db w) (rw_time w) (format_key sha256 k)) (decode_claim C))"
proof -
  obtain w1 g where g: "conn_get R (format_key sha256 k) w = (w1, g)" by fastforce
  obtain w2 n where rw: "register_waiter R C (format_key sha256 k) (channel_name (format_key sha256 k)) w1 = (w2, n)"
    by fastforce
  have "record_of_dto C t dto = None \<longleftrightarrow> record_of_dto C 0 dto = None" for t dto
    by (auto simp: record_of_dto_def split: option.splits)
  then have "map_option claim_of_record (record_of_dto C t dto) = map_option claim_of_record (record_of_dto C 0 dto)" for t dto
    using record_of_dto_claim [of C t dto] by (cases "record_of_dto C t dto") auto
  moreover have "same_db w w2" using conn_get_db [OF g] register_waiter_db [OF rw] by (simp add: same_db_def)
  ultimately show ?thesis
    using assms conn_get_db [OF g] register_waiter_db [OF rw]
    by (auto simp: redis_get_def Let_def g rw decode_claim_def option.map_comp comp_def
        simp del: claim_of_record.simps split: option.splits)
qed

lemma decode_inflight:
  "token_ok (il_owner_token l) \<Longrightarrow> CHR ''|'' \<notin> set h \<Longrightarrow>
     decode_claim C (inflight_value l h) = Some (Held (il_owner_token l) h)"
  by (simp add: decode_claim_def inflight_round_trip)

lemma value_ok_decodes: "value_ok C s \<Longrightarrow> \<exists>c. decode_claim C s = Some c"
  by (auto simp: value_ok_def inflight_round_trip decode_claim_def json_not_inflight)

lemma value_ok_owner:
  "value_ok C s \<Longrightarrow> lua_inflight_owner s = Some t \<longleftrightarrow> (\<exists>h. decode_claim C s = Some (Held t h))"
  by (auto simp: value_ok_def inflight_round_trip lua_owner_inflight decode_claim_def json_not_inflight)

section \<open>Writes seen through the abstract store\<close>

lemma kv_get_set:
  "redis_kv_laws R \<Longrightarrow> 0 < ex \<Longrightarrow> st \<le> st' \<Longrightarrow> kv_get R (kv_set R s st k v ex) st' k' =
     (if k' = k then (if st' < st + ex * 1000 then Some v else None) else kv_get R s st' k')"
  by (simp add: redis_kv_laws_def)

lemma kv_get_del:
  "redis_kv_laws R \<Longrightarrow> st \<le> st' \<Longrightarrow> kv_get R (kv_del R s st k) st' k' = (if k' = k then None else kv_get R s st' k')"
  by (simp add: redis_kv_laws_def)

lemma write_view:
  assumes "redis_kv_laws R" and "scope_keys_ok sha256 keys" and "k \<in> keys" and "0 < ex"
    and "decode_claim C v = Some c" and "value_ok C v" and "redis_inv R C sha256 keys w"
    and "rw_db w' = kv_set R (rw_db w) (rw_time w) (format_key sha256 k) v ex" and "rw_time w' = rw_time w"
  shows "redis_view R C sha256 keys w' = (redis_view R C sha256 keys w)(k \<mapsto> c) \<and> redis_inv R C sha256 keys w'"
  using assms by (auto simp: redis_view_def redis_inv_def fun_eq_iff kv_get_set format_key_inj split: if_splits)

lemma delete_view:
  assumes "redis_kv_laws R" and "scope_keys_ok sha256 keys" and "k \<in> keys" and "redis_inv R C sha256 keys w"
    and "rw_db w' = kv_del R (rw_db w) (rw_time w) (format_key sha256 k)" and "rw_time w' = rw_time w"
  shows "redis_view R C sha256 keys w' = (redis_view R C sha256 keys w)(k := None) \<and> redis_inv R C sha256 keys w'"
  using assms by (auto simp: redis_view_def redis_inv_def fun_eq_iff kv_get_del format_key_inj split: if_splits)

lemma inv_value:
  "redis_inv R C sha256 keys w \<Longrightarrow> k \<in> keys \<Longrightarrow> kv_get R (rw_db w) (rw_time w) (format_key sha256 k) = Some s \<Longrightarrow> value_ok C s"
  by (auto simp: redis_inv_def)

lemma view_None:
  "redis_inv R C sha256 keys w \<Longrightarrow> k \<in> keys \<Longrightarrow>
     redis_view R C sha256 keys w k = None \<longleftrightarrow> kv_get R (rw_db w) (rw_time w) (format_key sha256 k) = None"
  using inv_value [of R C sha256 keys w k] value_ok_decodes [of C]
  by (cases "kv_get R (rw_db w) (rw_time w) (format_key sha256 k)") (fastforce simp: redis_view_def)+

lemma owner_view:
  assumes "redis_inv R C sha256 keys w" and "k \<in> keys"
  shows "(\<exists>s. kv_get R (rw_db w) (rw_time w) (format_key sha256 k) = Some s \<and> lua_inflight_owner s = Some t)
    \<longleftrightarrow> (\<exists>h. redis_view R C sha256 keys w k = Some (Held t h))"
  using inv_value [OF assms] assms(2) value_ok_owner [of C _ t]
  by (cases "kv_get R (rw_db w) (rw_time w) (format_key sha256 k)") (auto simp: redis_view_def)

text \<open>
  What other clients may do in the window between SET NX and GET: any change of the abstract
  store that \<open>rely\<close> allows, by values that the store writes, with Redis staying up.
\<close>

definition between_ok :: "'s redis_kv \<Rightarrow> idem_codec \<Rightarrow> (string \<Rightarrow> byte list) \<Rightarrow> idempotency_scope_key set
    \<Rightarrow> ((idempotency_scope_key \<Rightarrow> claim option) \<Rightarrow> (idempotency_scope_key \<Rightarrow> claim option) \<Rightarrow> bool)
    \<Rightarrow> ('s redis_world \<Rightarrow> 's redis_world) \<Rightarrow> bool" where
  "between_ok R C sha256 keys rely between \<longleftrightarrow>
     (\<forall>v. redis_inv R C sha256 keys v \<longrightarrow> redis_inv R C sha256 keys (between v)
        \<and> rely (redis_view R C sha256 keys v) (redis_view R C sha256 keys (between v))
        \<and> (redis_avail v \<longrightarrow> redis_avail (between v)))"

lemma redis_acquire_cases:
  assumes "redis_kv_laws R" and "scope_keys_ok sha256 keys" and "\<forall>n. token_ok (uuid_v7 n)"
    and "between_ok R C sha256 keys rely between"
    and "redis_inv R C sha256 keys w" and "k \<in> keys" and "CHR ''|'' \<notin> set h"
    and "redis_try_acquire R C sha256 uuid_v7 between k h ttl w = (w', res)"
  shows "redis_inv R C sha256 keys w' \<and> (redis_avail w \<longrightarrow> redis_avail w')
    \<and> ((\<exists>l. res = Inr (Acquired l) \<and> redis_view R C sha256 keys w k = None
          \<and> redis_view R C sha256 keys w' = (redis_view R C sha256 keys w)(k \<mapsto> Held (il_owner_token l) h))
       \<or> redis_view R C sha256 keys w k \<noteq> None \<and> rely (redis_view R C sha256 keys w) (redis_view R C sha256 keys w')
          \<and> ((\<exists>e. res = Inr (Existing e) \<and> redis_view R C sha256 keys w' k = Some (claim_of_entry e))
             \<or> res = Inr Retry \<and> redis_view R C sha256 keys w' k = None)
       \<or> \<not> redis_avail w \<and> res = Inl BackendUnavailable)"
proof -
  let ?key = "format_key sha256 k" and ?l = "\<lparr>il_owner_token = uuid_v7 (rw_uuids w), il_version = rw_unix_ms w\<rparr>"
    and ?w0 = "w\<lparr>rw_uuids := rw_uuids w + 1\<rparr>" and ?V = "redis_view R C sha256 keys"
  obtain w1 b where f: "take_fault ?w0 = (w1, b)" by fastforce
  have w1: "same_db w w1" "redis_avail w \<longrightarrow> \<not> b \<and> redis_avail w1"
    using take_fault_db [OF f] by (auto simp: same_db_def redis_avail_def)
  show ?thesis
  proof (cases "b \<or> kv_get R (rw_db w) (rw_time w) ?key \<noteq> None")
    case False
    let ?w1 = "w1\<lparr>rw_db := kv_set R (rw_db w1) (rw_time w1) ?key (inflight_value ?l h) (max (ttl div 1000) 1)\<rparr>"
    have "(w', res) = (?w1, Inr (Acquired ?l))"
      using False f w1 assms(8) by (simp add: redis_try_acquire_def conn_set_nx_def Let_def same_db_def)
    moreover have "?V ?w1 = (?V w1)(k \<mapsto> Held (il_owner_token ?l) h) \<and> redis_inv R C sha256 keys ?w1"
      using assms(3,5,7) same_db_inv [OF w1(1)]
      by (intro write_view [OF assms(1,2,6)]) (auto simp: decode_inflight value_ok_def intro!: exI [of _ ?l])
    moreover have "?V w k = None" using False assms(5,6) by (simp add: view_None)
    ultimately show ?thesis using w1 by (simp add: same_db_view redis_avail_def)
  next
    case busy: True
    show ?thesis
    proof (cases b)
      case True
      then have "(w', res) = (w1, Inl BackendUnavailable)"
        using f assms(8) by (simp add: redis_try_acquire_def conn_set_nx_def Let_def)
      then show ?thesis using True w1 same_db_inv [OF w1(1)] assms(5) by auto
    next
      case False
      with busy have taken: "?V w k \<noteq> None" "kv_get R (rw_db w) (rw_time w) ?key \<noteq> None"
        using view_None [OF assms(5,6)] by simp_all
      let ?v = "between w1"
      have v: "redis_inv R C sha256 keys ?v" "rely (?V w) (?V ?v)" "redis_avail w \<longrightarrow> redis_avail ?v"
        using assms(4,5) same_db_inv [OF w1(1)] same_db_view [OF w1(1)] w1(2) unfolding between_ok_def by metis+
      obtain w2 g where g: "redis_get R C sha256 k ?v = (w2, g)" by fastforce
      note spec = redis_get_spec [OF g]
      have w2: "same_db ?v w2" using spec by blast
      have "g = Inl BackendUnavailable \<and> \<not> redis_avail w \<or> (\<exists>e. g = Inr e \<and> map_option claim_of_entry e = ?V ?v k)"
        using spec v(3) assms(6) by (cases g) (auto simp: redis_view_def intro: idempotency_store_error.exhaust)
      moreover have "(w', res) = (w2, case g of Inl e \<Rightarrow> Inl e | Inr (Some e) \<Rightarrow> Inr (Existing e) | Inr None \<Rightarrow> Inr Retry)"
        using False taken(2) f g w1 assms(8)
        by (auto simp: redis_try_acquire_def conn_set_nx_def Let_def same_db_def split: sum.splits option.splits)
      ultimately show ?thesis
        using taken(1) v spec same_db_inv [OF w2] same_db_view [OF w2] by (auto split: option.splits)
    qed
  qed
qed

lemma redis_complete_cases:
  assumes "redis_kv_laws R" and "codec_laws C" and "scope_keys_ok sha256 keys"
    and "redis_inv R C sha256 keys w" and "k \<in> keys" and "100 \<le> ir_status r \<and> ir_status r \<le> 999"
    and "redis_complete R C sha256 k l r w = (w', res)"
  shows "redis_inv R C sha256 keys w' \<and> (redis_avail w \<longrightarrow> redis_avail w')
    \<and> ((\<exists>h. res = Inr () \<and> redis_view R C sha256 keys w k = Some (Held (il_owner_token l) h)
          \<and> redis_view R C sha256 keys w' = (redis_view R C sha256 keys w)(k \<mapsto> claim_of_record r))
       \<or> res = Inl BackendUnavailable \<and> redis_view R C sha256 keys w' = redis_view R C sha256 keys w
          \<and> (redis_avail w \<longrightarrow> (\<forall>h. redis_view R C sha256 keys w k \<noteq> Some (Held (il_owner_token l) h))))"
proof -
  let ?key = "format_key sha256 k" and ?V = "redis_view R C sha256 keys"
    and ?dto = "\<lparr>dto_body_hash = ir_body_hash r, dto_action_id = ir_action_id r, dto_status = ir_status r,
        dto_headers = ir_headers r, dto_body = b64_encode C (ir_body r), dto_owner_token = il_owner_token l,
        dto_version = il_version l, dto_completed_at_unix_ms = rw_unix_ms w\<rparr>"
    and ?ttl = "if ir_expires_at r > rw_now w then max ((ir_expires_at r - rw_now w) div 1000) 1 else (1 :: nat)"
  obtain js where js: "to_json C ?dto = Some (CHR ''{'' # js)" "from_json C (CHR ''{'' # js) = Some ?dto"
    using assms(2) unfolding codec_laws_def by blast
  have rec: "record_of_dto C t ?dto = Some (r\<lparr>ir_expires_at := t + 3600 * 1000\<rparr>)" for t
    using assms(2,6) by (simp add: record_of_dto_def codec_laws_def)
  have v: "value_ok C (CHR ''{'' # js)" "decode_claim C (CHR ''{'' # js) = Some (claim_of_record r)"
    using js rec by (auto simp: value_ok_def decode_claim_def json_not_inflight)
  obtain w1 b where f: "take_fault w = (w1, b)" by fastforce
  note w1 = take_fault_db [OF f]
  have own: "(\<exists>s. kv_get R (rw_db w1) (rw_time w1) ?key = Some s \<and> lua_inflight_owner s = Some (il_owner_token l))
      \<longleftrightarrow> (\<exists>h. ?V w k = Some (Held (il_owner_token l) h))"
    using owner_view [OF assms(4,5)] w1 by (simp add: same_db_def)
  consider (down) b | (mine) "\<not> b" "\<exists>h. ?V w k = Some (Held (il_owner_token l) h)"
    | (other) "\<not> b" "\<not> (\<exists>h. ?V w k = Some (Held (il_owner_token l) h))" by blast
  then show ?thesis
  proof cases
    case down
    then have "(w', res) = (w1, Inl BackendUnavailable)"
      using assms(7) f js by (simp add: redis_complete_def Let_def)
    then show ?thesis using down w1 same_db_inv same_db_view assms(4) by blast
  next
    case mine
    with own obtain s where s: "kv_get R (rw_db w1) (rw_time w1) ?key = Some s" "lua_inflight_owner s = Some (il_owner_token l)"
      by blast
    let ?w2 = "w1\<lparr>rw_db := kv_set R (rw_db w1) (rw_time w1) ?key (CHR ''{'' # js) ?ttl,
        rw_published := rw_published w1 @ [(channel_name ?key, ''completed'')]\<rparr>"
    have "(w', res) = (?w2, Inr ())"
      using assms(7) f js mine s by (simp add: redis_complete_def complete_script_def Let_def)
    moreover have "?V ?w2 = (?V w1)(k \<mapsto> claim_of_record r) \<and> redis_inv R C sha256 keys ?w2"
      using v w1 same_db_inv [of w w1] assms(4)
      by (intro write_view [OF assms(1,3,5)]) (auto simp del: claim_of_record.simps)
    ultimately show ?thesis using mine w1 same_db_view [of w w1] by (auto simp: redis_avail_def)
  next
    case other
    then have "(w', res) = (w1, Inl BackendUnavailable)"
      using assms(7) f js own by (auto simp: redis_complete_def complete_script_def Let_def split: option.splits)
    then show ?thesis using other w1 same_db_inv same_db_view assms(4) by blast
  qed
qed

lemma redis_release_cases:
  assumes "redis_kv_laws R" and "scope_keys_ok sha256 keys"
    and "redis_inv R C sha256 keys w" and "k \<in> keys"
    and "redis_release_inflight R sha256 k l w = (w', res)"
  shows "redis_inv R C sha256 keys w' \<and> (redis_avail w \<longrightarrow> res = Inr ())
    \<and> (if \<exists>h. redis_view R C sha256 keys w k = Some (Held (il_owner_token l) h)
       then redis_view R C sha256 keys w' = redis_view R C sha256 keys w \<and> \<not> redis_avail w
            \<or> redis_view R C sha256 keys w' = (redis_view R C sha256 keys w)(k := None)
       else redis_view R C sha256 keys w' = redis_view R C sha256 keys w)"
proof -
  let ?key = "format_key sha256 k" and ?V = "redis_view R C sha256 keys"
  obtain w1 b where f: "take_fault w = (w1, b)" by fastforce
  note w1 = take_fault_db [OF f]
  have own: "(\<exists>s. kv_get R (rw_db w1) (rw_time w1) ?key = Some s \<and> lua_inflight_owner s = Some (il_owner_token l))
      \<longleftrightarrow> (\<exists>h. ?V w k = Some (Held (il_owner_token l) h))"
    using owner_view [OF assms(3,4)] w1 by (simp add: same_db_def)
  let ?w2 = "w1\<lparr>rw_db := kv_del R (rw_db w1) (rw_time w1) ?key,
      rw_published := rw_published w1 @ [(channel_name ?key, ''released'')]\<rparr>"
  have del: "?V ?w2 = (?V w1)(k := None) \<and> redis_inv R C sha256 keys ?w2"
    using w1 same_db_inv [of w w1] assms(3) by (intro delete_view [OF assms(1,2,4)]) auto
  have "(w', res) = (if b then (w1, Inl BackendUnavailable)
      else if \<exists>h. ?V w k = Some (Held (il_owner_token l) h) then (?w2, Inr ()) else (w1, Inr ()))"
    using assms(5) f own
    by (auto simp: redis_release_inflight_def release_script_def Let_def split: option.splits if_splits)
  then show ?thesis
    using del w1 same_db_inv [of w w1] same_db_view [of w w1 R C sha256 keys] assms(3) by (auto split: if_splits)
qed

lemma redis_release_avail: "redis_avail w \<Longrightarrow> redis_avail (fst (redis_release_inflight R sha256 k l w))"
  by (cases "rw_faults w")
    (auto simp: redis_release_inflight_def release_script_def take_fault_def redis_avail_def Let_def split: option.split)

lemma redis_contract:
  assumes "redis_kv_laws R" and "codec_laws C" and "scope_keys_ok sha256 keys" and "\<forall>n. token_ok (uuid_v7 n)"
    and "between_ok R C sha256 keys rely between"
  shows "idempotency_store (redis_ops R C sha256 uuid_v7 between) (redis_view R C sha256 keys) (\<lambda>_ _. False)
    redis_avail (redis_inv R C sha256 keys) keys (\<lambda>h. CHR ''|'' \<notin> set h) rely"
proof -
  note acq = redis_acquire_cases [OF assms(1,3,4,5)] and comp = redis_complete_cases [OF assms(1-3)]
    and rel = redis_release_cases [OF assms(1,3)]
  show ?thesis
  proof (unfold_locales, unfold redis_ops_def idempotency_ops.simps, goal_cases)
    case (1 w k h ttl w' res)
    then show ?case using acq by blast
  next
    case (2 w k h ttl w' l)
    then show ?case using acq [OF 2] by auto
  next
    case (3 w k h ttl w' e)
    then show ?case using acq [OF 3] by auto
  next
    case (4 w k h ttl w')
    then show ?case using acq [OF 4] by auto
  next
    case (5 w k h c ttl)
    obtain w' res where a: "redis_try_acquire R C sha256 uuid_v7 between k h ttl w = (w', res)" by fastforce
    then show ?case using acq [OF 5(2-4) a] 5 by auto
  next
    case (6 w k h ttl)
    obtain w' res where a: "redis_try_acquire R C sha256 uuid_v7 between k h ttl w = (w', res)" by fastforce
    then show ?case using acq [OF 6(2-4) a] 6 by auto
  next
    case (7 w k r l w' res)
    then show ?case using comp by blast
  next
    case (8 w k r l w' res)
    then show ?case using comp [OF 8] by auto
  next
    case (9 w k r l h)
    obtain w' res where a: "redis_complete R C sha256 k l r w = (w', res)" by fastforce
    then show ?case using comp [OF 9(2-4) a] 9 by auto
  next
    case (10 w k l w' res)
    then show ?case using rel by blast
  next
    case (11 w k l w' res)
    then show ?case using rel [OF 11] by (auto split: if_splits)
  next
    case (12 w k l h)
    obtain w' res where a: "redis_release_inflight R sha256 k l w = (w', res)" by fastforce
    then show ?case using rel [OF 12(2,3) a] 12 by auto
  qed
qed

text \<open>
  C14 (refinement): the Redis store implements the store contract, whatever other clients do
  in the middle of a call. Over any Redis that obeys the GET/SET/DEL laws and any faithful
  codec, with owner tokens free of the separator and no digest collision among the scope keys
  in use, each call takes effect at one of its commands or scripts on a map from scope keys to
  claims. Between the failed SET NX and the GET of \<open>try_acquire\<close> the others may change that map
  in any way \<open>rely\<close> allows. Acquiring succeeds exactly where SET NX finds the key free; an
  existing claim is reported as it stands at the GET; \<open>Retry\<close> is answered only when the claim
  that was in the way is gone by then; only the owner completes or releases; and a completed
  record reads back unchanged.
\<close>

theorem redis_store_implements_contract:
  assumes "redis_kv_laws R" and "codec_laws C" and "scope_keys_ok sha256 keys" and "\<forall>n. token_ok (uuid_v7 n)"
    and "between_ok R C sha256 keys rely between"
  shows "idempotency_store (redis_ops R C sha256 uuid_v7 between) (redis_view R C sha256 keys) (\<lambda>_ _. False)
    redis_avail (redis_inv R C sha256 keys) keys (\<lambda>h. CHR ''|'' \<notin> set h) rely"
  by (rule redis_contract [OF assms])

text \<open>
  A Redis, a codec and a UUID supply that satisfy the laws: the codec numbers the records.
\<close>

definition map_kv :: "(string \<rightharpoonup> string \<times> nat) redis_kv" where
  "map_kv = \<lparr>kv_get = (\<lambda>s st k. case s k of Some (v, x) \<Rightarrow> if st < x then Some v else None | None \<Rightarrow> None),
             kv_set = (\<lambda>s st k v ex. s(k \<mapsto> (v, st + ex * 1000))), kv_del = (\<lambda>s st k. s(k := None))\<rparr>"

lemma map_kv_laws: "redis_kv_laws map_kv"
  by (auto simp: redis_kv_laws_def map_kv_def)

definition dto_number :: "redis_idempotency_record_dto \<Rightarrow> nat" where
  "dto_number d = to_nat (dto_body_hash d, dto_action_id d, dto_status d, dto_headers d, dto_body d,
     dto_owner_token d, unat (dto_version d), unat (dto_completed_at_unix_ms d))"

lemma dto_number_inj: "inj dto_number"
  by (rule injI) (simp add: dto_number_def redis_idempotency_record_dto.equality word_unat_eq_iff)

definition numbering_codec :: idem_codec where
  "numbering_codec =
     \<lparr>to_json = (\<lambda>d. Some (CHR ''{'' # replicate (dto_number d) (CHR ''x''))),
      from_json = (\<lambda>s. Some (inv dto_number (length s - 1))),
      b64_encode = id, b64_decode = Some, status_from_u16 = Some\<rparr>"

lemma numbering_codec_laws: "codec_laws numbering_codec"
  by (simp add: codec_laws_def numbering_codec_def inv_f_f [OF dto_number_inj])

lemma sample_keys_ok: "scope_keys_ok sample_sha256 {sample_scope}"
  by (auto simp: scope_keys_ok_def hashed_parts_def sha256_ok_def sample_sha256_def sample_scope_def inj_on_def)

text \<open>Another client, the owner \<open>x\<close> of a claim, releases it in the window.\<close>

definition x_lease :: idempotency_lease where
  "x_lease = \<lparr>il_owner_token = ''x'', il_version = 1\<rparr>"

definition x_releases :: "(string \<rightharpoonup> string \<times> nat) redis_world \<Rightarrow> (string \<rightharpoonup> string \<times> nat) redis_world" where
  "x_releases w = fst (redis_release_inflight map_kv sample_sha256 sample_scope x_lease w)"

definition x_may_release :: "(idempotency_scope_key \<Rightarrow> claim option) \<Rightarrow> (idempotency_scope_key \<Rightarrow> claim option) \<Rightarrow> bool" where
  "x_may_release V V' \<longleftrightarrow> V' = V \<or> (\<exists>h. V sample_scope = Some (Held ''x'' h)) \<and> V' = V(sample_scope := None)"

lemma x_releases_ok: "between_ok map_kv numbering_codec sample_sha256 {sample_scope} x_may_release x_releases"
proof -
  have "redis_inv map_kv numbering_codec sample_sha256 {sample_scope} (x_releases v)
      \<and> x_may_release (redis_view map_kv numbering_codec sample_sha256 {sample_scope} v)
           (redis_view map_kv numbering_codec sample_sha256 {sample_scope} (x_releases v))
      \<and> (redis_avail v \<longrightarrow> redis_avail (x_releases v))"
    if "redis_inv map_kv numbering_codec sample_sha256 {sample_scope} v" for v
  proof -
    obtain v' res where run: "redis_release_inflight map_kv sample_sha256 sample_scope x_lease v = (v', res)" by fastforce
    then have "x_releases v = v'" by (simp add: x_releases_def)
    then show ?thesis
      using redis_release_cases [OF map_kv_laws sample_keys_ok that _ run]
        redis_release_avail [of v map_kv sample_sha256 sample_scope x_lease, folded x_releases_def]
      by (auto simp: x_may_release_def x_lease_def split: if_splits)
  qed
  then show ?thesis unfolding between_ok_def by blast
qed

text \<open>A world in which \<open>x\<close> holds the claim.\<close>

definition x_world :: "(string \<rightharpoonup> string \<times> nat) redis_world" where
  "x_world = \<lparr>rw_db = [format_key sample_sha256 sample_scope \<mapsto> (inflight_value x_lease ''h'', 60000)], rw_time = 0, rw_now = 0,
     rw_unix_ms = 0, rw_uuids = 0, rw_notifies = 0, rw_faults = [],
     rw_subscriptions = Map.empty, rw_permits = {}, rw_spawned = [], rw_published = []\<rparr>"

theorem redis_store_implements_contract_witness:
  "idempotency_store (redis_ops map_kv numbering_codec sample_sha256 (\<lambda>n. replicate (Suc n) CHR ''u'') x_releases)
     (redis_view map_kv numbering_codec sample_sha256 {sample_scope}) (\<lambda>_ _. False)
     redis_avail (redis_inv map_kv numbering_codec sample_sha256 {sample_scope}) {sample_scope} (\<lambda>h. CHR ''|'' \<notin> set h) x_may_release
   \<and> redis_inv map_kv numbering_codec sample_sha256 {sample_scope} x_world
   \<and> snd (op_try_acquire (redis_ops map_kv numbering_codec sample_sha256 (\<lambda>n. replicate (Suc n) CHR ''u'') x_releases)
        sample_scope ''h'' 1000 x_world) = Inr Retry"
proof (intro conjI)
  show "idempotency_store (redis_ops map_kv numbering_codec sample_sha256 (\<lambda>n. replicate (Suc n) CHR ''u'') x_releases)
     (redis_view map_kv numbering_codec sample_sha256 {sample_scope}) (\<lambda>_ _. False)
     redis_avail (redis_inv map_kv numbering_codec sample_sha256 {sample_scope}) {sample_scope} (\<lambda>h. CHR ''|'' \<notin> set h) x_may_release"
    by (rule redis_store_implements_contract [OF map_kv_laws numbering_codec_laws sample_keys_ok _ x_releases_ok])
      (auto simp: token_ok_def)
  have "token_ok (il_owner_token x_lease)" by (simp add: token_ok_def x_lease_def)
  then have v: "value_ok numbering_codec (inflight_value x_lease ''h'')" "lua_inflight_owner (inflight_value x_lease ''h'') = Some ''x''"
    using lua_owner_inflight [of x_lease "''h''"] unfolding value_ok_def by (force simp: x_lease_def)+
  then show "redis_inv map_kv numbering_codec sample_sha256 {sample_scope} x_world"
    by (auto simp: redis_inv_def map_kv_def x_world_def split: if_splits)
  show "snd (op_try_acquire (redis_ops map_kv numbering_codec sample_sha256 (\<lambda>n. replicate (Suc n) CHR ''u'') x_releases)
        sample_scope ''h'' 1000 x_world) = Inr Retry"
    using v(2) by (simp add: redis_ops_def redis_try_acquire_def conn_set_nx_def take_fault_def x_world_def map_kv_def Let_def
        x_releases_def redis_release_inflight_def release_script_def redis_get_def conn_get_def x_lease_def)
qed

text \<open>
  What the store writes for an in-flight claim, both readers of it
  understand: the Rust parser returns the owner, the body hash and the version, and the Lua
  pattern the owner, for every version and every hash and token without the separator; and
  different scope keys never share a Redis key.
\<close>

theorem inflight_value_round_trip:
  assumes "token_ok (il_owner_token l)" and "CHR ''|'' \<notin> set h"
    and "scope_keys_ok sha256 {k1, k2}"
  shows "parse_inflight_value (inflight_value l h) = Some (il_owner_token l, h, il_version l)
    \<and> lua_inflight_owner (inflight_value l h) = Some (il_owner_token l)
    \<and> (format_key sha256 k1 = format_key sha256 k2 \<longleftrightarrow> k1 = k2)"
  using inflight_round_trip [OF assms(1,2)] lua_owner_inflight [OF assms(1)]
    format_key_inj [OF assms(3), of k1 k2] by simp

theorem inflight_value_round_trip_witness:
  "parse_inflight_value ''IN_FLIGHT|tok|abc|17'' = Some (''tok'', ''abc'', 17)"
proof -
  have k: "scope_keys_ok sample_sha256 {sample_scope, sample_scope}"
    by (auto simp: scope_keys_ok_def hashed_parts_def sha256_ok_def sample_sha256_def sample_scope_def inj_on_def)
  have "inflight_value \<lparr>il_owner_token = ''tok'', il_version = 17\<rparr> ''abc'' = ''IN_FLIGHT|tok|abc|17''"
    by (simp add: inflight_value_def dec_of_u64_def) code_simp
  then show ?thesis
    using inflight_value_round_trip [OF _ _ k, of "\<lparr>il_owner_token = ''tok'', il_version = 17\<rparr>" "''abc''"]
    by (simp add: token_ok_def)
qed

end
