(* ===== verification/Idempotency_Middleware.thy ===== *)
theory Idempotency_Middleware
  imports Idempotency_Core Idempotency_Redis
begin

text \<open>
  \<open>idempotency_middleware\<close> of \<open>kernel-api/src/middleware.rs\<close> over any idempotency store:
  admission of a request, the loop that acquires its claim, the handler, and what becomes of
  the response. The handler, the wait for a \<open>Notify\<close> (it returns whether it was notified
  before the timeout) and the clock are arguments that act on the world of the store, so
  they include whatever other clients do meanwhile.

  A header map is the list of its entries, names in lower case. A body is \<open>None\<close> where
  reading it fails.
\<close>

section \<open>Requests, responses and headers\<close>

record idem_config =
  ic_max_body_size :: nat
  ic_max_replay_body_size :: nat
  ic_idempotency_ttl :: duration
  ic_inflight_wait_timeout :: duration

record idem_request =
  rq_method :: string
  rq_idempotency_key :: "string option"
  rq_path :: string
  rq_query :: "string option"
  rq_tenant :: "tenant_id option"
  rq_has_state :: bool
  rq_body :: "string option"

record idem_response =
  rs_status :: nat
  rs_headers :: "(string \<times> string) list"
  rs_body :: "string option"

definition hm_get :: "string \<Rightarrow> (string \<times> string) list \<Rightarrow> string option" where
  "hm_get name hs = map_of hs name"

definition hm_insert :: "string \<Rightarrow> string \<Rightarrow> (string \<times> string) list \<Rightarrow> (string \<times> string) list" where
  "hm_insert name value hs = filter (\<lambda>h. fst h \<noteq> map to_ascii_lower name) hs @ [(map to_ascii_lower name, value)]"

definition plain_response :: "nat \<Rightarrow> idem_response" where
  "plain_response status = \<lparr>rs_status = status, rs_headers = [], rs_body = Some []\<rparr>"

definition validate_idempotency_key :: "string \<Rightarrow> nat + unit" where
  "validate_idempotency_key key =
     (if key = [] \<or> length key > 128 then Inl 400
      else if \<not> list_all (\<lambda>b. 33 \<le> (of_char b :: nat) \<and> of_char b \<le> (126 :: nat)) key then Inl 400
      else Inr ())"

definition skipped_headers :: "string list" where
  "skipped_headers = [''date'', ''content-length'', ''transfer-encoding'', ''connection'', ''x-request-id'']"

definition snapshot_headers :: "http_env \<Rightarrow> (string \<times> string) list \<Rightarrow> (string \<times> string) list" where
  "snapshot_headers env headers =
     List.map_filter (\<lambda>(name, value).
       if name \<in> set skipped_headers then None
       else map_option (Pair name) (header_to_str env value)) headers"

definition build_replay_response :: "http_env \<Rightarrow> idempotency_record \<Rightarrow> idem_response" where
  "build_replay_response env record =
     (let headers = fold (\<lambda>(name, val) hs.
            if header_name_ok env name \<and> header_value_ok env val then hm_insert name val hs else hs)
            (ir_headers record) [];
          headers' = (if header_value_ok env ''true'' then hm_insert ''X-Idempotency-Replay'' ''true'' headers else headers)
      in \<lparr>rs_status = ir_status record, rs_headers = headers', rs_body = Some (ir_body record)\<rparr>)"

text \<open>\<open>usize\<close> is 64 bits wide.\<close>

definition response_not_cacheable_for_replay :: "http_env \<Rightarrow> (string \<times> string) list \<Rightarrow> nat \<Rightarrow> bool" where
  "response_not_cacheable_for_replay env headers max_size =
     (case Option.bind (Option.bind (hm_get ''content-length'' headers) (header_to_str env)) parse_u64 of
        Some n \<Rightarrow> unat n > max_size
      | None \<Rightarrow> False)"

section \<open>The middleware\<close>

datatype admission =
    Reject nat
  | PassThrough
  | Scoped idempotency_scope_key string

definition is_write_method :: "string \<Rightarrow> bool" where
  "is_write_method m \<longleftrightarrow> m \<in> {''POST'', ''PUT'', ''DELETE'', ''PATCH''}"

definition to_bytes :: "string option \<Rightarrow> nat \<Rightarrow> string option" where
  "to_bytes body limit = (case body of Some b \<Rightarrow> if length b \<le> limit then Some b else None | None \<Rightarrow> None)"

definition admit_request :: "http_env \<Rightarrow> (string \<Rightarrow> string option) \<Rightarrow> idem_config \<Rightarrow> idem_request \<Rightarrow> admission" where
  "admit_request env url_path cfg req =
     (case rq_idempotency_key req of
        None \<Rightarrow> if is_write_method (rq_method req) then Reject 400 else PassThrough
      | Some val \<Rightarrow>
          (case header_to_str env val of
             None \<Rightarrow> Reject 400
           | Some key \<Rightarrow>
               if validate_idempotency_key key \<noteq> Inr () then Reject 400
               else (case rq_tenant req of
                  None \<Rightarrow> Reject 401
                | Some tenant \<Rightarrow>
                    (let canonical_target = canonicalize_request_target url_path (rq_path req) (rq_query req);
                         scope_key = \<lparr>sk_tenant_id = tenant, sk_method = rq_method req,
                                      sk_canonical_target = canonical_target, sk_idempotency_key = key\<rparr>
                     in if \<not> rq_has_state req then Reject 500
                        else (case to_bytes (rq_body req) (ic_max_body_size cfg) of
                                None \<Rightarrow> Reject 400
                              | Some body_bytes \<Rightarrow> Scoped scope_key body_bytes)))))"

definition unavailable_response :: "http_env \<Rightarrow> idem_config \<Rightarrow> idem_response" where
  "unavailable_response env cfg =
     (let res = plain_response 503;
          retry_after = dec_of_nat (max (ic_inflight_wait_timeout cfg div 1000) 1)
      in if header_value_ok env retry_after then res\<lparr>rs_headers := hm_insert ''Retry-After'' retry_after (rs_headers res)\<rparr>
         else res)"

datatype acquire_outcome =
    Leased idempotency_lease
  | Answer "nat + idem_response"

text \<open>The loop, with the number of attempts left; the code starts it with \<open>MAX_ATTEMPTS\<close> = 3.\<close>

fun acquire_loop :: "'w idempotency_ops \<Rightarrow> (nat \<Rightarrow> 'w \<Rightarrow> 'w \<times> bool) \<Rightarrow> http_env \<Rightarrow> idem_config
    \<Rightarrow> idempotency_scope_key \<Rightarrow> string \<Rightarrow> nat \<Rightarrow> 'w \<Rightarrow> 'w \<times> acquire_outcome" where
  "acquire_loop ops await env cfg scope_key body_hash 0 w = (w, Answer (Inr (unavailable_response env cfg)))"
| "acquire_loop ops await env cfg scope_key body_hash (Suc left) w =
     (case op_try_acquire ops scope_key body_hash (ic_idempotency_ttl cfg) w of
        (w1, Inr (Acquired lease)) \<Rightarrow> (w1, Leased lease)
      | (w1, Inr Retry) \<Rightarrow> acquire_loop ops await env cfg scope_key body_hash left w1
      | (w1, Inr (Existing (Completed record))) \<Rightarrow>
          if body_hash \<noteq> ir_body_hash record then (w1, Answer (Inl 409))
          else (w1, Answer (Inr (build_replay_response env record)))
      | (w1, Inr (Existing (InFlight owner_token existing_hash notify expires_at))) \<Rightarrow>
          if body_hash \<noteq> existing_hash then (w1, Answer (Inl 409))
          else (case await notify w1 of
                  (w2, True) \<Rightarrow> acquire_loop ops await env cfg scope_key body_hash left w2
                | (w2, False) \<Rightarrow> (w2, Answer (Inr (unavailable_response env cfg))))
      | (w1, Inl BackendUnavailable) \<Rightarrow> (w1, Answer (Inl 503)))"

definition is_success :: "nat \<Rightarrow> bool" where
  "is_success status \<longleftrightarrow> 200 \<le> status \<and> status < 300"

definition settle_response :: "'w idempotency_ops \<Rightarrow> ('w \<Rightarrow> instant) \<Rightarrow> http_env \<Rightarrow> idem_config
    \<Rightarrow> idempotency_scope_key \<Rightarrow> string \<Rightarrow> idempotency_lease \<Rightarrow> idem_response \<Rightarrow> 'w \<Rightarrow> 'w \<times> idem_response" where
  "settle_response ops now env cfg scope_key body_hash lease response w =
     (let released = fst (op_release_inflight ops scope_key lease w) in
      if is_success (rs_status response)
      then if response_not_cacheable_for_replay env (rs_headers response) (ic_max_replay_body_size cfg)
           then (released, response)
           else (case rs_body response of
                   None \<Rightarrow> (released, response\<lparr>rs_body := Some [],
                       rs_headers := hm_insert ''X-Idempotency-Cache-Error'' ''cache-buffer-error'' (rs_headers response)\<rparr>)
                 | Some body_bytes \<Rightarrow>
                     if length body_bytes > ic_max_replay_body_size cfg then (released, response)
                     else (let action_id = (case Option.bind (hm_get ''x-action-id'' (rs_headers response)) (header_to_str env) of
                                              Some v \<Rightarrow> v | None \<Rightarrow> []);
                               stored = \<lparr>ir_body_hash = body_hash, ir_action_id = action_id,
                                         ir_status = rs_status response,
                                         ir_headers = snapshot_headers env (rs_headers response),
                                         ir_body = body_bytes, ir_expires_at = now w + ic_idempotency_ttl cfg\<rparr>
                           in case op_complete ops scope_key lease stored w of
                                (w1, Inr _) \<Rightarrow> (w1, response)
                              | (w1, Inl _) \<Rightarrow> (fst (op_release_inflight ops scope_key lease w1), response)))
      else (released, response))"

definition idempotency_middleware :: "'w idempotency_ops \<Rightarrow> (nat \<Rightarrow> 'w \<Rightarrow> 'w \<times> bool) \<Rightarrow> ('w \<Rightarrow> instant) \<Rightarrow> http_env
    \<Rightarrow> (string \<Rightarrow> string option) \<Rightarrow> (string \<Rightarrow> byte list) \<Rightarrow> idem_config
    \<Rightarrow> (idem_request \<Rightarrow> 'w \<Rightarrow> 'w \<times> idem_response) \<Rightarrow> idem_request \<Rightarrow> 'w \<Rightarrow> 'w \<times> (nat + idem_response)" where
  "idempotency_middleware ops await now env url_path sha256 cfg run_next req w =
     (case admit_request env url_path cfg req of
        Reject code \<Rightarrow> (w, Inl code)
      | PassThrough \<Rightarrow> apsnd Inr (run_next req w)
      | Scoped scope_key body_bytes \<Rightarrow>
          (let body_hash = compute_body_hash sha256 body_bytes in
           case acquire_loop ops await env cfg scope_key body_hash 3 w of
             (w1, Answer res) \<Rightarrow> (w1, res)
           | (w1, Leased lease) \<Rightarrow>
               (case run_next (req\<lparr>rq_body := Some body_bytes\<rparr>) w1 of
                  (w2, response) \<Rightarrow>
                    apsnd Inr (settle_response ops now env cfg scope_key body_hash lease response w2))))"

section \<open>What the store's contract gives the middleware\<close>

text \<open>The response stored for a request: everything but the expiry time is determined.\<close>

definition replay_of :: "http_env \<Rightarrow> claim \<Rightarrow> idem_response" where
  "replay_of env c =
     (case c of
        Done h a st hs b \<Rightarrow> build_replay_response env
          \<lparr>ir_body_hash = h, ir_action_id = a, ir_status = st, ir_headers = hs, ir_body = b, ir_expires_at = 0\<rparr>
      | Held _ _ \<Rightarrow> plain_response 0)"


definition response_claim :: "http_env \<Rightarrow> string \<Rightarrow> idem_response \<Rightarrow> string \<Rightarrow> claim" where
  "response_claim env h resp b =
     Done h (case Option.bind (hm_get ''x-action-id'' (rs_headers resp)) (header_to_str env) of Some v \<Rightarrow> v | None \<Rightarrow> [])
       (rs_status resp) (snapshot_headers env (rs_headers resp)) b"



section \<open>Requests over the Redis store\<close>






definition sample_idem_config :: idem_config where
  "sample_idem_config = \<lparr>ic_max_body_size = 1000, ic_max_replay_body_size = 1000, ic_idempotency_ttl = 60000,
     ic_inflight_wait_timeout = 5000\<rparr>"

definition sample_request :: "string \<Rightarrow> idem_request" where
  "sample_request body = \<lparr>rq_method = ''POST'', rq_idempotency_key = Some ''key-1'', rq_path = ''/orders'', rq_query = None,
     rq_tenant = Some (TenantId ''t1''), rq_has_state = True, rq_body = Some body\<rparr>"

lemma sample_admitted:
  "length body \<le> 1000 \<Longrightarrow>
     admit_request permissive_http (\<lambda>_. None) sample_idem_config (sample_request body) = Scoped sample_scope body"
  by (simp add: admit_request_def sample_request_def sample_idem_config_def permissive_http_def validate_idempotency_key_def
      to_bytes_def canonicalize_request_target_def canonical_path_def canonical_query_def starts_with_def ends_with_char_def
      sample_scope_def)



section \<open>Waiting for a request in flight\<close>

text \<open>
  a duplicate that arrives while the first request is still running is
  answered without running the handler. If it is notified and finds the record, it gets the
  replay of that record; if the wait times out, it gets 503 with a retry time of at least
  one second; if its body differs, a conflict at once.
\<close>

theorem in_flight_duplicate_answered:
  assumes "admit_request env url_path cfg req = Scoped k body"
    and "mw_inner w k = Some (InFlight owner h n x)" and "mw_now w < x"
    and "h = compute_body_hash sha256 body \<Longrightarrow> await n w = (w2, notified)"
    and "notified \<Longrightarrow> mw_inner w2 k = Some (Completed r) \<and> mw_now w2 < ir_expires_at r"
  shows "idempotency_middleware (mem_ops uuid_v7) await now env url_path sha256 cfg run_next req w =
    (if h \<noteq> compute_body_hash sha256 body then (w, Inl 409)
     else if \<not> notified then (w2, Inr (unavailable_response env cfg))
     else (w2, if compute_body_hash sha256 body = ir_body_hash r then Inr (build_replay_response env r) else Inl 409))"
  using assms
  by (auto simp: idempotency_middleware_def numeral_3_eq_3 mem_ops_def mem_acquire_alt mem_stale_def Let_def)

theorem in_flight_duplicate_answered_witness:
  "idempotency_middleware (mem_ops (\<lambda>n. replicate n CHR ''u'')) (\<lambda>_ w. (w, False)) (\<lambda>_. 0) permissive_http (\<lambda>_. None)
     sample_sha256 sample_idem_config (\<lambda>_ w. (w, plain_response 200)) (sample_request ''x'')
     (sample_mem (Some (InFlight ''o'' (compute_body_hash sample_sha256 ''x'') 5 120)))
   = (sample_mem (Some (InFlight ''o'' (compute_body_hash sample_sha256 ''x'') 5 120)),
      Inr (unavailable_response permissive_http sample_idem_config))"
  using in_flight_duplicate_answered [of permissive_http "\<lambda>_. None" sample_idem_config "sample_request ''x''" sample_scope "''x''"
      "sample_mem (Some (InFlight ''o'' (compute_body_hash sample_sha256 ''x'') 5 120))" "''o''"
      "compute_body_hash sample_sha256 ''x''" 5 120 sample_sha256 "\<lambda>_ w. (w, False)"
      "sample_mem (Some (InFlight ''o'' (compute_body_hash sample_sha256 ''x'') 5 120))" False]
    sample_admitted [of "''x''"]
  by (simp add: sample_mem_def)

section \<open>Headers of a replay\<close>

definition plain_headers :: "http_env \<Rightarrow> (string \<times> string) list \<Rightarrow> bool" where
  "plain_headers env hs \<longleftrightarrow>
     (\<forall>(n, v) \<in> set hs. map to_ascii_lower n = n \<and> header_name_ok env n \<and> header_value_ok env v \<and> header_to_str env v = Some v)"

lemma snapshot_plain: "plain_headers env hs \<Longrightarrow> snapshot_headers env hs = filter (\<lambda>h. fst h \<notin> set skipped_headers) hs"
  by (induction hs) (auto simp: snapshot_headers_def plain_headers_def map_filter_simps)

lemma map_of_filter_names: "map_of (filter (\<lambda>h. fst h \<notin> S) hs) n = (if n \<in> S then None else map_of hs n)"
  by (induction hs) auto

lemma filter_hm_insert:
  "filter (\<lambda>h. fst h = n) (hm_insert m v hs) =
     (if n = map to_ascii_lower m then [(n, v)] else filter (\<lambda>h. fst h = n) hs)"
  by (auto simp: hm_insert_def filter_empty_conv intro: filter_cong)

lemma replay_fold:
  assumes "plain_headers env hs"
  shows "filter (\<lambda>h. fst h = n) (fold (\<lambda>(name, val) hs.
       if header_name_ok env name \<and> header_value_ok env val then hm_insert name val hs else hs) hs [])
     = (case map_of (rev hs) n of Some v \<Rightarrow> [(n, v)] | None \<Rightarrow> [])"
  using assms
proof (induction hs rule: rev_induct)
  case (snoc h hs)
  then show ?case
    by (cases h) (auto simp: plain_headers_def filter_hm_insert)
qed simp

text \<open>
  The headers of a replay. For ASCII headers, a replay carries for every
  name, other than the five that are never stored, exactly one entry: the \<^emph>\<open>last\<close> value
  the handler gave it. Where a name occurs once, that is the handler's header; a header that
  is repeated, such as \<open>set-cookie\<close>, loses all its values but one.
\<close>

theorem replay_keeps_last_header:
  assumes "plain_headers env (rs_headers resp)" and "header_value_ok env ''true''" and "n \<noteq> ''x-idempotency-replay''"
  shows "filter (\<lambda>h. fst h = n) (rs_headers (replay_of env (response_claim env h resp b))) =
    (if n \<in> set skipped_headers then []
     else case map_of (rev (rs_headers resp)) n of Some v \<Rightarrow> [(n, v)] | None \<Rightarrow> [])"
proof -
  let ?kept = "filter (\<lambda>h. fst h \<notin> set skipped_headers) (rs_headers resp)"
  have plain: "plain_headers env ?kept" using assms(1) by (auto simp: plain_headers_def)
  have of_rev: "map_of (rev ?kept) n = (if n \<in> set skipped_headers then None else map_of (rev (rs_headers resp)) n)"
    by (simp add: rev_filter map_of_filter_names)
  have low: "map to_ascii_lower ''X-Idempotency-Replay'' = ''x-idempotency-replay''"
    by code_simp
  have marker: "filter (\<lambda>h. fst h = n) (hm_insert ''X-Idempotency-Replay'' v hs) = filter (\<lambda>h. fst h = n) hs" for v hs
    by (simp only: filter_hm_insert low assms(3) if_False)
  show ?thesis
    using replay_fold [OF plain, of n] assms(2,3)
    by (simp add: replay_of_def response_claim_def build_replay_response_def snapshot_plain [OF assms(1)] of_rev
        marker)
qed

theorem replay_keeps_last_header_witness:
  "filter (\<lambda>h. fst h = ''set-cookie'') (rs_headers (replay_of permissive_http (response_claim permissive_http ''h''
      \<lparr>rs_status = 200, rs_headers = [(''set-cookie'', ''a=1''), (''set-cookie'', ''b=2'')], rs_body = Some []\<rparr> [])))
   = [(''set-cookie'', ''b=2'')]"
  using replay_keeps_last_header [of permissive_http
      "\<lparr>rs_status = 200, rs_headers = [(''set-cookie'', ''a=1''), (''set-cookie'', ''b=2'')], rs_body = Some []\<rparr>"
      "''set-cookie''" "''h''" "[]"]
  by (simp add: plain_headers_def permissive_http_def to_ascii_lower_def is_ascii_upper_def skipped_headers_def)

end
