(* ===== verification/Json_Types.thy ===== *)
theory Json_Types
  imports Complex_Main Kernel_Prelude
begin

text \<open>
  \<open>serde_json::Value\<close>. A number is what the crate keeps: an unsigned or a negative 64-bit integer,
  or a finite double, whose value is a rational here. An object is the list of its entries in the
  order in which its map iterates; \<open>json_insert\<close> is \<open>Map::insert\<close>.
\<close>

section \<open>Definitions\<close>

datatype json_number = PosInt u64 | NegInt "64 word" | Float rat

datatype json =
    JNull
  | JBool bool
  | JNumber json_number
  | JString string
  | JArray "json list"
  | JObject "(string \<times> json) list"

definition json_insert :: "string \<Rightarrow> json \<Rightarrow> (string \<times> json) list \<Rightarrow> (string \<times> json) list" where
  "json_insert k v obj =
     (if k \<in> fst ` set obj then map (\<lambda>(k', v'). if k' = k then (k', v) else (k', v')) obj else obj @ [(k, v)])"

text \<open>Levels of nesting, the strings inside a value, and the keys of its objects.\<close>

fun json_depth :: "json \<Rightarrow> nat" where
  "json_depth (JArray vs) = Suc (fold max (map json_depth vs) 0)"
| "json_depth (JObject m) = Suc (fold max (map (\<lambda>(k, v). json_depth v) m) 0)"
| "json_depth v = 1"

fun json_strings :: "json \<Rightarrow> string set" where
  "json_strings (JString s) = {s}"
| "json_strings (JArray vs) = (\<Union>v \<in> set vs. json_strings v)"
| "json_strings (JObject m) = (\<Union>(k, v) \<in> set m. json_strings v)"
| "json_strings v = {}"

fun json_keys :: "json \<Rightarrow> string set" where
  "json_keys (JArray vs) = (\<Union>v \<in> set vs. json_keys v)"
| "json_keys (JObject m) = fst ` set m \<union> (\<Union>(k, v) \<in> set m. json_keys v)"
| "json_keys v = {}"

section \<open>Lemmas\<close>

lemma fold_max_le: "fold max ns m \<le> (b :: nat) \<longleftrightarrow> m \<le> b \<and> (\<forall>n \<in> set ns. n \<le> b)"
  by (induction ns arbitrary: m) auto

lemma json_depth_object: "json_depth (JObject m) \<le> Suc b \<longleftrightarrow> (\<forall>(k, v) \<in> set m. json_depth v \<le> b)"
  by (auto simp: fold_max_le)

lemma json_depth_array: "json_depth (JArray vs) \<le> Suc b \<longleftrightarrow> (\<forall>v \<in> set vs. json_depth v \<le> b)"
  by (auto simp: fold_max_le)

lemma json_insert_set: "set (json_insert k v obj) \<subseteq> insert (k, v) (set obj)"
  by (auto simp: json_insert_def split: if_splits)

lemma json_insert_map_of: "map_of (json_insert k v obj) = (map_of obj)(k \<mapsto> v)"
proof -
  have upd: "map_of (map (\<lambda>(k', v'). if k' = k then (k', v) else (k', v')) obj) = (if k \<in> fst ` set obj then (map_of obj)(k \<mapsto> v) else map_of obj)"
    by (induction obj) (auto simp: fun_eq_iff)
  show ?thesis
  proof (cases "k \<in> fst ` set obj")
    case True
    then show ?thesis using upd by (simp add: json_insert_def)
  next
    case False
    then have "map_of obj k = None" by (simp add: map_of_eq_None_iff)
    with False show ?thesis by (auto simp: json_insert_def map_add_def fun_eq_iff split: option.splits)
  qed
qed

end
