(* ===== verification/Supply_Chain.thy ===== *)
theory Supply_Chain
  imports Kernel_Prelude
begin

text \<open>
  Supply chain verification, \<open>kernel-core/src/supplychain.rs\<close>, of a production build
  (without the \<open>test-utils\<close> feature): a manifest against a trusted key, and the break-glass
  override. Hex decoding and Ed25519 verification are arguments. The metrics counters are
  left out.
\<close>

section \<open>Definitions\<close>

record core_manifest =
  mf_id :: string
  mf_digest :: string
  mf_signature :: string
  mf_kid :: string

datatype key_status = KActive | KNext | KRetired | KRevoked

datatype verification_result =
    VOk | DigestMismatch | SignatureAlgorithmMismatch | SignatureInvalid | KeyRevoked
  | KeyRetiredOutOfWindow | KeyNotYetValid | KeyExpired | BreakGlassExpired
  | BreakGlassScopeMismatch | BreakGlassDisabled | BreakGlassScopeMissing | KeyMismatch

record break_glass_context =
  bg_enabled :: bool
  bg_scope_tenant_id :: "string option"
  bg_scope_digest :: "string option"
  bg_expiry_ts :: u64

record trusted_key =
  tk_kid :: string
  tk_alg :: string
  tk_status :: key_status
  tk_retired_at :: "u64 option"
  tk_not_before :: "u64 option"
  tk_not_after :: "u64 option"
  tk_public_key :: "byte list"

definition RETIRED_KEY_GRACE_PERIOD_SECONDS :: u64 where
  "RETIRED_KEY_GRACE_PERIOD_SECONDS = 86400"

definition CLOCK_DRIFT_TOLERANCE_SECONDS :: u64 where
  "CLOCK_DRIFT_TOLERANCE_SECONDS = 30"

text \<open>
  The two primitives: \<open>sc_decode n s\<close> is \<open>hex::decode_to_slice\<close> into a buffer of \<open>n\<close> bytes,
  \<open>sc_verify key message sig\<close> is ring's Ed25519 verification.
\<close>

record sig_env =
  sc_decode :: "nat \<Rightarrow> string \<Rightarrow> string + byte list"
  sc_verify :: "byte list \<Rightarrow> string \<Rightarrow> byte list \<Rightarrow> bool"

definition retired_out_of_window :: "trusted_key \<Rightarrow> u64 \<Rightarrow> bool" where
  "retired_out_of_window k now =
     (case tk_retired_at k of
        Some retired_at \<Rightarrow> now \<ge> saturating_add_u64 retired_at RETIRED_KEY_GRACE_PERIOD_SECONDS
      | None \<Rightarrow> True)"

definition not_yet_valid :: "u64 option \<Rightarrow> u64 \<Rightarrow> bool" where
  "not_yet_valid not_before now =
     (case not_before of
        Some nbf \<Rightarrow> saturating_add_u64 now CLOCK_DRIFT_TOLERANCE_SECONDS < nbf
      | None \<Rightarrow> False)"

definition past_expiry :: "u64 option \<Rightarrow> u64 \<Rightarrow> bool" where
  "past_expiry not_after now =
     (case not_after of
        Some x \<Rightarrow> now > saturating_add_u64 x CLOCK_DRIFT_TOLERANCE_SECONDS
      | None \<Rightarrow> False)"

definition check_signature :: "sig_env \<Rightarrow> core_manifest \<Rightarrow> trusted_key \<Rightarrow> verification_result" where
  "check_signature E manifest trusted_key =
     (case sc_decode E 64 (mf_signature manifest) of
        Inl _ \<Rightarrow> SignatureInvalid
      | Inr sig_bytes \<Rightarrow>
          if sc_verify E (tk_public_key trusted_key) (mf_digest manifest) sig_bytes then VOk else SignatureInvalid)"

definition verify_manifest :: "sig_env \<Rightarrow> core_manifest \<Rightarrow> trusted_key \<Rightarrow> string \<Rightarrow> u64 \<Rightarrow> verification_result" where
  "verify_manifest E manifest trusted_key expected_artifact_digest now =
     (if \<not> (starts_with (mf_digest manifest) ''sha256-'' \<or> starts_with (mf_digest manifest) ''sha384-'')
      then DigestMismatch
      else if mf_digest manifest \<noteq> expected_artifact_digest then DigestMismatch
      else if mf_kid manifest \<noteq> tk_kid trusted_key then KeyMismatch
      else if tk_status trusted_key = KRevoked then KeyRevoked
      else if tk_status trusted_key = KRetired \<and> retired_out_of_window trusted_key now then KeyRetiredOutOfWindow
      else if not_yet_valid (tk_not_before trusted_key) now then KeyNotYetValid
      else if past_expiry (tk_not_after trusted_key) now then KeyExpired
      else if \<not> eq_ignore_ascii_case (trim (tk_alg trusted_key)) ''ed25519'' then SignatureAlgorithmMismatch
      else check_signature E manifest trusted_key)"

definition verify_break_glass :: "break_glass_context \<Rightarrow> string \<Rightarrow> string \<Rightarrow> u64 \<Rightarrow> verification_result" where
  "verify_break_glass ctx tenant_id digest now =
     (if \<not> bg_enabled ctx then BreakGlassDisabled
      else if now \<ge> bg_expiry_ts ctx then BreakGlassExpired
      else (case bg_scope_tenant_id ctx of
              None \<Rightarrow> BreakGlassScopeMissing
            | Some scope_tid \<Rightarrow>
                if scope_tid \<noteq> tenant_id then BreakGlassScopeMismatch
                else (case bg_scope_digest ctx of
                        None \<Rightarrow> BreakGlassScopeMissing
                      | Some scope_dig \<Rightarrow> if scope_dig \<noteq> digest then BreakGlassScopeMismatch else VOk)))"

section \<open>Lemmas\<close>

lemma not_yet_valid_nat:
  "not_yet_valid (Some nbf) now \<longleftrightarrow> unat now + 30 < unat nbf"
  using unat_u64_bound [of nbf]
  by (auto simp: not_yet_valid_def word_less_nat_alt unat_saturating_add_u64 CLOCK_DRIFT_TOLERANCE_SECONDS_def)

lemma past_expiry_nat:
  "past_expiry (Some x) now \<longleftrightarrow> unat x + 30 < unat now"
  using unat_u64_bound [of now]
  by (auto simp: past_expiry_def word_less_nat_alt unat_saturating_add_u64 CLOCK_DRIFT_TOLERANCE_SECONDS_def)

lemma retired_window_nat:
  "tk_retired_at k = Some r \<Longrightarrow> unat r + 86400 < 2 ^ 64 \<Longrightarrow>
     retired_out_of_window k now \<longleftrightarrow> unat r + 86400 \<le> unat now"
  by (auto simp: retired_out_of_window_def word_le_nat_alt unat_saturating_add_u64 RETIRED_KEY_GRACE_PERIOD_SECONDS_def)

lemma ed25519_name: "eq_ignore_ascii_case (trim ''Ed25519'') ''ed25519''"
proof -
  have "trim ''Ed25519'' = ''Ed25519''" by (simp add: trim_plain ascii_graph_def)
  moreover have "eq_ignore_ascii_case ''Ed25519'' ''ed25519''" by code_simp
  ultimately show ?thesis by (simp only:)
qed

lemma retired_window_sat:
  "retired_out_of_window k now \<longleftrightarrow>
     (\<forall>r. tk_retired_at k = Some r \<longrightarrow> min (unat r + 86400) (2 ^ 64 - 1) \<le> unat now)"
  by (auto simp: retired_out_of_window_def word_le_nat_alt unat_saturating_add_u64 RETIRED_KEY_GRACE_PERIOD_SECONDS_def
      split: option.splits)

lemma check_signature_ok:
  "check_signature E m k = VOk \<longleftrightarrow>
     (\<exists>sig. sc_decode E 64 (mf_signature m) = Inr sig \<and> sc_verify E (tk_public_key k) (mf_digest m) sig)"
  by (auto simp: check_signature_def split: sum.splits)

definition key_usable :: "trusted_key \<Rightarrow> nat \<Rightarrow> bool" where
  "key_usable k t \<longleftrightarrow>
     tk_status k \<noteq> KRevoked
     \<and> (tk_status k = KRetired \<longrightarrow> (\<exists>r. tk_retired_at k = Some r \<and> t < min (unat r + 86400) (2 ^ 64 - 1)))
     \<and> (\<forall>nbf. tk_not_before k = Some nbf \<longrightarrow> unat nbf \<le> t + 30)
     \<and> (\<forall>x. tk_not_after k = Some x \<longrightarrow> t \<le> unat x + 30)"

lemma verify_manifest_ok:
  "verify_manifest E m k d now = VOk \<longleftrightarrow>
     (starts_with (mf_digest m) ''sha256-'' \<or> starts_with (mf_digest m) ''sha384-'')
     \<and> mf_digest m = d \<and> mf_kid m = tk_kid k \<and> key_usable k (unat now)
     \<and> eq_ignore_ascii_case (trim (tk_alg k)) ''ed25519''
     \<and> (\<exists>sig. sc_decode E 64 (mf_signature m) = Inr sig \<and> sc_verify E (tk_public_key k) (mf_digest m) sig)"
proof -
  have "not_yet_valid nb now \<longleftrightarrow> (\<exists>nbf. nb = Some nbf \<and> unat now + 30 < unat nbf)" for nb
    by (cases nb) (auto simp: not_yet_valid_nat, simp add: not_yet_valid_def)
  moreover have "past_expiry na now \<longleftrightarrow> (\<exists>x. na = Some x \<and> unat x + 30 < unat now)" for na
    by (cases na) (auto simp: past_expiry_nat, simp add: past_expiry_def)
  ultimately show ?thesis
    unfolding verify_manifest_def check_signature_ok [symmetric]
    by (auto simp: key_usable_def retired_window_sat not_le not_less)
qed

lemma key_usable_interval:
  "key_usable k t1 \<Longrightarrow> key_usable k t3 \<Longrightarrow> t1 \<le> t2 \<Longrightarrow> t2 \<le> t3 \<Longrightarrow> key_usable k t2"
  by (fastforce simp: key_usable_def)

section \<open>Properties\<close>

text \<open>
  a manifest is accepted exactly when its digest has a known prefix and
  is the expected one, its key id is that of the trusted key, the key is not revoked, a
  retired key is within a day of its retirement, the time is within the key's validity
  window widened by 30 seconds on both sides, the algorithm is Ed25519 and the signature
  over the digest verifies. No wrap-around at the ends of the clock range widens a window,
  and the times at which a manifest is accepted form an interval.
\<close>

theorem verify_manifest_exact:
  shows "(verify_manifest E m k d now = VOk \<longleftrightarrow>
     (starts_with (mf_digest m) ''sha256-'' \<or> starts_with (mf_digest m) ''sha384-'')
     \<and> mf_digest m = d \<and> mf_kid m = tk_kid k \<and> key_usable k (unat now)
     \<and> eq_ignore_ascii_case (trim (tk_alg k)) ''ed25519''
     \<and> (\<exists>sig. sc_decode E 64 (mf_signature m) = Inr sig \<and> sc_verify E (tk_public_key k) (mf_digest m) sig))
   \<and> (verify_manifest E m k d t1 = VOk \<and> verify_manifest E m k d t3 = VOk \<and> t1 \<le> now \<and> now \<le> t3
      \<longrightarrow> verify_manifest E m k d now = VOk)"
  using key_usable_interval [of k "unat t1" "unat t3" "unat now"]
  by (auto simp: verify_manifest_ok word_le_nat_alt)

definition sample_sig_env :: sig_env where
  "sample_sig_env = \<lparr>sc_decode = (\<lambda>n s. Inr (replicate n 0)), sc_verify = (\<lambda>k m s. True)\<rparr>"

definition sample_trusted_key :: trusted_key where
  "sample_trusted_key = \<lparr>tk_kid = ''k1'', tk_alg = ''Ed25519'', tk_status = KRetired, tk_retired_at = Some 1000,
     tk_not_before = Some 10, tk_not_after = Some 500000, tk_public_key = replicate 32 0\<rparr>"

definition sample_core_manifest :: core_manifest where
  "sample_core_manifest = \<lparr>mf_id = ''app'', mf_digest = ''sha384-ab'', mf_signature = ''00'', mf_kid = ''k1''\<rparr>"

theorem verify_manifest_exact_witness:
  "verify_manifest sample_sig_env sample_core_manifest sample_trusted_key ''sha384-ab'' 5000 = VOk
   \<and> verify_manifest sample_sig_env sample_core_manifest sample_trusted_key ''sha384-ab'' 87400 \<noteq> VOk"
proof -
  have "eq_ignore_ascii_case (trim ''Ed25519'') ''ed25519''" by (rule ed25519_name)
  then have alg: "eq_ignore_ascii_case (trim (tk_alg sample_trusted_key)) ''ed25519''"
    by (simp add: sample_trusted_key_def)
  have u: "key_usable sample_trusted_key 5000" "\<not> key_usable sample_trusted_key 87400"
    by (simp_all add: key_usable_def sample_trusted_key_def)
  show ?thesis
    using u alg
      verify_manifest_exact [of sample_sig_env sample_core_manifest sample_trusted_key "''sha384-ab''" 5000]
      verify_manifest_exact [of sample_sig_env sample_core_manifest sample_trusted_key "''sha384-ab''" 87400]
    by (simp add: sample_sig_env_def sample_core_manifest_def starts_with_def)
      (simp add: sample_trusted_key_def)
qed

text \<open>
  A break-glass context opens one door. Whatever it contains, it admits at
  most one pair of tenant and digest, the one written into it, and only while it is enabled
  and before its expiry time; a context without both scopes admits nothing.
\<close>

theorem break_glass_opens_one_door:
  shows "(verify_break_glass ctx t d now = VOk \<longleftrightarrow>
      bg_enabled ctx \<and> now < bg_expiry_ts ctx \<and> bg_scope_tenant_id ctx = Some t \<and> bg_scope_digest ctx = Some d)
    \<and> (verify_break_glass ctx t d now = VOk \<and> verify_break_glass ctx t' d' now' = VOk \<longrightarrow> t = t' \<and> d = d')
    \<and> (bg_expiry_ts ctx \<le> now \<and> now \<le> now' \<longrightarrow> verify_break_glass ctx t d now' \<noteq> VOk)"
  by (auto simp: verify_break_glass_def split: option.splits)

theorem break_glass_opens_one_door_witness:
  "verify_break_glass \<lparr>bg_enabled = True, bg_scope_tenant_id = Some ''t1'', bg_scope_digest = Some ''d'', bg_expiry_ts = 100\<rparr>
     ''t1'' ''d'' 99 = VOk
   \<and> verify_break_glass \<lparr>bg_enabled = True, bg_scope_tenant_id = Some ''t1'', bg_scope_digest = Some ''d'', bg_expiry_ts = 100\<rparr>
     ''t1'' ''d'' 200 \<noteq> VOk"
  using break_glass_opens_one_door [of "\<lparr>bg_enabled = True, bg_scope_tenant_id = Some ''t1'', bg_scope_digest = Some ''d'', bg_expiry_ts = 100\<rparr>"
      "''t1''" "''d''" 99 "''t1''" "''d''" 99]
    break_glass_opens_one_door [of "\<lparr>bg_enabled = True, bg_scope_tenant_id = Some ''t1'', bg_scope_digest = Some ''d'', bg_expiry_ts = 100\<rparr>"
      "''t1''" "''d''" 150 "''t1''" "''d''" 200]
  by simp

end
