(* ===== verification/Registry_Trust.thy ===== *)
theory Registry_Trust
  imports Supply_Chain
begin

text \<open>
  The trust root of \<open>kernel-registry/src/trust.rs\<close>, the registry's errors and the interface
  between trust providers and the storage: a provider hands out only usable keys. Reading
  and parsing the trust root file is left to the environment (\<open>FileTrustProvider_new\<close> takes
  both as arguments).
\<close>

section \<open>Definitions\<close>

datatype registry_error =
    ObjectStore string
  | Serialization string
  | IntegrityCheckFailed (icf_expected: string) (icf_actual: string)
  | ManifestNotFound string
  | ArtifactNotFound string
  | ArtifactTooLarge (atl_max: nat) (atl_actual: nat)
  | InvalidPath string
  | InvalidManifest string
  | RKeyRevoked (krv_kid: string)
  | RKeyNotYetValid (knv_kid: string) (knv_valid_from: u64) (knv_now: u64)
  | RKeyExpired (kex_kid: string) (kex_expired_at: u64) (kex_now: u64)
  | TrustRootError string

record trust_root_key =
  trk_kid :: string
  trk_alg :: string
  trk_public_key :: string
  trk_status :: string
  trk_retired_at :: "u64 option"
  trk_not_before :: "u64 option"
  trk_not_after :: "u64 option"

record trust_root =
  tr_version :: string
  tr_generated_at :: string
  tr_keys :: "trust_root_key list"

definition FileTrustProvider_new :: "(string \<Rightarrow> string + string) \<Rightarrow> (string \<Rightarrow> string + trust_root) \<Rightarrow> string
    \<Rightarrow> registry_error + trust_root" where
  "FileTrustProvider_new read_to_string from_str path =
     and_then (case read_to_string path of
                 Inl e \<Rightarrow> Inl (TrustRootError (''Failed to read trust root: '' @ e)) | Inr c \<Rightarrow> Inr c)
       (\<lambda>content. case from_str content of
                     Inl e \<Rightarrow> Inl (TrustRootError (''Failed to parse trust root: '' @ e)) | Inr root \<Rightarrow> Inr root)"

definition parse_key_status :: "trust_root_key \<Rightarrow> registry_error + key_status" where
  "parse_key_status key =
     (if trk_status key = ''active'' then Inr KActive
      else if trk_status key = ''next'' then Inr KNext
      else if trk_status key = ''retired'' then Inr KRetired
      else if trk_status key = ''revoked'' then Inl (RKeyRevoked (trk_kid key))
      else Inl (TrustRootError (''Unknown key status: '' @ trk_status key)))"

definition window_check :: "trust_root_key \<Rightarrow> u64 \<Rightarrow> registry_error + unit" where
  "window_check key now =
     (if not_yet_valid (trk_not_before key) now
      then Inl (RKeyNotYetValid (trk_kid key) (the (trk_not_before key)) now)
      else if past_expiry (trk_not_after key) now
      then Inl (RKeyExpired (trk_kid key) (the (trk_not_after key)) now)
      else Inr ())"

definition get_key_at :: "sig_env \<Rightarrow> trust_root \<Rightarrow> string \<Rightarrow> u64 \<Rightarrow> registry_error + trusted_key" where
  "get_key_at E root kid now =
     and_then (ok_or (TrustRootError (''Key not found: '' @ kid)) (find (\<lambda>k. trk_kid k = kid) (tr_keys root)))
       (\<lambda>key. and_then (parse_key_status key)
         (\<lambda>status.
            if trk_alg key \<noteq> ''Ed25519''
            then Inl (TrustRootError (''Unsupported algorithm for key '' @ trk_kid key @ '': '' @ trk_alg key))
            else and_then (case sc_decode E 32 (trk_public_key key) of
                             Inl e \<Rightarrow> Inl (TrustRootError (''Invalid hex in public key '' @ trk_kid key @ '': '' @ e))
                           | Inr public_key \<Rightarrow> Inr public_key)
              (\<lambda>public_key. and_then (window_check key now)
                (\<lambda>_. Inr \<lparr>tk_kid = trk_kid key, tk_alg = trk_alg key, tk_status = status,
                            tk_retired_at = trk_retired_at key, tk_not_before = trk_not_before key,
                            tk_not_after = trk_not_after key, tk_public_key = public_key\<rparr>))))"

text \<open>\<open>TrustProvider::get_key\<close>: at the current time, which may be unavailable.\<close>

definition get_key :: "sig_env \<Rightarrow> registry_error + u64 \<Rightarrow> trust_root \<Rightarrow> string \<Rightarrow> registry_error + trusted_key" where
  "get_key E current_unix_ts root kid = and_then current_unix_ts (get_key_at E root kid)"

section \<open>The interface\<close>

text \<open>
  What a trust provider promises: a key it returns is the one asked for, it is not revoked,
  its algorithm is supported and the time is within its validity window.
\<close>

locale trust_provider =
  fixes lookup :: "string \<Rightarrow> u64 \<Rightarrow> registry_error + trusted_key"
  assumes kid: "lookup kid now = Inr k \<Longrightarrow> tk_kid k = kid"
    and not_revoked: "lookup kid now = Inr k \<Longrightarrow> tk_status k \<noteq> KRevoked"
    and alg: "lookup kid now = Inr k \<Longrightarrow> tk_alg k = ''Ed25519''"
    and window: "lookup kid now = Inr k \<Longrightarrow>
      \<not> not_yet_valid (tk_not_before k) now \<and> \<not> past_expiry (tk_not_after k) now"
begin

lemma verified_with_provider_key:
  assumes "lookup (mf_kid m) now = Inr k"
  shows "verify_manifest E m k d now =
    (if \<not> (starts_with (mf_digest m) ''sha256-'' \<or> starts_with (mf_digest m) ''sha384-'') \<or> mf_digest m \<noteq> d then DigestMismatch
     else if tk_status k = KRetired \<and> retired_out_of_window k now then KeyRetiredOutOfWindow
     else check_signature E m k)"
proof -
  have a: "eq_ignore_ascii_case (trim ''Ed25519'') ''ed25519''" by (rule ed25519_name)
  show ?thesis
    using kid [OF assms] not_revoked [OF assms] alg [OF assms] window [OF assms] a
    by (auto simp: verify_manifest_def)
qed

end

lemma get_key_at_Inr:
  assumes "get_key_at E root kid now = Inr k"
  obtains key where "find (\<lambda>k. trk_kid k = kid) (tr_keys root) = Some key" and "parse_key_status key = Inr (tk_status k)"
    and "sc_decode E 32 (trk_public_key key) = Inr (tk_public_key k)" and "window_check key now = Inr ()"
    and "tk_kid k = trk_kid key" and "trk_alg key = ''Ed25519''" and "tk_alg k = trk_alg key"
    and "tk_retired_at k = trk_retired_at key"
    and "tk_not_before k = trk_not_before key" and "tk_not_after k = trk_not_after key"
proof -
  obtain key where f: "find (\<lambda>k. trk_kid k = kid) (tr_keys root) = Some key"
    using assms by (cases "find (\<lambda>k. trk_kid k = kid) (tr_keys root)") (auto simp: get_key_at_def)
  show ?thesis
    using assms f
    by (intro that [OF f]; cases "parse_key_status key"; cases "sc_decode E 32 (trk_public_key key)"; cases "window_check key now")
      (auto simp: get_key_at_def split: if_splits)
qed

lemma parse_key_status_Inr:
  "parse_key_status key = Inr st \<Longrightarrow>
     st \<noteq> KRevoked \<and> (trk_status key, st) \<in> {(''active'', KActive), (''next'', KNext), (''retired'', KRetired)}"
  by (auto simp: parse_key_status_def split: if_splits)

interpretation file_trust: trust_provider "get_key_at E root" for E root
proof
  fix kid :: string and now k assume "get_key_at E root kid now = Inr k"
  then show "tk_kid k = kid" "tk_status k \<noteq> KRevoked" "tk_alg k = ''Ed25519''"
    "\<not> not_yet_valid (tk_not_before k) now \<and> \<not> past_expiry (tk_not_after k) now"
    by (auto elim!: get_key_at_Inr simp: find_Some_iff window_check_def dest: parse_key_status_Inr split: if_splits)
qed

end
