(* ===== verification/Registry_Storage.thy ===== *)
theory Registry_Storage
  imports Json_Types Registry_Trust Auth_Context
begin

text \<open>
  The registry's manifests (\<open>kernel-registry/src/model.rs\<close>) and tenant storage
  (\<open>kernel-registry/src/storage.rs\<close>). The object store, serde\_json's reader and writer,
  SHA-384 with its hex encoding, \<open>object_store::path::Path::from\<close>, the signature primitives
  and the trust provider are arguments, collected in \<open>registry_env\<close> and \<open>object_store\<close>.
\<close>

section \<open>Manifests\<close>

datatype kind = Composition | Component

record route =
  rt_path :: string
  rt_component :: string

record component_dependency =
  cd_source :: string
  cd_version :: string
  cd_digest :: string

record dependencies =
  dp_components :: "(string \<times> component_dependency) list"
  dp_permissions :: "string list"

record security =
  sec_manifest_digest :: string
  sec_manifest_signature :: string
  sec_manifest_signature_kid :: string
  sec_trust_root_version :: string

record dist_manifest =
  dm_schema_version :: string
  dm_id :: string
  dm_version :: string
  dm_kind :: kind
  dm_name :: string
  dm_protected :: bool
  dm_composition_root :: string
  dm_routes :: "route list"
  dm_dependencies :: dependencies
  dm_configuration :: "(string \<times> json) list"
  dm_security :: security

section \<open>Environment\<close>

record 'p registry_env =
  re_sig :: sig_env
  re_sha384_hex :: "string \<Rightarrow> string"
  re_to_vec :: "json \<Rightarrow> string"
  re_manifest_to_vec :: "dist_manifest \<Rightarrow> string"
  re_manifest_from_slice :: "string \<Rightarrow> string + dist_manifest"
  re_path_from :: "string \<Rightarrow> 'p"
  re_lookup :: "string \<Rightarrow> u64 \<Rightarrow> registry_error + trusted_key"
  re_trust_root_version :: string

datatype os_error = OsNotFound | OsOther string

text \<open>A read returns the size of the metadata and, separately, the bytes or an error.\<close>

record ('s, 'p) object_store =
  os_put :: "'p \<Rightarrow> string \<Rightarrow> 's \<Rightarrow> 's \<times> (os_error + unit)"
  os_get :: "'p \<Rightarrow> 's \<Rightarrow> os_error + (nat \<times> (os_error + string))"

fun os_error_text :: "os_error \<Rightarrow> string" where
  "os_error_text OsNotFound = ''not found''"
| "os_error_text (OsOther e) = e"

section \<open>Storage operations\<close>

definition ARTIFACT_MAX_BYTES :: nat where
  "ARTIFACT_MAX_BYTES = 100 * 1024 * 1024"

record registry_storage =
  st_prefix :: string
  st_tenant_id :: string

definition RegistryStorage_new :: "'db tenant_context \<Rightarrow> registry_storage" where
  "RegistryStorage_new ctx =
     \<lparr>st_prefix = ''tenants/'' @ tenant_str (ctx_tenant_id ctx) @ ''/'', st_tenant_id = tenant_str (ctx_tenant_id ctx)\<rparr>"

text \<open>\<open>char::is_control\<close> on UTF-8: the C0 controls, DEL and the C1 controls U+0080 to U+009F.\<close>

fun has_control :: "string \<Rightarrow> bool" where
  "has_control [] = False"
| "has_control (c # s) =
     ((of_char c :: nat) < 32 \<or> of_char c = (127 :: nat)
      \<or> of_char c = (194 :: nat) \<and> s \<noteq> [] \<and> (128 :: nat) \<le> of_char (hd s) \<and> of_char (hd s) \<le> (159 :: nat)
      \<or> has_control s)"

fun check_segments :: "string \<Rightarrow> string list \<Rightarrow> registry_error + unit" where
  "check_segments key [] = Inr ()"
| "check_segments key (segment # rest) =
     (if segment = [] then Inl (InvalidPath (''invalid key contains empty segment: '' @ key))
      else if segment = ''.'' \<or> segment = ''..'' then Inl (InvalidPath (''invalid key contains traversal segment: '' @ key))
      else check_segments key rest)"

definition validate_key :: "string \<Rightarrow> registry_error + unit" where
  "validate_key key =
     (if key = [] then Inl (InvalidPath ''key must not be empty'')
      else if has_control key then Inl (InvalidPath (''invalid key contains control character: '' @ key))
      else if CHR 0x5C \<in> set key then Inl (InvalidPath (''invalid key contains backslash: '' @ key))
      else if contains_str (map to_ascii_lower key) ''%2f'' \<or> contains_str (map to_ascii_lower key) ''%5c''
      then Inl (InvalidPath (''invalid key contains encoded path separator: '' @ key))
      else check_segments key (split_char (CHR ''/'') key))"

definition artifact_path :: "'p registry_env \<Rightarrow> registry_storage \<Rightarrow> string \<Rightarrow> 'p" where
  "artifact_path E st key = re_path_from E (st_prefix st @ ''artifacts/'' @ key)"

definition manifest_path :: "'p registry_env \<Rightarrow> registry_storage \<Rightarrow> string \<Rightarrow> string \<Rightarrow> 'p" where
  "manifest_path E st mid version = re_path_from E (st_prefix st @ ''manifests/'' @ mid @ ''/'' @ version @ ''/manifest.json'')"

definition kind_json :: "kind \<Rightarrow> json" where
  "kind_json k = JString (case k of Composition \<Rightarrow> ''composition'' | Component \<Rightarrow> ''component'')"

definition route_json :: "route \<Rightarrow> json" where
  "route_json r = JObject [(''component'', JString (rt_component r)), (''path'', JString (rt_path r))]"

definition component_dependency_json :: "component_dependency \<Rightarrow> json" where
  "component_dependency_json c =
     JObject [(''digest'', JString (cd_digest c)), (''source'', JString (cd_source c)), (''version'', JString (cd_version c))]"

definition dependencies_json :: "dependencies \<Rightarrow> json" where
  "dependencies_json d =
     JObject [(''components'', JObject (map (apsnd component_dependency_json) (dp_components d))),
              (''permissions'', JArray (map JString (dp_permissions d)))]"

definition payload_value :: "dist_manifest \<Rightarrow> json" where
  "payload_value m =
     JObject [(''compositionRoot'', JString (dm_composition_root m)),
              (''configuration'', JObject (dm_configuration m)),
              (''dependencies'', dependencies_json (dm_dependencies m)),
              (''id'', JString (dm_id m)),
              (''kind'', kind_json (dm_kind m)),
              (''name'', JString (dm_name m)),
              (''protected'', JBool (dm_protected m)),
              (''routes'', JArray (map route_json (dm_routes m))),
              (''schemaVersion'', JString (dm_schema_version m)),
              (''version'', JString (dm_version m))]"

text \<open>\<open>Value::from\<close> of an \<open>i64\<close>, and the number case of \<open>normalize_value\<close>.\<close>

definition value_from_i64 :: "64 word \<Rightarrow> json_number" where
  "value_from_i64 i = (if 0 \<le> sint i then PosInt i else NegInt i)"

definition number_as_i64 :: "json_number \<Rightarrow> 64 word option" where
  "number_as_i64 n =
     (case n of
        PosInt u \<Rightarrow> if unat u \<le> 2 ^ 63 - 1 then Some u else None
      | NegInt i \<Rightarrow> Some i
      | Float f \<Rightarrow> None)"

definition normalize_number :: "json_number \<Rightarrow> json_number" where
  "normalize_number n =
     (case number_as_i64 n of
        Some i \<Rightarrow> value_from_i64 i
      | None \<Rightarrow>
          (case n of
             PosInt u \<Rightarrow> PosInt u
           | NegInt i \<Rightarrow> NegInt i
           | Float f \<Rightarrow>
               if f = of_int \<lfloor>f\<rfloor> \<and> - (2 ^ 63) \<le> f \<and> f < 2 ^ 63 then value_from_i64 (word_of_int \<lfloor>f\<rfloor>)
               else if f = of_int \<lfloor>f\<rfloor> \<and> 0 \<le> f \<and> f < 2 ^ 64 then PosInt (word_of_int \<lfloor>f\<rfloor>)
               else Float f))"

fun normalize_value :: "json \<Rightarrow> json" where
  "normalize_value (JObject m) = JObject (map (\<lambda>(k, v). (k, normalize_value v)) m)"
| "normalize_value (JArray vs) = JArray (map normalize_value vs)"
| "normalize_value (JNumber n) = JNumber (normalize_number n)"
| "normalize_value JNull = JNull"
| "normalize_value (JBool b) = JBool b"
| "normalize_value (JString s) = JString s"

definition manifest_payload_digest :: "'p registry_env \<Rightarrow> dist_manifest \<Rightarrow> string" where
  "manifest_payload_digest E manifest = re_sha384_hex E (re_to_vec E (normalize_value (payload_value manifest)))"

definition save_artifact :: "'p registry_env \<Rightarrow> ('s, 'p) object_store \<Rightarrow> registry_storage \<Rightarrow> string \<Rightarrow> string \<Rightarrow> 's
    \<Rightarrow> 's \<times> (registry_error + string)" where
  "save_artifact E S st key data s =
     (case validate_key key of
        Inl e \<Rightarrow> (s, Inl e)
      | Inr _ \<Rightarrow>
          if length data > ARTIFACT_MAX_BYTES then (s, Inl (ArtifactTooLarge ARTIFACT_MAX_BYTES (length data)))
          else (let digest = re_sha384_hex E data
                in case os_put S (artifact_path E st key) data s of
                     (s', Inl e) \<Rightarrow> (s', Inl (ObjectStore (os_error_text e)))
                   | (s', Inr _) \<Rightarrow> (s', Inr digest)))"

definition get_artifact :: "'p registry_env \<Rightarrow> ('s, 'p) object_store \<Rightarrow> registry_storage \<Rightarrow> string \<Rightarrow> string option \<Rightarrow> 's
    \<Rightarrow> registry_error + string" where
  "get_artifact E S st key expected_digest s =
     and_then (validate_key key) (\<lambda>_.
       case os_get S (artifact_path E st key) s of
         Inl OsNotFound \<Rightarrow> Inl (ArtifactNotFound key)
       | Inl e \<Rightarrow> Inl (ObjectStore (os_error_text e))
       | Inr (meta_size, bytes) \<Rightarrow>
           if meta_size > ARTIFACT_MAX_BYTES then Inl (ArtifactTooLarge ARTIFACT_MAX_BYTES meta_size)
           else (case bytes of
                   Inl e \<Rightarrow> Inl (ObjectStore (os_error_text e))
                 | Inr data \<Rightarrow>
                     if length data > ARTIFACT_MAX_BYTES then Inl (ArtifactTooLarge ARTIFACT_MAX_BYTES (length data))
                     else (case expected_digest of
                             Some expected \<Rightarrow>
                               if re_sha384_hex E data \<noteq> expected
                               then Inl (IntegrityCheckFailed expected (re_sha384_hex E data))
                               else Inr data
                           | None \<Rightarrow> Inr data)))"

definition normalize_digest :: "string \<Rightarrow> string" where
  "normalize_digest d = (if starts_with d ''sha384-'' then d else ''sha384-'' @ d)"

fun debug_verification :: "verification_result \<Rightarrow> string" where
  "debug_verification VOk = ''Ok''"
| "debug_verification DigestMismatch = ''DigestMismatch''"
| "debug_verification SignatureAlgorithmMismatch = ''SignatureAlgorithmMismatch''"
| "debug_verification SignatureInvalid = ''SignatureInvalid''"
| "debug_verification KeyRevoked = ''KeyRevoked''"
| "debug_verification KeyRetiredOutOfWindow = ''KeyRetiredOutOfWindow''"
| "debug_verification KeyNotYetValid = ''KeyNotYetValid''"
| "debug_verification KeyExpired = ''KeyExpired''"
| "debug_verification BreakGlassExpired = ''BreakGlassExpired''"
| "debug_verification BreakGlassScopeMismatch = ''BreakGlassScopeMismatch''"
| "debug_verification BreakGlassDisabled = ''BreakGlassDisabled''"
| "debug_verification BreakGlassScopeMissing = ''BreakGlassScopeMissing''"
| "debug_verification KeyMismatch = ''KeyMismatch''"

text \<open>\<open>now\<close> is the system time in seconds, or the message of the clock error.\<close>

definition verify_and_canonicalize_manifest :: "'p registry_env \<Rightarrow> string + u64 \<Rightarrow> dist_manifest
    \<Rightarrow> registry_error + dist_manifest" where
  "verify_and_canonicalize_manifest E clock manifest =
     (let sec = dm_security manifest;
          computed_digest = ''sha384-'' @ manifest_payload_digest E manifest;
          normalized_stored = normalize_digest (sec_manifest_digest sec)
      in if trim (sec_manifest_signature sec) = []
         then Inl (InvalidManifest ''security.manifest_signature must not be empty'')
         else if trim (sec_manifest_signature_kid sec) = []
         then Inl (InvalidManifest ''security.manifest_signature_kid must not be empty'')
         else if trim (sec_trust_root_version sec) = []
         then Inl (InvalidManifest ''security.trust_root_version must not be empty'')
         else if sec_trust_root_version sec \<noteq> re_trust_root_version E
         then Inl (InvalidManifest (''trust_root_version mismatch: expected '' @ re_trust_root_version E
                     @ '', got '' @ sec_trust_root_version sec))
         else if trim (sec_manifest_digest sec) = []
         then Inl (InvalidManifest ''security.manifest_digest must not be empty'')
         else if computed_digest \<noteq> normalized_stored
         then Inl (IntegrityCheckFailed normalized_stored computed_digest)
         else (case clock of
                 Inl e \<Rightarrow> Inl (InvalidManifest (''System time before UNIX EPOCH: '' @ e))
               | Inr now \<Rightarrow>
                   and_then (re_lookup E (sec_manifest_signature_kid sec) now) (\<lambda>trusted_key.
                     (let core_manifest = \<lparr>mf_id = dm_id manifest, mf_digest = normalized_stored,
                            mf_signature = sec_manifest_signature sec, mf_kid = sec_manifest_signature_kid sec\<rparr>;
                          res = verify_manifest (re_sig E) core_manifest trusted_key normalized_stored now
                      in if res = VOk then Inr (manifest\<lparr>dm_security := sec\<lparr>sec_manifest_digest := normalized_stored\<rparr>\<rparr>)
                         else Inl (InvalidManifest (''Signature verification failed: '' @ debug_verification res))))))"

definition save_manifest :: "'p registry_env \<Rightarrow> ('s, 'p) object_store \<Rightarrow> registry_storage \<Rightarrow> string + u64 \<Rightarrow> dist_manifest
    \<Rightarrow> 's \<Rightarrow> 's \<times> (registry_error + string \<times> dist_manifest)" where
  "save_manifest E S st clock manifest s =
     (let computed_digest = ''sha384-'' @ manifest_payload_digest E manifest;
          incoming = sec_manifest_digest (dm_security manifest)
      in case and_then (validate_key (dm_id manifest)) (\<lambda>_. and_then (validate_key (dm_version manifest)) (\<lambda>_.
             if trim incoming \<noteq> [] \<and> normalize_digest incoming \<noteq> computed_digest
             then Inl (IntegrityCheckFailed computed_digest (normalize_digest incoming))
             else verify_and_canonicalize_manifest E clock
                    (manifest\<lparr>dm_security := (dm_security manifest)\<lparr>sec_manifest_digest := computed_digest\<rparr>\<rparr>))) of
           Inl e \<Rightarrow> (s, Inl e)
         | Inr persisted \<Rightarrow>
             (case os_put S (manifest_path E st (dm_id persisted) (dm_version persisted)) (re_manifest_to_vec E persisted) s of
                (s', Inl e) \<Rightarrow> (s', Inl (ObjectStore (os_error_text e)))
              | (s', Inr _) \<Rightarrow> (s', Inr (computed_digest, persisted))))"

definition get_manifest :: "'p registry_env \<Rightarrow> ('s, 'p) object_store \<Rightarrow> registry_storage \<Rightarrow> string + u64 \<Rightarrow> string \<Rightarrow> string
    \<Rightarrow> 's \<Rightarrow> registry_error + dist_manifest" where
  "get_manifest E S st clock mid version s =
     and_then (validate_key mid) (\<lambda>_. and_then (validate_key version) (\<lambda>_.
       case os_get S (manifest_path E st mid version) s of
         Inl OsNotFound \<Rightarrow> Inl (ManifestNotFound (mid @ ''/'' @ version))
       | Inl e \<Rightarrow> Inl (ObjectStore (os_error_text e))
       | Inr (meta_size, Inl e) \<Rightarrow> Inl (ObjectStore (os_error_text e))
       | Inr (meta_size, Inr data) \<Rightarrow>
           (case re_manifest_from_slice E data of
              Inl e \<Rightarrow> Inl (Serialization e)
            | Inr manifest \<Rightarrow> verify_and_canonicalize_manifest E clock manifest)))"

section \<open>Number normalisation\<close>

fun number_value :: "json_number \<Rightarrow> rat" where
  "number_value (PosInt u) = of_int (uint u)"
| "number_value (NegInt i) = of_int (sint i)"
| "number_value (Float f) = f"

definition canonical_number :: "rat \<Rightarrow> json_number" where
  "canonical_number f =
     (if f = of_int \<lfloor>f\<rfloor> \<and> - (2 ^ 63) \<le> f \<and> f < 2 ^ 63 then value_from_i64 (word_of_int \<lfloor>f\<rfloor>)
      else if f = of_int \<lfloor>f\<rfloor> \<and> 0 \<le> f \<and> f < 2 ^ 64 then PosInt (word_of_int \<lfloor>f\<rfloor>)
      else Float f)"

text \<open>The value of a JSON document: numbers replaced by what they denote.\<close>

fun json_value :: "json \<Rightarrow> json" where
  "json_value (JObject m) = JObject (map (\<lambda>(k, v). (k, json_value v)) m)"
| "json_value (JArray vs) = JArray (map json_value vs)"
| "json_value (JNumber n) = JNumber (Float (number_value n))"
| "json_value JNull = JNull"
| "json_value (JBool b) = JBool b"
| "json_value (JString s) = JString s"

lemma sint_bounds: "- (2 ^ 63) \<le> sint (i :: 64 word)" "sint (i :: 64 word) < 2 ^ 63"
  using sint_greater_eq [of i] sint_less [of i] by simp_all

lemma sint_word_of_int_small:
  "- (2 ^ 63) \<le> (k :: int) \<Longrightarrow> k < 2 ^ 63 \<Longrightarrow> sint (word_of_int k :: 64 word) = k"
  by (simp add: int_word_sint mod_pos_pos_trivial)

lemma uint_word_of_int_small:
  "0 \<le> (k :: int) \<Longrightarrow> k < 2 ^ 64 \<Longrightarrow> uint (word_of_int k :: 64 word) = k"
  by (simp add: uint_word_of_int mod_pos_pos_trivial)

lemma small_u64_sint: "unat (u :: u64) \<le> 2 ^ 63 - 1 \<Longrightarrow> sint u = int (unat u)"
proof -
  assume "unat u \<le> 2 ^ 63 - 1"
  then have "unat u < 2 ^ 63" by simp
  then have "int (unat u) < int (2 ^ 63)" by (simp only: of_nat_less_iff)
  then have "0 \<le> uint u" "uint u < 2 ^ 63" by simp_all
  then have "sint (word_of_int (uint u) :: 64 word) = uint u" by (intro sint_word_of_int_small) linarith+
  then show ?thesis by simp
qed

lemma word_of_sint: "word_of_int (sint i) = (i :: 64 word)"
  by simp

lemma value_from_i64_value: "number_value (value_from_i64 i) = of_int (sint i)"
proof (cases "0 \<le> sint i")
  case True
  have "uint i = sint i"
    using uint_word_of_int_small [of "sint i"] True sint_bounds [of i] by (simp add: word_of_sint del: of_int_sint)
  then show ?thesis using True by (simp add: value_from_i64_def del: of_int_uint of_int_sint)
qed (simp add: value_from_i64_def)

lemma canonical_number_value: "number_value (canonical_number f) = f"
proof -
  have "\<lfloor>f\<rfloor> < 2 ^ n \<longleftrightarrow> f < 2 ^ n" if "f = of_int \<lfloor>f\<rfloor>" for n
    using that by (metis floor_of_int of_int_less_iff of_int_numeral of_int_power)
  moreover have "- (2 ^ 63) \<le> \<lfloor>f\<rfloor> \<longleftrightarrow> - (2 ^ 63) \<le> f" by (simp add: le_floor_iff)
  moreover have "0 \<le> \<lfloor>f\<rfloor> \<longleftrightarrow> 0 \<le> f" by simp
  ultimately show ?thesis
    using sint_word_of_int_small [of "\<lfloor>f\<rfloor>"] uint_word_of_int_small [of "\<lfloor>f\<rfloor>"]
    by (auto simp: canonical_number_def value_from_i64_value simp del: of_int_uint of_int_sint)
qed

lemma canonical_number_int:
  "- (2 ^ 63) \<le> k \<Longrightarrow> k < 2 ^ 63 \<Longrightarrow> canonical_number (of_int k) = value_from_i64 (word_of_int k)"
proof -
  assume "- (2 ^ 63) \<le> k" "k < 2 ^ 63"
  then have "of_int (- (2 ^ 63)) \<le> (of_int k :: rat)" "of_int k < (of_int (2 ^ 63) :: rat)"
    by (simp_all only: of_int_le_iff of_int_less_iff)
  then show ?thesis by (simp add: canonical_number_def)
qed

lemma normalize_number_canonical: "normalize_number n = canonical_number (number_value n)"
proof (cases n)
  case (PosInt u)
  show ?thesis
  proof (cases "unat u \<le> 2 ^ 63 - 1")
    case True
    then have "canonical_number (of_int (sint u)) = value_from_i64 u"
      using canonical_number_int [OF sint_bounds, of u] by (simp add: word_of_sint del: of_int_sint)
    then show ?thesis
      using True small_u64_sint [OF True]
      by (simp add: PosInt normalize_number_def number_as_i64_def del: of_int_uint of_int_sint)
  next
    case False
    then have "2 ^ 63 \<le> unat u" by simp
    then have "int (2 ^ 63) \<le> int (unat u)" by (simp only: of_nat_le_iff)
    then have lo: "of_int (2 ^ 63) \<le> (of_int (uint u) :: rat)" by (simp only: of_int_le_iff) simp
    have "uint u < 2 ^ 64" using uint_bounded [of u] by simp
    then have hi: "of_int (uint u) < (of_int (2 ^ 64) :: rat)" by (simp only: of_int_less_iff)
    show ?thesis
      using False lo hi
      by (simp add: PosInt normalize_number_def number_as_i64_def canonical_number_def word_of_int_uint del: of_int_uint)
  qed
next
  case (NegInt i)
  then show ?thesis
    using canonical_number_int [OF sint_bounds, of i]
    by (simp add: normalize_number_def number_as_i64_def word_of_sint del: of_int_sint)
next
  case (Float f)
  then show ?thesis by (simp add: normalize_number_def number_as_i64_def canonical_number_def)
qed

lemma normalize_value_keeps: "json_value (normalize_value v) = json_value v"
  by (induction v rule: normalize_value.induct)
    (auto simp: normalize_number_canonical canonical_number_value)

lemma normalize_json_value: "normalize_value (json_value v) = normalize_value v"
  by (induction v rule: normalize_value.induct) (auto simp: normalize_number_canonical)

lemma normalize_value_eq: "normalize_value v = normalize_value w \<longleftrightarrow> json_value v = json_value w"
  by (metis normalize_value_keeps normalize_json_value)

lemma json_value_payload:
  "json_value (payload_value m) = json_value (payload_value m') \<longleftrightarrow>
     dm_schema_version m = dm_schema_version m' \<and> dm_id m = dm_id m' \<and> dm_version m = dm_version m'
     \<and> dm_kind m = dm_kind m' \<and> dm_name m = dm_name m' \<and> dm_protected m = dm_protected m'
     \<and> dm_composition_root m = dm_composition_root m' \<and> dm_routes m = dm_routes m'
     \<and> dm_dependencies m = dm_dependencies m'
     \<and> json_value (JObject (dm_configuration m)) = json_value (JObject (dm_configuration m'))"
proof -
  have k: "json_value (kind_json a) = json_value (kind_json b) \<longleftrightarrow> a = b" for a b
    by (cases a; cases b) (simp_all add: kind_json_def)
  have r: "inj (\<lambda>r :: route. json_value (route_json r))"
    by (rule injI) (simp add: route_json_def route.equality)
  have c: "inj (\<lambda>x :: string \<times> component_dependency. (fst x, json_value (component_dependency_json (snd x))))"
    by (rule injI) (auto simp: component_dependency_json_def prod_eq_iff component_dependency.equality)
  have j: "inj (\<lambda>s. json_value (JString s))" by (rule injI) simp
  have d: "json_value (dependencies_json a) = json_value (dependencies_json b) \<longleftrightarrow> a = b" for a b
    using inj_map_eq_map [OF c] inj_map_eq_map [OF j]
    by (auto simp: dependencies_json_def comp_def case_prod_unfold apsnd_def map_prod_def intro: dependencies.equality)
  show ?thesis
    using inj_map_eq_map [OF r] by (auto simp: payload_value_def k d comp_def)
qed

section \<open>Paths\<close>

text \<open>
  What is relied on of \<open>Path::from\<close>: it splits at slashes, drops empty segments and encodes
  each segment reversibly, so two strings give one path exactly when they have the same
  non-empty segments.
\<close>

definition path_segments :: "string \<Rightarrow> string list" where
  "path_segments s = filter (\<lambda>p. p \<noteq> []) (split_char (CHR ''/'') s)"

definition path_laws :: "(string \<Rightarrow> 'p) \<Rightarrow> bool" where
  "path_laws path_from \<longleftrightarrow> (\<forall>a b. path_from a = path_from b \<longleftrightarrow> path_segments a = path_segments b)"

lemma check_segments_ok: "check_segments key ps = Inr () \<longleftrightarrow> (\<forall>p \<in> set ps. p \<notin> {[], ''.'', ''..''})"
  by (induction ps) auto

lemma validate_key_ok:
  "validate_key key = Inr () \<Longrightarrow> key \<noteq> [] \<and> \<not> has_control key \<and> CHR 0x5C \<notin> set key
     \<and> (\<forall>p \<in> set (split_char (CHR ''/'') key). p \<notin> {[], ''.'', ''..''})"
  by (auto simp: validate_key_def check_segments_ok split: if_splits)

lemma path_segments_valid: "validate_key key = Inr () \<Longrightarrow> path_segments key = split_char (CHR ''/'') key"
  by (auto simp: path_segments_def dest!: validate_key_ok intro!: filter_True)

lemma path_segments_cons:
  "CHR ''/'' \<notin> set p \<Longrightarrow> p \<noteq> [] \<Longrightarrow> path_segments (p @ CHR ''/'' # s) = p # path_segments s"
  by (simp add: path_segments_def split_char_append)

lemma split_char_inj: "split_char c a = split_char c b \<longleftrightarrow> a = b"
  by (metis join_split_char)

lemma valid_tenant_segment: "is_valid_principal t \<Longrightarrow> CHR ''/'' \<notin> set t \<and> t \<noteq> []"
  by (auto simp: is_valid_principal_def principal_byte_def is_ascii_alphanumeric_def is_ascii_digit_def
      is_ascii_upper_def is_ascii_lower_def list_all_iff)

lemma tenant_path_segments:
  assumes "is_valid_principal (tenant_str (ctx_tenant_id ctx))" and "CHR ''/'' \<notin> set area" and "area \<noteq> []"
  shows "path_segments (st_prefix (RegistryStorage_new ctx) @ area @ CHR ''/'' # rest)
    = ''tenants'' # tenant_str (ctx_tenant_id ctx) # area # path_segments rest"
  using path_segments_cons [of "''tenants''" "tenant_str (ctx_tenant_id ctx) @ CHR ''/'' # area @ CHR ''/'' # rest"]
    path_segments_cons [of "tenant_str (ctx_tenant_id ctx)" "area @ CHR ''/'' # rest"]
    path_segments_cons [OF assms(2,3), of rest] valid_tenant_segment [OF assms(1)]
  by (simp add: RegistryStorage_new_def)

lemma artifact_segments:
  assumes "is_valid_principal (tenant_str (ctx_tenant_id c))" and "validate_key k = Inr ()"
  shows "path_segments (st_prefix (RegistryStorage_new c) @ ''artifacts/'' @ k)
    = ''tenants'' # tenant_str (ctx_tenant_id c) # ''artifacts'' # split_char (CHR ''/'') k"
  using tenant_path_segments [OF assms(1), of "''artifacts''" k] path_segments_valid [OF assms(2)] by simp

lemma artifact_path_eq:
  assumes "path_laws (re_path_from E)"
    and "is_valid_principal (tenant_str (ctx_tenant_id c1))" and "is_valid_principal (tenant_str (ctx_tenant_id c2))"
    and "validate_key k1 = Inr ()" and "validate_key k2 = Inr ()"
  shows "artifact_path E (RegistryStorage_new c1) k1 = artifact_path E (RegistryStorage_new c2) k2
    \<longleftrightarrow> ctx_tenant_id c1 = ctx_tenant_id c2 \<and> k1 = k2"
  using assms(1) artifact_segments [OF assms(2,4)] artifact_segments [OF assms(3,5)]
  by (auto simp: path_laws_def artifact_path_def split_char_inj intro: tenant_id.expand)

lemma manifest_not_artifact:
  assumes "path_laws (re_path_from E)"
    and "is_valid_principal (tenant_str (ctx_tenant_id c1))" and "is_valid_principal (tenant_str (ctx_tenant_id c2))"
  shows "manifest_path E (RegistryStorage_new c1) i v \<noteq> artifact_path E (RegistryStorage_new c2) k"
  using assms(1) tenant_path_segments [OF assms(2), of "''manifests''" "i @ ''/'' @ v @ ''/manifest.json''"]
    tenant_path_segments [OF assms(3), of "''artifacts''" k]
  by (auto simp: path_laws_def artifact_path_def manifest_path_def)

section \<open>Properties\<close>

text \<open>What is relied on of the object store: a completed write is read back, and touches nothing else.\<close>

definition object_store_laws :: "('s, 'p) object_store \<Rightarrow> bool" where
  "object_store_laws S \<longleftrightarrow>
     (\<forall>p d s s'. os_put S p d s = (s', Inr ()) \<longrightarrow>
        os_get S p s' = Inr (length d, Inr d) \<and> (\<forall>p'. p' \<noteq> p \<longrightarrow> os_get S p' s' = os_get S p' s))"

definition map_object_store :: "('p \<rightharpoonup> string, 'p) object_store" where
  "map_object_store = \<lparr>os_put = (\<lambda>p d s. (s(p \<mapsto> d), Inr ())),
     os_get = (\<lambda>p s. case s p of Some d \<Rightarrow> Inr (length d, Inr d) | None \<Rightarrow> Inl OsNotFound)\<rparr>"

lemma map_object_store_laws: "object_store_laws map_object_store"
  by (simp add: object_store_laws_def map_object_store_def)

lemma save_artifact_Inr:
  assumes "save_artifact E S st k d s = (s', Inr x)"
  shows "validate_key k = Inr ()" and "length d \<le> ARTIFACT_MAX_BYTES" and "x = re_sha384_hex E d"
    and "os_put S (artifact_path E st k) d s = (s', Inr ())"
  using assms by (auto simp: save_artifact_def Let_def split: sum.splits if_splits prod.splits)

text \<open>
  an artifact that was saved is read back under the digest that saving
  returned, and saving touches nothing else: artifacts under another key, artifacts and
  manifests of every tenant, read as before.
\<close>

theorem artifact_round_trip:
  assumes "path_laws (re_path_from E)" and "object_store_laws S"
    and "is_valid_principal (tenant_str (ctx_tenant_id c1))" and "is_valid_principal (tenant_str (ctx_tenant_id c2))"
    and "save_artifact E S (RegistryStorage_new c1) k d s = (s', Inr x)"
  shows "get_artifact E S (RegistryStorage_new c1) k (Some x) s' = Inr d
    \<and> (ctx_tenant_id c2 \<noteq> ctx_tenant_id c1 \<or> k2 \<noteq> k \<longrightarrow>
         get_artifact E S (RegistryStorage_new c2) k2 y s' = get_artifact E S (RegistryStorage_new c2) k2 y s)
    \<and> get_manifest E S (RegistryStorage_new c2) clock i v s' = get_manifest E S (RegistryStorage_new c2) clock i v s"
proof -
  note saved = save_artifact_Inr [OF assms(5)]
  have put: "os_get S (artifact_path E (RegistryStorage_new c1) k) s' = Inr (length d, Inr d)"
      "\<And>p. p \<noteq> artifact_path E (RegistryStorage_new c1) k \<Longrightarrow> os_get S p s' = os_get S p s"
    using assms(2) saved(4) unfolding object_store_laws_def by blast+
  have "get_artifact E S (RegistryStorage_new c1) k (Some x) s' = Inr d"
    using put(1) saved by (simp add: get_artifact_def)
  moreover have "get_artifact E S (RegistryStorage_new c2) k2 y s' = get_artifact E S (RegistryStorage_new c2) k2 y s"
    if "ctx_tenant_id c2 \<noteq> ctx_tenant_id c1 \<or> k2 \<noteq> k"
    using that put(2) [of "artifact_path E (RegistryStorage_new c2) k2"]
      artifact_path_eq [OF assms(1,4,3) _ saved(1), of k2]
    by (cases "validate_key k2") (auto simp: get_artifact_def)
  moreover have "get_manifest E S (RegistryStorage_new c2) clock i v s' = get_manifest E S (RegistryStorage_new c2) clock i v s"
    using put(2) [OF manifest_not_artifact [OF assms(1,4,3)]] by (simp add: get_manifest_def)
  ultimately show ?thesis by blast
qed

definition sample_registry_env :: "string list registry_env" where
  "sample_registry_env = \<lparr>re_sig = sample_sig_env, re_sha384_hex = id, re_to_vec = (\<lambda>_. ''{}''),
     re_manifest_to_vec = (\<lambda>_. ''{}''), re_manifest_from_slice = (\<lambda>_. Inl ''unused''), re_path_from = path_segments,
     re_lookup = (\<lambda>_ _. Inr sample_trusted_key), re_trust_root_version = ''1''\<rparr>"

theorem artifact_round_trip_witness:
  "get_artifact sample_registry_env map_object_store (RegistryStorage_new (TenantContext_new (TenantId ''t1'') None :: unit tenant_context))
     ''app.wasm'' (Some ''code'')
     (Map.empty([''tenants'', ''t1'', ''artifacts'', ''app.wasm''] \<mapsto> ''code'')) = Inr ''code''"
proof -
  let ?ctx = "TenantContext_new (TenantId ''t1'') None :: unit tenant_context"
    and ?s' = "Map.empty([''tenants'', ''t1'', ''artifacts'', ''app.wasm''] \<mapsto> ''code'')"
  have v: "is_valid_principal (tenant_str (ctx_tenant_id ?ctx))" by (simp add: TenantContext_new_def) code_simp
  have key: "validate_key ''app.wasm'' = Inr ()" by code_simp
  have p: "path_segments ''tenants/t1/artifacts/app.wasm'' = [''tenants'', ''t1'', ''artifacts'', ''app.wasm'']" by code_simp
  have "save_artifact sample_registry_env map_object_store (RegistryStorage_new ?ctx) ''app.wasm'' ''code'' Map.empty
      = (?s', Inr ''code'')"
    using p key
    by (simp add: save_artifact_def artifact_path_def RegistryStorage_new_def TenantContext_new_def sample_registry_env_def
        map_object_store_def ARTIFACT_MAX_BYTES_def)
  from artifact_round_trip [OF _ map_object_store_laws v v this] show ?thesis
    by (simp add: path_laws_def sample_registry_env_def)
qed

text \<open>
  The digest of a manifest covers everything but the security section,
  and only up to the representation of numbers: two manifests have the same digest exactly
  when all their fields agree and their configurations are equal as JSON values (1 and 1.0
  are the same), as long as neither the JSON writer nor SHA-384 confuses the two payloads.
\<close>

theorem manifest_digest_exact:
  assumes "inj_on (\<lambda>v. re_sha384_hex E (re_to_vec E v)) {normalize_value (payload_value m), normalize_value (payload_value m')}"
  shows "manifest_payload_digest E m = manifest_payload_digest E m' \<longleftrightarrow>
     dm_schema_version m = dm_schema_version m' \<and> dm_id m = dm_id m' \<and> dm_version m = dm_version m'
     \<and> dm_kind m = dm_kind m' \<and> dm_name m = dm_name m' \<and> dm_protected m = dm_protected m'
     \<and> dm_composition_root m = dm_composition_root m' \<and> dm_routes m = dm_routes m'
     \<and> dm_dependencies m = dm_dependencies m'
     \<and> json_value (JObject (dm_configuration m)) = json_value (JObject (dm_configuration m'))"
proof -
  have "manifest_payload_digest E m = manifest_payload_digest E m'
      \<longleftrightarrow> normalize_value (payload_value m) = normalize_value (payload_value m')"
    using inj_onD [OF assms] by (auto simp: manifest_payload_digest_def)
  then show ?thesis by (simp only: normalize_value_eq json_value_payload)
qed

definition sample_manifest :: "json_number \<Rightarrow> dist_manifest" where
  "sample_manifest n = \<lparr>dm_schema_version = ''1'', dm_id = ''app'', dm_version = ''1.0'', dm_kind = Component, dm_name = ''App'',
     dm_protected = False, dm_composition_root = ''root'', dm_routes = [],
     dm_dependencies = \<lparr>dp_components = [], dp_permissions = []\<rparr>, dm_configuration = [(''limit'', JNumber n)],
     dm_security = \<lparr>sec_manifest_digest = [], sec_manifest_signature = ''00'', sec_manifest_signature_kid = ''k1'',
       sec_trust_root_version = ''1''\<rparr>\<rparr>"

theorem manifest_digest_exact_witness:
  "manifest_payload_digest sample_registry_env (sample_manifest (Float 5)) = manifest_payload_digest sample_registry_env (sample_manifest (PosInt 5))
   \<and> sample_manifest (Float 5) \<noteq> sample_manifest (PosInt 5)"
proof -
  have "json_value (payload_value (sample_manifest (Float 5))) = json_value (payload_value (sample_manifest (PosInt 5)))"
    by (simp add: payload_value_def sample_manifest_def)
  then have "normalize_value (payload_value (sample_manifest (Float 5))) = normalize_value (payload_value (sample_manifest (PosInt 5)))"
    by (simp only: normalize_value_eq)
  then show ?thesis
    using manifest_digest_exact [of sample_registry_env "sample_manifest (Float 5)" "sample_manifest (PosInt 5)"]
    by (simp add: sample_manifest_def)
qed

lemma verify_canonical_Inr:
  assumes "verify_and_canonicalize_manifest E clock m = Inr m'"
  obtains now k where "clock = Inr now" and "re_lookup E (sec_manifest_signature_kid (dm_security m)) now = Inr k"
    and "m' = m\<lparr>dm_security := (dm_security m)\<lparr>sec_manifest_digest := ''sha384-'' @ manifest_payload_digest E m\<rparr>\<rparr>"
    and "sec_trust_root_version (dm_security m) = re_trust_root_version E"
    and "verify_manifest (re_sig E) \<lparr>mf_id = dm_id m, mf_digest = ''sha384-'' @ manifest_payload_digest E m,
           mf_signature = sec_manifest_signature (dm_security m), mf_kid = sec_manifest_signature_kid (dm_security m)\<rparr>
         k (''sha384-'' @ manifest_payload_digest E m) now = VOk"
proof -
  have "normalize_digest (sec_manifest_digest (dm_security m)) = ''sha384-'' @ manifest_payload_digest E m"
    using assms by (auto simp: verify_and_canonicalize_manifest_def Let_def split: if_splits)
  then show ?thesis
    using assms that
    by (auto simp: verify_and_canonicalize_manifest_def Let_def and_then_Inr split: if_splits sum.splits)
qed

lemma payload_value_security [simp]: "payload_value (m\<lparr>dm_security := x\<rparr>) = payload_value m"
  by (simp add: payload_value_def)

lemma digest_security [simp]: "manifest_payload_digest E (m\<lparr>dm_security := x\<rparr>) = manifest_payload_digest E m"
  by (simp add: manifest_payload_digest_def)

text \<open>
  C15 (safety): only authentic manifests leave the storage. When \<open>get_manifest\<close> succeeds
  over a file trust root, the manifest's digest is that of its payload, its signature over
  the digest verifies under a public key that the trust troot holds under the manifest's key
  id, and that key is neither revoked nor outside its validity window at the time of the
  call.
\<close>

theorem manifests_are_authentic:
  assumes "re_lookup E = get_key_at (re_sig E) troot" and "get_manifest E S st clock i v s = Inr m"
  shows "\<exists>now key pk sig. clock = Inr now
    \<and> find (\<lambda>k. trk_kid k = sec_manifest_signature_kid (dm_security m)) (tr_keys troot) = Some key
    \<and> trk_status key \<in> {''active'', ''next'', ''retired''} \<and> window_check key now = Inr ()
    \<and> sc_decode (re_sig E) 32 (trk_public_key key) = Inr pk
    \<and> sc_decode (re_sig E) 64 (sec_manifest_signature (dm_security m)) = Inr sig
    \<and> sc_verify (re_sig E) pk (sec_manifest_digest (dm_security m)) sig
    \<and> sec_manifest_digest (dm_security m) = ''sha384-'' @ manifest_payload_digest E m"
proof -
  obtain m0 where "verify_and_canonicalize_manifest E clock m0 = Inr m"
    using assms(2) by (auto simp: get_manifest_def and_then_Inr split: sum.splits os_error.splits prod.splits)
  then obtain now k where f: "clock = Inr now" "get_key_at (re_sig E) troot (sec_manifest_signature_kid (dm_security m)) now = Inr k"
      "sec_manifest_digest (dm_security m) = ''sha384-'' @ manifest_payload_digest E m"
      "check_signature (re_sig E) \<lparr>mf_id = dm_id m, mf_digest = sec_manifest_digest (dm_security m),
         mf_signature = sec_manifest_signature (dm_security m), mf_kid = sec_manifest_signature_kid (dm_security m)\<rparr> k = VOk"
    by (elim verify_canonical_Inr) (auto simp: assms(1) verify_manifest_ok check_signature_ok)
  from get_key_at_Inr [OF f(2)] obtain key
    where "find (\<lambda>k. trk_kid k = sec_manifest_signature_kid (dm_security m)) (tr_keys troot) = Some key"
      "parse_key_status key = Inr (tk_status k)" "sc_decode (re_sig E) 32 (trk_public_key key) = Inr (tk_public_key k)"
      "window_check key now = Inr ()" by metis
  then show ?thesis
    using f parse_key_status_Inr [of key "tk_status k"] by (fastforce simp: check_signature_ok)
qed

definition sample_trust_root :: trust_root where
  "sample_trust_root = \<lparr>tr_version = ''1'', tr_generated_at = ''today'', tr_keys = [\<lparr>trk_kid = ''k1'', trk_alg = ''Ed25519'',
     trk_public_key = ''00'', trk_status = ''active'', trk_retired_at = None, trk_not_before = Some 10, trk_not_after = None\<rparr>]\<rparr>"

text \<open>A store codec that keeps one manifest, and the environment that trusts the sample root.\<close>

definition sample_signed :: dist_manifest where
  "sample_signed = (sample_manifest (PosInt 5))\<lparr>dm_security := (dm_security (sample_manifest (PosInt 5)))
     \<lparr>sec_manifest_digest := ''sha384-{}''\<rparr>\<rparr>"

definition sample_trusting_env :: "string list registry_env" where
  "sample_trusting_env = sample_registry_env\<lparr>re_lookup := get_key_at sample_sig_env sample_trust_root,
     re_manifest_from_slice := (\<lambda>_. Inr sample_signed)\<rparr>"

definition sample_root_key :: trusted_key where
  "sample_root_key = \<lparr>tk_kid = ''k1'', tk_alg = ''Ed25519'', tk_status = KActive, tk_retired_at = None,
     tk_not_before = Some 10, tk_not_after = None, tk_public_key = replicate 32 0\<rparr>"

lemma sample_lookup: "get_key_at sample_sig_env sample_trust_root ''k1'' 20 = Inr sample_root_key"
proof -
  have n: "\<not> not_yet_valid (Some 10) 20" "\<not> past_expiry None 20"
    by (simp_all add: not_yet_valid_nat past_expiry_def)
  show ?thesis
    by (simp add: get_key_at_def sample_trust_root_def parse_key_status_def window_check_def n sample_sig_env_def
        sample_root_key_def)
qed

lemma sample_signature_ok:
  "verify_manifest sample_sig_env \<lparr>mf_id = ''app'', mf_digest = ''sha384-{}'', mf_signature = ''00'', mf_kid = ''k1''\<rparr>
     sample_root_key ''sha384-{}'' 20 = VOk"
proof -
  have a: "eq_ignore_ascii_case (trim ''Ed25519'') ''ed25519''" by (rule ed25519_name)
  then have a': "eq_ignore_ascii_case (trim (tk_alg sample_root_key)) ''ed25519''" by (simp add: sample_root_key_def)
  have u: "key_usable sample_root_key (unat (20 :: u64))" by (simp add: key_usable_def sample_root_key_def)
  have "starts_with ''sha384-{}'' ''sha384-''" "tk_kid sample_root_key = ''k1''"
    by (simp_all add: starts_with_def sample_root_key_def)
  with a' u show ?thesis unfolding verify_manifest_ok by (simp add: sample_sig_env_def)
qed

lemma sample_verifies: "verify_and_canonicalize_manifest sample_trusting_env (Inr 20) sample_signed = Inr sample_signed"
proof -
  have t: "trim ''00'' = ''00''" "trim ''k1'' = ''k1''" "trim ''1'' = ''1''" "trim ''sha384-{}'' = ''sha384-{}''"
    by (simp_all add: trim_plain ascii_graph_def)
  have d: "manifest_payload_digest sample_trusting_env sample_signed = ''{}''" "normalize_digest ''sha384-{}'' = ''sha384-{}''"
    "re_trust_root_version sample_trusting_env = ''1''" "re_sig sample_trusting_env = sample_sig_env"
    "re_lookup sample_trusting_env = get_key_at sample_sig_env sample_trust_root"
    subgoal by (simp add: manifest_payload_digest_def sample_trusting_env_def sample_registry_env_def)
    subgoal by (simp add: normalize_digest_def starts_with_def)
    subgoal by (simp add: sample_trusting_env_def sample_registry_env_def)
    subgoal by (simp add: sample_trusting_env_def sample_registry_env_def)
    subgoal by (simp add: sample_trusting_env_def sample_registry_env_def)
    done
  have m: "dm_security sample_signed = \<lparr>sec_manifest_digest = ''sha384-{}'', sec_manifest_signature = ''00'',
      sec_manifest_signature_kid = ''k1'', sec_trust_root_version = ''1''\<rparr>" "dm_id sample_signed = ''app''"
    by (simp_all add: sample_signed_def sample_manifest_def)
  have "sample_signed\<lparr>dm_security := dm_security sample_signed\<rparr> = sample_signed" by simp
  then show ?thesis
    by (simp add: verify_and_canonicalize_manifest_def Let_def m t d sample_lookup sample_signature_ok)
qed

lemma sample_paths: "validate_key ''app'' = Inr ()" "validate_key ''1.0'' = Inr ()"
  "path_segments ''tenants/t1/manifests/app/1.0/manifest.json'' = [''tenants'', ''t1'', ''manifests'', ''app'', ''1.0'', ''manifest.json'']"
  by code_simp+

theorem manifests_are_authentic_witness:
  "\<exists>now key pk sig. Inr 20 = (Inr now :: string + u64)
    \<and> find (\<lambda>k. trk_kid k = ''k1'') (tr_keys sample_trust_root) = Some key
    \<and> sc_verify sample_sig_env pk ''sha384-{}'' sig \<and> window_check key now = Inr ()"
proof -
  let ?st = "RegistryStorage_new (TenantContext_new (TenantId ''t1'') None :: unit tenant_context)"
    and ?s = "Map.empty([''tenants'', ''t1'', ''manifests'', ''app'', ''1.0'', ''manifest.json''] \<mapsto> ''{}'')"
  have g: "get_manifest sample_trusting_env map_object_store ?st (Inr 20) ''app'' ''1.0'' ?s = Inr sample_signed"
    using sample_verifies sample_paths
    by (simp add: get_manifest_def manifest_path_def RegistryStorage_new_def TenantContext_new_def map_object_store_def)
      (simp add: sample_trusting_env_def sample_registry_env_def)
  have l: "re_lookup sample_trusting_env = get_key_at (re_sig sample_trusting_env) sample_trust_root"
    by (simp add: sample_trusting_env_def sample_registry_env_def)
  from manifests_are_authentic [OF l g] show ?thesis
    by (fastforce simp: sample_trusting_env_def sample_registry_env_def sample_signed_def sample_manifest_def)
qed

lemma save_manifest_Inr:
  assumes "save_manifest E S st clock m s = (s', Inr (d, m'))"
  shows "validate_key (dm_id m) = Inr ()" and "validate_key (dm_version m) = Inr ()"
    and "verify_and_canonicalize_manifest E clock m' = Inr m'"
    and "m' = m\<lparr>dm_security := (dm_security m)\<lparr>sec_manifest_digest := d\<rparr>\<rparr>" and "d = ''sha384-'' @ manifest_payload_digest E m"
    and "os_put S (manifest_path E st (dm_id m) (dm_version m)) (re_manifest_to_vec E m') s = (s', Inr ())"
proof -
  let ?m = "m\<lparr>dm_security := (dm_security m)\<lparr>sec_manifest_digest := ''sha384-'' @ manifest_payload_digest E m\<rparr>\<rparr>"
  have v: "validate_key (dm_id m) = Inr ()" "validate_key (dm_version m) = Inr ()"
      "verify_and_canonicalize_manifest E clock ?m = Inr m'" "d = ''sha384-'' @ manifest_payload_digest E m"
      "os_put S (manifest_path E st (dm_id m') (dm_version m')) (re_manifest_to_vec E m') s = (s', Inr ())"
    using assms by (auto simp: save_manifest_def Let_def and_then_Inr split: sum.splits if_splits prod.splits)
  then have "m' = ?m" by (elim verify_canonical_Inr) simp
  with v show "validate_key (dm_id m) = Inr ()" "validate_key (dm_version m) = Inr ()"
    "verify_and_canonicalize_manifest E clock m' = Inr m'" "m' = m\<lparr>dm_security := (dm_security m)\<lparr>sec_manifest_digest := d\<rparr>\<rparr>"
    "d = ''sha384-'' @ manifest_payload_digest E m"
    "os_put S (manifest_path E st (dm_id m) (dm_version m)) (re_manifest_to_vec E m') s = (s', Inr ())"
    by simp_all
qed

text \<open>
  A manifest that was saved is returned by \<open>get_manifest\<close> with the same
  payload and the digest that saving computed, at once and, as long as its key verifies at
  the later time, unchanged.
\<close>

theorem manifest_round_trip:
  assumes "object_store_laws S" and "re_manifest_from_slice E (re_manifest_to_vec E m') = Inr m'"
    and "save_manifest E S st clock m s = (s', Inr (d, m'))"
  shows "get_manifest E S st clock (dm_id m) (dm_version m) s' = Inr m'
    \<and> m' = m\<lparr>dm_security := (dm_security m)\<lparr>sec_manifest_digest := d\<rparr>\<rparr>
    \<and> (\<forall>later m''. get_manifest E S st later (dm_id m) (dm_version m) s' = Inr m'' \<longrightarrow> m'' = m')"
proof -
  note saved = save_manifest_Inr [OF assms(3)]
  have "os_get S (manifest_path E st (dm_id m) (dm_version m)) s'
      = Inr (length (re_manifest_to_vec E m'), Inr (re_manifest_to_vec E m'))"
    using assms(1) saved(6) unfolding object_store_laws_def by blast
  then have get: "get_manifest E S st later (dm_id m) (dm_version m) s' = verify_and_canonicalize_manifest E later m'" for later
    using saved(1,2) assms(2) by (simp add: get_manifest_def)
  have "m'' = m'" if "verify_and_canonicalize_manifest E later m' = Inr m''" for later m''
    using that saved(4,5) by (elim verify_canonical_Inr) simp
  then show ?thesis using get saved(3,4) by (intro conjI allI impI) simp_all
qed

theorem manifest_round_trip_witness:
  "\<exists>s'. get_manifest sample_trusting_env map_object_store
      (RegistryStorage_new (TenantContext_new (TenantId ''t1'') None :: unit tenant_context)) (Inr 20) ''app'' ''1.0'' s' = Inr sample_signed"
proof -
  let ?st = "RegistryStorage_new (TenantContext_new (TenantId ''t1'') None :: unit tenant_context)"
  have d: "manifest_payload_digest sample_trusting_env sample_signed = ''{}''"
    by (simp add: manifest_payload_digest_def sample_trusting_env_def sample_registry_env_def)
  have i: "sample_signed\<lparr>dm_security := (dm_security sample_signed)\<lparr>sec_manifest_digest := ''sha384-{}''\<rparr>\<rparr> = sample_signed"
    "dm_id sample_signed = ''app''" "dm_version sample_signed = ''1.0''" "sec_manifest_digest (dm_security sample_signed) = ''sha384-{}''"
    by (simp_all add: sample_signed_def sample_manifest_def)
  have "\<exists>s'. save_manifest sample_trusting_env map_object_store ?st (Inr 20) sample_signed Map.empty
      = (s', Inr (''sha384-{}'', sample_signed))"
    using sample_verifies sample_paths
    by (simp add: save_manifest_def d i normalize_digest_def starts_with_def map_object_store_def)
  then obtain s' where sv: "save_manifest sample_trusting_env map_object_store ?st (Inr 20) sample_signed Map.empty
      = (s', Inr (''sha384-{}'', sample_signed))" ..
  from manifest_round_trip [OF map_object_store_laws _ sv] show ?thesis
    by (auto simp: i sample_trusting_env_def)
qed

text \<open>
  identifiers that contain a slash are ambiguous. The path of the manifest
  \<open>a/b\<close> in version \<open>c\<close> is that of the manifest \<open>a\<close> in version \<open>b/c\<close>, both pass validation,
  and \<open>get_manifest\<close> does not compare the manifest it finds with the one asked for: asked
  for the second it returns the first.
\<close>

theorem manifest_identity_not_checked:
  assumes "get_manifest E S st clock (a @ ''/'' @ b) c s = Inr m"
    and "validate_key a = Inr ()" and "validate_key (b @ ''/'' @ c) = Inr ()"
  shows "get_manifest E S st clock a (b @ ''/'' @ c) s = Inr m"
  using assms by (auto simp: get_manifest_def manifest_path_def and_then_Inr split: sum.splits os_error.splits prod.splits)

theorem manifest_identity_not_checked_witness:
  "\<exists>s m. get_manifest sample_trusting_env map_object_store
      (RegistryStorage_new (TenantContext_new (TenantId ''t1'') None :: unit tenant_context)) (Inr 20) ''a'' ''b/c'' s = Inr m
    \<and> (dm_id m, dm_version m) \<noteq> (''a'', ''b/c'')"
proof -
  let ?st = "RegistryStorage_new (TenantContext_new (TenantId ''t1'') None :: unit tenant_context)"
    and ?s = "Map.empty([''tenants'', ''t1'', ''manifests'', ''a'', ''b'', ''c'', ''manifest.json''] \<mapsto> ''{}'')"
  have v: "validate_key ''a'' = Inr ()" "validate_key ''a/b'' = Inr ()" "validate_key ''c'' = Inr ()" "validate_key ''b/c'' = Inr ()"
    "path_segments ''tenants/t1/manifests/a/b/c/manifest.json'' = [''tenants'', ''t1'', ''manifests'', ''a'', ''b'', ''c'', ''manifest.json'']"
    by code_simp+
  have "get_manifest sample_trusting_env map_object_store ?st (Inr 20) (''a'' @ ''/'' @ ''b'') ''c'' ?s = Inr sample_signed"
    using sample_verifies v
    by (simp add: get_manifest_def manifest_path_def RegistryStorage_new_def TenantContext_new_def map_object_store_def)
      (simp add: sample_trusting_env_def sample_registry_env_def)
  from manifest_identity_not_checked [OF this v(1)] v(4)
  have "get_manifest sample_trusting_env map_object_store ?st (Inr 20) ''a'' ''b/c'' ?s = Inr sample_signed" by simp
  then show ?thesis by (intro exI [of _ ?s] exI [of _ sample_signed]) (simp add: sample_signed_def sample_manifest_def)
qed

end
