(* ===== verification/Api_Auth.thy ===== *)
theory Api_Auth
  imports Http_Types
begin

text \<open>
  Request authentication, \<open>kernel-api/src/auth.rs\<close>: the PASETO keyset and how it is read
  from the environment, the bounded overlay of keys revoked at run time with the task that
  feeds it, token verification and the authentication middleware of a build without the
  development features.

  The process-wide cells (\<open>OnceLock\<close>, the lock around the overlay, the saturation flag)
  are the record \<open>auth_globals\<close>, passed and returned. The environment is a function from
  variable names to values, read again wherever the code reads it. A \<open>HashSet\<close> is a list
  without repetition in its iteration order, which is arbitrary: \<open>pe_hash_order\<close> rearranges
  it. Base64, RFC 3339, the JSON readers of the footer and of the claims and the signature
  check of rusty_paseto are the other fields of \<open>paseto_env\<close>; byte strings are strings.
\<close>

section \<open>Definitions\<close>

datatype auth_error = AuthUnauthorized | AuthForbidden

record paseto_claims =
  pc_tenant_id :: string
  pc_user_id :: "string option"
  pc_exp :: string
  pc_nbf :: "string option"

text \<open>
  \<open>pe_parse key footer token\<close> is the payload of a token whose signature is good for the key
  and whose footer is the one given. An \<open>i64\<close> time stamp is a 64-bit word read with \<open>sint\<close>.
\<close>

record 'v paseto_env =
  pe_b64url :: "string \<Rightarrow> string option"
  pe_footer_kid :: "string \<Rightarrow> string option"
  pe_parse :: "string \<Rightarrow> string \<Rightarrow> string \<Rightarrow> 'v option"
  pe_claims :: "'v \<Rightarrow> paseto_claims option"
  pe_rfc3339 :: "string \<Rightarrow> u64 option"
  pe_hash_order :: "string list \<Rightarrow> string list"

type_synonym environment = "string \<Rightarrow> string option"

subsection \<open>The revocation overlay\<close>

record bounded_revoked_kids =
  brk_kids :: "string list"
  brk_max_entries :: nat

datatype revoked_kid_insert_outcome = Inserted | AlreadyPresent | CapacityExceeded

definition MAX_DYNAMIC_REVOKED_KIDS :: nat where
  "MAX_DYNAMIC_REVOKED_KIDS = 10000"

definition MAX_KID_BYTES :: nat where
  "MAX_KID_BYTES = 128"

definition BoundedRevokedKids_new :: "nat \<Rightarrow> bounded_revoked_kids" where
  "BoundedRevokedKids_new max_entries = \<lparr>brk_kids = [], brk_max_entries = max_entries\<rparr>"

definition brk_contains :: "bounded_revoked_kids \<Rightarrow> string \<Rightarrow> bool" where
  "brk_contains b kid \<longleftrightarrow> kid \<in> set (brk_kids b)"

definition brk_insert :: "string \<Rightarrow> bounded_revoked_kids \<Rightarrow> bounded_revoked_kids \<times> revoked_kid_insert_outcome" where
  "brk_insert kid b =
     (if brk_contains b kid then (b, AlreadyPresent)
      else if length (brk_kids b) \<ge> brk_max_entries b then (b, CapacityExceeded)
      else (b\<lparr>brk_kids := kid # brk_kids b\<rparr>, Inserted))"

subsection \<open>The keyset\<close>

definition quoted :: "string \<Rightarrow> string" where
  "quoted s = CHR 0x27 # s @ [CHR 0x27]"

record paseto_keyset =
  ks_active_kid :: string
  ks_next_kids :: "string list"
  ks_retired_kids :: "string list"
  ks_revoked_kids :: "string list"
  ks_public_keys :: "(string \<times> string) list"

record auth_globals =
  ag_public_key :: "string option"
  ag_keyset :: "paseto_keyset option"
  ag_revoked :: bounded_revoked_kids
  ag_saturated :: bool

definition auth_start :: auth_globals where
  "auth_start = \<lparr>ag_public_key = None, ag_keyset = None,
     ag_revoked = BoundedRevokedKids_new MAX_DYNAMIC_REVOKED_KIDS, ag_saturated = False\<rparr>"

definition kid_byte :: "char \<Rightarrow> bool" where
  "kid_byte b \<longleftrightarrow> is_ascii_alphanumeric b \<or> b = CHR ''-'' \<or> b = CHR ''_''"

definition insert_dynamic_revoked_kid :: "string \<Rightarrow> auth_globals \<Rightarrow> auth_globals" where
  "insert_dynamic_revoked_kid raw_kid g =
     (if ag_saturated g then g
      else if length raw_kid > MAX_KID_BYTES then g
      else (let trimmed = trim raw_kid
            in if trimmed = [] then g
               else if length trimmed > MAX_KID_BYTES then g
               else if \<not> list_all kid_byte trimmed then g
               else (case brk_insert trimmed (ag_revoked g) of
                       (b, CapacityExceeded) \<Rightarrow> g\<lparr>ag_revoked := b, ag_saturated := True\<rparr>
                     | (b, _) \<Rightarrow> g\<lparr>ag_revoked := b\<rparr>)))"

definition is_auth_config_ready :: "auth_globals \<Rightarrow> bool" where
  "is_auth_config_ready g \<longleftrightarrow> ag_public_key g \<noteq> None \<and> ag_keyset g \<noteq> None \<and> \<not> ag_saturated g"

text \<open>One underscore per character that is no ASCII letter or digit: a UTF-8 continuation byte adds nothing.\<close>

definition normalize_byte :: "char \<Rightarrow> string" where
  "normalize_byte b =
     (if is_ascii_alphanumeric b then [to_ascii_upper b]
      else if 128 \<le> (of_char b :: nat) \<and> (of_char b :: nat) < 192 then [] else ''_'')"

definition normalize_kid_for_env :: "string \<Rightarrow> string" where
  "normalize_kid_for_env kid = concat (map normalize_byte kid)"

definition kid_public_key_env_var_name :: "string \<Rightarrow> string" where
  "kid_public_key_env_var_name kid = ''FLEXI_PASETO_V4_PUBLIC_KEY_B64URL_'' @ normalize_kid_for_env kid"

definition decode_public_key_b64url :: "'v paseto_env \<Rightarrow> string \<Rightarrow> string \<Rightarrow> string + string" where
  "decode_public_key_b64url E raw env_key =
     (case pe_b64url E raw of
        None \<Rightarrow> Inl (env_key @ '' must be base64url (no padding) encoded'')
      | Some decoded \<Rightarrow>
          if length decoded \<noteq> 32 then Inl (env_key @ '' must decode to 32-byte Ed25519 public key'')
          else Inr decoded)"

definition parse_kid_csv_env :: "'v paseto_env \<Rightarrow> environment \<Rightarrow> string \<Rightarrow> string list" where
  "parse_kid_csv_env E env key =
     (case env key of
        None \<Rightarrow> []
      | Some raw \<Rightarrow> pe_hash_order E (remdups (filter (\<lambda>s. s \<noteq> []) (map trim (split_char (CHR '','') raw)))))"

definition default_for_single_key :: paseto_keyset where
  "default_for_single_key = \<lparr>ks_active_kid = ''active'', ks_next_kids = [], ks_retired_kids = [],
     ks_revoked_kids = [], ks_public_keys = []\<rparr>"

definition map_insert :: "'k \<Rightarrow> 'a \<Rightarrow> ('k \<times> 'a) list \<Rightarrow> ('k \<times> 'a) list" where
  "map_insert k v m = (k, v) # filter (\<lambda>(k', _). k' \<noteq> k) m"

definition load_key_for_kid :: "'v paseto_env \<Rightarrow> environment \<Rightarrow> string \<Rightarrow> bool \<Rightarrow> paseto_keyset \<Rightarrow> string + paseto_keyset" where
  "load_key_for_kid E env kid required ks =
     (let env_key = kid_public_key_env_var_name kid
      in case env env_key of
           Some value \<Rightarrow>
             and_then (decode_public_key_b64url E value env_key)
               (\<lambda>decoded. Inr (ks\<lparr>ks_public_keys := map_insert kid decoded (ks_public_keys ks)\<rparr>))
         | None \<Rightarrow>
             if required
             then Inl (env_key @ '' is required when kid '' @ quoted kid
                       @ '' is listed in FLEXI_PASETO_V4_NEXT_KIDS or FLEXI_PASETO_V4_RETIRED_KIDS'')
             else Inr ks)"

fun load_required_keys :: "'v paseto_env \<Rightarrow> environment \<Rightarrow> string list \<Rightarrow> paseto_keyset \<Rightarrow> string + paseto_keyset" where
  "load_required_keys E env [] ks = Inr ks"
| "load_required_keys E env (kid # kids) ks =
     and_then (load_key_for_kid E env kid True ks) (load_required_keys E env kids)"

definition load_per_kid_public_keys_from_env :: "'v paseto_env \<Rightarrow> environment \<Rightarrow> paseto_keyset \<Rightarrow> string + paseto_keyset" where
  "load_per_kid_public_keys_from_env E env ks =
     and_then (load_key_for_kid E env (ks_active_kid ks) (ks_active_kid ks \<noteq> ''active'') ks)
       (load_required_keys E env (ks_next_kids ks @ ks_retired_kids ks))"

definition keyset_from_env :: "'v paseto_env \<Rightarrow> environment \<Rightarrow> string option \<Rightarrow> string + paseto_keyset" where
  "keyset_from_env E env default_public_key =
     (let keyset = \<lparr>ks_active_kid = (case env ''FLEXI_PASETO_V4_ACTIVE_KID'' of Some k \<Rightarrow> k | None \<Rightarrow> ''active''),
                    ks_next_kids = parse_kid_csv_env E env ''FLEXI_PASETO_V4_NEXT_KIDS'',
                    ks_retired_kids = parse_kid_csv_env E env ''FLEXI_PASETO_V4_RETIRED_KIDS'',
                    ks_revoked_kids = parse_kid_csv_env E env ''FLEXI_PASETO_V4_REVOKED_KIDS'',
                    ks_public_keys = []\<rparr>
      in load_per_kid_public_keys_from_env E env
           (case default_public_key of
              Some key \<Rightarrow> if ks_active_kid keyset = ''active''
                          then keyset\<lparr>ks_public_keys := map_insert (ks_active_kid keyset) key (ks_public_keys keyset)\<rparr>
                          else keyset
            | None \<Rightarrow> keyset))"

definition public_key_for_kid :: "paseto_keyset \<Rightarrow> string \<Rightarrow> string option" where
  "public_key_for_kid ks kid = map_of (ks_public_keys ks) kid"

definition with_default_public_key :: "paseto_keyset \<Rightarrow> string \<Rightarrow> paseto_keyset" where
  "with_default_public_key ks key =
     ks\<lparr>ks_public_keys := map_insert (ks_active_kid ks) key (ks_public_keys ks)\<rparr>"

text \<open>The loop over the kids: \<open>owner\<close> maps a normalised name to the kid that was seen with it last.\<close>

fun check_normalization :: "(string \<times> string) list \<Rightarrow> string list \<Rightarrow> string + unit" where
  "check_normalization owner [] = Inr ()"
| "check_normalization owner (kid # kids) =
     (let normalized = normalize_kid_for_env kid
      in case map_of owner normalized of
           Some existing \<Rightarrow>
             if existing \<noteq> kid
             then Inl (''kid normalization collision: '' @ quoted existing @ '' and '' @ quoted kid
                       @ '' map to FLEXI_PASETO_V4_PUBLIC_KEY_B64URL_'' @ normalized)
             else check_normalization (map_insert normalized kid owner) kids
         | None \<Rightarrow> check_normalization (map_insert normalized kid owner) kids)"

definition validate_key_material :: "paseto_keyset \<Rightarrow> string + unit" where
  "validate_key_material ks =
     and_then (check_normalization [] (ks_active_kid ks # ks_next_kids ks @ ks_retired_kids ks)) (\<lambda>_.
       if trim (ks_active_kid ks) = [] then Inl ''FLEXI_PASETO_V4_ACTIVE_KID must not be empty''
       else if ks_active_kid ks \<in> set (ks_revoked_kids ks)
       then Inl ''active kid must not be listed in FLEXI_PASETO_V4_REVOKED_KIDS''
       else if ks_active_kid ks \<in> set (ks_next_kids ks) \<or> ks_active_kid ks \<in> set (ks_retired_kids ks)
       then Inl ''active kid must not be included in FLEXI_PASETO_V4_NEXT_KIDS or FLEXI_PASETO_V4_RETIRED_KIDS''
       else if list_ex (\<lambda>kid. kid \<in> set (ks_retired_kids ks)) (ks_next_kids ks)
       then Inl ''same kid must not appear in both FLEXI_PASETO_V4_NEXT_KIDS and FLEXI_PASETO_V4_RETIRED_KIDS''
       else if list_ex (\<lambda>kid. kid \<in> set (ks_next_kids ks)) (ks_revoked_kids ks)
       then Inl ''same kid must not appear in both FLEXI_PASETO_V4_REVOKED_KIDS and FLEXI_PASETO_V4_NEXT_KIDS''
       else if list_ex (\<lambda>kid. kid \<in> set (ks_retired_kids ks)) (ks_revoked_kids ks)
       then Inl ''same kid must not appear in both FLEXI_PASETO_V4_REVOKED_KIDS and FLEXI_PASETO_V4_RETIRED_KIDS''
       else if ks_public_keys ks = [] then Inl ''Auth keyset must include at least one public key''
       else (case find (\<lambda>(_, key). length key \<noteq> 32) (ks_public_keys ks) of
               Some (kid, _) \<Rightarrow> Inl (''Public key for kid '' @ quoted kid @ '' must be 32-byte Ed25519 public key'')
             | None \<Rightarrow> Inr ()))"

definition validate_token_kid :: "paseto_keyset \<Rightarrow> string \<Rightarrow> auth_error + unit" where
  "validate_token_kid ks kid =
     (if kid \<in> set (ks_revoked_kids ks) then Inl AuthUnauthorized
      else if kid = ks_active_kid ks \<or> kid \<in> set (ks_next_kids ks) \<or> kid \<in> set (ks_retired_kids ks)
      then Inr ()
      else Inl AuthUnauthorized)"

subsection \<open>Initialisation\<close>

definition DEFAULT_ACTIVE_KID :: string where
  "DEFAULT_ACTIVE_KID = ''active''"

definition init_decoded :: "string \<Rightarrow> paseto_keyset \<Rightarrow> auth_globals \<Rightarrow> auth_globals \<times> (string + unit)" where
  "init_decoded decoded keyset g =
     (case validate_key_material keyset of
        Inl e \<Rightarrow> (g, Inl e)
      | Inr _ \<Rightarrow>
          if ag_public_key g \<noteq> None then (g, Inl ''Auth config already initialized'')
          else (let g1 = g\<lparr>ag_public_key := Some decoded\<rparr>
                in if ag_keyset g1 \<noteq> None then (g1, Inl ''Auth keyset already initialized'')
                   else (g1\<lparr>ag_keyset := Some keyset\<rparr>, Inr ())))"

definition init_auth_config :: "'v paseto_env \<Rightarrow> environment \<Rightarrow> auth_globals \<Rightarrow> auth_globals \<times> (string + unit)" where
  "init_auth_config E env g =
     (let default_key = (case env ''FLEXI_PASETO_V4_PUBLIC_KEY_B64URL'' of
            Some key_b64 \<Rightarrow> map_sum id Some (decode_public_key_b64url E key_b64 ''FLEXI_PASETO_V4_PUBLIC_KEY_B64URL'')
          | None \<Rightarrow> Inr None)
      in case and_then default_key (keyset_from_env E env) of
           Inl e \<Rightarrow> (g, Inl e)
         | Inr keyset \<Rightarrow>
             (case public_key_for_kid keyset (ks_active_kid keyset) of
                None \<Rightarrow>
                  (g, Inl (''Active key for kid '' @ quoted (ks_active_kid keyset) @ '' failed to load''
                           @ (if ks_active_kid keyset = DEFAULT_ACTIVE_KID
                              then ''. Set FLEXI_PASETO_V4_PUBLIC_KEY_B64URL or FLEXI_PASETO_V4_PUBLIC_KEY_B64URL_ACTIVE''
                              else [])))
              | Some active_key_bytes \<Rightarrow> init_decoded active_key_bytes keyset g))"

definition init_with_public_key_and_keyset :: "'v paseto_env \<Rightarrow> string \<Rightarrow> paseto_keyset \<Rightarrow> auth_globals
    \<Rightarrow> auth_globals \<times> (string + unit)" where
  "init_with_public_key_and_keyset E key keyset g =
     (case decode_public_key_b64url E key ''FLEXI_PASETO_V4_PUBLIC_KEY_B64URL'' of
        Inl e \<Rightarrow> (g, Inl e)
      | Inr decoded \<Rightarrow> init_decoded decoded (with_default_public_key keyset decoded) g)"

definition init_with_public_key_b64url :: "'v paseto_env \<Rightarrow> string \<Rightarrow> auth_globals \<Rightarrow> auth_globals \<times> (string + unit)" where
  "init_with_public_key_b64url E key = init_with_public_key_and_keyset E key default_for_single_key"

definition keyset_for_revoked_kids :: "'v paseto_env \<Rightarrow> string list \<Rightarrow> paseto_keyset" where
  "keyset_for_revoked_kids E revoked_kids =
     default_for_single_key\<lparr>ks_revoked_kids := pe_hash_order E (remdups revoked_kids)\<rparr>"

definition init_with_public_key_and_revoked_kids :: "'v paseto_env \<Rightarrow> string \<Rightarrow> string list \<Rightarrow> auth_globals
    \<Rightarrow> auth_globals \<times> (string + unit)" where
  "init_with_public_key_and_revoked_kids E key revoked_kids =
     init_with_public_key_and_keyset E key (keyset_for_revoked_kids E revoked_kids)"

subsection \<open>Token verification\<close>

definition extract_footer_kid :: "'v paseto_env \<Rightarrow> string \<Rightarrow> auth_error + string \<times> string" where
  "extract_footer_kid E token =
     (case split_char (CHR ''.'') token of
        [version, purpose, _, footer_b64] \<Rightarrow>
          if version \<noteq> ''v4'' \<or> purpose \<noteq> ''public'' then Inl AuthUnauthorized
          else (case pe_b64url E footer_b64 of
                  None \<Rightarrow> Inl AuthUnauthorized
                | Some footer_raw \<Rightarrow>
                    if \<not> is_utf8 (map of_char footer_raw) then Inl AuthUnauthorized
                    else (case pe_footer_kid E footer_raw of
                            None \<Rightarrow> Inl AuthUnauthorized
                          | Some kid \<Rightarrow> if trim kid = [] then Inl AuthUnauthorized else Inr (kid, footer_raw)))
      | _ \<Rightarrow> Inl AuthUnauthorized)"

definition unix_now :: "u64 option \<Rightarrow> u64" where
  "unix_now clock = (case clock of Some s \<Rightarrow> s | None \<Rightarrow> - 1)"

definition validate_claims :: "'v paseto_env \<Rightarrow> u64 option \<Rightarrow> paseto_claims \<Rightarrow> auth_error + 'db tenant_context" where
  "validate_claims E clock claims =
     (case TenantId_new (pc_tenant_id claims) of
        Inl _ \<Rightarrow> Inl AuthForbidden
      | Inr tenant_id \<Rightarrow>
          (case (case pc_user_id claims of
                   None \<Rightarrow> Inr None
                 | Some uid \<Rightarrow> map_sum id Some (UserId_new uid)) of
             Inl _ \<Rightarrow> Inl AuthForbidden
           | Inr user_id \<Rightarrow>
               (let now = unix_now clock
                in and_then
                     (case pc_nbf claims of
                        None \<Rightarrow> Inr ()
                      | Some nbf_str \<Rightarrow>
                          (case pe_rfc3339 E nbf_str of
                             None \<Rightarrow> Inl AuthUnauthorized
                           | Some nbf_ts \<Rightarrow>
                               if sint nbf_ts < 0 then Inl AuthUnauthorized
                               else if now < nbf_ts then Inl AuthUnauthorized else Inr ()))
                     (\<lambda>_. case pe_rfc3339 E (pc_exp claims) of
                            None \<Rightarrow> Inl AuthUnauthorized
                          | Some exp_ts \<Rightarrow>
                              if sint exp_ts < 0 then Inl AuthUnauthorized
                              else if now \<ge> exp_ts then Inl AuthUnauthorized
                              else Inr (TenantContext_new tenant_id user_id)))))"

definition verify_paseto_v4_public_token :: "'v paseto_env \<Rightarrow> u64 option \<Rightarrow> string \<Rightarrow> string \<Rightarrow> string
    \<Rightarrow> auth_error + 'db tenant_context" where
  "verify_paseto_v4_public_token E clock token public_key_bytes footer_raw =
     (if length public_key_bytes \<noteq> 32 then Inl AuthUnauthorized
      else (case pe_parse E public_key_bytes footer_raw token of
              None \<Rightarrow> Inl AuthUnauthorized
            | Some verified_payload \<Rightarrow>
                (case pe_claims E verified_payload of
                   None \<Rightarrow> Inl AuthUnauthorized
                 | Some claims \<Rightarrow> validate_claims E clock claims)))"

definition verify_from_env_token :: "'v paseto_env \<Rightarrow> u64 option \<Rightarrow> auth_globals \<Rightarrow> string
    \<Rightarrow> auth_error + 'db tenant_context" where
  "verify_from_env_token E clock g token =
     (case ag_keyset g of
        None \<Rightarrow> Inl AuthUnauthorized
      | Some keyset \<Rightarrow>
          if ag_saturated g then Inl AuthUnauthorized
          else and_then (extract_footer_kid E token) (\<lambda>(kid, footer_raw).
                 and_then (validate_token_kid keyset kid) (\<lambda>_.
                   if brk_contains (ag_revoked g) kid then Inl AuthUnauthorized
                   else (case public_key_for_kid keyset kid of
                           None \<Rightarrow> Inl AuthUnauthorized
                         | Some key_for_kid \<Rightarrow>
                             verify_paseto_v4_public_token E clock token key_for_kid footer_raw))))"

definition extract_bearer_token :: "string \<Rightarrow> string option" where
  "extract_bearer_token auth_header =
     (case split_once_char (CHR '' '') auth_header of
        None \<Rightarrow> None
      | Some (scheme, token) \<Rightarrow>
          if \<not> eq_ignore_ascii_case scheme ''Bearer'' \<or> token = [] then None else Some token)"

text \<open>
  The middleware's answer: a status, or the extensions with which the request goes on (the
  tenant context with the connection attached and the bearer token).
\<close>

definition auth_middleware :: "'v paseto_env \<Rightarrow> http_env \<Rightarrow> u64 option \<Rightarrow> auth_globals \<Rightarrow> 'db \<Rightarrow> string option
    \<Rightarrow> nat + 'db tenant_context \<times> string" where
  "auth_middleware E H clock g db authorization =
     (case authorization of
        None \<Rightarrow> Inl 401
      | Some header \<Rightarrow>
          (case header_to_str H header of
             None \<Rightarrow> Inl 401
           | Some value \<Rightarrow>
               (case extract_bearer_token value of
                  None \<Rightarrow> Inl 401
                | Some token_part \<Rightarrow>
                    (case verify_from_env_token E clock g token_part of
                       Inr ctx \<Rightarrow> Inr (with_db ctx db, token_part)
                     | Inl AuthUnauthorized \<Rightarrow> Inl 401
                     | Inl AuthForbidden \<Rightarrow> Inl 403))))"

subsection \<open>The revocation listener\<close>

text \<open>
  The task's control state and what can happen next. Every step that reads the environment
  carries the environment of that moment; a message carries its payload, \<open>None\<close> when it is
  not a string.
\<close>

datatype listener_pc = Seeding | Connecting | Subscribing | Streaming | Backoff

datatype listener_event =
    Seed environment
  | Connect environment bool
  | Subscribe environment bool
  | Tick environment
  | Message "string option"
  | StreamClosed
  | BackoffOver

definition poll_env_revocations :: "'v paseto_env \<Rightarrow> environment \<Rightarrow> auth_globals \<Rightarrow> auth_globals" where
  "poll_env_revocations E env g =
     fold insert_dynamic_revoked_kid (parse_kid_csv_env E env ''FLEXI_PASETO_V4_REVOKED_KIDS'') g"

fun listener_step :: "'v paseto_env \<Rightarrow> listener_pc \<times> auth_globals \<Rightarrow> listener_event
    \<Rightarrow> (listener_pc \<times> auth_globals) option" where
  "listener_step E (Seeding, g) (Seed env) = Some (Connecting, poll_env_revocations E env g)"
| "listener_step E (Connecting, g) (Connect env ok) =
     Some (if ok then (Subscribing, g) else (Backoff, poll_env_revocations E env g))"
| "listener_step E (Subscribing, g) (Subscribe env ok) =
     Some (if ok then (Streaming, g) else (Backoff, poll_env_revocations E env g))"
| "listener_step E (Backoff, g) (Tick env) = Some (Backoff, poll_env_revocations E env g)"
| "listener_step E (Backoff, g) BackoffOver = Some (Connecting, g)"
| "listener_step E (Streaming, g) (Tick env) = Some (Streaming, poll_env_revocations E env g)"
| "listener_step E (Streaming, g) (Message payload) =
     Some (Streaming, case payload of Some kid \<Rightarrow> insert_dynamic_revoked_kid kid g | None \<Rightarrow> g)"
| "listener_step E (Streaming, g) StreamClosed = Some (Connecting, g)"
| "listener_step E _ _ = None"

text \<open>The listener and the initialisation functions interleave on the same cells.\<close>

datatype auth_event =
    Listener listener_event
  | Init environment
  | InitKey string
  | InitKeyRevoked string "string list"

fun auth_step :: "'v paseto_env \<Rightarrow> listener_pc \<times> auth_globals \<Rightarrow> auth_event \<Rightarrow> listener_pc \<times> auth_globals \<Rightarrow> bool" where
  "auth_step E s (Listener e) s' \<longleftrightarrow> listener_step E s e = Some s'"
| "auth_step E s (Init env) s' \<longleftrightarrow> s' = (fst s, fst (init_auth_config E env (snd s)))"
| "auth_step E s (InitKey key) s' \<longleftrightarrow> s' = (fst s, fst (init_with_public_key_b64url E key (snd s)))"
| "auth_step E s (InitKeyRevoked key kids) s' \<longleftrightarrow>
     s' = (fst s, fst (init_with_public_key_and_revoked_kids E key kids (snd s)))"

abbreviation auth_reachable :: "'v paseto_env \<Rightarrow> listener_pc \<times> auth_globals \<Rightarrow> bool" where
  "auth_reachable E \<equiv> reachable (\<lambda>s. s = (Seeding, auth_start)) (auth_step E)"

section \<open>The overlay\<close>

definition revocable_kid :: "string \<Rightarrow> bool" where
  "revocable_kid kid \<longleftrightarrow> kid \<noteq> [] \<and> length kid \<le> MAX_KID_BYTES \<and> list_all kid_byte kid"

definition overlay_ok :: "auth_globals \<Rightarrow> bool" where
  "overlay_ok g \<longleftrightarrow>
     distinct (brk_kids (ag_revoked g))
     \<and> length (brk_kids (ag_revoked g)) \<le> MAX_DYNAMIC_REVOKED_KIDS
     \<and> list_all revocable_kid (brk_kids (ag_revoked g))
     \<and> brk_max_entries (ag_revoked g) = MAX_DYNAMIC_REVOKED_KIDS
     \<and> (ag_saturated g \<longrightarrow> length (brk_kids (ag_revoked g)) = MAX_DYNAMIC_REVOKED_KIDS)"

text \<open>No token with this key identifier is accepted any more.\<close>

definition kid_dead :: "string \<Rightarrow> auth_globals \<Rightarrow> bool" where
  "kid_dead kid g \<longleftrightarrow> ag_saturated g \<or> brk_contains (ag_revoked g) kid"

text \<open>The event tells the listener that a key identifier is revoked.\<close>

fun announces :: "'v paseto_env \<Rightarrow> listener_event \<Rightarrow> string \<Rightarrow> bool" where
  "announces E (Message (Some raw)) kid \<longleftrightarrow> trim raw = kid \<and> length raw \<le> MAX_KID_BYTES"
| "announces E (Seed env) kid \<longleftrightarrow> kid \<in> set (parse_kid_csv_env E env ''FLEXI_PASETO_V4_REVOKED_KIDS'')"
| "announces E (Tick env) kid \<longleftrightarrow> kid \<in> set (parse_kid_csv_env E env ''FLEXI_PASETO_V4_REVOKED_KIDS'')"
| "announces E (Connect env False) kid \<longleftrightarrow> kid \<in> set (parse_kid_csv_env E env ''FLEXI_PASETO_V4_REVOKED_KIDS'')"
| "announces E (Subscribe env False) kid \<longleftrightarrow> kid \<in> set (parse_kid_csv_env E env ''FLEXI_PASETO_V4_REVOKED_KIDS'')"
| "announces E _ kid \<longleftrightarrow> False"

lemma insert_dynamic_cases:
  "insert_dynamic_revoked_kid raw g =
     (if ag_saturated g \<or> length raw > MAX_KID_BYTES \<or> \<not> revocable_kid (trim raw) \<or> brk_contains (ag_revoked g) (trim raw) then g
      else if length (brk_kids (ag_revoked g)) \<ge> brk_max_entries (ag_revoked g) then g\<lparr>ag_saturated := True\<rparr>
      else g\<lparr>ag_revoked := (ag_revoked g)\<lparr>brk_kids := trim raw # brk_kids (ag_revoked g)\<rparr>\<rparr>)"
  by (auto simp: insert_dynamic_revoked_kid_def revocable_kid_def brk_insert_def Let_def)

lemma insert_dynamic_keeps:
  "ag_keyset (insert_dynamic_revoked_kid raw g) = ag_keyset g"
  "ag_public_key (insert_dynamic_revoked_kid raw g) = ag_public_key g"
  "overlay_ok g \<Longrightarrow> overlay_ok (insert_dynamic_revoked_kid raw g)"
  "kid_dead kid g \<Longrightarrow> kid_dead kid (insert_dynamic_revoked_kid raw g)"
  by (auto simp: insert_dynamic_cases overlay_ok_def kid_dead_def brk_contains_def)

lemma insert_dynamic_kills:
  "length raw \<le> MAX_KID_BYTES \<Longrightarrow> revocable_kid (trim raw) \<Longrightarrow> kid_dead (trim raw) (insert_dynamic_revoked_kid raw g)"
  by (auto simp: insert_dynamic_cases kid_dead_def brk_contains_def)

lemma fold_insert_keeps:
  "ag_keyset (fold insert_dynamic_revoked_kid kids g) = ag_keyset g"
  "ag_public_key (fold insert_dynamic_revoked_kid kids g) = ag_public_key g"
  "overlay_ok g \<Longrightarrow> overlay_ok (fold insert_dynamic_revoked_kid kids g)"
  "kid_dead kid g \<Longrightarrow> kid_dead kid (fold insert_dynamic_revoked_kid kids g)"
  by (induction kids arbitrary: g) (simp_all add: insert_dynamic_keeps)

lemma kid_byte_graph: "kid_byte c \<Longrightarrow> ascii_graph c"
  by (auto simp: kid_byte_def ascii_graph_def is_ascii_alphanumeric_def is_ascii_digit_def is_ascii_upper_def
      is_ascii_lower_def)

lemma revocable_trim: "revocable_kid kid \<Longrightarrow> trim kid = kid"
  by (rule trim_plain) (auto simp: revocable_kid_def list_all_iff kid_byte_graph)

lemma fold_insert_kills:
  "kid \<in> set kids \<Longrightarrow> revocable_kid kid \<Longrightarrow> kid_dead kid (fold insert_dynamic_revoked_kid kids g)"
proof (induction kids arbitrary: g)
  case (Cons k ks)
  then show ?case
    using insert_dynamic_kills [of kid g] revocable_trim [of kid]
    by (auto simp: fold_insert_keeps revocable_kid_def)
qed simp

lemmas poll_keeps = fold_insert_keeps [folded poll_env_revocations_def]

lemma listener_step_keeps:
  assumes "listener_step E s e = Some s'"
  shows "ag_keyset (snd s') = ag_keyset (snd s)" "overlay_ok (snd s) \<Longrightarrow> overlay_ok (snd s')"
    "kid_dead kid (snd s) \<Longrightarrow> kid_dead kid (snd s')"
  using assms
  by (induction E s e rule: listener_step.induct)
    (auto simp: poll_env_revocations_def fold_insert_keeps insert_dynamic_keeps split: if_splits option.splits)

lemma listener_step_kills:
  assumes "listener_step E s e = Some s'" and "announces E e kid" and "revocable_kid kid"
  shows "kid_dead kid (snd s')"
  using assms
  by (induction E s e rule: listener_step.induct)
    (auto simp: poll_env_revocations_def fold_insert_kills insert_dynamic_kills split: if_splits option.splits)

section \<open>The keyset\<close>

text \<open>
  What initialisation establishes: the classes of keys are disjoint, every key is 32 bytes
  long, every identifier that verification accepts has one, and no two of them share the
  environment variable their key is read from.
\<close>

definition accepted_kids :: "paseto_keyset \<Rightarrow> string list" where
  "accepted_kids ks = ks_active_kid ks # ks_next_kids ks @ ks_retired_kids ks"

definition keyset_ok :: "paseto_keyset \<Rightarrow> bool" where
  "keyset_ok ks \<longleftrightarrow>
     set (accepted_kids ks) \<inter> set (ks_revoked_kids ks) = {}
     \<and> ks_active_kid ks \<notin> set (ks_next_kids ks) \<union> set (ks_retired_kids ks)
     \<and> set (ks_next_kids ks) \<inter> set (ks_retired_kids ks) = {}
     \<and> inj_on kid_public_key_env_var_name (set (accepted_kids ks))
     \<and> (\<forall>kid \<in> set (accepted_kids ks). \<exists>key. public_key_for_kid ks kid = Some key \<and> length key = 32)"

lemma map_of_map_insert [simp]: "map_of (map_insert k v m) = (map_of m)(k \<mapsto> v)"
proof -
  have "map_of (filter (\<lambda>(k', _). k' \<noteq> k) m) x = (if x = k then None else map_of m x)" for x
    by (induction m) auto
  then show ?thesis by (auto simp: map_insert_def fun_eq_iff)
qed

lemma check_normalization_inj:
  assumes "check_normalization owner kids = Inr ()"
    and "\<And>n k. map_of owner n = Some k \<Longrightarrow> normalize_kid_for_env k = n"
  shows "inj_on normalize_kid_for_env (ran (map_of owner) \<union> set kids)"
  using assms
proof (induction kids arbitrary: owner)
  case Nil
  then show ?case by (auto simp: inj_on_def ran_def)
next
  case (Cons kid kids)
  let ?o = "map_insert (normalize_kid_for_env kid) kid owner"
  have ok: "check_normalization ?o kids = Inr ()"
    and same: "\<And>k. map_of owner (normalize_kid_for_env kid) = Some k \<Longrightarrow> k = kid"
    using Cons.prems(1) by (auto simp: Let_def split: option.splits if_splits)
  have "k \<in> ran (map_of ?o)" if in_ran: "k \<in> ran (map_of owner)" for k
  proof -
    obtain n where n: "map_of owner n = Some k" using in_ran by (auto simp: ran_def)
    show ?thesis
      using same n by (cases "n = normalize_kid_for_env kid") (auto intro!: ranI [of _ n])
  qed
  moreover have "kid \<in> ran (map_of ?o)" by (auto intro!: ranI [of _ "normalize_kid_for_env kid"])
  ultimately have "ran (map_of owner) \<union> set (kid # kids) \<subseteq> ran (map_of ?o) \<union> set kids" by auto
  moreover have "inj_on normalize_kid_for_env (ran (map_of ?o) \<union> set kids)"
    using Cons.prems(2) by (intro Cons.IH [OF ok]) (auto split: if_splits)
  ultimately show ?case by (rule inj_on_subset [rotated])
qed

lemma load_key_for_kid_Inr:
  assumes "load_key_for_kid E env kid required ks = Inr ks'"
  shows "\<exists>m. ks' = ks\<lparr>ks_public_keys := m\<rparr> \<and> (\<forall>k. map_of (ks_public_keys ks) k \<noteq> None \<longrightarrow> map_of m k \<noteq> None)
           \<and> (required \<longrightarrow> map_of m kid \<noteq> None)"
  using assms by (cases ks) (auto simp: load_key_for_kid_def Let_def and_then_Inr split: option.splits if_splits)

lemma load_required_keys_Inr:
  "load_required_keys E env kids ks = Inr ks' \<Longrightarrow>
     \<exists>m. ks' = ks\<lparr>ks_public_keys := m\<rparr> \<and> (\<forall>k. map_of (ks_public_keys ks) k \<noteq> None \<longrightarrow> map_of m k \<noteq> None)
       \<and> (\<forall>kid \<in> set kids. map_of m kid \<noteq> None)"
proof (induction kids arbitrary: ks)
  case Nil
  then show ?case by (intro exI [of _ "ks_public_keys ks"]) auto
next
  case (Cons kid kids)
  obtain ks1 where 1: "load_key_for_kid E env kid True ks = Inr ks1" "load_required_keys E env kids ks1 = Inr ks'"
    using Cons.prems by (auto simp: and_then_Inr)
  obtain m1 where m1: "ks1 = ks\<lparr>ks_public_keys := m1\<rparr>" "\<forall>k. map_of (ks_public_keys ks) k \<noteq> None \<longrightarrow> map_of m1 k \<noteq> None"
      "map_of m1 kid \<noteq> None"
    using load_key_for_kid_Inr [OF 1(1)] by blast
  obtain m where m: "ks' = ks1\<lparr>ks_public_keys := m\<rparr>" "\<forall>k. map_of (ks_public_keys ks1) k \<noteq> None \<longrightarrow> map_of m k \<noteq> None"
      "\<forall>k \<in> set kids. map_of m k \<noteq> None"
    using Cons.IH [OF 1(2)] by blast
  show ?case
  proof (intro exI [of _ m] conjI)
    show "ks' = ks\<lparr>ks_public_keys := m\<rparr>" using m1(1) m(1) by simp
    show "\<forall>k. map_of (ks_public_keys ks) k \<noteq> None \<longrightarrow> map_of m k \<noteq> None" using m1 m(2) by simp
    show "\<forall>k \<in> set (kid # kids). map_of m k \<noteq> None" using m1 m(2,3) by simp
  qed
qed

lemma keyset_from_env_Inr:
  assumes "keyset_from_env E env dk = Inr ks"
  shows "\<forall>kid \<in> set (ks_next_kids ks @ ks_retired_kids ks). public_key_for_kid ks kid \<noteq> None"
proof -
  obtain ks0 ks1 where 1: "load_required_keys E env (ks_next_kids ks0 @ ks_retired_kids ks0) ks1 = Inr ks"
    and 2: "load_key_for_kid E env (ks_active_kid ks0) (ks_active_kid ks0 \<noteq> ''active'') ks0 = Inr ks1"
    using assms by (auto simp: keyset_from_env_def Let_def load_per_kid_public_keys_from_env_def and_then_Inr)
  from load_required_keys_Inr [OF 1] load_key_for_kid_Inr [OF 2] show ?thesis
    by (auto simp: public_key_for_kid_def)
qed

lemma keyset_ok_intro:
  assumes "validate_key_material ks = Inr ()" and "\<forall>kid \<in> set (accepted_kids ks). public_key_for_kid ks kid \<noteq> None"
  shows "keyset_ok ks"
proof -
  have "check_normalization [] (accepted_kids ks) = Inr ()" and len: "\<forall>(kid, key) \<in> set (ks_public_keys ks). length key = 32"
    and "set (accepted_kids ks) \<inter> set (ks_revoked_kids ks) = {}" "set (ks_next_kids ks) \<inter> set (ks_retired_kids ks) = {}"
    and "ks_active_kid ks \<notin> set (ks_next_kids ks) \<union> set (ks_retired_kids ks)"
    using assms(1)
    by (auto simp: validate_key_material_def accepted_kids_def and_then_Inr list_ex_iff find_None_iff
        split: if_splits option.splits)
  moreover from this have "inj_on kid_public_key_env_var_name (set (accepted_kids ks))"
    using check_normalization_inj [of "[]" "accepted_kids ks"] by (auto simp: inj_on_def kid_public_key_env_var_name_def)
  moreover have "\<exists>key. public_key_for_kid ks kid = Some key \<and> length key = 32" if "kid \<in> set (accepted_kids ks)" for kid
    using that assms(2) len by (force simp: public_key_for_kid_def dest: map_of_SomeD)
  ultimately show ?thesis unfolding keyset_ok_def by blast
qed

section \<open>Reachable states\<close>

definition auth_inv :: "listener_pc \<times> auth_globals \<Rightarrow> bool" where
  "auth_inv s \<longleftrightarrow> overlay_ok (snd s) \<and> pred_option keyset_ok (ag_keyset (snd s))"

lemma init_decoded_cases:
  "fst (init_decoded decoded ks g) = g
   \<or> (\<exists>pk. fst (init_decoded decoded ks g) = g\<lparr>ag_public_key := pk\<rparr>)
   \<or> (\<exists>pk. validate_key_material ks = Inr () \<and> fst (init_decoded decoded ks g) = g\<lparr>ag_public_key := pk, ag_keyset := Some ks\<rparr>)"
  by (auto simp: init_decoded_def Let_def split: sum.split)

lemma init_decoded_keeps:
  "overlay_ok (fst (init_decoded decoded ks g)) \<longleftrightarrow> overlay_ok g"
  "kid_dead kid (fst (init_decoded decoded ks g)) \<longleftrightarrow> kid_dead kid g"
  using init_decoded_cases [of decoded ks g] by (auto simp: overlay_ok_def kid_dead_def)

lemma init_decoded_keyset:
  assumes "pred_option keyset_ok (ag_keyset g)" and "\<forall>kid \<in> set (accepted_kids ks). public_key_for_kid ks kid \<noteq> None"
  shows "pred_option keyset_ok (ag_keyset (fst (init_decoded decoded ks g)))"
  using init_decoded_cases [of decoded ks g] assms keyset_ok_intro [of ks] by auto

lemma init_auth_config_cases:
  "fst (init_auth_config E env g) = g
   \<or> (\<exists>k ks. fst (init_auth_config E env g) = fst (init_decoded k ks g)
        \<and> (\<forall>kid \<in> set (accepted_kids ks). public_key_for_kid ks kid \<noteq> None))"
proof (cases "fst (init_auth_config E env g) = g")
  case False
  then obtain dk ks k where ks: "keyset_from_env E env dk = Inr ks" "public_key_for_kid ks (ks_active_kid ks) = Some k"
      "fst (init_auth_config E env g) = fst (init_decoded k ks g)"
    by (auto simp: init_auth_config_def Let_def and_then_Inr split: sum.splits option.splits)
  then show ?thesis using keyset_from_env_Inr [OF ks(1)] by (auto simp: accepted_kids_def)
qed simp

lemma init_with_key_cases:
  assumes "ks_next_kids keyset = []" "ks_retired_kids keyset = []"
  shows "fst (init_with_public_key_and_keyset E key keyset g) = g
   \<or> (\<exists>k ks. fst (init_with_public_key_and_keyset E key keyset g) = fst (init_decoded k ks g)
        \<and> (\<forall>kid \<in> set (accepted_kids ks). public_key_for_kid ks kid \<noteq> None))"
proof (cases "decode_public_key_b64url E key ''FLEXI_PASETO_V4_PUBLIC_KEY_B64URL''")
  case (Inr k)
  then have "fst (init_with_public_key_and_keyset E key keyset g) = fst (init_decoded k (with_default_public_key keyset k) g)"
    by (simp add: init_with_public_key_and_keyset_def)
  moreover have "\<forall>kid \<in> set (accepted_kids (with_default_public_key keyset k)).
      public_key_for_kid (with_default_public_key keyset k) kid \<noteq> None"
    using assms by (simp add: accepted_kids_def public_key_for_kid_def with_default_public_key_def)
  ultimately show ?thesis by blast
qed (simp add: init_with_public_key_and_keyset_def)

lemma auth_step_cases:
  assumes "auth_step E s a s'"
  obtains (Listener) e where "a = Listener e" "listener_step E s e = Some s'"
  | (Skip) "snd s' = snd s"
  | (Init) k ks where "snd s' = fst (init_decoded k ks (snd s))"
      "\<forall>kid \<in> set (accepted_kids ks). public_key_for_kid ks kid \<noteq> None"
proof (cases a)
  case (Init env)
  then show thesis using assms init_auth_config_cases [of E env "snd s"] that(2,3) by auto
next
  case (InitKey key)
  then show thesis
    using assms init_with_key_cases [of default_for_single_key E key "snd s"] that(2,3)
    by (auto simp: init_with_public_key_b64url_def default_for_single_key_def)
next
  case (InitKeyRevoked key kids)
  then show thesis
    using assms init_with_key_cases [of "keyset_for_revoked_kids E kids" E key "snd s"] that(2,3)
    by (auto simp: init_with_public_key_and_revoked_kids_def keyset_for_revoked_kids_def default_for_single_key_def)
qed (use assms that(1) in auto)

lemma auth_step_inv:
  assumes "auth_inv s" "auth_step E s a s'"
  shows "auth_inv s'"
  using assms(2)
proof (cases rule: auth_step_cases)
  case (Listener e)
  then show ?thesis using assms(1) listener_step_keeps(1,2) [of E s e s'] by (simp add: auth_inv_def)
qed (use assms(1) in \<open>auto simp: auth_inv_def init_decoded_keeps init_decoded_keyset\<close>)

lemma auth_step_dead:
  assumes "kid_dead kid (snd s)" "auth_step E s a s'"
  shows "kid_dead kid (snd s')"
  using assms(2)
proof (cases rule: auth_step_cases)
  case (Listener e)
  then show ?thesis using assms(1) by (auto intro: listener_step_keeps(3))
qed (use assms(1) in \<open>auto simp: init_decoded_keeps\<close>)

interpretation auth_sys: invariant_system "\<lambda>s. s = (Seeding, auth_start)" "auth_step E" auth_inv for E
proof
  show "auth_inv s" if "s = (Seeding, auth_start)" for s
    using that by (simp add: auth_inv_def overlay_ok_def auth_start_def BoundedRevokedKids_new_def)
qed (rule auth_step_inv)

interpretation auth_dead: invariant_system "\<lambda>s. kid_dead kid (snd s)" "auth_step E" "\<lambda>s. kid_dead kid (snd s)" for E kid
  by unfold_locales (auto intro: auth_step_dead)

section \<open>Verification\<close>

definition claims_timely :: "'v paseto_env \<Rightarrow> u64 \<Rightarrow> paseto_claims \<Rightarrow> bool" where
  "claims_timely E now claims \<longleftrightarrow>
     (\<exists>t. pe_rfc3339 E (pc_exp claims) = Some t \<and> 0 \<le> sint t \<and> now < t)
     \<and> pred_option (\<lambda>s. \<exists>t. pe_rfc3339 E s = Some t \<and> 0 \<le> sint t \<and> t \<le> now) (pc_nbf claims)"

definition claims_principals_ok :: "paseto_claims \<Rightarrow> bool" where
  "claims_principals_ok claims \<longleftrightarrow>
     is_valid_principal (pc_tenant_id claims) \<and> pc_tenant_id claims \<noteq> ''system''
     \<and> pred_option is_valid_principal (pc_user_id claims)"

lemma validate_claims_Inr:
  "validate_claims E clock claims = Inr ctx \<longleftrightarrow>
     claims_principals_ok claims \<and> claims_timely E (unix_now clock) claims
     \<and> ctx = TenantContext_new (TenantId (pc_tenant_id claims)) (map_option UserId (pc_user_id claims))"
proof (cases "claims_principals_ok claims")
  case True
  then have "TenantId_new (pc_tenant_id claims) = Inr (TenantId (pc_tenant_id claims))"
    "(case pc_user_id claims of None \<Rightarrow> Inr None | Some uid \<Rightarrow> map_sum id Some (UserId_new uid))
       = Inr (map_option UserId (pc_user_id claims))"
    by (auto simp: claims_principals_ok_def TenantId_new_Inr UserId_new_def principal_new_def split: option.split)
  with True show ?thesis
    by (auto simp: validate_claims_def claims_timely_def Let_def and_then_Inr not_less not_le split: option.splits)
next
  case False
  then show ?thesis
    by (auto simp: claims_principals_ok_def validate_claims_def TenantId_new_def UserId_new_def principal_new_def
        split: option.splits)
qed

lemma validate_token_kid_Inr:
  "validate_token_kid ks kid = Inr u \<longleftrightarrow> kid \<in> set (accepted_kids ks) - set (ks_revoked_kids ks)"
  by (auto simp: validate_token_kid_def accepted_kids_def)

lemma verify_paseto_Inr:
  "verify_paseto_v4_public_token E clock token key footer = Inr ctx \<longleftrightarrow>
     (\<exists>payload claims. length key = 32 \<and> pe_parse E key footer token = Some payload
        \<and> pe_claims E payload = Some claims \<and> validate_claims E clock claims = Inr ctx)"
  by (auto simp: verify_paseto_v4_public_token_def split: option.splits)

lemma verify_from_env_token_Inr:
  "verify_from_env_token E clock g token = Inr ctx \<longleftrightarrow>
     (\<exists>ks kid footer key payload claims.
        ag_keyset g = Some ks \<and> \<not> kid_dead kid g \<and> extract_footer_kid E token = Inr (kid, footer)
        \<and> kid \<in> set (accepted_kids ks) - set (ks_revoked_kids ks)
        \<and> public_key_for_kid ks kid = Some key \<and> length key = 32
        \<and> pe_parse E key footer token = Some payload \<and> pe_claims E payload = Some claims
        \<and> validate_claims E clock claims = Inr ctx)"
proof (cases "ag_keyset g"; cases "extract_footer_kid E token")
  fix ks kf assume ks: "ag_keyset g = Some ks" and kf: "extract_footer_kid E token = Inr kf"
  obtain kid footer where "kf = (kid, footer)" by (cases kf)
  with ks kf show ?thesis
    by (cases "public_key_for_kid ks kid")
      (auto simp: verify_from_env_token_def verify_paseto_Inr and_then_Inr kid_dead_def validate_token_kid_Inr)
qed (auto simp: verify_from_env_token_def)

lemma verify_dead:
  "kid_dead kid g \<Longrightarrow> extract_footer_kid E token = Inr (kid, footer) \<Longrightarrow>
     verify_from_env_token E clock g token = Inl AuthUnauthorized"
  by (auto simp: verify_from_env_token_def kid_dead_def validate_token_kid_def split: option.split)

section \<open>Properties\<close>

text \<open>
  An instance for the witnesses: base64 with commas for dots, the footer is the key
  identifier, every signature is good and time stamps are the second 100.
\<close>

definition demo_paseto :: "string paseto_env" where
  "demo_paseto = \<lparr>pe_b64url = (\<lambda>s. Some (map (\<lambda>c. if c = CHR '','' then CHR ''.'' else c) s)),
     pe_footer_kid = Some, pe_parse = (\<lambda>key footer token. Some token),
     pe_claims = (\<lambda>_. Some \<lparr>pc_tenant_id = ''acme'', pc_user_id = Some ''alice'', pc_exp = ''t'', pc_nbf = None\<rparr>),
     pe_rfc3339 = (\<lambda>_. Some 100), pe_hash_order = (\<lambda>xs. xs)\<rparr>"

definition demo_auth :: "string \<Rightarrow> auth_globals" where
  "demo_auth kid = auth_start\<lparr>ag_public_key := Some (replicate 32 CHR ''k''),
     ag_keyset := Some \<lparr>ks_active_kid = kid, ks_next_kids = [], ks_retired_kids = [], ks_revoked_kids = [],
       ks_public_keys = [(kid, replicate 32 CHR ''k'')]\<rparr>\<rparr>"

lemma demo_footer:
  "extract_footer_kid demo_paseto ''v4.public.p.k-1'' = Inr (''k-1'', ''k-1'')"
  "extract_footer_kid demo_paseto ''v4.public.p.k,1'' = Inr (''k.1'', ''k.1'')"
  by (simp_all add: extract_footer_kid_def demo_paseto_def trim_plain ascii_graph_def utf8_cont_def)

lemma demo_principals: "is_valid_principal ''acme''" "is_valid_principal ''alice''"
  by (simp_all add: is_valid_principal_def principal_byte_def is_ascii_lower_def)

lemma demo_verifies:
  assumes "extract_footer_kid demo_paseto token = Inr (kid, footer)"
  shows "verify_from_env_token demo_paseto (Some 50) (demo_auth kid) token
    = Inr (TenantContext_new (TenantId ''acme'') (Some (UserId ''alice'')))"
  using assms demo_principals
  by (auto simp: verify_from_env_token_Inr validate_claims_Inr claims_principals_ok_def claims_timely_def demo_paseto_def
      demo_auth_def auth_start_def kid_dead_def brk_contains_def BoundedRevokedKids_new_def accepted_kids_def
      public_key_for_kid_def unix_now_def intro!: exI)

text \<open>
  C5 (functional): a request gets past authentication exactly when it carries a bearer token
  whose footer names a key that the keyset lists as active, next or retired, that is neither
  revoked in the configuration nor at run time while the overlay is not saturated; whose
  signature is good for that key's 32 bytes; and whose claims name a valid tenant other than
  the system tenant and a valid user if any, are not used early and have not expired. The
  context is then that tenant's and user's with the connection attached. Otherwise the answer
  is 401 or 403.
\<close>

theorem authentication_exact:
  fixes db :: 'db
  shows "auth_middleware E H clock g db None = Inl 401
   \<and> (auth_middleware E H clock g db (Some header) = Inr (ctx, token) \<longleftrightarrow>
        (\<exists>value ks kid footer key payload claims.
           header_to_str H header = Some value \<and> extract_bearer_token value = Some token
           \<and> ag_keyset g = Some ks \<and> \<not> ag_saturated g
           \<and> extract_footer_kid E token = Inr (kid, footer)
           \<and> kid \<in> {ks_active_kid ks} \<union> set (ks_next_kids ks) \<union> set (ks_retired_kids ks)
           \<and> kid \<notin> set (ks_revoked_kids ks) \<and> \<not> brk_contains (ag_revoked g) kid
           \<and> public_key_for_kid ks kid = Some key \<and> length key = 32
           \<and> pe_parse E key footer token = Some payload \<and> pe_claims E payload = Some claims
           \<and> is_valid_principal (pc_tenant_id claims) \<and> pc_tenant_id claims \<noteq> ''system''
           \<and> pred_option is_valid_principal (pc_user_id claims)
           \<and> claims_timely E (unix_now clock) claims
           \<and> ctx = \<lparr>ctx_tenant_id = TenantId (pc_tenant_id claims),
                    ctx_user_id = map_option UserId (pc_user_id claims), ctx_db = Some db\<rparr>))
   \<and> (\<exists>r. auth_middleware E H clock g db (Some header) \<in> {Inr r, Inl 401, Inl 403})"
  (is "_ \<and> (?lhs \<longleftrightarrow> ?rhs) \<and> _")
proof (intro conjI)
  show "auth_middleware E H clock g db None = Inl 401" by (simp add: auth_middleware_def)
  show "\<exists>r. auth_middleware E H clock g db (Some header) \<in> {Inr r, Inl 401, Inl 403}"
    by (auto simp: auth_middleware_def split: option.split sum.split auth_error.split)
  have "?lhs \<longleftrightarrow> (\<exists>value c. header_to_str H header = Some value \<and> extract_bearer_token value = Some token
         \<and> verify_from_env_token E clock g token = Inr c \<and> ctx = with_db c db)"
    by (auto simp: auth_middleware_def split: option.splits sum.splits auth_error.splits)
  also have "\<dots> \<longleftrightarrow> ?rhs"
    unfolding verify_from_env_token_Inr validate_claims_Inr claims_principals_ok_def kid_dead_def accepted_kids_def
      with_db_def TenantContext_new_def
    by auto
  finally show "?lhs \<longleftrightarrow> ?rhs" .
qed

text \<open>
  C6 (safety): once the listener is told, by a message or through the environment variable
  it polls, that a key is revoked, no token of that key is accepted again in any later state,
  whatever else is announced, however the connection fails and even when the overlay was full
  (then nothing is accepted at all). It holds for key identifiers of 1 to 128 letters,
  digits, hyphens and underscores; the code ignores the announcement of any other.
\<close>

theorem revocation_is_permanent:
  assumes "auth_step E s (Listener e) s1" and "announces E e kid"
    and "kid \<noteq> []" "length kid \<le> 128" "list_all (\<lambda>c. is_ascii_alphanumeric c \<or> c = CHR ''-'' \<or> c = CHR ''_'') kid"
    and "run (auth_step E) s1 es s2"
    and "extract_footer_kid E token = Inr (kid, footer)"
  shows "(verify_from_env_token E clock (snd s2) token :: auth_error + 'db tenant_context) = Inl AuthUnauthorized"
proof (rule verify_dead)
  have "revocable_kid kid"
    using assms(3-5) by (simp add: revocable_kid_def MAX_KID_BYTES_def kid_byte_def list_all_iff)
  then have "kid_dead kid (snd s1)" using assms(1,2) by (auto intro: listener_step_kills)
  then show "kid_dead kid (snd s2)" by (rule auth_dead.run_inv [OF assms(6)])
qed (rule assms(7))

theorem revocation_is_permanent_witness:
  "verify_from_env_token demo_paseto (Some 50) (demo_auth ''k-1'') ''v4.public.p.k-1''
     = Inr (TenantContext_new (TenantId ''acme'') (Some (UserId ''alice'')) :: unit tenant_context)
   \<and> (verify_from_env_token demo_paseto (Some 50) (insert_dynamic_revoked_kid ''k-1'' (demo_auth ''k-1''))
        ''v4.public.p.k-1'' :: auth_error + unit tenant_context) = Inl AuthUnauthorized"
proof
  show "verify_from_env_token demo_paseto (Some 50) (demo_auth ''k-1'') ''v4.public.p.k-1''
     = Inr (TenantContext_new (TenantId ''acme'') (Some (UserId ''alice'')) :: unit tenant_context)"
    by (rule demo_verifies [OF demo_footer(1)])
  let ?s1 = "(Streaming, insert_dynamic_revoked_kid ''k-1'' (demo_auth ''k-1''))"
  have "auth_step demo_paseto (Streaming, demo_auth ''k-1'') (Listener (Message (Some ''k-1''))) ?s1" by simp
  moreover have "announces demo_paseto (Message (Some ''k-1'')) ''k-1''"
    by (simp add: trim_plain ascii_graph_def MAX_KID_BYTES_def)
  moreover have "list_all (\<lambda>c. is_ascii_alphanumeric c \<or> c = CHR ''-'' \<or> c = CHR ''_'') ''k-1''"
    by (simp add: is_ascii_alphanumeric_def is_ascii_lower_def is_ascii_digit_def)
  ultimately show "(verify_from_env_token demo_paseto (Some 50) (insert_dynamic_revoked_kid ''k-1'' (demo_auth ''k-1''))
        ''v4.public.p.k-1'' :: auth_error + unit tenant_context) = Inl AuthUnauthorized"
    using revocation_is_permanent [OF _ _ _ _ _ run_nil demo_footer(1), of "(Streaming, demo_auth ''k-1'')"
        "Message (Some ''k-1'')" ?s1 "Some 50"]
    by (simp del: auth_step.simps announces.simps list.pred_inject)
qed

text \<open>
  in every reachable state the run-time overlay holds at most 10000 different
  key identifiers; when it is saturated it is full, the service reports itself not ready and
  no token at all is accepted.
\<close>

theorem overlay_bounded_fails_closed:
  assumes "auth_reachable E (pc, g)"
  shows "distinct (brk_kids (ag_revoked g)) \<and> length (brk_kids (ag_revoked g)) \<le> 10000
    \<and> (ag_saturated g \<longrightarrow> length (brk_kids (ag_revoked g)) = 10000 \<and> \<not> is_auth_config_ready g
         \<and> (verify_from_env_token E clock g token :: auth_error + 'db tenant_context) = Inl AuthUnauthorized)"
  using auth_sys.reachable_inv [OF assms]
  by (auto simp: auth_inv_def overlay_ok_def MAX_DYNAMIC_REVOKED_KIDS_def is_auth_config_ready_def
      verify_from_env_token_def split: option.split)

theorem overlay_bounded_fails_closed_witness:
  "length (brk_kids (ag_revoked auth_start)) \<le> 10000"
proof -
  have "auth_reachable demo_paseto (Seeding, auth_start)" by (rule reach_init) simp
  from overlay_bounded_fails_closed [OF this, where ?'db = unit] show ?thesis by blast
qed

text \<open>
  whatever the environment and however often initialisation is tried, a
  configured keyset is consistent: the active, next, retired and revoked identifiers do not
  overlap where they must not, every identifier that verification accepts has a key of 32
  bytes (so no accepted token fails for want of a key), and two accepted identifiers never
  read their key from the same environment variable. A second initialisation changes nothing.
\<close>

theorem configured_keyset_complete:
  assumes "auth_reachable E (pc, g)" and "ag_keyset g = Some ks" and "validate_token_kid ks kid = Inr ()"
  shows "(\<exists>key. public_key_for_kid ks kid = Some key \<and> length key = 32)
    \<and> (\<forall>kid'. validate_token_kid ks kid' = Inr () \<and> kid' \<noteq> kid
         \<longrightarrow> kid_public_key_env_var_name kid' \<noteq> kid_public_key_env_var_name kid)
    \<and> validate_token_kid ks (ks_active_kid ks) = Inr ()
    \<and> set (ks_revoked_kids ks) \<inter> set (ks_active_kid ks # ks_next_kids ks @ ks_retired_kids ks) = {}
    \<and> ag_keyset (fst (init_auth_config E env g)) = Some ks"
proof -
  have ok: "keyset_ok ks" using auth_sys.reachable_inv [OF assms(1)] assms(2) by (simp add: auth_inv_def)
  have "ag_keyset (fst (init_auth_config E env g)) = Some ks"
    using assms(2)
    by (auto simp: init_auth_config_def init_decoded_def Let_def split: sum.split option.split)
  with ok assms(3) show ?thesis
    unfolding keyset_ok_def validate_token_kid_Inr inj_on_def by (auto simp: accepted_kids_def)
qed

lemma demo_init: "fst (init_with_public_key_b64url demo_paseto (replicate 32 CHR ''k'') auth_start) = demo_auth ''active''"
  by (simp add: init_with_public_key_b64url_def init_with_public_key_and_keyset_def decode_public_key_b64url_def
      demo_paseto_def init_decoded_def validate_key_material_def with_default_public_key_def default_for_single_key_def
      map_insert_def trim_plain ascii_graph_def auth_start_def demo_auth_def Let_def)

theorem configured_keyset_complete_witness:
  "\<exists>ks key. ag_keyset (demo_auth ''active'') = Some ks \<and> public_key_for_kid ks ''active'' = Some key \<and> length key = 32"
proof -
  have start: "auth_reachable demo_paseto (Seeding, auth_start)" by (rule reach_init) simp
  have step: "auth_step demo_paseto (Seeding, auth_start) (InitKey (replicate 32 CHR ''k'')) (Seeding, demo_auth ''active'')"
    by (simp add: demo_init)
  obtain ks where ks: "ag_keyset (demo_auth ''active'') = Some ks" "validate_token_kid ks ''active'' = Inr ()"
    by (simp add: demo_auth_def validate_token_kid_def)
  have "auth_reachable demo_paseto (Seeding, demo_auth ''active'')"
    by (rule reach_step [where step = "auth_step demo_paseto", OF start step])
  from configured_keyset_complete [OF this ks, of "\<lambda>_. None"] ks(1) show ?thesis by blast
qed

text \<open>
  A revocation message for an identifier with any other byte than letters,
  digits, hyphens and underscores (a dot, say) or longer than 128 bytes is dropped: whatever
  token was accepted before is accepted after it. Initialisation puts no such limit on the
  identifiers it configures, so a key can be in service that cannot be revoked at run time.
\<close>

theorem unusual_kid_not_revocable:
  assumes "\<not> list_all (\<lambda>c. is_ascii_alphanumeric c \<or> c = CHR ''-'' \<or> c = CHR ''_'') (trim raw) \<or> length raw > 128"
    and "listener_step E (Streaming, g) (Message (Some raw)) = Some (pc, g')"
  shows "(verify_from_env_token E clock g' token :: auth_error + 'db tenant_context) = verify_from_env_token E clock g token"
proof -
  have "insert_dynamic_revoked_kid raw g = g"
    using assms(1) by (auto simp: insert_dynamic_cases revocable_kid_def kid_byte_def MAX_KID_BYTES_def list_all_iff)
  then show ?thesis using assms(2) by simp
qed

theorem unusual_kid_not_revocable_witness:
  "extract_footer_kid demo_paseto ''v4.public.p.k,1'' = Inr (''k.1'', ''k.1'')
   \<and> verify_from_env_token demo_paseto (Some 50) (insert_dynamic_revoked_kid ''k.1'' (demo_auth ''k.1'')) ''v4.public.p.k,1''
     = Inr (TenantContext_new (TenantId ''acme'') (Some (UserId ''alice'')) :: unit tenant_context)"
proof
  have "\<not> list_all (\<lambda>c. is_ascii_alphanumeric c \<or> c = CHR ''-'' \<or> c = CHR ''_'') (trim ''k.1'')"
    by (simp add: trim_plain ascii_graph_def is_ascii_alphanumeric_def is_ascii_digit_def is_ascii_upper_def is_ascii_lower_def)
  from unusual_kid_not_revocable [OF disjI1 [OF this], of demo_paseto "demo_auth ''k.1''" Streaming
      "insert_dynamic_revoked_kid ''k.1'' (demo_auth ''k.1'')" "Some 50" "''v4.public.p.k,1''", where ?'db = unit]
  show "verify_from_env_token demo_paseto (Some 50) (insert_dynamic_revoked_kid ''k.1'' (demo_auth ''k.1'')) ''v4.public.p.k,1''
     = Inr (TenantContext_new (TenantId ''acme'') (Some (UserId ''alice'')) :: unit tenant_context)"
    using demo_verifies [OF demo_footer(2)] by (simp only: listener_step.simps option.simps)
qed (rule demo_footer)

end
