(* ===== verification/Key_Manager.thy ===== *)
theory Key_Manager
  imports Auth_Context
begin

text \<open>
  Key lifecycle and tenant tokens: \<open>kernel-core/src/auth/key_manager.rs\<close> over the table of
  \<open>kernel-data/src/entities/key_record.rs\<close>, and the SQL function \<open>flexi.authorize_tenant\<close>
  that redeems the tokens, from the migration \<open>m20250521_000001_key_management.rs\<close>.

  A transaction is a function on a state that holds the rows of \<open>key_record\<close>, the clock in
  microseconds (one reading per operation), the number of random draws and the faults of
  the coming statements (one per statement, none past the end of the list); a failed
  transaction leaves the rows as they were. The table enforces what the migration declares:
  the primary key and the two unique indexes on active and next keys per type. UUIDs, key
  generation, HMAC and hex encoding are arguments.
\<close>

section \<open>The table\<close>

datatype key_type = Hmac | PasetoPublic

datatype key_state = Active | Next | Retired | Revoked

record key_model =
  km_kid :: string
  km_key_type :: key_type
  km_algorithm :: string
  km_secret_bytes :: "string option"
  km_public_bytes :: "string option"
  km_state :: key_state
  km_created_at :: int
  km_activated_at :: "int option"
  km_retired_at :: "int option"
  km_revoked_at :: "int option"
  km_expires_at :: "int option"

datatype key_manager_error =
    DbError string
  | KeyGenError string
  | NoActiveKey string
  | KeyNotFound string
  | Unauthorized string

record kdb =
  kt_rows :: "key_model list"
  kt_now :: int
  kt_drawn :: nat
  kt_faults :: "bool list"

type_synonym 'a txn = "kdb \<Rightarrow> kdb \<times> (key_manager_error + 'a)"

definition is_key :: "key_type \<Rightarrow> key_state \<Rightarrow> key_model \<Rightarrow> bool" where
  "is_key t st r \<longleftrightarrow> km_key_type r = t \<and> km_state r = st"

definition keys_in :: "key_type \<Rightarrow> key_state \<Rightarrow> key_model list \<Rightarrow> key_model list" where
  "keys_in t st rows = filter (is_key t st) rows"

definition constraints_ok :: "key_model list \<Rightarrow> bool" where
  "constraints_ok rows \<longleftrightarrow>
     distinct (map km_kid rows)
     \<and> list_all (\<lambda>t. length (keys_in t Active rows) \<le> 1 \<and> length (keys_in t Next rows) \<le> 1) [Hmac, PasetoPublic]"

section \<open>Statements and transactions\<close>

definition txn_return :: "'a \<Rightarrow> 'a txn" where
  "txn_return x s = (s, Inr x)"

definition txn_fail :: "key_manager_error \<Rightarrow> 'a txn" where
  "txn_fail e s = (s, Inl e)"

definition txn_bind :: "'a txn \<Rightarrow> ('a \<Rightarrow> 'b txn) \<Rightarrow> 'b txn" where
  "txn_bind m f s = (case m s of (s', Inl e) \<Rightarrow> (s', Inl e) | (s', Inr x) \<Rightarrow> f x s')"

definition statement :: "'a txn \<Rightarrow> 'a txn" where
  "statement m s =
     (let s' = s\<lparr>kt_faults := tl (kt_faults s)\<rparr>
      in if kt_faults s \<noteq> [] \<and> hd (kt_faults s) then (s', Inl (DbError ''connection'')) else m s')"

definition select_one :: "(key_model \<Rightarrow> bool) \<Rightarrow> key_model option txn" where
  "select_one P = statement (\<lambda>s. (s, Inr (find P (kt_rows s))))"

definition write_rows :: "key_model list \<Rightarrow> unit txn" where
  "write_rows rows s =
     (if constraints_ok rows then (s\<lparr>kt_rows := rows\<rparr>, Inr ()) else (s, Inl (DbError ''unique violation'')))"

definition insert_row :: "key_model \<Rightarrow> unit txn" where
  "insert_row r = statement (\<lambda>s. write_rows (kt_rows s @ [r]) s)"

definition update_row :: "key_model \<Rightarrow> unit txn" where
  "update_row r = statement (\<lambda>s. write_rows (map (\<lambda>x. if km_kid x = km_kid r then r else x) (kt_rows s)) s)"

definition delete_rows :: "(key_model \<Rightarrow> bool) \<Rightarrow> unit txn" where
  "delete_rows P = statement (\<lambda>s. (s\<lparr>kt_rows := filter (\<lambda>r. \<not> P r) (kt_rows s)\<rparr>, Inr ()))"

definition plain_statement :: "unit txn" where
  "plain_statement = statement (txn_return ())"

text \<open>\<open>begin\<close>, the body, \<open>commit\<close>; anything that fails rolls the rows back.\<close>

definition transaction :: "'a txn \<Rightarrow> 'a txn" where
  "transaction body s =
     (case txn_bind plain_statement (\<lambda>_. txn_bind body (\<lambda>x. txn_bind plain_statement (\<lambda>_. txn_return x))) s of
        (s', Inl e) \<Rightarrow> (s'\<lparr>kt_rows := kt_rows s\<rparr>, Inl e)
      | (s', Inr x) \<Rightarrow> (s', Inr x))"

section \<open>The key manager\<close>

record key_gen =
  kg_uuid :: "nat \<Rightarrow> string"
  kg_hmac_key :: "nat \<Rightarrow> string option"
  kg_pkcs8 :: "nat \<Rightarrow> string + string"
  kg_public_key :: "string \<Rightarrow> string + string"

definition dec_of_int :: "int \<Rightarrow> string" where
  "dec_of_int i = (if i < 0 then ''-'' @ dec_of_nat (nat (- i)) else dec_of_nat (nat i))"

definition timestamp :: "int \<Rightarrow> int" where
  "timestamp now = now div 1000000"

definition ensure_system :: "'db tenant_context \<Rightarrow> key_manager_error + unit" where
  "ensure_system ctx =
     (if \<not> is_system ctx then Inl (Unauthorized ''Key management operation requires system tenant context'') else Inr ())"

fun key_type_str :: "key_type \<Rightarrow> string" where
  "key_type_str Hmac = ''hmac''"
| "key_type_str PasetoPublic = ''paseto_public''"

definition new_kid :: "key_gen \<Rightarrow> key_type \<Rightarrow> int \<Rightarrow> nat \<Rightarrow> string" where
  "new_kid G t now n = key_type_str t @ ''-'' @ dec_of_int (timestamp now) @ ''-'' @ kg_uuid G n"

definition key_material :: "key_gen \<Rightarrow> key_type \<Rightarrow> nat \<Rightarrow> key_manager_error + (string option \<times> string option)" where
  "key_material G t n =
     (case t of
        Hmac \<Rightarrow> (case kg_hmac_key G n of
                    Some key \<Rightarrow> Inr (Some key, None)
                  | None \<Rightarrow> Inl (KeyGenError ''Failed to fill HMAC key''))
      | PasetoPublic \<Rightarrow>
          (case kg_pkcs8 G n of
             Inl e \<Rightarrow> Inl (KeyGenError e)
           | Inr pkcs8_bytes \<Rightarrow>
               (case kg_public_key G pkcs8_bytes of
                  Inl e \<Rightarrow> Inl (KeyGenError e)
                | Inr pub_key \<Rightarrow> Inr (Some pkcs8_bytes, Some pub_key))))"

definition create_key :: "key_gen \<Rightarrow> key_type \<Rightarrow> string \<Rightarrow> key_state \<Rightarrow> unit txn" where
  "create_key G key_type alg state s =
     (let now = kt_now s; n = kt_drawn s; s1 = s\<lparr>kt_drawn := n + 1\<rparr>; kid = new_kid G key_type now n
      in if CHR '':'' \<in> set kid
         then (s1, Inl (KeyGenError ''Generated key id contains invalid ':' delimiter''))
         else (case key_material G key_type n of
                 Inl e \<Rightarrow> (s1, Inl e)
               | Inr (secret, public) \<Rightarrow>
                   insert_row \<lparr>km_kid = kid, km_key_type = key_type, km_algorithm = alg, km_secret_bytes = secret,
                     km_public_bytes = public, km_state = state, km_created_at = now,
                     km_activated_at = (if state = Active then Some now else None), km_retired_at = None,
                     km_revoked_at = None, km_expires_at = None\<rparr> s1))"

definition promote :: "key_model \<Rightarrow> int \<Rightarrow> unit txn" where
  "promote r now = update_row (r\<lparr>km_state := Active, km_activated_at := Some now\<rparr>)"

definition MICROS_PER_DAY :: int where
  "MICROS_PER_DAY = 86400000000"

text \<open>Retire the active key, promote the next one (or create an active key), create the next one.\<close>

definition rotate_active :: "key_gen \<Rightarrow> key_type \<Rightarrow> string \<Rightarrow> int \<Rightarrow> key_model \<Rightarrow> unit txn" where
  "rotate_active G key_type alg now active =
     txn_bind (update_row (active\<lparr>km_state := Retired, km_retired_at := Some now\<rparr>)) (\<lambda>_.
     txn_bind (select_one (is_key key_type Next)) (\<lambda>next_key.
     txn_bind (case next_key of
                 Some nk \<Rightarrow> promote nk now
               | None \<Rightarrow> create_key G key_type alg Active) (\<lambda>_.
     create_key G key_type alg Next)))"

definition ensure_next :: "key_gen \<Rightarrow> key_type \<Rightarrow> string \<Rightarrow> unit txn" where
  "ensure_next G key_type alg =
     txn_bind (select_one (is_key key_type Next)) (\<lambda>next_key.
     case next_key of None \<Rightarrow> create_key G key_type alg Next | Some _ \<Rightarrow> txn_return ())"

definition prune_retired :: "key_type \<Rightarrow> int \<Rightarrow> unit txn" where
  "prune_retired key_type now =
     delete_rows (\<lambda>r. is_key key_type Retired r
       \<and> (case km_retired_at r of Some x \<Rightarrow> x < now - 2 * MICROS_PER_DAY | None \<Rightarrow> False))"

definition rotate_body :: "key_gen \<Rightarrow> key_type \<Rightarrow> string \<Rightarrow> int \<Rightarrow> key_model option \<Rightarrow> unit txn" where
  "rotate_body G t alg now active_key =
     (case active_key of
        Some active \<Rightarrow>
          (let rotation_base = (case km_activated_at active of Some x \<Rightarrow> x | None \<Rightarrow> km_created_at active)
           in if now \<ge> rotation_base + 30 * MICROS_PER_DAY then rotate_active G t alg now active
              else ensure_next G t alg)
      | None \<Rightarrow> txn_bind (create_key G t alg Active) (\<lambda>_. create_key G t alg Next))"

definition rotate_key_type :: "key_gen \<Rightarrow> key_type \<Rightarrow> string \<Rightarrow> unit txn" where
  "rotate_key_type G key_type alg = transaction (\<lambda>s.
     (let now = kt_now s in
      txn_bind plain_statement (\<lambda>_.
      txn_bind (select_one (is_key key_type Active)) (\<lambda>active_key.
      txn_bind (rotate_body G key_type alg now active_key) (\<lambda>_.
      prune_retired key_type now)))) s)"

definition with_context :: "'db tenant_context \<Rightarrow> 'a txn \<Rightarrow> 'a txn" where
  "with_context ctx m s =
     (case context_db ctx of Inl e \<Rightarrow> (s, Inl (DbError e)) | Inr _ \<Rightarrow> m s)"

definition rotate_keys :: "key_gen \<Rightarrow> 'db tenant_context \<Rightarrow> unit txn" where
  "rotate_keys G ctx s =
     (case ensure_system ctx of
        Inl e \<Rightarrow> (s, Inl e)
      | Inr _ \<Rightarrow>
          with_context ctx (txn_bind (rotate_key_type G Hmac ''HS256'')
            (\<lambda>_. rotate_key_type G PasetoPublic ''Ed25519'')) s)"

definition get_active_key_internal :: "'db tenant_context \<Rightarrow> key_type \<Rightarrow> key_model txn" where
  "get_active_key_internal ctx key_type =
     with_context ctx (txn_bind (select_one (is_key key_type Active)) (\<lambda>key.
       case key of
         Some k \<Rightarrow> txn_return k
       | None \<Rightarrow> txn_fail (NoActiveKey (case key_type of Hmac \<Rightarrow> ''Hmac'' | PasetoPublic \<Rightarrow> ''PasetoPublic''))))"

definition get_active_key :: "'db tenant_context \<Rightarrow> key_type \<Rightarrow> key_model txn" where
  "get_active_key ctx key_type s =
     (case ensure_system ctx of Inl e \<Rightarrow> (s, Inl e) | Inr _ \<Rightarrow> get_active_key_internal ctx key_type s)"

definition get_key_by_id :: "'db tenant_context \<Rightarrow> string \<Rightarrow> key_model txn" where
  "get_key_by_id ctx kid s =
     (case ensure_system ctx of
        Inl e \<Rightarrow> (s, Inl e)
      | Inr _ \<Rightarrow>
          with_context ctx (txn_bind (select_one (\<lambda>r. km_kid r = kid)) (\<lambda>key.
            case key of Some k \<Rightarrow> txn_return k | None \<Rightarrow> txn_fail (KeyNotFound kid))) s)"

definition replace_active :: "key_gen \<Rightarrow> key_type \<Rightarrow> string \<Rightarrow> int \<Rightarrow> unit txn" where
  "replace_active G key_type alg now =
     txn_bind (select_one (is_key key_type Active)) (\<lambda>active_replacement.
     case active_replacement of
       Some _ \<Rightarrow> txn_return ()
     | None \<Rightarrow>
         txn_bind (select_one (is_key key_type Next)) (\<lambda>next_key.
         case next_key of
           Some nk \<Rightarrow> txn_bind (promote nk now) (\<lambda>_. create_key G key_type alg Next)
         | None \<Rightarrow> txn_bind (create_key G key_type alg Active) (\<lambda>_. create_key G key_type alg Next)))"

definition revoke_key :: "key_gen \<Rightarrow> 'db tenant_context \<Rightarrow> string \<Rightarrow> unit txn" where
  "revoke_key G ctx kid s =
     (case ensure_system ctx of
        Inl e \<Rightarrow> (s, Inl e)
      | Inr _ \<Rightarrow>
          with_context ctx (transaction (\<lambda>s.
            txn_bind (select_one (\<lambda>r. km_kid r = kid)) (\<lambda>key.
            case key of
              None \<Rightarrow> txn_fail (KeyNotFound kid)
            | Some key \<Rightarrow>
                txn_bind (update_row (key\<lparr>km_state := Revoked, km_revoked_at := Some (kt_now s)\<rparr>)) (\<lambda>_.
                if km_state key = Active then replace_active G (km_key_type key) (km_algorithm key) (kt_now s)
                else txn_return ())) s)) s)"

section \<open>Tenant tokens\<close>

text \<open>\<open>hmac_hex key message\<close> is HMAC-SHA256 in hexadecimal, of ring and of pgcrypto alike.\<close>

definition token_message :: "string \<Rightarrow> string \<Rightarrow> string \<Rightarrow> string \<Rightarrow> string" where
  "token_message kid ts nonce tenant = join '':'' [''v2'', kid, ts, nonce, tenant]"

definition generate_tenant_token :: "key_gen \<Rightarrow> (string \<Rightarrow> string \<Rightarrow> string) \<Rightarrow> 'db tenant_context \<Rightarrow> tenant_id \<Rightarrow> string txn" where
  "generate_tenant_token G hmac_hex ctx tenant_id s =
     (if \<not> is_system ctx \<and> ctx_tenant_id ctx \<noteq> tenant_id
      then (s, Inl (Unauthorized (''Context tenant '' @ tenant_str (ctx_tenant_id ctx)
                      @ '' cannot generate token for tenant '' @ tenant_str tenant_id)))
      else txn_bind (get_active_key_internal ctx Hmac) (\<lambda>active_key s.
             (case km_secret_bytes active_key of
                None \<Rightarrow> (s, Inl (KeyGenError ''No secret bytes for HMAC key''))
              | Some secret \<Rightarrow>
                  (let now = dec_of_int (timestamp (kt_now s));
                       nonce = kg_uuid G (kt_drawn s);
                       kid = km_kid active_key;
                       msg = token_message kid now nonce (tenant_str tenant_id);
                       sig = hmac_hex secret msg
                   in (s\<lparr>kt_drawn := kt_drawn s + 1\<rparr>, Inr (join '':'' [''v2'', kid, now, nonce, tenant_str tenant_id, sig]))))) s)"

record pg_session =
  pg_nonces :: "string list"
  pg_hmac_secret :: "string option"
  pg_current_tenant :: "string option"
  pg_ctx_sig :: "string option"

text \<open>The rows the lookup of \<open>authorize_tenant\<close> accepts; a null \<open>retired_at\<close> is not accepted.\<close>

definition key_accepted :: "int \<Rightarrow> key_model \<Rightarrow> bool" where
  "key_accepted now r \<longleftrightarrow>
     km_key_type r = Hmac \<and> km_state r \<in> {Active, Next, Retired}
     \<and> (km_state r = Retired \<longrightarrow> (case km_retired_at r of Some x \<Rightarrow> x > now - 2 * MICROS_PER_DAY | None \<Rightarrow> False))"

definition lookup_secret :: "key_model list \<Rightarrow> int \<Rightarrow> string \<Rightarrow> string option" where
  "lookup_secret rows now kid =
     Option.bind (find (\<lambda>r. km_kid r = kid \<and> key_accepted now r) rows) km_secret_bytes"

text \<open>
  \<open>now\<close> is the database clock in microseconds, cast to whole seconds by rounding;
  \<open>bigint\<close> is PostgreSQL's cast from text. A raised exception undoes the call's effects.
\<close>

definition authorize_tenant :: "(string \<Rightarrow> string \<Rightarrow> string) \<Rightarrow> (string \<Rightarrow> int option) \<Rightarrow> key_model list \<Rightarrow> int \<Rightarrow> string
    \<Rightarrow> pg_session \<Rightarrow> string + pg_session" where
  "authorize_tenant hmac_hex bigint rows now token_val pg =
     (if token_val = [] then Inl ''Missing or empty tenant token''
      else (case split_char (CHR '':'') token_val of
              [ver, kid_val, ts_str, nonce_val, tenant_id_val, sig] \<Rightarrow>
                if ver \<noteq> ''v2'' then Inl (''Unsupported token version: '' @ ver)
                else (case bigint ts_str of
                        None \<Rightarrow> Inl ''invalid input syntax for type bigint''
                      | Some ts \<Rightarrow>
                          (let now_ts = (now + 500000) div 1000000 in
                           if ts < now_ts - 30 \<or> ts > now_ts + 30 then Inl ''Token timestamp expired or future (skew > 30s)''
                           else (case lookup_secret rows now kid_val of
                                   None \<Rightarrow> Inl (''Invalid or expired key ID: '' @ kid_val)
                                 | Some secret_key \<Rightarrow>
                                     if sig \<noteq> hmac_hex secret_key (join '':'' [ver, kid_val, ts_str, nonce_val, tenant_id_val])
                                     then Inl ''Invalid signature''
                                     else if nonce_val \<in> set (pg_nonces pg) then Inl ''Nonce already used''
                                     else (case pg_hmac_secret pg of
                                             None \<Rightarrow> Inl ''Internal HMAC secret not set''
                                           | Some internal_secret \<Rightarrow>
                                               if internal_secret = [] then Inl ''Internal HMAC secret not set''
                                               else Inr (pg\<lparr>pg_nonces := nonce_val # pg_nonces pg,
                                                      pg_current_tenant := Some tenant_id_val,
                                                      pg_ctx_sig := Some (hmac_hex internal_secret tenant_id_val)\<rparr>)))))
            | _ \<Rightarrow> Inl ''Invalid token format''))"

section \<open>Statements that answer\<close>

lemma statement_up: "kt_faults s = [] \<Longrightarrow> statement m s = m s"
  by (cases s) (simp add: statement_def)

lemma select_one_up: "kt_faults s = [] \<Longrightarrow> select_one P s = (s, Inr (find P (kt_rows s)))"
  by (simp add: select_one_def statement_up)

lemma plain_statement_up: "kt_faults s = [] \<Longrightarrow> plain_statement s = (s, Inr ())"
  by (simp add: plain_statement_def statement_up txn_return_def)

lemma update_row_up:
  "kt_faults s = [] \<Longrightarrow> update_row r s = write_rows (map (\<lambda>x. if km_kid x = km_kid r then r else x) (kt_rows s)) s"
  by (simp add: update_row_def statement_up)

lemma insert_row_up: "kt_faults s = [] \<Longrightarrow> insert_row r s = write_rows (kt_rows s @ [r]) s"
  by (simp add: insert_row_def statement_up)

lemma delete_rows_up:
  "kt_faults s = [] \<Longrightarrow> delete_rows P s = (s\<lparr>kt_rows := filter (\<lambda>r. \<not> P r) (kt_rows s)\<rparr>, Inr ())"
  by (simp add: delete_rows_def statement_up)

lemma txn_bind_Inr: "m s = (s', Inr x) \<Longrightarrow> txn_bind m f s = f x s'"
  by (simp add: txn_bind_def)

lemma bind_select: "kt_faults s = [] \<Longrightarrow> txn_bind (select_one P) f s = f (find P (kt_rows s)) s"
  by (rule txn_bind_Inr, rule select_one_up)

lemmas txn_up = select_one_up plain_statement_up txn_bind_Inr

lemma transaction_up:
  "kt_faults s = [] \<Longrightarrow> body s = (s', Inr x) \<Longrightarrow> kt_faults s' = [] \<Longrightarrow> transaction body s = (s', Inr x)"
  by (simp add: transaction_def txn_up txn_return_def)

section \<open>Effects of the steps\<close>

text \<open>A key generator that always works and never repeats or garbles an identifier.\<close>

definition gen_ok :: "key_gen \<Rightarrow> bool" where
  "gen_ok G \<longleftrightarrow> inj (kg_uuid G) \<and> (\<forall>n. CHR '':'' \<notin> set (kg_uuid G n))
     \<and> (\<forall>t n. \<exists>x. key_material G t n = Inr x)"

definition ready :: "key_gen \<Rightarrow> kdb \<Rightarrow> bool" where
  "ready G s \<longleftrightarrow> gen_ok G \<and> kt_faults s = [] \<and> constraints_ok (kt_rows s)
     \<and> (\<forall>t n. kt_drawn s \<le> n \<longrightarrow> new_kid G t (kt_now s) n \<notin> km_kid ` set (kt_rows s))"

text \<open>Every key that \<open>authorize_tenant\<close> accepts, apart from \<open>lost\<close>, is still accepted.\<close>

definition keeps_lookup :: "string set \<Rightarrow> int \<Rightarrow> key_model list \<Rightarrow> key_model list \<Rightarrow> bool" where
  "keeps_lookup lost now rows rows' \<longleftrightarrow>
     (\<forall>kid x. kid \<notin> lost \<and> lookup_secret rows now kid = Some x \<longrightarrow> lookup_secret rows' now kid = Some x)"

text \<open>What a step of a transaction on keys of type \<open>t\<close> does to a ready state.\<close>

definition of_type :: "key_type \<Rightarrow> key_model list \<Rightarrow> key_model list" where
  "of_type t rows = filter (\<lambda>r. km_key_type r = t) rows"

definition step_to :: "key_gen \<Rightarrow> string set \<Rightarrow> key_type \<Rightarrow> kdb \<Rightarrow> kdb \<Rightarrow> bool" where
  "step_to G lost t s s' \<longleftrightarrow> ready G s' \<and> kt_now s' = kt_now s \<and> keeps_lookup lost (kt_now s) (kt_rows s) (kt_rows s')
     \<and> (\<forall>t'. t' \<noteq> t \<longrightarrow> of_type t' (kt_rows s') = of_type t' (kt_rows s))
     \<and> (\<forall>r \<in> set (kt_rows s). km_state r = Revoked \<longrightarrow> r \<in> set (kt_rows s'))"

lemma step_to_trans: "step_to G lost t s s1 \<Longrightarrow> step_to G lost t s1 s2 \<Longrightarrow> step_to G lost t s s2"
  by (auto simp: step_to_def keeps_lookup_def)

lemma keys_in_of_type: "keys_in t st rows = filter (\<lambda>r. km_state r = st) (of_type t rows)"
  unfolding keys_in_def of_type_def filter_filter by (intro filter_cong) (auto simp: is_key_def)

lemma constraints_le1: "constraints_ok rows \<Longrightarrow> st \<in> {Active, Next} \<Longrightarrow> length (keys_in t st rows) \<le> 1"
  by (cases t) (auto simp: constraints_ok_def)

lemma keys_in_append: "keys_in t st (xs @ ys) = keys_in t st xs @ keys_in t st ys"
  by (simp add: keys_in_def)

lemma keys_in_Cons: "keys_in t st (x # xs) = (if is_key t st x then [x] else []) @ keys_in t st xs"
  by (simp add: keys_in_def)

lemma find_keys: "find (is_key t st) rows = (case keys_in t st rows of [] \<Rightarrow> None | r # _ \<Rightarrow> Some r)"
  by (induction rows) (auto simp: keys_in_def)

lemma row_replaced:
  assumes "distinct (map km_kid rows)" and "a \<in> set rows" and "km_kid r = km_kid a"
  obtains xs ys where "rows = xs @ a # ys" and "map (\<lambda>x. if km_kid x = km_kid r then r else x) rows = xs @ r # ys"
    and "km_kid a \<notin> km_kid ` set xs" and "km_kid a \<notin> km_kid ` set ys"
proof -
  obtain xs ys where rows: "rows = xs @ a # ys" using split_list [OF assms(2)] by blast
  have "map (\<lambda>x. if km_kid x = km_kid r then r else x) zs = zs" if "km_kid a \<notin> km_kid ` set zs" for zs
    using that assms(3) by (induction zs) auto
  then show ?thesis using that [OF rows] assms(1,3) rows by simp
qed

lemma lookup_secret_Some:
  "distinct (map km_kid rows) \<Longrightarrow> lookup_secret rows now kid = Some x \<longleftrightarrow>
     (\<exists>r \<in> set rows. km_kid r = kid \<and> key_accepted now r \<and> km_secret_bytes r = Some x)"
proof (induction rows)
  case (Cons r rows)
  then show ?case by (auto simp: lookup_secret_def image_iff)
qed (simp add: lookup_secret_def)

lemma constraints_distinct: "constraints_ok rows \<Longrightarrow> distinct (map km_kid rows)"
  by (simp add: constraints_ok_def)

lemma new_kid_inj: "gen_ok G \<Longrightarrow> new_kid G t now m = new_kid G t' now n \<longleftrightarrow> t = t' \<and> m = n"
  by (cases t; cases t') (auto simp: new_kid_def gen_ok_def dest: injD)

lemma new_kid_no_colon: "gen_ok G \<Longrightarrow> CHR '':'' \<notin> set (new_kid G t now n)"
proof -
  have "CHR '':'' \<notin> set (dec_of_int i)" for i
    by (auto simp: dec_of_int_def dec_of_nat_no_char is_ascii_digit_def)
  then show "gen_ok G \<Longrightarrow> ?thesis" by (cases t) (auto simp: new_kid_def gen_ok_def)
qed

lemma write_rows_step:
  assumes "ready G s" and "constraints_ok rows" and "keeps_lookup lost (kt_now s) (kt_rows s) rows"
    and "\<forall>t n. kt_drawn s \<le> n \<longrightarrow> new_kid G t (kt_now s) n \<notin> km_kid ` set rows"
    and "\<forall>t'. t' \<noteq> t \<longrightarrow> of_type t' rows = of_type t' (kt_rows s)"
    and "\<forall>r \<in> set (kt_rows s). km_state r = Revoked \<longrightarrow> r \<in> set rows"
  shows "write_rows rows s = (s\<lparr>kt_rows := rows\<rparr>, Inr ()) \<and> step_to G lost t s (s\<lparr>kt_rows := rows\<rparr>)"
  using assms by (simp add: write_rows_def step_to_def ready_def)

lemma create_step:
  assumes "ready G s" and "keys_in t st (kt_rows s) = []" and "st \<in> {Active, Next}"
  obtains s' r where "create_key G t alg st s = (s', Inr ())" and "step_to G lost t s s'"
    and "kt_rows s' = kt_rows s @ [r]" and "is_key t st r"
proof -
  obtain secret public where m: "key_material G t (kt_drawn s) = Inr (secret, public)"
    using assms(1) unfolding ready_def gen_ok_def by (metis surj_pair)
  let ?kid = "new_kid G t (kt_now s) (kt_drawn s)" and ?s1 = "s\<lparr>kt_drawn := kt_drawn s + 1\<rparr>"
  let ?r = "\<lparr>km_kid = ?kid, km_key_type = t, km_algorithm = alg, km_secret_bytes = secret, km_public_bytes = public,
      km_state = st, km_created_at = kt_now s, km_activated_at = (if st = Active then Some (kt_now s) else None),
      km_retired_at = None, km_revoked_at = None, km_expires_at = None\<rparr>"
  have g: "gen_ok G" and fresh: "?kid \<notin> km_kid ` set (kt_rows s)" and c: "constraints_ok (kt_rows s)"
    using assms(1) by (auto simp: ready_def)
  have c': "constraints_ok (kt_rows s @ [?r])"
    using c fresh assms(2,3) by (cases t) (auto simp: constraints_ok_def keys_in_def is_key_def)
  have "keeps_lookup lost (kt_now s) (kt_rows s) (kt_rows s @ [?r])"
    using constraints_distinct [OF c] constraints_distinct [OF c'] by (auto simp: keeps_lookup_def lookup_secret_Some)
  then have "write_rows (kt_rows s @ [?r]) ?s1 = (?s1\<lparr>kt_rows := kt_rows s @ [?r]\<rparr>, Inr ())
      \<and> step_to G lost t ?s1 (?s1\<lparr>kt_rows := kt_rows s @ [?r]\<rparr>)"
    using assms(1) c' by (intro write_rows_step) (auto simp: ready_def new_kid_inj [OF g] of_type_def)
  moreover have "create_key G t alg st s = insert_row ?r ?s1"
    using m new_kid_no_colon [OF g] by (simp add: create_key_def Let_def)
  ultimately show ?thesis
    using that [of "?s1\<lparr>kt_rows := kt_rows s @ [?r]\<rparr>" ?r] assms(1)
    by (simp add: insert_row_up ready_def step_to_def is_key_def)
qed

lemma replace_step:
  assumes "ready G s" and "a \<in> set (kt_rows s) \<and> km_state a \<noteq> Revoked" and "km_kid r = km_kid a" and "km_key_type r = km_key_type a"
    and "km_secret_bytes r = km_secret_bytes a" and "km_kid a \<notin> lost \<Longrightarrow> key_accepted (kt_now s) a \<Longrightarrow> key_accepted (kt_now s) r"
    and "\<And>t st. st \<in> {Active, Next} \<Longrightarrow> is_key t st r \<Longrightarrow> keys_in t st (kt_rows s) = []"
  obtains s' xs ys where "update_row r s = (s', Inr ())" and "step_to G lost (km_key_type a) s s'"
    and "kt_rows s = xs @ a # ys" and "kt_rows s' = xs @ r # ys"
proof -
  have c: "constraints_ok (kt_rows s)" and d: "distinct (map km_kid (kt_rows s))"
    using assms(1) by (simp_all add: ready_def constraints_ok_def)
  obtain xs ys where rows: "kt_rows s = xs @ a # ys"
      "map (\<lambda>x. if km_kid x = km_kid r then r else x) (kt_rows s) = xs @ r # ys"
    by (rule row_replaced [OF d conjunct1 [OF assms(2)] assms(3)])
  have d': "distinct (map km_kid (xs @ r # ys))" using d rows(1) assms(3) by simp
  have "length (keys_in t st (xs @ r # ys)) \<le> 1" if "st \<in> {Active, Next}" for t st
    using constraints_le1 [OF c that, of t] assms(7) [OF that, of t] rows(1)
    by (auto simp: keys_in_append keys_in_Cons split: if_splits)
  then have c': "constraints_ok (xs @ r # ys)" using d' by (simp add: constraints_ok_def)
  have "keeps_lookup lost (kt_now s) (kt_rows s) (xs @ r # ys)"
    using rows(1) assms(3,5,6) lookup_secret_Some [OF d] lookup_secret_Some [OF d'] by (auto simp: keeps_lookup_def)
  then have "write_rows (xs @ r # ys) s = (s\<lparr>kt_rows := xs @ r # ys\<rparr>, Inr ()) \<and> step_to G lost (km_key_type a) s (s\<lparr>kt_rows := xs @ r # ys\<rparr>)"
    using assms(1) c' rows(1) assms(2-4) by (intro write_rows_step) (auto simp: ready_def of_type_def)
  then show ?thesis
    using that [of "s\<lparr>kt_rows := xs @ r # ys\<rparr>" xs ys] assms(1) rows by (simp add: update_row_up ready_def)
qed

lemma only_key:
  assumes "constraints_ok rows" and "st \<in> {Active, Next}" and "keys_in t st rows = r # rest"
  shows "rest = [] \<and> r \<in> set rows \<and> is_key t st r"
proof -
  have "set (keys_in t st rows) \<subseteq> {x \<in> set rows. is_key t st x}" by (auto simp: keys_in_def)
  then show ?thesis using constraints_le1 [OF assms(1,2), of t] assms(3) by auto
qed

lemma rotate_tail:
  assumes "ready G s" and "keys_in t Active (kt_rows s) = []"
  obtains s' where "txn_bind (select_one (is_key t Next)) (\<lambda>next_key.
       txn_bind (case next_key of Some nk \<Rightarrow> promote nk (kt_now s) | None \<Rightarrow> create_key G t alg Active)
         (\<lambda>_. create_key G t alg Next)) s = (s', Inr ())"
    and "step_to G lost t s s'" and "length (keys_in t Active (kt_rows s')) = 1" and "length (keys_in t Next (kt_rows s')) = 1"
proof -
  have up: "kt_faults s = []" "constraints_ok (kt_rows s)" using assms(1) by (simp_all add: ready_def)
  have "\<exists>s1. (case find (is_key t Next) (kt_rows s) of Some nk \<Rightarrow> promote nk (kt_now s) | None \<Rightarrow> create_key G t alg Active) s = (s1, Inr ())
      \<and> step_to G lost t s s1 \<and> length (keys_in t Active (kt_rows s1)) = 1 \<and> keys_in t Next (kt_rows s1) = []"
  proof (cases "keys_in t Next (kt_rows s)")
    case Nil
    obtain s1 r where "create_key G t alg Active s = (s1, Inr ())" "step_to G lost t s s1" "kt_rows s1 = kt_rows s @ [r]" "is_key t Active r"
      using create_step [OF assms, of alg lost] by blast
    then show ?thesis using Nil assms(2) by (auto simp: find_keys keys_in_append keys_in_Cons keys_in_def [of _ _ "[]"] is_key_def)
  next
    case (Cons nk rest)
    then have nk: "nk \<in> set (kt_rows s) \<and> km_state nk \<noteq> Revoked" "is_key t Next nk" and rest: "rest = []"
      using only_key [OF up(2) _ Cons] by (simp_all add: is_key_def)
    let ?r = "nk\<lparr>km_state := Active, km_activated_at := Some (kt_now s)\<rparr>"
    have acc: "key_accepted (kt_now s) nk \<Longrightarrow> key_accepted (kt_now s) ?r" by (simp add: key_accepted_def)
    have only: "keys_in t' st (kt_rows s) = []" if "is_key t' st ?r" for t' st
      using that nk(2) assms(2) by (simp add: is_key_def)
    obtain s1 xs ys where s1: "update_row ?r s = (s1, Inr ())" "step_to G lost t s s1" "kt_rows s = xs @ nk # ys" "kt_rows s1 = xs @ ?r # ys"
      using replace_step [OF assms(1) nk(1), of ?r lost] acc only nk(2) by (auto simp: is_key_def)
    then show ?thesis
      using Cons rest nk(2) assms(2)
      by (auto simp: find_keys promote_def keys_in_append keys_in_Cons is_key_def append_eq_Cons_conv split: if_splits)
  qed
  then obtain s1 where s1: "(case find (is_key t Next) (kt_rows s) of Some nk \<Rightarrow> promote nk (kt_now s) | None \<Rightarrow> create_key G t alg Active) s = (s1, Inr ())"
      "step_to G lost t s s1" "length (keys_in t Active (kt_rows s1)) = 1" "keys_in t Next (kt_rows s1) = []" by blast
  then have "ready G s1" by (simp add: step_to_def)
  then obtain s2 r where s2: "create_key G t alg Next s1 = (s2, Inr ())" "step_to G lost t s1 s2" "kt_rows s2 = kt_rows s1 @ [r]" "is_key t Next r"
    using create_step [OF _ s1(4), of G alg lost] by blast
  show ?thesis
  proof (rule that [of s2])
    show "txn_bind (select_one (is_key t Next)) (\<lambda>next_key.
       txn_bind (case next_key of Some nk \<Rightarrow> promote nk (kt_now s) | None \<Rightarrow> create_key G t alg Active)
         (\<lambda>_. create_key G t alg Next)) s = (s2, Inr ())"
      using up(1) s1(1) s2(1) by (simp add: select_one_up txn_bind_Inr)
    show "step_to G lost t s s2" using step_to_trans [OF s1(2) s2(2)] .
    show "length (keys_in t Active (kt_rows s2)) = 1" "length (keys_in t Next (kt_rows s2)) = 1"
      using s1(3,4) s2(3,4) by (auto simp: keys_in_append keys_in_Cons is_key_def, simp_all add: keys_in_def)
  qed
qed

definition settled :: "key_type \<Rightarrow> kdb \<Rightarrow> bool" where
  "settled t s \<longleftrightarrow> length (keys_in t Active (kt_rows s)) = 1 \<and> length (keys_in t Next (kt_rows s)) = 1"

lemma retire_step:
  assumes "ready G s" and "keys_in t Active (kt_rows s) = [a]" and "st \<in> {Retired, Revoked}"
    and "km_kid r = km_kid a" and "km_key_type r = km_key_type a" and "km_secret_bytes r = km_secret_bytes a"
    and "km_state r = st" and "km_kid a \<notin> lost \<Longrightarrow> st = Retired \<and> km_retired_at r = Some (kt_now s)"
  obtains s' where "update_row r s = (s', Inr ())" and "step_to G lost t s s'" and "keys_in t Active (kt_rows s') = []"
    and "keys_in t Next (kt_rows s') = keys_in t Next (kt_rows s)"
proof -
  have c: "constraints_ok (kt_rows s)" using assms(1) by (simp add: ready_def)
  have a: "a \<in> set (kt_rows s) \<and> km_state a \<noteq> Revoked" "is_key t Active a"
    using only_key [OF c _ assms(2)] by (simp_all add: is_key_def)
  have acc: "km_kid a \<notin> lost \<Longrightarrow> key_accepted (kt_now s) a \<Longrightarrow> key_accepted (kt_now s) r"
    using assms(5,7,8) by (auto simp: key_accepted_def MICROS_PER_DAY_def)
  have none: "st' \<in> {Active, Next} \<Longrightarrow> is_key t' st' r \<Longrightarrow> keys_in t' st' (kt_rows s) = []" for t' st'
    using assms(3,7) by (auto simp: is_key_def)
  obtain s' xs ys where s': "update_row r s = (s', Inr ())" "step_to G lost t s s'" "kt_rows s = xs @ a # ys" "kt_rows s' = xs @ r # ys"
    by (rule replace_step [OF assms(1) a(1) assms(4-6) acc none]) (use a(2) in \<open>auto simp: is_key_def\<close>)
  then show ?thesis
    using assms(2,3,7) a(2)
    by (intro that [OF s'(1,2)]) (auto simp: keys_in_append keys_in_Cons is_key_def append_eq_Cons_conv split: if_splits)
qed

lemma prune_step:
  assumes "ready G s"
  obtains s' where "prune_retired t (kt_now s) s = (s', Inr ())" and "step_to G lost t s s'"
    and "\<forall>t' st. st \<in> {Active, Next} \<longrightarrow> keys_in t' st (kt_rows s') = keys_in t' st (kt_rows s)"
proof -
  define old where "old = (\<lambda>r. is_key t Retired r
      \<and> (case km_retired_at r of Some x \<Rightarrow> x < kt_now s - 2 * MICROS_PER_DAY | None \<Rightarrow> False))"
  define rows where "rows = filter (\<lambda>r. \<not> old r) (kt_rows s)"
  have c: "constraints_ok (kt_rows s)" and d: "distinct (map km_kid (kt_rows s))" and f: "kt_faults s = []"
    using assms by (simp_all add: ready_def constraints_ok_def)
  have k: "keys_in t' st rows = keys_in t' st (kt_rows s)" if "st \<in> {Active, Next}" for t' st
    using that unfolding keys_in_def rows_def filter_filter by (intro filter_cong) (auto simp: is_key_def old_def)
  have d': "distinct (map km_kid rows)" using d by (simp add: distinct_map_filter rows_def)
  have c': "constraints_ok rows" using c d' by (simp add: constraints_ok_def k)
  have "r \<in> set rows" if "r \<in> set (kt_rows s)" "key_accepted (kt_now s) r" for r
    using that by (auto simp: key_accepted_def is_key_def old_def rows_def split: option.splits)
  then have "keeps_lookup lost (kt_now s) (kt_rows s) rows"
    unfolding keeps_lookup_def lookup_secret_Some [OF d] lookup_secret_Some [OF d'] by blast
  moreover have "km_kid ` set rows \<subseteq> km_kid ` set (kt_rows s)" by (auto simp: rows_def)
  moreover have frame: "of_type t' rows = of_type t' (kt_rows s)" if "t' \<noteq> t" for t'
    using that unfolding of_type_def rows_def filter_filter by (intro filter_cong) (auto simp: is_key_def old_def)
  moreover have revoked: "r \<in> set rows" if "r \<in> set (kt_rows s)" "km_state r = Revoked" for r
    using that by (auto simp: rows_def old_def is_key_def)
  ultimately have "step_to G lost t s (s\<lparr>kt_rows := rows\<rparr>)"
    using assms c' frame revoked unfolding step_to_def ready_def by simp blast
  moreover have "prune_retired t (kt_now s) s = (s\<lparr>kt_rows := rows\<rparr>, Inr ())"
    using f by (simp add: prune_retired_def delete_rows_up rows_def old_def)
  ultimately show ?thesis using that k by simp
qed

lemma ensure_next_step:
  assumes "ready G s" and "length (keys_in t Active (kt_rows s)) = 1"
  obtains s' where "ensure_next G t alg s = (s', Inr ())" and "step_to G lost t s s'" and "settled t s'"
proof (cases "keys_in t Next (kt_rows s)")
  case Nil
  then obtain s' r where "create_key G t alg Next s = (s', Inr ())" "step_to G lost t s s'" "kt_rows s' = kt_rows s @ [r]" "is_key t Next r"
    using create_step [OF assms(1), of t Next alg lost] by blast
  then show ?thesis
    using that [of s'] assms Nil
    by (auto simp: ensure_next_def ready_def select_one_up txn_bind_Inr find_keys settled_def keys_in_append keys_in_Cons is_key_def)
      (simp add: keys_in_def)
next
  case (Cons r rest)
  have "constraints_ok (kt_rows s)" using assms(1) by (simp add: ready_def)
  with Cons have "rest = []" using only_key by blast
  then show ?thesis
    using that [of s] assms Cons
    by (auto simp: ensure_next_def ready_def select_one_up txn_bind_Inr find_keys settled_def step_to_def keeps_lookup_def txn_return_def)
qed

lemma create_both_step:
  assumes "ready G s" and "keys_in t Active (kt_rows s) = []" and "keys_in t Next (kt_rows s) = []"
  obtains s' where "txn_bind (create_key G t alg Active) (\<lambda>_. create_key G t alg Next) s = (s', Inr ())"
    and "step_to G lost t s s'" and "settled t s'"
proof -
  have f: "find (is_key t Next) (kt_rows s) = None" using assms(3) by (simp add: find_keys)
  have up: "kt_faults s = []" using assms(1) by (simp add: ready_def)
  show ?thesis
    by (rule rotate_tail [OF assms(1,2), of alg lost]) (use that f up in \<open>simp add: txn_bind_Inr select_one_up settled_def\<close>)
qed

lemma rotate_active_step:
  assumes "ready G s" and "keys_in t Active (kt_rows s) = [a]"
  obtains s' where "rotate_active G t alg (kt_now s) a s = (s', Inr ())" and "step_to G {} t s s'" and "settled t s'"
proof -
  obtain s1 where s1: "update_row (a\<lparr>km_state := Retired, km_retired_at := Some (kt_now s)\<rparr>) s = (s1, Inr ())"
      "step_to G {} t s s1" "keys_in t Active (kt_rows s1) = []"
    by (rule retire_step [OF assms, of Retired "a\<lparr>km_state := Retired, km_retired_at := Some (kt_now s)\<rparr>" "{}"]) simp_all
  have r: "ready G s1" and now: "kt_now s1 = kt_now s" using s1(2) by (simp_all add: step_to_def)
  obtain s2 where s2: "txn_bind (select_one (is_key t Next)) (\<lambda>next_key.
       txn_bind (case next_key of Some nk \<Rightarrow> promote nk (kt_now s1) | None \<Rightarrow> create_key G t alg Active)
         (\<lambda>_. create_key G t alg Next)) s1 = (s2, Inr ())" "step_to G {} t s1 s2" "settled t s2"
    by (rule rotate_tail [OF r s1(3), of alg "{}"]) (simp add: settled_def)
  show ?thesis
    using that [of s2] s1(1) s2(1) [unfolded now] s2(3) step_to_trans [OF s1(2) s2(2)]
    by (simp add: rotate_active_def txn_bind_Inr)
qed

lemma rotate_body_step:
  assumes "ready G s" and "keys_in t Active (kt_rows s) = [] \<longrightarrow> keys_in t Next (kt_rows s) = []"
  obtains s' where "rotate_body G t alg (kt_now s) (find (is_key t Active) (kt_rows s)) s = (s', Inr ())"
    and "step_to G {} t s s'" and "settled t s'"
proof (cases "keys_in t Active (kt_rows s)")
  case Nil
  then have n: "keys_in t Next (kt_rows s) = []" using assms(2) by simp
  obtain s' where "txn_bind (create_key G t alg Active) (\<lambda>_. create_key G t alg Next) s = (s', Inr ())"
      "step_to G {} t s s'" "settled t s'"
    by (rule create_both_step [OF assms(1) Nil n, of alg "{}"])
  then show ?thesis using that [of s'] Nil by (simp add: rotate_body_def find_keys)
next
  case (Cons a rest)
  have "constraints_ok (kt_rows s)" using assms(1) by (simp add: ready_def)
  with Cons have a: "keys_in t Active (kt_rows s) = [a]" using only_key by blast
  then have one: "length (keys_in t Active (kt_rows s)) = 1" by simp
  show ?thesis
  proof (cases "kt_now s \<ge> (case km_activated_at a of Some x \<Rightarrow> x | None \<Rightarrow> km_created_at a) + 30 * MICROS_PER_DAY")
    case True
    obtain s' where "rotate_active G t alg (kt_now s) a s = (s', Inr ())" "step_to G {} t s s'" "settled t s'"
      by (rule rotate_active_step [OF assms(1) a, of alg])
    then show ?thesis using that [of s'] True a by (simp add: rotate_body_def find_keys)
  next
    case False
    obtain s' where "ensure_next G t alg s = (s', Inr ())" "step_to G {} t s s'" "settled t s'"
      by (rule ensure_next_step [OF assms(1) one, of alg "{}"])
    then show ?thesis using that [of s'] False a by (simp add: rotate_body_def find_keys)
  qed
qed

lemma rotate_key_type_step:
  assumes "ready G s" and "keys_in t Active (kt_rows s) = [] \<longrightarrow> keys_in t Next (kt_rows s) = []"
  obtains s' where "rotate_key_type G t alg s = (s', Inr ())" and "step_to G {} t s s'" and "settled t s'"
proof -
  obtain s1 where s1: "rotate_body G t alg (kt_now s) (find (is_key t Active) (kt_rows s)) s = (s1, Inr ())"
      "step_to G {} t s s1" "settled t s1"
    by (rule rotate_body_step [OF assms, of alg])
  have r: "ready G s1" and now: "kt_now s1 = kt_now s" using s1(2) by (simp_all add: step_to_def)
  obtain s2 where s2: "prune_retired t (kt_now s1) s1 = (s2, Inr ())" "step_to G {} t s1 s2"
      "\<forall>t' st. st \<in> {Active, Next} \<longrightarrow> keys_in t' st (kt_rows s2) = keys_in t' st (kt_rows s1)"
    by (rule prune_step [OF r, of t "{}"])
  have f: "kt_faults s = []" "kt_faults s2 = []" using assms(1) s2(2) by (simp_all add: ready_def step_to_def)
  have "rotate_key_type G t alg s = (s2, Inr ())"
    unfolding rotate_key_type_def
    using f s1(1) s2(1) now
    by (intro transaction_up) (simp_all add: txn_up Let_def)
  then show ?thesis
    using that [of s2] step_to_trans [OF s1(2) s2(2)] s1(3) s2(3) by (simp add: settled_def)
qed

section \<open>Rotation and revocation\<close>

lemma transaction_rolls_back: "transaction body s = (s', Inl e) \<Longrightarrow> kt_rows s' = kt_rows s"
  by (auto simp: transaction_def split: prod.splits sum.splits)

lemma settled_other:
  "step_to G lost t s s' \<Longrightarrow> t' \<noteq> t \<Longrightarrow> keys_in t' st (kt_rows s') = keys_in t' st (kt_rows s)"
  by (simp add: step_to_def keys_in_of_type)

text \<open>
  C17 (liveness): rotation keeps the service running. On a table that satisfies its
  constraints and holds no next key without an active one, as long as the database answers,
  \<open>rotate_keys\<close> succeeds, leaves exactly one active and one next key of each type, never
  violates a unique index on the way, and every key that \<open>authorize_tenant\<close> accepts, with
  its secret, is still accepted afterwards.
\<close>

theorem rotation_keeps_service:
  assumes "ready G s" and "\<forall>t. keys_in t Active (kt_rows s) = [] \<longrightarrow> keys_in t Next (kt_rows s) = []"
    and "is_system ctx" and "context_db ctx = Inr db"
  shows "\<exists>s'. rotate_keys G ctx s = (s', Inr ()) \<and> ready G s'
    \<and> (\<forall>t. length (keys_in t Active (kt_rows s')) = 1 \<and> length (keys_in t Next (kt_rows s')) = 1)
    \<and> (\<forall>kid x. lookup_secret (kt_rows s) (kt_now s) kid = Some x \<longrightarrow> lookup_secret (kt_rows s') (kt_now s) kid = Some x)"
proof -
  obtain s1 where s1: "rotate_key_type G Hmac ''HS256'' s = (s1, Inr ())" "step_to G {} Hmac s s1" "settled Hmac s1"
    by (rule rotate_key_type_step [OF assms(1) spec [OF assms(2)]])
  have other: "keys_in PasetoPublic st (kt_rows s1) = keys_in PasetoPublic st (kt_rows s)" for st
    using settled_other [OF s1(2)] by simp
  have next1: "keys_in PasetoPublic Active (kt_rows s1) = [] \<longrightarrow> keys_in PasetoPublic Next (kt_rows s1) = []"
    using assms(2) by (simp add: other)
  have r1: "ready G s1" using s1(2) by (simp add: step_to_def)
  obtain s2 where s2: "rotate_key_type G PasetoPublic ''Ed25519'' s1 = (s2, Inr ())" "step_to G {} PasetoPublic s1 s2"
      "settled PasetoPublic s2"
    by (rule rotate_key_type_step [OF r1 next1])
  have "settled t s2" for t
    using s1(3) s2(3) settled_other [OF s2(2), of Hmac] by (cases t) (auto simp: settled_def)
  moreover have "rotate_keys G ctx s = (s2, Inr ())"
    using assms(3,4) s1(1) s2(1) by (simp add: rotate_keys_def ensure_system_def with_context_def txn_bind_Inr)
  ultimately show ?thesis
    using s1(2) s2(2) by (auto simp: settled_def step_to_def keeps_lookup_def)
qed

definition sample_gen :: key_gen where
  "sample_gen = \<lparr>kg_uuid = (\<lambda>n. replicate n CHR ''u''), kg_hmac_key = (\<lambda>n. Some ''secret''), kg_pkcs8 = (\<lambda>n. Inr ''pkcs8''),
     kg_public_key = (\<lambda>k. Inr ''public'')\<rparr>"

lemma sample_gen_ok: "gen_ok sample_gen"
proof -
  have "inj (\<lambda>n. replicate n CHR ''u'')" by (metis injI length_replicate)
  then show ?thesis
    by (auto simp: gen_ok_def sample_gen_def key_material_def split: key_type.split)
qed

definition empty_kdb :: kdb where
  "empty_kdb = \<lparr>kt_rows = [], kt_now = 0, kt_drawn = 0, kt_faults = []\<rparr>"

lemma empty_ready: "ready sample_gen empty_kdb"
  by (simp add: ready_def sample_gen_ok empty_kdb_def constraints_ok_def keys_in_def)

theorem rotation_keeps_service_witness:
  "\<exists>s'. rotate_keys sample_gen (with_db system_tenant_context ()) empty_kdb = (s', Inr ())
     \<and> length (keys_in Hmac Active (kt_rows s')) = 1 \<and> length (keys_in PasetoPublic Next (kt_rows s')) = 1"
proof -
  have "is_system (with_db system_tenant_context ())" "context_db (with_db system_tenant_context ()) = Inr ()"
    by (simp_all add: is_system_def with_db_def system_tenant_context_def context_db_def)
  then show ?thesis
    using rotation_keeps_service [OF empty_ready, of "with_db system_tenant_context ()" "()"]
    by (auto simp: empty_kdb_def keys_in_def)
qed

lemma revoked_lookup:
  assumes "distinct (map km_kid rows)" and "r \<in> set rows" and "km_state r = Revoked"
  shows "lookup_secret rows now (km_kid r) = None"
proof -
  have "lookup_secret rows now (km_kid r) \<noteq> Some x" for x
    using assms inj_onD [OF distinct_map [THEN iffD1, OF assms(1), THEN conjunct2], of r]
    by (auto simp: lookup_secret_Some [OF assms(1)] key_accepted_def) (metis key_state.distinct)+
  then show ?thesis by (cases "lookup_secret rows now (km_kid r)") auto
qed

lemma replace_active_step:
  assumes "ready G s" and "keys_in t Active (kt_rows s) = []"
  obtains s' where "replace_active G t alg (kt_now s) s = (s', Inr ())" and "step_to G lost t s s'" and "settled t s'"
proof -
  obtain s' where s': "txn_bind (select_one (is_key t Next)) (\<lambda>next_key.
       txn_bind (case next_key of Some nk \<Rightarrow> promote nk (kt_now s) | None \<Rightarrow> create_key G t alg Active)
         (\<lambda>_. create_key G t alg Next)) s = (s', Inr ())" "step_to G lost t s s'" "settled t s'"
    by (rule rotate_tail [OF assms, of alg lost]) (simp add: settled_def)
  have up: "kt_faults s = []" using assms(1) by (simp add: ready_def)
  have none: "find (is_key t Active) (kt_rows s) = None" using assms(2) by (simp add: find_keys)
  have "replace_active G t alg (kt_now s) s = (s', Inr ())"
    using s'(1) none up
    by (cases "find (is_key t Next) (kt_rows s)") (simp_all add: replace_active_def bind_select)
  then show ?thesis using s' by (intro that)
qed

lemma find_by_kid: "distinct (map km_kid rows) \<Longrightarrow> k \<in> set rows \<Longrightarrow> find (\<lambda>r. km_kid r = km_kid k) rows = Some k"
  by (induction rows) (auto simp: image_iff)

text \<open>
  C27 (safety): revocation is immediate and leaves the service running. Revoking a key that
  is not yet revoked succeeds as long as the database answers; from then on no token under
  that key is accepted, at any time; every other accepted key stays accepted; and if the key
  was the active one, there is again exactly one active and one next key of its type.
\<close>

theorem revocation_is_immediate:
  assumes "ready G s" and "is_system ctx" and "context_db ctx = Inr db"
    and "k \<in> set (kt_rows s)" and "km_state k \<noteq> Revoked"
  shows "\<exists>s'. revoke_key G ctx (km_kid k) s = (s', Inr ()) \<and> ready G s'
    \<and> (\<forall>now. lookup_secret (kt_rows s') now (km_kid k) = None)
    \<and> (\<forall>kid x. kid \<noteq> km_kid k \<and> lookup_secret (kt_rows s) (kt_now s) kid = Some x \<longrightarrow>
         lookup_secret (kt_rows s') (kt_now s) kid = Some x)
    \<and> (km_state k = Active \<longrightarrow> length (keys_in (km_key_type k) Active (kt_rows s')) = 1
         \<and> length (keys_in (km_key_type k) Next (kt_rows s')) = 1)"
proof -
  let ?r = "k\<lparr>km_state := Revoked, km_revoked_at := Some (kt_now s)\<rparr>" and ?t = "km_key_type k"
  have up: "kt_faults s = []" and c: "constraints_ok (kt_rows s)" and d: "distinct (map km_kid (kt_rows s))"
    using assms(1) by (simp_all add: ready_def constraints_ok_def)
  have found: "find (\<lambda>r. km_kid r = km_kid k) (kt_rows s) = Some k"
    by (rule find_by_kid [OF d assms(4)])
  have here: "k \<in> set (kt_rows s) \<and> km_state k \<noteq> Revoked" using assms(4,5) by simp
  have same: "km_kid ?r = km_kid k" "km_key_type ?r = km_key_type k" "km_secret_bytes ?r = km_secret_bytes k" by simp_all
  have gone: "km_kid k \<notin> {km_kid k} \<Longrightarrow> key_accepted (kt_now s) k \<Longrightarrow> key_accepted (kt_now s) ?r" by simp
  have none: "st \<in> {Active, Next} \<Longrightarrow> is_key t st ?r \<Longrightarrow> keys_in t st (kt_rows s) = []" for t st
    by (auto simp: is_key_def)
  obtain s1 xs ys where s1: "update_row ?r s = (s1, Inr ())" "step_to G {km_kid k} ?t s s1"
      "kt_rows s = xs @ k # ys" "kt_rows s1 = xs @ ?r # ys"
    by (rule replace_step [OF assms(1) here same gone none])
  have r1: "ready G s1" "kt_now s1 = kt_now s" using s1(2) by (simp_all add: step_to_def)
  have r_in: "?r \<in> set (kt_rows s1)" by (simp add: s1(4))
  have "\<exists>s2. (if km_state k = Active then replace_active G ?t (km_algorithm k) (kt_now s) else txn_return ()) s1 = (s2, Inr ())
      \<and> step_to G {km_kid k} ?t s s2 \<and> ?r \<in> set (kt_rows s2) \<and> (km_state k = Active \<longrightarrow> settled ?t s2)"
  proof (cases "km_state k = Active")
    case True
    then have "keys_in ?t Active (kt_rows s1) = []"
      using constraints_le1 [OF c, of Active ?t] s1(3,4) by (auto simp: keys_in_append keys_in_Cons is_key_def)
    then obtain s2 where s2: "replace_active G ?t (km_algorithm k) (kt_now s1) s1 = (s2, Inr ())"
        "step_to G {km_kid k} ?t s1 s2" "settled ?t s2"
      by (rule replace_active_step [OF r1(1), of ?t "km_algorithm k" "{km_kid k}"])
    have "\<forall>r \<in> set (kt_rows s1). km_state r = Revoked \<longrightarrow> r \<in> set (kt_rows s2)"
      using s2(2) unfolding step_to_def by blast
    then have "?r \<in> set (kt_rows s2)" using r_in by simp
    then show ?thesis
      using True s2(1) [unfolded r1(2)] s2(3) step_to_trans [OF s1(2) s2(2)] by (intro exI [of _ s2]) simp
  qed (use s1(2) r_in in \<open>simp add: txn_return_def\<close>)
  then obtain s2 where s2: "(if km_state k = Active then replace_active G ?t (km_algorithm k) (kt_now s) else txn_return ()) s1 = (s2, Inr ())"
      "step_to G {km_kid k} ?t s s2" "?r \<in> set (kt_rows s2)" "km_state k = Active \<longrightarrow> settled ?t s2" by blast
  have "ready G s2" using s2(2) unfolding step_to_def by blast
  then have ready2: "ready G s2" "kt_faults s2 = []" "distinct (map km_kid (kt_rows s2))"
    by (simp_all add: ready_def constraints_ok_def)
  have "revoke_key G ctx (km_kid k) s = (s2, Inr ())"
    using assms(2,3) up found s1(1) s2(1) ready2(2)
    by (simp add: revoke_key_def ensure_system_def with_context_def)
      (intro transaction_up; simp add: bind_select txn_bind_Inr)
  then show ?thesis
    using ready2 s2(2,4) revoked_lookup [OF ready2(3) s2(3)] by (auto simp: step_to_def keeps_lookup_def settled_def)
qed

theorem revocation_is_immediate_witness:
  "\<exists>s'. revoke_key sample_gen (with_db system_tenant_context ()) ''hmac-1''
      \<lparr>kt_rows = [\<lparr>km_kid = ''hmac-1'', km_key_type = Hmac, km_algorithm = ''HS256'', km_secret_bytes = Some ''s'',
         km_public_bytes = None, km_state = Active, km_created_at = 0, km_activated_at = None, km_retired_at = None,
         km_revoked_at = None, km_expires_at = None\<rparr>], kt_now = 5, kt_drawn = 0, kt_faults = []\<rparr> = (s', Inr ())
     \<and> lookup_secret (kt_rows s') 5 ''hmac-1'' = None \<and> length (keys_in Hmac Active (kt_rows s')) = 1"
proof -
  let ?k = "\<lparr>km_kid = ''hmac-1'', km_key_type = Hmac, km_algorithm = ''HS256'', km_secret_bytes = Some ''s'',
         km_public_bytes = None, km_state = Active, km_created_at = 0, km_activated_at = None, km_retired_at = None,
         km_revoked_at = None, km_expires_at = None\<rparr>"
  let ?s = "\<lparr>kt_rows = [?k], kt_now = 5, kt_drawn = 0, kt_faults = []\<rparr>"
  have "dec_of_int (timestamp 5) = ''0''" by code_simp
  then have n: "new_kid sample_gen t 5 n \<noteq> ''hmac-1''" for t n
    by (cases t) (simp_all add: new_kid_def)
  have r: "ready sample_gen ?s"
    using n by (auto simp: ready_def sample_gen_ok constraints_ok_def keys_in_def)
  have "is_system (with_db system_tenant_context ())" "context_db (with_db system_tenant_context ()) = Inr ()"
    by (simp_all add: is_system_def with_db_def system_tenant_context_def context_db_def)
  from revocation_is_immediate [OF r this, of ?k] show ?thesis by auto
qed

section \<open>Redeeming tokens\<close>

lemma dec_of_int_no_colon: "CHR '':'' \<notin> set (dec_of_int i)"
  by (auto simp: dec_of_int_def dec_of_nat_no_char is_ascii_digit_def)

lemma split_token:
  assumes "\<forall>p \<in> set ps. CHR '':'' \<notin> set p" and "ps \<noteq> []"
  shows "split_char (CHR '':'') (join '':'' ps) = ps"
  using assms by (intro split_char_join) auto

lemma generate_token_Inr:
  assumes "generate_tenant_token G hmac_hex ctx t s = (s', Inr token)"
  shows "(is_system ctx \<or> ctx_tenant_id ctx = t)
    \<and> (\<exists>k secret n. find (is_key Hmac Active) (kt_rows s) = Some k \<and> km_secret_bytes k = Some secret
        \<and> token = join '':'' [''v2'', km_kid k, dec_of_int (timestamp (kt_now s)), kg_uuid G n, tenant_str t,
             hmac_hex secret (token_message (km_kid k) (dec_of_int (timestamp (kt_now s))) (kg_uuid G n) (tenant_str t))])"
  using assms
  by (auto simp: generate_tenant_token_def txn_bind_def get_active_key_internal_def with_context_def select_one_def statement_def
      txn_return_def txn_fail_def Let_def split: if_splits sum.splits option.splits prod.splits)

lemma generated_token_accepted:
  assumes "generate_tenant_token G hmac_hex ctx t s = (s', Inr token)"
    and "is_valid_principal (tenant_str t)" and "\<forall>n. CHR '':'' \<notin> set (kg_uuid G n)"
    and "\<forall>r \<in> set (kt_rows s). CHR '':'' \<notin> set (km_kid r)" and "\<forall>k m. CHR '':'' \<notin> set (hmac_hex k m)"
    and "\<forall>i. bigint (dec_of_int i) = Some i" and "\<bar>timestamp (kt_now s) - (now + 500000) div 1000000\<bar> \<le> 30"
    and "\<forall>k x. find (is_key Hmac Active) (kt_rows s) = Some k \<and> km_secret_bytes k = Some x \<longrightarrow> lookup_secret rows now (km_kid k) = Some x"
    and "\<forall>n. kg_uuid G n \<notin> set (pg_nonces pg)" and "pg_hmac_secret pg = Some secret" and "secret \<noteq> []"
  obtains kid ts nonce sig where "split_char (CHR '':'') token = [''v2'', kid, ts, nonce, tenant_str t, sig]"
    "kid \<in> km_kid ` set (kt_rows s)" "ts \<noteq> []" "nonce \<in> range (kg_uuid G)" "sig \<in> range (\<lambda>(k, m). hmac_hex k m)"
    "authorize_tenant hmac_hex bigint rows now token pg = Inr (pg\<lparr>pg_nonces := nonce # pg_nonces pg,
       pg_current_tenant := Some (tenant_str t), pg_ctx_sig := Some (hmac_hex secret (tenant_str t))\<rparr>)"
proof -
  obtain k x n where k: "find (is_key Hmac Active) (kt_rows s) = Some k" "km_secret_bytes k = Some x"
      and tok: "token = join '':'' [''v2'', km_kid k, dec_of_int (timestamp (kt_now s)), kg_uuid G n, tenant_str t,
         hmac_hex x (token_message (km_kid k) (dec_of_int (timestamp (kt_now s))) (kg_uuid G n) (tenant_str t))]"
    using generate_token_Inr [OF assms(1)] by blast
  let ?ts = "dec_of_int (timestamp (kt_now s))" and ?nonce = "kg_uuid G n"
  let ?sig = "hmac_hex x (token_message (km_kid k) ?ts ?nonce (tenant_str t))"
  have kid: "km_kid k \<in> km_kid ` set (kt_rows s)" using k(1) by (auto simp: find_Some_iff)
  then have "CHR '':'' \<notin> set (km_kid k)" using assms(4) by auto
  moreover have "CHR '':'' \<notin> set (tenant_str t)" using colon_key.field_sep [OF assms(2)] .
  ultimately have split: "split_char (CHR '':'') token = [''v2'', km_kid k, ?ts, ?nonce, tenant_str t, ?sig]"
    unfolding tok using assms(3,5) dec_of_int_no_colon by (intro split_token) auto
  have ne: "token \<noteq> []" using split by auto
  have "authorize_tenant hmac_hex bigint rows now token pg = Inr (pg\<lparr>pg_nonces := ?nonce # pg_nonces pg,
       pg_current_tenant := Some (tenant_str t), pg_ctx_sig := Some (hmac_hex secret (tenant_str t))\<rparr>)"
    using assms(6-11) k by (simp add: authorize_tenant_def split ne Let_def token_message_def abs_le_iff)
  moreover have "?ts \<noteq> []" using dec_of_nat_digits by (auto simp: dec_of_int_def)
  moreover have "?sig \<in> range (\<lambda>(k, m). hmac_hex k m)" by (rule range_eqI [of _ _ "(x, token_message (km_kid k) ?ts ?nonce (tenant_str t))"]) simp
  ultimately show thesis using that split kid by blast
qed

text \<open>
  a tenant token is good for its tenant, once. A token that
  \<open>generate_tenant_token\<close> issued (which it does only for the tenant of the context or for the
  system) and that is presented within 30 seconds to a database that still accepts the
  signing key authorises exactly the tenant it was issued for; presented again, at any time
  and against any key table, it is refused.
\<close>

theorem token_redeemed_once:
  assumes "generate_tenant_token G hmac_hex ctx t s = (s', Inr token)"
    and "is_valid_principal (tenant_str t)" and "\<forall>n. CHR '':'' \<notin> set (kg_uuid G n)"
    and "\<forall>r \<in> set (kt_rows s). CHR '':'' \<notin> set (km_kid r)" and "\<forall>k m. CHR '':'' \<notin> set (hmac_hex k m)"
    and "\<forall>i. bigint (dec_of_int i) = Some i" and "\<bar>timestamp (kt_now s) - (now + 500000) div 1000000\<bar> \<le> 30"
    and "\<forall>k x. find (is_key Hmac Active) (kt_rows s) = Some k \<and> km_secret_bytes k = Some x \<longrightarrow> lookup_secret rows now (km_kid k) = Some x"
    and "\<forall>n. kg_uuid G n \<notin> set (pg_nonces pg)" and "pg_hmac_secret pg = Some secret" and "secret \<noteq> []"
  shows "\<exists>pg'. authorize_tenant hmac_hex bigint rows now token pg = Inr pg' \<and> pg_current_tenant pg' = Some (tenant_str t)
    \<and> (is_system ctx \<or> ctx_tenant_id ctx = t)
    \<and> (\<forall>rows2 now2 pg2. set (pg_nonces pg') \<subseteq> set (pg_nonces pg2) \<longrightarrow>
         (\<exists>e. authorize_tenant hmac_hex bigint rows2 now2 token pg2 = Inl e))"
proof -
  obtain kid ts nonce sig where split: "split_char (CHR '':'') token = [''v2'', kid, ts, nonce, tenant_str t, sig]"
      and ok: "authorize_tenant hmac_hex bigint rows now token pg = Inr (pg\<lparr>pg_nonces := nonce # pg_nonces pg,
       pg_current_tenant := Some (tenant_str t), pg_ctx_sig := Some (hmac_hex secret (tenant_str t))\<rparr>)"
    by (rule generated_token_accepted [OF assms]) blast
  have "\<exists>e. authorize_tenant hmac_hex bigint rows2 now2 token pg2 = Inl e"
    if "nonce \<in> set (pg_nonces pg2)" for rows2 now2 pg2
    using that by (auto simp: authorize_tenant_def split Let_def split: option.splits)
  with ok generate_token_Inr [OF assms(1)] show ?thesis by fastforce
qed

text \<open>A cast that reads what \<open>dec_of_int\<close> writes, and one active key.\<close>

definition sample_bigint :: "string \<Rightarrow> int option" where
  "sample_bigint s = (case s of [] \<Rightarrow> None | c # r \<Rightarrow> Some (if c = CHR ''-'' then - int (digits_value r) else int (digits_value s)))"

lemma sample_bigint_dec: "sample_bigint (dec_of_int i) = Some i"
proof -
  have "CHR ''-'' \<notin> set (dec_of_nat n)" for n by (simp add: dec_of_nat_no_char is_ascii_digit_def)
  moreover have "dec_of_nat n \<noteq> []" for n using dec_of_nat_digits by blast
  ultimately have "\<exists>c r. dec_of_nat n = c # r \<and> c \<noteq> CHR ''-''" for n by (cases "dec_of_nat n") (auto, metis list.set_intros(1))
  then obtain c r where "dec_of_nat (nat i) = c # r" "c \<noteq> CHR ''-''" by blast
  then show ?thesis
    using digits_value_dec [of "nat i"] digits_value_dec [of "nat (- i)"] by (auto simp: sample_bigint_def dec_of_int_def)
qed

definition sample_kdb :: kdb where
  "sample_kdb = \<lparr>kt_rows = [\<lparr>km_kid = ''hmac-1'', km_key_type = Hmac, km_algorithm = ''HS256'', km_secret_bytes = Some ''s'',
         km_public_bytes = None, km_state = Active, km_created_at = 0, km_activated_at = None, km_retired_at = None,
         km_revoked_at = None, km_expires_at = None\<rparr>], kt_now = 5, kt_drawn = 0, kt_faults = []\<rparr>"

lemma sample_kdb_key:
  "find (is_key Hmac Active) (kt_rows sample_kdb) = Some (hd (kt_rows sample_kdb))"
  "km_secret_bytes (hd (kt_rows sample_kdb)) = Some ''s''" "km_kid (hd (kt_rows sample_kdb)) = ''hmac-1''"
  "lookup_secret (kt_rows sample_kdb) now ''hmac-1'' = Some ''s''" "kt_now sample_kdb = 5" "kt_faults sample_kdb = []"
  by (simp_all add: sample_kdb_def is_key_def lookup_secret_def key_accepted_def)

theorem token_redeemed_once_witness:
  "\<exists>token pg'. authorize_tenant (\<lambda>k m. ''ab'') sample_bigint (kt_rows sample_kdb) 5 token
       \<lparr>pg_nonces = [], pg_hmac_secret = Some ''i'', pg_current_tenant = None, pg_ctx_sig = None\<rparr> = Inr pg'
     \<and> pg_current_tenant pg' = Some ''t1''
     \<and> (\<exists>e. authorize_tenant (\<lambda>k m. ''ab'') sample_bigint (kt_rows sample_kdb) 5 token pg' = Inl e)"
proof -
  let ?G = "sample_gen\<lparr>kg_uuid := (\<lambda>n. CHR ''n'' # replicate n CHR ''u'')\<rparr>"
    and ?pg = "\<lparr>pg_nonces = [], pg_hmac_secret = Some ''i'', pg_current_tenant = None, pg_ctx_sig = None\<rparr>"
    and ?ctx = "with_db (TenantContext_new (TenantId ''t1'') None) ()"
  have "\<exists>s' token. generate_tenant_token ?G (\<lambda>k m. ''ab'') ?ctx (TenantId ''t1'') sample_kdb = (s', Inr token)"
    by (simp add: generate_tenant_token_def get_active_key_internal_def with_context_def context_db_def with_db_def TenantContext_new_def
        txn_bind_def select_one_up sample_kdb_key txn_return_def Let_def)
  then obtain s' token where g: "generate_tenant_token ?G (\<lambda>k m. ''ab'') ?ctx (TenantId ''t1'') sample_kdb = (s', Inr token)" by blast
  have v: "is_valid_principal (tenant_str (TenantId ''t1''))" by simp code_simp
  have "\<exists>pg'. authorize_tenant (\<lambda>k m. ''ab'') sample_bigint (kt_rows sample_kdb) 5 token ?pg = Inr pg' \<and> pg_current_tenant pg' = Some ''t1''
    \<and> (\<forall>rows2 now2 pg2. set (pg_nonces pg') \<subseteq> set (pg_nonces pg2) \<longrightarrow>
         (\<exists>e. authorize_tenant (\<lambda>k m. ''ab'') sample_bigint rows2 now2 token pg2 = Inl e))"
    using token_redeemed_once [OF g v, where bigint = sample_bigint and now = 5 and rows = "kt_rows sample_kdb" and pg = ?pg and secret = "''i''"]
    by (simp add: sample_kdb_key sample_bigint_dec timestamp_def) (simp add: sample_kdb_def, blast)
  then show ?thesis by blast
qed

text \<open>
  C16 (safety): what a successful authorisation means. If \<open>authorize_tenant\<close> accepts a token,
  the token has six fields, its key is an HMAC key of the table that is not revoked and not
  retired for more than 48 hours, its signature is the HMAC of the first five fields under
  that key's secret, its time stamp is within 30 seconds of the database clock, its nonce
  was never used before and is recorded now, and the session's tenant is the one signed.
\<close>

theorem authorization_sound:
  assumes "authorize_tenant hmac_hex bigint rows now token pg = Inr pg'" and "distinct (map km_kid rows)"
  shows "\<exists>kid ts_str ts nonce tenant k secret. token = join '':'' [''v2'', kid, ts_str, nonce, tenant,
        hmac_hex secret (join '':'' [''v2'', kid, ts_str, nonce, tenant])]
    \<and> k \<in> set rows \<and> km_kid k = kid \<and> km_secret_bytes k = Some secret \<and> key_accepted now k \<and> km_state k \<noteq> Revoked
    \<and> bigint ts_str = Some ts \<and> \<bar>ts - (now + 500000) div 1000000\<bar> \<le> 30
    \<and> nonce \<notin> set (pg_nonces pg) \<and> pg_nonces pg' = nonce # pg_nonces pg \<and> pg_current_tenant pg' = Some tenant"
proof -
  obtain kid ts_str nonce tenant sig where split: "split_char (CHR '':'') token = [''v2'', kid, ts_str, nonce, tenant, sig]"
    using assms(1) by (auto simp: authorize_tenant_def split: if_splits list.splits)
  then have tok: "token = join '':'' [''v2'', kid, ts_str, nonce, tenant, sig]" by (metis join_split_char)
  from assms(1) obtain ts secret where f: "bigint ts_str = Some ts" "\<bar>ts - (now + 500000) div 1000000\<bar> \<le> 30"
      "lookup_secret rows now kid = Some secret" "sig = hmac_hex secret (join '':'' [''v2'', kid, ts_str, nonce, tenant])"
      "nonce \<notin> set (pg_nonces pg)" "pg_nonces pg' = nonce # pg_nonces pg" "pg_current_tenant pg' = Some tenant"
    by (auto simp: authorize_tenant_def split Let_def split: if_splits option.splits)
  from f(3) obtain k where "k \<in> set rows" "km_kid k = kid" "key_accepted now k" "km_secret_bytes k = Some secret"
    by (auto simp: lookup_secret_Some [OF assms(2)])
  moreover from this have "km_state k \<noteq> Revoked" by (auto simp: key_accepted_def)
  ultimately show ?thesis using f tok by blast
qed

theorem authorization_sound_witness:
  "\<exists>pg'. authorize_tenant (\<lambda>k m. ''ab'') sample_bigint (kt_rows sample_kdb) 5 ''v2:hmac-1:0:n:t1:ab''
      \<lparr>pg_nonces = [], pg_hmac_secret = Some ''i'', pg_current_tenant = None, pg_ctx_sig = None\<rparr> = Inr pg'
    \<and> pg_current_tenant pg' = Some ''t1'' \<and> pg_nonces pg' = [''n'']
    \<and> (\<exists>k \<in> set (kt_rows sample_kdb). km_kid k = ''hmac-1'' \<and> key_accepted 5 k)"
proof -
  let ?pg = "\<lparr>pg_nonces = [], pg_hmac_secret = Some ''i'', pg_current_tenant = None, pg_ctx_sig = None\<rparr>"
  have s: "split_char (CHR '':'') ''v2:hmac-1:0:n:t1:ab'' = [''v2'', ''hmac-1'', ''0'', ''n'', ''t1'', ''ab'']" by code_simp
  have b: "sample_bigint ''0'' = Some 0" by code_simp
  have "\<exists>pg'. authorize_tenant (\<lambda>k m. ''ab'') sample_bigint (kt_rows sample_kdb) 5 ''v2:hmac-1:0:n:t1:ab'' ?pg = Inr pg'
      \<and> pg_current_tenant pg' = Some ''t1'' \<and> pg_nonces pg' = [''n'']"
    by (simp add: authorize_tenant_def s b sample_kdb_key Let_def)
  then obtain pg' where pg': "authorize_tenant (\<lambda>k m. ''ab'') sample_bigint (kt_rows sample_kdb) 5 ''v2:hmac-1:0:n:t1:ab'' ?pg = Inr pg'"
      "pg_current_tenant pg' = Some ''t1''" "pg_nonces pg' = [''n'']" by blast
  from authorization_sound [OF pg'(1)] have "\<exists>k \<in> set (kt_rows sample_kdb). km_kid k = ''hmac-1'' \<and> key_accepted 5 k"
    by (auto simp: sample_kdb_def)
  with pg' show ?thesis by blast
qed

end
