(* ===== verification/Tenant_Tx.thy ===== *)
theory Tenant_Tx
  imports Key_Manager
begin

text \<open>
  Tenant-scoped transactions: \<open>with_tenant_tx\<close>, the token parser and \<open>AuthenticatedScoped\<close>
  of \<open>kernel-data/src/connection.rs\<close> in a build without the development features, and the
  row-level security they run under, \<open>flexi.authorized_tenant_id\<close> of the migration
  \<open>m20240216_000001_init_rls.rs\<close>.

  The database holds the key table with its clock, random draws and coming faults (theory
  \<open>Key_Manager\<close>), the session settings and nonces, and the tables of a component, which are
  a type parameter. \<open>db_skew\<close> is how far the database clock is ahead of the program's.
  Settings made inside a transaction end with it; a transaction that does not commit leaves
  everything but draws and faults as it was. A commit whose answer is lost may have taken
  effect: \<open>db_commit_lost\<close> says whether it did.
\<close>

section \<open>Definitions\<close>

datatype data_error =
    DataDbError string
  | TenantAuthorizationFailed string
  | CommitUnknown string
  | TransactionFailed string
  | EntityNotFound string
  | ValidationError string
  | SerializationError string

record 'd ddb =
  db_core :: kdb
  db_pg :: pg_session
  db_skew :: int
  db_commit_lost :: bool
  db_tables :: 'd

type_synonym ('d, 'a) dtx = "'d ddb \<Rightarrow> 'd ddb \<times> (data_error + 'a)"

record tenant_scoped =
  ts_tenant_id :: tenant_id
  ts_user_id :: "user_id option"

record tx_env =
  tx_hmac_hex :: "string \<Rightarrow> string \<Rightarrow> string"
  tx_bigint :: "string \<Rightarrow> int option"
  tx_dberr_text :: "string \<Rightarrow> string"

definition dreturn :: "'a \<Rightarrow> ('d, 'a) dtx" where
  "dreturn x s = (s, Inr x)"

definition dfail :: "data_error \<Rightarrow> ('d, 'a) dtx" where
  "dfail e s = (s, Inl e)"

definition dbind :: "('d, 'a) dtx \<Rightarrow> ('a \<Rightarrow> ('d, 'b) dtx) \<Rightarrow> ('d, 'b) dtx" where
  "dbind m f s = (case m s of (s', Inl e) \<Rightarrow> (s', Inl e) | (s', Inr x) \<Rightarrow> f x s')"

definition db_fault :: "'d ddb \<Rightarrow> bool" where
  "db_fault s \<longleftrightarrow> kt_faults (db_core s) \<noteq> [] \<and> hd (kt_faults (db_core s))"

definition db_answered :: "'d ddb \<Rightarrow> 'd ddb" where
  "db_answered s = s\<lparr>db_core := (db_core s)\<lparr>kt_faults := tl (kt_faults (db_core s))\<rparr>\<rparr>"

definition authorized_tenant_id :: "(string \<Rightarrow> string \<Rightarrow> string) \<Rightarrow> pg_session \<Rightarrow> string + string option" where
  "authorized_tenant_id hmac_hex pg =
     (case pg_current_tenant pg of
        None \<Rightarrow> Inr None
      | Some tid \<Rightarrow>
          if tid = [] then Inr None
          else (case pg_hmac_secret pg of
                  None \<Rightarrow> Inl ''HMAC secret not set''
                | Some secret \<Rightarrow>
                    if secret = [] then Inl ''HMAC secret not set''
                    else if pg_ctx_sig pg \<noteq> Some (hmac_hex secret tid) then Inl ''Tenant context integrity check failed''
                    else Inr (Some tid)))"

text \<open>A statement on tables with a tenant policy: the policy's tenant, then the statement, which may violate a constraint.\<close>

definition scoped_statement :: "tx_env \<Rightarrow> (string option \<Rightarrow> 'd \<Rightarrow> string + 'd \<times> 'a) \<Rightarrow> ('d, 'a) dtx" where
  "scoped_statement E stmt s =
     (let s' = db_answered s
      in if db_fault s then (s', Inl (DataDbError ''connection''))
         else (case authorized_tenant_id (tx_hmac_hex E) (db_pg s') of
                 Inl e \<Rightarrow> (s', Inl (DataDbError e))
               | Inr tid \<Rightarrow>
                   (case stmt tid (db_tables s') of
                      Inl e \<Rightarrow> (s', Inl (DataDbError e))
                    | Inr (tables, r) \<Rightarrow> (s'\<lparr>db_tables := tables\<rparr>, Inr r))))"

definition db_restore :: "'d ddb \<Rightarrow> 'd ddb \<Rightarrow> 'd ddb" where
  "db_restore s0 s =
     s0\<lparr>db_core := (db_core s0)\<lparr>kt_drawn := kt_drawn (db_core s), kt_faults := kt_faults (db_core s)\<rparr>\<rparr>"

definition db_end_settings :: "'d ddb \<Rightarrow> 'd ddb \<Rightarrow> 'd ddb" where
  "db_end_settings s0 s =
     s\<lparr>db_pg := (db_pg s)\<lparr>pg_current_tenant := pg_current_tenant (db_pg s0), pg_ctx_sig := pg_ctx_sig (db_pg s0)\<rparr>\<rparr>"

definition db_rollback :: "'d ddb \<Rightarrow> data_error \<Rightarrow> ('d, 'a) dtx" where
  "db_rollback s0 e s = (db_restore s0 (db_answered s), Inl e)"

definition parse_tenant_from_token :: "string \<Rightarrow> string option" where
  "parse_tenant_from_token token =
     (if starts_with token ''dev-token:'' then None
      else (case split_char (CHR '':'') token of
              [ver, kid, ts, nonce, tenant_id, sig] \<Rightarrow>
                if ver \<noteq> ''v2'' \<or> kid = [] \<or> ts = [] \<or> nonce = [] \<or> tenant_id = [] \<or> sig = [] then None
                else Some tenant_id
            | _ \<Rightarrow> None))"

definition safe_errors :: "string list" where
  "safe_errors = [''Nonce already used'', ''Internal HMAC secret not set'', ''Invalid signature'',
     ''Token timestamp expired or future (skew > 30s)'', ''Missing or empty tenant token'', ''Invalid token format'']"

definition safe_error :: "tx_env \<Rightarrow> string \<Rightarrow> string" where
  "safe_error E e =
     (case find (\<lambda>m. contains_str (tx_dberr_text E e) m) safe_errors of
        Some m \<Rightarrow> m | None \<Rightarrow> ''tenant authorization failed'')"

definition authorize_statement :: "tx_env \<Rightarrow> string \<Rightarrow> 'd ddb \<Rightarrow> 'd ddb \<times> (string + unit)" where
  "authorize_statement E token s =
     (let s' = db_answered s
      in if db_fault s then (s', Inl ''connection'')
         else (case authorize_tenant (tx_hmac_hex E) (tx_bigint E) (kt_rows (db_core s'))
                      (kt_now (db_core s') + db_skew s') token (db_pg s') of
                 Inl e \<Rightarrow> (s', Inl e)
               | Inr pg \<Rightarrow> (s'\<lparr>db_pg := pg\<rparr>, Inr ())))"

definition with_tenant_tx :: "tx_env \<Rightarrow> 'db tenant_context \<Rightarrow> string \<Rightarrow> (tenant_scoped \<Rightarrow> ('d, 'a) dtx) \<Rightarrow> ('d, 'a) dtx" where
  "with_tenant_tx E ctx token f s0 =
     (if db_fault s0 then (db_answered s0, Inl (DataDbError ''connection''))
      else (case authorize_statement E token (db_answered s0) of
              (s, Inl e) \<Rightarrow> db_rollback s0 (TenantAuthorizationFailed (safe_error E e)) s
            | (s, Inr _) \<Rightarrow>
                (case parse_tenant_from_token token of
                   None \<Rightarrow> db_rollback s0 (TenantAuthorizationFailed ''invalid tenant token format'') s
                 | Some token_tenant \<Rightarrow>
                     if token_tenant \<noteq> tenant_str (ctx_tenant_id ctx)
                     then db_rollback s0 (TenantAuthorizationFailed ''tenant mismatch between context and token'') s
                     else (case f \<lparr>ts_tenant_id = ctx_tenant_id ctx, ts_user_id = ctx_user_id ctx\<rparr> s of
                             (s, Inr r) \<Rightarrow>
                               if db_fault s
                               then (if db_commit_lost s then db_end_settings s0 (db_answered s)
                                     else db_restore s0 (db_answered s), Inl (CommitUnknown ''connection''))
                               else (db_end_settings s0 (db_answered s), Inr r)
                           | (s, Inl e) \<Rightarrow> db_rollback s0 e s))))"

text \<open>The key manager works on the same database.\<close>

definition on_core :: "'a txn \<Rightarrow> 'd ddb \<Rightarrow> 'd ddb \<times> (key_manager_error + 'a)" where
  "on_core m s = (case m (db_core s) of (c, r) \<Rightarrow> (s\<lparr>db_core := c\<rparr>, r))"

record authenticated_scoped =
  as_scoped :: tenant_scoped
  as_user_id :: user_id

definition try_from_scoped :: "tenant_scoped \<Rightarrow> data_error + authenticated_scoped" where
  "try_from_scoped scoped =
     (case ts_user_id scoped of
        None \<Rightarrow> Inl (TenantAuthorizationFailed ''AuthenticatedScoped requires a user_id in TenantScoped context'')
      | Some u \<Rightarrow> Inr \<lparr>as_scoped = scoped, as_user_id = u\<rparr>)"

section \<open>Lemmas\<close>

text \<open>The policies of the tables show exactly the tenant's rows.\<close>

definition in_scope :: "tx_env \<Rightarrow> string \<Rightarrow> 'd ddb \<Rightarrow> bool" where
  "in_scope E t s \<longleftrightarrow> authorized_tenant_id (tx_hmac_hex E) (db_pg s) = Inr (Some t)"

definition tx_entered :: "tx_env \<Rightarrow> 'db tenant_context \<Rightarrow> string \<Rightarrow> 'd ddb \<Rightarrow> 'd ddb \<Rightarrow> bool" where
  "tx_entered E ctx token s0 s1 \<longleftrightarrow>
     \<not> db_fault s0 \<and> authorize_statement E token (db_answered s0) = (s1, Inr ())
     \<and> parse_tenant_from_token token = Some (tenant_str (ctx_tenant_id ctx))"

definition tx_scope :: "'db tenant_context \<Rightarrow> tenant_scoped" where
  "tx_scope ctx = \<lparr>ts_tenant_id = ctx_tenant_id ctx, ts_user_id = ctx_user_id ctx\<rparr>"

lemma on_core_tables: "on_core m s = (s', r) \<Longrightarrow> db_tables s' = db_tables s \<and> db_pg s' = db_pg s \<and> db_skew s' = db_skew s"
  by (auto simp: on_core_def split: prod.splits)

lemma db_answered_simps [simp]:
  "db_pg (db_answered s) = db_pg s" "db_tables (db_answered s) = db_tables s" "db_skew (db_answered s) = db_skew s"
  "kt_rows (db_core (db_answered s)) = kt_rows (db_core s)" "kt_now (db_core (db_answered s)) = kt_now (db_core s)"
  "kt_drawn (db_core (db_answered s)) = kt_drawn (db_core s)"
  "in_scope E t (db_answered s) = in_scope E t s"
  by (simp_all add: db_answered_def in_scope_def)

lemma db_restore_simps [simp]:
  "db_pg (db_restore s0 s) = db_pg s0" "db_tables (db_restore s0 s) = db_tables s0"
  "kt_rows (db_core (db_restore s0 s)) = kt_rows (db_core s0)"
  by (simp_all add: db_restore_def)

lemma db_end_settings_simps [simp]:
  "db_tables (db_end_settings s0 s) = db_tables s" "db_core (db_end_settings s0 s) = db_core s"
  "pg_nonces (db_pg (db_end_settings s0 s)) = pg_nonces (db_pg s)"
  by (simp_all add: db_end_settings_def)

lemma dbind_Inr:
  "dbind m f s = (s', Inr y) \<longleftrightarrow> (\<exists>s1 x. m s = (s1, Inr x) \<and> f x s1 = (s', Inr y))"
  by (auto simp: dbind_def split: prod.splits sum.splits)

lemma dbind_cases:
  assumes "dbind m f s = (s', r)"
  obtains e where "m s = (s', Inl e)" "r = Inl e" | s1 x where "m s = (s1, Inr x)" "f x s1 = (s', r)"
  using assms by (auto simp: dbind_def split: prod.splits sum.splits)

lemma scoped_statement_Inr:
  assumes "in_scope E t s"
  shows "scoped_statement E stmt s = (s', Inr r) \<longleftrightarrow>
     \<not> db_fault s \<and> (\<exists>d. stmt (Some t) (db_tables s) = Inr (d, r) \<and> s' = (db_answered s)\<lparr>db_tables := d\<rparr>)"
  using assms by (auto simp: scoped_statement_def in_scope_def Let_def split: sum.splits prod.splits)

lemma scoped_statement_up:
  assumes "in_scope E t s" and "\<not> db_fault s"
  shows "scoped_statement E stmt s =
     (case stmt (Some t) (db_tables s) of
        Inl e \<Rightarrow> (db_answered s, Inl (DataDbError e))
      | Inr (d, r) \<Rightarrow> ((db_answered s)\<lparr>db_tables := d\<rparr>, Inr r))"
  using assms by (auto simp: scoped_statement_def in_scope_def Let_def split: sum.splits prod.splits)

lemma authorize_tenant_session:
  assumes "authorize_tenant hmac bigint rows now token pg = Inr pg'"
  shows "\<exists>secret t. pg_hmac_secret pg = Some secret \<and> secret \<noteq> [] \<and> pg_hmac_secret pg' = Some secret
    \<and> pg_current_tenant pg' = Some t \<and> pg_ctx_sig pg' = Some (hmac secret t)
    \<and> (\<forall>t'. parse_tenant_from_token token = Some t' \<longrightarrow> t' = t \<and> t \<noteq> [])"
  using assms
  by (auto simp: authorize_tenant_def parse_tenant_from_token_def Let_def split: if_splits list.splits option.splits)

lemma tx_entered_scope:
  assumes "tx_entered E ctx token s0 s1"
  shows "in_scope E (tenant_str (ctx_tenant_id ctx)) s1" "db_tables s1 = db_tables s0"
    "\<exists>pg. authorize_tenant (tx_hmac_hex E) (tx_bigint E) (kt_rows (db_core s0)) (kt_now (db_core s0) + db_skew s0) token (db_pg s0)
       = Inr pg \<and> db_pg s1 = pg"
proof -
  let ?a = "authorize_tenant (tx_hmac_hex E) (tx_bigint E) (kt_rows (db_core s0)) (kt_now (db_core s0) + db_skew s0) token (db_pg s0)"
  obtain pg where pg: "?a = Inr pg" "db_pg s1 = pg" "db_tables s1 = db_tables s0"
    using assms by (auto simp: tx_entered_def authorize_statement_def Let_def split: sum.splits if_splits)
  then show "db_tables s1 = db_tables s0" "\<exists>pg. ?a = Inr pg \<and> db_pg s1 = pg" by blast+
  from authorize_tenant_session [OF pg(1)] assms pg(2) show "in_scope E (tenant_str (ctx_tenant_id ctx)) s1"
    by (auto simp: in_scope_def authorized_tenant_id_def tx_entered_def)
qed

lemma with_tenant_tx_not_entered:
  assumes "\<nexists>s1. tx_entered E ctx token s0 s1"
  shows "\<exists>s e. with_tenant_tx E ctx token f s0 = (db_restore s0 s, Inl e) \<and> (\<forall>x. e \<noteq> CommitUnknown x)"
proof (cases "db_fault s0")
  case True
  have "db_answered s0 = db_restore s0 (db_answered s0)" by (cases s0) (simp add: db_restore_def db_answered_def)
  with True show ?thesis unfolding with_tenant_tx_def by (metis (no_types, lifting) data_error.distinct(3))
next
  case False
  then show ?thesis
    using assms by (auto simp: with_tenant_tx_def tx_entered_def db_rollback_def split: prod.splits sum.splits option.splits)
qed

lemma with_tenant_tx_entered:
  assumes "tx_entered E ctx token s0 s1"
  shows "with_tenant_tx E ctx token f s0 =
     (case f (tx_scope ctx) s1 of
        (s, Inr r) \<Rightarrow>
          if db_fault s
          then (if db_commit_lost s then db_end_settings s0 (db_answered s) else db_restore s0 (db_answered s),
                Inl (CommitUnknown ''connection''))
          else (db_end_settings s0 (db_answered s), Inr r)
      | (s, Inl e) \<Rightarrow> (db_restore s0 (db_answered s), Inl e))"
  using assms by (simp add: with_tenant_tx_def tx_entered_def tx_scope_def db_rollback_def)

lemma with_tenant_tx_Inr:
  assumes "with_tenant_tx E ctx token f s0 = (s', Inr r)"
  obtains s1 s2 where "tx_entered E ctx token s0 s1" "f (tx_scope ctx) s1 = (s2, Inr r)" "\<not> db_fault s2"
    "s' = db_end_settings s0 (db_answered s2)"
proof (cases "\<exists>s1. tx_entered E ctx token s0 s1")
  case True
  then obtain s1 where s1: "tx_entered E ctx token s0 s1" ..
  show thesis
    using assms that [OF s1] unfolding with_tenant_tx_entered [OF s1] by (auto split: prod.splits sum.splits if_splits)
next
  case False
  then show thesis using with_tenant_tx_not_entered [of E ctx token s0 f] assms by auto
qed

subsection \<open>What a transaction keeps\<close>

text \<open>\<open>tx_keeps\<close>: an operation that succeeds inside a tenant's transaction leaves the tables with \<open>P\<close>, still in the tenant's scope.\<close>

definition tx_keeps :: "tx_env \<Rightarrow> string \<Rightarrow> ('d \<Rightarrow> bool) \<Rightarrow> ('d, 'a) dtx \<Rightarrow> bool" where
  "tx_keeps E t P m \<longleftrightarrow> (\<forall>s s' r. in_scope E t s \<longrightarrow> P (db_tables s) \<longrightarrow> m s = (s', Inr r) \<longrightarrow> in_scope E t s' \<and> P (db_tables s'))"

lemma tx_keepsD:
  "tx_keeps E t P m \<Longrightarrow> in_scope E t s \<Longrightarrow> P (db_tables s) \<Longrightarrow> m s = (s', Inr r) \<Longrightarrow> in_scope E t s' \<and> P (db_tables s')"
  unfolding tx_keeps_def by blast

lemma tx_keeps_bind:
  assumes "tx_keeps E t P m" "\<And>x. tx_keeps E t P (f x)"
  shows "tx_keeps E t P (dbind m f)"
  unfolding tx_keeps_def
proof (intro allI impI)
  fix s s' r assume s: "in_scope E t s" "P (db_tables s)" "dbind m f s = (s', Inr r)"
  then obtain s1 x where 1: "m s = (s1, Inr x)" "f x s1 = (s', Inr r)" by (auto simp: dbind_Inr)
  with tx_keepsD [OF assms(1) s(1,2) 1(1)] show "in_scope E t s' \<and> P (db_tables s')" using tx_keepsD [OF assms(2)] by blast
qed

lemma tx_keeps_return: "tx_keeps E t P (dreturn x)" "tx_keeps E t P (dfail e)"
  by (auto simp: tx_keeps_def dreturn_def dfail_def)

lemma tx_keeps_clock: "(\<And>s. tx_keeps E t P (m s)) \<Longrightarrow> tx_keeps E t P (\<lambda>s. m s s)"
  unfolding tx_keeps_def by blast

lemma tx_keeps_statement:
  assumes "\<And>d d' r. P d \<Longrightarrow> stmt (Some t) d = Inr (d', r) \<Longrightarrow> P d'"
  shows "tx_keeps E t P (scoped_statement E stmt)"
  unfolding tx_keeps_def
proof (intro allI impI)
  fix s s' r assume s: "in_scope E t s" "P (db_tables s)" "scoped_statement E stmt s = (s', Inr r)"
  then obtain d where "stmt (Some t) (db_tables s) = Inr (d, r)" "s' = (db_answered s)\<lparr>db_tables := d\<rparr>"
    by (auto simp: scoped_statement_Inr)
  with assms [OF s(2)] s(1) show "in_scope E t s' \<and> P (db_tables s')" by (simp add: in_scope_def)
qed

lemma with_tenant_tx_keeps:
  assumes "P (db_tables s0)" and f: "tx_keeps E (tenant_str (ctx_tenant_id ctx)) P (f (tx_scope ctx))"
  shows "P (db_tables (fst (with_tenant_tx E ctx token f s0)))"
proof (cases "\<exists>s1. tx_entered E ctx token s0 s1")
  case True
  then obtain s1 where s1: "tx_entered E ctx token s0 s1" ..
  obtain s2 q where q: "f (tx_scope ctx) s1 = (s2, q)" by (cases "f (tx_scope ctx) s1")
  have "P (db_tables s2)" if "q = Inr x" for x
    using tx_keepsD [OF f tx_entered_scope(1) [OF s1]] tx_entered_scope(2) [OF s1] assms(1) q that by simp
  then show ?thesis
    using q assms(1) unfolding with_tenant_tx_entered [OF s1] by (auto split: sum.split)
next
  case False
  then show ?thesis using with_tenant_tx_not_entered [of E ctx token s0 f] assms(1) by auto
qed

lemma with_tenant_tx_fails:
  assumes "\<And>s1. in_scope E (tenant_str (ctx_tenant_id ctx)) s1 \<Longrightarrow> db_tables s1 = db_tables s0 \<Longrightarrow> \<exists>s e. f (tx_scope ctx) s1 = (s, Inl e)"
  shows "\<exists>s e. with_tenant_tx E ctx token f s0 = (db_restore s0 s, Inl e)"
proof (cases "\<exists>s1. tx_entered E ctx token s0 s1")
  case True
  then obtain s1 where s1: "tx_entered E ctx token s0 s1" ..
  with assms tx_entered_scope(1,2) [OF s1] obtain s e where "f (tx_scope ctx) s1 = (s, Inl e)" by blast
  then show ?thesis unfolding with_tenant_tx_entered [OF s1] by auto
next
  case False
  then show ?thesis using with_tenant_tx_not_entered [OF False, of f] by blast
qed

section \<open>Properties\<close>

text \<open>
  \<open>closure_ran\<close>: the closure was called for the context's tenant and user, after the database
  accepted the token, on the tables as they were, with the policies showing that tenant's
  rows, and it returned \<open>x\<close> leaving the database as \<open>s2\<close>.
\<close>

definition closure_ran :: "tx_env \<Rightarrow> 'db tenant_context \<Rightarrow> string \<Rightarrow> (tenant_scoped \<Rightarrow> ('d, 'a) dtx) \<Rightarrow> 'd ddb \<Rightarrow> 'a \<Rightarrow> 'd ddb \<Rightarrow> bool" where
  "closure_ran E ctx token f s0 x s2 \<longleftrightarrow>
     (\<exists>s1 pg. f \<lparr>ts_tenant_id = ctx_tenant_id ctx, ts_user_id = ctx_user_id ctx\<rparr> s1 = (s2, Inr x)
        \<and> authorize_tenant (tx_hmac_hex E) (tx_bigint E) (kt_rows (db_core s0)) (kt_now (db_core s0) + db_skew s0) token (db_pg s0)
            = Inr pg
        \<and> pg_current_tenant pg = Some (tenant_str (ctx_tenant_id ctx)) \<and> db_pg s1 = pg \<and> db_tables s1 = db_tables s0
        \<and> authorized_tenant_id (tx_hmac_hex E) (db_pg s1) = Inr (Some (tenant_str (ctx_tenant_id ctx))))"

lemma tx_entered_ran:
  assumes s1: "tx_entered E ctx token s0 s1" and f: "f (tx_scope ctx) s1 = (s2, Inr x)"
  shows "closure_ran E ctx token f s0 x s2"
proof -
  have scope: "authorized_tenant_id (tx_hmac_hex E) (db_pg s1) = Inr (Some (tenant_str (ctx_tenant_id ctx)))"
    using tx_entered_scope(1) [OF s1] by (simp add: in_scope_def)
  then have "pg_current_tenant (db_pg s1) = Some (tenant_str (ctx_tenant_id ctx))"
    by (auto simp: authorized_tenant_id_def split: option.splits if_splits)
  with scope show ?thesis
    using f tx_entered_scope(2,3) [OF s1] unfolding closure_ran_def tx_scope_def by blast
qed

text \<open>
  C4 (safety): a tenant transaction runs its closure only when the database accepted the
  token and the token is for the tenant of the caller's context, and then with the row
  policies showing exactly that tenant's rows; the token's nonce is used up with it. It is
  atomic: if it succeeds, what the closure did is there and the session settings are as
  before; if it fails with any error but \<open>CommitUnknown\<close>, the tables and the nonces are
  untouched. \<open>CommitUnknown\<close> tells the caller that the answer to the commit was lost: then the
  tables are either untouched or hold what the closure did in full.
\<close>

theorem tenant_tx_scoped_and_atomic:
  assumes "with_tenant_tx E ctx token f s0 = (s', r)"
  shows "case r of
      Inr x \<Rightarrow> \<exists>s2. closure_ran E ctx token f s0 x s2 \<and> db_tables s' = db_tables s2 \<and> pg_nonces (db_pg s') = pg_nonces (db_pg s2)
                \<and> pg_current_tenant (db_pg s') = pg_current_tenant (db_pg s0)
    | Inl (CommitUnknown _) \<Rightarrow> (db_tables s' = db_tables s0 \<and> db_pg s' = db_pg s0)
                \<or> (\<exists>x s2. closure_ran E ctx token f s0 x s2 \<and> db_tables s' = db_tables s2 \<and> pg_nonces (db_pg s') = pg_nonces (db_pg s2))
    | Inl _ \<Rightarrow> db_tables s' = db_tables s0 \<and> db_pg s' = db_pg s0"
proof (cases "\<exists>s1. tx_entered E ctx token s0 s1")
  case True
  then obtain s1 where s1: "tx_entered E ctx token s0 s1" ..
  obtain s2 q where q: "f (tx_scope ctx) s1 = (s2, q)" by (cases "f (tx_scope ctx) s1")
  show ?thesis
  proof (cases q)
    case (Inl e)
    then have "r = Inl e" "db_tables s' = db_tables s0" "db_pg s' = db_pg s0"
      using assms(1) q unfolding with_tenant_tx_entered [OF s1] by auto
    then show ?thesis by (auto split: data_error.split)
  next
    case (Inr x)
    then have "closure_ran E ctx token f s0 x s2" using tx_entered_ran [OF s1] q by simp
    then show ?thesis
      using assms(1) q Inr unfolding with_tenant_tx_entered [OF s1]
      by (auto simp: db_end_settings_def split: if_splits) (metis, metis)
  qed
next
  case False
  then show ?thesis
    using with_tenant_tx_not_entered [of E ctx token s0 f] assms(1) by (auto split: data_error.split)
qed

text \<open>A database with one key and no tables, and a token for it.\<close>

definition sample_env :: tx_env where
  "sample_env = \<lparr>tx_hmac_hex = (\<lambda>k m. ''ab''), tx_bigint = sample_bigint, tx_dberr_text = (\<lambda>e. e)\<rparr>"

definition sample_ddb :: "'d \<Rightarrow> 'd ddb" where
  "sample_ddb d = \<lparr>db_core = sample_kdb,
     db_pg = \<lparr>pg_nonces = [], pg_hmac_secret = Some ''i'', pg_current_tenant = None, pg_ctx_sig = None\<rparr>,
     db_skew = 0, db_commit_lost = False, db_tables = d\<rparr>"

definition sample_token :: string where
  "sample_token = ''v2:hmac-1:0:n:t1:ab''"

definition sample_ctx :: "unit tenant_context" where
  "sample_ctx = \<lparr>ctx_tenant_id = TenantId ''t1'', ctx_user_id = Some (UserId ''u1''), ctx_db = Some ()\<rparr>"

definition sample_entered :: "'d \<Rightarrow> 'd ddb" where
  "sample_entered d = (sample_ddb d)\<lparr>db_pg := \<lparr>pg_nonces = [''n''], pg_hmac_secret = Some ''i'',
     pg_current_tenant = Some ''t1'', pg_ctx_sig = Some ''ab''\<rparr>\<rparr>"

lemma sample_tx_entered: "tx_entered sample_env sample_ctx sample_token (sample_ddb d) (sample_entered d)"
proof -
  have sp: "split_char (CHR '':'') sample_token = [''v2'', ''hmac-1'', ''0'', ''n'', ''t1'', ''ab'']" "sample_token \<noteq> []"
    "\<not> starts_with sample_token ''dev-token:''"
    by (simp_all add: sample_token_def starts_with_def)
  have b: "sample_bigint ''0'' = Some 0" by code_simp
  have f: "\<not> db_fault (sample_ddb d)" "db_answered (sample_ddb d) = sample_ddb d"
    by (simp_all add: db_fault_def db_answered_def sample_ddb_def sample_kdb_def)
  show ?thesis
    unfolding tx_entered_def authorize_statement_def f Let_def
    using f(1) by (simp add: authorize_tenant_def parse_tenant_from_token_def sp b sample_env_def sample_ddb_def sample_entered_def
        sample_ctx_def sample_kdb_key Let_def)
qed

lemma sample_tx_run:
  "with_tenant_tx sample_env sample_ctx sample_token (\<lambda>_. dreturn x) (sample_ddb d)
     = (db_end_settings (sample_ddb d) (sample_entered d), Inr x)"
proof -
  have "\<not> db_fault (sample_entered d)" "db_answered (sample_entered d) = sample_entered d"
    by (simp_all add: db_fault_def db_answered_def sample_entered_def sample_ddb_def sample_kdb_def)
  then show ?thesis unfolding with_tenant_tx_entered [OF sample_tx_entered] by (simp add: dreturn_def)
qed

theorem tenant_tx_scoped_and_atomic_witness:
  "\<exists>s2. closure_ran sample_env sample_ctx sample_token (\<lambda>_. dreturn (7 :: nat)) (sample_ddb ()) 7 s2"
  using tenant_tx_scoped_and_atomic [OF sample_tx_run [of "7 :: nat" "()"]] by (auto simp: dreturn_def)

end
