(* ===== verification/Rbac.thy ===== *)
theory Rbac
  imports Tenant_Tx Http_Types
begin

text \<open>
  Role-based access control: \<open>load_permissions_middleware\<close> and \<open>require_permission\<close> of
  \<open>kernel-api/src/middleware/rbac.rs\<close>, the five-table query of \<open>kernel-data/src/rbac.rs\<close>
  and its tables (\<open>kernel-data/src/entities\<close>, migration \<open>m20250627_000005_create_rbac.rs\<close>)
  under their tenant policies.

  A UUID is a string. The handler behind the middleware is a parameter. A request without a
  tenant token of its own gets one from \<open>KeyManager::generate_tenant_token\<close> (theory
  \<open>Key_Manager\<close>), with which \<open>with_tenant_tx\<close> (theory \<open>Tenant_Tx\<close>) opens the transaction.
\<close>

section \<open>Definitions\<close>

subsection \<open>Tables\<close>

record permission_row =
  pm_id :: string
  pm_tenant_id :: string
  pm_role_id :: string
  pm_resource :: string
  pm_action :: string
  pm_created_at :: int
  pm_updated_at :: int

record role_row =
  rl_id :: string
  rl_tenant_id :: string
  rl_name :: string
  rl_description :: string

record group_row =
  gp_id :: string
  gp_tenant_id :: string
  gp_name :: string
  gp_description :: string

record group_role_row =
  gr_id :: string
  gr_tenant_id :: string
  gr_group_id :: string
  gr_role_id :: string

record group_member_row =
  gm_id :: string
  gm_tenant_id :: string
  gm_group_id :: string
  gm_user_id :: string

record rbac_tables =
  rb_permissions :: "permission_row list"
  rb_roles :: "role_row list"
  rb_groups :: "group_row list"
  rb_group_roles :: "group_role_row list"
  rb_group_members :: "group_member_row list"

definition rows_for :: "('r \<Rightarrow> string) \<Rightarrow> string option \<Rightarrow> string \<Rightarrow> 'r list \<Rightarrow> 'r list" where
  "rows_for tenant policy t rows = filter (\<lambda>r. tenant r = t) (filter (\<lambda>r. policy = Some (tenant r)) rows)"

text \<open>\<open>SELECT DISTINCT\<close> over the inner joins on \<open>(id, tenant_id)\<close>, with the tenant and user filters.\<close>

definition permission_query :: "string option \<Rightarrow> string \<Rightarrow> string \<Rightarrow> rbac_tables \<Rightarrow> permission_row list" where
  "permission_query policy t u d = remdups
     [p. p \<leftarrow> rows_for pm_tenant_id policy t (rb_permissions d),
         r \<leftarrow> rows_for rl_tenant_id policy t (rb_roles d),
         (pm_role_id p, pm_tenant_id p) = (rl_id r, rl_tenant_id r),
         gr \<leftarrow> rows_for gr_tenant_id policy t (rb_group_roles d),
         (rl_id r, rl_tenant_id r) = (gr_role_id gr, gr_tenant_id gr),
         g \<leftarrow> rows_for gp_tenant_id policy t (rb_groups d),
         (gr_group_id gr, gr_tenant_id gr) = (gp_id g, gp_tenant_id g),
         m \<leftarrow> rows_for gm_tenant_id policy t (rb_group_members d),
         (gp_id g, gp_tenant_id g) = (gm_group_id m, gm_tenant_id m),
         gm_user_id m = u]"

definition get_user_permissions :: "tx_env \<Rightarrow> authenticated_scoped \<Rightarrow> (rbac_tables, permission_row list) dtx" where
  "get_user_permissions E a = scoped_statement E (\<lambda>policy d.
     Inr (d, permission_query policy (tenant_str (ts_tenant_id (as_scoped a))) (user_str (as_user_id a)) d))"

subsection \<open>Middleware\<close>

definition validate_v2_token_kid :: "string \<Rightarrow> nat + unit" where
  "validate_v2_token_kid token =
     (let parts = split_char (CHR '':'') token
      in if length parts \<noteq> 6 then Inl 403
         else if trim (parts ! 1) = [] then Inl 403
         else Inr ())"

datatype user_permissions = UserPermissions (permission_set: "string set")

definition has_permission :: "user_permissions \<Rightarrow> string \<Rightarrow> bool" where
  "has_permission ps p \<longleftrightarrow> p \<in> permission_set ps"

text \<open>The request's extensions that the middleware read and write.\<close>

record 'db rbac_request =
  rq_context :: "'db tenant_context option"
  rq_bearer_token :: "string option"
  rq_permissions :: "user_permissions option"

type_synonym ('db, 'd) handler = "'db rbac_request \<Rightarrow> 'd ddb \<Rightarrow> 'd ddb \<times> http_response"

text \<open>A middleware's \<open>Err(StatusCode)\<close> becomes an empty response with that status.\<close>

definition middleware_response :: "'s \<times> (nat + http_response) \<Rightarrow> 's \<times> http_response" where
  "middleware_response r = (fst r, case snd r of Inl c \<Rightarrow> status_into_response c | Inr resp \<Rightarrow> resp)"

definition key_error_status :: "key_manager_error \<Rightarrow> nat" where
  "key_error_status e = (case e of Unauthorized _ \<Rightarrow> 403 | NoActiveKey _ \<Rightarrow> 503 | _ \<Rightarrow> 500)"

definition data_error_status :: "data_error \<Rightarrow> nat" where
  "data_error_status e = (case e of TenantAuthorizationFailed _ \<Rightarrow> 403 | _ \<Rightarrow> 500)"

definition db_session_token :: "tx_env \<Rightarrow> key_gen \<Rightarrow> 'db tenant_context \<Rightarrow> string \<Rightarrow> 'd ddb \<Rightarrow> 'd ddb \<times> (nat + string)" where
  "db_session_token E G ctx incoming s =
     (if starts_with incoming ''v2:''
      then (s, case validate_v2_token_kid incoming of Inl c \<Rightarrow> Inl c | Inr _ \<Rightarrow> Inr incoming)
      else (case with_system_context ctx (\<lambda>sys_ctx. on_core (generate_tenant_token G (tx_hmac_hex E) sys_ctx (ctx_tenant_id ctx)) s) of
              Inl _ \<Rightarrow> (s, Inl 500)
            | Inr (s', Inl e) \<Rightarrow> (s', Inl (key_error_status e))
            | Inr (s', Inr token) \<Rightarrow> (s', Inr token)))"

definition fetch_permissions :: "tx_env \<Rightarrow> tenant_scoped \<Rightarrow> (rbac_tables, permission_row list) dtx" where
  "fetch_permissions E scoped =
     (case try_from_scoped scoped of
        Inl _ \<Rightarrow> dfail (TenantAuthorizationFailed ''user_id missing in scoped context'')
      | Inr a \<Rightarrow> get_user_permissions E a)"

definition permission_string :: "permission_row \<Rightarrow> string" where
  "permission_string p = pm_resource p @ '':'' @ pm_action p"

text \<open>The rest of the chain is \<open>next_run\<close>; its response has any type.\<close>

definition load_permissions_middleware :: "tx_env \<Rightarrow> key_gen \<Rightarrow> 'db rbac_request
    \<Rightarrow> ('db rbac_request \<Rightarrow> rbac_tables ddb \<Rightarrow> rbac_tables ddb \<times> 'r) \<Rightarrow> rbac_tables ddb \<Rightarrow> rbac_tables ddb \<times> (nat + 'r)" where
  "load_permissions_middleware E G req next_run s0 =
     (case rq_context req of
        None \<Rightarrow> (s0, Inl 403)
      | Some ctx \<Rightarrow>
          (case rq_bearer_token req of
             None \<Rightarrow> (s0, Inl 403)
           | Some incoming_token \<Rightarrow>
               if ctx_db ctx = None then (s0, Inl 500)
               else if ctx_user_id ctx = None then (s0, Inl 403)
               else (case db_session_token E G ctx incoming_token s0 of
                       (s, Inl c) \<Rightarrow> (s, Inl c)
                     | (s, Inr db_token) \<Rightarrow>
                         (case with_tenant_tx E ctx db_token (fetch_permissions E) s of
                            (s, Inl e) \<Rightarrow> (s, Inl (data_error_status e))
                          | (s, Inr permissions_list) \<Rightarrow>
                              (case next_run (req\<lparr>rq_permissions := Some (UserPermissions (permission_string ` set permissions_list))\<rparr>) s of
                                 (s, resp) \<Rightarrow> (s, Inr resp))))))"

definition require_permission :: "string \<Rightarrow> 'db rbac_request \<Rightarrow> ('db rbac_request \<Rightarrow> 's \<Rightarrow> 's \<times> 'r) \<Rightarrow> 's \<Rightarrow> 's \<times> (nat + 'r)" where
  "require_permission permission req next_run s =
     (case rq_permissions req of
        None \<Rightarrow> (s, Inl 403)
      | Some ps \<Rightarrow>
          if \<not> has_permission ps permission then (s, Inl 403)
          else (case next_run req s of (s, resp) \<Rightarrow> (s, Inr resp)))"

text \<open>A route of \<open>build_app_with_state\<close> behind the authentication: load, then require.\<close>

definition guarded_route :: "tx_env \<Rightarrow> key_gen \<Rightarrow> string \<Rightarrow> ('db, rbac_tables) handler \<Rightarrow> ('db, rbac_tables) handler" where
  "guarded_route E G permission handler req s =
     middleware_response (load_permissions_middleware E G req
       (\<lambda>req s. middleware_response (require_permission permission req handler s)) s)"

section \<open>Lemmas\<close>

text \<open>What the tables grant: a chain of rows of the tenant from the user's group to the permission.\<close>

definition granted :: "rbac_tables \<Rightarrow> string \<Rightarrow> string \<Rightarrow> permission_row \<Rightarrow> bool" where
  "granted d t u p \<longleftrightarrow> p \<in> set (rb_permissions d) \<and> pm_tenant_id p = t
     \<and> (\<exists>r \<in> set (rb_roles d). rl_tenant_id r = t \<and> rl_id r = pm_role_id p
     \<and> (\<exists>gr \<in> set (rb_group_roles d). gr_tenant_id gr = t \<and> gr_role_id gr = rl_id r
     \<and> (\<exists>g \<in> set (rb_groups d). gp_tenant_id g = t \<and> gp_id g = gr_group_id gr
     \<and> (\<exists>m \<in> set (rb_group_members d). gm_tenant_id m = t \<and> gm_group_id m = gp_id g \<and> gm_user_id m = u))))"

lemma rows_for_set: "set (rows_for tenant (Some t) t rows) = {r \<in> set rows. tenant r = t}"
  by (auto simp: rows_for_def)

lemma mem_comprehension:
  "x \<in> set (concat (map f ys)) \<longleftrightarrow> (\<exists>y \<in> set ys. x \<in> set (f y))" "x \<in> set (if b then l else []) \<longleftrightarrow> b \<and> x \<in> set l"
  by auto

lemma permission_query_granted: "set (permission_query (Some t) t u d) = Collect (granted d t u)"
proof (rule set_eqI)
  fix x
  let ?chain = "\<lambda>p r gr g m. p \<in> set (rb_permissions d) \<and> pm_tenant_id p = t \<and> r \<in> set (rb_roles d) \<and> rl_tenant_id r = t \<and> rl_id r = pm_role_id p
     \<and> gr \<in> set (rb_group_roles d) \<and> gr_tenant_id gr = t \<and> gr_role_id gr = rl_id r
     \<and> g \<in> set (rb_groups d) \<and> gp_tenant_id g = t \<and> gp_id g = gr_group_id gr
     \<and> m \<in> set (rb_group_members d) \<and> gm_tenant_id m = t \<and> gm_group_id m = gp_id g \<and> gm_user_id m = u"
  have "x \<in> set (permission_query (Some t) t u d) \<longleftrightarrow> (\<exists>r gr g m. ?chain x r gr g m)"
  proof
    assume "x \<in> set (permission_query (Some t) t u d)"
    then show "\<exists>r gr g m. ?chain x r gr g m"
      unfolding permission_query_def set_remdups mem_comprehension rows_for_set
      by (simp only: mem_Collect_eq prod.inject list.set(1,2) singleton_iff Bex_def)
        (elim exE conjE, intro exI conjI, (assumption | simp)+)
  next
    assume "\<exists>r gr g m. ?chain x r gr g m"
    then obtain r gr g m where c: "?chain x r gr g m" by blast
    show "x \<in> set (permission_query (Some t) t u d)"
      unfolding permission_query_def set_remdups mem_comprehension rows_for_set
      using c by (intro bexI [of _ x] bexI [of _ r] bexI [of _ gr] bexI [of _ g] bexI [of _ m] conjI) auto
  qed
  then show "x \<in> set (permission_query (Some t) t u d) \<longleftrightarrow> x \<in> Collect (granted d t u)"
    by (auto simp: granted_def)
qed

lemma fetch_permissions_run:
  assumes "in_scope E t s" and "tenant_str (ctx_tenant_id ctx) = t" "ctx_user_id ctx = Some u"
  shows "fetch_permissions E (tx_scope ctx) s =
    (db_answered s, if db_fault s then Inl (DataDbError ''connection'') else Inr (permission_query (Some t) t (user_str u) (db_tables s)))"
proof -
  have "(db_answered s)\<lparr>db_tables := db_tables s\<rparr> = db_answered s" by (simp add: db_answered_def)
  then show ?thesis
    using assms by (simp add: fetch_permissions_def try_from_scoped_def tx_scope_def get_user_permissions_def scoped_statement_def
        in_scope_def Let_def)
qed

lemma db_session_token_tables:
  "db_session_token E G ctx incoming s = (s', r) \<Longrightarrow> db_tables s' = db_tables s \<and> db_pg s' = db_pg s \<and> db_skew s' = db_skew s"
  by (auto simp: db_session_token_def with_system_context_def dest: on_core_tables
      split: if_splits sum.splits option.splits prod.splits)

lemma fetch_permissions_tx:
  assumes "with_tenant_tx E ctx token (fetch_permissions E) s0 = (s', r)" and "ctx_user_id ctx = Some u"
  shows "db_tables s' = db_tables s0
    \<and> (\<forall>ps. r = Inr ps \<longrightarrow> set ps = Collect (granted (db_tables s0) (tenant_str (ctx_tenant_id ctx)) (user_str u)))"
proof (cases "\<exists>s1. tx_entered E ctx token s0 s1")
  case True
  then obtain s1 where s1: "tx_entered E ctx token s0 s1" ..
  note run = fetch_permissions_run [OF tx_entered_scope(1) [OF s1] refl assms(2)]
  show ?thesis
    using assms(1) tx_entered_scope(2) [OF s1]
    unfolding with_tenant_tx_entered [OF s1] run by (auto simp: permission_query_granted split: if_splits)
next
  case False
  then show ?thesis using with_tenant_tx_not_entered [OF False, of "fetch_permissions E"] assms(1) by auto
qed

lemma db_session_token_status:
  "db_session_token E G ctx incoming s = (s', Inl c) \<Longrightarrow> c \<in> {403, 500, 503}"
  by (auto simp: db_session_token_def validate_v2_token_kid_def Let_def key_error_status_def
      split: if_splits sum.splits prod.splits key_manager_error.splits)

lemma load_permissions_cases:
  assumes "load_permissions_middleware E G req next_run s0 = (s', r)"
  obtains c where "c \<in> {403, 500, 503}" "r = Inl c" "db_tables s' = db_tables s0"
  | ctx u s2 ps resp where "rq_context req = Some ctx" "ctx_user_id ctx = Some u" "db_tables s2 = db_tables s0"
      "set ps = Collect (granted (db_tables s0) (tenant_str (ctx_tenant_id ctx)) (user_str u))"
      "next_run (req\<lparr>rq_permissions := Some (UserPermissions (permission_string ` set ps))\<rparr>) s2 = (s', resp)" "r = Inr resp"
proof (cases "rq_context req = None \<or> rq_bearer_token req = None \<or> ctx_db (the (rq_context req)) = None \<or> ctx_user_id (the (rq_context req)) = None")
  case True
  then have "\<exists>c \<in> {403, 500, 503}. r = Inl c \<and> s' = s0"
    using assms by (auto simp: load_permissions_middleware_def split: option.splits if_splits)
  then show thesis using that(1) by blast
next
  case False
  then obtain ctx incoming u where req: "rq_context req = Some ctx" "rq_bearer_token req = Some incoming"
      "ctx_db ctx \<noteq> None" "ctx_user_id ctx = Some u" by auto
  obtain s1 tok where tok: "db_session_token E G ctx incoming s0 = (s1, tok)" by (cases "db_session_token E G ctx incoming s0")
  have t1: "db_tables s1 = db_tables s0" using db_session_token_tables [OF tok] by blast
  show thesis
  proof (cases tok)
    case (Inl c)
    then have "c \<in> {403, 500, 503}" using db_session_token_status tok by simp
    then show thesis
      using that(1) Inl assms req t1 tok by (auto simp: load_permissions_middleware_def)
  next
    case (Inr token)
    obtain s2 q where tx: "with_tenant_tx E ctx token (fetch_permissions E) s1 = (s2, q)"
      by (cases "with_tenant_tx E ctx token (fetch_permissions E) s1")
    note perms = fetch_permissions_tx [OF tx req(4)]
    show thesis
    proof (cases q)
      case (Inl e)
      then have "data_error_status e \<in> {403, 500, 503}" by (simp add: data_error_status_def split: data_error.split)
      then show thesis
        using that(1) Inl assms req t1 tok Inr tx perms by (auto simp: load_permissions_middleware_def)
    next
      case ps: (Inr ps)
      then have "load_permissions_middleware E G req next_run s0 =
          (case next_run (req\<lparr>rq_permissions := Some (UserPermissions (permission_string ` set ps))\<rparr>) s2 of (s, resp) \<Rightarrow> (s, Inr resp))"
        using req tok Inr tx by (auto simp: load_permissions_middleware_def)
      then show thesis using that(2) req(1,4) assms ps perms t1 by (auto split: prod.splits)
    qed
  qed
qed

section \<open>Properties\<close>

text \<open>
  C9 (safety): no handler behind a permission runs without it. Whatever the request carries,
  whatever token it presents and wherever the database fails, either the response is an empty
  403, 500 or 503 and no table changed, or the handler ran for a request whose context has a
  user, and the tables hold, all in the tenant of that context, a chain from a group of which
  the user is a member over a role of the group to a permission with the required name.
\<close>

theorem permission_required:
  "case guarded_route E G permission handler req s0 of (s', resp) \<Rightarrow>
     (resp \<in> status_into_response ` {403, 500, 503} \<and> db_tables s' = db_tables s0)
     \<or> (\<exists>ctx u p s1 ps. rq_context req = Some ctx \<and> ctx_user_id ctx = Some u
          \<and> granted (db_tables s0) (tenant_str (ctx_tenant_id ctx)) (user_str u) p \<and> permission_string p = permission
          \<and> db_tables s1 = db_tables s0 \<and> handler (req\<lparr>rq_permissions := Some ps\<rparr>) s1 = (s', resp))"
proof -
  obtain s' r where run: "load_permissions_middleware E G req
      (\<lambda>req s. middleware_response (require_permission permission req handler s)) s0 = (s', r)" by (metis surj_pair)
  from run show ?thesis
  proof (cases rule: load_permissions_cases)
    case (1 c)
    then show ?thesis using run by (auto simp: guarded_route_def middleware_response_def)
  next
    case (2 ctx u s2 ps resp)
    let ?req = "req\<lparr>rq_permissions := Some (UserPermissions (permission_string ` set ps))\<rparr>"
    have route: "guarded_route E G permission handler req s0 = (s', resp)"
      using run 2(6) by (simp add: guarded_route_def middleware_response_def)
    show ?thesis
    proof (cases "permission \<in> permission_string ` set ps")
      case True
      then obtain p where "granted (db_tables s0) (tenant_str (ctx_tenant_id ctx)) (user_str u) p" "permission_string p = permission"
        using 2(4) by auto
      moreover have "handler ?req s2 = (s', resp)"
        using 2(5) True by (auto simp: middleware_response_def require_permission_def has_permission_def split: prod.splits)
      ultimately show ?thesis using route 2(1-3) by auto
    next
      case False
      then show ?thesis
        using route 2(3,5) by (auto simp: middleware_response_def require_permission_def has_permission_def)
    qed
  qed
qed

text \<open>
  A key table, clock and session under which \<open>generate_tenant_token\<close> issues a token that
  \<open>authorize_tenant\<close> accepts: an active HMAC key with a secret that is still accepted, clocks
  within 30 seconds, and names that do not contain the token's separator.
\<close>

definition tokens_work :: "tx_env \<Rightarrow> key_gen \<Rightarrow> 'd ddb \<Rightarrow> bool" where
  "tokens_work E G s \<longleftrightarrow>
     kt_faults (db_core s) = []
     \<and> (\<exists>k secret. find (is_key Hmac Active) (kt_rows (db_core s)) = Some k \<and> km_secret_bytes k = Some secret
          \<and> lookup_secret (kt_rows (db_core s)) (kt_now (db_core s) + db_skew s) (km_kid k) = Some secret)
     \<and> \<bar>timestamp (kt_now (db_core s)) - (kt_now (db_core s) + db_skew s + 500000) div 1000000\<bar> \<le> 30
     \<and> (\<exists>x. pg_hmac_secret (db_pg s) = Some x \<and> x \<noteq> [])
     \<and> (\<forall>n. kg_uuid G n \<noteq> [] \<and> CHR '':'' \<notin> set (kg_uuid G n) \<and> kg_uuid G n \<notin> set (pg_nonces (db_pg s)))
     \<and> (\<forall>r \<in> set (kt_rows (db_core s)). km_kid r \<noteq> [] \<and> CHR '':'' \<notin> set (km_kid r))
     \<and> (\<forall>k m. tx_hmac_hex E k m \<noteq> [] \<and> CHR '':'' \<notin> set (tx_hmac_hex E k m))
     \<and> (\<forall>i. tx_bigint E (dec_of_int i) = Some i)"

lemma generate_works:
  assumes "tokens_work E G s" and "ctx_db sys \<noteq> None" and "is_system sys"
  shows "\<exists>s' token. generate_tenant_token G (tx_hmac_hex E) sys t (db_core s) = (s', Inr token)
    \<and> kt_rows s' = kt_rows (db_core s) \<and> kt_now s' = kt_now (db_core s) \<and> kt_faults s' = []"
  using assms
  by (auto simp: tokens_work_def generate_tenant_token_def get_active_key_internal_def with_context_def context_db_def
      txn_bind_def select_one_def statement_def txn_return_def Let_def)

lemma session_token_entered:
  assumes ok: "tokens_work E G s" and "ctx_db ctx \<noteq> None" "is_valid_principal (tenant_str (ctx_tenant_id ctx))"
    and "\<not> starts_with incoming ''v2:''"
  obtains s' s1 token where "db_session_token E G ctx incoming s = (s', Inr token)" "tx_entered E ctx token s' s1"
    "db_tables s' = db_tables s" "kt_faults (db_core s1) = []"
proof -
  obtain db where db: "ctx_db ctx = Some db" using assms(2) by auto
  let ?sys = "with_db system_tenant_context db" and ?t = "ctx_tenant_id ctx"
  obtain c token where gen: "generate_tenant_token G (tx_hmac_hex E) ?sys ?t (db_core s) = (c, Inr token)"
      and c: "kt_rows c = kt_rows (db_core s)" "kt_now c = kt_now (db_core s)" "kt_faults c = []"
    using generate_works [OF ok, of ?sys ?t] by (auto simp: kernel_defs)
  let ?s = "s\<lparr>db_core := c\<rparr>"
  have session: "db_session_token E G ctx incoming s = (?s, Inr token)"
    using assms(4) db gen by (simp add: db_session_token_def with_system_context_def on_core_def)
  obtain secret where secret: "pg_hmac_secret (db_pg s) = Some secret" "secret \<noteq> []" using ok by (auto simp: tokens_work_def)
  obtain kid ts nonce sig where split: "split_char (CHR '':'') token = [''v2'', kid, ts, nonce, tenant_str ?t, sig]"
      "kid \<in> km_kid ` set (kt_rows (db_core s))" "ts \<noteq> []" "nonce \<in> range (kg_uuid G)" "sig \<in> range (\<lambda>(k, m). tx_hmac_hex E k m)"
    and auth: "authorize_tenant (tx_hmac_hex E) (tx_bigint E) (kt_rows (db_core s)) (kt_now (db_core s) + db_skew s) token (db_pg s)
      = Inr ((db_pg s)\<lparr>pg_nonces := nonce # pg_nonces (db_pg s), pg_current_tenant := Some (tenant_str ?t),
          pg_ctx_sig := Some (tx_hmac_hex E secret (tenant_str ?t))\<rparr>)"
    by (rule generated_token_accepted [OF gen assms(3), where bigint = "tx_bigint E" and now = "kt_now (db_core s) + db_skew s"
          and rows = "kt_rows (db_core s)" and pg = "db_pg s" and secret = secret])
      (use ok secret in \<open>auto simp: tokens_work_def\<close>)
  have "token = join [CHR '':''] [''v2'', kid, ts, nonce, tenant_str ?t, sig]"
    using join_split_char [of "CHR '':''" token] split(1) by simp
  then have "\<not> starts_with token ''dev-token:''" by (simp add: starts_with_def)
  moreover have "kid \<noteq> []" "nonce \<noteq> []" "sig \<noteq> []" "tenant_str ?t \<noteq> []"
    using ok assms(3) split(2,4,5) by (auto simp: tokens_work_def is_valid_principal_def)
  ultimately have "parse_tenant_from_token token = Some (tenant_str ?t)"
    using split(1,3) by (simp add: parse_tenant_from_token_def)
  then have "\<exists>s1. tx_entered E ctx token ?s s1 \<and> kt_faults (db_core s1) = []"
    using auth c by (simp add: tx_entered_def authorize_statement_def db_fault_def db_answered_def Let_def)
  then show thesis using that session by auto
qed

text \<open>
  permissions are granted exactly as the tables say. For an authenticated
  request with a user, while the database answers and tokens work, the route runs the handler
  if the user has, through a group and a role of the tenant, a permission whose
  \<open>resource:action\<close> is the required one, with exactly the user's permissions in the request;
  otherwise it answers 403 and the handler does not run.
\<close>

theorem permission_granted:
  assumes "tokens_work E G s0" and "rq_context req = Some ctx" "ctx_db ctx \<noteq> None" "ctx_user_id ctx = Some u"
    and "is_valid_principal (tenant_str (ctx_tenant_id ctx))"
    and "rq_bearer_token req = Some incoming" "\<not> starts_with incoming ''v2:''"
  defines "names \<equiv> permission_string ` Collect (granted (db_tables s0) (tenant_str (ctx_tenant_id ctx)) (user_str u))"
  shows "\<exists>s1. db_tables s1 = db_tables s0 \<and> guarded_route E G permission handler req s0 =
    (if permission \<in> names then handler (req\<lparr>rq_permissions := Some (UserPermissions names)\<rparr>) s1
     else (s1, status_into_response 403))"
proof -
  obtain s' s1 token where tok: "db_session_token E G ctx incoming s0 = (s', Inr token)" "tx_entered E ctx token s' s1"
      "db_tables s' = db_tables s0" "kt_faults (db_core s1) = []"
    by (rule session_token_entered [OF assms(1,3,5,7)])
  have nf: "\<not> db_fault s1" "\<not> db_fault (db_answered s1)" using tok(4) by (simp_all add: db_fault_def db_answered_def)
  let ?ps = "permission_query (Some (tenant_str (ctx_tenant_id ctx))) (tenant_str (ctx_tenant_id ctx)) (user_str u) (db_tables s0)"
  have "db_tables s1 = db_tables s0" using tx_entered_scope(2) [OF tok(2)] tok(3) by simp
  then have tx: "\<exists>s2. db_tables s2 = db_tables s0 \<and> with_tenant_tx E ctx token (fetch_permissions E) s' = (s2, Inr ?ps)"
    using nf unfolding with_tenant_tx_entered [OF tok(2)] fetch_permissions_run [OF tx_entered_scope(1) [OF tok(2)] refl assms(4)]
    by simp
  have "permission_string ` set ?ps = names" by (simp add: names_def permission_query_granted)
  with tx tok(1) assms(2-4,6) show ?thesis
    by (auto simp: guarded_route_def load_permissions_middleware_def require_permission_def has_permission_def middleware_response_def
        split: prod.split)
qed

definition sample_rbac :: rbac_tables where
  "sample_rbac = \<lparr>
     rb_permissions = [\<lparr>pm_id = ''p'', pm_tenant_id = ''t1'', pm_role_id = ''r'', pm_resource = ''test'', pm_action = ''write'',
        pm_created_at = 0, pm_updated_at = 0\<rparr>],
     rb_roles = [\<lparr>rl_id = ''r'', rl_tenant_id = ''t1'', rl_name = ''writer'', rl_description = []\<rparr>],
     rb_groups = [\<lparr>gp_id = ''g'', gp_tenant_id = ''t1'', gp_name = ''staff'', gp_description = []\<rparr>],
     rb_group_roles = [\<lparr>gr_id = ''gr'', gr_tenant_id = ''t1'', gr_group_id = ''g'', gr_role_id = ''r''\<rparr>],
     rb_group_members = [\<lparr>gm_id = ''m'', gm_tenant_id = ''t1'', gm_group_id = ''g'', gm_user_id = ''u1''\<rparr>]\<rparr>"

definition sample_keys :: key_gen where
  "sample_keys = sample_gen\<lparr>kg_uuid := (\<lambda>n. CHR ''n'' # replicate n CHR ''u'')\<rparr>"

lemma sample_tokens_work: "tokens_work sample_env sample_keys (sample_ddb d)"
  by (simp add: tokens_work_def sample_env_def sample_keys_def sample_ddb_def sample_kdb_key sample_bigint_dec timestamp_def)
    (simp add: sample_kdb_def)

theorem permission_granted_witness:
  "snd (guarded_route sample_env sample_keys ''test:write'' (\<lambda>req s. (s, status_into_response 200))
      \<lparr>rq_context = Some sample_ctx, rq_bearer_token = Some ''v4.public.x'', rq_permissions = None\<rparr> (sample_ddb sample_rbac)) = status_into_response 200
   \<and> snd (guarded_route sample_env sample_keys ''test:read'' (\<lambda>req s. (s, status_into_response 200))
      \<lparr>rq_context = Some sample_ctx, rq_bearer_token = Some ''v4.public.x'', rq_permissions = None\<rparr> (sample_ddb sample_rbac)) = status_into_response 403"
proof -
  let ?req = "\<lparr>rq_context = Some sample_ctx, rq_bearer_token = Some ''v4.public.x'', rq_permissions = None\<rparr>"
  have v: "is_valid_principal (tenant_str (ctx_tenant_id sample_ctx))" by (simp add: sample_ctx_def) code_simp
  have names: "permission_string ` Collect (granted sample_rbac ''t1'' ''u1'') = {''test:write''}"
    unfolding permission_query_granted [symmetric] by code_simp
  have ctx: "ctx_user_id sample_ctx = Some (UserId ''u1'')" "ctx_db sample_ctx \<noteq> None" by (simp_all add: sample_ctx_def)
  have "\<exists>s1. guarded_route sample_env sample_keys p (\<lambda>req s. (s, status_into_response 200)) ?req (sample_ddb sample_rbac) =
    (if p = ''test:write'' then (s1, status_into_response 200) else (s1, status_into_response 403))" for p
    using permission_granted [OF sample_tokens_work [of sample_rbac], where req = ?req and ctx = sample_ctx
        and handler = "\<lambda>req s. (s, status_into_response 200)" and permission = p and u = "UserId ''u1''" and incoming = "''v4.public.x''"] v ctx names
    by (auto simp: sample_ddb_def sample_ctx_def starts_with_def)
  from this [of "''test:write''"] this [of "''test:read''"] show ?thesis by auto
qed

end
