(* ===== verification/Repository.thy ===== *)
theory Repository
  imports Tenant_Tx Http_Types
begin

text \<open>
  The tenant repository, \<open>kernel-data/src/repository.rs\<close>: entities with optimistic
  concurrency and their history, the audit log, diagnostic reports and policies, and the
  archive marks, as statements on the tables of the migrations
  \<open>m20240216_000002_create_entity_records.rs\<close>, \<open>m20240216_000003_create_audit_tables.rs\<close> and
  \<open>m20250627_000004_create_diagnostics.rs\<close> with their primary keys, the foreign key from the
  history to the entities, the column defaults and the tenant policies; and the privileged
  audit function of \<open>kernel_context.rs\<close> and \<open>m20250627_000006_kernel_context_functions.rs\<close>.

  JSON values are a type parameter. JSON patches, the JSON image of an entity, SHA-256 and
  UUIDs are the fields of \<open>repo_env\<close>. The versions are 32-bit signed words.
\<close>

section \<open>Tables\<close>

type_synonym i32 = "32 word"

record 'j entity_record =
  er_id :: string
  er_tenant_id :: string
  er_entity_type :: string
  er_schema_version :: i32
  er_content :: 'j
  er_created_at :: int
  er_updated_at :: int
  er_version :: i32

record 'j entity_history =
  eh_id :: string
  eh_tenant_id :: string
  eh_entity_id :: string
  eh_entity_type :: string
  eh_change_type :: string
  eh_version :: i32
  eh_diff :: 'j
  eh_created_at :: int
  eh_created_by :: string
  eh_archived_at :: "int option"

record 'j audit_log =
  al_id :: string
  al_tenant_id :: string
  al_actor_id :: string
  al_action :: string
  al_resource :: string
  al_details :: 'j
  al_ip_address :: "string option"
  al_user_agent :: "string option"
  al_created_at :: int
  al_archived_at :: "int option"

record 'j diagnostic_report =
  dr_trace_id :: string
  dr_tenant_id :: string
  dr_error_code :: string
  dr_context :: 'j
  dr_suggestion :: "string option"
  dr_created_at :: int

record diagnostic_policy =
  dp_tenant_id :: string
  dp_enabled :: bool
  dp_updated_at :: int
  dp_updated_by :: "string option"

record 'j repo_tables =
  rt_entities :: "'j entity_record list"
  rt_histories :: "'j entity_history list"
  rt_audits :: "'j audit_log list"
  rt_reports :: "'j diagnostic_report list"
  rt_policies :: "diagnostic_policy list"

record 'j repo_env =
  rp_tx :: tx_env
  rp_sha256 :: "string \<Rightarrow> byte list"
  rp_uuid :: "nat \<Rightarrow> string"
  rp_diff :: "'j \<Rightarrow> 'j \<Rightarrow> string + 'j"
  rp_entity_json :: "'j entity_record \<Rightarrow> string + 'j"

type_synonym ('j, 'a) repo_tx = "('j repo_tables, 'a) dtx"

section \<open>Statements\<close>

text \<open>An inserted row passes the tenant policy and the primary key.\<close>

definition row_insert :: "('r \<Rightarrow> 'k) \<Rightarrow> ('r \<Rightarrow> string) \<Rightarrow> string option \<Rightarrow> 'r \<Rightarrow> 'r list \<Rightarrow> string + 'r list" where
  "row_insert key tenant tid r rows =
     (if tid \<noteq> Some (tenant r) then Inl ''new row violates row-level security policy''
      else if key r \<in> key ` set rows then Inl ''duplicate key value violates unique constraint''
      else Inr (rows @ [r]))"

definition visible :: "('r \<Rightarrow> string) \<Rightarrow> string option \<Rightarrow> 'r list \<Rightarrow> 'r list" where
  "visible tenant tid rows = filter (\<lambda>r. tid = Some (tenant r)) rows"

definition update_visible :: "('r \<Rightarrow> string) \<Rightarrow> string option \<Rightarrow> ('r \<Rightarrow> bool) \<Rightarrow> ('r \<Rightarrow> 'r) \<Rightarrow> 'r list \<Rightarrow> 'r list" where
  "update_visible tenant tid P f rows = map (\<lambda>r. if tid = Some (tenant r) \<and> P r then f r else r) rows"

definition er_key :: "'j entity_record \<Rightarrow> string \<times> string" where
  "er_key r = (er_id r, er_tenant_id r)"

definition eh_key :: "'j entity_history \<Rightarrow> string \<times> string" where
  "eh_key r = (eh_id r, eh_tenant_id r)"

definition insert_entity :: "'j repo_env \<Rightarrow> 'j entity_record \<Rightarrow> ('j, 'j entity_record) repo_tx" where
  "insert_entity E r = scoped_statement (rp_tx E) (\<lambda>tid d.
     map_sum id (\<lambda>rows. (d\<lparr>rt_entities := rows\<rparr>, r)) (row_insert er_key er_tenant_id tid r (rt_entities d)))"

definition find_entity :: "'j repo_env \<Rightarrow> string \<Rightarrow> string \<Rightarrow> ('j, 'j entity_record option) repo_tx" where
  "find_entity E eid tenant = scoped_statement (rp_tx E) (\<lambda>tid d.
     Inr (d, find (\<lambda>r. er_key r = (eid, tenant)) (visible er_tenant_id tid (rt_entities d))))"

definition update_entity_row :: "'j repo_env \<Rightarrow> string \<Rightarrow> string \<Rightarrow> ('j entity_record \<Rightarrow> 'j entity_record) \<Rightarrow> ('j, 'j entity_record) repo_tx" where
  "update_entity_row E eid tenant f = scoped_statement (rp_tx E) (\<lambda>tid d.
     case find (\<lambda>r. er_key r = (eid, tenant)) (visible er_tenant_id tid (rt_entities d)) of
       None \<Rightarrow> Inl ''None of the records are updated''
     | Some r \<Rightarrow> Inr (d\<lparr>rt_entities := update_visible er_tenant_id tid (\<lambda>r. er_key r = (eid, tenant)) f (rt_entities d)\<rparr>, f r))"

text \<open>The history's foreign key: an insertion needs the entity, a deletion needs an entity without history.\<close>

definition insert_history :: "'j repo_env \<Rightarrow> 'j entity_history \<Rightarrow> ('j, unit) repo_tx" where
  "insert_history E h = scoped_statement (rp_tx E) (\<lambda>tid d.
     case row_insert eh_key eh_tenant_id tid h (rt_histories d) of
       Inl e \<Rightarrow> Inl e
     | Inr rows \<Rightarrow>
         if (eh_entity_id h, eh_tenant_id h) \<notin> er_key ` set (rt_entities d)
         then Inl ''insert violates foreign key constraint fk_entity_histories_entity_record''
         else Inr (d\<lparr>rt_histories := rows\<rparr>, ()))"

definition delete_entity_row :: "'j repo_env \<Rightarrow> string \<Rightarrow> string \<Rightarrow> ('j, nat) repo_tx" where
  "delete_entity_row E eid tenant = scoped_statement (rp_tx E) (\<lambda>tid d.
     (let doomed = filter (\<lambda>r. er_key r = (eid, tenant)) (visible er_tenant_id tid (rt_entities d))
      in if doomed \<noteq> [] \<and> list_ex (\<lambda>h. (eh_entity_id h, eh_tenant_id h) = (eid, tenant)) (rt_histories d)
         then Inl ''delete violates foreign key constraint fk_entity_histories_entity_record''
         else Inr (d\<lparr>rt_entities := filter (\<lambda>r. \<not> (tid = Some (er_tenant_id r) \<and> er_key r = (eid, tenant))) (rt_entities d)\<rparr>,
                   length doomed)))"

definition draw_uuid :: "'j repo_env \<Rightarrow> ('j, string) repo_tx" where
  "draw_uuid E s = (s\<lparr>db_core := (db_core s)\<lparr>kt_drawn := kt_drawn (db_core s) + 1\<rparr>\<rparr>, Inr (rp_uuid E (kt_drawn (db_core s))))"

definition utc_now :: "'d ddb \<Rightarrow> int" where
  "utc_now s = kt_now (db_core s)"

definition sql_now :: "'d ddb \<Rightarrow> int" where
  "sql_now s = kt_now (db_core s) + db_skew s"

fun dlift :: "data_error + 'a \<Rightarrow> ('d, 'a) dtx" where
  "dlift (Inl e) = dfail e"
| "dlift (Inr x) = dreturn x"

section \<open>Entities\<close>

datatype 'a active_value = ActiveSet 'a | ActiveUnchanged 'a | ActiveNotSet

record 'j entity_active_model =
  ea_id :: "string active_value"
  ea_tenant_id :: "string active_value"
  ea_entity_type :: "string active_value"
  ea_schema_version :: "i32 active_value"
  ea_content :: "'j active_value"
  ea_created_at :: "int active_value"
  ea_updated_at :: "int active_value"
  ea_version :: "i32 active_value"

definition pseudonymize_user_id_for_audit :: "'j repo_env \<Rightarrow> string \<Rightarrow> string \<Rightarrow> string" where
  "pseudonymize_user_id_for_audit E tenant_id user_id =
     ''uidh:'' @ hex_of_bytes (rp_sha256 E (tenant_id @ '':'' @ user_id))"

definition history_actor_id :: "'j repo_env \<Rightarrow> string \<Rightarrow> user_id option \<Rightarrow> string" where
  "history_actor_id E tenant_id user_id =
     (case user_id of Some u \<Rightarrow> pseudonymize_user_id_for_audit E tenant_id (user_str u) | None \<Rightarrow> ''system'')"

fun required_active_value :: "'a active_value \<Rightarrow> string \<Rightarrow> data_error + 'a" where
  "required_active_value (ActiveSet v) field_name = Inr v"
| "required_active_value (ActiveUnchanged v) field_name = Inr v"
| "required_active_value ActiveNotSet field_name = Inl (ValidationError (field_name @ '' is required''))"

fun active_value_or :: "'a active_value \<Rightarrow> 'a \<Rightarrow> 'a" where
  "active_value_or (ActiveSet v) d = v"
| "active_value_or (ActiveUnchanged v) d = v"
| "active_value_or ActiveNotSet d = d"

text \<open>An update writes the columns that are set; unchanged and missing ones keep their value.\<close>

fun active_set_or :: "'a active_value \<Rightarrow> 'a \<Rightarrow> 'a" where
  "active_set_or (ActiveSet v) d = v"
| "active_set_or _ d = d"

definition history_row :: "'j repo_env \<Rightarrow> tenant_scoped \<Rightarrow> string \<Rightarrow> string \<Rightarrow> string \<Rightarrow> i32 \<Rightarrow> 'j \<Rightarrow> int \<Rightarrow> string \<Rightarrow> 'j entity_history" where
  "history_row E sc eid etype change version diff now hid =
     \<lparr>eh_id = hid, eh_tenant_id = tenant_str (ts_tenant_id sc), eh_entity_id = eid, eh_entity_type = etype,
      eh_change_type = change, eh_version = version, eh_diff = diff, eh_created_at = now,
      eh_created_by = history_actor_id E (tenant_str (ts_tenant_id sc)) (ts_user_id sc), eh_archived_at = None\<rparr>"

definition add_history :: "'j repo_env \<Rightarrow> tenant_scoped \<Rightarrow> string \<Rightarrow> string \<Rightarrow> string \<Rightarrow> i32 \<Rightarrow> 'j \<Rightarrow> ('j, unit) repo_tx" where
  "add_history E sc eid etype change version diff =
     dbind (draw_uuid E) (\<lambda>hid s. insert_history E (history_row E sc eid etype change version diff (utc_now s) hid) s)"

definition create_entity :: "'j repo_env \<Rightarrow> tenant_scoped \<Rightarrow> 'j entity_active_model \<Rightarrow> ('j, 'j entity_record) repo_tx" where
  "create_entity E sc am s =
     (dbind (dlift (required_active_value (ea_id am) ''Entity ID'')) (\<lambda>entity_id.
      dbind (dlift (required_active_value (ea_entity_type am) ''Entity Type'')) (\<lambda>entity_type.
      dbind (dlift (required_active_value (ea_content am) ''Content'')) (\<lambda>content.
      dbind (insert_entity E \<lparr>er_id = entity_id, er_tenant_id = tenant_str (ts_tenant_id sc), er_entity_type = entity_type,
               er_schema_version = active_value_or (ea_schema_version am) 1, er_content = content,
               er_created_at = active_value_or (ea_created_at am) (sql_now s),
               er_updated_at = active_value_or (ea_updated_at am) (sql_now s),
               er_version = active_value_or (ea_version am) 1\<rparr>) (\<lambda>result.
      dbind (add_history E sc entity_id entity_type ''CREATE'' (active_value_or (ea_version am) 1) content) (\<lambda>_.
      dreturn result)))))) s"

definition get_entity :: "'j repo_env \<Rightarrow> tenant_scoped \<Rightarrow> string \<Rightarrow> ('j, 'j entity_record option) repo_tx" where
  "get_entity E sc eid = find_entity E eid (tenant_str (ts_tenant_id sc))"

definition checked_add_one_i32 :: "i32 \<Rightarrow> i32 option" where
  "checked_add_one_i32 v = (if sint v = 2 ^ 31 - 1 then None else Some (v + 1))"

definition check_payload_id :: "string \<Rightarrow> string active_value \<Rightarrow> data_error + unit" where
  "check_payload_id eid v =
     (case v of
        ActiveNotSet \<Rightarrow> Inr ()
      | ActiveSet model_id \<Rightarrow>
          if model_id \<noteq> eid then Inl (ValidationError (''entity id mismatch: path='' @ eid @ '', payload='' @ model_id)) else Inr ()
      | ActiveUnchanged model_id \<Rightarrow>
          if model_id \<noteq> eid then Inl (ValidationError (''entity id mismatch: path='' @ eid @ '', payload='' @ model_id)) else Inr ())"

definition check_version :: "(i32 \<Rightarrow> string) \<Rightarrow> i32 \<Rightarrow> i32 active_value \<Rightarrow> data_error + unit" where
  "check_version show_i32 existing v =
     (case v of
        ActiveNotSet \<Rightarrow> Inl (ValidationError ''version is required for update'')
      | ActiveSet x \<Rightarrow>
          if x \<noteq> existing then Inl (ValidationError (''version conflict: expected '' @ show_i32 existing @ '', got '' @ show_i32 x)) else Inr ()
      | ActiveUnchanged x \<Rightarrow>
          if x \<noteq> existing then Inl (ValidationError (''version conflict: expected '' @ show_i32 existing @ '', got '' @ show_i32 x)) else Inr ())"

definition show_i32 :: "i32 \<Rightarrow> string" where
  "show_i32 v = dec_of_int (sint v)"

definition found_or_fail :: "'a option \<Rightarrow> data_error + 'a" where
  "found_or_fail r = ok_or (ValidationError ''Entity not found'') r"

definition update_entity :: "'j repo_env \<Rightarrow> tenant_scoped \<Rightarrow> string \<Rightarrow> 'j entity_active_model \<Rightarrow> ('j, 'j entity_record) repo_tx" where
  "update_entity E sc eid am s =
     (dbind (dlift (check_payload_id eid (ea_id am))) (\<lambda>_.
      dbind (find_entity E eid (tenant_str (ts_tenant_id sc))) (\<lambda>found.
      dbind (dlift (found_or_fail found)) (\<lambda>existing.
      dbind (dlift (check_version show_i32 (er_version existing) (ea_version am))) (\<lambda>_.
      dbind (dlift (ok_or (ValidationError ''version overflow: cannot increment entity version'')
                     (checked_add_one_i32 (er_version existing)))) (\<lambda>next_version.
      dbind (update_entity_row E eid (tenant_str (ts_tenant_id sc)) (\<lambda>r. r\<lparr>
               er_entity_type := active_set_or (ea_entity_type am) (er_entity_type r),
               er_schema_version := active_set_or (ea_schema_version am) (er_schema_version r),
               er_content := active_set_or (ea_content am) (er_content r),
               er_created_at := active_set_or (ea_created_at am) (er_created_at r),
               er_updated_at := utc_now s,
               er_version := next_version\<rparr>)) (\<lambda>result.
      dbind (dlift (map_sum (\<lambda>e. SerializationError (''failed to serialize content patch: '' @ e)) id
                     (rp_diff E (er_content existing) (er_content result)))) (\<lambda>patch_json.
      dbind (add_history E sc eid (er_entity_type result) ''UPDATE'' next_version patch_json) (\<lambda>_.
      dreturn result))))))))) s"

definition delete_entity :: "'j repo_env \<Rightarrow> tenant_scoped \<Rightarrow> string \<Rightarrow> ('j, unit) repo_tx" where
  "delete_entity E sc eid =
     dbind (find_entity E eid (tenant_str (ts_tenant_id sc))) (\<lambda>found.
     dbind (dlift (found_or_fail found)) (\<lambda>existing.
     dbind (dlift (map_sum (\<lambda>e. SerializationError (''failed to serialize deleted entity snapshot: '' @ e)) id
                    (rp_entity_json E existing))) (\<lambda>deleted_snapshot.
     dbind (add_history E sc eid (er_entity_type existing) ''DELETE'' (er_version existing) deleted_snapshot) (\<lambda>_.
     dbind (delete_entity_row E eid (tenant_str (ts_tenant_id sc))) (\<lambda>rows_affected.
     if rows_affected = 0 then dfail (ValidationError ''Entity not found'') else dreturn ())))))"

section \<open>Diagnostics\<close>

record 'j report_active_model =
  ra_trace_id :: "string active_value"
  ra_error_code :: "string active_value"
  ra_context :: "'j active_value"
  ra_suggestion :: "string option active_value"
  ra_created_at :: "int active_value"

record policy_active_model =
  pa_enabled :: "bool active_value"
  pa_updated_at :: "int active_value"
  pa_updated_by :: "string option active_value"

definition not_null :: "string \<Rightarrow> 'a active_value \<Rightarrow> data_error + 'a" where
  "not_null column v =
     (case v of
        ActiveNotSet \<Rightarrow> Inl (DataDbError (''null value in column '' @ column @ '' violates not-null constraint''))
      | ActiveSet x \<Rightarrow> Inr x
      | ActiveUnchanged x \<Rightarrow> Inr x)"

definition create_diagnostic_report :: "'j repo_env \<Rightarrow> tenant_scoped \<Rightarrow> 'j report_active_model \<Rightarrow> ('j, 'j diagnostic_report) repo_tx" where
  "create_diagnostic_report E sc am s =
     (dbind (dlift (required_active_value (ra_trace_id am) ''DiagnosticReport ID'')) (\<lambda>trace_id.
      dbind (dlift (not_null ''error_code'' (ra_error_code am))) (\<lambda>error_code.
      dbind (dlift (not_null ''context'' (ra_context am))) (\<lambda>context.
      let r = \<lparr>dr_trace_id = trace_id, dr_tenant_id = tenant_str (ts_tenant_id sc), dr_error_code = error_code, dr_context = context,
               dr_suggestion = active_value_or (ra_suggestion am) None, dr_created_at = active_value_or (ra_created_at am) (sql_now s)\<rparr>
      in scoped_statement (rp_tx E) (\<lambda>tid d.
           map_sum id (\<lambda>rows. (d\<lparr>rt_reports := rows\<rparr>, r))
             (row_insert (\<lambda>r. (dr_trace_id r, dr_tenant_id r)) dr_tenant_id tid r (rt_reports d))))))) s"

definition get_diagnostic_report :: "'j repo_env \<Rightarrow> tenant_scoped \<Rightarrow> string \<Rightarrow> ('j, 'j diagnostic_report option) repo_tx" where
  "get_diagnostic_report E sc trace_id = scoped_statement (rp_tx E) (\<lambda>tid d.
     Inr (d, find (\<lambda>r. (dr_trace_id r, dr_tenant_id r) = (trace_id, tenant_str (ts_tenant_id sc)))
               (visible dr_tenant_id tid (rt_reports d))))"

definition get_diagnostic_policy :: "'j repo_env \<Rightarrow> tenant_scoped \<Rightarrow> ('j, diagnostic_policy option) repo_tx" where
  "get_diagnostic_policy E sc = scoped_statement (rp_tx E) (\<lambda>tid d.
     Inr (d, find (\<lambda>r. dp_tenant_id r = tenant_str (ts_tenant_id sc)) (visible dp_tenant_id tid (rt_policies d))))"

definition upsert_policy_rows :: "string option \<Rightarrow> diagnostic_policy \<Rightarrow> diagnostic_policy list \<Rightarrow> string + diagnostic_policy list" where
  "upsert_policy_rows tid p rows =
     (if tid \<noteq> Some (dp_tenant_id p) then Inl ''new row violates row-level security policy''
      else if dp_tenant_id p \<in> dp_tenant_id ` set rows
      then Inr (map (\<lambda>r. if dp_tenant_id r = dp_tenant_id p
                          then r\<lparr>dp_enabled := dp_enabled p, dp_updated_at := dp_updated_at p, dp_updated_by := dp_updated_by p\<rparr>
                          else r) rows)
      else Inr (rows @ [p]))"

definition upsert_diagnostic_policy :: "'j repo_env \<Rightarrow> tenant_scoped \<Rightarrow> policy_active_model \<Rightarrow> ('j, diagnostic_policy) repo_tx" where
  "upsert_diagnostic_policy E sc am s =
     (let p = \<lparr>dp_tenant_id = tenant_str (ts_tenant_id sc), dp_enabled = active_value_or (pa_enabled am) False,
               dp_updated_at = active_value_or (pa_updated_at am) (sql_now s), dp_updated_by = active_value_or (pa_updated_by am) None\<rparr>
      in scoped_statement (rp_tx E) (\<lambda>tid d. map_sum id (\<lambda>rows. (d\<lparr>rt_policies := rows\<rparr>, p)) (upsert_policy_rows tid p (rt_policies d))) s)"

section \<open>Audit log and archive marks\<close>

definition insert_audit :: "'j repo_env \<Rightarrow> 'j audit_log \<Rightarrow> ('j, unit) repo_tx" where
  "insert_audit E l = scoped_statement (rp_tx E) (\<lambda>tid d.
     map_sum id (\<lambda>rows. (d\<lparr>rt_audits := rows\<rparr>, ())) (row_insert (\<lambda>l. (al_id l, al_tenant_id l)) al_tenant_id tid l (rt_audits d)))"

definition log_audit :: "'j repo_env \<Rightarrow> tenant_scoped \<Rightarrow> string \<Rightarrow> string \<Rightarrow> 'j \<Rightarrow> ('j, unit) repo_tx" where
  "log_audit E sc action resource details =
     dbind (dlift (ok_or (ValidationError ''missing actor for audit log'') (ts_user_id sc))) (\<lambda>user_id.
     dbind (draw_uuid E) (\<lambda>lid s.
       insert_audit E \<lparr>al_id = lid, al_tenant_id = tenant_str (ts_tenant_id sc),
         al_actor_id = pseudonymize_user_id_for_audit E (tenant_str (ts_tenant_id sc)) (user_str user_id),
         al_action = action, al_resource = resource, al_details = details, al_ip_address = None, al_user_agent = None,
         al_created_at = utc_now s, al_archived_at = None\<rparr> s))"

definition MARK_ARCHIVE_CHUNK_SIZE :: nat where
  "MARK_ARCHIVE_CHUNK_SIZE = 500"

function chunks :: "nat \<Rightarrow> 'a list \<Rightarrow> 'a list list" where
  "chunks n xs = (if xs = [] \<or> n = 0 then [] else take n xs # chunks n (drop n xs))"
  by pat_completeness auto
termination
  by (relation "measure (\<lambda>(n, xs). length xs)") auto

declare chunks.simps [simp del]

fun for_each :: "('x \<Rightarrow> ('d, unit) dtx) \<Rightarrow> 'x list \<Rightarrow> ('d, unit) dtx" where
  "for_each f [] = dreturn ()"
| "for_each f (x # xs) = dbind (f x) (\<lambda>_. for_each f xs)"

text \<open>\<open>ORDER BY created_at LIMIT limit\<close>; rows with the same time may come in any order, here in the table's.\<close>

definition find_unarchived_entity_histories :: "'j repo_env \<Rightarrow> tenant_scoped \<Rightarrow> u64 \<Rightarrow> ('j, 'j entity_history list) repo_tx" where
  "find_unarchived_entity_histories E sc limit = scoped_statement (rp_tx E) (\<lambda>tid d.
     Inr (d, take (unat limit) (sort_key eh_created_at
       (filter (\<lambda>h. eh_tenant_id h = tenant_str (ts_tenant_id sc) \<and> eh_archived_at h = None)
         (visible eh_tenant_id tid (rt_histories d))))))"

definition mark_histories_chunk :: "'j repo_env \<Rightarrow> tenant_scoped \<Rightarrow> string list \<Rightarrow> ('j, unit) repo_tx" where
  "mark_histories_chunk E sc ids s = scoped_statement (rp_tx E) (\<lambda>tid d.
     Inr (d\<lparr>rt_histories := update_visible eh_tenant_id tid
              (\<lambda>h. eh_id h \<in> set ids \<and> eh_tenant_id h = tenant_str (ts_tenant_id sc) \<and> eh_archived_at h = None)
              (\<lambda>h. h\<lparr>eh_archived_at := Some (sql_now s)\<rparr>) (rt_histories d)\<rparr>, ())) s"

definition mark_entity_histories_archived :: "'j repo_env \<Rightarrow> tenant_scoped \<Rightarrow> string list \<Rightarrow> ('j, unit) repo_tx" where
  "mark_entity_histories_archived E sc ids =
     (if ids = [] then dreturn () else for_each (mark_histories_chunk E sc) (chunks MARK_ARCHIVE_CHUNK_SIZE ids))"

definition mark_entity_history_archived :: "'j repo_env \<Rightarrow> tenant_scoped \<Rightarrow> string \<Rightarrow> ('j, unit) repo_tx" where
  "mark_entity_history_archived E sc hid = mark_entity_histories_archived E sc [hid]"

definition find_unarchived_audit_logs :: "'j repo_env \<Rightarrow> tenant_scoped \<Rightarrow> u64 \<Rightarrow> ('j, 'j audit_log list) repo_tx" where
  "find_unarchived_audit_logs E sc limit = scoped_statement (rp_tx E) (\<lambda>tid d.
     Inr (d, take (unat limit) (sort_key al_created_at
       (filter (\<lambda>l. al_tenant_id l = tenant_str (ts_tenant_id sc) \<and> al_archived_at l = None)
         (visible al_tenant_id tid (rt_audits d))))))"

definition mark_audits_chunk :: "'j repo_env \<Rightarrow> tenant_scoped \<Rightarrow> string list \<Rightarrow> ('j, unit) repo_tx" where
  "mark_audits_chunk E sc ids s = scoped_statement (rp_tx E) (\<lambda>tid d.
     Inr (d\<lparr>rt_audits := update_visible al_tenant_id tid
              (\<lambda>l. al_id l \<in> set ids \<and> al_tenant_id l = tenant_str (ts_tenant_id sc) \<and> al_archived_at l = None)
              (\<lambda>l. l\<lparr>al_archived_at := Some (sql_now s)\<rparr>) (rt_audits d)\<rparr>, ())) s"

definition mark_audit_logs_archived :: "'j repo_env \<Rightarrow> tenant_scoped \<Rightarrow> string list \<Rightarrow> ('j, unit) repo_tx" where
  "mark_audit_logs_archived E sc ids =
     (if ids = [] then dreturn () else for_each (mark_audits_chunk E sc) (chunks MARK_ARCHIVE_CHUNK_SIZE ids))"

definition mark_audit_log_archived :: "'j repo_env \<Rightarrow> tenant_scoped \<Rightarrow> string \<Rightarrow> ('j, unit) repo_tx" where
  "mark_audit_log_archived E sc lid = mark_audit_logs_archived E sc [lid]"

text \<open>
  \<open>KernelContext::with_tx\<close> runs a closure in a transaction without a tenant; the SQL function
  \<open>log_privileged_audit\<close> puts on the system tenant for one insertion.
\<close>

definition kernel_with_tx :: "('d, 'a) dtx \<Rightarrow> ('d, 'a) dtx" where
  "kernel_with_tx f s0 =
     (if db_fault s0 then (db_answered s0, Inl (DataDbError ''connection''))
      else (case f (db_answered s0) of
              (s, Inr r) \<Rightarrow>
                if db_fault s
                then (if db_commit_lost s then db_end_settings s0 (db_answered s) else db_restore s0 (db_answered s),
                      Inl (DataDbError ''connection''))
                else (db_end_settings s0 (db_answered s), Inr r)
            | (s, Inl e) \<Rightarrow> db_rollback s0 e s))"

definition set_context :: "string \<Rightarrow> string \<Rightarrow> 'd ddb \<Rightarrow> 'd ddb" where
  "set_context tenant sig s = s\<lparr>db_pg := (db_pg s)\<lparr>pg_current_tenant := Some tenant, pg_ctx_sig := Some sig\<rparr>\<rparr>"

definition log_privileged_audit :: "'j repo_env \<Rightarrow> string \<Rightarrow> string \<Rightarrow> 'j \<Rightarrow> ('j, unit) repo_tx" where
  "log_privileged_audit E action resource details s =
     (if db_fault s then (db_answered s, Inl (DataDbError ''connection''))
      else (case pg_hmac_secret (db_pg s) of
              None \<Rightarrow> (db_answered s, Inl (DataDbError ''flexi.hmac_secret is not set or empty; cannot compute ctx_sig.''))
            | Some secret \<Rightarrow>
                if secret = [] then (db_answered s, Inl (DataDbError ''flexi.hmac_secret is not set or empty; cannot compute ctx_sig.''))
                else (case dbind (draw_uuid E) (\<lambda>lid. insert_audit E \<lparr>al_id = lid, al_tenant_id = ''system'', al_actor_id = ''kernel_admin'',
                               al_action = action, al_resource = resource, al_details = details, al_ip_address = None,
                               al_user_agent = Some ''kernel-background-runner'', al_created_at = sql_now s, al_archived_at = None\<rparr>)
                             (set_context ''system'' (tx_hmac_hex (rp_tx E) secret ''system'') s) of
                        (s', Inl e) \<Rightarrow> (s', Inl e)
                      | (s', Inr _) \<Rightarrow> (set_context [] [] s', Inr ()))))"

section \<open>All operations\<close>

datatype 'j repo_op =
    OpCreate "'j entity_active_model"
  | OpGet string
  | OpUpdate string "'j entity_active_model"
  | OpDelete string
  | OpCreateReport "'j report_active_model"
  | OpGetReport string
  | OpGetPolicy
  | OpUpsertPolicy policy_active_model
  | OpLogAudit string string 'j
  | OpFindHistories u64
  | OpMarkHistories "string list"
  | OpFindAudits u64
  | OpMarkAudits "string list"

datatype 'j repo_result =
    REntity "'j entity_record"
  | RFound "'j entity_record option"
  | RReport "'j diagnostic_report"
  | RFoundReport "'j diagnostic_report option"
  | RPolicy diagnostic_policy
  | RFoundPolicy "diagnostic_policy option"
  | RHistories "'j entity_history list"
  | RAudits "'j audit_log list"
  | RDone

definition dmap :: "('a \<Rightarrow> 'b) \<Rightarrow> ('d, 'a) dtx \<Rightarrow> ('d, 'b) dtx" where
  "dmap f m = dbind m (\<lambda>x. dreturn (f x))"

fun run_op :: "'j repo_env \<Rightarrow> tenant_scoped \<Rightarrow> 'j repo_op \<Rightarrow> ('j, 'j repo_result) repo_tx" where
  "run_op E sc (OpCreate am) = dmap REntity (create_entity E sc am)"
| "run_op E sc (OpGet eid) = dmap RFound (get_entity E sc eid)"
| "run_op E sc (OpUpdate eid am) = dmap REntity (update_entity E sc eid am)"
| "run_op E sc (OpDelete eid) = dmap (\<lambda>_. RDone) (delete_entity E sc eid)"
| "run_op E sc (OpCreateReport am) = dmap RReport (create_diagnostic_report E sc am)"
| "run_op E sc (OpGetReport trace_id) = dmap RFoundReport (get_diagnostic_report E sc trace_id)"
| "run_op E sc OpGetPolicy = dmap RFoundPolicy (get_diagnostic_policy E sc)"
| "run_op E sc (OpUpsertPolicy am) = dmap RPolicy (upsert_diagnostic_policy E sc am)"
| "run_op E sc (OpLogAudit action resource details) = dmap (\<lambda>_. RDone) (log_audit E sc action resource details)"
| "run_op E sc (OpFindHistories limit) = dmap RHistories (find_unarchived_entity_histories E sc limit)"
| "run_op E sc (OpMarkHistories ids) = dmap (\<lambda>_. RDone) (mark_entity_histories_archived E sc ids)"
| "run_op E sc (OpFindAudits limit) = dmap RAudits (find_unarchived_audit_logs E sc limit)"
| "run_op E sc (OpMarkAudits ids) = dmap (\<lambda>_. RDone) (mark_audit_logs_archived E sc ids)"

text \<open>A closure that calls operations one after the other and passes the first error on.\<close>

fun run_ops :: "'j repo_env \<Rightarrow> tenant_scoped \<Rightarrow> 'j repo_op list \<Rightarrow> ('j, 'j repo_result list) repo_tx" where
  "run_ops E sc [] = dreturn []"
| "run_ops E sc (op # ops) = dbind (run_op E sc op) (\<lambda>r. dmap ((#) r) (run_ops E sc ops))"

section \<open>Tenant isolation\<close>

definition rows_of :: "(string \<Rightarrow> bool) \<Rightarrow> 'j repo_tables \<Rightarrow> 'j repo_tables" where
  "rows_of P d = \<lparr>rt_entities = filter (\<lambda>r. P (er_tenant_id r)) (rt_entities d),
     rt_histories = filter (\<lambda>r. P (eh_tenant_id r)) (rt_histories d),
     rt_audits = filter (\<lambda>r. P (al_tenant_id r)) (rt_audits d),
     rt_reports = filter (\<lambda>r. P (dr_tenant_id r)) (rt_reports d),
     rt_policies = filter (\<lambda>r. P (dp_tenant_id r)) (rt_policies d)\<rparr>"

abbreviation own_rows :: "string \<Rightarrow> 'j repo_tables \<Rightarrow> 'j repo_tables" where
  "own_rows t \<equiv> rows_of (\<lambda>x. x = t)"

abbreviation other_rows :: "string \<Rightarrow> 'j repo_tables \<Rightarrow> 'j repo_tables" where
  "other_rows t \<equiv> rows_of (\<lambda>x. x \<noteq> t)"

text \<open>The same database but for rows of other tenants.\<close>

definition same_view :: "string \<Rightarrow> 'j repo_tables ddb \<Rightarrow> 'j repo_tables ddb \<Rightarrow> bool" where
  "same_view t s1 s2 \<longleftrightarrow>
     db_core s1 = db_core s2 \<and> db_pg s1 = db_pg s2 \<and> db_skew s1 = db_skew s2 \<and> db_commit_lost s1 = db_commit_lost s2
     \<and> own_rows t (db_tables s1) = own_rows t (db_tables s2)"

definition stmt_local :: "string \<Rightarrow> (string option \<Rightarrow> 'j repo_tables \<Rightarrow> string + 'j repo_tables \<times> 'a) \<Rightarrow> bool" where
  "stmt_local t stmt \<longleftrightarrow>
     (\<forall>d d' r. stmt (Some t) d = Inr (d', r) \<longrightarrow> other_rows t d' = other_rows t d)
     \<and> (\<forall>d1 d2. own_rows t d1 = own_rows t d2 \<longrightarrow>
          rel_sum (=) (\<lambda>(d1', r1) (d2', r2). own_rows t d1' = own_rows t d2' \<and> r1 = r2) (stmt (Some t) d1) (stmt (Some t) d2))"

definition tx_local :: "tx_env \<Rightarrow> string \<Rightarrow> ('j, 'a) repo_tx \<Rightarrow> bool" where
  "tx_local E t m \<longleftrightarrow>
     (\<forall>s. in_scope E t s \<longrightarrow> in_scope E t (fst (m s)) \<and> other_rows t (db_tables (fst (m s))) = other_rows t (db_tables s))
     \<and> (\<forall>s1 s2. in_scope E t s1 \<longrightarrow> same_view t s1 s2 \<longrightarrow> same_view t (fst (m s1)) (fst (m s2)) \<and> snd (m s1) = snd (m s2))"

named_theorems tx_locals \<open>operations that only see and change their tenant's rows\<close>

lemma same_view_answered: "same_view t s1 s2 \<Longrightarrow> same_view t (db_answered s1) (db_answered s2)"
  by (simp add: same_view_def db_answered_def)

lemma tx_local_statement:
  assumes "stmt_local t stmt"
  shows "tx_local E t (scoped_statement E stmt)"
  unfolding tx_local_def
proof (intro conjI allI impI)
  fix s :: "'a repo_tables ddb" assume s: "in_scope E t s"
  show "in_scope E t (fst (scoped_statement E stmt s))"
    using s by (auto simp: scoped_statement_def Let_def in_scope_def split: sum.split prod.split)
  show "other_rows t (db_tables (fst (scoped_statement E stmt s))) = other_rows t (db_tables s)"
    using s assms by (auto simp: scoped_statement_def Let_def in_scope_def stmt_local_def split: sum.split prod.split)
next
  fix s1 s2 :: "'a repo_tables ddb" assume s: "in_scope E t s1" and v: "same_view t s1 s2"
  have f: "db_fault s1 = db_fault s2" "in_scope E t s2" using s v by (auto simp: same_view_def db_fault_def in_scope_def)
  have "rel_sum (=) (\<lambda>(d1', r1) (d2', r2). own_rows t d1' = own_rows t d2' \<and> r1 = r2)
      (stmt (Some t) (db_tables s1)) (stmt (Some t) (db_tables s2))"
    using assms v by (auto simp: stmt_local_def same_view_def)
  then show "same_view t (fst (scoped_statement E stmt s1)) (fst (scoped_statement E stmt s2))"
    "snd (scoped_statement E stmt s1) = snd (scoped_statement E stmt s2)"
    using f s same_view_answered [OF v]
    by (cases "db_fault s2"; cases "stmt (Some t) (db_tables s1)"; cases "stmt (Some t) (db_tables s2)";
        auto simp: scoped_statement_def Let_def in_scope_def same_view_def)+
qed

lemma tx_local_dbind:
  assumes "tx_local E t m" and "\<And>x. tx_local E t (f x)"
  shows "tx_local E t (dbind m f)"
  unfolding tx_local_def
proof (intro conjI allI impI)
  fix s :: "'a repo_tables ddb" assume "in_scope E t s"
  then have "in_scope E t (fst (m s)) \<and> other_rows t (db_tables (fst (m s))) = other_rows t (db_tables s)"
    using assms(1) by (simp add: tx_local_def)
  then show "in_scope E t (fst (dbind m f s))" "other_rows t (db_tables (fst (dbind m f s))) = other_rows t (db_tables s)"
    using assms(2) by (auto simp: dbind_def tx_local_def split: prod.split sum.split)
next
  fix s1 s2 :: "'a repo_tables ddb" assume s: "in_scope E t s1" and v: "same_view t s1 s2"
  then have 1: "same_view t (fst (m s1)) (fst (m s2))" "snd (m s1) = snd (m s2)" "in_scope E t (fst (m s1))"
    using assms(1) by (auto simp: tx_local_def)
  obtain u1 r1 where m1: "m s1 = (u1, r1)" by (cases "m s1")
  obtain u2 where m2: "m s2 = (u2, r1)" using 1(2) m1 by (cases "m s2") auto
  show "same_view t (fst (dbind m f s1)) (fst (dbind m f s2))" "snd (dbind m f s1) = snd (dbind m f s2)"
    using 1 assms(2) m1 m2 by (cases r1; auto simp: dbind_def tx_local_def)+
qed

lemma tx_local_dreturn: "tx_local E t (dreturn x)"
  by (simp add: tx_local_def dreturn_def)

lemma tx_local_dlift: "tx_local E t (dlift r)"
  by (cases r) (simp_all add: tx_local_def dreturn_def dfail_def)

lemma tx_local_dfail: "tx_local E t (dfail e)"
  by (simp add: tx_local_def dfail_def)

lemma tx_local_draw: "tx_local (rp_tx E) t (draw_uuid E)"
  by (auto simp: tx_local_def draw_uuid_def in_scope_def same_view_def)

text \<open>An operation whose rows carry a clock reading: the clock is part of the view.\<close>

lemma tx_local_clock:
  assumes "\<And>a b. tx_local E t (f a b)"
  shows "tx_local E t (\<lambda>s. f (utc_now s) (sql_now s) s)"
  unfolding tx_local_def
proof (intro conjI allI impI)
  fix s1 s2 :: "'a repo_tables ddb" assume "in_scope E t s1" and v: "same_view t s1 s2"
  moreover have "utc_now s1 = utc_now s2" "sql_now s1 = sql_now s2"
    using v by (simp_all add: utc_now_def sql_now_def same_view_def)
  ultimately show "same_view t (fst (f (utc_now s1) (sql_now s1) s1)) (fst (f (utc_now s2) (sql_now s2) s2))"
    "snd (f (utc_now s1) (sql_now s1) s1) = snd (f (utc_now s2) (sql_now s2) s2)"
    using assms [of "utc_now s2" "sql_now s2"] by (auto simp: tx_local_def)
qed (use assms in \<open>auto simp: tx_local_def\<close>)

lemma visible_Some: "visible tenant (Some t) rows = filter (\<lambda>r. tenant r = t) rows"
  by (auto simp: visible_def intro!: filter_cong)

lemma key_image_own:
  assumes "\<And>x y. key x = key y \<Longrightarrow> tenant x = tenant y" and "tenant r = t"
  shows "key r \<in> key ` set rows \<longleftrightarrow> key r \<in> key ` set (filter (\<lambda>r. tenant r = t) rows)"
proof
  assume "key r \<in> key ` set rows"
  then obtain x where x: "x \<in> set rows" "key r = key x" by blast
  then have "tenant x = t" using assms by metis
  with x show "key r \<in> key ` set (filter (\<lambda>r. tenant r = t) rows)" by auto
qed auto

lemma row_insert_others:
  "row_insert key tenant (Some t) r rows = Inr rows' \<Longrightarrow> filter (\<lambda>r. tenant r \<noteq> t) rows' = filter (\<lambda>r. tenant r \<noteq> t) rows"
  by (auto simp: row_insert_def split: if_splits)

lemma row_insert_own:
  assumes "\<And>x y. key x = key y \<Longrightarrow> tenant x = tenant y"
    and "filter (\<lambda>r. tenant r = t) rows1 = filter (\<lambda>r. tenant r = t) rows2"
  shows "rel_sum (=) (\<lambda>a b. filter (\<lambda>r. tenant r = t) a = filter (\<lambda>r. tenant r = t) b)
     (row_insert key tenant (Some t) r rows1) (row_insert key tenant (Some t) r rows2)"
proof (cases "tenant r = t")
  case True
  then have "key r \<in> key ` set rows1 \<longleftrightarrow> key r \<in> key ` set rows2"
    using key_image_own [of key tenant r t rows1, OF assms(1) True] key_image_own [of key tenant r t rows2, OF assms(1) True]
    unfolding assms(2) by blast
  with True assms(2) show ?thesis by (auto simp: row_insert_def)
qed (auto simp: row_insert_def)

text \<open>Two insertions that agree, as the results of a statement on the whole tables.\<close>

lemma rel_sum_map:
  assumes "rel_sum (=) P a b" and "\<And>x y. P x y \<Longrightarrow> Q (f x) (g y)"
  shows "rel_sum (=) Q (map_sum id f a) (map_sum id g b)"
  using assms by (cases a; cases b) auto

lemma update_visible_filter:
  assumes "\<And>r. tenant (f r) = tenant r"
  shows "filter (\<lambda>r. tenant r = t) (update_visible tenant (Some t) P f rows)
           = map (\<lambda>r. if P r then f r else r) (filter (\<lambda>r. tenant r = t) rows)"
    "filter (\<lambda>r. tenant r \<noteq> t) (update_visible tenant (Some t) P f rows) = filter (\<lambda>r. tenant r \<noteq> t) rows"
  by (induction rows) (auto simp: update_visible_def assms)

lemma er_key_tenant: "er_key x = er_key y \<Longrightarrow> er_tenant_id x = er_tenant_id y"
  by (simp add: er_key_def)

lemma eh_key_tenant: "eh_key x = eh_key y \<Longrightarrow> eh_tenant_id x = eh_tenant_id y"
  by (simp add: eh_key_def)

text \<open>A table is read with \<open>get\<close> and written with \<open>upd\<close>; both respect the split of the rows by tenant.\<close>

lemma stmt_local_insert:
  fixes upd :: "'r list \<Rightarrow> 'j repo_tables \<Rightarrow> 'j repo_tables"
  assumes key: "\<And>x y. key x = key y \<Longrightarrow> tenant x = tenant y"
    and oth: "\<And>d rows. filter (\<lambda>r. tenant r \<noteq> t) rows = filter (\<lambda>r. tenant r \<noteq> t) (get d) \<Longrightarrow> other_rows t (upd rows d) = other_rows t d"
    and own: "\<And>d1 d2. own_rows t d1 = own_rows t d2 \<Longrightarrow> filter (\<lambda>r. tenant r = t) (get d1) = filter (\<lambda>r. tenant r = t) (get d2)"
    and upd: "\<And>d1 d2 a b. own_rows t d1 = own_rows t d2 \<Longrightarrow> filter (\<lambda>r. tenant r = t) a = filter (\<lambda>r. tenant r = t) b
       \<Longrightarrow> own_rows t (upd a d1) = own_rows t (upd b d2)"
  shows "stmt_local t (\<lambda>tid d. map_sum id (\<lambda>rows. (upd rows d, x)) (row_insert key tenant tid r (get d)))"
  unfolding stmt_local_def
proof (intro conjI allI impI)
  fix d d' :: "'j repo_tables" and y assume "map_sum id (\<lambda>rows. (upd rows d, x)) (row_insert key tenant (Some t) r (get d)) = Inr (d', y)"
  then obtain rows where "row_insert key tenant (Some t) r (get d) = Inr rows" "d' = upd rows d"
    by (cases "row_insert key tenant (Some t) r (get d)") auto
  then show "other_rows t d' = other_rows t d" by (simp add: oth [OF row_insert_others])
next
  fix d1 d2 :: "'j repo_tables" assume v: "own_rows t d1 = own_rows t d2"
  show "rel_sum (=) (\<lambda>(d1', r1) (d2', r2). own_rows t d1' = own_rows t d2' \<and> r1 = r2)
      (map_sum id (\<lambda>rows. (upd rows d1, x)) (row_insert key tenant (Some t) r (get d1)))
      (map_sum id (\<lambda>rows. (upd rows d2, x)) (row_insert key tenant (Some t) r (get d2)))"
    by (rule rel_sum_map [OF row_insert_own [OF key own [OF v]]]) (auto intro: upd [OF v])
qed

lemma insert_entity_local [tx_locals]: "tx_local (rp_tx E) t (insert_entity E r)"
  unfolding insert_entity_def
  by (intro tx_local_statement stmt_local_insert) (auto simp: rows_of_def dest: er_key_tenant)

lemma insert_audit_local [tx_locals]: "tx_local (rp_tx E) t (insert_audit E r)"
  unfolding insert_audit_def
  by (intro tx_local_statement stmt_local_insert) (auto simp: rows_of_def)

lemma insert_report_local:
  "tx_local E t (scoped_statement E (\<lambda>tid d. map_sum id (\<lambda>rows. (d\<lparr>rt_reports := rows\<rparr>, r))
     (row_insert (\<lambda>r. (dr_trace_id r, dr_tenant_id r)) dr_tenant_id tid r (rt_reports d))))"
  by (intro tx_local_statement stmt_local_insert) (auto simp: rows_of_def)

lemma stmt_local_select:
  assumes "\<And>d1 d2. own_rows t d1 = own_rows t d2 \<Longrightarrow> f (Some t) d1 = f (Some t) d2"
  shows "stmt_local t (\<lambda>tid d. Inr (d, f tid d))"
  unfolding stmt_local_def by (auto intro: assms)

lemma find_entity_local [tx_locals]: "tx_local (rp_tx E) t (find_entity E eid u)"
  unfolding find_entity_def
  by (rule tx_local_statement, rule stmt_local_select) (auto simp: rows_of_def visible_Some)

lemma get_entity_local [tx_locals]: "tx_local (rp_tx E) t (get_entity E sc eid)"
  unfolding get_entity_def by (rule find_entity_local)

lemma get_report_local [tx_locals]: "tx_local (rp_tx E) t (get_diagnostic_report E sc trace_id)"
  unfolding get_diagnostic_report_def
  by (rule tx_local_statement, rule stmt_local_select) (simp add: rows_of_def visible_Some)

lemma get_policy_local [tx_locals]: "tx_local (rp_tx E) t (get_diagnostic_policy E sc)"
  unfolding get_diagnostic_policy_def
  by (rule tx_local_statement, rule stmt_local_select) (simp add: rows_of_def visible_Some)

lemma find_histories_local [tx_locals]: "tx_local (rp_tx E) t (find_unarchived_entity_histories E sc limit)"
  unfolding find_unarchived_entity_histories_def
  by (rule tx_local_statement, rule stmt_local_select) (simp add: rows_of_def visible_Some)

lemma find_audits_local [tx_locals]: "tx_local (rp_tx E) t (find_unarchived_audit_logs E sc limit)"
  unfolding find_unarchived_audit_logs_def
  by (rule tx_local_statement, rule stmt_local_select) (simp add: rows_of_def visible_Some)

lemma update_entity_row_local [tx_locals]:
  assumes "\<And>r. er_tenant_id (f r) = er_tenant_id r"
  shows "tx_local (rp_tx E) t (update_entity_row E eid u f)"
  unfolding update_entity_row_def
  by (intro tx_local_statement)
    (auto simp: stmt_local_def rows_of_def visible_Some update_visible_filter assms split: option.splits)

lemma mark_locals [tx_locals]:
  "tx_local (rp_tx E) t (mark_histories_chunk E sc ids)" "tx_local (rp_tx E) t (mark_audits_chunk E sc ids)"
  unfolding mark_histories_chunk_def mark_audits_chunk_def
  by (rule tx_local_clock, intro tx_local_statement,
      auto simp: stmt_local_def rows_of_def update_visible_filter)+

lemma fk_own:
  "own_rows t d1 = own_rows t d2 \<Longrightarrow> (x, t) \<in> er_key ` set (rt_entities d1) \<Longrightarrow> (x, t) \<in> er_key ` set (rt_entities d2)"
proof -
  assume v: "own_rows t d1 = own_rows t d2" and x: "(x, t) \<in> er_key ` set (rt_entities d1)"
  then obtain r where r: "r \<in> set (rt_entities d1)" "er_id r = x" "er_tenant_id r = t" by (auto simp: er_key_def)
  moreover have "filter (\<lambda>r. er_tenant_id r = t) (rt_entities d1) = filter (\<lambda>r. er_tenant_id r = t) (rt_entities d2)"
    using v by (simp add: rows_of_def)
  ultimately have "r \<in> set (filter (\<lambda>r. er_tenant_id r = t) (rt_entities d2))" by (metis (mono_tags, lifting) filter_set mem_Collect_eq set_filter)
  with r show "(x, t) \<in> er_key ` set (rt_entities d2)" by (auto simp: er_key_def image_iff)
qed

lemma insert_history_local [tx_locals]: "tx_local (rp_tx E) t (insert_history E h)"
  unfolding insert_history_def
proof (rule tx_local_statement, unfold stmt_local_def, intro conjI allI impI)
  fix d1 d2 :: "'a repo_tables" assume v: "own_rows t d1 = own_rows t d2"
  have "filter (\<lambda>r. eh_tenant_id r = t) (rt_histories d1) = filter (\<lambda>r. eh_tenant_id r = t) (rt_histories d2)"
    using v by (simp add: rows_of_def)
  note rows = row_insert_own [where key = eh_key and tenant = eh_tenant_id and r = h, OF eh_key_tenant this]
  have fk: "eh_tenant_id h = t \<Longrightarrow> (eh_entity_id h, eh_tenant_id h) \<in> er_key ` set (rt_entities d1)
      \<longleftrightarrow> (eh_entity_id h, eh_tenant_id h) \<in> er_key ` set (rt_entities d2)"
    using fk_own [OF v] fk_own [OF v [symmetric]] by blast
  show "rel_sum (=) (\<lambda>(d1', r1) (d2', r2). own_rows t d1' = own_rows t d2' \<and> r1 = r2)
     (case row_insert eh_key eh_tenant_id (Some t) h (rt_histories d1) of
       Inl e \<Rightarrow> Inl e
     | Inr rows \<Rightarrow>
         if (eh_entity_id h, eh_tenant_id h) \<notin> er_key ` set (rt_entities d1)
         then Inl ''insert violates foreign key constraint fk_entity_histories_entity_record''
         else Inr (d1\<lparr>rt_histories := rows\<rparr>, ()))
     (case row_insert eh_key eh_tenant_id (Some t) h (rt_histories d2) of
       Inl e \<Rightarrow> Inl e
     | Inr rows \<Rightarrow>
         if (eh_entity_id h, eh_tenant_id h) \<notin> er_key ` set (rt_entities d2)
         then Inl ''insert violates foreign key constraint fk_entity_histories_entity_record''
         else Inr (d2\<lparr>rt_histories := rows\<rparr>, ()))"
    using rows fk v
    by (cases "row_insert eh_key eh_tenant_id (Some t) h (rt_histories d1)"; cases "row_insert eh_key eh_tenant_id (Some t) h (rt_histories d2)")
      (auto simp: rows_of_def, auto simp: row_insert_def split: if_splits)
qed (auto simp: rows_of_def dest!: row_insert_others split: sum.splits if_splits)

lemma list_ex_own:
  "own_rows t d1 = own_rows t d2 \<Longrightarrow>
     list_ex (\<lambda>h. (eh_entity_id h, eh_tenant_id h) = (x, t)) (rt_histories d1)
     = list_ex (\<lambda>h. (eh_entity_id h, eh_tenant_id h) = (x, t)) (rt_histories d2)"
proof -
  have *: "list_ex (\<lambda>h. (eh_entity_id h, eh_tenant_id h) = (x, t)) hs
      = list_ex (\<lambda>h. eh_entity_id h = x) (filter (\<lambda>h. eh_tenant_id h = t) hs)" for hs :: "'a entity_history list"
    by (induction hs) auto
  assume "own_rows t d1 = own_rows t d2"
  then have "filter (\<lambda>h. eh_tenant_id h = t) (rt_histories d1) = filter (\<lambda>h. eh_tenant_id h = t) (rt_histories d2)"
    by (simp add: rows_of_def)
  then show ?thesis unfolding * by simp
qed

lemma doomed_own:
  "filter (\<lambda>r. er_key r = (x, u)) (visible er_tenant_id (Some t) rows)
     = (if u = t then filter (\<lambda>r. er_id r = x) (filter (\<lambda>r. er_tenant_id r = t) rows) else [])"
  by (induction rows) (auto simp: visible_def er_key_def)

lemma remaining_own:
  "filter (\<lambda>r. er_tenant_id r \<noteq> t) (filter (\<lambda>r. t = er_tenant_id r \<longrightarrow> er_key r \<noteq> (x, u)) rows)
     = filter (\<lambda>r. er_tenant_id r \<noteq> t) rows"
  "filter (\<lambda>r. er_tenant_id r = t) (filter (\<lambda>r. t = er_tenant_id r \<longrightarrow> er_key r \<noteq> (x, u)) rows)
     = filter (\<lambda>r. er_key r \<noteq> (x, u)) (filter (\<lambda>r. er_tenant_id r = t) rows)"
  by (induction rows) auto

lemma delete_entity_row_local [tx_locals]: "tx_local (rp_tx E) t (delete_entity_row E eid u)"
  unfolding delete_entity_row_def Let_def
proof (rule tx_local_statement, unfold stmt_local_def, intro conjI allI impI)
  fix d1 d2 :: "'a repo_tables" assume v: "own_rows t d1 = own_rows t d2"
  then have e: "filter (\<lambda>r. er_tenant_id r = t) (rt_entities d1) = filter (\<lambda>r. er_tenant_id r = t) (rt_entities d2)"
    and rest: "rt_histories (own_rows t d1) = rt_histories (own_rows t d2)" "rt_audits (own_rows t d1) = rt_audits (own_rows t d2)"
      "rt_reports (own_rows t d1) = rt_reports (own_rows t d2)" "rt_policies (own_rows t d1) = rt_policies (own_rows t d2)"
    by (simp_all add: rows_of_def)
  let ?d = "\<lambda>d :: 'a repo_tables. filter (\<lambda>r. er_key r = (eid, u)) (visible er_tenant_id (Some t) (rt_entities d))"
    and ?new = "\<lambda>d :: 'a repo_tables. d\<lparr>rt_entities := filter (\<lambda>r. \<not> (Some t = Some (er_tenant_id r) \<and> er_key r = (eid, u))) (rt_entities d)\<rparr>"
    and ?fk = "\<lambda>d :: 'a repo_tables. list_ex (\<lambda>h. (eh_entity_id h, eh_tenant_id h) = (eid, u)) (rt_histories d)"
  have doomed: "?d d1 = ?d d2" using e by (simp add: doomed_own)
  have "rt_entities (own_rows t (?new d1)) = rt_entities (own_rows t (?new d2))"
    using remaining_own(2) [of t eid u "rt_entities d1"] remaining_own(2) [of t eid u "rt_entities d2"] e
    by (simp add: rows_of_def)
  with rest have new: "own_rows t (?new d1) = own_rows t (?new d2)"
    by (simp add: rows_of_def)
  show "rel_sum (=) (\<lambda>(d1', r1) (d2', r2). own_rows t d1' = own_rows t d2' \<and> r1 = r2)
     (if ?d d1 \<noteq> [] \<and> ?fk d1 then Inl ''delete violates foreign key constraint fk_entity_histories_entity_record''
      else Inr (?new d1, length (?d d1)))
     (if ?d d2 \<noteq> [] \<and> ?fk d2 then Inl ''delete violates foreign key constraint fk_entity_histories_entity_record''
      else Inr (?new d2, length (?d d2)))"
  proof (cases "u = t")
    case True
    then have "?fk d1 = ?fk d2" using list_ex_own [OF v] by simp
    with doomed new show ?thesis by simp
  next
    case False
    then have "?d d1 = []" "?d d2 = []" by (simp_all add: doomed_own)
    with new show ?thesis by simp
  qed
qed (auto simp: rows_of_def remaining_own simp del: filter_filter split: if_splits)

lemma upsert_policy_local:
  "tx_local E t (scoped_statement E (\<lambda>tid d. map_sum id (\<lambda>rows. (d\<lparr>rt_policies := rows\<rparr>, p)) (upsert_policy_rows tid p (rt_policies d))))"
proof (rule tx_local_statement)
  let ?f = "\<lambda>r. if dp_tenant_id r = t then r\<lparr>dp_enabled := dp_enabled p, dp_updated_at := dp_updated_at p, dp_updated_by := dp_updated_by p\<rparr> else r"
  have ff: "filter (\<lambda>r. dp_tenant_id r \<noteq> t) (map ?f rows) = filter (\<lambda>r. dp_tenant_id r \<noteq> t) rows"
    "filter (\<lambda>r. dp_tenant_id r = t) (map ?f rows) = map ?f (filter (\<lambda>r. dp_tenant_id r = t) rows)" for rows
    by (induction rows) auto
  have mem: "t \<in> dp_tenant_id ` set rows \<longleftrightarrow> filter (\<lambda>r. dp_tenant_id r = t) rows \<noteq> []" for rows
    by (auto simp: filter_empty_conv)
  show "stmt_local t (\<lambda>tid d. map_sum id (\<lambda>rows. (d\<lparr>rt_policies := rows\<rparr>, p)) (upsert_policy_rows tid p (rt_policies d)))"
    by (cases "dp_tenant_id p = t") (auto simp: stmt_local_def rows_of_def upsert_policy_rows_def ff mem split: if_splits)
qed

lemmas tx_local_rules = tx_local_dbind tx_local_dreturn tx_local_dlift tx_local_dfail tx_local_draw

lemma add_history_local [tx_locals]: "tx_local (rp_tx E) t (add_history E sc eid etype change version diff)"
  unfolding add_history_def
  by (rule tx_local_dbind [OF tx_local_draw], rule tx_local_clock [where f = "\<lambda>a b. insert_history E (history_row E sc eid etype change version diff a _)"],
      rule insert_history_local)

lemma log_audit_local [tx_locals]: "tx_local (rp_tx E) t (log_audit E sc action resource details)"
  unfolding log_audit_def
  by (intro tx_local_rules; rule tx_local_clock; rule insert_audit_local)

lemma create_entity_local [tx_locals]: "tx_local (rp_tx E) t (create_entity E sc am)"
  unfolding create_entity_def
  by (rule tx_local_clock, intro tx_local_rules tx_locals)

lemma update_entity_local [tx_locals]: "tx_local (rp_tx E) t (update_entity E sc eid am)"
  unfolding update_entity_def
  by (rule tx_local_clock, intro tx_local_rules tx_locals) simp

lemma delete_entity_local [tx_locals]: "tx_local (rp_tx E) t (delete_entity E sc eid)"
proof -
  have "tx_local (rp_tx E) t (if n = 0 then dfail (ValidationError ''Entity not found'') else dreturn ())" for n :: nat
    by (simp add: tx_local_rules)
  then show ?thesis unfolding delete_entity_def by (intro tx_local_rules tx_locals)
qed

lemma create_report_local [tx_locals]: "tx_local (rp_tx E) t (create_diagnostic_report E sc am)"
  unfolding create_diagnostic_report_def Let_def
  by (rule tx_local_clock, intro tx_local_rules insert_report_local)

lemma upsert_local [tx_locals]: "tx_local (rp_tx E) t (upsert_diagnostic_policy E sc am)"
  unfolding upsert_diagnostic_policy_def Let_def
  by (rule tx_local_clock, rule upsert_policy_local)

lemma for_each_local: "(\<And>x. tx_local E t (f x)) \<Longrightarrow> tx_local E t (for_each f xs)"
  by (induction xs) (auto intro: tx_local_rules)

lemma mark_all_local [tx_locals]:
  "tx_local (rp_tx E) t (mark_entity_histories_archived E sc ids)" "tx_local (rp_tx E) t (mark_audit_logs_archived E sc ids)"
  unfolding mark_entity_histories_archived_def mark_audit_logs_archived_def
  by (auto intro!: tx_local_rules for_each_local tx_locals)

lemma run_op_local: "tx_local (rp_tx E) t (run_op E sc op)"
  by (cases op) (auto simp: dmap_def intro!: tx_local_rules tx_locals)

lemma run_ops_local: "tx_local (rp_tx E) t (run_ops E sc ops)"
  by (induction ops) (auto simp: dmap_def intro!: tx_local_rules run_op_local)

lemma tx_entered_view:
  assumes "tx_entered E ctx token s0 s1" and "same_view t s0 u0"
  obtains u1 where "tx_entered E ctx token u0 u1" "same_view t s1 u1"
proof -
  have eq: "db_fault u0 = db_fault s0" "db_core u0 = db_core s0" "db_pg u0 = db_pg s0" "db_skew u0 = db_skew s0"
    using assms(2) by (auto simp: same_view_def db_fault_def)
  define u1 where "u1 = (db_answered (db_answered u0))\<lparr>db_pg := db_pg s1\<rparr>"
  obtain pg where pg: "authorize_tenant (tx_hmac_hex E) (tx_bigint E) (kt_rows (db_core s0)) (kt_now (db_core s0) + db_skew s0) token (db_pg s0)
      = Inr pg" "s1 = (db_answered (db_answered s0))\<lparr>db_pg := pg\<rparr>" "\<not> db_fault (db_answered s0)"
    using assms(1) by (auto simp: tx_entered_def authorize_statement_def Let_def split: sum.splits if_splits)
  have "\<not> db_fault (db_answered u0)" using pg(3) eq by (simp add: db_fault_def db_answered_def)
  then have "tx_entered E ctx token u0 u1"
    using assms(1) pg eq by (simp add: tx_entered_def authorize_statement_def u1_def Let_def)
  moreover have "same_view t s1 u1"
    using assms(2) pg(2) by (simp add: same_view_def u1_def db_answered_def)
  ultimately show thesis by (rule that)
qed

lemma same_view_sym: "same_view t s u \<Longrightarrow> same_view t u s"
  by (simp add: same_view_def)

lemma same_view_ends:
  assumes "same_view t s0 u0" "same_view t s u"
  shows "same_view t (db_end_settings s0 s) (db_end_settings u0 u)" "same_view t (db_restore s0 s) (db_restore u0 u)"
  using assms by (simp_all add: same_view_def db_end_settings_def db_restore_def)

lemma not_entered_view:
  assumes "\<nexists>s1. tx_entered E ctx token s0 s1" and "same_view t s0 u0"
  shows "same_view t (fst (with_tenant_tx E ctx token f s0)) (fst (with_tenant_tx E ctx token f u0))
    \<and> snd (with_tenant_tx E ctx token f s0) = snd (with_tenant_tx E ctx token f u0)"
proof -
  have eq: "db_fault u0 = db_fault s0" "db_core u0 = db_core s0" "db_pg u0 = db_pg s0" "db_skew u0 = db_skew s0"
    using assms(2) by (auto simp: same_view_def db_fault_def)
  define a where "a = authorize_statement E token (db_answered s0)"
  define b where "b = authorize_statement E token (db_answered u0)"
  have "db_fault (db_answered u0) = db_fault (db_answered s0)" using eq by (simp add: db_fault_def db_answered_def)
  then have ab: "snd a = snd b" "same_view t (fst a) (fst b)"
    using assms(2) eq
    by (auto simp: a_def b_def authorize_statement_def Let_def same_view_def db_answered_def split: sum.splits)
  have rb: "same_view t (db_restore s0 (db_answered (fst a))) (db_restore u0 (db_answered (fst b)))"
    by (intro same_view_ends assms(2) same_view_answered ab(2))
  show ?thesis
    using assms ab rb eq same_view_answered [OF assms(2)]
    unfolding with_tenant_tx_def tx_entered_def a_def [symmetric] b_def [symmetric]
    by (cases a; cases b) (auto simp: db_rollback_def split: sum.splits option.splits)
qed

lemma with_tenant_tx_local:
  assumes f: "\<And>sc. tx_local E (tenant_str (ctx_tenant_id ctx)) (f sc)"
  defines "t \<equiv> tenant_str (ctx_tenant_id ctx)"
  shows "other_rows t (db_tables (fst (with_tenant_tx E ctx token f s0))) = other_rows t (db_tables s0)"
    and "same_view t s0 u0 \<Longrightarrow> same_view t (fst (with_tenant_tx E ctx token f s0)) (fst (with_tenant_tx E ctx token f u0))
      \<and> snd (with_tenant_tx E ctx token f s0) = snd (with_tenant_tx E ctx token f u0)"
proof -
  show "other_rows t (db_tables (fst (with_tenant_tx E ctx token f s0))) = other_rows t (db_tables s0)"
  proof (cases "\<exists>s1. tx_entered E ctx token s0 s1")
    case True
    then obtain s1 where s1: "tx_entered E ctx token s0 s1" ..
    have "other_rows t (db_tables (fst (f (tx_scope ctx) s1))) = other_rows t (db_tables s0)"
      using f tx_entered_scope(1,2) [OF s1] by (simp add: tx_local_def t_def)
    then show ?thesis unfolding with_tenant_tx_entered [OF s1] by (auto split: prod.split sum.split)
  next
    case False
    then show ?thesis using with_tenant_tx_not_entered [of E ctx token s0 f] by auto
  qed
  show "same_view t (fst (with_tenant_tx E ctx token f s0)) (fst (with_tenant_tx E ctx token f u0))
      \<and> snd (with_tenant_tx E ctx token f s0) = snd (with_tenant_tx E ctx token f u0)" if v: "same_view t s0 u0"
  proof (cases "\<exists>s1. tx_entered E ctx token s0 s1")
    case True
    then obtain s1 where s1: "tx_entered E ctx token s0 s1" ..
    obtain u1 where u1: "tx_entered E ctx token u0 u1" and v1: "same_view t s1 u1" using tx_entered_view [OF s1 v] .
    have "in_scope E t s1" using tx_entered_scope(1) [OF s1] by (simp add: t_def)
    then have v2: "same_view t (fst (f (tx_scope ctx) s1)) (fst (f (tx_scope ctx) u1))"
      and r: "snd (f (tx_scope ctx) s1) = snd (f (tx_scope ctx) u1)"
      using f v1 by (simp_all add: tx_local_def t_def)
    note ends = same_view_ends [OF v same_view_answered [OF v2]] and same_view_def [of t "fst (f (tx_scope ctx) s1)"]
    show ?thesis
      using ends v2 r unfolding with_tenant_tx_entered [OF s1] with_tenant_tx_entered [OF u1]
      by (cases "f (tx_scope ctx) s1"; cases "f (tx_scope ctx) u1")
        (auto simp: same_view_def db_fault_def split: sum.splits)
  next
    case False
    then show ?thesis by (rule not_entered_view [OF _ v])
  qed
qed

section \<open>Properties: isolation\<close>

text \<open>
  C2 (safety): tenants are isolated. Whatever repository operations a transaction of one
  tenant makes, and however they fail, the rows of all other tenants are untouched; and in
  two databases that differ only in rows of other tenants the transaction gives the same
  results and errors and the same rows of its tenant.
\<close>

theorem tenant_isolation:
  fixes ctx :: "'db tenant_context" and s0 u0 :: "'j repo_tables ddb"
  assumes "with_tenant_tx (rp_tx E) ctx token (\<lambda>sc. run_ops E sc ops) s0 = (s', r)"
    and "with_tenant_tx (rp_tx E) ctx token (\<lambda>sc. run_ops E sc ops) u0 = (u', q)"
    and "db_core u0 = db_core s0" "db_pg u0 = db_pg s0" "db_skew u0 = db_skew s0" "db_commit_lost u0 = db_commit_lost s0"
    and "own_rows (tenant_str (ctx_tenant_id ctx)) (db_tables u0) = own_rows (tenant_str (ctx_tenant_id ctx)) (db_tables s0)"
  shows "other_rows (tenant_str (ctx_tenant_id ctx)) (db_tables s') = other_rows (tenant_str (ctx_tenant_id ctx)) (db_tables s0)
    \<and> other_rows (tenant_str (ctx_tenant_id ctx)) (db_tables u') = other_rows (tenant_str (ctx_tenant_id ctx)) (db_tables u0)
    \<and> q = r \<and> own_rows (tenant_str (ctx_tenant_id ctx)) (db_tables u') = own_rows (tenant_str (ctx_tenant_id ctx)) (db_tables s')"
proof -
  note loc = with_tenant_tx_local [where E = "rp_tx E" and ctx = ctx and f = "\<lambda>sc. run_ops E sc ops" and token = token, OF run_ops_local]
  have "same_view (tenant_str (ctx_tenant_id ctx)) s0 u0" using assms(3-7) by (simp add: same_view_def)
  from loc(2) [OF this] loc(1) [where ?s0.0 = s0] loc(1) [where ?s0.0 = u0] show ?thesis
    using assms(1,2) by (simp add: same_view_def)
qed

text \<open>An environment whose JSON values are numbers: a patch is the new value; and one entity of each of two tenants.\<close>

definition sample_repo :: "nat repo_env" where
  "sample_repo = \<lparr>rp_tx = sample_env, rp_sha256 = (\<lambda>_. []), rp_uuid = (\<lambda>n. ''h'' @ dec_of_nat n),
     rp_diff = (\<lambda>a b. Inr b), rp_entity_json = (\<lambda>r. Inr (er_content r))\<rparr>"

definition sample_entity :: "string \<Rightarrow> nat entity_record" where
  "sample_entity t = \<lparr>er_id = ''e'', er_tenant_id = t, er_entity_type = ''app'', er_schema_version = 1, er_content = 5,
     er_created_at = 0, er_updated_at = 0, er_version = 1\<rparr>"

definition sample_tables :: "nat repo_tables" where
  "sample_tables = \<lparr>rt_entities = [sample_entity ''t1'', sample_entity ''t2''], rt_histories = [], rt_audits = [], rt_reports = [],
     rt_policies = []\<rparr>"

definition sample_update :: "nat entity_active_model" where
  "sample_update = \<lparr>ea_id = ActiveNotSet, ea_tenant_id = ActiveNotSet, ea_entity_type = ActiveNotSet, ea_schema_version = ActiveNotSet,
     ea_content = ActiveSet 9, ea_created_at = ActiveNotSet, ea_updated_at = ActiveNotSet, ea_version = ActiveSet 1\<rparr>"

theorem tenant_isolation_witness:
  "other_rows ''t1'' (db_tables (fst (with_tenant_tx sample_env sample_ctx sample_token
     (\<lambda>sc. run_ops sample_repo sc [OpUpdate ''e'' sample_update]) (sample_ddb sample_tables)))) = other_rows ''t1'' sample_tables"
proof -
  let ?run = "with_tenant_tx (rp_tx sample_repo) sample_ctx sample_token
     (\<lambda>sc. run_ops sample_repo sc [OpUpdate ''e'' sample_update]) (sample_ddb sample_tables)"
  from tenant_isolation [OF surjective_pairing [of ?run] surjective_pairing [of ?run] refl refl refl refl refl]
  show ?thesis by (simp add: sample_repo_def sample_ddb_def sample_ctx_def)
qed

end
