(* ===== verification/Entity_History.thy ===== *)
theory Entity_History
  imports Repository
begin

text \<open>
  What the tenant repository promises about entities: optimistic concurrency, the history
  as an audit trail from which the content can be rebuilt, and what deletion does under the
  history's foreign key.
\<close>

section \<open>Lemmas\<close>

lemma run_dlift:
  "dbind (dlift r) f s = (case r of Inl e \<Rightarrow> (s, Inl e) | Inr x \<Rightarrow> f x s)"
  by (cases r) (simp_all add: dbind_def dfail_def dreturn_def)

lemma dlift_Inr: "dlift r s = (s', Inr x) \<longleftrightarrow> r = Inr x \<and> s' = s"
  by (cases r) (auto simp: dfail_def dreturn_def)

lemma insert_history_Inr:
  assumes "in_scope (rp_tx E) t s" and "insert_history E h s = (s', Inr ())"
  shows "in_scope (rp_tx E) t s' \<and> eh_tenant_id h = t \<and> eh_key h \<notin> eh_key ` set (rt_histories (db_tables s))
    \<and> (eh_entity_id h, t) \<in> er_key ` set (rt_entities (db_tables s))
    \<and> db_tables s' = (db_tables s)\<lparr>rt_histories := rt_histories (db_tables s) @ [h]\<rparr>"
  using assms
  by (auto simp: insert_history_def scoped_statement_Inr row_insert_def in_scope_def split: if_splits sum.splits)

lemma add_history_Inr:
  assumes "in_scope (rp_tx E) t s" and "add_history E sc eid etype change version diff s = (s', Inr ())"
  shows "\<exists>h. in_scope (rp_tx E) t s' \<and> eh_tenant_id h = t \<and> eh_entity_id h = eid \<and> eh_change_type h = change
    \<and> eh_version h = version \<and> eh_diff h = diff \<and> eh_archived_at h = None
    \<and> eh_created_by h = history_actor_id E (tenant_str (ts_tenant_id sc)) (ts_user_id sc)
    \<and> eh_key h \<notin> eh_key ` set (rt_histories (db_tables s))
    \<and> (eid, t) \<in> er_key ` set (rt_entities (db_tables s))
    \<and> db_tables s' = (db_tables s)\<lparr>rt_histories := rt_histories (db_tables s) @ [h]\<rparr>"
proof -
  define s1 where "s1 = s\<lparr>db_core := (db_core s)\<lparr>kt_drawn := kt_drawn (db_core s) + 1\<rparr>\<rparr>"
  define h where "h = history_row E sc eid etype change version diff (utc_now s1) (rp_uuid E (kt_drawn (db_core s)))"
  have "insert_history E h s1 = (s', Inr ())"
    using assms(2) by (simp add: add_history_def draw_uuid_def dbind_def s1_def h_def)
  moreover have "in_scope (rp_tx E) t s1" using assms(1) by (simp add: in_scope_def s1_def)
  ultimately have "in_scope (rp_tx E) t s' \<and> eh_tenant_id h = t \<and> eh_key h \<notin> eh_key ` set (rt_histories (db_tables s1))
    \<and> (eh_entity_id h, t) \<in> er_key ` set (rt_entities (db_tables s1))
    \<and> db_tables s' = (db_tables s1)\<lparr>rt_histories := rt_histories (db_tables s1) @ [h]\<rparr>"
    by (intro insert_history_Inr)
  moreover have "db_tables s1 = db_tables s" by (simp add: s1_def)
  moreover have "eh_entity_id h = eid" "eh_change_type h = change" "eh_version h = version" "eh_diff h = diff" "eh_archived_at h = None"
    "eh_created_by h = history_actor_id E (tenant_str (ts_tenant_id sc)) (ts_user_id sc)"
    by (simp_all add: h_def history_row_def)
  ultimately show ?thesis by metis
qed

lemma find_entity_run:
  assumes "in_scope (rp_tx E) t s"
  shows "find_entity E eid t s =
    (if db_fault s then (db_answered s, Inl (DataDbError ''connection''))
     else (db_answered s, Inr (find (\<lambda>r. er_key r = (eid, t)) (rt_entities (db_tables s)))))"
proof -
  have "find (\<lambda>r. er_key r = (eid, t)) (visible er_tenant_id (Some t) rows) = find (\<lambda>r. er_key r = (eid, t)) rows"
    for rows :: "'a entity_record list"
    by (induction rows) (auto simp: visible_def er_key_def)
  with assms show ?thesis
    by (auto simp: find_entity_def scoped_statement_def in_scope_def Let_def)
qed

lemma delete_entity_row_blocked:
  assumes "in_scope (rp_tx E) t s" and "r \<in> set (rt_entities (db_tables s))" "er_key r = (eid, t)"
    and "h \<in> set (rt_histories (db_tables s))" "eh_entity_id h = eid" "eh_tenant_id h = t"
  shows "\<exists>s' e. delete_entity_row E eid t s = (s', Inl e)"
proof -
  have "filter (\<lambda>r. er_key r = (eid, t)) (visible er_tenant_id (Some t) (rt_entities (db_tables s))) \<noteq> []"
    using assms(2,3) by (auto simp: visible_Some filter_empty_conv er_key_def)
  moreover have "list_ex (\<lambda>h. (eh_entity_id h, eh_tenant_id h) = (eid, t)) (rt_histories (db_tables s))"
    using assms(4-6) by (auto simp: list_ex_iff)
  ultimately show ?thesis
    using assms(1) by (auto simp: delete_entity_row_def scoped_statement_def in_scope_def Let_def)
qed

section \<open>Deletion\<close>

lemma delete_entity_fails:
  assumes "in_scope (rp_tx E) t s" and "tenant_str (ts_tenant_id sc) = t"
  shows "\<exists>s' e. delete_entity E sc eid s = (s', Inl e)"
proof (rule ccontr)
  assume "\<not> ?thesis"
  then obtain s' where "delete_entity E sc eid s = (s', Inr ())" by (cases "delete_entity E sc eid s"; cases "snd (delete_entity E sc eid s)") auto
  then obtain existing snap s2 n s3 where
      find: "find (\<lambda>r. er_key r = (eid, t)) (rt_entities (db_tables s)) = Some existing"
    and hist: "add_history E sc eid (er_entity_type existing) ''DELETE'' (er_version existing) snap (db_answered s) = (s2, Inr ())"
    and del: "delete_entity_row E eid t s2 = (s3, Inr n)"
    using assms
    by (auto simp: delete_entity_def dbind_Inr find_entity_run dlift_Inr found_or_fail_def split: if_splits)
  have "in_scope (rp_tx E) t (db_answered s)" using assms(1) by simp
  from add_history_Inr [OF this hist] obtain h where h: "in_scope (rp_tx E) t s2" "eh_tenant_id h = t" "eh_entity_id h = eid"
      "db_tables s2 = (db_tables s)\<lparr>rt_histories := rt_histories (db_tables s) @ [h]\<rparr>" by auto
  have "existing \<in> set (rt_entities (db_tables s2))" "er_key existing = (eid, t)"
    using find h(4) by (auto simp: find_Some_iff)
  moreover have "h \<in> set (rt_histories (db_tables s2))" using h(4) by simp
  ultimately show False using delete_entity_row_blocked [OF h(1)] h(2,3) del by fastforce
qed

text \<open>
  C25 (error): deleting an entity never succeeds. \<open>delete_entity\<close> first writes a history row for
  the entity and then deletes the entity, which the foreign key from the history forbids:
  every transaction that calls it for an existing entity ends in a database error, and for a
  missing one in a validation error, and the entity and the whole database are as before.
\<close>

theorem delete_never_succeeds:
  fixes s0 :: "'j repo_tables ddb"
  assumes "with_tenant_tx (rp_tx E) ctx token (\<lambda>sc. delete_entity E sc eid) s0 = (s', r)"
  shows "\<exists>e. r = Inl e \<and> db_tables s' = db_tables s0 \<and> db_pg s' = db_pg s0"
proof (cases "\<exists>s1. tx_entered (rp_tx E) ctx token s0 s1")
  case True
  then obtain s1 where s1: "tx_entered (rp_tx E) ctx token s0 s1" ..
  obtain s2 e where "delete_entity E (tx_scope ctx) eid s1 = (s2, Inl e)"
    using delete_entity_fails [OF tx_entered_scope(1) [OF s1], of "tx_scope ctx" eid] by (auto simp: tx_scope_def)
  then show ?thesis using assms unfolding with_tenant_tx_entered [OF s1] by auto
next
  case False
  then show ?thesis using with_tenant_tx_not_entered [OF False, of "\<lambda>sc. delete_entity E sc eid"] assms by auto
qed

theorem delete_never_succeeds_witness:
  "\<exists>s' e. with_tenant_tx sample_env sample_ctx sample_token (\<lambda>sc. delete_entity sample_repo sc ''e'') (sample_ddb sample_tables) = (s', Inl e)
     \<and> rt_entities (db_tables s') = [sample_entity ''t1'', sample_entity ''t2'']"
proof -
  let ?run = "with_tenant_tx (rp_tx sample_repo) sample_ctx sample_token (\<lambda>sc. delete_entity sample_repo sc ''e'') (sample_ddb sample_tables)"
  from delete_never_succeeds [OF surjective_pairing [of ?run]] obtain e where
    "snd ?run = Inl e" "db_tables (fst ?run) = sample_tables" by (auto simp: sample_ddb_def)
  then show ?thesis by (intro exI [of _ "fst ?run"] exI [of _ e]) (simp add: sample_repo_def sample_tables_def prod_eq_iff)
qed

section \<open>Updates\<close>

definition apply_update :: "'j entity_active_model \<Rightarrow> int \<Rightarrow> i32 \<Rightarrow> 'j entity_record \<Rightarrow> 'j entity_record" where
  "apply_update am now v r = r\<lparr>
     er_entity_type := active_set_or (ea_entity_type am) (er_entity_type r),
     er_schema_version := active_set_or (ea_schema_version am) (er_schema_version r),
     er_content := active_set_or (ea_content am) (er_content r),
     er_created_at := active_set_or (ea_created_at am) (er_created_at r),
     er_updated_at := now, er_version := v\<rparr>"

lemma apply_update_key [simp]: "er_key (apply_update am now v r) = er_key r"
  by (simp add: apply_update_def er_key_def)

lemma update_visible_key:
  "update_visible er_tenant_id (Some t) (\<lambda>r. er_key r = (eid, t)) f rows = map (\<lambda>r. if er_key r = (eid, t) then f r else r) rows"
proof -
  have "Some t = Some (er_tenant_id r) \<and> er_key r = (eid, t) \<longleftrightarrow> er_key r = (eid, t)" for r :: "'a entity_record"
    by (auto simp: er_key_def)
  then show ?thesis unfolding update_visible_def by presburger
qed

lemma find_filter_weaker: "(\<And>x. P x \<Longrightarrow> Q x) \<Longrightarrow> find P (filter Q xs) = find P xs"
  by (induction xs) auto

lemma find_visible_key:
  "find (\<lambda>r. er_key r = (eid, t)) (visible er_tenant_id (Some t) rows) = find (\<lambda>r. er_key r = (eid, t)) rows"
  unfolding visible_Some by (rule find_filter_weaker) (simp add: er_key_def)

lemma update_entity_row_Inr:
  assumes "in_scope (rp_tx E) t s" and "update_entity_row E eid t f s = (s', Inr r)"
  shows "\<exists>old. find (\<lambda>r. er_key r = (eid, t)) (rt_entities (db_tables s)) = Some old \<and> r = f old \<and> in_scope (rp_tx E) t s'
    \<and> db_tables s' = (db_tables s)\<lparr>rt_entities := map (\<lambda>r. if er_key r = (eid, t) then f r else r) (rt_entities (db_tables s))\<rparr>"
  using assms
  by (auto simp: update_entity_row_def scoped_statement_Inr find_visible_key update_visible_key in_scope_def split: option.splits)

lemma map_sum_Inr: "map_sum f id r = Inr x \<longleftrightarrow> r = Inr x"
  by (cases r) auto

lemma checked_add_one_i32_Some:
  assumes "checked_add_one_i32 a = Some v"
  shows "sint v = sint a + 1"
proof -
  have "v = a + 1" and ne: "sint a \<noteq> 2 ^ 31 - 1" using assms by (auto simp: checked_add_one_i32_def split: if_splits)
  moreover have "- (2 ^ 31) \<le> sint a" "sint a < 2 ^ 31"
    using sint_ge [of a] sint_lt [of a] by simp_all
  ultimately show ?thesis by (simp add: sint_word_ariths signed_take_bit_int_eq_self)
qed

lemma update_entity_Inr:
  assumes "in_scope (rp_tx E) t s" and "tenant_str (ts_tenant_id sc) = t" and "update_entity E sc eid am s = (s', Inr r)"
  obtains old v patch h where
    "find (\<lambda>r. er_key r = (eid, t)) (rt_entities (db_tables s)) = Some old"
    "ea_version am \<in> {ActiveSet (er_version old), ActiveUnchanged (er_version old)}"
    "sint v = sint (er_version old) + 1" "r = apply_update am (utc_now s) v old"
    "rp_diff E (er_content old) (er_content r) = Inr patch" "in_scope (rp_tx E) t s'"
    "eh_tenant_id h = t" "eh_entity_id h = eid" "eh_change_type h = ''UPDATE''" "eh_version h = v" "eh_diff h = patch"
    "eh_created_by h = history_actor_id E t (ts_user_id sc)"
    "db_tables s' = (db_tables s)\<lparr>rt_entities := map (\<lambda>r. if er_key r = (eid, t) then apply_update am (utc_now s) v r else r)
        (rt_entities (db_tables s)), rt_histories := rt_histories (db_tables s) @ [h]\<rparr>"
proof -
  have "update_entity E sc eid am s = (s', Inr r)" by (rule assms(3))
  then obtain found v patch s1 where
      find: "find (\<lambda>r. er_key r = (eid, t)) (rt_entities (db_tables s)) = Some found"
    and ver: "check_version show_i32 (er_version found) (ea_version am) = Inr ()"
    and v: "checked_add_one_i32 (er_version found) = Some v"
    and upd: "update_entity_row E eid t (apply_update am (utc_now s) v) (db_answered s) = (s1, Inr r)"
    and diff: "rp_diff E (er_content found) (er_content r) = Inr patch"
    and hist: "add_history E sc eid (er_entity_type r) ''UPDATE'' v patch s1 = (s', Inr ())"
    using assms(1)
    by (auto simp: update_entity_def dbind_Inr find_entity_run dlift_Inr found_or_fail_def dreturn_def assms(2)
        apply_update_def [abs_def] map_sum_Inr split: if_splits)
  have u: "in_scope (rp_tx E) t s1" "r = apply_update am (utc_now s) v found"
    "db_tables s1 = (db_tables s)\<lparr>rt_entities := map (\<lambda>r. if er_key r = (eid, t) then apply_update am (utc_now s) v r else r)
        (rt_entities (db_tables s))\<rparr>"
    using update_entity_row_Inr [OF _ upd] assms(1) find by auto
  obtain h where h: "in_scope (rp_tx E) t s'" "eh_tenant_id h = t" "eh_entity_id h = eid" "eh_change_type h = ''UPDATE''"
      "eh_version h = v" "eh_diff h = patch" "eh_created_by h = history_actor_id E t (ts_user_id sc)"
      "db_tables s' = (db_tables s1)\<lparr>rt_histories := rt_histories (db_tables s1) @ [h]\<rparr>"
    using add_history_Inr [OF u(1) hist] assms(2) by auto
  have "ea_version am \<in> {ActiveSet (er_version found), ActiveUnchanged (er_version found)}"
    using ver by (auto simp: check_version_def split: active_value.splits if_splits)
  moreover have "sint v = sint (er_version found) + 1" using v by (rule checked_add_one_i32_Some)
  moreover have "db_tables s' = (db_tables s)\<lparr>rt_entities := map (\<lambda>r. if er_key r = (eid, t) then apply_update am (utc_now s) v r else r)
        (rt_entities (db_tables s)), rt_histories := rt_histories (db_tables s) @ [h]\<rparr>"
    using u(3) h(8) by simp
  ultimately show thesis using that find u(2) diff h by blast
qed

section \<open>The audit trail\<close>

definition trail :: "'j repo_tables \<Rightarrow> string \<times> string \<Rightarrow> 'j entity_history list" where
  "trail d k = filter (\<lambda>h. (eh_entity_id h, eh_tenant_id h) = k) (rt_histories d)"

text \<open>Start from the created content and apply the patches; \<open>patch p x\<close> applies a JSON patch.\<close>

definition rebuild :: "('j \<Rightarrow> 'j \<Rightarrow> 'j) \<Rightarrow> 'j entity_history list \<Rightarrow> 'j option" where
  "rebuild patch hs = (case hs of [] \<Rightarrow> None | h # hs' \<Rightarrow> Some (fold (\<lambda>h c. patch (eh_diff h) c) hs' (eh_diff h)))"

definition trail_ok :: "('j \<Rightarrow> 'j \<Rightarrow> 'j) \<Rightarrow> 'j entity_history list \<Rightarrow> 'j entity_record \<Rightarrow> bool" where
  "trail_ok patch hs r \<longleftrightarrow>
     rebuild patch hs = Some (er_content r)
     \<and> map eh_change_type hs = ''CREATE'' # replicate (length hs - 1) ''UPDATE''
     \<and> successively (\<lambda>a b. sint (eh_version b) = sint (eh_version a) + 1) hs
     \<and> eh_version (last hs) = er_version r"

definition audit_ok :: "('j \<Rightarrow> 'j \<Rightarrow> 'j) \<Rightarrow> 'j repo_tables \<Rightarrow> bool" where
  "audit_ok patch d \<longleftrightarrow>
     distinct (map er_key (rt_entities d))
     \<and> (\<forall>h \<in> set (rt_histories d). (eh_entity_id h, eh_tenant_id h) \<in> er_key ` set (rt_entities d))
     \<and> (\<forall>r \<in> set (rt_entities d). trail_ok patch (trail d (er_key r)) r)"

lemma rebuild_snoc: "rebuild patch hs = Some c \<Longrightarrow> rebuild patch (hs @ [h]) = Some (patch (eh_diff h) c)"
  by (cases hs) (auto simp: rebuild_def)

lemma trail_ok_snoc:
  assumes "trail_ok patch hs old" and "eh_change_type h = ''UPDATE''" "sint (eh_version h) = sint (er_version old) + 1"
    and "patch (eh_diff h) (er_content old) = er_content new" "er_version new = eh_version h"
  shows "trail_ok patch (hs @ [h]) new"
proof -
  have ne: "hs \<noteq> []" using assms(1) by (auto simp: trail_ok_def)
  then have "Suc (length hs - 1) = length hs" by (cases hs) auto
  then have "map eh_change_type (hs @ [h]) = ''CREATE'' # replicate (length (hs @ [h]) - 1) ''UPDATE''"
    using assms(1,2) unfolding trail_ok_def
    by simp (metis replicate_Suc replicate_append_same)
  moreover have "successively (\<lambda>a b. sint (eh_version b) = sint (eh_version a) + 1) (hs @ [h])"
    using assms(1,3) ne by (auto simp: trail_ok_def successively_append_iff)
  ultimately show ?thesis
    using assms rebuild_snoc [of patch hs "er_content old" h] by (simp add: trail_ok_def)
qed

lemma trail_ok_congs:
  assumes "trail_ok patch hs r" and "map eh_diff hs' = map eh_diff hs" "map eh_change_type hs' = map eh_change_type hs"
    "map eh_version hs' = map eh_version hs"
  shows "trail_ok patch hs' r"
proof -
  have len: "length hs' = length hs" using assms(2) by (metis length_map)
  have succ: "successively (\<lambda>a b. sint (eh_version b) = sint (eh_version a) + 1) xs
      = successively (\<lambda>a b. sint b = sint a + 1) (map eh_version xs)" for xs :: "'a entity_history list"
    by (simp add: successively_map)
  have reb: "rebuild patch xs = (case map eh_diff xs of [] \<Rightarrow> None | x # ys \<Rightarrow> Some (fold patch ys x))" for xs :: "'a entity_history list"
    by (cases xs) (simp_all add: rebuild_def fold_map comp_def)
  have "hs \<noteq> []" using assms(1) by (auto simp: trail_ok_def)
  then have last: "eh_version (last hs') = eh_version (last hs)"
    using assms(4) len by (metis last_map length_0_conv)
  show ?thesis using assms len last unfolding trail_ok_def succ reb by simp
qed

lemma create_entity_Inr:
  assumes "in_scope (rp_tx E) t s" and "tenant_str (ts_tenant_id sc) = t" and "create_entity E sc am s = (s', Inr r)"
  shows "er_tenant_id r = t \<and> er_key r \<notin> er_key ` set (rt_entities (db_tables s))
    \<and> (\<exists>h. eh_tenant_id h = t \<and> eh_entity_id h = er_id r \<and> eh_change_type h = ''CREATE'' \<and> eh_version h = er_version r \<and> eh_diff h = er_content r
        \<and> db_tables s' = (db_tables s)\<lparr>rt_entities := rt_entities (db_tables s) @ [r], rt_histories := rt_histories (db_tables s) @ [h]\<rparr>)"
proof -
  have row: "y = x" if "insert_entity E x s = (s1, Inr y)" for x y s1
    using that assms(1) by (auto simp: insert_entity_def scoped_statement_Inr row_insert_def split: if_splits)
  obtain x etype content s1 where x: "insert_entity E x s = (s1, Inr r)" "er_tenant_id x = t" "er_content x = content"
      "er_version x = active_value_or (ea_version am) 1"
    and hist: "add_history E sc (er_id x) etype ''CREATE'' (active_value_or (ea_version am) 1) content s1 = (s', Inr ())"
  proof -
    obtain eid etype content where "required_active_value (ea_id am) ''Entity ID'' = Inr eid"
        "required_active_value (ea_entity_type am) ''Entity Type'' = Inr etype"
        "required_active_value (ea_content am) ''Content'' = Inr content"
      using assms(3) by (auto simp: create_entity_def dbind_Inr dlift_Inr)
    with assms(3) show thesis
      by (auto simp: create_entity_def dbind_Inr dlift_Inr dreturn_def assms(2) intro!: that [where content = content and etype = etype])
  qed
  have ins: "insert_entity E r s = (s1, Inr r)" "er_tenant_id r = t" "er_content r = content"
      "er_version r = active_value_or (ea_version am) 1"
    and hist: "add_history E sc (er_id r) etype ''CREATE'' (active_value_or (ea_version am) 1) content s1 = (s', Inr ())"
    using x hist row [OF x(1)] by simp_all
  have s1: "in_scope (rp_tx E) t s1" "er_key r \<notin> er_key ` set (rt_entities (db_tables s))"
      "db_tables s1 = (db_tables s)\<lparr>rt_entities := rt_entities (db_tables s) @ [r]\<rparr>"
    using ins(1) assms(1) by (auto simp: insert_entity_def scoped_statement_Inr row_insert_def in_scope_def split: if_splits)
  from add_history_Inr [OF s1(1) hist] ins s1(2,3) show ?thesis by auto
qed

lemma audit_create:
  assumes "audit_ok patch d" and "er_key r \<notin> er_key ` set (rt_entities d)"
    and "(eh_entity_id h, eh_tenant_id h) = er_key r" "eh_change_type h = ''CREATE''" "eh_version h = er_version r" "eh_diff h = er_content r"
  shows "audit_ok patch (d\<lparr>rt_entities := rt_entities d @ [r], rt_histories := rt_histories d @ [h]\<rparr>)"
proof -
  let ?d = "d\<lparr>rt_entities := rt_entities d @ [r], rt_histories := rt_histories d @ [h]\<rparr>"
  have "trail d (er_key r) = []" using assms(1,2) unfolding audit_ok_def trail_def filter_empty_conv by metis
  then have "trail ?d (er_key r) = [h]" using assms(3) by (simp add: trail_def)
  then have new: "trail_ok patch (trail ?d (er_key r)) r" using assms(4-6) by (simp add: trail_ok_def rebuild_def)
  have old: "trail_ok patch (trail ?d (er_key x)) x" if "x \<in> set (rt_entities d)" for x
  proof -
    have "er_key x \<noteq> er_key r" using that assms(2) by (metis imageI)
    then have "trail ?d (er_key x) = trail d (er_key x)" using assms(3) by (simp add: trail_def)
    then show ?thesis using assms(1) that by (simp add: audit_ok_def)
  qed
  have "distinct (map er_key (rt_entities ?d))" using assms(1,2) by (simp add: audit_ok_def)
  moreover have "\<forall>h \<in> set (rt_histories ?d). (eh_entity_id h, eh_tenant_id h) \<in> er_key ` set (rt_entities ?d)"
    using assms(1,3) by (simp add: audit_ok_def)
  moreover have "\<forall>x \<in> set (rt_entities ?d). trail_ok patch (trail ?d (er_key x)) x"
    using new old by simp
  ultimately show ?thesis unfolding audit_ok_def by blast
qed

lemma audit_update:
  assumes "audit_ok patch d" and "find (\<lambda>r. er_key r = k) (rt_entities d) = Some old"
    and "(eh_entity_id h, eh_tenant_id h) = k" "eh_change_type h = ''UPDATE''" "sint (eh_version h) = sint (er_version old) + 1"
    and "patch (eh_diff h) (er_content old) = er_content (f old)" "er_version (f old) = eh_version h" "\<And>r. er_key (f r) = er_key r"
  shows "audit_ok patch (d\<lparr>rt_entities := map (\<lambda>r. if er_key r = k then f r else r) (rt_entities d), rt_histories := rt_histories d @ [h]\<rparr>)"
proof -
  let ?g = "\<lambda>r. if er_key r = k then f r else r"
  let ?d = "d\<lparr>rt_entities := map ?g (rt_entities d), rt_histories := rt_histories d @ [h]\<rparr>"
  have old: "old \<in> set (rt_entities d)" "er_key old = k" using assms(2) by (auto simp: find_Some_iff)
  have keys: "map er_key (map ?g (rt_entities d)) = map er_key (rt_entities d)" using assms(8) by simp
  have keyset: "er_key ` set (map ?g (rt_entities d)) = er_key ` set (rt_entities d)"
    using arg_cong [OF keys, of set] by (simp only: set_map)
  have one: "x = old" if "x \<in> set (rt_entities d)" "er_key x = k" for x
    using assms(1) old that by (auto simp: audit_ok_def distinct_map dest: inj_onD)
  have ok: "trail_ok patch (trail ?d (er_key (?g x))) (?g x)" if x: "x \<in> set (rt_entities d)" for x
  proof (cases "er_key x = k")
    case True
    then have "x = old" using one x by simp
    moreover have "trail ?d k = trail d k @ [h]" using assms(3) by (simp add: trail_def)
    moreover have "trail_ok patch (trail d k) old" using assms(1) old by (auto simp: audit_ok_def)
    ultimately show ?thesis using trail_ok_snoc [of patch "trail d k" old h "f old", OF _ assms(4,5,6,7)] old(2) assms(8) by simp
  next
    case False
    then have "trail ?d (er_key x) = trail d (er_key x)" using assms(3) by (auto simp: trail_def)
    with False show ?thesis using assms(1) x by (simp add: audit_ok_def)
  qed
  have "\<forall>x \<in> set (rt_entities ?d). trail_ok patch (trail ?d (er_key x)) x"
  proof
    fix y assume "y \<in> set (rt_entities ?d)"
    then obtain x where "x \<in> set (rt_entities d)" "y = ?g x" by (auto simp del: if_image_distrib)
    then show "trail_ok patch (trail ?d (er_key y)) y" using ok by (simp only:)
  qed
  moreover have "\<forall>h \<in> set (rt_histories ?d). (eh_entity_id h, eh_tenant_id h) \<in> er_key ` set (rt_entities ?d)"
    using assms(1,3) imageI [OF old(1), of er_key] keyset unfolding old(2) audit_ok_def by (simp del: set_map)
  moreover have "distinct (map er_key (rt_entities ?d))" using assms(1) keys by (simp add: audit_ok_def del: map_map)
  ultimately show ?thesis unfolding audit_ok_def by blast
qed

lemma audit_mark:
  assumes "audit_ok patch d" and "rt_entities d' = rt_entities d" "rt_histories d' = map g (rt_histories d)"
    and "\<And>h. eh_entity_id (g h) = eh_entity_id h \<and> eh_tenant_id (g h) = eh_tenant_id h \<and> eh_change_type (g h) = eh_change_type h
      \<and> eh_version (g h) = eh_version h \<and> eh_diff (g h) = eh_diff h"
  shows "audit_ok patch d'"
proof -
  have "trail d' k = map g (trail d k)" for k
    unfolding trail_def assms(3) by (induction "rt_histories d") (auto simp: assms(4) filter_map comp_def)
  then have "trail_ok patch (trail d' k) r" if "trail_ok patch (trail d k) r" for k r
    using that assms(4) by (intro trail_ok_congs [OF that]) auto
  then show ?thesis using assms unfolding audit_ok_def by auto
qed

lemma tx_keeps_dlift: "tx_keeps E t P (dlift r)"
  by (auto simp: tx_keeps_def dlift_Inr)

lemma tx_keeps_map: "tx_keeps E t P m \<Longrightarrow> tx_keeps E t P (dmap f m)"
  unfolding dmap_def by (intro tx_keeps_bind tx_keeps_return)

lemma tx_keeps_local:
  assumes "tx_local E t m"
    and "\<And>s s' r. in_scope E t s \<Longrightarrow> P (db_tables s) \<Longrightarrow> m s = (s', Inr r) \<Longrightarrow> P (db_tables s')"
  shows "tx_keeps E t P m"
  using assms by (fastforce simp: tx_keeps_def tx_local_def)

lemma tx_keeps_for_each:
  assumes "\<And>x. tx_keeps E t P (f x)"
  shows "tx_keeps E t P (for_each f xs)"
  by (induction xs) (auto intro: tx_keeps_return tx_keeps_bind assms)

lemma audit_same: "rt_entities d' = rt_entities d \<Longrightarrow> rt_histories d' = rt_histories d \<Longrightarrow> audit_ok patch d' = audit_ok patch d"
  by (simp add: audit_ok_def trail_def)

lemma audit_statement_same:
  assumes "\<And>d d' r. stmt (Some t) d = Inr (d', r) \<Longrightarrow> rt_entities d' = rt_entities d \<and> rt_histories d' = rt_histories d"
  shows "tx_keeps E t (audit_ok patch) (scoped_statement E stmt)"
  using assms audit_same by (intro tx_keeps_statement) blast

lemma audit_mark_visible:
  assumes "audit_ok patch d"
  shows "audit_ok patch (d\<lparr>rt_histories := update_visible eh_tenant_id tid P (\<lambda>h. h\<lparr>eh_archived_at := a\<rparr>) (rt_histories d)\<rparr>)"
  unfolding update_visible_def
  by (rule audit_mark [OF assms, where g = "\<lambda>h. if tid = Some (eh_tenant_id h) \<and> P h then h\<lparr>eh_archived_at := a\<rparr> else h"]) simp_all

lemma keeps_mark_chunk: "tx_keeps (rp_tx E) t (audit_ok patch) (mark_histories_chunk E sc ids)"
  unfolding mark_histories_chunk_def
  by (rule tx_keeps_clock, rule tx_keeps_statement) (auto intro: audit_mark_visible)

lemma keeps_same:
  "tx_keeps (rp_tx E) t (audit_ok patch) (find_entity E eid tenant)"
  "tx_keeps (rp_tx E) t (audit_ok patch) (insert_audit E l)"
  "tx_keeps (rp_tx E) t (audit_ok patch) (mark_audits_chunk E sc ids)"
  "tx_keeps (rp_tx E) t (audit_ok patch) (get_diagnostic_report E sc x)"
  "tx_keeps (rp_tx E) t (audit_ok patch) (get_diagnostic_policy E sc)"
  "tx_keeps (rp_tx E) t (audit_ok patch) (find_unarchived_entity_histories E sc n)"
  "tx_keeps (rp_tx E) t (audit_ok patch) (find_unarchived_audit_logs E sc n)"
  "tx_keeps (rp_tx E) t (audit_ok patch) (upsert_diagnostic_policy E sc p)"
  unfolding find_entity_def insert_audit_def mark_audits_chunk_def get_diagnostic_report_def get_diagnostic_policy_def
    find_unarchived_entity_histories_def find_unarchived_audit_logs_def upsert_diagnostic_policy_def Let_def
  by ((rule tx_keeps_clock)?, rule audit_statement_same, auto simp: map_sum_eq_Inr)+

lemma keeps_create:
  assumes "tenant_str (ts_tenant_id sc) = t"
  shows "tx_keeps (rp_tx E) t (audit_ok patch) (create_entity E sc am)"
proof (rule tx_keeps_local, rule tx_locals)
  fix s s' r assume s: "in_scope (rp_tx E) t s" "audit_ok patch (db_tables s)" "create_entity E sc am s = (s', Inr r)"
  from create_entity_Inr [OF s(1) assms s(3)] obtain h where "er_tenant_id r = t" "er_key r \<notin> er_key ` set (rt_entities (db_tables s))"
      "eh_tenant_id h = t" "eh_entity_id h = er_id r" "eh_change_type h = ''CREATE''" "eh_version h = er_version r" "eh_diff h = er_content r"
      "db_tables s' = (db_tables s)\<lparr>rt_entities := rt_entities (db_tables s) @ [r], rt_histories := rt_histories (db_tables s) @ [h]\<rparr>"
    by blast
  then show "audit_ok patch (db_tables s')" using audit_create [OF s(2), of r h] by (simp add: er_key_def)
qed

lemma keeps_update:
  assumes "tenant_str (ts_tenant_id sc) = t" and diff: "\<And>a b p. rp_diff E a b = Inr p \<Longrightarrow> patch p a = b"
  shows "tx_keeps (rp_tx E) t (audit_ok patch) (update_entity E sc eid am)"
proof (rule tx_keeps_local, rule tx_locals)
  fix s s' r assume s: "in_scope (rp_tx E) t s" "audit_ok patch (db_tables s)" "update_entity E sc eid am s = (s', Inr r)"
  obtain old v p h where u: "find (\<lambda>r. er_key r = (eid, t)) (rt_entities (db_tables s)) = Some old"
    "sint v = sint (er_version old) + 1" "r = apply_update am (utc_now s) v old"
    "rp_diff E (er_content old) (er_content r) = Inr p"
    "eh_tenant_id h = t" "eh_entity_id h = eid" "eh_change_type h = ''UPDATE''" "eh_version h = v" "eh_diff h = p"
    "db_tables s' = (db_tables s)\<lparr>rt_entities := map (\<lambda>r. if er_key r = (eid, t) then apply_update am (utc_now s) v r else r)
        (rt_entities (db_tables s)), rt_histories := rt_histories (db_tables s) @ [h]\<rparr>"
    by (rule update_entity_Inr [OF s(1) assms(1) s(3)])
  have "patch (eh_diff h) (er_content old) = er_content (apply_update am (utc_now s) v old)" using diff [OF u(4)] u(3,9) by simp
  moreover have "er_version (apply_update am (utc_now s) v old) = eh_version h" using u(8) by (simp add: apply_update_def)
  ultimately show "audit_ok patch (db_tables s')" unfolding u(10)
    by (intro audit_update [OF s(2) u(1), where h = h and f = "apply_update am (utc_now s) v"])
      (simp_all only: u(2,5,6,7,8) apply_update_key)
qed

lemma keeps_delete:
  assumes "tenant_str (ts_tenant_id sc) = t"
  shows "tx_keeps (rp_tx E) t P (delete_entity E sc eid)"
proof (rule tx_keeps_local, rule tx_locals)
  fix s s' r assume s: "in_scope (rp_tx E) t s" "delete_entity E sc eid s = (s', Inr r)"
  then show "P (db_tables s')" using delete_entity_fails [OF s(1) assms, of eid] by auto
qed

lemma keeps_report: "tx_keeps (rp_tx E) t (audit_ok patch) (create_diagnostic_report E sc am)"
  unfolding create_diagnostic_report_def Let_def
  by (rule tx_keeps_clock, intro tx_keeps_bind tx_keeps_dlift)
    (rule audit_statement_same, auto simp: map_sum_eq_Inr)

lemma keeps_log: "tx_keeps (rp_tx E) t (audit_ok patch) (log_audit E sc action resource details)"
proof -
  have draw: "tx_keeps (rp_tx E) t (audit_ok patch) (draw_uuid E)" by (auto simp: tx_keeps_def draw_uuid_def in_scope_def)
  show ?thesis unfolding log_audit_def
    by (intro tx_keeps_bind tx_keeps_dlift draw) (rule tx_keeps_clock, rule keeps_same)
qed

lemma keeps_mark_all:
  "tx_keeps (rp_tx E) t (audit_ok patch) (mark_entity_histories_archived E sc ids)"
  "tx_keeps (rp_tx E) t (audit_ok patch) (mark_audit_logs_archived E sc ids)"
  unfolding mark_entity_histories_archived_def mark_audit_logs_archived_def
  by (auto intro!: tx_keeps_return tx_keeps_for_each keeps_same keeps_mark_chunk)

lemma keeps_op:
  assumes "tenant_str (ts_tenant_id sc) = t" and "\<And>a b p. rp_diff E a b = Inr p \<Longrightarrow> patch p a = b"
  shows "tx_keeps (rp_tx E) t (audit_ok patch) (run_op E sc op)"
  by (cases op) (auto simp: get_entity_def [abs_def] intro!: tx_keeps_map keeps_create [OF assms(1)] keeps_update [OF assms] keeps_delete [OF assms(1)]
      keeps_report keeps_log keeps_mark_all keeps_same)

lemma keeps_ops:
  assumes "tenant_str (ts_tenant_id sc) = t" and "\<And>a b p. rp_diff E a b = Inr p \<Longrightarrow> patch p a = b"
  shows "tx_keeps (rp_tx E) t (audit_ok patch) (run_ops E sc ops)"
proof (induction ops)
  case Nil then show ?case by (simp add: tx_keeps_return)
next
  case (Cons op ops)
  then show ?case
    unfolding run_ops.simps by (intro tx_keeps_bind tx_keeps_map keeps_op [OF assms])
qed

text \<open>The tables reachable from empty ones by tenant transactions, whatever the rest of the database state.\<close>

definition empty_tables :: "'j repo_tables" where
  "empty_tables = \<lparr>rt_entities = [], rt_histories = [], rt_audits = [], rt_reports = [], rt_policies = []\<rparr>"

inductive repo_reachable :: "'db itself \<Rightarrow> 'j repo_env \<Rightarrow> 'j repo_tables \<Rightarrow> bool" for TY :: "'db itself" and E :: "'j repo_env" where
  start: "repo_reachable TY E empty_tables"
| transaction: "repo_reachable TY E (db_tables s)
    \<Longrightarrow> repo_reachable TY E (db_tables (fst (with_tenant_tx (rp_tx E) (ctx :: 'db tenant_context) token (\<lambda>sc. run_ops E sc ops) s)))"

lemma audit_reachable:
  assumes "repo_reachable TY E d" and "\<And>a b p. rp_diff E a b = Inr p \<Longrightarrow> patch p a = b"
  shows "audit_ok patch d"
  using assms(1)
proof induction
  case start show ?case by (simp add: audit_ok_def empty_tables_def)
next
  case (transaction s ctx token ops)
  show ?case
    by (intro with_tenant_tx_keeps [where P = "audit_ok patch"] transaction.IH keeps_ops assms(2)) (simp add: tx_scope_def)
qed

section \<open>Properties of the history\<close>

text \<open>
  C11 (invariant): the history is an audit trail that rebuilds every entity. Whatever
  transactions tenants have run, every entity has a history that begins with its creation,
  goes on with updates only, carries consecutive versions ending in the entity's current
  one, and whose recorded patches, applied in order to the created content, give the
  entity's current content.
\<close>

theorem history_rebuilds_entities:
  assumes "\<And>a b p. rp_diff E a b = Inr p \<Longrightarrow> patch p a = b"
    and "repo_reachable TY E d" and "r \<in> set (rt_entities d)"
  shows "rebuild patch (trail d (er_key r)) = Some (er_content r)
    \<and> map eh_change_type (trail d (er_key r)) = ''CREATE'' # replicate (length (trail d (er_key r)) - 1) ''UPDATE''
    \<and> successively (\<lambda>a b. sint (eh_version b) = sint (eh_version a) + 1) (trail d (er_key r))
    \<and> eh_version (last (trail d (er_key r))) = er_version r"
  using audit_reachable [OF assms(2), of patch] assms(1,3) by (simp add: audit_ok_def trail_ok_def)

definition sample_create :: "nat entity_active_model" where
  "sample_create = \<lparr>ea_id = ActiveSet ''e'', ea_tenant_id = ActiveNotSet, ea_entity_type = ActiveSet ''app'', ea_schema_version = ActiveNotSet,
     ea_content = ActiveSet 5, ea_created_at = ActiveNotSet, ea_updated_at = ActiveNotSet, ea_version = ActiveNotSet\<rparr>"

definition sample_history :: "nat repo_tables ddb" where
  "sample_history = fst (with_tenant_tx (rp_tx sample_repo) sample_ctx sample_token
     (\<lambda>sc. run_ops sample_repo sc [OpCreate sample_create, OpUpdate ''e'' sample_update]) (sample_ddb empty_tables))"

lemma sample_history_tables:
  "map er_content (rt_entities (db_tables sample_history)) = [9]"
  "map er_key (rt_entities (db_tables sample_history)) = [(''e'', ''t1'')]"
  "map eh_diff (rt_histories (db_tables sample_history)) = [5, 9]"
proof -
  have e: "tx_entered (rp_tx sample_repo) sample_ctx sample_token (sample_ddb (empty_tables :: nat repo_tables)) (sample_entered empty_tables)"
    by (simp add: sample_repo_def sample_tx_entered)
  show "map er_content (rt_entities (db_tables sample_history)) = [9]"
    "map er_key (rt_entities (db_tables sample_history)) = [(''e'', ''t1'')]"
    "map eh_diff (rt_histories (db_tables sample_history)) = [5, 9]"
    unfolding sample_history_def with_tenant_tx_entered [OF e] by code_simp+
qed

theorem history_rebuilds_entities_witness:
  "\<exists>r. r \<in> set (rt_entities (db_tables sample_history)) \<and> rebuild (\<lambda>p x. p) (trail (db_tables sample_history) (er_key r)) = Some 9"
proof -
  obtain r where r: "r \<in> set (rt_entities (db_tables sample_history))" "er_content r = 9"
    using sample_history_tables(1) by (metis list.set_intros(1) list.set_map imageE)
  have "repo_reachable TYPE(unit) sample_repo (db_tables sample_history)"
    unfolding sample_history_def by (rule repo_reachable.transaction) (simp add: sample_ddb_def repo_reachable.start)
  from history_rebuilds_entities [OF _ this r(1), of "\<lambda>p x. p"] r show ?thesis by (auto simp: sample_repo_def)
qed

lemma find_map_key:
  assumes "find (\<lambda>r. er_key r = k) rows = Some old" and "\<And>r. er_key (f r) = er_key r"
  shows "find (\<lambda>r. er_key r = k) (map (\<lambda>r. if er_key r = k then f r else r) rows) = Some (f old)"
  using assms(1) by (induction rows) (auto simp: assms(2) split: if_splits)

lemma stale_update_fails:
  assumes "in_scope (rp_tx E) t s" and "tenant_str (ts_tenant_id sc) = t"
    and "find (\<lambda>r. er_key r = (eid, t)) (rt_entities (db_tables s)) = Some r"
    and "ea_version am \<notin> {ActiveSet (er_version r), ActiveUnchanged (er_version r)}"
  shows "\<exists>s' e. update_entity E sc eid am s = (s', Inl e)"
proof (rule ccontr)
  assume "\<not> ?thesis"
  then obtain s' x where "update_entity E sc eid am s = (s', Inr x)" by (metis sum.exhaust surj_pair)
  from update_entity_Inr [OF assms(1,2) this] assms(3,4) show False by fastforce
qed

text \<open>
  updates are compare-and-set. An update that succeeds named the entity's
  current version; the entity then has the next version, only the given fields changed, and
  one history row records the patch and the author. Another update that names the same
  version, as a second writer who read the entity at the same time does, fails and changes
  nothing.
\<close>

theorem update_is_compare_and_set:
  assumes "with_tenant_tx (rp_tx E) ctx token (\<lambda>sc. update_entity E sc eid am) s0 = (s1, Inr r)"
    and "with_tenant_tx (rp_tx E) ctx' token' (\<lambda>sc. update_entity E sc eid am') s2 = (s3, q)"
    and "ctx_tenant_id ctx' = ctx_tenant_id ctx" and "ea_version am' = ea_version am"
    and "find (\<lambda>x. er_key x = (eid, tenant_str (ctx_tenant_id ctx))) (rt_entities (db_tables s2)) = Some r"
  shows "(\<exists>old v now h. find (\<lambda>x. er_key x = (eid, tenant_str (ctx_tenant_id ctx))) (rt_entities (db_tables s0)) = Some old
      \<and> ea_version am \<in> {ActiveSet (er_version old), ActiveUnchanged (er_version old)}
      \<and> sint v = sint (er_version old) + 1 \<and> r = apply_update am now v old
      \<and> rt_entities (db_tables s1) = map (\<lambda>x. if er_key x = er_key r then apply_update am now v x else x) (rt_entities (db_tables s0))
      \<and> rt_histories (db_tables s1) = rt_histories (db_tables s0) @ [h]
      \<and> rp_diff E (er_content old) (er_content r) = Inr (eh_diff h) \<and> eh_version h = v \<and> eh_entity_id h = eid
      \<and> eh_created_by h = history_actor_id E (tenant_str (ctx_tenant_id ctx)) (ctx_user_id ctx))
    \<and> (\<exists>e. q = Inl e) \<and> db_tables s3 = db_tables s2"
proof -
  let ?t = "tenant_str (ctx_tenant_id ctx)"
  obtain u1 u2 where u: "tx_entered (rp_tx E) ctx token s0 u1" "update_entity E (tx_scope ctx) eid am u1 = (u2, Inr r)"
      "s1 = db_end_settings s0 (db_answered u2)"
    by (rule with_tenant_tx_Inr [OF assms(1)])
  have sc: "tenant_str (ts_tenant_id (tx_scope ctx)) = ?t" "ts_user_id (tx_scope ctx) = ctx_user_id ctx" by (simp_all add: tx_scope_def)
  have scope: "in_scope (rp_tx E) ?t u1" by (rule tx_entered_scope(1) [OF u(1)])
  obtain old v p h where
    found: "find (\<lambda>r. er_key r = (eid, ?t)) (rt_entities (db_tables u1)) = Some old"
    and ver: "ea_version am \<in> {ActiveSet (er_version old), ActiveUnchanged (er_version old)}"
    and v: "sint v = sint (er_version old) + 1" and r: "r = apply_update am (utc_now u1) v old"
    and diff: "rp_diff E (er_content old) (er_content r) = Inr p"
    and h: "eh_entity_id h = eid" "eh_version h = v" "eh_diff h = p" "eh_created_by h = history_actor_id E ?t (ctx_user_id ctx)"
    and tab: "db_tables u2 = (db_tables u1)\<lparr>rt_entities := map (\<lambda>r. if er_key r = (eid, ?t) then apply_update am (utc_now u1) v r else r)
        (rt_entities (db_tables u1)), rt_histories := rt_histories (db_tables u1) @ [h]\<rparr>"
    by (rule update_entity_Inr [OF scope sc(1) u(2)]) (simp add: sc(2))
  have key: "er_key r = (eid, ?t)" using found r by (auto simp: find_Some_iff)
  have t01: "db_tables u1 = db_tables s0" "db_tables s1 = db_tables u2"
    using tx_entered_scope(2) [OF u(1)] u(3) by simp_all
  have "er_version r = v" using r by (simp add: apply_update_def)
  then have "ea_version am' \<notin> {ActiveSet (er_version r), ActiveUnchanged (er_version r)}"
    using ver v assms(4) by auto
  then have "\<exists>s e. with_tenant_tx (rp_tx E) ctx' token' (\<lambda>sc. update_entity E sc eid am') s2 = (db_restore s2 s, Inl e)"
    using assms(3,5) by (intro with_tenant_tx_fails stale_update_fails [where t = ?t]) (simp_all add: tx_scope_def)
  then have "\<exists>e. q = Inl e" "db_tables s3 = db_tables s2" using assms(2) by auto
  moreover have "rt_entities (db_tables s1) = map (\<lambda>x. if er_key x = er_key r then apply_update am (utc_now u1) v x else x) (rt_entities (db_tables s0))"
    "rt_histories (db_tables s1) = rt_histories (db_tables s0) @ [h]"
    using t01 tab key by simp_all
  ultimately show ?thesis
    by (intro conjI exI [of _ old] exI [of _ v] exI [of _ "utc_now u1"] exI [of _ h])
      (simp_all only: found [unfolded t01(1)] ver v r [symmetric] diff h)
qed

lemma sample_tables_entered:
  "tx_entered (rp_tx sample_repo) sample_ctx sample_token (sample_ddb sample_tables) (sample_entered sample_tables)"
  by (simp add: sample_repo_def sample_tx_entered)

lemma sample_updated:
  "snd (with_tenant_tx (rp_tx sample_repo) sample_ctx sample_token (\<lambda>sc. update_entity sample_repo sc ''e'' sample_update) (sample_ddb sample_tables))
     = Inr (apply_update sample_update 5 2 (sample_entity ''t1''))"
  "find (\<lambda>x. er_key x = (''e'', ''t1'')) (rt_entities (db_tables (fst
      (with_tenant_tx (rp_tx sample_repo) sample_ctx sample_token (\<lambda>sc. update_entity sample_repo sc ''e'' sample_update) (sample_ddb sample_tables)))))
     = Some (apply_update sample_update 5 2 (sample_entity ''t1''))"
  unfolding with_tenant_tx_entered [OF sample_tables_entered] by code_simp+

theorem update_is_compare_and_set_witness:
  "\<exists>e. snd (with_tenant_tx (rp_tx sample_repo) sample_ctx sample_token (\<lambda>sc. update_entity sample_repo sc ''e'' sample_update)
     (sample_ddb (db_tables (fst (with_tenant_tx (rp_tx sample_repo) sample_ctx sample_token
       (\<lambda>sc. update_entity sample_repo sc ''e'' sample_update) (sample_ddb sample_tables)))))) = Inl e"
proof -
  let ?f = "\<lambda>s. with_tenant_tx (rp_tx sample_repo) sample_ctx sample_token (\<lambda>sc. update_entity sample_repo sc ''e'' sample_update) s"
  let ?d = "db_tables (fst (?f (sample_ddb sample_tables)))"
  have run: "?f (sample_ddb sample_tables) = (fst (?f (sample_ddb sample_tables)), Inr (apply_update sample_update 5 2 (sample_entity ''t1'')))"
    by (rule prod_eqI) (simp_all only: fst_conv snd_conv sample_updated(1))
  have "find (\<lambda>x. er_key x = (''e'', tenant_str (ctx_tenant_id sample_ctx))) (rt_entities (db_tables (sample_ddb ?d)))
      = Some (apply_update sample_update 5 2 (sample_entity ''t1''))"
    using sample_updated(2) by (simp add: sample_ctx_def sample_ddb_def)
  from update_is_compare_and_set [OF run surjective_pairing [of "?f (sample_ddb ?d)"] refl refl this]
  show ?thesis by blast
qed

end
