(* ===== verification/Event_Outbox.thy ===== *)
theory Event_Outbox
  imports Tenant_Tx Event_Types
begin

text \<open>
  The transactional outbox: \<open>EventRepository::create_event\<close> of
  \<open>kernel-data/src/event/repository.rs\<close> and the tables of the migration
  \<open>m20240520_000001_create_event_system.rs\<close>, inside a tenant transaction (theory \<open>Tenant_Tx\<close>).

  The upsert of a sequence writes \<open>last_seq = last_seq + 1\<close> with an unqualified column.
  \<open>ev_unqualified\<close> says whether the database takes such a reference for the stored row;
  PostgreSQL refuses it as ambiguous between the stored and the proposed row. The JSON
  payload is a type parameter, \<open>ev_uuid\<close> the stream of event ids.
\<close>

section \<open>Definitions\<close>

type_synonym i64 = "64 word"

record 'k seq_row =
  sq_tenant_id :: string
  sq_key :: 'k
  sq_last_seq :: i64

record 'p outbox_row =
  ob_tenant_id :: string
  ob_event_id :: uuid
  ob_event_type :: string
  ob_order_mode :: string
  ob_entity_id :: "uuid option"
  ob_entity_seq :: "i64 option"
  ob_causality_key :: "string option"
  ob_causality_seq :: "i64 option"
  ob_payload :: 'p
  ob_created_at :: int
  ob_published_at :: "int option"

record 'p event_tables =
  et_entity_seq :: "uuid seq_row list"
  et_causality_seq :: "string seq_row list"
  et_outbox :: "'p outbox_row list"

record event_env =
  ev_tx :: tx_env
  ev_uuid :: "nat \<Rightarrow> uuid"
  ev_unqualified :: bool

type_synonym ('p, 'a) event_tx = "'p event_tables ddb \<Rightarrow> 'p event_tables ddb \<times> (event_error + 'a)"

text \<open>\<open>INSERT ... ON CONFLICT (tenant_id, key) DO UPDATE SET last_seq = last_seq + 1 RETURNING last_seq\<close>.\<close>

definition upsert_seq :: "bool \<Rightarrow> string option \<Rightarrow> string \<Rightarrow> 'k \<Rightarrow> 'k seq_row list \<Rightarrow> string + 'k seq_row list \<times> i64" where
  "upsert_seq unqualified policy t k rows =
     (if \<not> unqualified then Inl ''column reference last_seq is ambiguous''
      else if policy \<noteq> Some t then Inl ''new row violates row-level security policy''
      else (case find (\<lambda>r. sq_tenant_id r = t \<and> sq_key r = k) rows of
              None \<Rightarrow> Inr (rows @ [\<lparr>sq_tenant_id = t, sq_key = k, sq_last_seq = 1\<rparr>], 1)
            | Some r \<Rightarrow>
                if sint (sq_last_seq r) = 2 ^ 63 - 1 then Inl ''bigint out of range''
                else Inr (map (\<lambda>r. if sq_tenant_id r = t \<and> sq_key r = k then r\<lparr>sq_last_seq := sq_last_seq r + 1\<rparr> else r) rows,
                          sq_last_seq r + 1)))"

definition next_entity_seq :: "event_env \<Rightarrow> tenant_scoped \<Rightarrow> uuid \<Rightarrow> ('p event_tables, i64) dtx" where
  "next_entity_seq E sc entity_id = scoped_statement (ev_tx E) (\<lambda>policy d.
     map_sum id (\<lambda>(rows, seq). (d\<lparr>et_entity_seq := rows\<rparr>, seq))
       (upsert_seq (ev_unqualified E) policy (tenant_str (ts_tenant_id sc)) entity_id (et_entity_seq d)))"

definition next_causality_seq :: "event_env \<Rightarrow> tenant_scoped \<Rightarrow> string \<Rightarrow> ('p event_tables, i64) dtx" where
  "next_causality_seq E sc key = scoped_statement (ev_tx E) (\<lambda>policy d.
     map_sum id (\<lambda>(rows, seq). (d\<lparr>et_causality_seq := rows\<rparr>, seq))
       (upsert_seq (ev_unqualified E) policy (tenant_str (ts_tenant_id sc)) key (et_causality_seq d)))"

text \<open>The outbox's policy, primary key, check constraints and partial unique indices.\<close>

definition outbox_check :: "'p outbox_row \<Rightarrow> bool" where
  "outbox_check r \<longleftrightarrow>
     (ob_order_mode r = ''entity'' \<and> ob_entity_id r \<noteq> None \<and> ob_entity_seq r \<noteq> None \<and> ob_causality_key r = None \<and> ob_causality_seq r = None)
     \<or> (ob_order_mode r = ''causality'' \<and> ob_causality_key r \<noteq> None \<and> ob_causality_seq r \<noteq> None \<and> ob_entity_id r = None \<and> ob_entity_seq r = None)"

definition outbox_unique :: "'p outbox_row \<Rightarrow> 'p outbox_row \<Rightarrow> bool" where
  "outbox_unique a b \<longleftrightarrow>
     (ob_tenant_id a, ob_event_id a) \<noteq> (ob_tenant_id b, ob_event_id b)
     \<and> \<not> (ob_order_mode a = ''entity'' \<and> ob_order_mode b = ''entity''
            \<and> (ob_tenant_id a, ob_entity_id a, ob_entity_seq a) = (ob_tenant_id b, ob_entity_id b, ob_entity_seq b))
     \<and> \<not> (ob_order_mode a = ''causality'' \<and> ob_order_mode b = ''causality''
            \<and> (ob_tenant_id a, ob_causality_key a, ob_causality_seq a) = (ob_tenant_id b, ob_causality_key b, ob_causality_seq b))"

definition insert_outbox :: "event_env \<Rightarrow> 'p outbox_row \<Rightarrow> ('p event_tables, unit) dtx" where
  "insert_outbox E r = scoped_statement (ev_tx E) (\<lambda>policy d.
     if policy \<noteq> Some (ob_tenant_id r) then Inl ''new row violates row-level security policy''
     else if \<not> outbox_check r then Inl ''new row violates check constraint''
     else if \<not> list_all (outbox_unique r) (et_outbox d) then Inl ''duplicate key value violates unique constraint''
     else Inr (d\<lparr>et_outbox := et_outbox d @ [r]\<rparr>, ()))"

definition data_error_text :: "event_env \<Rightarrow> data_error \<Rightarrow> string" where
  "data_error_text E e = (case e of DataDbError m \<Rightarrow> tx_dberr_text (ev_tx E) m | _ \<Rightarrow> [])"

definition store_error :: "event_env \<Rightarrow> string \<Rightarrow> ('p event_tables, 'a) dtx \<Rightarrow> ('p, 'a) event_tx" where
  "store_error E what m s = (case m s of (s', r) \<Rightarrow> (s', map_sum (\<lambda>e. Store (what @ data_error_text E e)) id r))"

definition ebind :: "('p, 'a) event_tx \<Rightarrow> ('a \<Rightarrow> ('p, 'b) event_tx) \<Rightarrow> ('p, 'b) event_tx" where
  "ebind m f s = (case m s of (s', Inl e) \<Rightarrow> (s', Inl e) | (s', Inr x) \<Rightarrow> f x s')"

definition u64_try_from :: "i64 \<Rightarrow> u64 option" where
  "u64_try_from i = (if sint i < 0 then None else Some (ucast i))"

fun with_seq :: "order_mode \<Rightarrow> u64 \<Rightarrow> order_mode" where
  "with_seq (OrderMode_Entity entity_id _) n = OrderMode_Entity entity_id (Some n)"
| "with_seq (OrderMode_Causality key _) n = OrderMode_Causality key (Some n)"

fun next_seq :: "event_env \<Rightarrow> tenant_scoped \<Rightarrow> order_mode \<Rightarrow> ('p, i64) event_tx" where
  "next_seq E sc (OrderMode_Entity entity_id _) = store_error E ''failed to generate entity seq: '' (next_entity_seq E sc entity_id)"
| "next_seq E sc (OrderMode_Causality key _) = store_error E ''failed to generate causality seq: '' (next_causality_seq E sc key)"

fun outbox_model :: "uuid \<Rightarrow> string \<Rightarrow> string \<Rightarrow> order_mode \<Rightarrow> i64 \<Rightarrow> 'p \<Rightarrow> int \<Rightarrow> 'p outbox_row" where
  "outbox_model event t etype (OrderMode_Entity entity_id _) seq p now =
     \<lparr>ob_tenant_id = t, ob_event_id = event, ob_event_type = etype, ob_order_mode = ''entity'', ob_entity_id = Some entity_id,
      ob_entity_seq = Some seq, ob_causality_key = None, ob_causality_seq = None, ob_payload = p, ob_created_at = now,
      ob_published_at = None\<rparr>"
| "outbox_model event t etype (OrderMode_Causality key _) seq p now =
     \<lparr>ob_tenant_id = t, ob_event_id = event, ob_event_type = etype, ob_order_mode = ''causality'', ob_entity_id = None,
      ob_entity_seq = None, ob_causality_key = Some key, ob_causality_seq = Some seq, ob_payload = p, ob_created_at = now,
      ob_published_at = None\<rparr>"

definition create_event :: "event_env \<Rightarrow> tenant_scoped \<Rightarrow> string \<Rightarrow> order_mode \<Rightarrow> 'p \<Rightarrow> ('p, 'p event_envelope) event_tx" where
  "create_event E sc etype order_mode body s =
     (let now = kt_now (db_core s);
          event = ev_uuid E (kt_drawn (db_core s));
          s = s\<lparr>db_core := (db_core s)\<lparr>kt_drawn := kt_drawn (db_core s) + 1\<rparr>\<rparr>
      in ebind (next_seq E sc order_mode) (\<lambda>seq s.
           (case u64_try_from seq of
              None \<Rightarrow> (s, Inl (Store ''generated sequence is invalid for u64''))
            | Some n \<Rightarrow>
                ebind (store_error E ''failed to insert into outbox: ''
                         (insert_outbox E (outbox_model event (tenant_str (ts_tenant_id sc)) etype order_mode seq body now)))
                  (\<lambda>_ s. (s, Inr \<lparr>event_id = event, ev_tenant_id = ts_tenant_id sc, ev_order_mode = with_seq order_mode n,
                                  payload = body, created_at = now, event_type = etype\<rparr>)) s)) s)"

text \<open>A caller that creates several events in one transaction; \<open>conv\<close> is how it turns the error into the transaction's.\<close>

fun create_events :: "event_env \<Rightarrow> tenant_scoped \<Rightarrow> (string \<times> order_mode \<times> 'p) list \<Rightarrow> ('p, 'p event_envelope list) event_tx" where
  "create_events E sc [] s = (s, Inr [])"
| "create_events E sc ((etype, mode, body) # es) s =
     ebind (create_event E sc etype mode body) (\<lambda>env. ebind (create_events E sc es) (\<lambda>envs s. (s, Inr (env # envs)))) s"

definition in_tx :: "(event_error \<Rightarrow> data_error) \<Rightarrow> ('p, 'a) event_tx \<Rightarrow> ('p event_tables, 'a) dtx" where
  "in_tx conv m s = (case m s of (s', r) \<Rightarrow> (s', map_sum conv id r))"

section \<open>Lemmas\<close>

definition last_of :: "'k seq_row list \<Rightarrow> string \<Rightarrow> 'k \<Rightarrow> int" where
  "last_of rows t k = (case find (\<lambda>r. sq_tenant_id r = t \<and> sq_key r = k) rows of None \<Rightarrow> 0 | Some r \<Rightarrow> sint (sq_last_seq r))"

definition seq_of :: "'p event_tables \<Rightarrow> string \<Rightarrow> ordering_key \<Rightarrow> int" where
  "seq_of d t k = (case k of OrderingKey_Entity e \<Rightarrow> last_of (et_entity_seq d) t e | OrderingKey_Causality c \<Rightarrow> last_of (et_causality_seq d) t c)"

definition ob_key :: "'p outbox_row \<Rightarrow> ordering_key" where
  "ob_key r = (if ob_order_mode r = ''entity'' then OrderingKey_Entity (the (ob_entity_id r)) else OrderingKey_Causality (the (ob_causality_key r)))"

definition ob_seq :: "'p outbox_row \<Rightarrow> int" where
  "ob_seq r = sint (the (if ob_order_mode r = ''entity'' then ob_entity_seq r else ob_causality_seq r))"

text \<open>The sequence numbers of a key's events, in the order in which they were written.\<close>

definition key_seqs :: "'p event_tables \<Rightarrow> string \<Rightarrow> ordering_key \<Rightarrow> int list" where
  "key_seqs d t k = map ob_seq (filter (\<lambda>r. ob_tenant_id r = t \<and> ob_key r = k) (et_outbox d))"

definition seqs_ok :: "'p event_tables \<Rightarrow> bool" where
  "seqs_ok d \<longleftrightarrow> (\<forall>t k. \<exists>n. seq_of d t k = int n \<and> key_seqs d t k = map int [1..<Suc n])"

lemma sint_succ_i64:
  fixes a :: i64
  assumes "sint a \<noteq> 2 ^ 63 - 1"
  shows "sint (a + 1) = sint a + 1"
proof -
  have "- (2 ^ 63) \<le> sint a" "sint a < 2 ^ 63" using sint_ge [of a] sint_lt [of a] by simp_all
  then show ?thesis using assms by (simp add: sint_word_ariths signed_take_bit_int_eq_self)
qed

lemma find_map_same:
  assumes "\<And>x. P x \<Longrightarrow> P (f x)"
  shows "find P (map (\<lambda>x. if P x then f x else x) xs) = map_option f (find P xs)"
  by (induction xs) (auto simp: assms)

lemma find_map_other:
  assumes "\<And>x. P x \<Longrightarrow> \<not> Q x" "\<And>x. P x \<Longrightarrow> \<not> Q (f x)"
  shows "find Q (map (\<lambda>x. if P x then f x else x) xs) = find Q xs"
  by (induction xs) (auto simp: assms dest: assms)

lemma upsert_seq_Inr:
  assumes "upsert_seq u (Some t) t k rows = Inr (rows', n)"
  shows "sint n = last_of rows t k + 1"
    and "last_of rows' t' k' = (if t' = t \<and> k' = k then sint n else last_of rows t' k')"
proof -
  let ?P = "\<lambda>r. sq_tenant_id r = t \<and> sq_key r = k" and ?Q = "\<lambda>r. sq_tenant_id r = t' \<and> sq_key r = k'"
  let ?f = "\<lambda>r. r\<lparr>sq_last_seq := sq_last_seq r + 1\<rparr>"
  have "sint n = last_of rows t k + 1 \<and> last_of rows' t' k' = (if t' = t \<and> k' = k then sint n else last_of rows t' k')"
  proof (cases "find ?P rows")
    case None
    then have "n = 1" "rows' = rows @ [\<lparr>sq_tenant_id = t, sq_key = k, sq_last_seq = 1\<rparr>]"
      using assms by (auto simp: upsert_seq_def split: if_splits)
    moreover have "find ?Q (xs @ ys) = (case find ?Q xs of None \<Rightarrow> find ?Q ys | Some x \<Rightarrow> Some x)" for xs ys :: "'a seq_row list"
      by (induction xs) auto
    ultimately show ?thesis using None by (auto simp: last_of_def split: option.split)
  next
    case (Some r)
    then have n: "sint (sq_last_seq r) \<noteq> 2 ^ 63 - 1" "n = sq_last_seq r + 1" "rows' = map (\<lambda>r. if ?P r then ?f r else r) rows"
      using assms by (auto simp: upsert_seq_def split: if_splits)
    have "find ?Q rows' = (if t' = t \<and> k' = k then map_option ?f (find ?P rows) else find ?Q rows)"
    proof (cases "t' = t \<and> k' = k")
      case True
      then show ?thesis using find_map_same [of ?P ?f rows] n(3) by simp
    next
      case False
      then show ?thesis using find_map_other [of ?P ?Q ?f rows] n(3) by auto
    qed
    then show ?thesis using Some n sint_succ_i64 [OF n(1)] by (auto simp: last_of_def)
  qed
  then show "sint n = last_of rows t k + 1" "last_of rows' t' k' = (if t' = t \<and> k' = k then sint n else last_of rows t' k')" by blast+
qed

lemma store_error_Inr: "store_error E what m s = (s', Inr x) \<longleftrightarrow> m s = (s', Inr x)"
  by (auto simp: store_error_def map_sum_eq_Inr split: prod.splits)

lemma ebind_Inr: "ebind m f s = (s', Inr y) \<longleftrightarrow> (\<exists>s1 x. m s = (s1, Inr x) \<and> f x s1 = (s', Inr y))"
  by (auto simp: ebind_def split: prod.splits sum.splits)

lemma next_seq_Inr:
  assumes "in_scope (ev_tx E) t s" and "tenant_str (ts_tenant_id sc) = t" and "next_seq E sc mode s = (s', Inr n)"
  shows "in_scope (ev_tx E) t s'" "et_outbox (db_tables s') = et_outbox (db_tables s)"
    "sint n = seq_of (db_tables s) t (om_ordering_key mode) + 1"
    "seq_of (db_tables s') t' k' = (if t' = t \<and> k' = om_ordering_key mode then sint n else seq_of (db_tables s) t' k')"
proof -
  have "in_scope (ev_tx E) t s' \<and> et_outbox (db_tables s') = et_outbox (db_tables s)
    \<and> sint n = seq_of (db_tables s) t (om_ordering_key mode) + 1
    \<and> seq_of (db_tables s') t' k' = (if t' = t \<and> k' = om_ordering_key mode then sint n else seq_of (db_tables s) t' k')"
  proof (cases mode)
    case (OrderMode_Entity e x)
    then obtain rows where rows: "upsert_seq (ev_unqualified E) (Some t) t e (et_entity_seq (db_tables s)) = Inr (rows, n)"
        and s': "s' = (db_answered s)\<lparr>db_tables := (db_tables s)\<lparr>et_entity_seq := rows\<rparr>\<rparr>"
      using assms by (auto simp: store_error_Inr next_entity_seq_def scoped_statement_Inr map_sum_eq_Inr)
    from upsert_seq_Inr(1) [OF rows] upsert_seq_Inr(2) [OF rows] OrderMode_Entity s' assms(1)
    show ?thesis by (auto simp: seq_of_def in_scope_def split: ordering_key.split)
  next
    case (OrderMode_Causality c x)
    then obtain rows where rows: "upsert_seq (ev_unqualified E) (Some t) t c (et_causality_seq (db_tables s)) = Inr (rows, n)"
        and s': "s' = (db_answered s)\<lparr>db_tables := (db_tables s)\<lparr>et_causality_seq := rows\<rparr>\<rparr>"
      using assms by (auto simp: store_error_Inr next_causality_seq_def scoped_statement_Inr map_sum_eq_Inr)
    from upsert_seq_Inr(1) [OF rows] upsert_seq_Inr(2) [OF rows] OrderMode_Causality s' assms(1)
    show ?thesis by (auto simp: seq_of_def in_scope_def split: ordering_key.split)
  qed
  then show "in_scope (ev_tx E) t s'" "et_outbox (db_tables s') = et_outbox (db_tables s)"
    "sint n = seq_of (db_tables s) t (om_ordering_key mode) + 1"
    "seq_of (db_tables s') t' k' = (if t' = t \<and> k' = om_ordering_key mode then sint n else seq_of (db_tables s) t' k')" by blast+
qed

lemma outbox_model_simps [simp]:
  "ob_key (outbox_model event t etype mode seq body now) = om_ordering_key mode"
  "ob_seq (outbox_model event t etype mode seq body now) = sint seq"
  "ob_tenant_id (outbox_model event t etype mode seq body now) = t"
  "ob_event_id (outbox_model event t etype mode seq body now) = event"
  "ob_event_type (outbox_model event t etype mode seq body now) = etype"
  "ob_payload (outbox_model event t etype mode seq body now) = body"
  "ob_created_at (outbox_model event t etype mode seq body now) = now"
  "ob_published_at (outbox_model event t etype mode seq body now) = None"
  by (cases mode; simp add: ob_key_def ob_seq_def)+

lemma with_seq_simps [simp]:
  "om_ordering_key (with_seq mode n) = om_ordering_key mode" "om_seq (with_seq mode n) = Some n"
  by (cases mode; simp)+

lemma u64_of_pos:
  fixes n :: i64
  assumes "u64_try_from n = Some m"
  shows "0 \<le> sint n" "int (unat m) = sint n"
proof -
  have "0 \<le> sint n" "m = n" using assms by (auto simp: u64_try_from_def not_less split: if_splits)
  moreover have "sint n < 2 ^ 63" using sint_lt [of n] by simp
  ultimately show "0 \<le> sint n" "int (unat m) = sint n"
    by (simp_all add: uint_sint take_bit_int_eq_self)
qed

text \<open>
  \<open>event_written\<close>: an event with this envelope was appended to the outbox under the next
  number of its key, and nothing else changed.
\<close>

definition event_written :: "string \<Rightarrow> order_mode \<Rightarrow> 'p \<Rightarrow> 'p event_tables \<Rightarrow> 'p event_envelope \<Rightarrow> 'p event_tables \<Rightarrow> bool" where
  "event_written t mode body d env d' \<longleftrightarrow>
     (let k = om_ordering_key mode; n = seq_of d t k + 1
      in tenant_str (ev_tenant_id env) = t \<and> om_ordering_key (ev_order_mode env) = k \<and> payload env = body
         \<and> map_option (int \<circ> unat) (om_seq (ev_order_mode env)) = Some n
         \<and> (\<exists>r. et_outbox d' = et_outbox d @ [r] \<and> ob_tenant_id r = t \<and> ob_key r = k \<and> ob_seq r = n
              \<and> ob_event_id r = event_id env \<and> ob_event_type r = event_type env \<and> ob_payload r = body
              \<and> ob_created_at r = created_at env \<and> ob_published_at r = None)
         \<and> (\<forall>t' k'. seq_of d' t' k' = (if t' = t \<and> k' = k then n else seq_of d t' k')))"

lemma create_event_Inr:
  assumes "in_scope (ev_tx E) t s" and "tenant_str (ts_tenant_id sc) = t" and "create_event E sc etype mode body s = (s', Inr env)"
  shows "in_scope (ev_tx E) t s'" "event_written t mode body (db_tables s) env (db_tables s')"
proof -
  let ?s = "s\<lparr>db_core := (db_core s)\<lparr>kt_drawn := kt_drawn (db_core s) + 1\<rparr>\<rparr>"
  let ?row = "\<lambda>n. outbox_model (ev_uuid E (kt_drawn (db_core s))) t etype mode n body (kt_now (db_core s))"
  have sc: "in_scope (ev_tx E) t ?s" using assms(1) by (simp add: in_scope_def)
  obtain n m s1 where n: "next_seq E sc mode ?s = (s1, Inr n)" "u64_try_from n = Some m"
      and ins: "insert_outbox E (?row n) s1 = (s', Inr ())"
      and env: "env = \<lparr>event_id = ev_uuid E (kt_drawn (db_core s)), ev_tenant_id = ts_tenant_id sc, ev_order_mode = with_seq mode m,
          payload = body, created_at = kt_now (db_core s), event_type = etype\<rparr>"
    using assms(2,3) by (auto simp: create_event_def Let_def ebind_Inr store_error_Inr split: option.splits)
  note seq = next_seq_Inr [OF sc assms(2) n(1)]
  have s': "in_scope (ev_tx E) t s'" "db_tables s' = (db_tables s1)\<lparr>et_outbox := et_outbox (db_tables s1) @ [?row n]\<rparr>"
    using ins seq(1) by (auto simp: insert_outbox_def scoped_statement_Inr in_scope_def split: if_splits)
  have sq: "seq_of (d\<lparr>et_outbox := ob\<rparr>) t' k' = seq_of d t' k'" for d :: "'a event_tables" and ob t' k'
    by (simp add: seq_of_def split: ordering_key.split)
  show "in_scope (ev_tx E) t s'" by (rule s'(1))
  show "event_written t mode body (db_tables s) env (db_tables s')"
    using s'(2) seq(2,3) seq(4) u64_of_pos(2) [OF n(2)] assms(2) by (simp add: event_written_def env sq Let_def)
qed

lemma seqs_written:
  assumes "seqs_ok d" and "event_written t mode body d env d'"
  shows "seqs_ok d'"
  unfolding seqs_ok_def
proof (intro allI)
  fix t' k'
  let ?k = "om_ordering_key mode" and ?n = "seq_of d t (om_ordering_key mode)"
  obtain r where r: "et_outbox d' = et_outbox d @ [r]" "ob_tenant_id r = t" "ob_key r = ?k" "ob_seq r = ?n + 1"
      and sq: "seq_of d' t' k' = (if t' = t \<and> k' = ?k then ?n + 1 else seq_of d t' k')"
    using assms(2) by (auto simp: event_written_def Let_def)
  have ks: "key_seqs d' t' k' = key_seqs d t' k' @ (if t' = t \<and> k' = ?k then [?n + 1] else [])"
    using r by (auto simp: key_seqs_def)
  obtain m where m: "seq_of d t' k' = int m" "key_seqs d t' k' = map int [1..<Suc m]"
    using assms(1) by (auto simp: seqs_ok_def)
  show "\<exists>n. seq_of d' t' k' = int n \<and> key_seqs d' t' k' = map int [1..<Suc n]"
  proof (cases "t' = t \<and> k' = ?k")
    case True
    then have "seq_of d' t' k' = int (Suc m) \<and> key_seqs d' t' k' = map int [1..<Suc (Suc m)]" using m sq ks by simp
    then show ?thesis by blast
  next
    case False
    then show ?thesis using m sq ks by auto
  qed
qed

lemma in_tx_Inr: "in_tx conv m s = (s', Inr x) \<longleftrightarrow> m s = (s', Inr x)"
  by (auto simp: in_tx_def map_sum_eq_Inr split: prod.splits)

lemma seqs_create_events:
  assumes "tenant_str (ts_tenant_id sc) = t"
  shows "tx_keeps (ev_tx E) t seqs_ok (in_tx conv (create_events E sc es))"
proof -
  have "create_events E sc es s = (s', Inr envs) \<Longrightarrow> in_scope (ev_tx E) t s \<Longrightarrow> seqs_ok (db_tables s)
      \<Longrightarrow> in_scope (ev_tx E) t s' \<and> seqs_ok (db_tables s')" for s s' envs
  proof (induction es arbitrary: s envs)
    case Nil
    then show ?case by simp
  next
    case (Cons ev es)
    obtain etype mode body where ev: "ev = (etype, mode, body)" by (cases ev)
    obtain s1 env envs' where run: "create_event E sc etype mode body s = (s1, Inr env)" "create_events E sc es s1 = (s', Inr envs')"
      using Cons.prems(1) by (auto simp: ev ebind_Inr)
    note w = create_event_Inr [OF Cons.prems(2) assms run(1)]
    show ?case by (rule Cons.IH [OF run(2) w(1) seqs_written [OF Cons.prems(3) w(2)]])
  qed
  then show ?thesis by (auto simp: tx_keeps_def in_tx_Inr)
qed

text \<open>The tables reachable from empty ones by transactions that create events and fail as they may.\<close>

definition no_events :: "'p event_tables" where
  "no_events = \<lparr>et_entity_seq = [], et_causality_seq = [], et_outbox = []\<rparr>"

inductive events_reachable :: "'db itself \<Rightarrow> event_env \<Rightarrow> 'p event_tables \<Rightarrow> bool" for TY :: "'db itself" and E :: event_env where
  start: "events_reachable TY E no_events"
| transaction: "events_reachable TY E (db_tables s)
    \<Longrightarrow> events_reachable TY E (db_tables (fst (with_tenant_tx (ev_tx E) (ctx :: 'db tenant_context) token
          (\<lambda>sc. in_tx conv (create_events E sc es)) s)))"

lemma reachable_seqs:
  assumes "events_reachable TY E d"
  shows "seqs_ok d"
  using assms
proof induction
  case start
  have "seq_of no_events t k = int 0 \<and> key_seqs no_events t k = map int [1..<Suc 0]" for t k
    by (simp add: seq_of_def key_seqs_def last_of_def no_events_def split: ordering_key.split)
  then show ?case unfolding seqs_ok_def by blast
next
  case (transaction s ctx token conv es)
  show ?case
    by (intro with_tenant_tx_keeps [where P = seqs_ok] transaction.IH seqs_create_events) (simp add: tx_scope_def)
qed

section \<open>Properties\<close>

text \<open>
  C10 (invariant): the numbers of a key's events have no gaps. Whatever transactions have
  created events, however they failed and rolled back, the events of every tenant and
  ordering key stand in the outbox numbered 1, 2, 3 and so on, in the order in which they
  were written; so no number is lost or used twice.
\<close>

theorem outbox_sequences_gap_free:
  assumes "events_reachable TY E d"
  shows "key_seqs d t k = map int [1..<Suc (length (key_seqs d t k))]"
proof -
  obtain n where "key_seqs d t k = map int [1..<Suc n]" using reachable_seqs [OF assms] by (auto simp: seqs_ok_def)
  then show ?thesis by (metis diff_Suc_1 length_map length_upt)
qed

text \<open>
  an event gets the next number of its key. A transaction that creates an
  event and commits returns an envelope for the context's tenant with the given payload and
  ordering key and the number one above the number of the key's events so far, and the
  outbox has exactly that event more, unpublished; no other key's numbering moves.
\<close>

theorem event_gets_next_number:
  assumes "events_reachable TY E (db_tables s0)"
    and "with_tenant_tx (ev_tx E) ctx token (\<lambda>sc. in_tx conv (create_event E sc etype mode body)) s0 = (s', Inr env)"
  shows "event_written (tenant_str (ctx_tenant_id ctx)) mode body (db_tables s0) env (db_tables s')
    \<and> map_option unat (om_seq (ev_order_mode env))
        = Some (Suc (length (key_seqs (db_tables s0) (tenant_str (ctx_tenant_id ctx)) (om_ordering_key mode))))"
proof -
  let ?t = "tenant_str (ctx_tenant_id ctx)"
  obtain s1 s2 where s1: "tx_entered (ev_tx E) ctx token s0 s1" "in_tx conv (create_event E (tx_scope ctx) etype mode body) s1 = (s2, Inr env)"
      "s' = db_end_settings s0 (db_answered s2)"
    by (rule with_tenant_tx_Inr [OF assms(2)])
  have w: "event_written ?t mode body (db_tables s0) env (db_tables s')"
    using create_event_Inr(2) [OF tx_entered_scope(1) [OF s1(1)] _ s1(2) [unfolded in_tx_Inr]] tx_entered_scope(2) [OF s1(1)] s1(3)
    by (simp add: tx_scope_def)
  obtain n where n: "seq_of (db_tables s0) ?t (om_ordering_key mode) = int n" "key_seqs (db_tables s0) ?t (om_ordering_key mode) = map int [1..<Suc n]"
    using reachable_seqs [OF assms(1)] by (auto simp: seqs_ok_def)
  have "length (key_seqs (db_tables s0) ?t (om_ordering_key mode)) = n" unfolding n(2) by (simp del: upt_Suc)
  moreover obtain q where q: "om_seq (ev_order_mode env) = Some q" "int (unat q) = seq_of (db_tables s0) ?t (om_ordering_key mode) + 1"
    using w by (auto simp: event_written_def Let_def)
  moreover have "unat q = Suc n" using q(2) n(1) by linarith
  ultimately have "map_option unat (om_seq (ev_order_mode env))
      = Some (Suc (length (key_seqs (db_tables s0) ?t (om_ordering_key mode))))"
    by simp
  with w show ?thesis by blast
qed

text \<open>
  where the database refuses an unqualified \<open>last_seq\<close> in the upsert, no event is
  ever created: every transaction that creates at least one event fails and leaves the
  outbox and the sequences as they were.
\<close>

theorem ambiguous_upsert_creates_nothing:
  assumes "\<not> ev_unqualified E" and "es \<noteq> []"
    and "with_tenant_tx (ev_tx E) ctx token (\<lambda>sc. in_tx conv (create_events E sc es)) s0 = (s', r)"
  shows "(\<exists>e. r = Inl e) \<and> db_tables s' = db_tables s0"
proof -
  obtain etype mode body es' where es: "es = (etype, mode, body) # es'" using assms(2) by (cases es) auto
  have "\<exists>s e. in_tx conv (create_events E (tx_scope ctx) es) s1 = (s, Inl e)" if "in_scope (ev_tx E) (tenant_str (ctx_tenant_id ctx)) s1" for s1
  proof (rule ccontr)
    assume "\<not> ?thesis"
    moreover obtain s2 q where q: "in_tx conv (create_events E (tx_scope ctx) es) s1 = (s2, q)" by (rule prod.exhaust)
    ultimately obtain envs where "q = Inr envs" by (cases q) auto
    with q have "create_events E (tx_scope ctx) es s1 = (s2, Inr envs)" by (simp only: in_tx_Inr)
    then obtain s3 n where n: "next_seq E (tx_scope ctx) mode (s1\<lparr>db_core := (db_core s1)\<lparr>kt_drawn := kt_drawn (db_core s1) + 1\<rparr>\<rparr>) = (s3, Inr n)"
      by (auto simp: es ebind_Inr create_event_def Let_def)
    moreover have "in_scope (ev_tx E) (tenant_str (ctx_tenant_id ctx)) (s1\<lparr>db_core := (db_core s1)\<lparr>kt_drawn := kt_drawn (db_core s1) + 1\<rparr>\<rparr>)"
      using that by (simp add: in_scope_def)
    ultimately show False using assms(1)
      by (cases mode) (auto simp: store_error_Inr next_entity_seq_def next_causality_seq_def scoped_statement_Inr upsert_seq_def)
  qed
  then have "\<exists>s e. with_tenant_tx (ev_tx E) ctx token (\<lambda>sc. in_tx conv (create_events E sc es)) s0 = (db_restore s0 s, Inl e)"
    by (rule with_tenant_tx_fails)
  then show ?thesis using assms(3) by auto
qed

definition sample_events :: "bool \<Rightarrow> event_env" where
  "sample_events u = \<lparr>ev_tx = sample_env, ev_uuid = of_nat, ev_unqualified = u\<rparr>"

definition sample_event :: "string \<times> order_mode \<times> nat" where
  "sample_event = (''created'', OrderMode_Causality ''k'' None, 7)"

text \<open>A transaction that creates two events of one key, and one that then creates a third.\<close>

definition sample_outbox :: "nat event_tables ddb" where
  "sample_outbox = fst (with_tenant_tx (ev_tx (sample_events True)) sample_ctx sample_token
     (\<lambda>sc. in_tx (\<lambda>_. ValidationError []) (create_events (sample_events True) sc [sample_event, sample_event])) (sample_ddb no_events))"

lemma sample_events_entered:
  "tx_entered (ev_tx (sample_events u)) sample_ctx sample_token (sample_ddb d) (sample_entered d)"
  by (simp add: sample_events_def sample_tx_entered)

lemma sample_outbox_reachable: "events_reachable TYPE(unit) (sample_events True) (db_tables sample_outbox)"
  unfolding sample_outbox_def by (rule events_reachable.transaction) (simp add: sample_ddb_def events_reachable.start)

lemma sample_outbox_length: "length (key_seqs (db_tables sample_outbox) ''t1'' (OrderingKey_Causality ''k'')) = 2"
  unfolding sample_outbox_def with_tenant_tx_entered [OF sample_events_entered] by code_simp

theorem outbox_sequences_gap_free_witness:
  "key_seqs (db_tables sample_outbox) ''t1'' (OrderingKey_Causality ''k'') = [1, 2]"
  using outbox_sequences_gap_free [OF sample_outbox_reachable, of "''t1''" "OrderingKey_Causality ''k''"]
  unfolding sample_outbox_length by (simp add: numeral_2_eq_2)

text \<open>The same database after five draws.\<close>

definition later_ddb :: "'d \<Rightarrow> 'd ddb" where
  "later_ddb d = (sample_ddb d)\<lparr>db_core := sample_kdb\<lparr>kt_drawn := 5\<rparr>\<rparr>"

lemma later_entered:
  "tx_entered (ev_tx (sample_events u)) sample_ctx sample_token (later_ddb d) ((sample_entered d)\<lparr>db_core := sample_kdb\<lparr>kt_drawn := 5\<rparr>\<rparr>)"
  using sample_events_entered [of u d]
  by (auto simp: tx_entered_def authorize_statement_def db_fault_def db_answered_def Let_def sample_entered_def sample_ddb_def later_ddb_def
      sample_kdb_key split: sum.splits)

theorem event_gets_next_number_witness:
  "\<exists>s' env. with_tenant_tx (ev_tx (sample_events True)) sample_ctx sample_token
      (\<lambda>sc. in_tx (\<lambda>_. ValidationError []) (create_event (sample_events True) sc ''created'' (OrderMode_Causality ''k'' None) (8 :: nat)))
      (later_ddb (db_tables sample_outbox)) = (s', Inr env)
    \<and> map_option unat (om_seq (ev_order_mode env)) = Some 3"
proof -
  let ?f = "\<lambda>sc. in_tx (\<lambda>_. ValidationError []) (create_event (sample_events True) sc ''created'' (OrderMode_Causality ''k'' None) (8 :: nat))"
  let ?r = "with_tenant_tx (ev_tx (sample_events True)) sample_ctx sample_token ?f (later_ddb (db_tables sample_outbox))"
  have "\<not> isl (snd ?r)"
    unfolding sample_outbox_def with_tenant_tx_entered [OF sample_events_entered] with_tenant_tx_entered [OF later_entered] by code_simp
  then obtain s' env where run: "?r = (s', Inr env)" by (cases ?r) (metis isl_def snd_conv sum.collapse(2) prod.collapse)
  have "events_reachable TYPE(unit) (sample_events True) (db_tables (later_ddb (db_tables sample_outbox)))"
    by (simp add: later_ddb_def sample_ddb_def sample_outbox_reachable)
  from event_gets_next_number [OF this run] sample_outbox_length run show ?thesis
    by (auto simp: later_ddb_def sample_ddb_def sample_ctx_def)
qed

theorem ambiguous_upsert_creates_nothing_witness:
  "\<exists>s' e. with_tenant_tx (ev_tx (sample_events False)) sample_ctx sample_token
      (\<lambda>sc. in_tx (\<lambda>_. ValidationError []) (create_events (sample_events False) sc [sample_event])) (sample_ddb no_events) = (s', Inl e)
    \<and> et_outbox (db_tables s') = []"
proof -
  let ?r = "with_tenant_tx (ev_tx (sample_events False)) sample_ctx sample_token
      (\<lambda>sc. in_tx (\<lambda>_. ValidationError []) (create_events (sample_events False) sc [sample_event])) (sample_ddb no_events)"
  have "\<not> ev_unqualified (sample_events False)" "[sample_event] \<noteq> []" by (simp_all add: sample_events_def)
  from ambiguous_upsert_creates_nothing [OF this surjective_pairing [of ?r]] obtain e where
    "snd ?r = Inl e" "db_tables (fst ?r) = no_events" by (auto simp: sample_ddb_def)
  then show ?thesis by (intro exI [of _ "fst ?r"] exI [of _ e]) (simp add: prod_eq_iff no_events_def)
qed

end
