(* ===== verification/Event_Streams.thy ===== *)
theory Event_Streams
  imports Event_Types "HOL-Library.Sublist"
begin

text \<open>
  Events on Redis streams: \<open>RedisProducer\<close> of \<open>kernel-data/src/event/redis_producer.rs\<close> and
  \<open>RedisConsumer\<close> of \<open>kernel-data/src/event/redis_consumer.rs\<close>.

  Redis is not modelled: its state is a type parameter and its five commands are the fields
  of \<open>redis_streams\<close>, functions of that state that may answer with an error. \<open>streams_ok\<close>
  states what the code relies on of them; \<open>sole_consumer\<close> adds what holds of a group while
  only one consumer reads for it. A command that times out is an error answer, after
  which it may have taken effect. The JSON reader and writer are parameters, too.

  The consumer's own state is its shard counter and the set of groups it has ensured, a
  cache that may lose entries at any time. A claim that scans a shard follows cursors and
  may not end, so it is a partial function.
\<close>

section \<open>Definitions\<close>

type_synonym usize = "64 word"

datatype redis_error = RedisError (re_code: "string option") (re_text: string)

record stream_entry =
  se_id :: string
  se_data :: "string option"

text \<open>\<open>std::time::Duration\<close>.\<close>

record rust_duration =
  du_secs :: u64
  du_nanos :: "32 word"

definition duration_is_zero :: "rust_duration \<Rightarrow> bool" where
  "duration_is_zero d \<longleftrightarrow> du_secs d = 0 \<and> du_nanos d = 0"

definition as_millis :: "rust_duration \<Rightarrow> int" where
  "as_millis d = uint (du_secs d) * 1000 + uint (du_nanos d) div 1000000"

text \<open>The options of \<open>XREADGROUP\<close>; the time to block is in milliseconds.\<close>

record read_options =
  xo_group :: string
  xo_consumer :: string
  xo_count :: nat
  xo_noack :: bool
  xo_block :: "int option"

record 'r redis_streams =
  xadd :: "string \<Rightarrow> nat option \<Rightarrow> string \<Rightarrow> 'r \<Rightarrow> 'r \<times> (redis_error + string)"
  xgroup_create_mkstream :: "string \<Rightarrow> string \<Rightarrow> string \<Rightarrow> 'r \<Rightarrow> 'r \<times> (redis_error + unit)"
  xreadgroup :: "string \<Rightarrow> read_options \<Rightarrow> 'r \<Rightarrow> 'r \<times> (redis_error + (string \<times> stream_entry list) list)"
  xautoclaim :: "string \<Rightarrow> string \<Rightarrow> string \<Rightarrow> u64 \<Rightarrow> string \<Rightarrow> nat \<Rightarrow> 'r \<Rightarrow> 'r \<times> (redis_error + stream_entry list \<times> string)"
  xack :: "string \<Rightarrow> string \<Rightarrow> string \<Rightarrow> 'r \<Rightarrow> 'r \<times> (redis_error + int)"

record ('r, 'p) stream_env =
  st_redis :: "'r redis_streams"
  st_from_json :: "string \<Rightarrow> string + 'p event_envelope"
  st_to_json :: "'p event_envelope \<Rightarrow> string + string"
  st_xxh64 :: "string \<Rightarrow> u64"
  st_uuid_str :: "uuid \<Rightarrow> string"

definition validate_stream_base :: "(event_message \<Rightarrow> event_error) \<Rightarrow> string \<Rightarrow> event_error + unit" where
  "validate_stream_base kind stream_base =
     (if stream_base = [] \<or> CHR '':'' \<in> set stream_base
      then Inl (kind (Message (''invalid stream_base: '' @ stream_base @ ''. Must not be empty or contain :'')))
      else Inr ())"

definition stream_key_for_shard :: "tenant_id \<Rightarrow> string \<Rightarrow> u64 \<Rightarrow> string" where
  "stream_key_for_shard t stream_base shard = tenant_str t @ '':'' @ stream_base @ '':'' @ dec_of_nat (unat shard)"

subsection \<open>Producer\<close>

definition MIN_STREAM_MAXLEN :: nat where
  "MIN_STREAM_MAXLEN = 100"

definition validate_stream_maxlen :: "nat option \<Rightarrow> event_error + unit" where
  "validate_stream_maxlen stream_maxlen =
     (case stream_maxlen of
        Some value \<Rightarrow>
          if value < MIN_STREAM_MAXLEN
          then Inl (Producer (Message (''invalid stream_maxlen: '' @ dec_of_nat value @ ''. Must be >= '' @ dec_of_nat MIN_STREAM_MAXLEN)))
          else Inr ()
      | None \<Rightarrow> Inr ())"

definition publish :: "('r, 'p) stream_env \<Rightarrow> nat option \<Rightarrow> string \<Rightarrow> 'p event_envelope \<Rightarrow> 'r \<Rightarrow> 'r \<times> (event_error + string)" where
  "publish E stream_maxlen stream_base event r =
     (case validate_stream_base Producer stream_base of
        Inl e \<Rightarrow> (r, Inl e)
      | Inr _ \<Rightarrow>
          (let shard = om_shard (st_xxh64 E) (st_uuid_str E) (ev_order_mode event) (ev_tenant_id event);
               stream_key = stream_key_for_shard (ev_tenant_id event) stream_base shard
           in case st_to_json E event of
                Inl e \<Rightarrow> (r, Inl (Serialization e))
              | Inr payload_json \<Rightarrow>
                  (case xadd (st_redis E) stream_key stream_maxlen payload_json r of
                     (r', Inl e) \<Rightarrow> (r', Inl (Producer (Message (''failed to xadd: '' @ re_text e))))
                   | (r', Inr i) \<Rightarrow> (r', Inr i))))"

subsection \<open>Consumer\<close>

record consumer_config =
  cc_block_timeout :: rust_duration
  cc_nogroup_recovery_start_id :: string

record 'r consumer =
  cs_next_poll_start_shard :: usize
  cs_ensured_groups :: "string list"
  cs_redis :: 'r

type_synonym ('r, 'a) consuming = "'r consumer \<Rightarrow> 'r consumer \<times> (event_error + 'a)"

definition cbind :: "('r, 'a) consuming \<Rightarrow> ('a \<Rightarrow> ('r, 'b) consuming) \<Rightarrow> ('r, 'b) consuming" where
  "cbind m f s = (case m s of (s', Inl e) \<Rightarrow> (s', Inl e) | (s', Inr x) \<Rightarrow> f x s')"

definition creturn :: "event_error + 'a \<Rightarrow> ('r, 'a) consuming" where
  "creturn x s = (s, x)"

definition on_redis :: "('r \<Rightarrow> 'r \<times> 'a) \<Rightarrow> 'r consumer \<Rightarrow> 'r consumer \<times> 'a" where
  "on_redis f s = (case f (cs_redis s) of (r, x) \<Rightarrow> (s\<lparr>cs_redis := r\<rparr>, x))"

definition validate_block_timeout :: "rust_duration \<Rightarrow> event_error + unit" where
  "validate_block_timeout block_timeout =
     (if duration_is_zero block_timeout
      then Inl (Consumer (Message ''block_timeout must be greater than zero to avoid indefinite blocking''))
      else Inr ())"

definition new_with_config :: "rust_duration \<Rightarrow> string option \<Rightarrow> event_error + consumer_config" where
  "new_with_config block_timeout start =
     (case validate_block_timeout block_timeout of
        Inl e \<Rightarrow> Inl e
      | Inr _ \<Rightarrow> Inr \<lparr>cc_block_timeout = block_timeout, cc_nogroup_recovery_start_id = (case start of None \<Rightarrow> ''0'' | Some x \<Rightarrow> x)\<rparr>)"

definition stream_keys_for_tenant :: "tenant_id \<Rightarrow> string \<Rightarrow> string list" where
  "stream_keys_for_tenant t stream_base = map (\<lambda>shard. stream_key_for_shard t stream_base (of_nat shard)) [0..<unat SHARD_COUNT]"

definition stream_keys_for_tenant_ordered :: "tenant_id \<Rightarrow> string \<Rightarrow> nat \<Rightarrow> string list" where
  "stream_keys_for_tenant_ordered t stream_base start_shard =
     map (\<lambda>offset. stream_key_for_shard t stream_base (of_nat ((start_shard + offset) mod unat SHARD_COUNT))) [0..<unat SHARD_COUNT]"

definition decode_stream_entry :: "('r, 'p) stream_env \<Rightarrow> string \<Rightarrow> stream_entry \<Rightarrow> event_error + 'p delivery" where
  "decode_stream_entry E key x =
     (case se_data x of
        None \<Rightarrow> Inl (Consumer (Message (''stream entry '' @ se_id x @ '' on '' @ key @ '' missing data field'')))
      | Some data \<Rightarrow>
          (case st_from_json E data of
             Inl e \<Rightarrow> Inl (Serialization e)
           | Inr event \<Rightarrow>
               (case validate_stream_key key (ev_tenant_id event) of
                  Inl e \<Rightarrow> Inl e
                | Inr _ \<Rightarrow> Inr \<lparr>delivery_id = se_id x, stream_key = key, dl_event = event\<rparr>)))"

fun decode_entries :: "('r, 'p) stream_env \<Rightarrow> string \<Rightarrow> stream_entry list \<Rightarrow> event_error + 'p delivery list" where
  "decode_entries E key [] = Inr []"
| "decode_entries E key (x # xs) =
     (case decode_stream_entry E key x of
        Inl e \<Rightarrow> Inl e
      | Inr d \<Rightarrow> map_sum id ((#) d) (decode_entries E key xs))"

fun decode_stream_read :: "('r, 'p) stream_env \<Rightarrow> (string \<times> stream_entry list) list \<Rightarrow> event_error + 'p delivery list" where
  "decode_stream_read E [] = Inr []"
| "decode_stream_read E ((key, xs) # reply) =
     (case decode_entries E key xs of
        Inl e \<Rightarrow> Inl e
      | Inr ds \<Rightarrow> map_sum id ((@) ds) (decode_stream_read E reply))"

definition build_read_options :: "string \<Rightarrow> string \<Rightarrow> nat \<Rightarrow> rust_duration option \<Rightarrow> bool \<Rightarrow> read_options" where
  "build_read_options consumer_group consumer_name max_count block_timeout noack =
     \<lparr>xo_group = consumer_group, xo_consumer = consumer_name, xo_count = max_count, xo_noack = noack,
      xo_block = (case block_timeout of
                    Some timeout \<Rightarrow> Some (min (as_millis timeout) (2 ^ 64 - 1))
                  | None \<Rightarrow> None)\<rparr>"

definition validate_retry_policy :: "retry_policy \<Rightarrow> event_error + unit" where
  "validate_retry_policy p =
     (case p of
        Immediate \<Rightarrow> Inr ()
      | BackoffUntil t \<Rightarrow>
          Inl (Consumer (Message ''RetryPolicy::BackoffUntil is not supported by RedisConsumer without a delayed retry queue'')))"

definition handle_ack_result :: "int \<Rightarrow> string \<Rightarrow> string \<Rightarrow> event_error + unit" where
  "handle_ack_result acked key i =
     (if acked < 0
      then Inl (Consumer (Message (''failed to acknowledge stream entry '' @ i @ '' on '' @ key
             @ '': Redis reported a negative acknowledgement count'')))
      else Inr ())"

definition consumer_group_cache_key :: "tenant_id \<Rightarrow> string \<Rightarrow> string \<Rightarrow> string" where
  "consumer_group_cache_key t stream_base grp = tenant_str t @ '':'' @ stream_base @ '':cache:cg:'' @ grp"

fun create_groups :: "('r, 'p) stream_env \<Rightarrow> string \<Rightarrow> string \<Rightarrow> string list \<Rightarrow> ('r, unit) consuming" where
  "create_groups E grp start_id [] s = (s, Inr ())"
| "create_groups E grp start_id (key # keys) s =
     (case on_redis (xgroup_create_mkstream (st_redis E) key grp start_id) s of
        (s', Inl e) \<Rightarrow>
          if re_code e = Some ''BUSYGROUP'' then create_groups E grp start_id keys s'
          else (s', Inl (Consumer (Message (''failed to create consumer group for stream '' @ key @ '': '' @ re_text e))))
      | (s', Inr _) \<Rightarrow> create_groups E grp start_id keys s')"

definition ensure_consumer_groups :: "('r, 'p) stream_env \<Rightarrow> tenant_id \<Rightarrow> string \<Rightarrow> string \<Rightarrow> string \<Rightarrow> ('r, unit) consuming" where
  "ensure_consumer_groups E t stream_base grp start_id = create_groups E grp start_id (stream_keys_for_tenant t stream_base)"

definition ensure_consumer_groups_cached :: "('r, 'p) stream_env \<Rightarrow> consumer_config \<Rightarrow> tenant_id \<Rightarrow> string \<Rightarrow> string \<Rightarrow> ('r, unit) consuming" where
  "ensure_consumer_groups_cached E C t stream_base grp s =
     (let cache_key = consumer_group_cache_key t stream_base grp
      in if cache_key \<in> set (cs_ensured_groups s) then (s, Inr ())
         else cbind (ensure_consumer_groups E t stream_base grp (cc_nogroup_recovery_start_id C))
                (\<lambda>_ s. (s\<lparr>cs_ensured_groups := cache_key # cs_ensured_groups s\<rparr>, Inr ())) s)"

text \<open>The command, and once more after a missing group was created.\<close>

definition recover_nogroup_and_retry :: "('r, 'p) stream_env \<Rightarrow> consumer_config \<Rightarrow> tenant_id \<Rightarrow> string \<Rightarrow> string
    \<Rightarrow> ('r \<Rightarrow> 'r \<times> (redis_error + 'a)) \<Rightarrow> ('r, redis_error + 'a) consuming" where
  "recover_nogroup_and_retry E C t stream_base grp command s =
     (case on_redis command s of
        (s', Inl e) \<Rightarrow>
          if re_code e = Some ''NOGROUP''
          then cbind (ensure_consumer_groups_cached E C t stream_base grp)
                 (\<lambda>_ s. case on_redis command s of (s', r) \<Rightarrow> (s', Inr r))
                 (s'\<lparr>cs_ensured_groups := removeAll (consumer_group_cache_key t stream_base grp) (cs_ensured_groups s')\<rparr>)
          else (s', Inr (Inl e))
      | (s', Inr x) \<Rightarrow> (s', Inr (Inr x)))"

definition consumer_failure :: "string \<Rightarrow> redis_error + 'a \<Rightarrow> event_error + 'a" where
  "consumer_failure what = map_sum (\<lambda>e. Consumer (Message (what @ re_text e))) id"

definition read_shard :: "('r, 'p) stream_env \<Rightarrow> consumer_config \<Rightarrow> tenant_id \<Rightarrow> string \<Rightarrow> string \<Rightarrow> string \<Rightarrow> nat \<Rightarrow> rust_duration option \<Rightarrow> string
    \<Rightarrow> ('r, (string \<times> stream_entry list) list) consuming" where
  "read_shard E C t stream_base grp name n block key =
     cbind (recover_nogroup_and_retry E C t stream_base grp (xreadgroup (st_redis E) key (build_read_options grp name n block False)))
       (\<lambda>reply. creturn (consumer_failure ''failed to read stream group entries: '' reply))"

fun scan_shards :: "('r, 'p) stream_env \<Rightarrow> consumer_config \<Rightarrow> tenant_id \<Rightarrow> string \<Rightarrow> string \<Rightarrow> string \<Rightarrow> nat
    \<Rightarrow> string list \<Rightarrow> 'p delivery list \<Rightarrow> ('r, 'p delivery list) consuming" where
  "scan_shards E C t stream_base grp name max_count [] deliveries s = (s, Inr deliveries)"
| "scan_shards E C t stream_base grp name max_count (key # keys) deliveries s =
     (if max_count \<le> length deliveries then (s, Inr deliveries)
      else cbind (read_shard E C t stream_base grp name (max_count - length deliveries) None key)
             (\<lambda>reply. cbind (creturn (decode_stream_read E reply))
             (\<lambda>ds. scan_shards E C t stream_base grp name max_count keys (deliveries @ ds))) s)"

definition start_shard :: "'r consumer \<Rightarrow> nat" where
  "start_shard s = unat (cs_next_poll_start_shard s) mod unat SHARD_COUNT"

definition poll_once :: "('r, 'p) stream_env \<Rightarrow> consumer_config \<Rightarrow> tenant_id \<Rightarrow> string \<Rightarrow> string \<Rightarrow> string \<Rightarrow> nat \<Rightarrow> ('r, 'p delivery list) consuming" where
  "poll_once E C t stream_base grp name max_count s =
     (let keys = stream_keys_for_tenant_ordered t stream_base (start_shard s)
      in cbind (scan_shards E C t stream_base grp name max_count keys [])
           (\<lambda>deliveries.
              if deliveries \<noteq> [] then creturn (Inr (take max_count deliveries))
              else cbind (read_shard E C t stream_base grp name 1 (Some (cc_block_timeout C)) (hd keys))
                     (\<lambda>reply. if reply = [] then creturn (Inr []) else creturn (decode_stream_read E reply)))
           (s\<lparr>cs_next_poll_start_shard := cs_next_poll_start_shard s + 1\<rparr>))"

definition poll :: "('r, 'p) stream_env \<Rightarrow> consumer_config \<Rightarrow> tenant_id \<Rightarrow> string \<Rightarrow> string \<Rightarrow> string \<Rightarrow> nat \<Rightarrow> ('r, 'p delivery list) consuming" where
  "poll E C t stream_base grp name max_count =
     cbind (creturn (validate_stream_base Consumer stream_base)) (\<lambda>_.
     if max_count = 0 then creturn (Inr [])
     else cbind (ensure_consumer_groups_cached E C t stream_base grp)
            (\<lambda>_. poll_once E C t stream_base grp name max_count))"

definition ack :: "('r, 'p) stream_env \<Rightarrow> tenant_id \<Rightarrow> string \<Rightarrow> string \<Rightarrow> string \<Rightarrow> ('r, unit) consuming" where
  "ack E t key grp i =
     cbind (creturn (validate_stream_key key t)) (\<lambda>_ s.
       (case on_redis (xack (st_redis E) key grp i) s of
          (s', Inr acked) \<Rightarrow> (s', handle_ack_result acked key i)
        | (s', Inl e) \<Rightarrow>
            if re_code e = Some ''NOGROUP''
            then (s', Inl (Consumer (Message (''failed to acknowledge stream entry '' @ i @ '' on '' @ key @ '' for group '' @ grp
                    @ '': consumer group does not exist''))))
            else (s', Inl (Consumer (Message (''failed to acknowledge stream entry: '' @ re_text e))))))"

definition nack :: "tenant_id \<Rightarrow> string \<Rightarrow> retry_policy \<Rightarrow> ('r, unit) consuming" where
  "nack t key policy = cbind (creturn (validate_stream_key key t)) (\<lambda>_. creturn (validate_retry_policy policy))"

definition claim_batch :: "('r, 'p) stream_env \<Rightarrow> consumer_config \<Rightarrow> tenant_id \<Rightarrow> string \<Rightarrow> string \<Rightarrow> string \<Rightarrow> u64 \<Rightarrow> nat \<Rightarrow> string \<Rightarrow> string
    \<Rightarrow> ('r, stream_entry list \<times> string) consuming" where
  "claim_batch E C t stream_base grp name min_idle_ms remaining key cursor =
     cbind (recover_nogroup_and_retry E C t stream_base grp
             (xautoclaim (st_redis E) key grp name min_idle_ms cursor (min remaining 100)))
       (\<lambda>reply. creturn (consumer_failure ''failed to claim pending entries: '' reply))"

partial_function (option) claim_shard :: "('r, 'p) stream_env \<Rightarrow> consumer_config \<Rightarrow> tenant_id \<Rightarrow> string \<Rightarrow> string \<Rightarrow> string \<Rightarrow> u64 \<Rightarrow> nat
    \<Rightarrow> string \<Rightarrow> string \<Rightarrow> 'p delivery list \<Rightarrow> 'r consumer \<Rightarrow> ('r consumer \<times> (event_error + 'p delivery list)) option" where
  "claim_shard E C t stream_base grp name min_idle_ms max_count key cursor claimed s =
     (if max_count \<le> length claimed then Some (s, Inr claimed)
      else (case claim_batch E C t stream_base grp name min_idle_ms (max_count - length claimed) key cursor s of
              (s', Inl e) \<Rightarrow> Some (s', Inl e)
            | (s', Inr (entries, next_cursor)) \<Rightarrow>
                if entries = []
                then (if next_cursor = ''0-0'' then Some (s', Inr claimed)
                      else claim_shard E C t stream_base grp name min_idle_ms max_count key next_cursor claimed s')
                else (case decode_entries E key entries of
                        Inl e \<Rightarrow> Some (s', Inl e)
                      | Inr ds \<Rightarrow>
                          if next_cursor = ''0-0'' then Some (s', Inr (claimed @ ds))
                          else claim_shard E C t stream_base grp name min_idle_ms max_count key next_cursor (claimed @ ds) s')))"

declare claim_shard.simps [code]

fun claim_shards :: "('r, 'p) stream_env \<Rightarrow> consumer_config \<Rightarrow> tenant_id \<Rightarrow> string \<Rightarrow> string \<Rightarrow> string \<Rightarrow> u64 \<Rightarrow> nat
    \<Rightarrow> string list \<Rightarrow> 'p delivery list \<Rightarrow> 'r consumer \<Rightarrow> ('r consumer \<times> (event_error + 'p delivery list)) option" where
  "claim_shards E C t stream_base grp name min_idle_ms max_count [] claimed s = Some (s, Inr claimed)"
| "claim_shards E C t stream_base grp name min_idle_ms max_count (key # keys) claimed s =
     (if max_count \<le> length claimed then Some (s, Inr claimed)
      else (case claim_shard E C t stream_base grp name min_idle_ms max_count key ''0-0'' claimed s of
              None \<Rightarrow> None
            | Some (s', Inl e) \<Rightarrow> Some (s', Inl e)
            | Some (s', Inr claimed') \<Rightarrow> claim_shards E C t stream_base grp name min_idle_ms max_count keys claimed' s'))"

definition claim_pending_once :: "('r, 'p) stream_env \<Rightarrow> consumer_config \<Rightarrow> tenant_id \<Rightarrow> string \<Rightarrow> string \<Rightarrow> string \<Rightarrow> u64 \<Rightarrow> nat
    \<Rightarrow> 'r consumer \<Rightarrow> ('r consumer \<times> (event_error + 'p delivery list)) option" where
  "claim_pending_once E C t stream_base grp name min_idle_ms max_count s =
     claim_shards E C t stream_base grp name min_idle_ms max_count (stream_keys_for_tenant_ordered t stream_base (start_shard s)) []
       (s\<lparr>cs_next_poll_start_shard := cs_next_poll_start_shard s + 1\<rparr>)"

definition claim_pending :: "('r, 'p) stream_env \<Rightarrow> consumer_config \<Rightarrow> tenant_id \<Rightarrow> string \<Rightarrow> string \<Rightarrow> string \<Rightarrow> u64 \<Rightarrow> nat
    \<Rightarrow> 'r consumer \<Rightarrow> ('r consumer \<times> (event_error + 'p delivery list)) option" where
  "claim_pending E C t stream_base grp name min_idle_ms max_count s =
     (case validate_stream_base Consumer stream_base of
        Inl e \<Rightarrow> Some (s, Inl e)
      | Inr _ \<Rightarrow>
          if max_count = 0 then Some (s, Inr [])
          else (case ensure_consumer_groups_cached E C t stream_base grp s of
                  (s', Inl e) \<Rightarrow> Some (s', Inl e)
                | (s', Inr _) \<Rightarrow> claim_pending_once E C t stream_base grp name min_idle_ms max_count s'))"

section \<open>What the code relies on of Redis\<close>

text \<open>
  A view of the state: the entries of a stream that a group has not acknowledged, whether a
  group exists, the entries not yet given to any of the group's consumers, in the order of
  the stream, and the identifiers of its pending entries, which were given to one.
\<close>

record 'r streams_view =
  sv_owed :: "'r \<Rightarrow> string \<Rightarrow> string \<Rightarrow> stream_entry set"
  sv_group :: "'r \<Rightarrow> string \<Rightarrow> string \<Rightarrow> bool"
  sv_new :: "'r \<Rightarrow> string \<Rightarrow> string \<Rightarrow> stream_entry list"
  sv_pending :: "'r \<Rightarrow> string \<Rightarrow> string \<Rightarrow> string set"

text \<open>The order of the identifiers \<open>ms-seq\<close>: by time, then by sequence number.\<close>

definition id_value :: "string \<Rightarrow> nat \<times> nat" where
  "id_value i = (case split_char CHR ''-'' i of [ms, sq] \<Rightarrow> (digits_value ms, digits_value sq) | _ \<Rightarrow> (0, 0))"

definition id_before :: "string \<Rightarrow> string \<Rightarrow> bool" where
  "id_before i j \<longleftrightarrow> fst (id_value i) < fst (id_value j) \<or> fst (id_value i) = fst (id_value j) \<and> snd (id_value i) < snd (id_value j)"

definition no_loss :: "'r streams_view \<Rightarrow> 'r \<Rightarrow> 'r \<Rightarrow> bool" where
  "no_loss V r r' \<longleftrightarrow> (\<forall>key grp. sv_owed V r key grp \<subseteq> sv_owed V r' key grp \<and> (sv_group V r key grp \<longrightarrow> sv_group V r' key grp))"

definition no_more_pending :: "'r streams_view \<Rightarrow> 'r \<Rightarrow> 'r \<Rightarrow> bool" where
  "no_more_pending V r r' \<longleftrightarrow> (\<forall>key grp. sv_pending V r' key grp \<subseteq> sv_pending V r key grp)"

text \<open>
  \<open>XADD\<close> without trimming loses nothing and gives the entry to every existing group;
  \<open>XGROUP CREATE\<close> makes a group without pending entries and keeps the others; \<open>XREADGROUP\<close>
  and \<open>XAUTOCLAIM\<close> give at most \<open>count\<close> entries of the stream that the group still owes an
  acknowledgement, and keep them so unless the reader waives acknowledgements; \<open>XAUTOCLAIM\<close>
  scans the finitely many pending entries from the cursor on in the order of their
  identifiers, and a cursor other than \<open>0-0\<close> that it answers stands after an entry it has
  scanned; \<open>XACK\<close> ends only the named entry. While a claim runs, no other client makes
  entries pending.
\<close>

definition xadd_ok :: "'r redis_streams \<Rightarrow> 'r streams_view \<Rightarrow> bool" where
  "xadd_ok S V \<longleftrightarrow> (\<forall>key p r r' x. xadd S key None p r = (r', x) \<longrightarrow> no_loss V r r'
     \<and> (\<forall>i grp. x = Inr i \<longrightarrow> sv_group V r key grp \<longrightarrow> \<lparr>se_id = i, se_data = Some p\<rparr> \<in> sv_owed V r' key grp))"

definition xgroup_create_ok :: "'r redis_streams \<Rightarrow> 'r streams_view \<Rightarrow> bool" where
  "xgroup_create_ok S V \<longleftrightarrow> (\<forall>key grp start r r' x. xgroup_create_mkstream S key grp start r = (r', x) \<longrightarrow>
     no_loss V r r' \<and> no_more_pending V r r'
     \<and> (x = Inr () \<or> (\<exists>e. x = Inl e \<and> re_code e = Some ''BUSYGROUP'') \<longrightarrow> sv_group V r' key grp))"

definition xreadgroup_ok :: "'r redis_streams \<Rightarrow> 'r streams_view \<Rightarrow> bool" where
  "xreadgroup_ok S V \<longleftrightarrow> (\<forall>key opts r r' x. xreadgroup S key opts r = (r', x) \<longrightarrow> \<not> xo_noack opts \<longrightarrow> no_loss V r r'
     \<and> (\<forall>reply. x = Inr reply \<longrightarrow> 0 < xo_count opts \<longrightarrow> length (concat (map snd reply)) \<le> xo_count opts
          \<and> (\<forall>(k, xs) \<in> set reply. k = key \<and> set xs \<subseteq> sv_owed V r' key (xo_group opts))))"

definition xautoclaim_ok :: "'r redis_streams \<Rightarrow> 'r streams_view \<Rightarrow> bool" where
  "xautoclaim_ok S V \<longleftrightarrow> (\<forall>r key grp. finite (sv_pending V r key grp))
     \<and> (\<forall>key grp name idle cursor n r r' x. xautoclaim S key grp name idle cursor n r = (r', x) \<longrightarrow>
     no_loss V r r' \<and> no_more_pending V r r'
     \<and> (\<forall>xs nxt. x = Inr (xs, nxt) \<longrightarrow> length xs \<le> n \<and> set xs \<subseteq> sv_owed V r' key grp
          \<and> (nxt \<noteq> ''0-0'' \<longrightarrow> (\<exists>i \<in> sv_pending V r key grp. \<not> id_before i cursor \<and> id_before i nxt))))"

definition xack_ok :: "'r redis_streams \<Rightarrow> 'r streams_view \<Rightarrow> bool" where
  "xack_ok S V \<longleftrightarrow> (\<forall>key grp i r r' x k g. xack S key grp i r = (r', x) \<longrightarrow>
     sv_owed V r k g - {y. k = key \<and> g = grp \<and> se_id y = i} \<subseteq> sv_owed V r' k g)"

definition streams_ok :: "'r redis_streams \<Rightarrow> 'r streams_view \<Rightarrow> bool" where
  "streams_ok S V \<longleftrightarrow> xadd_ok S V \<and> xgroup_create_ok S V \<and> xreadgroup_ok S V \<and> xautoclaim_ok S V \<and> xack_ok S V"

text \<open>
  While one consumer alone reads for a group, and its streams are neither trimmed nor cut:
  what is not yet given to it only grows, by what producers add at the end, except that
  \<open>XREADGROUP\<close> takes its answer, the first \<open>count\<close> of these entries, from the front.
\<close>

definition new_grows_at :: "'r streams_view \<Rightarrow> string \<Rightarrow> string \<Rightarrow> 'r \<Rightarrow> 'r \<Rightarrow> bool" where
  "new_grows_at V grp key r r' \<longleftrightarrow>
     (sv_group V r key grp \<longrightarrow> sv_group V r' key grp \<and> prefix (sv_new V r key grp) (sv_new V r' key grp))"

definition sole_consumer :: "'r redis_streams \<Rightarrow> 'r streams_view \<Rightarrow> string \<Rightarrow> bool" where
  "sole_consumer S V grp \<longleftrightarrow>
     (\<forall>key p r r' i. xadd S key None p r = (r', Inr i) \<longrightarrow> sv_group V r key grp \<longrightarrow>
        sv_group V r' key grp \<and> \<lparr>se_id = i, se_data = Some p\<rparr> \<in> set (sv_new V r' key grp))
   \<and> (\<forall>key start r k. new_grows_at V grp k r (fst (xgroup_create_mkstream S key grp start r)))
   \<and> (\<forall>key opts r r' x. xreadgroup S key opts r = (r', x) \<longrightarrow> xo_group opts = grp \<longrightarrow> \<not> xo_noack opts \<longrightarrow> 0 < xo_count opts \<longrightarrow>
        (\<forall>k. k \<noteq> key \<longrightarrow> new_grows_at V grp k r r')
        \<and> (\<forall>e. x = Inl e \<longrightarrow> re_code e = Some ''NOGROUP'' \<longrightarrow> \<not> sv_group V r key grp)
        \<and> (\<forall>reply. x = Inr reply \<longrightarrow> sv_group V r key grp \<longrightarrow> sv_group V r' key grp
             \<and> (\<exists>entries. prefix (sv_new V r key grp) entries \<and> concat (map snd reply) = take (xo_count opts) entries
                  \<and> prefix (drop (xo_count opts) entries) (sv_new V r' key grp))))"

section \<open>Lemmas\<close>

subsection \<open>What every path keeps\<close>

text \<open>\<open>always R m\<close>: whatever \<open>m\<close> answers, Redis moves along \<open>R\<close>.\<close>

definition always :: "('r \<Rightarrow> 'r \<Rightarrow> bool) \<Rightarrow> ('r consumer \<Rightarrow> 'r consumer \<times> 'a) \<Rightarrow> bool" where
  "always R m \<longleftrightarrow> (\<forall>s. R (cs_redis s) (cs_redis (fst (m s))))"

definition preorder_rel :: "('r \<Rightarrow> 'r \<Rightarrow> bool) \<Rightarrow> bool" where
  "preorder_rel R \<longleftrightarrow> (\<forall>r. R r r) \<and> (\<forall>a b c. R a b \<longrightarrow> R b c \<longrightarrow> R a c)"

lemma no_loss_pre: "preorder_rel (no_loss V)"
  unfolding preorder_rel_def no_loss_def by blast

lemma no_more_pending_pre: "preorder_rel (no_more_pending V)"
  unfolding preorder_rel_def no_more_pending_def by blast

lemma pre_refl: "preorder_rel R \<Longrightarrow> R r r" and pre_trans: "preorder_rel R \<Longrightarrow> R a b \<Longrightarrow> R b c \<Longrightarrow> R a c"
  unfolding preorder_rel_def by blast+

lemma alwaysD: "always R m \<Longrightarrow> m s = (s', x) \<Longrightarrow> R (cs_redis s) (cs_redis s')"
  unfolding always_def by (metis fst_conv)

lemma always_bind:
  assumes "preorder_rel R" "always R m" "\<And>x. always R (f x)"
  shows "always R (cbind m f)"
  unfolding always_def
proof
  fix s
  obtain s1 q where q: "m s = (s1, q)" by (cases "m s")
  show "R (cs_redis s) (cs_redis (fst (cbind m f s)))"
  proof (cases q)
    case (Inl e)
    then show ?thesis using alwaysD [OF assms(2) q] q by (simp add: cbind_def)
  next
    case (Inr x)
    obtain s2 y where y: "f x s1 = (s2, y)" by (cases "f x s1")
    then have "cbind m f s = (s2, y)" using q Inr by (simp add: cbind_def)
    then show ?thesis using pre_trans [OF assms(1) alwaysD [OF assms(2) q] alwaysD [OF assms(3) y]] by simp
  qed
qed

lemma always_return: "preorder_rel R \<Longrightarrow> always R (creturn x)"
  by (simp add: always_def creturn_def pre_refl)

lemma always_on_redis: "(\<And>r. R r (fst (f r))) \<Longrightarrow> always R (on_redis f)"
  unfolding always_def on_redis_def by (auto split: prod.split) (metis fst_conv)

lemma always_groups:
  assumes pre: "preorder_rel R" and "\<And>key r. R r (fst (xgroup_create_mkstream (st_redis E) key grp start r))"
  shows "always R (create_groups E grp start keys)"
proof (induction keys)
  case Nil
  then show ?case by (simp add: always_def pre_refl [OF pre])
next
  case (Cons key keys)
  show ?case unfolding always_def
  proof
    fix s
    obtain s1 q where q: "on_redis (xgroup_create_mkstream (st_redis E) key grp start) s = (s1, q)"
      by (cases "on_redis (xgroup_create_mkstream (st_redis E) key grp start) s")
    have "always R (on_redis (xgroup_create_mkstream (st_redis E) key grp start))" by (rule always_on_redis) (rule assms(2))
    from alwaysD [OF this q] have 1: "R (cs_redis s) (cs_redis s1)" .
    moreover have "R (cs_redis s1) (cs_redis (fst (create_groups E grp start keys s1)))" using Cons.IH by (simp add: always_def)
    ultimately have "R (cs_redis s) (cs_redis (fst (create_groups E grp start keys s1)))" by (rule pre_trans [OF pre])
    with 1 show "R (cs_redis s) (cs_redis (fst (create_groups E grp start (key # keys) s)))"
      using q by (auto split: sum.split)
  qed
qed

lemma always_ensure:
  assumes pre: "preorder_rel R" and "\<And>key start r. R r (fst (xgroup_create_mkstream (st_redis E) key grp start r))"
  shows "always R (ensure_consumer_groups_cached E C t stream_base grp)"
proof -
  have "always R (\<lambda>s. (s\<lparr>cs_ensured_groups := k # cs_ensured_groups s\<rparr>, Inr ()))" for k
    by (simp add: always_def pre_refl [OF pre])
  then have "always R (cbind (ensure_consumer_groups E t stream_base grp (cc_nogroup_recovery_start_id C))
      (\<lambda>_ s. (s\<lparr>cs_ensured_groups := k # cs_ensured_groups s\<rparr>, Inr ())))" for k
    unfolding ensure_consumer_groups_def by (intro always_bind always_groups assms)
  then show ?thesis
    by (simp add: always_def ensure_consumer_groups_cached_def Let_def pre_refl [OF pre])
qed

lemma always_recover:
  assumes pre: "preorder_rel R" and grp: "\<And>key start r. R r (fst (xgroup_create_mkstream (st_redis E) key grp start r))"
    and cmd: "\<And>r. R r (fst (command r))"
  shows "always R (recover_nogroup_and_retry E C t stream_base grp command)"
  unfolding always_def
proof
  fix s
  obtain s1 q where q: "on_redis command s = (s1, q)" by (cases "on_redis command s")
  have c: "always R (on_redis command)" by (rule always_on_redis) (rule cmd)
  have 1: "R (cs_redis s) (cs_redis s1)" by (rule alwaysD [OF c q])
  let ?s1 = "s1\<lparr>cs_ensured_groups := removeAll (consumer_group_cache_key t stream_base grp) (cs_ensured_groups s1)\<rparr>"
  have "always R (\<lambda>s. case on_redis command s of (s', r) \<Rightarrow> (s', (Inr r :: event_error + redis_error + _)))"
    using c by (auto simp: always_def split: prod.split) (metis fst_conv)
  then have "always R (cbind (ensure_consumer_groups_cached E C t stream_base grp)
      (\<lambda>_ s. case on_redis command s of (s', r) \<Rightarrow> (s', Inr r)))"
    by (intro always_bind always_ensure pre grp)
  then have "R (cs_redis ?s1) (cs_redis (fst (cbind (ensure_consumer_groups_cached E C t stream_base grp)
      (\<lambda>_ s. case on_redis command s of (s', r) \<Rightarrow> (s', Inr r)) ?s1)))"
    unfolding always_def by blast
  from pre_trans [OF pre 1] this 1 show "R (cs_redis s) (cs_redis (fst (recover_nogroup_and_retry E C t stream_base grp command s)))"
    using q by (auto simp: recover_nogroup_and_retry_def split: sum.split)
qed

lemma recover_Inr:
  assumes pre: "preorder_rel R" and grp: "\<And>key start r. R r (fst (xgroup_create_mkstream (st_redis E) key grp start r))"
    and cmd: "\<And>r. R r (fst (command r))" and run: "recover_nogroup_and_retry E C t stream_base grp command s = (s', Inr (Inr x))"
  obtains r where "R (cs_redis s) r" "command r = (cs_redis s', Inr x)"
proof -
  have on: "on_redis command s1 = (s2, y) \<Longrightarrow> command (cs_redis s1) = (cs_redis s2, y)" for s1 s2 y
    by (auto simp: on_redis_def split: prod.splits)
  obtain s1 q where q: "on_redis command s = (s1, q)" by (cases "on_redis command s")
  show thesis
  proof (cases q)
    case (Inr y)
    then show thesis using run q on that [of "cs_redis s"] pre_refl [OF pre] by (auto simp: recover_nogroup_and_retry_def)
  next
    case (Inl e)
    let ?s1 = "s1\<lparr>cs_ensured_groups := removeAll (consumer_group_cache_key t stream_base grp) (cs_ensured_groups s1)\<rparr>"
    obtain s2 where s2: "ensure_consumer_groups_cached E C t stream_base grp ?s1 = (s2, Inr ())" "on_redis command s2 = (s', Inr x)"
      using run q Inl
      by (auto simp: recover_nogroup_and_retry_def cbind_def split: if_splits prod.splits sum.splits)
    have "R (cs_redis s) (cs_redis s1)" using alwaysD [OF always_on_redis q] cmd by blast
    moreover have "R (cs_redis s1) (cs_redis s2)" using alwaysD [OF always_ensure [OF pre grp] s2(1)] by simp
    ultimately show thesis using that [OF pre_trans [OF pre]] on [OF s2(2)] by blast
  qed
qed

subsection \<open>What is delivered\<close>

text \<open>The group still owes an acknowledgement of the delivery's entry, and the delivery is that entry, decoded.\<close>

definition owed_delivery :: "('r, 'p) stream_env \<Rightarrow> 'r streams_view \<Rightarrow> string \<Rightarrow> 'r \<Rightarrow> 'p delivery \<Rightarrow> bool" where
  "owed_delivery E V grp r d \<longleftrightarrow> (\<exists>x \<in> sv_owed V r (stream_key d) grp. decode_stream_entry E (stream_key d) x = Inr d)"

lemma owed_delivery_mono: "owed_delivery E V grp r d \<Longrightarrow> no_loss V r r' \<Longrightarrow> owed_delivery E V grp r' d"
  unfolding owed_delivery_def no_loss_def by blast

lemma decode_stream_entry_Inr:
  "decode_stream_entry E key x = Inr d \<Longrightarrow> stream_key d = key \<and> delivery_id d = se_id x \<and> validate_stream_key key (ev_tenant_id (dl_event d)) = Inr ()
    \<and> (\<exists>data. se_data x = Some data \<and> st_from_json E data = Inr (dl_event d))"
  by (auto simp: decode_stream_entry_def split: option.splits sum.splits)

lemma decode_entries_Inr:
  assumes "decode_entries E key xs = Inr ds" and "set xs \<subseteq> sv_owed V r key grp"
  shows "length ds = length xs \<and> (\<forall>d \<in> set ds. stream_key d = key \<and> owed_delivery E V grp r d)"
  using assms
proof (induction xs arbitrary: ds)
  case (Cons x xs)
  then obtain d ds' where d: "decode_stream_entry E key x = Inr d" "decode_entries E key xs = Inr ds'" "ds = d # ds'"
    by (auto simp: map_sum_eq_Inr split: sum.splits)
  moreover have "stream_key d = key" using decode_stream_entry_Inr [OF d(1)] by blast
  moreover have "owed_delivery E V grp r d" using d(1) Cons.prems(2) calculation(4) by (auto simp: owed_delivery_def)
  ultimately show ?case using Cons by auto
qed simp

lemma decode_stream_read_Inr:
  assumes "decode_stream_read E reply = Inr ds" and "\<forall>(k, xs) \<in> set reply. k = key \<and> set xs \<subseteq> sv_owed V r key grp"
  shows "length ds = length (concat (map snd reply)) \<and> (\<forall>d \<in> set ds. stream_key d = key \<and> owed_delivery E V grp r d)"
  using assms
proof (induction reply arbitrary: ds)
  case (Cons kxs reply)
  obtain k xs where k: "kxs = (k, xs)" by (cases kxs)
  then obtain ds1 ds2 where d: "decode_entries E key xs = Inr ds1" "decode_stream_read E reply = Inr ds2" "ds = ds1 @ ds2"
    using Cons.prems by (auto simp: map_sum_eq_Inr split: sum.splits)
  have "length ds1 = length xs \<and> (\<forall>d \<in> set ds1. stream_key d = key \<and> owed_delivery E V grp r d)"
    using decode_entries_Inr [OF d(1)] Cons.prems(2) k by auto
  moreover have "length ds2 = length (concat (map snd reply)) \<and> (\<forall>d \<in> set ds2. stream_key d = key \<and> owed_delivery E V grp r d)"
    using Cons.IH [OF d(2)] Cons.prems(2) by auto
  ultimately show ?case using d(3) k by auto
qed simp

lemma streams_okD:
  assumes "streams_ok S V"
  shows "no_loss V r (fst (xgroup_create_mkstream S key grp start r))" "no_more_pending V r (fst (xgroup_create_mkstream S key grp start r))"
    "no_loss V r (fst (xreadgroup S key (build_read_options grp name n block False) r))"
    "no_loss V r (fst (xautoclaim S key grp name idle cursor n r))" "no_more_pending V r (fst (xautoclaim S key grp name idle cursor n r))"
    "no_loss V r (fst (xadd S key None p r))"
    "xreadgroup S key (build_read_options grp name n block False) r = (r', Inr reply) \<Longrightarrow> 0 < n \<Longrightarrow> length (concat (map snd reply)) \<le> n
      \<and> (\<forall>(k, xs) \<in> set reply. k = key \<and> set xs \<subseteq> sv_owed V r' key grp)"
    "xautoclaim S key grp name idle cursor n r = (r', Inr (xs, nxt)) \<Longrightarrow> length xs \<le> n \<and> set xs \<subseteq> sv_owed V r' key grp
      \<and> (nxt \<noteq> ''0-0'' \<longrightarrow> (\<exists>i \<in> sv_pending V r key grp. \<not> id_before i cursor \<and> id_before i nxt))"
    "finite (sv_pending V r key grp)"
proof -
  have group: "xgroup_create_mkstream S key grp start r = (r', x) \<Longrightarrow> no_loss V r r' \<and> no_more_pending V r r'" for r' x
    using assms unfolding streams_ok_def xgroup_create_ok_def by simp
  have read: "xreadgroup S key (build_read_options grp name n block False) r = (r', x) \<Longrightarrow> no_loss V r r'" for r' x
    using assms unfolding streams_ok_def xreadgroup_ok_def by (fastforce simp: build_read_options_def)
  have claim: "xautoclaim S key grp name idle cursor n r = (r', x) \<Longrightarrow> no_loss V r r' \<and> no_more_pending V r r'" for r' x
    using assms unfolding streams_ok_def xautoclaim_ok_def by simp
  have add: "xadd S key None p r = (r', x) \<Longrightarrow> no_loss V r r'" for r' x
    using assms unfolding streams_ok_def xadd_ok_def by simp
  show "no_loss V r (fst (xgroup_create_mkstream S key grp start r))" "no_more_pending V r (fst (xgroup_create_mkstream S key grp start r))"
    using group [OF surjective_pairing] by blast+
  show "no_loss V r (fst (xreadgroup S key (build_read_options grp name n block False) r))" by (rule read [OF surjective_pairing])
  show "no_loss V r (fst (xautoclaim S key grp name idle cursor n r))" "no_more_pending V r (fst (xautoclaim S key grp name idle cursor n r))"
    using claim [OF surjective_pairing] by blast+
  show "no_loss V r (fst (xadd S key None p r))" by (rule add [OF surjective_pairing])
  show "xreadgroup S key (build_read_options grp name n block False) r = (r', Inr reply) \<Longrightarrow> 0 < n \<Longrightarrow> length (concat (map snd reply)) \<le> n
      \<and> (\<forall>(k, xs) \<in> set reply. k = key \<and> set xs \<subseteq> sv_owed V r' key grp)"
    using assms unfolding streams_ok_def xreadgroup_ok_def by (fastforce simp: build_read_options_def)
  show "xautoclaim S key grp name idle cursor n r = (r', Inr (xs, nxt)) \<Longrightarrow> length xs \<le> n \<and> set xs \<subseteq> sv_owed V r' key grp
      \<and> (nxt \<noteq> ''0-0'' \<longrightarrow> (\<exists>i \<in> sv_pending V r key grp. \<not> id_before i cursor \<and> id_before i nxt))"
    using assms unfolding streams_ok_def xautoclaim_ok_def by simp
  show "finite (sv_pending V r key grp)" using assms unfolding streams_ok_def xautoclaim_ok_def by simp
qed

subsection \<open>Polling\<close>

lemma cbind_Inr: "cbind m f s = (s', Inr y) \<longleftrightarrow> (\<exists>s1 x. m s = (s1, Inr x) \<and> f x s1 = (s', Inr y))"
  by (auto simp: cbind_def split: prod.splits sum.splits)

lemma creturn_Inr: "creturn r s = (s', Inr x) \<longleftrightarrow> r = Inr x \<and> s' = s"
  by (auto simp: creturn_def)

lemma consumer_failure_Inr: "consumer_failure what r = Inr x \<longleftrightarrow> r = Inr x"
  by (auto simp: consumer_failure_def map_sum_eq_Inr)

lemma always_if: "always R a \<Longrightarrow> always R b \<Longrightarrow> always R (if c then a else b)"
  by simp

lemma ensure_keeps:
  assumes ok: "streams_ok (st_redis E) V"
  shows "always (no_loss V) (ensure_consumer_groups_cached E C t stream_base grp)"
  "always (no_more_pending V) (ensure_consumer_groups_cached E C t stream_base grp)"
  by (intro always_ensure no_loss_pre no_more_pending_pre streams_okD [OF ok])+

lemma read_shard_keeps:
  assumes ok: "streams_ok (st_redis E) V"
  shows "always (no_loss V) (read_shard E C t stream_base grp name n block key)"
  unfolding read_shard_def
  by (intro always_bind always_recover always_return no_loss_pre streams_okD [OF ok])

lemma read_shard_Inr:
  assumes ok: "streams_ok (st_redis E) V" and "read_shard E C t stream_base grp name n block key s = (s', Inr reply)" and "0 < n"
  shows "length (concat (map snd reply)) \<le> n \<and> (\<forall>(k, xs) \<in> set reply. k = key \<and> set xs \<subseteq> sv_owed V (cs_redis s') key grp)"
proof -
  have "recover_nogroup_and_retry E C t stream_base grp (xreadgroup (st_redis E) key (build_read_options grp name n block False)) s
      = (s', Inr (Inr reply))"
    using assms(2) by (auto simp: read_shard_def cbind_Inr creturn_Inr consumer_failure_Inr)
  then obtain r where "xreadgroup (st_redis E) key (build_read_options grp name n block False) r = (cs_redis s', Inr reply)"
    by (rule recover_Inr [OF no_loss_pre streams_okD(1) [OF ok] streams_okD(3) [OF ok]])
  then show ?thesis by (rule streams_okD(7) [OF ok _ assms(3)])
qed

lemma scan_shards_keeps:
  assumes ok: "streams_ok (st_redis E) V"
  shows "always (no_loss V) (scan_shards E C t stream_base grp name max_count keys ds)"
proof (induction keys arbitrary: ds)
  case Nil
  then show ?case by (simp add: always_def pre_refl [OF no_loss_pre])
next
  case (Cons key keys)
  have "always (no_loss V) (cbind (read_shard E C t stream_base grp name (max_count - length ds) None key)
      (\<lambda>reply. cbind (creturn (decode_stream_read E reply))
      (\<lambda>ds'. scan_shards E C t stream_base grp name max_count keys (ds @ ds'))))"
    by (intro always_bind no_loss_pre read_shard_keeps [OF ok] always_return Cons.IH)
  then show ?case by (simp add: always_def pre_refl [OF no_loss_pre])
qed

lemma scan_shards_Inr:
  assumes ok: "streams_ok (st_redis E) V" and "scan_shards E C t stream_base grp name max_count keys ds s = (s', Inr ds')"
    and "length ds \<le> max_count" "\<forall>d \<in> set ds. stream_key d \<in> K \<and> owed_delivery E V grp (cs_redis s) d" "set keys \<subseteq> K"
  shows "length ds' \<le> max_count \<and> (\<forall>d \<in> set ds'. stream_key d \<in> K \<and> owed_delivery E V grp (cs_redis s') d)"
  using assms(2-)
proof (induction keys arbitrary: ds s)
  case (Cons key keys)
  show ?case
  proof (cases "max_count \<le> length ds")
    case True
    then show ?thesis using Cons.prems by simp
  next
    case False
    then obtain s1 reply new where r: "read_shard E C t stream_base grp name (max_count - length ds) None key s = (s1, Inr reply)"
        "decode_stream_read E reply = Inr new" "scan_shards E C t stream_base grp name max_count keys (ds @ new) s1 = (s', Inr ds')"
      using Cons.prems(1) by (auto simp: cbind_Inr creturn_Inr)
    have new: "length new \<le> max_count - length ds" "\<forall>d \<in> set new. stream_key d = key \<and> owed_delivery E V grp (cs_redis s1) d"
      using read_shard_Inr [OF ok r(1)] decode_stream_read_Inr [OF r(2)] False by auto
    have "\<forall>d \<in> set (ds @ new). stream_key d \<in> K \<and> owed_delivery E V grp (cs_redis s1) d"
      using new(2) Cons.prems(3,4) owed_delivery_mono alwaysD [OF read_shard_keeps [OF ok] r(1)] by fastforce
    then show ?thesis using Cons.IH [OF r(3)] new(1) Cons.prems(2,4) by auto
  qed
qed simp

lemma poll_once_keeps:
  assumes ok: "streams_ok (st_redis E) V"
  shows "always (no_loss V) (poll_once E C t stream_base grp name max_count)"
  unfolding always_def
proof
  fix s :: "'a consumer"
  let ?keys = "stream_keys_for_tenant_ordered t stream_base (start_shard s)"
  have "always (no_loss V) (cbind (scan_shards E C t stream_base grp name max_count ?keys [])
         (\<lambda>deliveries.
            if deliveries \<noteq> [] then creturn (Inr (take max_count deliveries))
            else cbind (read_shard E C t stream_base grp name 1 (Some (cc_block_timeout C)) (hd ?keys))
                   (\<lambda>reply. if reply = [] then creturn (Inr []) else creturn (decode_stream_read E reply))))"
    by (intro always_bind always_if always_return no_loss_pre scan_shards_keeps [OF ok] read_shard_keeps [OF ok])
  then show "no_loss V (cs_redis s) (cs_redis (fst (poll_once E C t stream_base grp name max_count s)))"
    unfolding always_def poll_once_def Let_def
    by (rule allE [where x = "s\<lparr>cs_next_poll_start_shard := cs_next_poll_start_shard s + 1\<rparr>"]) simp
qed

lemma poll_keeps:
  assumes ok: "streams_ok (st_redis E) V"
  shows "always (no_loss V) (poll E C t stream_base grp name max_count)"
  unfolding poll_def
  by (intro always_bind always_if always_return no_loss_pre ensure_keeps [OF ok] poll_once_keeps [OF ok])

lemma poll_once_Inr:
  assumes ok: "streams_ok (st_redis E) V" and "poll_once E C t stream_base grp name max_count s = (s', Inr ds)" and "0 < max_count"
  shows "length ds \<le> max_count \<and> (\<forall>d \<in> set ds. stream_key d \<in> set (stream_keys_for_tenant_ordered t stream_base (start_shard s))
    \<and> owed_delivery E V grp (cs_redis s') d)"
proof -
  let ?keys = "stream_keys_for_tenant_ordered t stream_base (start_shard s)"
  let ?s = "s\<lparr>cs_next_poll_start_shard := cs_next_poll_start_shard s + 1\<rparr>"
  obtain s1 found where scan: "scan_shards E C t stream_base grp name max_count ?keys [] ?s = (s1, Inr found)"
      and rest: "if found \<noteq> [] then ds = take max_count found \<and> s' = s1
        else \<exists>reply. read_shard E C t stream_base grp name 1 (Some (cc_block_timeout C)) (hd ?keys) s1 = (s', Inr reply)
          \<and> (if reply = [] then ds = [] else decode_stream_read E reply = Inr ds)"
    using assms(2) by (auto simp: poll_once_def Let_def cbind_Inr creturn_Inr split: if_splits)
  have found: "length found \<le> max_count" "\<forall>d \<in> set found. stream_key d \<in> set ?keys \<and> owed_delivery E V grp (cs_redis s1) d"
    using scan_shards_Inr [OF ok scan, of "set ?keys"] by auto
  show ?thesis
  proof (cases "found = []")
    case False
    then show ?thesis using rest found by simp
  next
    case True
    then obtain reply where reply: "read_shard E C t stream_base grp name 1 (Some (cc_block_timeout C)) (hd ?keys) s1 = (s', Inr reply)"
        "if reply = [] then ds = [] else decode_stream_read E reply = Inr ds"
      using rest by auto
    have "hd ?keys \<in> set ?keys" by (rule hd_in_set) (simp add: stream_keys_for_tenant_ordered_def SHARD_COUNT_def)
    then show ?thesis
      using reply read_shard_Inr [OF ok reply(1) zero_less_one] decode_stream_read_Inr assms(3) by (fastforce split: if_splits)
  qed
qed

subsection \<open>Claiming\<close>

lemma claim_batch_keeps:
  assumes ok: "streams_ok (st_redis E) V"
  shows "always (no_loss V) (claim_batch E C t stream_base grp name idle n key cursor)"
  unfolding claim_batch_def
  by (intro always_bind always_recover always_return no_loss_pre streams_okD [OF ok])

text \<open>The entries a scan has before it, from its cursor on.\<close>

definition scan_left :: "'r streams_view \<Rightarrow> 'r \<Rightarrow> string \<Rightarrow> string \<Rightarrow> string \<Rightarrow> nat" where
  "scan_left V r key grp cursor = card {i \<in> sv_pending V r key grp. \<not> id_before i cursor}"

lemma id_order: "\<not> id_before i cursor \<Longrightarrow> id_before i nxt \<Longrightarrow> \<not> id_before j nxt \<Longrightarrow> \<not> id_before j cursor"
  by (auto simp: id_before_def)

lemma scan_left_drops:
  assumes "finite (sv_pending V r key grp)" and "sv_pending V r' key grp \<subseteq> sv_pending V r key grp"
    and "i \<in> sv_pending V r key grp" "\<not> id_before i cursor" "id_before i nxt"
  shows "scan_left V r' key grp nxt < scan_left V r key grp cursor"
  unfolding scan_left_def
proof (rule psubset_card_mono)
  show "finite {i \<in> sv_pending V r key grp. \<not> id_before i cursor}" using assms(1) by simp
  show "{i \<in> sv_pending V r' key grp. \<not> id_before i nxt} \<subset> {i \<in> sv_pending V r key grp. \<not> id_before i cursor}"
    using id_order [OF assms(4,5)] assms(2-5) by blast
qed

lemma claim_batch_Inr:
  assumes ok: "streams_ok (st_redis E) V" and "claim_batch E C t stream_base grp name idle n key cursor s = (s', Inr (xs, nxt))"
  shows "length xs \<le> n \<and> set xs \<subseteq> sv_owed V (cs_redis s') key grp
    \<and> (nxt \<noteq> ''0-0'' \<longrightarrow> scan_left V (cs_redis s') key grp nxt < scan_left V (cs_redis s) key grp cursor)"
proof -
  have "recover_nogroup_and_retry E C t stream_base grp (xautoclaim (st_redis E) key grp name idle cursor (min n 100)) s = (s', Inr (Inr (xs, nxt)))"
    using assms(2) by (auto simp: claim_batch_def cbind_Inr creturn_Inr consumer_failure_Inr)
  then obtain r where r: "no_more_pending V (cs_redis s) r"
      "xautoclaim (st_redis E) key grp name idle cursor (min n 100) r = (cs_redis s', Inr (xs, nxt))"
    by (rule recover_Inr [OF no_more_pending_pre streams_okD(2) [OF ok] streams_okD(5) [OF ok]])
  have "no_more_pending V r (cs_redis s')" using streams_okD(5) [OF ok, of r key grp name idle cursor "min n 100"] r(2) by simp
  then have "sv_pending V r key grp \<subseteq> sv_pending V (cs_redis s) key grp" "sv_pending V (cs_redis s') key grp \<subseteq> sv_pending V (cs_redis s) key grp"
    using r(1) unfolding no_more_pending_def by blast+
  then show ?thesis using streams_okD(8) [OF ok r(2)] scan_left_drops [OF streams_okD(9) [OF ok]] by (metis min.bounded_iff subsetD)
qed

text \<open>What a claim promises of its result: it is there, nothing is lost, and the deliveries are owed and not too many.\<close>

definition claims :: "('r, 'p) stream_env \<Rightarrow> 'r streams_view \<Rightarrow> string \<Rightarrow> nat \<Rightarrow> string set \<Rightarrow> 'r consumer
    \<Rightarrow> ('r consumer \<times> (event_error + 'p delivery list)) option \<Rightarrow> bool" where
  "claims E V grp max_count K s res \<longleftrightarrow>
     (\<exists>s' r. res = Some (s', r) \<and> no_loss V (cs_redis s) (cs_redis s')
        \<and> (\<forall>ds. r = Inr ds \<longrightarrow> length ds \<le> max_count \<and> (\<forall>d \<in> set ds. stream_key d \<in> K \<and> owed_delivery E V grp (cs_redis s') d)))"

lemma no_loss_refl [simp]: "no_loss V r r"
  by (simp add: no_loss_def)

lemma claims_Some_iff [simp]:
  "claims E V grp n K s (Some (s', Inl e)) \<longleftrightarrow> no_loss V (cs_redis s) (cs_redis s')"
  "claims E V grp n K s (Some (s', Inr ds)) \<longleftrightarrow> no_loss V (cs_redis s) (cs_redis s') \<and> length ds \<le> n
     \<and> (\<forall>d \<in> set ds. stream_key d \<in> K \<and> owed_delivery E V grp (cs_redis s') d)"
  by (auto simp: claims_def)

lemma claims_trans:
  assumes "no_loss V (cs_redis s) (cs_redis s1)" and "claims E V grp n K s1 res"
  shows "claims E V grp n K s res"
proof -
  obtain s' r where r: "res = Some (s', r)" "no_loss V (cs_redis s1) (cs_redis s')"
      "\<forall>ds. r = Inr ds \<longrightarrow> length ds \<le> n \<and> (\<forall>d \<in> set ds. stream_key d \<in> K \<and> owed_delivery E V grp (cs_redis s') d)"
    using assms(2) by (auto simp: claims_def)
  then show ?thesis using pre_trans [OF no_loss_pre assms(1) r(2)] by (cases r) auto
qed

lemma claim_shard_claims:
  assumes ok: "streams_ok (st_redis E) V" and "length claimed \<le> max_count"
    and "\<forall>d \<in> set claimed. stream_key d \<in> K \<and> owed_delivery E V grp (cs_redis s) d" and "key \<in> K"
  shows "claims E V grp max_count K s (claim_shard E C t stream_base grp name idle max_count key cursor claimed s)"
  using assms(2,3)
proof (induction "scan_left V (cs_redis s) key grp cursor" arbitrary: s cursor claimed rule: less_induct)
  case less
  let ?go = "claim_shard E C t stream_base grp name idle max_count key"
  show ?case
  proof (cases "max_count \<le> length claimed")
    case True
    then have "?go cursor claimed s = Some (s, Inr claimed)" by (subst claim_shard.simps) simp
    then show ?thesis using less.prems by simp
  next
    case False
    obtain s1 q where q: "claim_batch E C t stream_base grp name idle (max_count - length claimed) key cursor s = (s1, q)"
      by (cases "claim_batch E C t stream_base grp name idle (max_count - length claimed) key cursor s")
    have 1: "no_loss V (cs_redis s) (cs_redis s1)" by (rule alwaysD [OF claim_batch_keeps [OF ok] q])
    show ?thesis
    proof (cases q)
      case (Inl e)
      then have "?go cursor claimed s = Some (s1, Inl e)" using False q by (subst claim_shard.simps) simp
      then show ?thesis using 1 by simp
    next
      case (Inr reply)
      obtain xs nxt where reply: "reply = (xs, nxt)" by (cases reply)
      note b = claim_batch_Inr [OF ok q [unfolded Inr reply]]
      have old: "\<forall>d \<in> set claimed. stream_key d \<in> K \<and> owed_delivery E V grp (cs_redis s1) d"
        using less.prems(2) owed_delivery_mono [OF _ 1] by blast
      show ?thesis
      proof (cases "decode_entries E key xs")
        case (Inl e)
        then have "xs \<noteq> []" by auto
        then have "?go cursor claimed s = Some (s1, Inl e)" using False q Inr reply Inl by (subst claim_shard.simps) simp
        then show ?thesis using 1 by simp
      next
        case ds: (Inr ds)
        then have len: "length (claimed @ ds) \<le> max_count" and good: "\<forall>d \<in> set (claimed @ ds). stream_key d \<in> K \<and> owed_delivery E V grp (cs_redis s1) d"
          using decode_entries_Inr [OF ds, of V "cs_redis s1" grp] b old False assms(4) by auto
        have step: "?go cursor claimed s = (if nxt = ''0-0'' then Some (s1, Inr (claimed @ ds)) else ?go nxt (claimed @ ds) s1)"
          using False q Inr reply ds by (subst claim_shard.simps) (auto simp: split: if_splits)
        show ?thesis
        proof (cases "nxt = ''0-0''")
          case True
          then show ?thesis using step 1 len good by simp
        next
          case False
          then have "scan_left V (cs_redis s1) key grp nxt < scan_left V (cs_redis s) key grp cursor" using b by simp
          from claims_trans [OF 1 less.hyps [OF this len good]] step False show ?thesis by simp
        qed
      qed
    qed
  qed
qed

lemma claim_shards_claims:
  assumes ok: "streams_ok (st_redis E) V" and "length claimed \<le> max_count"
    and "\<forall>d \<in> set claimed. stream_key d \<in> K \<and> owed_delivery E V grp (cs_redis s) d" and "set keys \<subseteq> K"
  shows "claims E V grp max_count K s (claim_shards E C t stream_base grp name idle max_count keys claimed s)"
  using assms(2-)
proof (induction keys arbitrary: s claimed)
  case Nil
  then show ?case by simp
next
  case (Cons key keys)
  show ?case
  proof (cases "max_count \<le> length claimed")
    case True
    then show ?thesis using Cons.prems by simp
  next
    case False
    obtain s1 r where c: "claim_shard E C t stream_base grp name idle max_count key ''0-0'' claimed s = Some (s1, r)"
        "no_loss V (cs_redis s) (cs_redis s1)"
        "\<forall>ds. r = Inr ds \<longrightarrow> length ds \<le> max_count \<and> (\<forall>d \<in> set ds. stream_key d \<in> K \<and> owed_delivery E V grp (cs_redis s1) d)"
      using claim_shard_claims [OF ok Cons.prems(1,2), of key C t stream_base name idle "''0-0''"] Cons.prems(3)
      by (auto simp: claims_def)
    show ?thesis
    proof (cases r)
      case (Inl e)
      then show ?thesis using c False by simp
    next
      case (Inr ds)
      then have "claims E V grp max_count K s1 (claim_shards E C t stream_base grp name idle max_count keys ds s1)"
        using Cons.IH c(3) Cons.prems(3) by simp
      then show ?thesis using claims_trans [OF c(2)] c(1) Inr False by simp
    qed
  qed
qed

lemma claim_pending_claims:
  assumes ok: "streams_ok (st_redis E) V"
  shows "\<exists>n. claims E V grp max_count (set (stream_keys_for_tenant_ordered t stream_base n)) s
    (claim_pending E C t stream_base grp name idle max_count s)"
proof (cases "validate_stream_base Consumer stream_base = Inr () \<and> max_count \<noteq> 0")
  case False
  then show ?thesis
    by (auto simp: claim_pending_def split: sum.split)
next
  case True
  obtain s1 q where q: "ensure_consumer_groups_cached E C t stream_base grp s = (s1, q)"
    by (cases "ensure_consumer_groups_cached E C t stream_base grp s")
  have 1: "no_loss V (cs_redis s) (cs_redis s1)" by (rule alwaysD [OF ensure_keeps(1) [OF ok] q])
  show ?thesis
  proof (cases q)
    case (Inl e)
    then show ?thesis using True q 1 by (simp add: claim_pending_def)
  next
    case (Inr u)
    let ?keys = "stream_keys_for_tenant_ordered t stream_base (start_shard s1)"
    have "claims E V grp max_count (set ?keys) s1 (claim_pending_once E C t stream_base grp name idle max_count s1)"
      unfolding claim_pending_once_def
      by (rule claims_trans [OF _ claim_shards_claims [OF ok]]) simp_all
    from claims_trans [OF 1 this] show ?thesis using True q Inr by (auto simp: claim_pending_def)
  qed
qed

subsection \<open>Shards and tenants\<close>

lemma shards_rotate:
  "stream_keys_for_tenant_ordered t stream_base n = rotate n (stream_keys_for_tenant t stream_base)"
proof -
  have "map (\<lambda>i. (n + i) mod 64) [0..<64] = rotate n [0..<64]"
    by (rule nth_equalityI) (simp_all add: nth_rotate)
  then have "map (f \<circ> (\<lambda>i. (n + i) mod 64)) [0..<64] = rotate n (map f [0..<64])" for f :: "nat \<Rightarrow> string"
    by (simp only: rotate_map map_map [symmetric])
  then show ?thesis by (simp add: stream_keys_for_tenant_ordered_def stream_keys_for_tenant_def SHARD_COUNT_def comp_def)
qed

lemma stream_key_inj:
  "stream_key_for_shard t stream_base a = stream_key_for_shard t stream_base b \<Longrightarrow> a = b"
  by (auto simp: stream_key_for_shard_def) (metis digits_value_dec word_unat_eq_iff)

lemma stream_keys_distinct: "distinct (stream_keys_for_tenant t stream_base)"
proof -
  have "inj_on (\<lambda>i. stream_key_for_shard t stream_base (of_nat i)) {0..<64}"
  proof (rule inj_onI)
    fix i j :: nat assume *: "i \<in> {0..<64}" "j \<in> {0..<64}"
      "stream_key_for_shard t stream_base (of_nat i) = stream_key_for_shard t stream_base (of_nat j)"
    from stream_key_inj [OF *(3)] have "unat (of_nat i :: u64) = unat (of_nat j :: u64)" by simp
    with * show "i = j" by (simp add: unat_of_nat take_bit_nat_eq_self)
  qed
  then show ?thesis by (simp add: stream_keys_for_tenant_def SHARD_COUNT_def distinct_map)
qed

lemma producer_key_polled:
  "stream_key_for_shard t stream_base (om_shard xxh64 ustr m t) \<in> set (stream_keys_for_tenant_ordered t stream_base n)"
proof -
  let ?s = "om_shard xxh64 ustr m t"
  have "unat ?s < 64"
    by (simp add: om_shard_def tsk_shard_def calculate_shard_def SHARD_COUNT_def unat_mod)
  then have "?s = of_nat (unat ?s)" "unat ?s \<in> set [0..<unat SHARD_COUNT]" by (simp_all add: SHARD_COUNT_def)
  then have "stream_key_for_shard t stream_base ?s \<in> (\<lambda>i. stream_key_for_shard t stream_base (of_nat i)) ` set [0..<unat SHARD_COUNT]"
    by (intro image_eqI) simp_all
  then show ?thesis unfolding shards_rotate by (simp only: stream_keys_for_tenant_def set_rotate set_map)
qed

lemma shard_key_prefix:
  "key \<in> set (stream_keys_for_tenant_ordered t stream_base n) \<Longrightarrow> starts_with key (tenant_str t @ '':'')"
  by (auto simp: shards_rotate stream_keys_for_tenant_def stream_key_for_shard_def starts_with_def)

lemma own_delivery:
  assumes "owed_delivery E V grp r d" and "stream_key d \<in> set (stream_keys_for_tenant_ordered t stream_base n)"
    and "is_valid_principal (tenant_str t)" and "\<forall>p ev. st_from_json E p = Inr ev \<longrightarrow> is_valid_principal (tenant_str (ev_tenant_id ev))"
  shows "ev_tenant_id (dl_event d) = t"
proof -
  let ?t = "ev_tenant_id (dl_event d)"
  obtain x where x: "decode_stream_entry E (stream_key d) x = Inr d" using assms(1) by (auto simp: owed_delivery_def)
  then have v: "validate_stream_key (stream_key d) ?t = Inr ()" "is_valid_principal (tenant_str ?t)"
    using decode_stream_entry_Inr [OF x] assms(4) by auto
  then have "starts_with (stream_key d) (tenant_str ?t @ [CHR '':''])" by (simp add: validate_stream_key_def split: if_splits)
  moreover have "starts_with (stream_key d) (tenant_str t @ [CHR '':''])" using shard_key_prefix [OF assms(2)] by simp
  ultimately have "tenant_str ?t = tenant_str t" using colon_key.prefix_unique assms(3) v(2) by blast
  then show ?thesis by (simp add: tenant_id.expand)
qed

lemma poll_Inr:
  assumes ok: "streams_ok (st_redis E) V" and "poll E C t stream_base grp name max_count s = (s', Inr ds)"
  shows "length ds \<le> max_count \<and> (\<exists>n. \<forall>d \<in> set ds. stream_key d \<in> set (stream_keys_for_tenant_ordered t stream_base n)
    \<and> owed_delivery E V grp (cs_redis s') d)"
proof (cases "max_count = 0")
  case True
  then show ?thesis using assms(2) by (auto simp: poll_def cbind_Inr creturn_Inr)
next
  case False
  then obtain s1 where "poll_once E C t stream_base grp name max_count s1 = (s', Inr ds)"
    using assms(2) by (auto simp: poll_def cbind_Inr creturn_Inr)
  from poll_once_Inr [OF ok this] False show ?thesis by auto
qed

lemma create_groups_Inr:
  assumes ok: "streams_ok (st_redis E) V" and "create_groups E grp start keys s = (s', Inr ())" and "key \<in> set keys"
  shows "sv_group V (cs_redis s') key grp"
  using assms(2,3)
proof (induction keys arbitrary: s)
  case (Cons k keys)
  obtain s1 q where q: "on_redis (xgroup_create_mkstream (st_redis E) k grp start) s = (s1, q)"
    by (cases "on_redis (xgroup_create_mkstream (st_redis E) k grp start) s")
  then have rest: "create_groups E grp start keys s1 = (s', Inr ())" and q': "q = Inr () \<or> (\<exists>e. q = Inl e \<and> re_code e = Some ''BUSYGROUP'')"
    using Cons.prems(1) by (auto split: sum.splits if_splits)
  have "xgroup_create_mkstream (st_redis E) k grp start (cs_redis s) = (cs_redis s1, q)"
    using q by (auto simp: on_redis_def split: prod.splits)
  then have "sv_group V (cs_redis s1) k grp" using ok q' unfolding streams_ok_def xgroup_create_ok_def by blast
  moreover have "no_loss V (cs_redis s1) (cs_redis s')"
    by (rule alwaysD [OF always_groups [OF no_loss_pre streams_okD(1) [OF ok]] rest])
  ultimately have "sv_group V (cs_redis s') k grp" by (simp add: no_loss_def)
  then show ?case using Cons.IH [OF rest] Cons.prems(2) by auto
qed simp

subsection \<open>The batches of a claim\<close>

text \<open>
  \<open>claim_reaches s key keys cursor claimed s1\<close>: the claim that starts in state \<open>s\<close> has
  claimed the deliveries \<open>claimed\<close> when, in state \<open>s1\<close>, it stands at \<open>cursor\<close> of the shard
  \<open>key\<close>, with the shards \<open>keys\<close> still to visit. It follows the successful batches only.
\<close>

inductive claim_reaches :: "('r, 'p) stream_env \<Rightarrow> consumer_config \<Rightarrow> tenant_id \<Rightarrow> string \<Rightarrow> string \<Rightarrow> string \<Rightarrow> u64 \<Rightarrow> nat
    \<Rightarrow> 'r consumer \<Rightarrow> string \<Rightarrow> string list \<Rightarrow> string \<Rightarrow> 'p delivery list \<Rightarrow> 'r consumer \<Rightarrow> bool"
  for E C t stream_base grp name idle max_count s where
  first: "validate_stream_base Consumer stream_base = Inr () \<Longrightarrow> max_count \<noteq> 0
    \<Longrightarrow> ensure_consumer_groups_cached E C t stream_base grp s = (s1, Inr ())
    \<Longrightarrow> stream_keys_for_tenant_ordered t stream_base (start_shard s1) = key # keys
    \<Longrightarrow> claim_reaches E C t stream_base grp name idle max_count s key keys ''0-0'' []
          (s1\<lparr>cs_next_poll_start_shard := cs_next_poll_start_shard s1 + 1\<rparr>)"
| batch: "claim_reaches E C t stream_base grp name idle max_count s key keys cursor claimed s1 \<Longrightarrow> length claimed < max_count
    \<Longrightarrow> claim_batch E C t stream_base grp name idle (max_count - length claimed) key cursor s1 = (s2, Inr (xs, nxt))
    \<Longrightarrow> decode_entries E key xs = Inr ds \<Longrightarrow> nxt \<noteq> ''0-0''
    \<Longrightarrow> claim_reaches E C t stream_base grp name idle max_count s key keys nxt (claimed @ ds) s2"
| shard: "claim_reaches E C t stream_base grp name idle max_count s key (key' # keys) cursor claimed s1 \<Longrightarrow> length claimed < max_count
    \<Longrightarrow> claim_batch E C t stream_base grp name idle (max_count - length claimed) key cursor s1 = (s2, Inr (xs, ''0-0''))
    \<Longrightarrow> decode_entries E key xs = Inr ds
    \<Longrightarrow> claim_reaches E C t stream_base grp name idle max_count s key' keys ''0-0'' (claimed @ ds) s2"

definition claim_from :: "('r, 'p) stream_env \<Rightarrow> consumer_config \<Rightarrow> tenant_id \<Rightarrow> string \<Rightarrow> string \<Rightarrow> string \<Rightarrow> u64 \<Rightarrow> nat
    \<Rightarrow> string \<Rightarrow> string list \<Rightarrow> string \<Rightarrow> 'p delivery list \<Rightarrow> 'r consumer \<Rightarrow> ('r consumer \<times> (event_error + 'p delivery list)) option" where
  "claim_from E C t stream_base grp name idle max_count key keys cursor claimed s =
     (case claim_shard E C t stream_base grp name idle max_count key cursor claimed s of
        None \<Rightarrow> None
      | Some (s', Inl e) \<Rightarrow> Some (s', Inl e)
      | Some (s', Inr claimed') \<Rightarrow> claim_shards E C t stream_base grp name idle max_count keys claimed' s')"

lemma claim_shards_from:
  "claim_shards E C t stream_base grp name idle max_count (key # keys) claimed s
   = claim_from E C t stream_base grp name idle max_count key keys ''0-0'' claimed s"
proof (cases "max_count \<le> length claimed")
  case True
  then have "claim_shards E C t stream_base grp name idle max_count ks claimed s = Some (s, Inr claimed)" for ks
    by (cases ks) simp_all
  moreover have "claim_shard E C t stream_base grp name idle max_count key ''0-0'' claimed s = Some (s, Inr claimed)"
    using True by (subst claim_shard.simps) simp
  ultimately show ?thesis by (simp add: claim_from_def)
qed (simp add: claim_from_def)

lemma claim_shard_batch:
  assumes "length claimed < max_count"
    and "claim_batch E C t stream_base grp name idle (max_count - length claimed) key cursor s = (s', Inr (xs, nxt))"
    and "decode_entries E key xs = Inr ds"
  shows "claim_shard E C t stream_base grp name idle max_count key cursor claimed s
    = (if nxt = ''0-0'' then Some (s', Inr (claimed @ ds))
       else claim_shard E C t stream_base grp name idle max_count key nxt (claimed @ ds) s')"
  using assms by (subst claim_shard.simps) auto

lemma claim_reaches_from:
  assumes "claim_reaches E C t stream_base grp name idle max_count s key keys cursor claimed s1"
  shows "claim_pending E C t stream_base grp name idle max_count s = claim_from E C t stream_base grp name idle max_count key keys cursor claimed s1"
  using assms
proof induction
  case (first s1 key keys)
  then show ?case by (simp add: claim_pending_def claim_pending_once_def claim_shards_from del: claim_shards.simps)
next
  case (batch key keys cursor claimed s1 s2 xs nxt ds)
  then show ?case using claim_shard_batch [OF batch.hyps(2-4)] by (simp add: claim_from_def)
next
  case (shard key key' keys cursor claimed s1 s2 xs ds)
  then show ?case using claim_shard_batch [OF shard.hyps(2-4)] by (simp add: claim_from_def claim_shards_from del: claim_shards.simps)
qed

lemma decode_entries_undecodable: "x \<in> set xs \<Longrightarrow> decode_stream_entry E key x = Inl e \<Longrightarrow> \<exists>e'. decode_entries E key xs = Inl e'"
  by (induction xs) (auto split: sum.split)

subsection \<open>The way of an entry to its consumer\<close>

text \<open>The start shard moves by one per poll; the commands in between leave it alone.\<close>

definition keeps_start :: "('r consumer \<Rightarrow> 'r consumer \<times> 'a) \<Rightarrow> bool" where
  "keeps_start m \<longleftrightarrow> (\<forall>s. cs_next_poll_start_shard (fst (m s)) = cs_next_poll_start_shard s)"

lemma keeps_startD: "keeps_start m \<Longrightarrow> m s = (s', x) \<Longrightarrow> cs_next_poll_start_shard s' = cs_next_poll_start_shard s"
  unfolding keeps_start_def by (metis fst_conv)

lemma keeps_start_bind: "keeps_start m \<Longrightarrow> (\<And>x. keeps_start (f x)) \<Longrightarrow> keeps_start (cbind m f)"
  by (auto simp: keeps_start_def cbind_def split: prod.split sum.split) (metis fst_conv)+

lemma keeps_start_basic:
  "keeps_start (creturn x)" "keeps_start (on_redis f)" "keeps_start (\<lambda>s. (s\<lparr>cs_ensured_groups := k # cs_ensured_groups s\<rparr>, y))"
  by (auto simp: keeps_start_def creturn_def on_redis_def split: prod.split)

lemma keeps_start_groups: "keeps_start (create_groups E grp start keys)"
proof (induction keys)
  case (Cons key keys)
  have "keeps_start (on_redis (xgroup_create_mkstream (st_redis E) key grp start))" by (rule keeps_start_basic)
  then show ?case using Cons.IH by (auto simp: keeps_start_def split: prod.split sum.split) (metis fst_conv)+
qed (simp add: keeps_start_def)

lemma keeps_start_ensure: "keeps_start (ensure_consumer_groups_cached E C t stream_base grp)"
proof -
  have "keeps_start (cbind (ensure_consumer_groups E t stream_base grp (cc_nogroup_recovery_start_id C))
      (\<lambda>_ s. (s\<lparr>cs_ensured_groups := k # cs_ensured_groups s\<rparr>, Inr ())))" for k
    unfolding ensure_consumer_groups_def by (intro keeps_start_bind keeps_start_groups keeps_start_basic)
  then show ?thesis by (simp add: keeps_start_def ensure_consumer_groups_cached_def Let_def)
qed

lemma keeps_start_recover: "keeps_start (recover_nogroup_and_retry E C t stream_base grp command)"
proof -
  have c: "keeps_start (on_redis command)" by (rule keeps_start_basic)
  then have "keeps_start (\<lambda>s. case on_redis command s of (s', r) \<Rightarrow> (s', (Inr r :: event_error + redis_error + _)))"
    by (auto simp: keeps_start_def split: prod.split) (metis fst_conv)
  then have "keeps_start (cbind (ensure_consumer_groups_cached E C t stream_base grp)
      (\<lambda>_ s. case on_redis command s of (s', r) \<Rightarrow> (s', Inr r)))"
    by (intro keeps_start_bind keeps_start_ensure)
  then show ?thesis using c
    by (auto simp: keeps_start_def recover_nogroup_and_retry_def split: prod.split sum.split) (metis fst_conv)+
qed

lemma keeps_start_read: "keeps_start (read_shard E C t stream_base grp name n block key)"
  unfolding read_shard_def by (intro keeps_start_bind keeps_start_recover keeps_start_basic)

lemma keeps_start_scan: "keeps_start (scan_shards E C t stream_base grp name max_count keys ds)"
proof (induction keys arbitrary: ds)
  case (Cons key keys)
  have "keeps_start (cbind (read_shard E C t stream_base grp name (max_count - length ds) None key)
      (\<lambda>reply. cbind (creturn (decode_stream_read E reply))
      (\<lambda>ds'. scan_shards E C t stream_base grp name max_count keys (ds @ ds'))))"
    by (intro keeps_start_bind keeps_start_read keeps_start_basic Cons.IH)
  then show ?case by (simp add: keeps_start_def)
qed (simp add: keeps_start_def)

text \<open>An entry that the group's consumer has not been given, with at most \<open>p\<close> entries before it.\<close>

definition waiting :: "'r streams_view \<Rightarrow> string \<Rightarrow> string \<Rightarrow> stream_entry \<Rightarrow> nat \<Rightarrow> 'r \<Rightarrow> bool" where
  "waiting V grp key x p r \<longleftrightarrow> sv_group V r key grp \<and> (\<exists>xs ys. sv_new V r key grp = xs @ x # ys \<and> length xs \<le> p)"

lemma new_grows_pre: "preorder_rel (new_grows_at V grp key)"
  unfolding preorder_rel_def new_grows_at_def by (meson prefix_order.order_refl prefix_order.order_trans)

lemma waiting_grows: "waiting V grp key x p r \<Longrightarrow> new_grows_at V grp key r r' \<Longrightarrow> waiting V grp key x p r'"
  by (fastforce simp: waiting_def new_grows_at_def elim!: prefixE)

lemma sole_add:
  assumes "sole_consumer S V grp" and "xadd S key None p r = (r', Inr i)" "sv_group V r key grp"
  shows "sv_group V r' key grp \<and> \<lparr>se_id = i, se_data = Some p\<rparr> \<in> set (sv_new V r' key grp)"
  using assms(1) [unfolded sole_consumer_def, THEN conjunct1, THEN spec, THEN spec, THEN spec, THEN spec, THEN spec,
    THEN mp, OF assms(2), THEN mp, OF assms(3)] .

lemma sole_read:
  assumes "sole_consumer S V grp" and "xreadgroup S key opts r = (r', x)" "xo_group opts = grp" "\<not> xo_noack opts" "0 < xo_count opts"
  shows "(\<forall>k. k \<noteq> key \<longrightarrow> new_grows_at V grp k r r')
    \<and> (\<forall>e. x = Inl e \<longrightarrow> re_code e = Some ''NOGROUP'' \<longrightarrow> \<not> sv_group V r key grp)
    \<and> (\<forall>reply. x = Inr reply \<longrightarrow> sv_group V r key grp \<longrightarrow> sv_group V r' key grp
         \<and> (\<exists>entries. prefix (sv_new V r key grp) entries \<and> concat (map snd reply) = take (xo_count opts) entries
              \<and> prefix (drop (xo_count opts) entries) (sv_new V r' key grp)))"
  using assms(1) [unfolded sole_consumer_def, THEN conjunct2, THEN conjunct2, THEN spec, THEN spec, THEN spec, THEN spec, THEN spec,
    THEN mp, OF assms(2), THEN mp, OF assms(3), THEN mp, OF assms(4), THEN mp, OF assms(5)] .

lemma sole_consumerD:
  assumes "sole_consumer S V grp"
  shows "new_grows_at V grp k r (fst (xgroup_create_mkstream S key grp start r))"
    "0 < n \<Longrightarrow> k \<noteq> key \<Longrightarrow> new_grows_at V grp k r (fst (xreadgroup S key (build_read_options grp name n block False) r))"
    "0 < n \<Longrightarrow> xreadgroup S key (build_read_options grp name n block False) r = (r', Inl e) \<Longrightarrow> re_code e = Some ''NOGROUP'' \<Longrightarrow> \<not> sv_group V r key grp"
proof -
  show "new_grows_at V grp k r (fst (xgroup_create_mkstream S key grp start r))" using assms unfolding sole_consumer_def by blast
  let ?o = "build_read_options grp name n block False"
  have o: "xo_group ?o = grp" "\<not> xo_noack ?o" "xo_count ?o = n" by (simp_all add: build_read_options_def)
  have r: "xreadgroup S key ?o r = (r', x) \<Longrightarrow> 0 < n \<Longrightarrow> (\<forall>k. k \<noteq> key \<longrightarrow> new_grows_at V grp k r r')
      \<and> (\<forall>e. x = Inl e \<longrightarrow> re_code e = Some ''NOGROUP'' \<longrightarrow> \<not> sv_group V r key grp)" for r' x
    using sole_read [OF assms _ o(1,2), of key r r' x] unfolding o(3) by blast
  show "0 < n \<Longrightarrow> k \<noteq> key \<Longrightarrow> new_grows_at V grp k r (fst (xreadgroup S key ?o r))" using r [OF surjective_pairing] by blast
  show "0 < n \<Longrightarrow> xreadgroup S key ?o r = (r', Inl e) \<Longrightarrow> re_code e = Some ''NOGROUP'' \<Longrightarrow> \<not> sv_group V r key grp" using r by blast
qed

lemma read_waiting:
  assumes sole: "sole_consumer S V grp" and "0 < n" and "waiting V grp key x p r"
    and "xreadgroup S key (build_read_options grp name n block False) r = (r', Inr reply)"
  shows "x \<in> set (concat (map snd reply)) \<or> n \<le> p \<and> waiting V grp key x (p - n) r'"
proof -
  let ?o = "build_read_options grp name n block False"
  have o: "xo_group ?o = grp" "\<not> xo_noack ?o" "xo_count ?o = n" by (simp_all add: build_read_options_def)
  have g: "sv_group V r key grp" using assms(3) by (simp add: waiting_def)
  have "sv_group V r' key grp \<and> (\<exists>entries. prefix (sv_new V r key grp) entries \<and> concat (map snd reply) = take (xo_count ?o) entries
      \<and> prefix (drop (xo_count ?o) entries) (sv_new V r' key grp))"
    using sole_read [OF sole assms(4) o(1,2)] assms(2) g unfolding o(3) by blast
  then obtain entries where e: "sv_group V r' key grp" "prefix (sv_new V r key grp) entries" "concat (map snd reply) = take n entries"
      "prefix (drop n entries) (sv_new V r' key grp)"
    using o(3) by auto
  obtain xs ys where xs: "entries = xs @ x # ys" "length xs \<le> p"
    using assms(3) e(2) by (fastforce simp: waiting_def elim!: prefixE)
  show ?thesis
  proof (cases "length xs < n")
    case True
    then have "x \<in> set (take n entries)" using xs(1) by (simp add: take_Cons')
    then show ?thesis using e(3) by simp
  next
    case False
    then have "drop n entries = drop n xs @ x # ys" using xs(1) by simp
    then obtain zs where "sv_new V r' key grp = drop n xs @ x # zs" using e(4) by (auto elim!: prefixE)
    moreover have "length (drop n xs) \<le> p - n" "n \<le> p" using False xs(2) by simp_all
    ultimately show ?thesis using e(1) unfolding waiting_def by blast
  qed
qed

lemma read_shard_waiting:
  assumes sole: "sole_consumer (st_redis E) V grp" and "0 < n" and "waiting V grp key x p (cs_redis s)"
    and "read_shard E C t stream_base grp name n block k s = (s', Inr reply)"
  shows "(k = key \<and> x \<in> set (concat (map snd reply))) \<or> waiting V grp key x p (cs_redis s') \<and> (k = key \<longrightarrow> n \<le> p \<and> waiting V grp key x (p - n) (cs_redis s'))"
proof (cases "k = key")
  case False
  then have "always (new_grows_at V grp key) (read_shard E C t stream_base grp name n block k)"
    unfolding read_shard_def
    by (intro always_bind always_recover always_return new_grows_pre sole_consumerD [OF sole] assms(2)) simp
  from alwaysD [OF this assms(4)] show ?thesis using waiting_grows [OF assms(3)] False by blast
next
  case True
  let ?cmd = "xreadgroup (st_redis E) key (build_read_options grp name n block False)"
  obtain r q where q: "?cmd (cs_redis s) = (r, q)" by (cases "?cmd (cs_redis s)")
  have run: "recover_nogroup_and_retry E C t stream_base grp ?cmd s = (s', Inr (Inr reply))"
    using assms(4) True by (auto simp: read_shard_def cbind_Inr creturn_Inr consumer_failure_Inr)
  have "\<not> (q = Inl e \<and> re_code e = Some ''NOGROUP'')" for e
    using sole_consumerD(3) [OF sole assms(2)] q assms(3) by (auto simp: waiting_def)
  then have "q = Inr reply \<and> cs_redis s' = r"
    using run q by (auto simp: recover_nogroup_and_retry_def on_redis_def split: sum.splits if_splits)
  then have c: "x \<in> set (concat (map snd reply)) \<or> n \<le> p \<and> waiting V grp key x (p - n) (cs_redis s')"
    using read_waiting [OF sole assms(2,3)] q by simp
  moreover have "waiting V grp key x (p - n) (cs_redis s') \<Longrightarrow> waiting V grp key x p (cs_redis s')"
    by (fastforce simp: waiting_def)
  ultimately show ?thesis using True by blast
qed

lemma decode_entries_set: "decode_entries E key xs = Inr ds \<Longrightarrow> x \<in> set xs \<Longrightarrow> \<exists>d \<in> set ds. decode_stream_entry E key x = Inr d"
  by (induction xs arbitrary: ds) (auto simp: map_sum_eq_Inr split: sum.splits)

lemma decode_stream_read_set:
  "decode_stream_read E reply = Inr ds \<Longrightarrow> (k, xs) \<in> set reply \<Longrightarrow> x \<in> set xs \<Longrightarrow> \<exists>d \<in> set ds. decode_stream_entry E k x = Inr d"
  by (induction reply arbitrary: ds) (auto simp: map_sum_eq_Inr split: sum.splits, use decode_entries_set in fastforce)

lemma scan_shards_keeps_found:
  "scan_shards E C t stream_base grp name max_count keys ds s = (s', Inr ds') \<Longrightarrow> set ds \<subseteq> set ds'"
proof (induction keys arbitrary: ds s)
  case (Cons k keys)
  then show ?case by (fastforce simp: cbind_Inr creturn_Inr split: if_splits)
qed simp

lemma poll_once_start:
  assumes "poll_once E C t stream_base grp name max_count s = (s', Inr ds)"
  shows "cs_next_poll_start_shard s' = cs_next_poll_start_shard s + 1"
proof -
  have "keeps_start (if deliveries \<noteq> [] then creturn (Inr (take max_count deliveries))
      else cbind (read_shard E C t stream_base grp name 1 (Some (cc_block_timeout C)) k)
             (\<lambda>reply. if reply = [] then creturn (Inr []) else creturn (decode_stream_read E reply)))" for deliveries k
    using keeps_start_basic(1) by (auto intro!: keeps_start_bind keeps_start_read)
  from keeps_startD [OF keeps_start_bind [OF keeps_start_scan this] assms [unfolded poll_once_def Let_def]]
  show ?thesis by simp
qed

lemma scan_delivers:
  assumes ok: "streams_ok (st_redis E) V" and sole: "sole_consumer (st_redis E) V grp"
    and "waiting V grp key x p (cs_redis s)" and "scan_shards E C t stream_base grp name max_count keys ds s = (s', Inr ds')"
  shows "(\<exists>d \<in> set ds'. decode_stream_entry E key x = Inr d)
    \<or> waiting V grp key x p (cs_redis s') \<and> (keys \<noteq> [] \<longrightarrow> hd keys = key \<longrightarrow> ds = [] \<longrightarrow> max_count \<le> p \<and> waiting V grp key x (p - max_count) (cs_redis s'))"
  using assms(3,4)
proof (induction keys arbitrary: p ds s)
  case (Cons k keys)
  let ?m = "max_count - length ds"
  show ?case
  proof (cases "max_count \<le> length ds")
    case True
    then show ?thesis using Cons.prems by auto
  next
    case False
    then obtain s1 reply new where r: "read_shard E C t stream_base grp name ?m None k s = (s1, Inr reply)"
        "decode_stream_read E reply = Inr new" "scan_shards E C t stream_base grp name max_count keys (ds @ new) s1 = (s', Inr ds')"
      using Cons.prems(2) by (auto simp: cbind_Inr creturn_Inr)
    have kept: "set (ds @ new) \<subseteq> set ds'" using r(3) by (rule scan_shards_keeps_found)
    have m: "0 < ?m" using False by simp
    from read_shard_waiting [OF sole m Cons.prems(1) r(1)] show ?thesis
    proof (elim disjE conjE)
      assume "k = key" "x \<in> set (concat (map snd reply))"
      then obtain xs where "(key, xs) \<in> set reply" "x \<in> set xs" using read_shard_Inr [OF ok r(1) m] by auto
      then show ?thesis using decode_stream_read_set [OF r(2)] kept by fastforce
    next
      assume w: "waiting V grp key x p (cs_redis s1)" "k = key \<longrightarrow> ?m \<le> p \<and> waiting V grp key x (p - ?m) (cs_redis s1)"
      show ?thesis
      proof (cases "k = key \<and> ds = []")
        case True
        then show ?thesis using Cons.IH [OF _ r(3), of "p - max_count"] Cons.IH [OF w(1) r(3)] w(2) by auto
      next
        case False
        then show ?thesis using Cons.IH [OF w(1) r(3)] by auto
      qed
    qed
  qed
qed simp

lemma poll_once_delivers:
  assumes ok: "streams_ok (st_redis E) V" and sole: "sole_consumer (st_redis E) V grp" and "0 < max_count"
    and "waiting V grp key x p (cs_redis s)" and "poll_once E C t stream_base grp name max_count s = (s', Inr ds)"
  shows "(\<exists>d \<in> set ds. decode_stream_entry E key x = Inr d)
    \<or> waiting V grp key x p (cs_redis s')
      \<and> (hd (stream_keys_for_tenant_ordered t stream_base (start_shard s)) = key \<longrightarrow> max_count \<le> p \<and> waiting V grp key x (p - max_count) (cs_redis s'))"
proof -
  let ?keys = "stream_keys_for_tenant_ordered t stream_base (start_shard s)"
  let ?s = "s\<lparr>cs_next_poll_start_shard := cs_next_poll_start_shard s + 1\<rparr>"
  have nonempty: "?keys \<noteq> []" by (simp add: stream_keys_for_tenant_ordered_def SHARD_COUNT_def)
  obtain s1 found where scan: "scan_shards E C t stream_base grp name max_count ?keys [] ?s = (s1, Inr found)"
      and rest: "if found \<noteq> [] then ds = take max_count found \<and> s' = s1
        else \<exists>reply. read_shard E C t stream_base grp name 1 (Some (cc_block_timeout C)) (hd ?keys) s1 = (s', Inr reply)
          \<and> (if reply = [] then ds = [] else decode_stream_read E reply = Inr ds)"
    using assms(5) by (auto simp: poll_once_def Let_def cbind_Inr creturn_Inr split: if_splits)
  have found: "length found \<le> max_count" using scan_shards_Inr [OF ok scan, of "set ?keys"] by simp
  have w: "(\<exists>d \<in> set found. decode_stream_entry E key x = Inr d)
      \<or> waiting V grp key x p (cs_redis s1) \<and> (hd ?keys = key \<longrightarrow> max_count \<le> p \<and> waiting V grp key x (p - max_count) (cs_redis s1))"
    using scan_delivers [OF ok sole _ scan] assms(4) nonempty by simp
  show ?thesis
  proof (cases "found = []")
    case False
    then show ?thesis using w rest found by simp
  next
    case True
    then obtain reply where reply: "read_shard E C t stream_base grp name 1 (Some (cc_block_timeout C)) (hd ?keys) s1 = (s', Inr reply)"
        "if reply = [] then ds = [] else decode_stream_read E reply = Inr ds"
      using rest by auto
    have got: "\<exists>d \<in> set ds. decode_stream_entry E key x = Inr d" if "hd ?keys = key" "x \<in> set (concat (map snd reply))"
    proof -
      from that obtain xs where "(key, xs) \<in> set reply" "x \<in> set xs" using read_shard_Inr [OF ok reply(1) zero_less_one] by auto
      then show ?thesis using decode_stream_read_set reply(2) by (fastforce split: if_splits)
    qed
    have "(\<exists>d \<in> set ds. decode_stream_entry E key x = Inr d) \<or> waiting V grp key x q (cs_redis s')"
      if "waiting V grp key x q (cs_redis s1)" for q
      using read_shard_waiting [OF sole zero_less_one that reply(1)] got by blast
    then show ?thesis using w True by auto
  qed
qed

lemma poll_delivers:
  assumes ok: "streams_ok (st_redis E) V" and sole: "sole_consumer (st_redis E) V grp" and "0 < max_count"
    and "waiting V grp key x p (cs_redis s)" and "poll E C t stream_base grp name max_count s = (s', Inr ds)"
  shows "((\<exists>d \<in> set ds. decode_stream_entry E key x = Inr d)
    \<or> waiting V grp key x p (cs_redis s')
      \<and> (hd (stream_keys_for_tenant_ordered t stream_base (start_shard s)) = key \<longrightarrow> max_count \<le> p \<and> waiting V grp key x (p - max_count) (cs_redis s')))
    \<and> cs_next_poll_start_shard s' = cs_next_poll_start_shard s + 1"
proof -
  obtain s1 where s1: "ensure_consumer_groups_cached E C t stream_base grp s = (s1, Inr ())"
      "poll_once E C t stream_base grp name max_count s1 = (s', Inr ds)"
    using assms(3,5) by (auto simp: poll_def cbind_Inr creturn_Inr)
  have "always (new_grows_at V grp key) (ensure_consumer_groups_cached E C t stream_base grp)"
    by (intro always_ensure new_grows_pre sole_consumerD [OF sole])
  from waiting_grows [OF assms(4) alwaysD [OF this s1(1)]] have w: "waiting V grp key x p (cs_redis s1)" .
  have start: "cs_next_poll_start_shard s1 = cs_next_poll_start_shard s" by (rule keeps_startD [OF keeps_start_ensure s1(1)])
  then have "start_shard s1 = start_shard s" by (simp add: start_shard_def)
  moreover have "cs_next_poll_start_shard s' = cs_next_poll_start_shard s1 + 1"
    by (rule poll_once_start [OF s1(2)])
  ultimately show ?thesis using poll_once_delivers [OF ok sole assms(3) w s1(2)] start by simp
qed

text \<open>
  Polls in a row, all successful, with what they return. Between two of them producers and
  other groups may act, and the cache of ensured groups may lose entries.
\<close>

inductive polls :: "('r, 'p) stream_env \<Rightarrow> 'r streams_view \<Rightarrow> consumer_config \<Rightarrow> tenant_id \<Rightarrow> string \<Rightarrow> string \<Rightarrow> string \<Rightarrow> nat
    \<Rightarrow> 'r consumer \<Rightarrow> nat \<Rightarrow> 'p delivery list \<Rightarrow> 'r consumer \<Rightarrow> bool"
  for E V C t stream_base grp name max_count s where
  none: "polls E V C t stream_base grp name max_count s 0 [] s"
| one_more: "polls E V C t stream_base grp name max_count s n ds s1 \<Longrightarrow> \<forall>key. new_grows_at V grp key (cs_redis s1) r
    \<Longrightarrow> poll E C t stream_base grp name max_count (s1\<lparr>cs_redis := r, cs_ensured_groups := groups\<rparr>) = (s2, Inr ds')
    \<Longrightarrow> polls E V C t stream_base grp name max_count s (Suc n) (ds @ ds') s2"

text \<open>The shard of an event, and the key of its stream.\<close>

definition event_shard :: "('r, 'p) stream_env \<Rightarrow> 'p event_envelope \<Rightarrow> u64" where
  "event_shard E event = om_shard (st_xxh64 E) (st_uuid_str E) (ev_order_mode event) (ev_tenant_id event)"

definition event_key :: "('r, 'p) stream_env \<Rightarrow> string \<Rightarrow> 'p event_envelope \<Rightarrow> string" where
  "event_key E stream_base event = stream_key_for_shard (ev_tenant_id event) stream_base (event_shard E event)"

text \<open>How many polls pass before one starts at the shard.\<close>

definition polls_before :: "usize \<Rightarrow> nat \<Rightarrow> nat" where
  "polls_before start shard = (shard + 64 - unat start mod 64) mod 64"

lemma before_mod: "(shard :: nat) < 64 \<Longrightarrow> m < 64 \<Longrightarrow> (shard + 64 - m) mod 64 = (if m \<le> shard then shard - m else shard + 64 - m)"
  by (cases "m \<le> shard") (simp_all add: mod_if)

lemma polls_before_step: "shard < 64 \<Longrightarrow> polls_before (c + 1) shard = (if polls_before c shard = 0 then 63 else polls_before c shard - 1)"
proof -
  assume s: "shard < 64"
  define m where "m = unat c mod 64"
  have m: "m < 64" by (simp add: m_def)
  have "unat (c + 1) mod 64 = Suc (unat c) mod 64"
    by (simp add: unat_word_ariths mod_mod_cancel)
  also have "\<dots> = (if m = 63 then 0 else Suc m)" by (simp add: mod_Suc m_def)
  finally have "polls_before (c + 1) shard = (shard + 64 - (if m = 63 then 0 else Suc m)) mod 64" by (simp add: polls_before_def)
  moreover have "polls_before c shard = (shard + 64 - m) mod 64" by (simp add: polls_before_def m_def)
  ultimately show ?thesis using before_mod [OF s m] before_mod [OF s, of "if m = 63 then 0 else Suc m"] s m by auto
qed

lemma polls_before_0: "shard < 64 \<Longrightarrow> polls_before c shard = 0 \<longleftrightarrow> unat c mod 64 = shard"
  using before_mod [of shard "unat c mod 64"] by (auto simp: polls_before_def)

lemma hd_ordered: "hd (stream_keys_for_tenant_ordered t stream_base (start_shard s))
    = stream_key_for_shard t stream_base (of_nat (unat (cs_next_poll_start_shard s) mod 64))"
  by (simp add: stream_keys_for_tenant_ordered_def SHARD_COUNT_def start_shard_def hd_map hd_upt)

lemma polls_deliver:
  assumes ok: "streams_ok (st_redis E) V" and sole: "sole_consumer (st_redis E) V grp" and pos: "0 < max_count"
    and "polls E V C t stream_base grp name max_count s n ds s'" and shard: "shard < 64"
    and key: "key = stream_key_for_shard t stream_base (of_nat shard)" and "waiting V grp key x p (cs_redis s)"
  shows "(\<exists>d \<in> set ds. decode_stream_entry E key x = Inr d)
    \<or> (\<exists>q. waiting V grp key x q (cs_redis s')
         \<and> n + (64 * (q div max_count) + polls_before (cs_next_poll_start_shard s') shard)
           \<le> 64 * (p div max_count) + polls_before (cs_next_poll_start_shard s) shard)"
  using assms(4)
proof induction
  case none
  then show ?case using assms(7) by auto
next
  case (one_more n ds s1 r groups s2 ds')
  let ?s1 = "s1\<lparr>cs_redis := r, cs_ensured_groups := groups\<rparr>"
  from one_more.IH show ?case
  proof (elim disjE exE conjE)
    assume "\<exists>d \<in> set ds. decode_stream_entry E key x = Inr d"
    then show ?thesis by auto
  next
    fix q assume q: "waiting V grp key x q (cs_redis s1)" "n + (64 * (q div max_count) + polls_before (cs_next_poll_start_shard s1) shard)
        \<le> 64 * (p div max_count) + polls_before (cs_next_poll_start_shard s) shard"
    have "waiting V grp key x q (cs_redis ?s1)" using waiting_grows [OF q(1)] one_more.hyps(2) by simp
    from poll_delivers [OF ok sole pos this one_more.hyps(3)]
    have next_shard: "cs_next_poll_start_shard s2 = cs_next_poll_start_shard s1 + 1"
      and d: "(\<exists>d \<in> set ds'. decode_stream_entry E key x = Inr d) \<or> waiting V grp key x q (cs_redis s2)
        \<and> (unat (cs_next_poll_start_shard s1) mod 64 = shard \<longrightarrow> max_count \<le> q \<and> waiting V grp key x (q - max_count) (cs_redis s2))"
      by (auto simp: hd_ordered key)
    let ?b = "polls_before (cs_next_poll_start_shard s1) shard"
    have b: "polls_before (cs_next_poll_start_shard s2) shard = (if ?b = 0 then 63 else ?b - 1)"
      using polls_before_step [OF shard] next_shard by simp
    show ?thesis
    proof (cases "\<exists>d \<in> set ds'. decode_stream_entry E key x = Inr d")
      case True
      then show ?thesis by auto
    next
      case False
      show ?thesis
      proof (cases "?b = 0")
        case True
        then have m: "max_count \<le> q" "waiting V grp key x (q - max_count) (cs_redis s2)"
          using d False polls_before_0 [OF shard] by blast+
        have "q div max_count = Suc ((q - max_count) div max_count)" using m(1) pos by (simp add: div_if)
        then have "Suc n + (64 * ((q - max_count) div max_count) + polls_before (cs_next_poll_start_shard s2) shard)
            \<le> 64 * (p div max_count) + polls_before (cs_next_poll_start_shard s) shard"
          using q(2) b True by simp
        then show ?thesis using m(2) by blast
      next
        case b': False
        then have "Suc n + (64 * (q div max_count) + polls_before (cs_next_poll_start_shard s2) shard)
            \<le> 64 * (p div max_count) + polls_before (cs_next_poll_start_shard s) shard"
          using q(2) b by simp
        then show ?thesis using d False by blast
      qed
    qed
  qed
qed

text \<open>
  A timeout below a millisecond is not zero, so it is accepted, but it is passed on as no
  milliseconds, with which Redis blocks without a limit.
\<close>

lemma sub_millisecond_timeout_unbounded:
  assumes "du_secs d = 0" "du_nanos d \<noteq> 0" "du_nanos d < 1000000"
  shows "\<exists>C. new_with_config d start = Inr C \<and> xo_block (build_read_options grp name n (Some (cc_block_timeout C)) noack) = Some 0"
proof -
  have "uint (du_nanos d) < 1000000" using assms(3) by (simp add: word_less_def)
  then have "as_millis d = 0" using assms(1) by (simp add: as_millis_def)
  then show ?thesis
    using assms(2) by (simp add: new_with_config_def validate_block_timeout_def duration_is_zero_def build_read_options_def)
qed

section \<open>Properties\<close>

text \<open>
  A small Redis: the entries of the streams, and per group those not yet given out and those
  given out but not acknowledged. A call of \<open>XAUTOCLAIM\<close> scans one pending entry.
\<close>

record toy_redis =
  ty_entries :: "(string \<times> stream_entry) list"
  ty_groups :: "((string \<times> string) \<times> stream_entry list \<times> stream_entry list) list"

definition ty_group :: "toy_redis \<Rightarrow> string \<Rightarrow> string \<Rightarrow> (stream_entry list \<times> stream_entry list) option" where
  "ty_group r key grp = map_of (ty_groups r) (key, grp)"

definition toy_set :: "toy_redis \<Rightarrow> string \<Rightarrow> string \<Rightarrow> stream_entry list \<times> stream_entry list \<Rightarrow> toy_redis" where
  "toy_set r key grp v = r\<lparr>ty_groups := ((key, grp), v) # ty_groups r\<rparr>"

definition toy_new :: "toy_redis \<Rightarrow> string \<Rightarrow> string \<Rightarrow> stream_entry list" where
  "toy_new r key grp = (case ty_group r key grp of None \<Rightarrow> [] | Some (new, pend) \<Rightarrow> new)"

definition toy_pend :: "toy_redis \<Rightarrow> string \<Rightarrow> string \<Rightarrow> stream_entry list" where
  "toy_pend r key grp = (case ty_group r key grp of None \<Rightarrow> [] | Some (new, pend) \<Rightarrow> pend)"

definition owed_by :: "toy_redis \<Rightarrow> string \<Rightarrow> string \<Rightarrow> stream_entry list" where
  "owed_by r key grp = toy_pend r key grp @ toy_new r key grp"

definition toy_streams :: "toy_redis redis_streams" where
  "toy_streams = \<lparr>
     xadd = (\<lambda>key maxlen p r.
       let x = \<lparr>se_id = dec_of_nat (length (ty_entries r) + 1) @ ''-0'', se_data = Some p\<rparr>
       in (r\<lparr>ty_entries := ty_entries r @ [(key, x)],
             ty_groups := map (\<lambda>(kg, new, pend). (kg, if fst kg = key then new @ [x] else new, pend)) (ty_groups r)\<rparr>, Inr (se_id x))),
     xgroup_create_mkstream = (\<lambda>key grp start r.
       case ty_group r key grp of
         Some v \<Rightarrow> (r, Inl (RedisError (Some ''BUSYGROUP'') []))
       | None \<Rightarrow> (toy_set r key grp ([x. (k, x) \<leftarrow> ty_entries r, k = key], []), Inr ())),
     xreadgroup = (\<lambda>key opts r.
       case ty_group r key (xo_group opts) of
         None \<Rightarrow> (r, Inl (RedisError (Some ''NOGROUP'') []))
       | Some (new, pend) \<Rightarrow>
           let xs = take (xo_count opts) new
           in (toy_set r key (xo_group opts) (drop (xo_count opts) new, if xo_noack opts then pend else pend @ xs),
               Inr (if xs = [] then [] else [(key, xs)]))),
     xautoclaim = (\<lambda>key grp name idle cursor n r.
       case ty_group r key grp of
         None \<Rightarrow> (r, Inl (RedisError (Some ''NOGROUP'') []))
       | Some (new, pend) \<Rightarrow>
           (case filter (\<lambda>x. \<not> id_before (se_id x) cursor) pend of
              [] \<Rightarrow> (r, Inr ([], ''0-0''))
            | x # _ \<Rightarrow> (r, Inr (take n [x], case filter (\<lambda>y. id_before (se_id x) (se_id y)) pend of [] \<Rightarrow> ''0-0'' | y # _ \<Rightarrow> se_id y)))),
     xack = (\<lambda>key grp i r.
       case ty_group r key grp of
         None \<Rightarrow> (r, Inr 0)
       | Some (new, pend) \<Rightarrow> (toy_set r key grp (new, filter (\<lambda>x. se_id x \<noteq> i) pend), Inr 1))\<rparr>"

definition toy_view :: "toy_redis streams_view" where
  "toy_view = \<lparr>sv_owed = (\<lambda>r key grp. set (owed_by r key grp)), sv_group = (\<lambda>r key grp. ty_group r key grp \<noteq> None),
     sv_new = toy_new, sv_pending = (\<lambda>r key grp. se_id ` set (toy_pend r key grp))\<rparr>"

lemma ty_group_set [simp]: "ty_group (toy_set r key grp v) k g = (if k = key \<and> g = grp then Some v else ty_group r k g)"
  by (simp add: ty_group_def toy_set_def)

lemma ty_group_added [simp]:
  "ty_group (r\<lparr>ty_entries := es, ty_groups := map (\<lambda>(kg, new, pend). (kg, if fst kg = key then new @ [x] else new, pend)) (ty_groups r)\<rparr>) k g
   = (case ty_group r k g of None \<Rightarrow> None | Some (new, pend) \<Rightarrow> Some (if k = key then new @ [x] else new, pend))"
proof -
  have "map_of (map (\<lambda>(kg, new, pend). (kg, if fst kg = key then new @ [x] else new, pend)) gs) (k, g)
      = (case map_of gs (k, g) of None \<Rightarrow> None | Some (new, pend) \<Rightarrow> Some (if k = key then new @ [x] else new, pend))" for gs :: "((string \<times> string) \<times> stream_entry list \<times> stream_entry list) list"
    by (induction gs) auto
  then show ?thesis by (simp add: ty_group_def)
qed

lemmas toy_defs = toy_view_def toy_new_def toy_pend_def owed_by_def no_loss_def no_more_pending_def

lemma toy_ok: "streams_ok toy_streams toy_view"
proof -
  have "xadd_ok toy_streams toy_view"
    by (auto simp: xadd_ok_def toy_streams_def toy_defs Let_def split: option.splits if_splits)
  moreover have "xgroup_create_ok toy_streams toy_view"
    by (auto simp: xgroup_create_ok_def toy_streams_def toy_defs split: option.splits if_splits)
  moreover have "xreadgroup_ok toy_streams toy_view"
  proof -
    have "no_loss toy_view r r' \<and> (\<forall>reply. x = Inr reply \<longrightarrow> 0 < xo_count opts \<longrightarrow> length (concat (map snd reply)) \<le> xo_count opts
          \<and> (\<forall>(k, xs) \<in> set reply. k = key \<and> set xs \<subseteq> sv_owed toy_view r' key (xo_group opts)))"
      if run: "xreadgroup toy_streams key opts r = (r', x)" and ack: "\<not> xo_noack opts" for key opts r r' x
    proof (cases "ty_group r key (xo_group opts)")
      case None
      then show ?thesis using run by (auto simp: toy_streams_def toy_defs)
    next
      case (Some np)
      obtain new pend where np: "np = (new, pend)" by (cases np)
      have r': "r' = toy_set r key (xo_group opts) (drop (xo_count opts) new, pend @ take (xo_count opts) new)"
          "x = Inr (if take (xo_count opts) new = [] then [] else [(key, take (xo_count opts) new)])"
        using run Some np ack by (simp_all add: toy_streams_def Let_def)
      have "set new = set (take (xo_count opts) new) \<union> set (drop (xo_count opts) new)"
        by (metis append_take_drop_id set_append)
      then have "no_loss toy_view r r'" using Some np by (auto simp: r'(1) toy_defs split: option.splits)
      then show ?thesis by (auto simp: r' toy_defs)
    qed
    then show ?thesis unfolding xreadgroup_ok_def by blast
  qed
  moreover have "xautoclaim_ok toy_streams toy_view"
  proof -
    have first: "\<not> id_before (se_id x) cursor" "x \<in> set pend" if "filter (\<lambda>x. \<not> id_before (se_id x) cursor) pend = x # rest" for x cursor pend rest
      using that by (auto simp: filter_eq_Cons_iff)
    have next_id: "id_before (se_id x) (se_id y)" if "filter (\<lambda>y. id_before (se_id x) (se_id y)) pend = y # rest" for x y pend rest
      using that by (auto simp: filter_eq_Cons_iff)
    have "\<forall>key grp name idle cursor n r r' x. xautoclaim toy_streams key grp name idle cursor n r = (r', x) \<longrightarrow>
        no_loss toy_view r r' \<and> no_more_pending toy_view r r'
        \<and> (\<forall>xs nxt. x = Inr (xs, nxt) \<longrightarrow> length xs \<le> n \<and> set xs \<subseteq> sv_owed toy_view r' key grp
             \<and> (nxt \<noteq> ''0-0'' \<longrightarrow> (\<exists>i \<in> sv_pending toy_view r key grp. \<not> id_before i cursor \<and> id_before i nxt)))"
      by (auto simp: toy_streams_def toy_defs split: option.splits list.splits dest!: in_set_takeD)
        (blast dest: first next_id)+
    moreover have "finite (sv_pending toy_view r key grp)" for r key grp by (simp add: toy_view_def)
    ultimately show ?thesis unfolding xautoclaim_ok_def by blast
  qed
  moreover have "xack_ok toy_streams toy_view"
    by (auto simp: xack_ok_def toy_streams_def toy_defs split: option.splits)
  ultimately show ?thesis by (simp add: streams_ok_def)
qed

lemma toy_sole: "sole_consumer toy_streams toy_view grp"
proof -
  have "sv_group toy_view r' key grp \<and> \<lparr>se_id = i, se_data = Some p\<rparr> \<in> set (sv_new toy_view r' key grp)"
    if "xadd toy_streams key None p r = (r', Inr i)" "sv_group toy_view r key grp" for key p r r' i
    using that by (auto simp: toy_streams_def toy_defs Let_def)
  moreover have "new_grows_at toy_view grp k r (fst (xgroup_create_mkstream toy_streams key grp start r))" for key start r k
    by (auto simp: new_grows_at_def toy_streams_def toy_defs split: option.splits)
  moreover have "(\<forall>k. k \<noteq> key \<longrightarrow> new_grows_at toy_view grp k r r')
      \<and> (\<forall>e. x = Inl e \<longrightarrow> re_code e = Some ''NOGROUP'' \<longrightarrow> \<not> sv_group toy_view r key grp)
      \<and> (\<forall>reply. x = Inr reply \<longrightarrow> sv_group toy_view r key grp \<longrightarrow> sv_group toy_view r' key grp
           \<and> (\<exists>entries. prefix (sv_new toy_view r key grp) entries \<and> concat (map snd reply) = take (xo_count opts) entries
                \<and> prefix (drop (xo_count opts) entries) (sv_new toy_view r' key grp)))"
    if "xreadgroup toy_streams key opts r = (r', x)" "xo_group opts = grp" for key opts r r' x
    using that by (auto simp: new_grows_at_def toy_streams_def toy_defs Let_def split: option.splits if_splits)
  ultimately show ?thesis unfolding sole_consumer_def by blast
qed

definition toy_event :: "nat event_envelope" where
  "toy_event = \<lparr>event_id = 7, ev_tenant_id = TenantId ''t1'', ev_order_mode = OrderMode_Causality ''k'' (Some 1), payload = 5,
     created_at = 0, event_type = ''created''\<rparr>"

definition toy_env :: "(toy_redis, nat) stream_env" where
  "toy_env = \<lparr>st_redis = toy_streams, st_from_json = (\<lambda>p. if p = ''e'' then Inr toy_event else Inl []), st_to_json = (\<lambda>_. Inr ''e''),
     st_xxh64 = (\<lambda>_. 3), st_uuid_str = (\<lambda>_. ''u'')\<rparr>"

definition toy_config :: consumer_config where
  "toy_config = \<lparr>cc_block_timeout = \<lparr>du_secs = 1, du_nanos = 0\<rparr>, cc_nogroup_recovery_start_id = ''0''\<rparr>"

text \<open>One group on the event's shard, which owes one entry.\<close>

definition toy_consumer :: "toy_redis consumer" where
  "toy_consumer = \<lparr>cs_next_poll_start_shard = 3, cs_ensured_groups = [''t1:orders:cache:cg:g''],
     cs_redis = \<lparr>ty_entries = [(''t1:orders:3'', \<lparr>se_id = ''1-0'', se_data = Some ''e''\<rparr>)],
       ty_groups = [((''t1:orders:3'', ''g''), [\<lparr>se_id = ''1-0'', se_data = Some ''e''\<rparr>], [])]\<rparr>\<rparr>"

lemma toy_env_ok: "streams_ok (st_redis toy_env) toy_view"
  by (simp add: toy_env_def toy_ok)

text \<open>
  C13 (safety): the consumer loses nothing. Whatever Redis answers and wherever a call fails,
  polling, claiming and refusing an entry leave every entry that a group owes an
  acknowledgement owed, and publishing without trimming keeps them, too; an acknowledgement
  ends at most the entry it names, and none at all when the stream is another tenant's.
\<close>

theorem consumer_loses_nothing:
  assumes "streams_ok (st_redis E) V"
  shows "no_loss V (cs_redis s) (cs_redis (fst (poll E C t stream_base grp name max_count s)))
    \<and> (\<forall>s' r. claim_pending E C t stream_base grp name idle max_count s = Some (s', r) \<longrightarrow> no_loss V (cs_redis s) (cs_redis s'))
    \<and> cs_redis (fst (nack t key policy s)) = cs_redis s
    \<and> no_loss V r (fst (publish E None stream_base event r))
    \<and> sv_owed V (cs_redis s) k g - {y. k = key \<and> g = grp \<and> se_id y = i} \<subseteq> sv_owed V (cs_redis (fst (ack E t key grp i s))) k g
    \<and> (\<not> starts_with key (tenant_str t @ '':'') \<longrightarrow> fst (ack E t key grp i s) = s)"
proof (intro conjI allI impI)
  show "no_loss V (cs_redis s) (cs_redis (fst (poll E C t stream_base grp name max_count s)))"
    using poll_keeps [OF assms] by (simp add: always_def)
  show "no_loss V (cs_redis s) (cs_redis s')" if "claim_pending E C t stream_base grp name idle max_count s = Some (s', r)" for s' r
    using claim_pending_claims [OF assms, of grp max_count t stream_base s C name idle] that by (auto simp: claims_def)
  show "cs_redis (fst (nack t key policy s)) = cs_redis s"
    by (auto simp: nack_def cbind_def creturn_def split: sum.split)
  have "no_loss V r (fst (xadd (st_redis E) k None p r))" for k p by (rule streams_okD(6) [OF assms])
  then show "no_loss V r (fst (publish E None stream_base event r))"
    by (auto simp: publish_def Let_def split: sum.split prod.split) (metis fst_conv)+
  have "xack_ok (st_redis E) V" using assms by (simp add: streams_ok_def)
  then show "sv_owed V (cs_redis s) k g - {y. k = key \<and> g = grp \<and> se_id y = i} \<subseteq> sv_owed V (cs_redis (fst (ack E t key grp i s))) k g"
    unfolding xack_ok_def by (auto simp: ack_def cbind_def creturn_def on_redis_def split: sum.split prod.split) blast+
  show "fst (ack E t key grp i s) = s" if "\<not> starts_with key (tenant_str t @ '':'')"
    using that by (simp add: ack_def cbind_def creturn_def validate_stream_key_def)
qed

theorem consumer_loses_nothing_witness:
  "\<lparr>se_id = ''1-0'', se_data = Some ''e''\<rparr>
     \<in> set (owed_by (cs_redis (fst (poll toy_env toy_config (TenantId ''t1'') ''orders'' ''g'' ''c'' 5 toy_consumer))) ''t1:orders:3'' ''g'')"
proof -
  let ?s = "fst (poll toy_env toy_config (TenantId ''t1'') ''orders'' ''g'' ''c'' 5 toy_consumer)"
  have "no_loss toy_view (cs_redis toy_consumer) (cs_redis ?s)"
    using consumer_loses_nothing [OF toy_env_ok] by blast
  moreover have "\<lparr>se_id = ''1-0'', se_data = Some ''e''\<rparr> \<in> set (owed_by (cs_redis toy_consumer) ''t1:orders:3'' ''g'')"
    by (simp add: owed_by_def toy_new_def ty_group_def toy_consumer_def)
  ultimately show ?thesis unfolding no_loss_def toy_view_def streams_view.simps by blast
qed

text \<open>
  what a poll or a claim returns. It is at most \<open>max_count\<close> deliveries, each the
  decoded entry of a shard of the tenant's stream, for an event of that tenant, and still
  owed by the group, so that a consumer that dies before its acknowledgement gets it again.
\<close>

theorem deliveries_owed_and_own:
  assumes "streams_ok (st_redis E) V" and "is_valid_principal (tenant_str t)"
    and "\<forall>p ev. st_from_json E p = Inr ev \<longrightarrow> is_valid_principal (tenant_str (ev_tenant_id ev))"
    and "poll E C t stream_base grp name max_count s = (s', Inr ds)
      \<or> claim_pending E C t stream_base grp name idle max_count s = Some (s', Inr ds)"
  shows "length ds \<le> max_count \<and> (\<forall>d \<in> set ds. stream_key d \<in> set (stream_keys_for_tenant t stream_base)
    \<and> ev_tenant_id (dl_event d) = t \<and> (\<exists>x \<in> sv_owed V (cs_redis s') (stream_key d) grp. se_id x = delivery_id d
         \<and> decode_stream_entry E (stream_key d) x = Inr d))"
proof -
  obtain n where n: "length ds \<le> max_count"
      "\<forall>d \<in> set ds. stream_key d \<in> set (stream_keys_for_tenant_ordered t stream_base n) \<and> owed_delivery E V grp (cs_redis s') d"
    using assms(4) poll_Inr [OF assms(1)] claim_pending_claims [OF assms(1), of grp max_count t stream_base s C name idle] by fastforce
  have "stream_key d \<in> set (stream_keys_for_tenant t stream_base) \<and> ev_tenant_id (dl_event d) = t
      \<and> (\<exists>x \<in> sv_owed V (cs_redis s') (stream_key d) grp. se_id x = delivery_id d \<and> decode_stream_entry E (stream_key d) x = Inr d)"
    if "d \<in> set ds" for d
  proof -
    have d: "stream_key d \<in> set (stream_keys_for_tenant_ordered t stream_base n)" "owed_delivery E V grp (cs_redis s') d"
      using n(2) that by blast+
    obtain x where x: "x \<in> sv_owed V (cs_redis s') (stream_key d) grp" "decode_stream_entry E (stream_key d) x = Inr d"
      using d(2) by (auto simp: owed_delivery_def)
    then show ?thesis using own_delivery [OF d(2,1) assms(2,3)] decode_stream_entry_Inr [OF x(2)] d(1) by (auto simp: shards_rotate)
  qed
  then show ?thesis using n(1) by blast
qed

lemma toy_names: "is_valid_principal (tenant_str (TenantId ''t1''))"
  by simp code_simp

lemma toy_poll:
  "snd (poll toy_env toy_config (TenantId ''t1'') ''orders'' ''g'' ''c'' 1 toy_consumer)
   = Inr [\<lparr>delivery_id = ''1-0'', stream_key = ''t1:orders:3'', dl_event = toy_event\<rparr>]"
  by code_simp

theorem deliveries_owed_and_own_witness:
  "\<exists>s' d. poll toy_env toy_config (TenantId ''t1'') ''orders'' ''g'' ''c'' 1 toy_consumer = (s', Inr [d])
    \<and> ev_tenant_id (dl_event d) = TenantId ''t1'' \<and> (\<exists>x \<in> set (owed_by (cs_redis s') (stream_key d) ''g''). se_id x = ''1-0'')"
proof -
  let ?d = "\<lparr>delivery_id = ''1-0'', stream_key = ''t1:orders:3'', dl_event = toy_event\<rparr>"
  obtain s' where p: "poll toy_env toy_config (TenantId ''t1'') ''orders'' ''g'' ''c'' 1 toy_consumer = (s', Inr [?d])"
    using toy_poll by (metis prod.collapse)
  have "\<forall>p ev. st_from_json toy_env p = Inr ev \<longrightarrow> is_valid_principal (tenant_str (ev_tenant_id ev))"
    using toy_names by (auto simp: toy_env_def toy_event_def)
  from deliveries_owed_and_own [OF toy_env_ok toy_names this disjI1 [OF p]]
  have "ev_tenant_id (dl_event ?d) = TenantId ''t1'' \<and> (\<exists>x \<in> set (owed_by (cs_redis s') (stream_key ?d) ''g''). se_id x = ''1-0'')"
    by (auto simp: toy_view_def)
  with p show ?thesis by blast
qed

text \<open>
  C29 (termination): claiming ends. Redis scans the pending entries in the order of their
  identifiers and answers a cursor behind what it has scanned; then, however many pending
  entries the shards hold and however often the cursor of a scan must be followed,
  \<open>claim_pending\<close> returns. Nothing in the code bounds a scan while other clients go on making
  entries pending, which \<open>streams_ok\<close> excludes for the time of the claim.
\<close>

theorem claim_pending_returns:
  assumes "streams_ok (st_redis E) V"
  shows "\<exists>s' r. claim_pending E C t stream_base grp name idle max_count s = Some (s', r)"
  using claim_pending_claims [OF assms, of grp max_count t stream_base s C name idle] by (auto simp: claims_def)

text \<open>Two entries are pending, and the scan of their shard follows a cursor from the first to the second.\<close>

definition toy_claimant :: "toy_redis consumer" where
  "toy_claimant = toy_consumer\<lparr>cs_redis := toy_set (cs_redis toy_consumer) ''t1:orders:3'' ''g''
     ([], [\<lparr>se_id = ''1-0'', se_data = Some ''e''\<rparr>, \<lparr>se_id = ''2-0'', se_data = Some ''e''\<rparr>])\<rparr>"

theorem claim_pending_returns_witness:
  "snd (xautoclaim toy_streams ''t1:orders:3'' ''g'' ''c'' 0 ''0-0'' 2 (cs_redis toy_claimant))
     = Inr ([\<lparr>se_id = ''1-0'', se_data = Some ''e''\<rparr>], ''2-0'')
   \<and> (\<exists>s'. claim_pending toy_env toy_config (TenantId ''t1'') ''orders'' ''g'' ''c'' 0 2 toy_claimant = Some (s', Inr
        [\<lparr>delivery_id = ''1-0'', stream_key = ''t1:orders:3'', dl_event = toy_event\<rparr>,
         \<lparr>delivery_id = ''2-0'', stream_key = ''t1:orders:3'', dl_event = toy_event\<rparr>]))"
proof -
  obtain s' r where run: "claim_pending toy_env toy_config (TenantId ''t1'') ''orders'' ''g'' ''c'' 0 2 toy_claimant = Some (s', r)"
    using claim_pending_returns [OF toy_env_ok] by blast
  moreover have "map_option snd (claim_pending toy_env toy_config (TenantId ''t1'') ''orders'' ''g'' ''c'' 0 2 toy_claimant)
      = Some (Inr [\<lparr>delivery_id = ''1-0'', stream_key = ''t1:orders:3'', dl_event = toy_event\<rparr>,
                   \<lparr>delivery_id = ''2-0'', stream_key = ''t1:orders:3'', dl_event = toy_event\<rparr>])"
    by code_simp
  moreover have "snd (xautoclaim toy_streams ''t1:orders:3'' ''g'' ''c'' 0 ''0-0'' 2 (cs_redis toy_claimant))
     = Inr ([\<lparr>se_id = ''1-0'', se_data = Some ''e''\<rparr>], ''2-0'')"
    by code_simp
  ultimately show ?thesis by simp
qed

text \<open>
  producer and consumer agree on the shards. The order in which a poll
  visits the shards is a rotation of the tenant's distinct stream keys, so each is visited
  once; the stream key to which an event of the tenant is published is one of them; and over
  64 consecutive values of the counter every shard comes first, the one a poll may block on.
\<close>

theorem every_shard_polled:
  "stream_keys_for_tenant_ordered t stream_base n = rotate n (stream_keys_for_tenant t stream_base)
    \<and> distinct (stream_keys_for_tenant t stream_base) \<and> length (stream_keys_for_tenant t stream_base) = 64
    \<and> stream_key_for_shard t stream_base (om_shard xxh64 ustr mode t) \<in> set (stream_keys_for_tenant_ordered t stream_base n)
    \<and> set (map (\<lambda>i. hd (stream_keys_for_tenant_ordered t stream_base (n + i))) [0..<64]) = set (stream_keys_for_tenant t stream_base)"
proof -
  let ?f = "\<lambda>i. stream_key_for_shard t stream_base (of_nat i)"
  have "hd (stream_keys_for_tenant_ordered t stream_base m) = ?f (m mod 64)" for m
    by (simp add: stream_keys_for_tenant_ordered_def SHARD_COUNT_def hd_map hd_upt)
  then have "map (\<lambda>i. hd (stream_keys_for_tenant_ordered t stream_base (n + i))) [0..<64] = stream_keys_for_tenant_ordered t stream_base n"
    by (simp add: stream_keys_for_tenant_ordered_def SHARD_COUNT_def)
  then have "set (map (\<lambda>i. hd (stream_keys_for_tenant_ordered t stream_base (n + i))) [0..<64]) = set (stream_keys_for_tenant t stream_base)"
    by (simp only: shards_rotate set_rotate)
  moreover have "length (stream_keys_for_tenant t stream_base) = 64" by (simp add: stream_keys_for_tenant_def SHARD_COUNT_def)
  ultimately show ?thesis using producer_key_polled shards_rotate stream_keys_distinct by blast
qed

text \<open>
  C20 (liveness): a published event is handed to the group's consumer. Let publishing
  succeed, the group exist on the event's shard, and one consumer alone read for it
  (\<open>sole_consumer\<close>). When that consumer then polls the stream again and again, without calls for
  other streams in between that move its start shard, and the polls succeed, then, whatever
  other producers add meanwhile, one of them returns the event, field for field, under
  the identifier that publishing returned and the stream key of its shard. It is the poll that
  first starts at the event's shard, unless entries that the consumer has not been given stand
  before it there; each \<open>max_count\<close> of these take at most one more round of the 64 shards.
\<close>

theorem published_event_reaches_group:
  assumes "streams_ok (st_redis E) V" and "sole_consumer (st_redis E) V grp"
    and "publish E None stream_base event r = (r', Inr i)"
    and "\<forall>p. st_to_json E event = Inr p \<longrightarrow> st_from_json E p = Inr event"
    and "sv_group V r (event_key E stream_base event) grp"
    and "polls E V C (ev_tenant_id event) stream_base grp name max_count s n ds s'" and "cs_redis s = r'" and "0 < max_count"
    and "64 * ((length (sv_new V r' (event_key E stream_base event) grp) - 1) div max_count)
        + polls_before (cs_next_poll_start_shard s) (unat (event_shard E event)) < n"
  shows "\<exists>d \<in> set ds. dl_event d = event \<and> delivery_id d = i \<and> stream_key d = event_key E stream_base event"
proof -
  let ?t = "ev_tenant_id event"
  let ?key = "event_key E stream_base event"
  let ?shard = "unat (event_shard E event)"
  obtain p where p: "st_to_json E event = Inr p" "xadd (st_redis E) ?key None p r = (r', Inr i)"
    using assms(3) by (auto simp: publish_def Let_def event_key_def event_shard_def split: sum.splits prod.splits)
  let ?x = "\<lparr>se_id = i, se_data = Some p\<rparr>"
  have "sv_group V r' ?key grp" "?x \<in> set (sv_new V r' ?key grp)"
    using sole_add [OF assms(2) p(2) assms(5)] by blast+
  then obtain xs ys where "sv_group V r' ?key grp" "sv_new V r' ?key grp = xs @ ?x # ys" by (metis split_list)
  then have w: "waiting V grp ?key ?x (length (sv_new V r' ?key grp) - 1) (cs_redis s)" using assms(7) by (auto simp: waiting_def)
  have "?shard < 64"
    by (simp add: event_shard_def om_shard_def tsk_shard_def calculate_shard_def SHARD_COUNT_def unat_mod)
  moreover have "?key = stream_key_for_shard ?t stream_base (of_nat ?shard)" by (simp add: event_key_def)
  ultimately obtain d where d: "d \<in> set ds" "decode_stream_entry E ?key ?x = Inr d"
    using polls_deliver [OF assms(1,2,8,6) _ _ w] assms(9) by fastforce
  have "validate_stream_key ?key ?t = Inr ()"
    using shard_key_prefix [OF producer_key_polled [where n = 0]] by (simp add: validate_stream_key_def event_key_def event_shard_def)
  then have "decode_stream_entry E ?key ?x = Inr \<lparr>delivery_id = i, stream_key = ?key, dl_event = event\<rparr>"
    using assms(4) p(1) by (simp add: decode_stream_entry_def)
  with d show ?thesis by (auto intro!: bexI [OF _ d(1)])
qed

text \<open>The consumer has not been given the entry before the published one; its next poll starts at their shard.\<close>

theorem published_event_reaches_group_witness:
  "\<exists>r' s' ds. publish toy_env None ''orders'' toy_event (cs_redis toy_consumer) = (r', Inr ''2-0'')
    \<and> poll toy_env toy_config (TenantId ''t1'') ''orders'' ''g'' ''c'' 2 (toy_consumer\<lparr>cs_redis := r'\<rparr>) = (s', Inr ds)
    \<and> (\<exists>d \<in> set ds. dl_event d = toy_event \<and> delivery_id d = ''2-0'' \<and> stream_key d = ''t1:orders:3'')"
proof -
  have "snd (publish toy_env None ''orders'' toy_event (cs_redis toy_consumer)) = Inr ''2-0''" by code_simp
  then obtain r' where r': "publish toy_env None ''orders'' toy_event (cs_redis toy_consumer) = (r', Inr ''2-0'')"
    by (metis prod.collapse)
  define s where "s = toy_consumer\<lparr>cs_redis := r'\<rparr>"
  have r'_eq: "r' = fst (publish toy_env None ''orders'' toy_event (cs_redis toy_consumer))" using r' by simp
  have key: "event_key toy_env ''orders'' toy_event = ''t1:orders:3''" and shard: "unat (event_shard toy_env toy_event) = 3"
    by code_simp+
  have g: "sv_group toy_view (cs_redis toy_consumer) ''t1:orders:3'' ''g''"
    by (simp add: toy_view_def ty_group_def toy_consumer_def)
  have json: "\<forall>p. st_to_json toy_env toy_event = Inr p \<longrightarrow> st_from_json toy_env p = Inr toy_event" by (simp add: toy_env_def)
  have "snd (poll toy_env toy_config (TenantId ''t1'') ''orders'' ''g'' ''c'' 2 s)
      = Inr [\<lparr>delivery_id = ''1-0'', stream_key = ''t1:orders:3'', dl_event = toy_event\<rparr>,
             \<lparr>delivery_id = ''2-0'', stream_key = ''t1:orders:3'', dl_event = toy_event\<rparr>]"
    unfolding s_def r'_eq by code_simp
  then obtain s' ds where polled: "poll toy_env toy_config (TenantId ''t1'') ''orders'' ''g'' ''c'' 2 s = (s', Inr ds)"
    by (metis prod.collapse)
  then have polled_here: "poll toy_env toy_config (TenantId ''t1'') ''orders'' ''g'' ''c'' 2
      (s\<lparr>cs_redis := cs_redis s, cs_ensured_groups := cs_ensured_groups s\<rparr>) = (s', Inr ds)"
    by simp
  have grows: "\<forall>key. new_grows_at toy_view ''g'' key (cs_redis s) (cs_redis s)" by (simp add: new_grows_at_def)
  have "polls toy_env toy_view toy_config (TenantId ''t1'') ''orders'' ''g'' ''c'' 2 s (Suc 0) ([] @ ds) s'"
    by (rule polls.one_more [OF polls.none grows polled_here])
  then have p: "polls toy_env toy_view toy_config (ev_tenant_id toy_event) ''orders'' ''g'' ''c'' 2 s (Suc 0) ds s'"
    by (simp add: toy_event_def)
  have sole: "sole_consumer (st_redis toy_env) toy_view ''g''" using toy_sole by (simp add: toy_env_def)
  have new: "length (sv_new toy_view r' ''t1:orders:3'' ''g'') = 2"
    unfolding r'_eq by code_simp
  have "cs_redis s = r'" "(0 :: nat) < 2" by (simp_all add: s_def)
  moreover have "64 * ((length (sv_new toy_view r' ''t1:orders:3'' ''g'') - 1) div 2) + polls_before (cs_next_poll_start_shard s) 3 < Suc 0"
    unfolding new by (simp add: s_def toy_consumer_def polls_before_def)
  ultimately show ?thesis
    using published_event_reaches_group [OF toy_env_ok sole r' json _ p, unfolded key shard] g r' polled unfolding s_def by blast
qed

text \<open>
  C26 (error): one entry that cannot be decoded fails every claim whose scan takes it over.
  Wherever the claim stands when the entry comes, at whichever shard and at whichever batch of
  the shard, with the group cached or first ensured, \<open>claim_pending\<close> ends there with an error:
  neither the good entries of the batch nor the deliveries already claimed from the batches
  and shards before are returned. As Redis is documented, the entry stays owed, so that it
  comes again when it has been idle long enough.
\<close>

theorem undecodable_entry_blocks_claim:
  assumes "claim_reaches E C t stream_base grp name idle max_count s key keys cursor claimed s1" and "length claimed < max_count"
    and "claim_batch E C t stream_base grp name idle (max_count - length claimed) key cursor s1 = (s', Inr (xs, nxt))"
    and "x \<in> set xs" and "decode_stream_entry E key x = Inl e"
  shows "(\<exists>e'. claim_pending E C t stream_base grp name idle max_count s = Some (s', Inl e'))
    \<and> (streams_ok (st_redis E) V \<longrightarrow> x \<in> sv_owed V (cs_redis s') key grp)"
proof -
  obtain e' where e': "decode_entries E key xs = Inl e'" using decode_entries_undecodable [OF assms(4,5)] by blast
  then have "claim_shard E C t stream_base grp name idle max_count key cursor claimed s1 = Some (s', Inl e')"
    using assms(2-4) by (subst claim_shard.simps) auto
  then have "claim_pending E C t stream_base grp name idle max_count s = Some (s', Inl e')"
    using claim_reaches_from [OF assms(1)] by (simp add: claim_from_def)
  then show ?thesis using claim_batch_Inr [OF _ assms(3)] assms(4) by blast
qed

text \<open>A good pending entry stands before one that is not JSON; each call scans one of them.\<close>

definition toy_poisoned :: "toy_redis consumer" where
  "toy_poisoned = toy_consumer\<lparr>cs_redis := toy_set (cs_redis toy_consumer) ''t1:orders:3'' ''g''
     ([], [\<lparr>se_id = ''0-1'', se_data = Some ''e''\<rparr>, \<lparr>se_id = ''1-0'', se_data = Some ''?''\<rparr>])\<rparr>"

theorem undecodable_entry_blocks_claim_witness:
  "\<exists>s' e. claim_pending toy_env toy_config (TenantId ''t1'') ''orders'' ''g'' ''c'' 0 5 toy_poisoned = Some (s', Inl e)
    \<and> \<lparr>se_id = ''1-0'', se_data = Some ''?''\<rparr> \<in> set (owed_by (cs_redis s') ''t1:orders:3'' ''g'')"
proof -
  let ?reach = "claim_reaches toy_env toy_config (TenantId ''t1'') ''orders'' ''g'' ''c'' 0 5 toy_poisoned ''t1:orders:3''"
  let ?batch = "claim_batch toy_env toy_config (TenantId ''t1'') ''orders'' ''g'' ''c'' 0"
  let ?d = "\<lparr>delivery_id = ''0-1'', stream_key = ''t1:orders:3'', dl_event = toy_event\<rparr>"
  define s1 where "s1 = toy_poisoned\<lparr>cs_next_poll_start_shard := cs_next_poll_start_shard toy_poisoned + 1\<rparr>"
  have "hd (stream_keys_for_tenant_ordered (TenantId ''t1'') ''orders'' (start_shard toy_poisoned)) = ''t1:orders:3''" by code_simp
  then obtain keys where keys: "stream_keys_for_tenant_ordered (TenantId ''t1'') ''orders'' (start_shard toy_poisoned) = ''t1:orders:3'' # keys"
    by (cases "stream_keys_for_tenant_ordered (TenantId ''t1'') ''orders'' (start_shard toy_poisoned)")
      (auto simp: stream_keys_for_tenant_ordered_def SHARD_COUNT_def)
  have c: "validate_stream_base Consumer ''orders'' = Inr ()" "(5 :: nat) \<noteq> 0"
    "ensure_consumer_groups_cached toy_env toy_config (TenantId ''t1'') ''orders'' ''g'' toy_poisoned = (toy_poisoned, Inr ())"
    by (simp_all add: validate_stream_base_def ensure_consumer_groups_cached_def consumer_group_cache_key_def toy_poisoned_def toy_consumer_def)
  have reach: "?reach keys ''0-0'' [] s1" unfolding s1_def by (rule claim_reaches.first [OF c keys])
  have "snd (?batch 5 ''t1:orders:3'' ''0-0'' s1) = Inr ([\<lparr>se_id = ''0-1'', se_data = Some ''e''\<rparr>], ''1-0'')"
    unfolding s1_def by code_simp
  then obtain s2 where b: "?batch 5 ''t1:orders:3'' ''0-0'' s1 = (s2, Inr ([\<lparr>se_id = ''0-1'', se_data = Some ''e''\<rparr>], ''1-0''))"
    by (metis prod.collapse)
  have "decode_entries toy_env ''t1:orders:3'' [\<lparr>se_id = ''0-1'', se_data = Some ''e''\<rparr>] = Inr [?d]" by code_simp
  from claim_reaches.batch [OF reach _ _ this] b have reach2: "?reach keys ''1-0'' [?d] s2" by simp
  have "s2 = fst (?batch 5 ''t1:orders:3'' ''0-0'' s1)" using b by simp
  then have "snd (?batch 4 ''t1:orders:3'' ''1-0'' s2) = Inr ([\<lparr>se_id = ''1-0'', se_data = Some ''?''\<rparr>], ''0-0'')"
    unfolding s1_def by (simp only:) code_simp
  then obtain s3 where b2: "?batch 4 ''t1:orders:3'' ''1-0'' s2 = (s3, Inr ([\<lparr>se_id = ''1-0'', se_data = Some ''?''\<rparr>], ''0-0''))"
    by (metis prod.collapse)
  have d: "decode_stream_entry toy_env ''t1:orders:3'' \<lparr>se_id = ''1-0'', se_data = Some ''?''\<rparr> = Inl (Serialization [])"
    by (simp add: decode_stream_entry_def toy_env_def)
  from undecodable_entry_blocks_claim [OF reach2 _ _ _ d, of s3 _ "''0-0''" toy_view] b2 toy_env_ok show ?thesis
    by (auto simp: toy_view_def)
qed

end
