(* ===== verification/Sandbox_Network.thy ===== *)
theory Sandbox_Network
  imports Kernel_Prelude
begin

text \<open>
  The network policy of the code sandboxes, \<open>kernel-runtime/src/lib.rs\<close>: the allowlist of hosts
  and URL prefixes with its index, the check of a URL, and the DNS resolver that refuses private
  addresses. \<open>Url::parse\<close> is an argument; the address parser of the standard library is written out.
  The properties: the index decides exactly what the list of rules says, the bit tests on addresses
  are exactly a table of address blocks, and a resolved name never leads into one of them unless the
  allowlist names the address itself.
\<close>

unbundle bit_operations_syntax

section \<open>Addresses\<close>

datatype ip_addr =
    V4 byte byte byte byte
  | V6 u16 u16 u16 u16 u16 u16 u16 u16

text \<open>The standard library's methods on \<open>Ipv4Addr\<close> and \<open>Ipv6Addr\<close>.\<close>

fun v4_is_private :: "byte \<Rightarrow> byte \<Rightarrow> byte \<Rightarrow> byte \<Rightarrow> bool" where
  "v4_is_private a b c d \<longleftrightarrow> a = 10 \<or> a = 172 \<and> 16 \<le> b \<and> b \<le> 31 \<or> a = 192 \<and> b = 168"

fun v4_is_loopback :: "byte \<Rightarrow> byte \<Rightarrow> byte \<Rightarrow> byte \<Rightarrow> bool" where
  "v4_is_loopback a b c d \<longleftrightarrow> a = 127"

fun v4_is_link_local :: "byte \<Rightarrow> byte \<Rightarrow> byte \<Rightarrow> byte \<Rightarrow> bool" where
  "v4_is_link_local a b c d \<longleftrightarrow> a = 169 \<and> b = 254"

fun v4_is_multicast :: "byte \<Rightarrow> byte \<Rightarrow> byte \<Rightarrow> byte \<Rightarrow> bool" where
  "v4_is_multicast a b c d \<longleftrightarrow> 224 \<le> a \<and> a \<le> 239"

fun v4_is_broadcast :: "byte \<Rightarrow> byte \<Rightarrow> byte \<Rightarrow> byte \<Rightarrow> bool" where
  "v4_is_broadcast a b c d \<longleftrightarrow> a = 255 \<and> b = 255 \<and> c = 255 \<and> d = 255"

definition hi_octet :: "u16 \<Rightarrow> byte" where
  "hi_octet w = ucast (drop_bit 8 w)"

definition lo_octet :: "u16 \<Rightarrow> byte" where
  "lo_octet w = ucast w"

fun is_loopback :: "ip_addr \<Rightarrow> bool" where
  "is_loopback (V4 a b c d) = v4_is_loopback a b c d"
| "is_loopback (V6 a b c d e f g h) \<longleftrightarrow> a = 0 \<and> b = 0 \<and> c = 0 \<and> d = 0 \<and> e = 0 \<and> f = 0 \<and> g = 0 \<and> h = 1"

text \<open>\<open>is_global\<close>, its arm for IPv4.\<close>

fun is_global_v4 :: "byte \<Rightarrow> byte \<Rightarrow> byte \<Rightarrow> byte \<Rightarrow> bool" where
  "is_global_v4 a b c d =
     (if v4_is_private a b c d \<or> v4_is_loopback a b c d \<or> v4_is_link_local a b c d then False
      else if a = 0 then False
      else if a = 100 \<and> (b AND 0xC0) = 0x40 then False
      else if a = 192 \<and> b = 0 \<and> c = 0 then False
      else if a = 192 \<and> b = 0 \<and> c = 2 then False
      else if a = 198 \<and> (b AND 0xFE) = 0x12 then False
      else if a = 198 \<and> b = 51 \<and> c = 100 then False
      else if a = 203 \<and> b = 0 \<and> c = 113 then False
      else if v4_is_multicast a b c d then False
      else if (a AND 0xF0) = 0xF0 then False
      else if v4_is_broadcast a b c d then False
      else True)"

text \<open>Its arm for IPv6 addresses that are not mapped IPv4 addresses.\<close>

fun is_global_v6 :: "u16 \<Rightarrow> u16 \<Rightarrow> u16 \<Rightarrow> u16 \<Rightarrow> u16 \<Rightarrow> u16 \<Rightarrow> u16 \<Rightarrow> u16 \<Rightarrow> bool" where
  "is_global_v6 a b c d e f g h =
     (if is_loopback (V6 a b c d e f g h) then False
      else if a = 0 \<and> b = 0 \<and> c = 0 \<and> d = 0 \<and> e = 0 \<and> f = 0 \<and> g = 0 \<and> h = 0 then False
      else if (a AND 0xfe00) = 0xfc00 then False
      else if (a AND 0xffc0) = 0xfe80 then False
      else if (a AND 0xff00) = 0xff00 then False
      else if a = 0x0100 \<and> b = 0 \<and> c = 0 \<and> d = 0 then False
      else if a = 0x2001 \<and> b = 0x0db8 then False
      else if a = 0x0064 \<and> b = 0xff9b \<and> c = 0 \<and> d = 0 \<and> e = 0 \<and> f = 0 then False
      else True)"

fun is_global :: "ip_addr \<Rightarrow> bool" where
  "is_global (V4 a b c d) = is_global_v4 a b c d"
| "is_global (V6 a b c d e f g h) =
     (if a = 0 \<and> b = 0 \<and> c = 0 \<and> d = 0 \<and> e = 0 \<and> f = 0xffff
      then is_global_v4 (hi_octet g) (lo_octet g) (hi_octet h) (lo_octet h)
      else is_global_v6 a b c d e f g h)"

section \<open>Address literals\<close>

text \<open>\<open>FromStr\<close> for \<open>IpAddr\<close>: a reader returns its value and the rest of the text.\<close>

definition digit_value :: "nat \<Rightarrow> char \<Rightarrow> nat option" where
  "digit_value radix c =
     (let v = (if is_ascii_digit c then Some (of_char c - 48)
               else if is_ascii_lower c then Some (of_char c - 87)
               else if is_ascii_upper c then Some (of_char c - 55) else None)
      in case v of Some n \<Rightarrow> if n < radix then Some n else None | None \<Rightarrow> None)"

fun read_digits :: "nat \<Rightarrow> string \<Rightarrow> nat list \<times> string" where
  "read_digits radix [] = ([], [])"
| "read_digits radix (c # cs) =
     (case digit_value radix c of
        None \<Rightarrow> ([], c # cs)
      | Some v \<Rightarrow> (case read_digits radix cs of (vs, rest) \<Rightarrow> (v # vs, rest)))"

definition read_number :: "nat \<Rightarrow> nat \<Rightarrow> bool \<Rightarrow> nat \<Rightarrow> string \<Rightarrow> (nat \<times> string) option" where
  "read_number radix max_digits allow_zero_prefix bound s =
     (case read_digits radix s of (vs, rest) \<Rightarrow>
        let n = foldl (\<lambda>acc v. acc * radix + v) 0 vs
        in if vs = [] \<or> length vs > max_digits then None
           else if \<not> allow_zero_prefix \<and> hd vs = 0 \<and> length vs > 1 then None
           else if n < bound then Some (n, rest) else None)"

definition read_char :: "char \<Rightarrow> string \<Rightarrow> string option" where
  "read_char c s = (case s of x # rest \<Rightarrow> if x = c then Some rest else None | [] \<Rightarrow> None)"

definition read_octet :: "string \<Rightarrow> (byte \<times> string) option" where
  "read_octet s = map_option (\<lambda>(n, rest). (word_of_nat n, rest)) (read_number 10 3 False 256 s)"

definition read_dot_octet :: "string \<Rightarrow> (byte \<times> string) option" where
  "read_dot_octet s = Option.bind (read_char (CHR ''.'') s) read_octet"

definition read_ipv4 :: "string \<Rightarrow> ((byte \<times> byte \<times> byte \<times> byte) \<times> string) option" where
  "read_ipv4 s =
     Option.bind (read_octet s) (\<lambda>(a, s). Option.bind (read_dot_octet s) (\<lambda>(b, s).
     Option.bind (read_dot_octet s) (\<lambda>(c, s). Option.bind (read_dot_octet s) (\<lambda>(d, s). Some ((a, b, c, d), s)))))"

definition octets_word :: "byte \<Rightarrow> byte \<Rightarrow> u16" where
  "octets_word hi lo = word_of_nat (unat hi * 256 + unat lo)"

text \<open>\<open>read_groups\<close> with room for \<open>left\<close> more groups; the flag is set after an IPv4 tail.\<close>

fun read_groups :: "bool \<Rightarrow> nat \<Rightarrow> string \<Rightarrow> u16 list \<times> bool \<times> string" where
  "read_groups first 0 s = ([], False, s)"
| "read_groups first (Suc left) s =
     (case (if left \<ge> 1 then Option.bind (if first then Some s else read_char (CHR '':'') s) read_ipv4 else None) of
        Some ((a, b, c, d), rest) \<Rightarrow> ([octets_word a b, octets_word c d], True, rest)
      | None \<Rightarrow>
          (case Option.bind (if first then Some s else read_char (CHR '':'') s) (read_number 16 4 True 65536) of
             Some (n, rest) \<Rightarrow> (case read_groups False left rest of (gs, v4, rest') \<Rightarrow> (word_of_nat n # gs, v4, rest'))
           | None \<Rightarrow> ([], False, s)))"

definition v6_of_list :: "u16 list \<Rightarrow> ip_addr" where
  "v6_of_list gs = V6 (gs ! 0) (gs ! 1) (gs ! 2) (gs ! 3) (gs ! 4) (gs ! 5) (gs ! 6) (gs ! 7)"

definition read_ipv6 :: "string \<Rightarrow> (ip_addr \<times> string) option" where
  "read_ipv6 s =
     (case read_groups True 8 s of (head, head_ipv4, rest) \<Rightarrow>
        if length head = 8 then Some (v6_of_list head, rest)
        else if head_ipv4 then None
        else Option.bind (read_char (CHR '':'') rest) (\<lambda>rest. Option.bind (read_char (CHR '':'') rest) (\<lambda>rest.
               case read_groups True (8 - (length head + 1)) rest of (tail, _, rest) \<Rightarrow>
                 Some (v6_of_list (head @ replicate (8 - length head - length tail) 0 @ tail), rest))))"

definition parse_ip :: "string \<Rightarrow> ip_addr option" where
  "parse_ip s =
     (case (case read_ipv4 s of Some ((a, b, c, d), rest) \<Rightarrow> Some (V4 a b c d, rest) | None \<Rightarrow> read_ipv6 s) of
        Some (ip, []) \<Rightarrow> Some ip
      | _ \<Rightarrow> None)"

section \<open>Allowlist\<close>

text \<open>What the code reads of a parsed URL: \<open>u_port\<close> is \<open>port_or_known_default()\<close>.\<close>

record url =
  u_text :: string
  u_scheme :: string
  u_host :: "string option"
  u_port :: "u16 option"
  u_path :: string

type_synonym url_parser = "string \<Rightarrow> string + url"

datatype check_url_error =
    ParseError string
  | NoHost
  | NotAllowed string
  | UnsupportedScheme string

definition trim_brackets :: "string \<Rightarrow> string" where
  "trim_brackets s = rev (dropWhile (\<lambda>c. c = CHR '']'') (rev (dropWhile (\<lambda>c. c = CHR ''['') s)))"

definition lowercase :: "string \<Rightarrow> string" where
  "lowercase s = map to_ascii_lower s"

definition normalize_allowlist_host :: "url_parser \<Rightarrow> string \<Rightarrow> string" where
  "normalize_allowlist_host P host =
     (let trimmed = trim host
      in case P trimmed of
           Inr u \<Rightarrow> (case u_host u of
                       Some parsed_host \<Rightarrow> lowercase (trim_brackets parsed_host)
                     | None \<Rightarrow> lowercase (trim_brackets trimmed))
         | Inl _ \<Rightarrow> lowercase (trim_brackets trimmed))"

record url_prefix_rule =
  pr_scheme :: string
  pr_host :: string
  pr_explicit_port :: "u16 option"
  pr_path_prefix :: string

definition rule_from_url :: "url_parser \<Rightarrow> url \<Rightarrow> check_url_error + url_prefix_rule" where
  "rule_from_url P u =
     (if u_scheme u \<noteq> ''http'' \<and> u_scheme u \<noteq> ''https'' then Inl (UnsupportedScheme (u_scheme u))
      else (case u_host u of
              None \<Rightarrow> Inl NoHost
            | Some host \<Rightarrow>
                Inr \<lparr>pr_scheme = lowercase (u_scheme u), pr_host = normalize_allowlist_host P host,
                     pr_explicit_port = u_port u,
                     pr_path_prefix = (if u_path u = [] then ''/'' else u_path u)\<rparr>))"

definition matches_path_prefix :: "url_prefix_rule \<Rightarrow> string \<Rightarrow> bool" where
  "matches_path_prefix r path =
     (if pr_path_prefix r = ''/'' then True
      else if \<not> starts_with path (pr_path_prefix r) then False
      else if length path = length (pr_path_prefix r) then True
      else ends_with_char (pr_path_prefix r) (CHR ''/'')
           \<or> length (pr_path_prefix r) < length path \<and> path ! length (pr_path_prefix r) = CHR ''/'')"

definition rule_matches :: "url_parser \<Rightarrow> url_prefix_rule \<Rightarrow> url \<Rightarrow> bool" where
  "rule_matches P r u =
     (if lowercase (u_scheme u) \<noteq> pr_scheme r then False
      else (case u_host u of
              None \<Rightarrow> False
            | Some url_host \<Rightarrow>
                if normalize_allowlist_host P url_host \<noteq> pr_host r then False
                else if pr_explicit_port r \<noteq> None \<and> u_port u \<noteq> pr_explicit_port r then False
                else matches_path_prefix r (u_path u)))"

record allowlist =
  al_domain_set :: "string list"
  al_url_prefix_rules :: "url_prefix_rule list"
  al_url_prefix_rule_index :: "(string \<times> string \<times> u16) \<rightharpoonup> url_prefix_rule list"
  al_resolver_host_set :: "string list"

definition empty_allowlist :: allowlist where
  "empty_allowlist = \<lparr>al_domain_set = [], al_url_prefix_rules = [], al_url_prefix_rule_index = (\<lambda>_. None),
     al_resolver_host_set = []\<rparr>"

definition index_push :: "(string \<times> string \<times> u16) \<Rightarrow> url_prefix_rule
    \<Rightarrow> ((string \<times> string \<times> u16) \<rightharpoonup> url_prefix_rule list) \<Rightarrow> ((string \<times> string \<times> u16) \<rightharpoonup> url_prefix_rule list)" where
  "index_push k r m = m(k \<mapsto> (case m k of Some rs \<Rightarrow> rs | None \<Rightarrow> []) @ [r])"

definition allow_host :: "url_parser \<Rightarrow> string \<Rightarrow> allowlist \<Rightarrow> allowlist" where
  "allow_host P trimmed al =
     (let host = normalize_allowlist_host P trimmed
      in al\<lparr>al_resolver_host_set := host # al_resolver_host_set al, al_domain_set := host # al_domain_set al\<rparr>)"

definition allow_rule :: "url_prefix_rule \<Rightarrow> allowlist \<Rightarrow> allowlist" where
  "allow_rule r al =
     al\<lparr>al_resolver_host_set := pr_host r # al_resolver_host_set al,
        al_url_prefix_rule_index := (case pr_explicit_port r of
            Some port \<Rightarrow> index_push (pr_scheme r, pr_host r, port) r (al_url_prefix_rule_index al)
          | None \<Rightarrow> al_url_prefix_rule_index al),
        al_url_prefix_rules := al_url_prefix_rules al @ [r]\<rparr>"

definition allow_entry :: "url_parser \<Rightarrow> string \<Rightarrow> allowlist \<Rightarrow> allowlist" where
  "allow_entry P entry al =
     (let trimmed = trim entry
      in case P trimmed of
           Inr u \<Rightarrow> (case rule_from_url P u of
                       Inr r \<Rightarrow> allow_rule r al
                     | Inl (UnsupportedScheme _) \<Rightarrow> al
                     | Inl NoHost \<Rightarrow> al
                     | Inl _ \<Rightarrow> allow_host P trimmed al)
         | Inl _ \<Rightarrow> allow_host P trimmed al)"

definition NormalizedAllowlist_new :: "url_parser \<Rightarrow> string list \<Rightarrow> allowlist" where
  "NormalizedAllowlist_new P entries = fold (allow_entry P) entries empty_allowlist"

definition contains_host :: "url_parser \<Rightarrow> allowlist \<Rightarrow> string \<Rightarrow> bool" where
  "contains_host P al host \<longleftrightarrow> normalize_allowlist_host P host \<in> set (al_resolver_host_set al)"

definition is_url_allowed :: "url_parser \<Rightarrow> allowlist \<Rightarrow> url \<Rightarrow> bool" where
  "is_url_allowed P al u =
     (case u_host u of
        None \<Rightarrow> False
      | Some host \<Rightarrow>
          (let normalized_host = normalize_allowlist_host P host
           in if normalized_host \<in> set (al_domain_set al) then True
              else (case u_port u of
                      None \<Rightarrow> list_ex (\<lambda>r. rule_matches P r u) (al_url_prefix_rules al)
                    | Some port \<Rightarrow>
                        (case al_url_prefix_rule_index al (lowercase (u_scheme u), normalized_host, port) of
                           None \<Rightarrow> False
                         | Some bucket \<Rightarrow> list_ex (\<lambda>r. matches_path_prefix r (u_path u)) bucket))))"

definition check_url :: "url_parser \<Rightarrow> allowlist \<Rightarrow> string \<Rightarrow> check_url_error + url" where
  "check_url P al url_str =
     (case P url_str of
        Inl e \<Rightarrow> Inl (ParseError e)
      | Inr u \<Rightarrow>
          if u_scheme u \<noteq> ''http'' \<and> u_scheme u \<noteq> ''https'' then Inl (UnsupportedScheme (u_scheme u))
          else (case u_host u of
                  None \<Rightarrow> Inl NoHost
                | Some host \<Rightarrow> if is_url_allowed P al u then Inr u else Inl (NotAllowed host)))"

section \<open>Resolver\<close>

datatype lookup_result = LookupTimeout | LookupFailed string | LookupAddrs "ip_addr list"

datatype resolve_error =
    HostNotAllowed string
  | DnsTimedOut string
  | DnsFailed string
  | NoAddresses
  | AddressNotAllowed ip_addr string

definition unbracket :: "string \<Rightarrow> string" where
  "unbracket host =
     (if starts_with host ''['' \<and> ends_with_char (tl host) (CHR '']'') then butlast (tl host) else host)"

definition is_safe_ip :: "url_parser \<Rightarrow> allowlist \<Rightarrow> string \<Rightarrow> ip_addr \<Rightarrow> bool" where
  "is_safe_ip P al host ip =
     (if is_global ip then True
      else if parse_ip (unbracket host) = Some ip then True
      else if host = ''localhost'' \<and> contains_host P al ''localhost'' \<and> is_loopback ip then True
      else False)"

definition resolve :: "url_parser \<Rightarrow> allowlist \<Rightarrow> (string \<Rightarrow> lookup_result) \<Rightarrow> string \<Rightarrow> resolve_error + ip_addr list" where
  "resolve P al lookup_host name =
     (if \<not> contains_host P al name then Inl (HostNotAllowed name)
      else (case lookup_host name of
              LookupTimeout \<Rightarrow> Inl (DnsTimedOut name)
            | LookupFailed e \<Rightarrow> Inl (DnsFailed e)
            | LookupAddrs addrs \<Rightarrow>
                if addrs = [] then Inl NoAddresses
                else (case find (\<lambda>ip. \<not> is_safe_ip P al name ip) addrs of
                        Some ip \<Rightarrow> Inl (AddressNotAllowed ip name)
                      | None \<Rightarrow> Inr addrs)))"

section \<open>Address blocks\<close>

text \<open>An address as a number, and blocks in the notation base/length.\<close>

definition positional :: "nat \<Rightarrow> nat list \<Rightarrow> nat" where
  "positional b xs = foldl (\<lambda>n x. n * b + x) 0 xs"

definition v4_number :: "nat \<Rightarrow> nat \<Rightarrow> nat \<Rightarrow> nat \<Rightarrow> nat" where
  "v4_number a b c d = positional 256 [a, b, c, d]"

fun ip_number :: "ip_addr \<Rightarrow> nat" where
  "ip_number (V4 a b c d) = v4_number (unat a) (unat b) (unat c) (unat d)"
| "ip_number (V6 a b c d e f g h) =
     positional 65536 [unat a, unat b, unat c, unat d, unat e, unat f, unat g, unat h]"

definition in_block :: "nat \<Rightarrow> nat \<Rightarrow> nat \<times> nat \<Rightarrow> bool" where
  "in_block width n blk \<longleftrightarrow> n div 2 ^ (width - snd blk) = fst blk div 2 ^ (width - snd blk)"

definition special_v4 :: "(nat \<times> nat) list" where
  "special_v4 =
     [(v4_number 10 0 0 0, 8), (v4_number 172 16 0 0, 12), (v4_number 192 168 0 0, 16), (v4_number 127 0 0 0, 8),
      (v4_number 169 254 0 0, 16), (v4_number 0 0 0 0, 8), (v4_number 100 64 0 0, 10), (v4_number 192 0 0 0, 24),
      (v4_number 192 0 2 0, 24), (v4_number 198 18 0 0, 15), (v4_number 198 51 100 0, 24), (v4_number 203 0 113 0, 24),
      (v4_number 224 0 0 0, 4), (v4_number 240 0 0 0, 4)]"

definition special_v6 :: "(nat \<times> nat) list" where
  "special_v6 =
     [(1, 128), (0, 128), (0xfc00 * 2 ^ 112, 7), (0xfe80 * 2 ^ 112, 10), (0xff00 * 2 ^ 112, 8), (0x0100 * 2 ^ 112, 64),
      ((0x2001 * 65536 + 0x0db8) * 2 ^ 96, 32), ((0x0064 * 65536 + 0xff9b) * 2 ^ 96, 96)]"

text \<open>The blocks of IPv4 are blocked in \<open>::ffff:0:0/96\<close> as well.\<close>

definition mapped_v4 :: "(nat \<times> nat) list" where
  "mapped_v4 = map (\<lambda>(base, len). (0xffff * 2 ^ 32 + base, 96 + len)) special_v4"

fun is_special :: "ip_addr \<Rightarrow> bool" where
  "is_special (V4 a b c d) = list_ex (in_block 32 (ip_number (V4 a b c d))) special_v4"
| "is_special (V6 a b c d e f g h) = list_ex (in_block 128 (ip_number (V6 a b c d e f g h))) (special_v6 @ mapped_v4)"

lemma two_digits:
  "y < m \<Longrightarrow> Y < m \<Longrightarrow> x * m + y = X * m + Y \<longleftrightarrow> x = X \<and> y = Y" for m :: nat
  by (metis add.commute div_mult_self1_is_m div_less mod_mult_self1 mod_less div_mult_self3 add_0 less_nat_zero_code not_less_zero gr_zeroI)

lemma positional_snoc: "positional b (xs @ [x]) = positional b xs * b + x" "positional b [] = 0"
  by (simp_all add: positional_def)

lemma positional_append:
  "positional b (xs @ ys) = positional b xs * b ^ length ys + positional b ys"
proof (induction ys rule: rev_induct)
  case (snoc y ys)
  have "positional b (xs @ ys @ [y]) = positional b (xs @ ys) * b + y"
    using positional_snoc(1) [of b "xs @ ys" y] by simp
  also have "\<dots> = positional b xs * (b ^ length ys * b) + (positional b ys * b + y)"
    unfolding snoc.IH by (simp add: add_mult_distrib)
  finally show ?case by (simp add: positional_snoc mult.commute)
qed (simp add: positional_snoc)

lemma positional_less: "list_all (\<lambda>y. y < b) ys \<Longrightarrow> positional b ys < b ^ length ys"
proof (induction ys rule: rev_induct)
  case (snoc y ys)
  then have "positional b ys + 1 \<le> b ^ length ys" "y < b" by simp_all
  from mult_le_mono1 [OF this(1), of b] this(2) show ?case by (simp add: positional_snoc mult.commute)
qed (simp add: positional_snoc)

lemma positional_div:
  assumes "list_all (\<lambda>y. y < b) ys"
  shows "positional b (xs @ ys) div b ^ length ys = positional b xs"
    and "positional b (xs @ ys) mod b ^ length ys = positional b ys"
proof -
  note less = positional_less [OF assms]
  then have "b ^ length ys \<noteq> 0" by linarith
  with less show "positional b (xs @ ys) div b ^ length ys = positional b xs"
    unfolding positional_append by (metis div_mult_self3 div_less add_0_right)
  from less show "positional b (xs @ ys) mod b ^ length ys = positional b ys"
    unfolding positional_append by simp
qed

lemma positional_inj:
  assumes "list_all (\<lambda>y. y < b) xs" "list_all (\<lambda>y. y < b) ys" "length xs = length ys"
  shows "positional b xs = positional b ys \<longleftrightarrow> xs = ys"
  using assms
proof (induction xs arbitrary: ys rule: rev_induct)
  case (snoc x xs)
  then obtain ys' y where ys: "ys = ys' @ [y]" by (cases ys rule: rev_exhaust) auto
  have last: "positional b [z] = z" for z by (simp add: positional_def)
  have "x < b" "y < b" using snoc.prems ys by simp_all
  then have "positional b (xs @ [x]) = positional b (ys' @ [y]) \<longleftrightarrow> positional b xs = positional b ys' \<and> x = y"
    by (auto simp: positional_append last two_digits)
  with snoc ys show ?case by simp
qed simp

lemma positional_zeros: "positional 65536 [0, 0, 0, 0, 0, 65535] = 65535"
  by (simp add: positional_def)

lemma unat_byte_less: "unat (x :: byte) < 256"
  using unsigned_less [of x, where 'a = nat] by simp

lemma unat_u16_less: "unat (x :: u16) < 65536"
  using unsigned_less [of x, where 'a = nat] by simp

text \<open>Comparing the high bits of a word is comparing quotients.\<close>

lemma and_not_mask: "w AND NOT (mask n) = push_bit n (drop_bit n w)" for w :: "'a :: len word"
  by (rule bit_eqI) (auto simp: bit_simps)

lemma high_bits_eq:
  "m = NOT (mask n) \<Longrightarrow> take_bit n v = 0 \<Longrightarrow> w AND m = v \<longleftrightarrow> unat w div 2 ^ n = unat v div 2 ^ n" for w v :: "'a :: len word"
proof -
  assume m: "m = NOT (mask n)" and "take_bit n v = 0"
  from this(2) have "v = push_bit n (drop_bit n v)" using bits_ident [of n v] by simp
  moreover have "drop_bit n (push_bit n (drop_bit n x)) = drop_bit n x" for x :: "'a word"
    by (rule bit_eqI) (auto simp: bit_simps dest: bit_imp_le_length)
  ultimately have "w AND m = v \<longleftrightarrow> drop_bit n w = drop_bit n v"
    unfolding m and_not_mask by metis
  also have "\<dots> \<longleftrightarrow> unat (drop_bit n w) = unat (drop_bit n v)" by (rule word_unat_eq_iff)
  also have "\<dots> \<longleftrightarrow> unat w div 2 ^ n = unat v div 2 ^ n"
    unfolding unat_drop_bit_eq drop_bit_eq_div [where 'a = nat] ..
  finally show ?thesis .
qed

lemma byte_blocks:
  "b AND 0xC0 = 0x40 \<longleftrightarrow> unat b div 64 = 1" "b AND 0xFE = 0x12 \<longleftrightarrow> unat b div 2 = 9"
  "b AND 0xF0 = 0xF0 \<longleftrightarrow> unat b div 16 = 15" for b :: byte
proof -
  have m: "(0xC0 :: byte) = NOT (mask 6)" "(0xFE :: byte) = NOT (mask 1)" "(0xF0 :: byte) = NOT (mask 4)"
    by (simp_all flip: minus_exp_eq_not_mask)
  show "b AND 0xC0 = 0x40 \<longleftrightarrow> unat b div 64 = 1" "b AND 0xFE = 0x12 \<longleftrightarrow> unat b div 2 = 9"
    "b AND 0xF0 = 0xF0 \<longleftrightarrow> unat b div 16 = 15"
    using high_bits_eq [OF m(1), of "0x40" b] high_bits_eq [OF m(2), of "0x12" b] high_bits_eq [OF m(3), of "0xF0" b]
    by simp_all
qed

lemma byte_ranges:
  "16 \<le> b \<and> b \<le> 31 \<longleftrightarrow> unat b div 16 = 1" "224 \<le> b \<and> b \<le> 239 \<longleftrightarrow> unat b div 16 = 14" for b :: byte
  by (auto simp: word_le_nat_alt)

lemma v4_in_special:
  assumes "A < 256" "B < 256" "C < 256" "D < 256"
  shows "list_ex (in_block 32 (v4_number A B C D)) special_v4 \<longleftrightarrow>
     A = 10 \<or> (A = 172 \<and> B div 16 = 1) \<or> (A = 192 \<and> B = 168) \<or> A = 127 \<or> (A = 169 \<and> B = 254) \<or> A = 0
     \<or> (A = 100 \<and> B div 64 = 1) \<or> (A = 192 \<and> B = 0 \<and> C = 0) \<or> (A = 192 \<and> B = 0 \<and> C = 2)
     \<or> (A = 198 \<and> B div 2 = 9) \<or> (A = 198 \<and> B = 51 \<and> C = 100) \<or> (A = 203 \<and> B = 0 \<and> C = 113)
     \<or> A div 16 = 14 \<or> A div 16 = 15"
proof -
  define n where "n = v4_number A B C D"
  have quot: "n div 16777216 = A" "n div 65536 = A * 256 + B" "n div 256 = (A * 256 + B) * 256 + C"
    using positional_div(1) [of 256 "[B, C, D]" "[A]"] positional_div(1) [of 256 "[C, D]" "[A, B]"]
      positional_div(1) [of 256 "[D]" "[A, B, C]"] assms
    by (simp_all add: n_def v4_number_def positional_def)
  have "n div 268435456 = n div 16777216 div 16" "n div 4194304 = n div 65536 div 64" "n div 131072 = n div 65536 div 2"
    "n div 1048576 = n div 65536 div 16"
    by (simp_all flip: div_mult2_eq)
  moreover have "(A * 256 + B) div 16 = A * 16 + B div 16" "(A * 256 + B) div 64 = A * 4 + B div 64"
    "(A * 256 + B) div 2 = A * 128 + B div 2"
    by simp_all
  ultimately have sub: "n div 268435456 = A div 16" "n div 4194304 = A * 4 + B div 64" "n div 131072 = A * 128 + B div 2"
    "n div 1048576 = A * 16 + B div 16"
    unfolding quot by simp_all
  have lt: "B div 16 < 16" "B div 64 < 4" "B div 2 < 128" using assms(2) by (simp_all add: less_mult_imp_div_less)
  have digits: "A * 16 + B div 16 = 2753 \<longleftrightarrow> A = 172 \<and> B div 16 = 1" "A * 4 + B div 64 = 401 \<longleftrightarrow> A = 100 \<and> B div 64 = 1"
    "A * 128 + B div 2 = 25353 \<longleftrightarrow> A = 198 \<and> B div 2 = 9"
    "A * 256 + B = 49320 \<longleftrightarrow> A = 192 \<and> B = 168" "A * 256 + B = 43518 \<longleftrightarrow> A = 169 \<and> B = 254"
    using two_digits [OF lt(1), of 1 A 172] two_digits [OF lt(2), of 1 A 100] two_digits [OF lt(3), of 9 A 198]
      two_digits [OF assms(2), of 168 A 192] two_digits [OF assms(2), of 254 A 169] by simp_all
  have three: "(A * 256 + B) * 256 + C = (X * 256 + Y) * 256 + Z \<longleftrightarrow> A = X \<and> B = Y \<and> C = Z" if "Y < 256" "Z < 256" for X Y Z
    using two_digits [OF assms(3) that(2), of "A * 256 + B" "X * 256 + Y"] two_digits [OF assms(2) that(1), of A X] by simp
  have digits3: "(A * 256 + B) * 256 + C = 12582912 \<longleftrightarrow> A = 192 \<and> B = 0 \<and> C = 0"
    "(A * 256 + B) * 256 + C = 12582914 \<longleftrightarrow> A = 192 \<and> B = 0 \<and> C = 2"
    "(A * 256 + B) * 256 + C = 12989284 \<longleftrightarrow> A = 198 \<and> B = 51 \<and> C = 100"
    "(A * 256 + B) * 256 + C = 13303921 \<longleftrightarrow> A = 203 \<and> B = 0 \<and> C = 113"
    using three [of 0 0 192] three [of 0 2 192] three [of 51 100 198] three [of 0 113 203] by simp_all
  have blocks: "list_ex (in_block 32 n) special_v4 \<longleftrightarrow>
      n div 16777216 = 10 \<or> n div 1048576 = 2753 \<or> n div 65536 = 49320 \<or> n div 16777216 = 127 \<or> n div 65536 = 43518
      \<or> n div 16777216 = 0 \<or> n div 4194304 = 401 \<or> n div 256 = 12582912 \<or> n div 256 = 12582914 \<or> n div 131072 = 25353
      \<or> n div 256 = 12989284 \<or> n div 256 = 13303921 \<or> n div 268435456 = 14 \<or> n div 268435456 = 15"
    by (simp add: special_v4_def in_block_def v4_number_def positional_def)
  show ?thesis unfolding n_def [symmetric] blocks quot sub digits digits3 ..
qed

lemma v4_special_octets:
  "\<not> is_global_v4 a b c d \<longleftrightarrow>
     a = 10 \<or> (a = 172 \<and> 16 \<le> b \<and> b \<le> 31) \<or> (a = 192 \<and> b = 168) \<or> a = 127 \<or> (a = 169 \<and> b = 254) \<or> a = 0
     \<or> (a = 100 \<and> b AND 0xC0 = 0x40) \<or> (a = 192 \<and> b = 0 \<and> c = 0) \<or> (a = 192 \<and> b = 0 \<and> c = 2)
     \<or> (a = 198 \<and> b AND 0xFE = 0x12) \<or> (a = 198 \<and> b = 51 \<and> c = 100) \<or> (a = 203 \<and> b = 0 \<and> c = 113)
     \<or> (224 \<le> a \<and> a \<le> 239) \<or> a AND 0xF0 = 0xF0"
  by auto

lemma unat_byte_eq: "n < 256 \<Longrightarrow> unat x = n \<longleftrightarrow> x = word_of_nat n" for x :: byte
  by (auto simp: unat_of_nat take_bit_nat_eq_self)

lemma is_global_v4_blocks:
  "is_global_v4 a b c d \<longleftrightarrow> \<not> list_ex (in_block 32 (v4_number (unat a) (unat b) (unat c) (unat d))) special_v4"
proof -
  note lt = unat_byte_less
  have "\<not> is_global_v4 a b c d \<longleftrightarrow> list_ex (in_block 32 (v4_number (unat a) (unat b) (unat c) (unat d))) special_v4"
    unfolding v4_special_octets byte_ranges byte_blocks v4_in_special [OF lt lt lt lt]
    by (simp add: unat_byte_eq)
  then show ?thesis by blast
qed

text \<open>A block of IPv4 inside its mapped image, and nothing else, meets the mapped blocks.\<close>

lemma in_mapped:
  assumes "y < 2 ^ 32" "z < 2 ^ 32" "len \<le> 32"
  shows "in_block 128 (x * 2 ^ 32 + y) (w * 2 ^ 32 + z, 96 + len) \<longleftrightarrow> x = w \<and> in_block 32 y (z, len)"
proof -
  define k where "k = 32 - len"
  have pow: "(2 :: nat) ^ 32 = 2 ^ len * 2 ^ k" using assms(3) by (simp add: k_def flip: power_add)
  have quot: "(u * 2 ^ 32 + v) div 2 ^ k = u * 2 ^ len + v div 2 ^ k" for u v :: nat
  proof -
    have "u * 2 ^ 32 + v = v + (u * 2 ^ len) * 2 ^ k" unfolding pow by simp
    then show ?thesis by (simp only: div_mult_self1) simp
  qed
  have diff_128: "128 - (96 + len) = k" by (simp add: k_def)
  have less: "v div 2 ^ k < 2 ^ len" if "v < 2 ^ 32" for v :: nat
    using that unfolding pow by (rule less_mult_imp_div_less)
  show ?thesis
    using two_digits [OF less [OF assms(1)] less [OF assms(2)], of x w]
    unfolding in_block_def fst_conv snd_conv k_def [symmetric] diff_128 quot by blast
qed

lemma special_v4_wf: "list_all (\<lambda>(base, len). base < 2 ^ 32 \<and> len \<le> 32) special_v4"
  by (simp add: special_v4_def v4_number_def positional_def)

lemma in_mapped_v4:
  "y < 2 ^ 32 \<Longrightarrow> list_ex (in_block 128 (x * 2 ^ 32 + y)) mapped_v4 \<longleftrightarrow> x = 0xffff \<and> list_ex (in_block 32 y) special_v4"
  using special_v4_wf in_mapped [of y _ _ x "0xffff"]
  by (fastforce simp: mapped_v4_def list_ex_iff list_all_iff split: prod.splits)


lemma u16_blocks:
  "w AND 0xfe00 = 0xfc00 \<longleftrightarrow> unat w div 512 = 126" "w AND 0xffc0 = 0xfe80 \<longleftrightarrow> unat w div 64 = 1018"
  "w AND 0xff00 = 0xff00 \<longleftrightarrow> unat w div 256 = 255" for w :: u16
proof -
  have m: "(0xfe00 :: u16) = NOT (mask 9)" "(0xffc0 :: u16) = NOT (mask 6)" "(0xff00 :: u16) = NOT (mask 8)"
    by (simp_all flip: minus_exp_eq_not_mask)
  show "w AND 0xfe00 = 0xfc00 \<longleftrightarrow> unat w div 512 = 126" "w AND 0xffc0 = 0xfe80 \<longleftrightarrow> unat w div 64 = 1018"
    "w AND 0xff00 = 0xff00 \<longleftrightarrow> unat w div 256 = 255"
    using high_bits_eq [OF m(1), of "0xfc00" w] high_bits_eq [OF m(2), of "0xfe80" w] high_bits_eq [OF m(3), of "0xff00" w]
    by simp_all
qed

lemma unat_u16_eq: "n < 65536 \<Longrightarrow> unat x = n \<longleftrightarrow> x = word_of_nat n" for x :: u16
  by (auto simp: unat_of_nat take_bit_nat_eq_self)

lemma v6_in_special:
  assumes "list_all (\<lambda>x. x < 65536) [a, b, c, d, e, f, g, h]"
  shows "list_ex (in_block 128 (positional 65536 [a, b, c, d, e, f, g, h])) special_v6 \<longleftrightarrow>
     [a, b, c, d, e, f, g, h] = [0, 0, 0, 0, 0, 0, 0, 1] \<or> [a, b, c, d, e, f, g, h] = [0, 0, 0, 0, 0, 0, 0, 0]
     \<or> a div 512 = 126 \<or> a div 64 = 1018 \<or> a div 256 = 255 \<or> [a, b, c, d] = [0x0100, 0, 0, 0]
     \<or> [a, b] = [0x2001, 0x0db8] \<or> [a, b, c, d, e, f] = [0x0064, 0xff9b, 0, 0, 0, 0]"
proof -
  define n where "n = positional 65536 [a, b, c, d, e, f, g, h]"
  have one: "positional 65536 [a] = a" by (simp add: positional_def)
  have quot: "n div 2 ^ 112 = a" "n div 2 ^ 64 = positional 65536 [a, b, c, d]" "n div 2 ^ 96 = positional 65536 [a, b]"
      "n div 2 ^ 32 = positional 65536 [a, b, c, d, e, f]"
    using positional_div(1) [of 65536 "[b, c, d, e, f, g, h]" "[a]"] positional_div(1) [of 65536 "[e, f, g, h]" "[a, b, c, d]"]
      positional_div(1) [of 65536 "[c, d, e, f, g, h]" "[a, b]"] positional_div(1) [of 65536 "[g, h]" "[a, b, c, d, e, f]"] assms
    by (simp_all add: n_def one)
  have "n div 2 ^ 121 = n div 2 ^ 112 div 2 ^ 9" "n div 2 ^ 118 = n div 2 ^ 112 div 2 ^ 6" "n div 2 ^ 120 = n div 2 ^ 112 div 2 ^ 8"
    by (simp_all flip: div_mult2_eq)
  then have sub: "n div 2 ^ 121 = a div 512" "n div 2 ^ 118 = a div 64" "n div 2 ^ 120 = a div 256"
    unfolding quot by simp_all
  have inj: "positional 65536 xs = v \<longleftrightarrow> xs = ys"
    if "positional 65536 ys = v" "list_all (\<lambda>x. x < 65536) xs" "list_all (\<lambda>x. x < 65536) ys" "length xs = length ys" for xs ys v
    using positional_inj [OF that(2-4)] that(1) by simp
  have digits: "n = 1 \<longleftrightarrow> [a, b, c, d, e, f, g, h] = [0, 0, 0, 0, 0, 0, 0, 1]"
    "n = 0 \<longleftrightarrow> [a, b, c, d, e, f, g, h] = [0, 0, 0, 0, 0, 0, 0, 0]"
    "positional 65536 [a, b, c, d] = 0x0100 * 2 ^ 48 \<longleftrightarrow> [a, b, c, d] = [0x0100, 0, 0, 0]"
    "positional 65536 [a, b] = 0x2001 * 65536 + 0x0db8 \<longleftrightarrow> [a, b] = [0x2001, 0x0db8]"
    "positional 65536 [a, b, c, d, e, f] = (0x0064 * 65536 + 0xff9b) * 2 ^ 64 \<longleftrightarrow> [a, b, c, d, e, f] = [0x0064, 0xff9b, 0, 0, 0, 0]"
    unfolding n_def using assms by (intro inj; simp add: positional_def)+
  have blocks: "list_ex (in_block 128 n) special_v6 \<longleftrightarrow>
      n = 1 \<or> n = 0 \<or> n div 2 ^ 121 = 126 \<or> n div 2 ^ 118 = 1018 \<or> n div 2 ^ 120 = 255 \<or> n div 2 ^ 64 = 0x0100 * 2 ^ 48
      \<or> n div 2 ^ 96 = 0x2001 * 65536 + 0x0db8 \<or> n div 2 ^ 32 = (0x0064 * 65536 + 0xff9b) * 2 ^ 64"
    by (simp add: special_v6_def in_block_def)
  show ?thesis unfolding n_def [symmetric] blocks quot sub digits ..
qed

lemma v6_special_segments:
  "\<not> is_global_v6 a b c d e f g h \<longleftrightarrow>
     [a, b, c, d, e, f, g, h] = [0, 0, 0, 0, 0, 0, 0, 1] \<or> [a, b, c, d, e, f, g, h] = [0, 0, 0, 0, 0, 0, 0, 0]
     \<or> a AND 0xfe00 = 0xfc00 \<or> a AND 0xffc0 = 0xfe80 \<or> a AND 0xff00 = 0xff00 \<or> [a, b, c, d] = [0x0100, 0, 0, 0]
     \<or> [a, b] = [0x2001, 0x0db8] \<or> [a, b, c, d, e, f] = [0x0064, 0xff9b, 0, 0, 0, 0]"
  by auto

lemma is_global_v6_blocks:
  "is_global_v6 a b c d e f g h \<longleftrightarrow> \<not> list_ex (in_block 128 (ip_number (V6 a b c d e f g h))) special_v6"
proof -
  have "list_all (\<lambda>x. x < 65536) [unat a, unat b, unat c, unat d, unat e, unat f, unat g, unat h]"
    using unat_u16_less by simp
  from v6_in_special [OF this]
  have "\<not> is_global_v6 a b c d e f g h \<longleftrightarrow> list_ex (in_block 128 (ip_number (V6 a b c d e f g h))) special_v6"
    unfolding v6_special_segments u16_blocks by (simp add: unat_u16_eq)
  then show ?thesis by blast
qed

lemma octets_of_u16: "unat (hi_octet w) * 256 + unat (lo_octet w) = unat w" for w :: u16
proof -
  have "unat w div 256 < 256" using unat_u16_less [of w] by (simp add: less_mult_imp_div_less)
  then have "unat (hi_octet w) = unat w div 256"
    unfolding hi_octet_def unsigned_ucast_eq unat_drop_bit_eq drop_bit_eq_div [where 'a = nat]
    by (simp add: take_bit_nat_eq_self)
  moreover have "unat (lo_octet w) = unat w mod 256"
    by (simp add: lo_octet_def unsigned_ucast_eq take_bit_eq_mod)
  ultimately show ?thesis by simp
qed

lemma is_global_special:
  "is_global ip \<longleftrightarrow> \<not> is_special ip"
proof (cases ip)
  case (V4 a b c d)
  then show ?thesis using is_global_v4_blocks by simp
next
  case (V6 a b c d e f g h)
  let ?low = "v4_number (unat (hi_octet g)) (unat (lo_octet g)) (unat (hi_octet h)) (unat (lo_octet h))"
  have low: "?low = positional 65536 [unat g, unat h]"
    using octets_of_u16 [of g] octets_of_u16 [of h] by (simp add: v4_number_def positional_def algebra_simps)
  have lt: "?low < 2 ^ 32" unfolding low using positional_less [of 65536 "[unat g, unat h]"] unat_u16_less by simp
  define p where "p = positional 65536 [unat a, unat b, unat c, unat d, unat e, unat f]"
  have n: "ip_number ip = p * 2 ^ 32 + ?low"
    using positional_append [of 65536 "[unat a, unat b, unat c, unat d, unat e, unat f]" "[unat g, unat h]"]
    by (simp add: V6 p_def low)
  have p: "p = 0xffff \<longleftrightarrow> a = 0 \<and> b = 0 \<and> c = 0 \<and> d = 0 \<and> e = 0 \<and> f = 0xffff"
    using positional_inj [of 65536 "[unat a, unat b, unat c, unat d, unat e, unat f]" "[0, 0, 0, 0, 0, 0xffff]"] unat_u16_less
    unfolding p_def by (simp add: unat_u16_eq positional_zeros)
  note mapped = in_mapped_v4 [OF lt, of p, folded n]
  have special: "is_special ip \<longleftrightarrow>
      list_ex (in_block 128 (ip_number ip)) special_v6 \<or> list_ex (in_block 128 (ip_number ip)) mapped_v4"
    unfolding V6 is_special.simps by simp
  have global: "is_global ip = (if p = 0xffff then is_global_v4 (hi_octet g) (lo_octet g) (hi_octet h) (lo_octet h)
      else is_global_v6 a b c d e f g h)"
    unfolding p unfolding V6 is_global.simps ..
  have v6: "is_global_v6 a b c d e f g h \<longleftrightarrow> \<not> list_ex (in_block 128 (ip_number ip)) special_v6"
    unfolding V6 by (rule is_global_v6_blocks)
  have "is_global_v6 a b c d e f g h" if "p = 0xffff"
    using that unfolding p by simp
  then show ?thesis unfolding special global mapped v6 is_global_v4_blocks by auto
qed

text \<open>
  C23 (equivalence): the bit tests of \<open>is_global\<close> are a table of address blocks. An address counts as
  global exactly when, read as a number, it lies in none of the listed special-purpose blocks
  of its family; an IPv6 address that maps an IPv4 address is judged by the blocks of IPv4.
\<close>

theorem is_global_exact:
  "is_global ip \<longleftrightarrow> \<not> is_special ip"
  by (rule is_global_special)

section \<open>What an allowlist means\<close>

definition entry_host :: "url_parser \<Rightarrow> string \<Rightarrow> string option" where
  "entry_host P e = (case P (trim e) of Inl _ \<Rightarrow> Some (normalize_allowlist_host P (trim e)) | Inr _ \<Rightarrow> None)"

definition entry_rule :: "url_parser \<Rightarrow> string \<Rightarrow> url_prefix_rule option" where
  "entry_rule P e = (case P (trim e) of Inl _ \<Rightarrow> None | Inr u \<Rightarrow> (case rule_from_url P u of Inl _ \<Rightarrow> None | Inr r \<Rightarrow> Some r))"

definition rule_key :: "url_prefix_rule \<Rightarrow> (string \<times> string \<times> u16) option" where
  "rule_key r = map_option (\<lambda>port. (pr_scheme r, pr_host r, port)) (pr_explicit_port r)"

definition under_path :: "string \<Rightarrow> string \<Rightarrow> bool" where
  "under_path pre path \<longleftrightarrow>
     pre = ''/'' \<or> path = pre \<or> starts_with path (if ends_with_char pre (CHR ''/'') then pre else pre @ ''/'')"

definition bucket_of :: "url_prefix_rule list \<Rightarrow> string \<times> string \<times> u16 \<Rightarrow> url_prefix_rule list option" where
  "bucket_of rules k = (case filter (\<lambda>r. rule_key r = Some k) rules of [] \<Rightarrow> None | rs \<Rightarrow> Some rs)"

lemma rule_from_url_Inr:
  "rule_from_url P u = Inr r \<longleftrightarrow> (u_scheme u = ''http'' \<or> u_scheme u = ''https'') \<and> (\<exists>h. u_host u = Some h \<and>
     r = \<lparr>pr_scheme = lowercase (u_scheme u), pr_host = normalize_allowlist_host P h, pr_explicit_port = u_port u,
          pr_path_prefix = (if u_path u = [] then ''/'' else u_path u)\<rparr>)"
  unfolding rule_from_url_def by (cases "u_host u") (simp_all, blast)

lemma rule_from_url_Inl:
  "rule_from_url P u = Inl e \<Longrightarrow> e = NoHost \<or> (\<exists>x. e = UnsupportedScheme x)"
  by (auto simp: rule_from_url_def split: option.splits if_splits)

lemma allow_entry_cases:
  "allow_entry P e al =
     (case entry_rule P e of
        Some r \<Rightarrow> allow_rule r al
      | None \<Rightarrow> (case entry_host P e of Some _ \<Rightarrow> allow_host P (trim e) al | None \<Rightarrow> al))"
  using rule_from_url_Inl
  by (fastforce simp: allow_entry_def entry_rule_def entry_host_def Let_def split: sum.splits check_url_error.splits)

lemma bucket_of_snoc:
  "bucket_of (rules @ [r]) = (case rule_key r of None \<Rightarrow> bucket_of rules | Some k \<Rightarrow> index_push k r (bucket_of rules))"
  by (rule ext) (auto simp: bucket_of_def index_push_def split: option.splits list.splits)

lemma allow_rule_key:
  "al_url_prefix_rule_index (allow_rule r al) =
     (case rule_key r of None \<Rightarrow> al_url_prefix_rule_index al | Some k \<Rightarrow> index_push k r (al_url_prefix_rule_index al))"
  by (simp add: allow_rule_def rule_key_def split: option.splits)

lemma allowlist_new:
  "set (al_domain_set (NormalizedAllowlist_new P es)) = {h. \<exists>e \<in> set es. entry_rule P e = None \<and> entry_host P e = Some h}"
  "al_url_prefix_rules (NormalizedAllowlist_new P es) = List.map_filter (entry_rule P) es"
  "al_url_prefix_rule_index (NormalizedAllowlist_new P es) = bucket_of (List.map_filter (entry_rule P) es)"
  "set (al_resolver_host_set (NormalizedAllowlist_new P es)) =
     {h. \<exists>e \<in> set es. case entry_rule P e of Some r \<Rightarrow> h = pr_host r | None \<Rightarrow> entry_host P e = Some h}"
proof (induction es rule: rev_induct)
  case (snoc e es)
  have new: "NormalizedAllowlist_new P (es @ [e]) = allow_entry P e (NormalizedAllowlist_new P es)"
    by (simp add: NormalizedAllowlist_new_def)
  have host: "entry_host P e = Some h \<Longrightarrow> h = normalize_allowlist_host P (trim e)" for h
    by (simp add: entry_host_def split: sum.splits)
  {
    case 1 show ?case using snoc(1) host
      by (auto simp: new allow_entry_cases allow_rule_def allow_host_def Let_def split: option.splits)
  next
    case 2 show ?case using snoc(2)
      by (auto simp: new allow_entry_cases allow_rule_def allow_host_def Let_def map_filter_def split: option.splits)
  next
    case 3 show ?case using snoc(3)
      by (auto simp: new allow_entry_cases allow_rule_key allow_host_def Let_def map_filter_def bucket_of_snoc split: option.splits)
  next
    case 4 show ?case using snoc(4) host
      by (auto simp: new allow_entry_cases allow_rule_def allow_host_def Let_def split: option.splits)
  }
qed (simp_all add: NormalizedAllowlist_new_def empty_allowlist_def map_filter_def bucket_of_def fun_eq_iff)

lemma matches_path_prefix_iff: "matches_path_prefix r path \<longleftrightarrow> under_path (pr_path_prefix r) path"
proof -
  let ?p = "pr_path_prefix r"
  have "starts_with path (?p @ ''/'') \<longleftrightarrow> starts_with path ?p \<and> length ?p < length path \<and> path ! length ?p = CHR ''/''"
  proof (cases "starts_with path ?p")
    case True
    then obtain t where "path = ?p @ t" unfolding starts_with_iff by blast
    then show ?thesis by (cases t) (simp_all add: starts_with_def)
  next
    case False
    then show ?thesis by (auto simp: starts_with_iff)
  qed
  moreover have "length path = length ?p \<and> starts_with path ?p \<longleftrightarrow> path = ?p"
    by (auto simp: starts_with_def)
  ultimately show ?thesis unfolding matches_path_prefix_def under_path_def by auto
qed

lemma rule_matches_iff:
  "rule_matches P r u \<longleftrightarrow> pr_scheme r = lowercase (u_scheme u)
     \<and> (\<exists>h. u_host u = Some h \<and> pr_host r = normalize_allowlist_host P h)
     \<and> (pr_explicit_port r = None \<or> pr_explicit_port r = u_port u) \<and> under_path (pr_path_prefix r) (u_path u)"
  by (auto simp: rule_matches_def matches_path_prefix_iff split: option.splits)

lemma bucket_of_ex:
  "(case bucket_of rules k of None \<Rightarrow> False | Some rs \<Rightarrow> list_ex Q rs) \<longleftrightarrow> (\<exists>r \<in> set rules. rule_key r = Some k \<and> Q r)"
proof -
  have "(case (case rs of [] \<Rightarrow> None | x # xs \<Rightarrow> Some (x # xs)) of None \<Rightarrow> False | Some rs \<Rightarrow> list_ex Q rs) \<longleftrightarrow> (\<exists>r \<in> set rs. Q r)" for rs
    by (cases rs) (auto simp: list_ex_iff)
  then show ?thesis unfolding bucket_of_def by auto
qed

text \<open>The url crate knows a default port for \<open>http\<close> and \<open>https\<close>.\<close>

definition known_ports :: "url_parser \<Rightarrow> bool" where
  "known_ports P \<longleftrightarrow> (\<forall>s u. P s = Inr u \<longrightarrow> u_scheme u = ''http'' \<or> u_scheme u = ''https'' \<longrightarrow> u_port u \<noteq> None)"

text \<open>
  the index decides what the entries say. \<open>check_url\<close> lets a URL through exactly
  when it parses, its scheme is \<open>http\<close> or \<open>https\<close>, and some entry of the allowlist covers it:
  a plain entry with the same normalised host, or a URL entry with the same scheme, host and
  port whose path is the URL's path or a prefix of it that ends at a segment boundary.
\<close>

theorem check_url_exact:
  assumes "known_ports P"
  shows "check_url P (NormalizedAllowlist_new P entries) s = Inr u \<longleftrightarrow>
     P s = Inr u \<and> (u_scheme u = ''http'' \<or> u_scheme u = ''https'') \<and>
     (\<exists>h. u_host u = Some h \<and>
        (\<exists>e \<in> set entries. entry_host P e = Some (normalize_allowlist_host P h)
           \<or> (\<exists>r. entry_rule P e = Some r \<and> pr_scheme r = lowercase (u_scheme u) \<and> pr_host r = normalize_allowlist_host P h
                \<and> pr_explicit_port r = u_port u \<and> under_path (pr_path_prefix r) (u_path u))))"
    (is "_ \<longleftrightarrow> _ \<and> ?http \<and> (\<exists>h. u_host u = Some h \<and> ?ok h)")
proof -
  let ?al = "NormalizedAllowlist_new P entries"
  have rule_host: "entry_rule P e = None" if "entry_host P e = Some h" for e h
    using that by (simp add: entry_rule_def entry_host_def split: sum.splits)
  have rules: "(\<exists>r \<in> set (List.map_filter (entry_rule P) entries). Q r) \<longleftrightarrow>
      (\<exists>e \<in> set entries. \<exists>r. entry_rule P e = Some r \<and> Q r)" for Q
    by (force simp: map_filter_def)
  have ok: "is_url_allowed P ?al u \<longleftrightarrow> ?ok h" if "P s = Inr u" "?http" and h: "u_host u = Some h" for h
  proof -
    from assms that(1,2) obtain port where port: "u_port u = Some port" unfolding known_ports_def by blast
    have "is_url_allowed P ?al u \<longleftrightarrow> normalize_allowlist_host P h \<in> set (al_domain_set ?al)
        \<or> (\<exists>r \<in> set (List.map_filter (entry_rule P) entries).
             rule_key r = Some (lowercase (u_scheme u), normalize_allowlist_host P h, port) \<and> matches_path_prefix r (u_path u))"
      by (simp add: is_url_allowed_def h port allowlist_new(3) bucket_of_ex Let_def)
    also have "\<dots> \<longleftrightarrow> ?ok h"
      unfolding rules rule_key_def matches_path_prefix_iff port using rule_host
      by (simp add: allowlist_new(1) conj_assoc) blast
    finally show ?thesis .
  qed
  show ?thesis
    using ok by (auto simp: check_url_def split: sum.splits option.splits if_splits)
qed

text \<open>A parser that knows two URLs.\<close>

definition toy_url :: url_parser where
  "toy_url s =
     (if s = ''https://a.io/v1'' \<or> s = ''https://a.io/v1/x''
      then Inr \<lparr>u_text = s, u_scheme = ''https'', u_host = Some ''a.io'', u_port = Some 443, u_path = drop 12 s\<rparr>
      else Inl ''relative URL without a base'')"

theorem check_url_exact_witness:
  "check_url toy_url (NormalizedAllowlist_new toy_url [''localhost'', ''https://a.io/v1'']) ''https://a.io/v1/x''
     = Inr \<lparr>u_text = ''https://a.io/v1/x'', u_scheme = ''https'', u_host = Some ''a.io'', u_port = Some 443, u_path = ''/v1/x''\<rparr>"
proof -
  have ports: "known_ports toy_url" by (simp add: known_ports_def toy_url_def)
  have url: "toy_url ''https://a.io/v1/x'' = Inr \<lparr>u_text = ''https://a.io/v1/x'', u_scheme = ''https'',
      u_host = Some ''a.io'', u_port = Some 443, u_path = ''/v1/x''\<rparr>"
    by (simp add: toy_url_def)
  have trim: "trim ''https://a.io/v1'' = ''https://a.io/v1''" "trim ''a.io'' = ''a.io''"
    by (rule trim_plain, simp_all add: ascii_graph_def)+
  have "lowercase (trim_brackets ''a.io'') = ''a.io''" by code_simp
  then have host: "normalize_allowlist_host toy_url ''a.io'' = ''a.io''"
    by (simp add: normalize_allowlist_host_def trim toy_url_def)
  have https: "lowercase ''https'' = ''https''" by code_simp
  have rule: "entry_rule toy_url ''https://a.io/v1'' = Some \<lparr>pr_scheme = ''https'', pr_host = ''a.io'',
      pr_explicit_port = Some 443, pr_path_prefix = ''/v1''\<rparr>"
    by (simp add: entry_rule_def trim toy_url_def rule_from_url_def host https)
  have "under_path ''/v1'' ''/v1/x''" by (simp add: under_path_def ends_with_char_def starts_with_def)
  with url rule host https show ?thesis unfolding check_url_exact [OF ports] by simp
qed

text \<open>
  C24 (safety): a name never resolves into a private network. When the resolver returns addresses,
  it is all the lookup's addresses and at least one, the name is the host of an entry of the
  allowlist, and an address in a special-purpose block is among them only if the name is
  that very address, or is \<open>localhost\<close> and the address is a loopback one.
\<close>

theorem resolver_blocks_private_addresses:
  assumes "resolve P (NormalizedAllowlist_new P entries) lookup_host name = Inr addrs"
  shows "lookup_host name = LookupAddrs addrs \<and> addrs \<noteq> []
    \<and> (\<exists>e \<in> set entries. (case entry_rule P e of Some r \<Rightarrow> pr_host r = normalize_allowlist_host P name
                             | None \<Rightarrow> entry_host P e = Some (normalize_allowlist_host P name)))
    \<and> (\<forall>ip \<in> set addrs. is_special ip \<longrightarrow>
         parse_ip (unbracket name) = Some ip \<or> name = ''localhost'' \<and> is_loopback ip)"
proof -
  let ?al = "NormalizedAllowlist_new P entries"
  have host: "contains_host P ?al name" and addrs: "lookup_host name = LookupAddrs addrs" "addrs \<noteq> []"
    and safe: "find (\<lambda>ip. \<not> is_safe_ip P ?al name ip) addrs = None"
    using assms by (auto simp: resolve_def split: if_splits lookup_result.splits option.splits)
  have "\<exists>e \<in> set entries. (case entry_rule P e of Some r \<Rightarrow> pr_host r = normalize_allowlist_host P name
                             | None \<Rightarrow> entry_host P e = Some (normalize_allowlist_host P name))"
    using host unfolding contains_host_def allowlist_new(4) by (force split: option.splits)
  moreover have "\<forall>ip \<in> set addrs. is_special ip \<longrightarrow>
         parse_ip (unbracket name) = Some ip \<or> name = ''localhost'' \<and> is_loopback ip"
    using safe unfolding find_None_iff is_safe_ip_def is_global_special by (auto split: if_splits)
  ultimately show ?thesis using addrs by blast
qed


theorem resolver_blocks_private_addresses_witness:
  "resolve toy_url (NormalizedAllowlist_new toy_url [''localhost'']) (\<lambda>_. LookupAddrs [V4 127 0 0 1]) ''localhost'' = Inr [V4 127 0 0 1]
     \<and> filter (\<lambda>ip. is_special ip \<and> parse_ip (unbracket ''localhost'') \<noteq> Some ip \<and> \<not> is_loopback ip) [V4 127 0 0 1] = []"
proof -
  let ?al = "NormalizedAllowlist_new toy_url [''localhost'']"
  have "entry_rule toy_url ''localhost'' = None" "entry_host toy_url ''localhost'' = Some ''localhost''"
    "normalize_allowlist_host toy_url ''localhost'' = ''localhost''"
  proof -
    have "trim ''localhost'' = ''localhost''" by (rule trim_plain) (simp_all add: ascii_graph_def)
    moreover have "lowercase (trim_brackets ''localhost'') = ''localhost''" by code_simp
    ultimately show "entry_rule toy_url ''localhost'' = None" "entry_host toy_url ''localhost'' = Some ''localhost''"
      "normalize_allowlist_host toy_url ''localhost'' = ''localhost''"
      by (simp_all add: entry_rule_def entry_host_def normalize_allowlist_host_def toy_url_def Let_def)
  qed
  then have "contains_host toy_url ?al ''localhost''" by (simp add: contains_host_def allowlist_new(4))
  then have found: "resolve toy_url ?al (\<lambda>_. LookupAddrs [V4 127 0 0 1]) ''localhost'' = Inr [V4 127 0 0 1]"
    by (simp add: resolve_def is_safe_ip_def)
  from resolver_blocks_private_addresses [OF this] have "\<forall>ip \<in> set [V4 127 0 0 1]. is_special ip \<longrightarrow>
      parse_ip (unbracket ''localhost'') = Some ip \<or> is_loopback ip" by blast
  with found show ?thesis unfolding filter_empty_conv by blast
qed

end
