(* ===== verification/Sandbox_Fetch.thy ===== *)
theory Sandbox_Fetch
  imports Sandbox_Network
begin

text \<open>
  The host functions through which sandboxed code reaches the network:
  \<open>flexi_fetch\<close> of \<open>kernel-runtime/src/wasm_runtime.rs\<close>, which reads its arguments from the guest's
  linear memory and writes the answer there, and \<open>op_fetch\<close> and \<open>op_set_output\<close> of
  \<open>kernel-runtime/src/deno_runtime.rs\<close>; then the budgets and the error mapping of \<open>WasmSandbox::execute\<close>.

  The guest's memory is its bytes. The HTTP client, the parser of methods and of the header JSON,
  base64 and the JSON renderer are arguments. A client is told which redirects it may follow.
  The properties: \<open>flexi_fetch\<close> never touches memory outside the buffer the guest offered, whatever
  integers the guest passes, and no sandbox contacts a URL the allowlist does not cover.
\<close>

type_synonym i32 = "32 word"

section \<open>Host function of the WebAssembly sandbox\<close>

definition MAX_FETCH_BODY_BYTES :: nat where
  "MAX_FETCH_BODY_BYTES = 10 * 1024 * 1024"

definition MAX_FETCH_URL_BYTES :: nat where
  "MAX_FETCH_URL_BYTES = 8 * 1024"

definition MAX_FETCH_METHOD_BYTES :: nat where
  "MAX_FETCH_METHOD_BYTES = 16"

definition MAX_FETCH_HEADERS_JSON_BYTES :: nat where
  "MAX_FETCH_HEADERS_JSON_BYTES = 64 * 1024"

definition MAX_FETCH_REQUEST_BODY_BYTES :: nat where
  "MAX_FETCH_REQUEST_BODY_BYTES = MAX_FETCH_BODY_BYTES"

definition ERR_NO_MEMORY_EXPORT :: i32 where "ERR_NO_MEMORY_EXPORT = - 1"
definition ERR_READ_MEM :: i32 where "ERR_READ_MEM = - 2"
definition ERR_UTF8 :: i32 where "ERR_UTF8 = - 3"
definition ERR_CHECK_URL :: i32 where "ERR_CHECK_URL = - 4"
definition ERR_REQUEST_FAIL :: i32 where "ERR_REQUEST_FAIL = - 6"
definition ERR_READ_BODY_FAIL :: i32 where "ERR_READ_BODY_FAIL = - 7"
definition ERR_WRITE_FAIL :: i32 where "ERR_WRITE_FAIL = - 9"
definition ERR_INVALID_LEN :: i32 where "ERR_INVALID_LEN = - 10"
definition ERR_PARSE_METHOD :: i32 where "ERR_PARSE_METHOD = - 11"
definition ERR_PARSE_HEADERS :: i32 where "ERR_PARSE_HEADERS = - 12"
definition ERR_RESPONSE_TOO_LARGE :: i32 where "ERR_RESPONSE_TOO_LARGE = - 13"

lemmas fetch_errors =
  ERR_NO_MEMORY_EXPORT_def ERR_READ_MEM_def ERR_UTF8_def ERR_CHECK_URL_def ERR_REQUEST_FAIL_def ERR_READ_BODY_FAIL_def
  ERR_WRITE_FAIL_def ERR_INVALID_LEN_def ERR_PARSE_METHOD_def ERR_PARSE_HEADERS_def ERR_RESPONSE_TOO_LARGE_def

text \<open>Reading and writing linear memory fails outside its bounds and changes nothing then.\<close>

definition mem_read :: "string \<Rightarrow> nat \<Rightarrow> nat \<Rightarrow> string option" where
  "mem_read mem start len = (if start + len \<le> length mem then Some (take len (drop start mem)) else None)"

definition mem_write :: "string \<Rightarrow> nat \<Rightarrow> string \<Rightarrow> string option" where
  "mem_write mem start bytes =
     (if start + length bytes \<le> length mem
      then Some (take start mem @ bytes @ drop (start + length bytes) mem) else None)"

text \<open>\<open>i32 as usize\<close> extends the sign; \<open>usize\<close> has 64 bits.\<close>

definition usize_of_i32 :: "i32 \<Rightarrow> u64" where
  "usize_of_i32 x = scast x"

definition read_string :: "string \<Rightarrow> i32 \<Rightarrow> i32 \<Rightarrow> nat \<Rightarrow> i32 + string" where
  "read_string mem ptr len max_len =
     (if sint ptr < 0 \<or> sint len < 0 then Inl ERR_INVALID_LEN
      else (let start = usize_of_i32 ptr; len = usize_of_i32 len
            in if unat len > max_len then Inl ERR_INVALID_LEN
               else (case checked_add_u64 start len of
                       None \<Rightarrow> Inl ERR_INVALID_LEN
                     | Some fin \<Rightarrow>
                         if unat fin > length mem then Inl ERR_INVALID_LEN
                         else (case mem_read mem (unat start) (unat len) of
                                 None \<Rightarrow> Inl ERR_READ_MEM
                               | Some buf \<Rightarrow> if is_utf8 (map of_char buf) then Inr buf else Inl ERR_UTF8))))"

datatype header_input = Single string | Multi "string list"

fun header_values :: "string \<times> header_input \<Rightarrow> (string \<times> string) list" where
  "header_values (k, Single v) = [(k, v)]"
| "header_values (k, Multi vs) = map (\<lambda>v. (k, v)) vs"

record http_request =
  hq_method :: string
  hq_url :: url
  hq_timeout :: nat
  hq_headers :: "(string \<times> string) list"
  hq_body :: "string option"

record http_answer =
  ha_status :: u16
  ha_headers :: "(string \<times> string) list"
  ha_chunks :: "(string + string) list"

text \<open>
  What is asked of a redirect: the URLs visited so far, the first of them the request's own,
  and the next one. \<open>nw_send\<close> runs a request under such a policy; chunks of the body may fail.
\<close>

type_synonym redirect_policy = "string list \<Rightarrow> string \<Rightarrow> bool"

record 'w network =
  nw_send :: "redirect_policy \<Rightarrow> http_request \<Rightarrow> 'w \<Rightarrow> 'w \<times> (string + http_answer)"
  nw_parse_url :: url_parser
  nw_is_method :: "string \<Rightarrow> bool"
  nw_parse_headers :: "string \<Rightarrow> (string \<times> header_input) list option"
  nw_base64 :: "string \<Rightarrow> string"
  nw_render :: "u16 \<Rightarrow> string option \<Rightarrow> string \<Rightarrow> string"

definition wasm_redirect_policy :: "url_parser \<Rightarrow> allowlist \<Rightarrow> redirect_policy" where
  "wasm_redirect_policy P al previous u =
     (if length previous \<ge> 10 then False
      else (case check_url P al u of Inr _ \<Rightarrow> True | Inl _ \<Rightarrow> False))"

datatype body_error = ChunkFailed string | BodyTooLarge

fun read_body :: "string \<Rightarrow> (string + string) list \<Rightarrow> body_error + string" where
  "read_body acc [] = Inr acc"
| "read_body acc (chunk_res # rest) =
     (case chunk_res of
        Inl e \<Rightarrow> Inl (ChunkFailed e)
      | Inr chunk \<Rightarrow>
          if length acc + length chunk > MAX_FETCH_BODY_BYTES then Inl BodyTooLarge
          else read_body (acc @ chunk) rest)"

definition body_error_code :: "body_error \<Rightarrow> i32" where
  "body_error_code e = (case e of ChunkFailed _ \<Rightarrow> ERR_READ_BODY_FAIL | BodyTooLarge \<Rightarrow> ERR_RESPONSE_TOO_LARGE)"

definition response_json :: "'w network \<Rightarrow> u16 \<Rightarrow> string \<Rightarrow> string" where
  "response_json N status body_bytes =
     nw_render N status (if is_utf8 (map of_char body_bytes) then Some body_bytes else None) (nw_base64 N body_bytes)"

definition write_response :: "string \<Rightarrow> i32 \<Rightarrow> i32 \<Rightarrow> string \<Rightarrow> string \<times> i32" where
  "write_response mem out_ptr out_max_len json_bytes =
     (if sint out_max_len < 0 then (mem, ERR_INVALID_LEN)
      else if sint out_ptr < 0 then (mem, ERR_INVALID_LEN)
      else (let out_len = usize_of_i32 out_max_len; out_start = usize_of_i32 out_ptr
            in case checked_add_u64 out_start out_len of
                 None \<Rightarrow> (mem, ERR_INVALID_LEN)
               | Some out_end \<Rightarrow>
                   if unat out_end > length mem then (mem, ERR_INVALID_LEN)
                   else if length json_bytes > unat out_len then (mem, ERR_RESPONSE_TOO_LARGE)
                   else (case mem_write mem (unat out_start) json_bytes of
                           None \<Rightarrow> (mem, ERR_WRITE_FAIL)
                         | Some mem' \<Rightarrow> (mem', word_of_nat (length json_bytes)))))"

record fetch_args =
  fa_url_ptr :: i32
  fa_url_len :: i32
  fa_method_ptr :: i32
  fa_method_len :: i32
  fa_headers_ptr :: i32
  fa_headers_len :: i32
  fa_body_ptr :: i32
  fa_body_len :: i32
  fa_out_ptr :: i32
  fa_out_max_len :: i32

text \<open>The four texts of a call, read in the order of the code.\<close>

definition read_args :: "string \<Rightarrow> fetch_args \<Rightarrow> i32 + (string \<times> string \<times> string \<times> string)" where
  "read_args mem a =
     and_then (read_string mem (fa_url_ptr a) (fa_url_len a) MAX_FETCH_URL_BYTES) (\<lambda>url_str.
     and_then (read_string mem (fa_method_ptr a) (fa_method_len a) MAX_FETCH_METHOD_BYTES) (\<lambda>method_str.
     and_then (read_string mem (fa_headers_ptr a) (fa_headers_len a) MAX_FETCH_HEADERS_JSON_BYTES) (\<lambda>headers_str.
     and_then (read_string mem (fa_body_ptr a) (fa_body_len a) MAX_FETCH_REQUEST_BODY_BYTES) (\<lambda>body_str.
     Inr (url_str, method_str, headers_str, body_str)))))"

definition build_request :: "'w network \<Rightarrow> allowlist \<Rightarrow> nat \<Rightarrow> nat \<Rightarrow> string \<times> string \<times> string \<times> string \<Rightarrow> i32 + http_request" where
  "build_request N al fetch_budget elapsed texts =
     (case texts of (url_str, method_str, headers_str, body_str) \<Rightarrow>
        (case check_url (nw_parse_url N) al url_str of
           Inl _ \<Rightarrow> Inl ERR_CHECK_URL
         | Inr u \<Rightarrow>
             if \<not> nw_is_method N method_str then Inl ERR_PARSE_METHOD
             else (let remaining = fetch_budget - elapsed
                   in if remaining = 0 then Inl ERR_REQUEST_FAIL
                      else (case (if headers_str = [] then Some [] else nw_parse_headers N headers_str) of
                              None \<Rightarrow> Inl ERR_PARSE_HEADERS
                            | Some headers_val \<Rightarrow>
                                Inr \<lparr>hq_method = method_str, hq_url = u, hq_timeout = remaining,
                                     hq_headers = concat (map header_values headers_val),
                                     hq_body = (if body_str = [] then None else Some body_str)\<rparr>))))"

definition flexi_fetch :: "'w network \<Rightarrow> allowlist \<Rightarrow> nat \<Rightarrow> nat \<Rightarrow> fetch_args \<Rightarrow> string option \<Rightarrow> 'w \<Rightarrow> 'w \<times> string option \<times> i32" where
  "flexi_fetch N al fetch_budget elapsed a memory w =
     (case memory of
        None \<Rightarrow> (w, None, ERR_NO_MEMORY_EXPORT)
      | Some mem \<Rightarrow>
          (case and_then (read_args mem a) (build_request N al fetch_budget elapsed) of
             Inl e \<Rightarrow> (w, Some mem, e)
           | Inr req \<Rightarrow>
               (case nw_send N (wasm_redirect_policy (nw_parse_url N) al) req w of
                  (w', Inl _) \<Rightarrow> (w', Some mem, ERR_REQUEST_FAIL)
                | (w', Inr resp) \<Rightarrow>
                    (case read_body [] (ha_chunks resp) of
                       Inl e \<Rightarrow> (w', Some mem, body_error_code e)
                     | Inr body_bytes \<Rightarrow>
                         (case write_response mem (fa_out_ptr a) (fa_out_max_len a) (response_json N (ha_status resp) body_bytes) of
                            (mem', code) \<Rightarrow> (w', Some mem', code))))))"

section \<open>Host functions of the JavaScript sandbox\<close>

datatype js_error = JsGeneric string | InvalidInput string

definition deno_check_url :: "url_parser \<Rightarrow> allowlist \<Rightarrow> string \<Rightarrow> js_error + url" where
  "deno_check_url P al url_str =
     (case check_url P al url_str of
        Inr u \<Rightarrow> Inr u
      | Inl (NotAllowed msg) \<Rightarrow> Inl (JsGeneric (''Network access to '' @ [CHR 0x27] @ msg @ [CHR 0x27] @ '' is not allowed''))
      | Inl (ParseError e) \<Rightarrow> Inl (InvalidInput (''Parse error: '' @ e))
      | Inl NoHost \<Rightarrow> Inl (InvalidInput ''URL must have a host'')
      | Inl (UnsupportedScheme scheme) \<Rightarrow> Inl (InvalidInput (''Unsupported URL scheme: '' @ scheme)))"

record fetch_options =
  fo_method :: "string option"
  fo_headers :: "(string \<times> string) list option"
  fo_body :: "string option"

record fetch_response =
  fr_status :: u16
  fr_status_text :: string
  fr_headers :: "(string \<times> string) list"
  fr_body_bytes :: string

text \<open>\<open>reason\<close> is the canonical reason phrase of a status, \<open>header_text\<close> a header value that is visible ASCII.\<close>

record http_texts =
  ht_reason :: "u16 \<Rightarrow> string option"
  ht_header_text :: "string \<Rightarrow> string option"
  ht_limit :: string

definition no_redirects :: redirect_policy where
  "no_redirects previous u = False"

definition or_else :: "'a option \<Rightarrow> 'a \<Rightarrow> 'a" where
  "or_else m d = (case m of Some x \<Rightarrow> x | None \<Rightarrow> d)"

text \<open>The client of the JavaScript sandbox has a timeout of 30 seconds (\<open>MILLISECONDS\<close>).\<close>

definition DENO_FETCH_TIMEOUT :: nat where
  "DENO_FETCH_TIMEOUT = 30000"

definition op_fetch :: "'w network \<Rightarrow> http_texts \<Rightarrow> allowlist \<Rightarrow> string \<Rightarrow> fetch_options option \<Rightarrow> 'w \<Rightarrow> 'w \<times> (js_error + fetch_response)" where
  "op_fetch N T al url_str options w =
     (case deno_check_url (nw_parse_url N) al url_str of
        Inl e \<Rightarrow> (w, Inl e)
      | Inr u \<Rightarrow>
          (let meth = (case options of Some opts \<Rightarrow> or_else (fo_method opts) ''GET'' | None \<Rightarrow> ''GET'')
           in if options \<noteq> None \<and> \<not> nw_is_method N meth then (w, Inl (InvalidInput ''invalid HTTP method''))
              else (case nw_send N no_redirects
                           \<lparr>hq_method = meth, hq_url = u, hq_timeout = DENO_FETCH_TIMEOUT,
                            hq_headers = (case options of Some opts \<Rightarrow> or_else (fo_headers opts) [] | None \<Rightarrow> []),
                            hq_body = Option.bind options fo_body\<rparr> w of
                      (w', Inl e) \<Rightarrow> (w', Inl (JsGeneric e))
                    | (w', Inr response) \<Rightarrow>
                        (case read_body [] (ha_chunks response) of
                           Inl (ChunkFailed e) \<Rightarrow> (w', Inl (JsGeneric e))
                         | Inl BodyTooLarge \<Rightarrow> (w', Inl (JsGeneric (''Fetch response body exceeded limit of '' @ ht_limit T @ '' bytes'')))
                         | Inr body \<Rightarrow>
                             (w', Inr \<lparr>fr_status = ha_status response,
                                       fr_status_text = or_else (ht_reason T (ha_status response)) [],
                                       fr_headers = map (\<lambda>(k, v). (k, or_else (ht_header_text T v) [])) (ha_headers response),
                                       fr_body_bytes = body\<rparr>)))))"

text \<open>The output is JSON text of bounded length; a later call replaces it.\<close>

datatype output_error = OutputTooLarge nat nat | OutputNotJson string

definition op_set_output :: "nat option \<Rightarrow> (string \<Rightarrow> string + 'j) \<Rightarrow> string \<Rightarrow> 'j option \<Rightarrow> 'j option \<times> (output_error + unit)" where
  "op_set_output max_output parse_json json out =
     (case max_output of
        Some max_output_size \<Rightarrow>
          if length json > max_output_size then (out, Inl (OutputTooLarge max_output_size (length json)))
          else (case parse_json json of Inl e \<Rightarrow> (out, Inl (OutputNotJson e)) | Inr v \<Rightarrow> (Some v, Inr ()))
      | None \<Rightarrow> (case parse_json json of Inl e \<Rightarrow> (out, Inl (OutputNotJson e)) | Inr v \<Rightarrow> (Some v, Inr ())))"

section \<open>Outcomes of an execution\<close>

datatype sandbox_error =
    Timeout
  | MemoryLimitExceeded
  | CpuLimitExceeded
  | RuntimeError string
  | InitError string
  | PermissionDenied string

datatype trap = OutOfFuel | Interrupt | AllocationTooLarge | MemoryOutOfBounds | OtherTrap

datatype wasm_error = WasmError (we_trap: "trap option") (we_text: string)

definition map_wasm_error :: "wasm_error \<Rightarrow> sandbox_error" where
  "map_wasm_error e =
     (case we_trap e of
        Some OutOfFuel \<Rightarrow> CpuLimitExceeded
      | Some Interrupt \<Rightarrow> Timeout
      | Some AllocationTooLarge \<Rightarrow> MemoryLimitExceeded
      | Some MemoryOutOfBounds \<Rightarrow> RuntimeError ''memory out of bounds''
      | Some OtherTrap \<Rightarrow> RuntimeError (we_text e)
      | None \<Rightarrow>
          if contains_str (we_text e) ''allocation too large'' \<or> contains_str (we_text e) ''exceeded memory limits''
             \<or> contains_str (we_text e) ''growing memory''
          then MemoryLimitExceeded else RuntimeError (we_text e))"

record runtime_options =
  ro_memory_limit :: nat
  ro_cpu_time_limit :: nat
  ro_wall_clock_limit :: nat
  ro_network_allowlist :: "string list"
  ro_max_output_size :: "nat option"

definition DEFAULT_MAX_STDOUT :: nat where
  "DEFAULT_MAX_STDOUT = 2 ^ 20"

text \<open>Ten thousand units of fuel per millisecond, in 128 bits and cut to 64.\<close>

definition fuel_of :: "nat \<Rightarrow> u64" where
  "fuel_of cpu_millis = word_of_nat (min (min (cpu_millis * 10000) (2 ^ 128 - 1)) (2 ^ 64 - 1))"

text \<open>
  The outer world of one execution: the time elapsed (in milliseconds) at each reading of the
  clock, and what the engine answers. The run gets its fuel, its memory limit, the capacity
  of its output pipes and the budget of its host function; it ends with an error or not and leaves
  the bytes of its output.
\<close>

datatype permit_outcome = Permit | PermitClosed | PermitTimedOut

datatype compile_outcome = Compiled | CompileFailed wasm_error | CompileCrashed string

record wasm_limits =
  wl_fuel :: u64
  wl_memory :: nat
  wl_capacity :: nat
  wl_fetch_budget :: nat

record 'j wasm_world =
  wx_linker :: "string + unit"
  wx_input :: "string + string"
  wx_client :: "string + unit"
  wx_set_fuel :: "string + unit"
  wx_elapsed_queue :: nat
  wx_permit :: permit_outcome
  wx_elapsed_compile :: nat
  wx_compile :: compile_outcome
  wx_elapsed_compiled :: nat
  wx_elapsed_run :: nat
  wx_instantiate :: "wasm_limits \<Rightarrow> wasm_error + unit"
  wx_start_func :: "wasm_error + unit"
  wx_call :: "wasm_limits \<Rightarrow> string \<Rightarrow> (wasm_error + unit) \<times> string"
  wx_wall_timeout :: bool
  wx_parse_json :: "string \<Rightarrow> 'j option"
  wx_null :: 'j
  wx_string :: "string \<Rightarrow> 'j"
  wx_limit_text :: "nat \<Rightarrow> string"
  wx_utf8_text :: "string \<Rightarrow> string"

definition decode_output :: "'j wasm_world \<Rightarrow> nat \<Rightarrow> string \<Rightarrow> sandbox_error + 'j" where
  "decode_output X effective_max_stdout stdout_bytes =
     (if length stdout_bytes > effective_max_stdout then Inl (RuntimeError (wx_limit_text X effective_max_stdout))
      else if \<not> is_utf8 (map of_char stdout_bytes) then Inl (RuntimeError (wx_utf8_text X stdout_bytes))
      else (let trimmed = trim stdout_bytes
            in if trimmed = [] then Inr (wx_null X)
               else (case wx_parse_json X trimmed of Some json \<Rightarrow> Inr json | None \<Rightarrow> Inr (wx_string X trimmed))))"

definition map_run_error :: "bool \<Rightarrow> wasm_error \<Rightarrow> sandbox_error" where
  "map_run_error wall_timeout e =
     (case map_wasm_error e of
        RuntimeError m \<Rightarrow> if wall_timeout then Timeout else RuntimeError m
      | mapped \<Rightarrow> mapped)"

definition wasm_run :: "runtime_options \<Rightarrow> 'j wasm_world \<Rightarrow> string \<Rightarrow> sandbox_error + 'j" where
  "wasm_run ro X input_json =
     (let effective_max_stdout = or_else (ro_max_output_size ro) DEFAULT_MAX_STDOUT;
          execute_budget = ro_wall_clock_limit ro - wx_elapsed_run X;
          limits = \<lparr>wl_fuel = fuel_of (ro_cpu_time_limit ro), wl_memory = ro_memory_limit ro,
                    wl_capacity = min (effective_max_stdout + 1) (2 ^ 64 - 1), wl_fetch_budget = execute_budget\<rparr>
      in if wx_elapsed_compiled X > ro_wall_clock_limit ro then Inl Timeout
         else if execute_budget = 0 then Inl Timeout
         else (case wx_instantiate X limits of
                 Inl e \<Rightarrow> Inl (map_wasm_error e)
               | Inr _ \<Rightarrow>
                   (case wx_start_func X of
                      Inl e \<Rightarrow> Inl (map_wasm_error e)
                    | Inr _ \<Rightarrow>
                        (case wx_call X limits input_json of
                           (Inl e, _) \<Rightarrow> Inl (map_run_error (wx_wall_timeout X) e)
                         | (Inr _, stdout_bytes) \<Rightarrow> decode_output X effective_max_stdout stdout_bytes))))"

definition wasm_execute :: "runtime_options \<Rightarrow> 'j wasm_world \<Rightarrow> sandbox_error + 'j" where
  "wasm_execute ro X =
     (case wx_linker X of
        Inl e \<Rightarrow> Inl (InitError e)
      | Inr _ \<Rightarrow>
          (case wx_input X of
             Inl e \<Rightarrow> Inl (RuntimeError (''failed to serialize input: '' @ e))
           | Inr input_json \<Rightarrow>
               (case and_then (wx_client X) (\<lambda>_. wx_set_fuel X) of
                  Inl e \<Rightarrow> Inl (InitError e)
                | Inr _ \<Rightarrow>
                    if ro_wall_clock_limit ro - wx_elapsed_queue X = 0 then Inl Timeout
                    else (case wx_permit X of
                            PermitClosed \<Rightarrow> Inl (InitError ''Wasm compile semaphore is closed'')
                          | PermitTimedOut \<Rightarrow> Inl Timeout
                          | Permit \<Rightarrow>
                              if ro_wall_clock_limit ro - wx_elapsed_compile X = 0 then Inl Timeout
                              else (case wx_compile X of
                                      CompileFailed e \<Rightarrow> Inl (map_wasm_error e)
                                    | CompileCrashed e \<Rightarrow> Inl (RuntimeError e)
                                    | Compiled \<Rightarrow> wasm_run ro X input_json)))))"

section \<open>Memory safety\<close>

lemma usize_of_i32_nat: "0 \<le> sint x \<Longrightarrow> unat (usize_of_i32 x) = nat (sint x)"
proof -
  assume x: "0 \<le> sint x"
  have "sint x < 2 ^ 31" using sint_lt [of x] by simp
  with x have "uint (usize_of_i32 x) = sint x"
    unfolding usize_of_i32_def scast_eq uint_word_of_int_eq by (simp add: take_bit_int_eq_self)
  then show ?thesis by (metis nat_uint_eq)
qed

lemma sint_of_small: "n < 2 ^ 31 \<Longrightarrow> sint (word_of_nat n :: i32) = int n"
  by (simp add: signed_of_nat signed_take_bit_int_eq_self)

lemma sint_errors [simp]:
  "sint ERR_NO_MEMORY_EXPORT < 0" "sint ERR_READ_MEM < 0" "sint ERR_UTF8 < 0" "sint ERR_CHECK_URL < 0"
  "sint ERR_REQUEST_FAIL < 0" "sint ERR_READ_BODY_FAIL < 0" "sint ERR_WRITE_FAIL < 0" "sint ERR_INVALID_LEN < 0"
  "sint ERR_PARSE_METHOD < 0" "sint ERR_PARSE_HEADERS < 0" "sint ERR_RESPONSE_TOO_LARGE < 0"
  by (simp_all add: fetch_errors)

lemma read_string_Inl: "read_string mem p l m = Inl e \<Longrightarrow> sint e < 0"
  by (auto simp: read_string_def Let_def split: if_splits option.splits)

lemma and_then_Inl_cases:
  assumes "and_then x f = Inl e"
  obtains "x = Inl e" | y where "x = Inr y" "f y = Inl e"
  using assms by (cases x) auto

lemma request_errors:
  assumes "and_then (read_args mem a) (build_request N al b el) = Inl e"
  shows "sint e < 0"
  using assms unfolding read_args_def
  by (elim and_then_Inl_cases)
    (auto dest: read_string_Inl simp: build_request_def Let_def split: prod.splits sum.splits if_splits option.splits)

lemma read_body_bound: "length acc \<le> MAX_FETCH_BODY_BYTES \<Longrightarrow> read_body acc chunks = Inr body \<Longrightarrow> length body \<le> MAX_FETCH_BODY_BYTES"
  by (induction acc chunks rule: read_body.induct) (auto split: sum.splits if_splits)

lemma write_response_cases:
  assumes "write_response mem p m json = (mem', code)"
  shows "length mem' = length mem
    \<and> (if sint code < 0 then mem' = mem
       else 0 \<le> sint p \<and> sint p + sint m \<le> int (length mem) \<and> sint code = int (length json) \<and> sint code \<le> sint m
          \<and> mem' = take (nat (sint p)) mem @ json @ drop (nat (sint p) + length json) mem)"
proof (cases "0 \<le> sint p \<and> 0 \<le> sint m")
  case True
  then have p: "unat (usize_of_i32 p) = nat (sint p)" and m: "unat (usize_of_i32 m) = nat (sint m)"
    by (simp_all add: usize_of_i32_nat)
  have lt: "sint p < 2 ^ 31" "sint m < 2 ^ 31" using sint_lt [of p] sint_lt [of m] by simp_all
  then have "unat (usize_of_i32 p) + unat (usize_of_i32 m) < 2 ^ 64" unfolding p m by simp
  then obtain e where e: "checked_add_u64 (usize_of_i32 p) (usize_of_i32 m) = Some e" "unat e = nat (sint p) + nat (sint m)"
    by (simp add: checked_add_u64_def unat_add_u64 p m)
  show ?thesis
  proof (cases "length mem < nat (sint p) + nat (sint m) \<or> nat (sint m) < length json")
    case True
    with \<open>0 \<le> sint p \<and> 0 \<le> sint m\<close> assms show ?thesis
      by (auto simp: write_response_def Let_def p m e split: if_splits)
  next
    case False
    then have fits: "nat (sint p) + length json \<le> length mem" by linarith
    have "int (length json) < 2 ^ 31" using False \<open>0 \<le> sint p \<and> 0 \<le> sint m\<close> lt by linarith
    then have "sint (word_of_nat (length json) :: i32) = int (length json)" by (intro sint_of_small) simp
    with False assms \<open>0 \<le> sint p \<and> 0 \<le> sint m\<close> e fits
    have "mem' = take (nat (sint p)) mem @ json @ drop (nat (sint p) + length json) mem" "sint code = int (length json)"
      by (auto simp: write_response_def Let_def p m mem_write_def)
    then show ?thesis using False \<open>0 \<le> sint p \<and> 0 \<le> sint m\<close> fits by auto
  qed
next
  case False
  with assms show ?thesis by (auto simp: write_response_def Let_def split: if_splits)
qed

section \<open>Reach\<close>

text \<open>
  A client is faithful when all it contacts for a request is the request's URL and then,
  one after the other, URLs the redirect policy lets it follow.
\<close>

definition visits :: "redirect_policy \<Rightarrow> string \<Rightarrow> string list \<Rightarrow> bool" where
  "visits policy first us \<longleftrightarrow>
     us = [] \<or> (hd us = first \<and> (\<forall>i < length us - 1. policy (take (Suc i) us) (us ! Suc i)))"

definition faithful_client :: "'w network \<Rightarrow> ('w \<Rightarrow> string list) \<Rightarrow> bool" where
  "faithful_client N contacted \<longleftrightarrow>
     (\<forall>policy req w w' r. nw_send N policy req w = (w', r) \<longrightarrow>
        (\<exists>us. contacted w' = contacted w @ us \<and> visits policy (u_text (hq_url req)) us))"

definition reachable_url :: "url_parser \<Rightarrow> allowlist \<Rightarrow> string \<Rightarrow> bool" where
  "reachable_url P al x \<longleftrightarrow> (\<exists>s u. check_url P al s = Inr u \<and> (x = s \<or> x = u_text u))"

lemma reachable_urlI: "check_url P al s = Inr u \<Longrightarrow> reachable_url P al (u_text u)"
  by (auto simp: reachable_url_def)

lemma visits_reachable:
  assumes "visits policy first us" and "reachable_url P al first"
    and "\<And>previous x. policy previous x \<Longrightarrow> length previous < 10 \<and> reachable_url P al x"
  shows "list_all (reachable_url P al) us \<and> length us \<le> 10"
proof (cases "us = []")
  case False
  with assms(1) have hd: "hd us = first" and next_ok: "\<And>i. i < length us - 1 \<Longrightarrow> policy (take (Suc i) us) (us ! Suc i)"
    unfolding visits_def by auto
  have "reachable_url P al (us ! i)" if "i < length us" for i
  proof (cases i)
    case 0
    then show ?thesis using hd assms(2) False by (simp add: hd_conv_nth)
  next
    case (Suc j)
    then show ?thesis using next_ok [of j] assms(3) that by fastforce
  qed
  moreover have "length us \<le> 10"
  proof (rule ccontr)
    assume "\<not> length us \<le> 10"
    then have "policy (take (Suc 9) us) (us ! Suc 9)" by (intro next_ok) simp
    from assms(3) [OF this] show False using \<open>\<not> length us \<le> 10\<close> by simp
  qed
  ultimately show ?thesis by (simp add: list_all_length)
qed simp

lemma wasm_policy_reachable:
  "wasm_redirect_policy P al previous x \<Longrightarrow> length previous < 10 \<and> reachable_url P al x"
  by (auto simp: wasm_redirect_policy_def reachable_url_def split: if_splits sum.splits)

lemma build_request_url:
  "and_then (read_args mem a) (build_request N al b el) = Inr req \<Longrightarrow> reachable_url (nw_parse_url N) al (u_text (hq_url req))"
  by (cases "read_args mem a")
    (auto simp: build_request_def Let_def intro: reachable_urlI split: prod.splits sum.splits if_splits option.splits)

text \<open>Calls of sandboxed code, in any order.\<close>

datatype sandbox_call =
    WasmFetch nat nat fetch_args "string option"
  | DenoFetch string "fetch_options option"

fun sandbox_call_effect :: "'w network \<Rightarrow> http_texts \<Rightarrow> allowlist \<Rightarrow> sandbox_call \<Rightarrow> 'w \<Rightarrow> 'w" where
  "sandbox_call_effect N T al (WasmFetch budget elapsed a memory) w = fst (flexi_fetch N al budget elapsed a memory w)"
| "sandbox_call_effect N T al (DenoFetch url_str options) w = fst (op_fetch N T al url_str options w)"

lemma flexi_fetch_effect:
  assumes "faithful_client N contacted"
  shows "\<exists>us. contacted (fst (flexi_fetch N al b el a memory w)) = contacted w @ us
    \<and> list_all (reachable_url (nw_parse_url N) al) us \<and> length us \<le> 10"
proof (cases "memory \<noteq> None \<and> (\<exists>req. and_then (read_args (the memory) a) (build_request N al b el) = Inr req)")
  case True
  then obtain mem req where mem: "memory = Some mem" and req: "and_then (read_args mem a) (build_request N al b el) = Inr req"
    by auto
  let ?pol = "wasm_redirect_policy (nw_parse_url N) al"
  obtain w' r where sent: "nw_send N ?pol req w = (w', r)" by fastforce
  have "fst (flexi_fetch N al b el a memory w) = w'"
    by (simp add: flexi_fetch_def mem req sent split: sum.splits prod.splits)
  moreover obtain us where us: "contacted w' = contacted w @ us" "visits ?pol (u_text (hq_url req)) us"
    using assms sent unfolding faithful_client_def by blast
  moreover have "list_all (reachable_url (nw_parse_url N) al) us \<and> length us \<le> 10"
    by (rule visits_reachable [OF us(2) build_request_url [OF req] wasm_policy_reachable])
  ultimately show ?thesis by auto
next
  case False
  then have "fst (flexi_fetch N al b el a memory w) = w"
    by (auto simp: flexi_fetch_def split: option.splits sum.splits)
  then show ?thesis by (intro exI [of _ "[]"]) simp
qed

lemma op_fetch_sends:
  "fst (op_fetch N T al url_str options w) = w
   \<or> (\<exists>req. reachable_url (nw_parse_url N) al (u_text (hq_url req))
          \<and> fst (op_fetch N T al url_str options w) = fst (nw_send N no_redirects req w))"
proof (cases "deno_check_url (nw_parse_url N) al url_str")
  case (Inr u)
  then have url: "reachable_url (nw_parse_url N) al (u_text u)"
    by (auto simp: deno_check_url_def intro: reachable_urlI split: sum.splits check_url_error.splits)
  define meth where "meth = (case options of Some opts \<Rightarrow> or_else (fo_method opts) ''GET'' | None \<Rightarrow> ''GET'')"
  define req where "req = \<lparr>hq_method = meth, hq_url = u, hq_timeout = DENO_FETCH_TIMEOUT,
      hq_headers = (case options of Some opts \<Rightarrow> or_else (fo_headers opts) [] | None \<Rightarrow> []), hq_body = Option.bind options fo_body\<rparr>"
  obtain w' r where sent: "nw_send N no_redirects req w = (w', r)" by fastforce
  show ?thesis
  proof (cases "options \<noteq> None \<and> \<not> nw_is_method N meth")
    case True
    then show ?thesis by (simp add: op_fetch_def Inr meth_def [symmetric] Let_def)
  next
    case False
    then have "fst (op_fetch N T al url_str options w) = w'"
      unfolding op_fetch_def Inr sum.case Let_def meth_def [symmetric] req_def [symmetric] sent
      by (auto split: sum.splits body_error.splits)
    moreover have "hq_url req = u" by (simp add: req_def)
    ultimately show ?thesis using url sent by (intro disjI2 exI [of _ req]) simp
  qed
qed (simp add: op_fetch_def)

lemma op_fetch_effect:
  assumes "faithful_client N contacted"
  shows "\<exists>us. contacted (fst (op_fetch N T al url_str options w)) = contacted w @ us
    \<and> list_all (reachable_url (nw_parse_url N) al) us \<and> length us \<le> 10"
  using op_fetch_sends [of N T al url_str options w]
proof (elim disjE exE conjE)
  fix req
  assume sent: "fst (op_fetch N T al url_str options w) = fst (nw_send N no_redirects req w)"
    and url: "reachable_url (nw_parse_url N) al (u_text (hq_url req))"
  obtain us where us: "contacted (fst (nw_send N no_redirects req w)) = contacted w @ us"
    "visits no_redirects (u_text (hq_url req)) us"
    using assms unfolding faithful_client_def by (metis surjective_pairing)
  moreover have "list_all (reachable_url (nw_parse_url N) al) us \<and> length us \<le> 10"
    by (rule visits_reachable [OF us(2) url]) (simp add: no_redirects_def)
  ultimately show ?thesis unfolding sent by blast
qed (intro exI [of _ "[]"], simp)

text \<open>
  C22 (safety): sandboxed code reaches allowed URLs only. Whatever sequence of host calls the guests
  make, with whatever arguments, every URL the client contacts was accepted by \<open>check_url\<close>, redirects
  included, and no call contacts more than ten.
\<close>

theorem sandbox_reaches_allowed_urls_only:
  assumes "faithful_client N contacted"
  shows "\<exists>uss. contacted (fold (sandbox_call_effect N T al) calls w) = contacted w @ concat uss
    \<and> length uss = length calls
    \<and> list_all (\<lambda>us. length us \<le> 10 \<and> list_all (reachable_url (nw_parse_url N) al) us) uss"
proof (induction calls arbitrary: w)
  case (Cons c calls)
  have "\<exists>us. contacted (sandbox_call_effect N T al c w) = contacted w @ us
      \<and> list_all (reachable_url (nw_parse_url N) al) us \<and> length us \<le> 10"
    using flexi_fetch_effect [OF assms] op_fetch_effect [OF assms] by (cases c) simp_all
  then obtain us where us: "contacted (sandbox_call_effect N T al c w) = contacted w @ us"
    "list_all (reachable_url (nw_parse_url N) al) us" "length us \<le> 10" by blast
  from Cons.IH [of "sandbox_call_effect N T al c w"] obtain uss where
    uss: "contacted (fold (sandbox_call_effect N T al) calls (sandbox_call_effect N T al c w)) = contacted w @ us @ concat uss"
    "length uss = length calls" "list_all (\<lambda>us. length us \<le> 10 \<and> list_all (reachable_url (nw_parse_url N) al) us) uss"
    unfolding us(1) by auto
  with us show ?case by (intro exI [of _ "us # uss"]) simp
qed simp

text \<open>
  C21 (bounds): \<open>flexi_fetch\<close> is memory safe. Whatever integers the guest passes, the size of its memory
  stays; an error code leaves every byte as it was; otherwise the code is the length of the
  response, which fits into the buffer the guest offered, lies there from its first byte, and no
  byte outside is changed.
\<close>

theorem flexi_fetch_memory_safe:
  assumes "flexi_fetch N al fetch_budget elapsed a (Some mem) w = (w', m', code)"
  shows "\<exists>mem'. m' = Some mem' \<and> length mem' = length mem
    \<and> (if sint code < 0 then mem' = mem
       else 0 \<le> sint (fa_out_ptr a) \<and> sint (fa_out_ptr a) + sint (fa_out_max_len a) \<le> int (length mem)
          \<and> sint code \<le> sint (fa_out_max_len a)
          \<and> (\<exists>status body. length body \<le> MAX_FETCH_BODY_BYTES \<and> int (length (response_json N status body)) = sint code
               \<and> mem' = take (nat (sint (fa_out_ptr a))) mem @ response_json N status body
                         @ drop (nat (sint (fa_out_ptr a)) + nat (sint code)) mem))"
proof (cases "and_then (read_args mem a) (build_request N al fetch_budget elapsed)")
  case (Inl e)
  with assms request_errors [OF Inl] show ?thesis by (simp add: flexi_fetch_def)
next
  case (Inr req)
  obtain v r where sent: "nw_send N (wasm_redirect_policy (nw_parse_url N) al) req w = (v, r)" by fastforce
  show ?thesis
  proof (cases "\<exists>resp body. r = Inr resp \<and> read_body [] (ha_chunks resp) = Inr body")
    case True
    then obtain resp body where r: "r = Inr resp" and body: "read_body [] (ha_chunks resp) = Inr body" by blast
    obtain mem' where m': "m' = Some mem'"
      and out: "write_response mem (fa_out_ptr a) (fa_out_max_len a) (response_json N (ha_status resp) body) = (mem', code)"
      using assms by (auto simp: flexi_fetch_def Inr sent r body split: prod.splits)
    have "length body \<le> MAX_FETCH_BODY_BYTES" by (rule read_body_bound [OF _ body]) simp
    with write_response_cases [OF out] show ?thesis
      unfolding m' by (auto simp: nat_eq_iff2 intro!: exI [of _ "ha_status resp"] exI [of _ body])
  next
    case False
    then have "m' = Some mem \<and> sint code < 0"
      using assms by (auto simp: flexi_fetch_def Inr sent body_error_code_def split: sum.splits body_error.splits)
    then show ?thesis by simp
  qed
qed

text \<open>A network that answers every request with the body \<open>ok\<close> and logs the URL.\<close>

definition toy_network :: "string list network" where
  "toy_network = \<lparr>nw_send = (\<lambda>policy req w. (w @ [u_text (hq_url req)], Inr \<lparr>ha_status = 200, ha_headers = [], ha_chunks = [Inr ''ok'']\<rparr>)),
     nw_parse_url = toy_url, nw_is_method = (\<lambda>m. m = ''GET''), nw_parse_headers = (\<lambda>_. None), nw_base64 = (\<lambda>s. s),
     nw_render = (\<lambda>status body b64. or_else body [])\<rparr>"

definition toy_allowlist :: allowlist where
  "toy_allowlist = \<lparr>al_domain_set = [''a.io''], al_url_prefix_rules = [], al_url_prefix_rule_index = (\<lambda>_. None),
     al_resolver_host_set = [''a.io'']\<rparr>"

definition toy_args :: fetch_args where
  "toy_args = \<lparr>fa_url_ptr = 0, fa_url_len = 15, fa_method_ptr = 15, fa_method_len = 3, fa_headers_ptr = 0, fa_headers_len = 0,
     fa_body_ptr = 0, fa_body_len = 0, fa_out_ptr = 18, fa_out_max_len = 4\<rparr>"

lemma toy_faithful: "faithful_client toy_network (\<lambda>w. w)"
  by (auto simp: faithful_client_def toy_network_def visits_def)

lemma toy_fetch:
  "flexi_fetch toy_network toy_allowlist 1000 10 toy_args (Some ''https://a.io/v1GET....'') []
     = ([''https://a.io/v1''], Some ''https://a.io/v1GETok..'', 2)"
proof -
  have "trim ''a.io'' = ''a.io''" by (rule trim_plain) (simp_all add: ascii_graph_def)
  moreover have "lowercase (trim_brackets ''a.io'') = ''a.io''" by code_simp
  ultimately have host: "normalize_allowlist_host toy_url ''a.io'' = ''a.io''"
    by (simp add: normalize_allowlist_host_def toy_url_def)
  have url: "check_url toy_url toy_allowlist ''https://a.io/v1'' = Inr \<lparr>u_text = ''https://a.io/v1'', u_scheme = ''https'',
      u_host = Some ''a.io'', u_port = Some 443, u_path = ''/v1''\<rparr>"
    by (simp add: check_url_def is_url_allowed_def toy_url_def toy_allowlist_def host)
  have num: "usize_of_i32 0 = 0" "unat (usize_of_i32 15) = 15" "unat (usize_of_i32 3) = 3" "unat (usize_of_i32 18) = 18"
    "unat (usize_of_i32 4) = 4"
    by (simp add: usize_of_i32_def) (simp_all add: usize_of_i32_nat)
  have sum: "unat (usize_of_i32 a + usize_of_i32 b) = unat (usize_of_i32 a) + unat (usize_of_i32 b)"
    if "a \<in> {15, 18}" "b \<in> {3, 4}" for a b
    using that by (intro unat_add_u64) (auto simp: num)
  have args: "read_args ''https://a.io/v1GET....'' toy_args = Inr (''https://a.io/v1'', ''GET'', [], [])"
    by (simp add: read_args_def read_string_def toy_args_def Let_def num checked_add_u64_def sum mem_read_def MAX_FETCH_URL_BYTES_def
        MAX_FETCH_METHOD_BYTES_def)
  let ?req = "\<lparr>hq_method = ''GET'', hq_url = \<lparr>u_text = ''https://a.io/v1'', u_scheme = ''https'',
      u_host = Some ''a.io'', u_port = Some 443, u_path = ''/v1''\<rparr>, hq_timeout = 990, hq_headers = [], hq_body = None\<rparr>"
  have req: "build_request toy_network toy_allowlist 1000 10 (''https://a.io/v1'', ''GET'', [], []) = Inr ?req"
    using url by (simp add: build_request_def toy_network_def)
  have sent: "nw_send toy_network policy ?req [] = ([''https://a.io/v1''], Inr \<lparr>ha_status = 200, ha_headers = [], ha_chunks = [Inr ''ok'']\<rparr>)"
    for policy by (simp add: toy_network_def)
  have json: "response_json toy_network 200 ''ok'' = ''ok''"
    by (simp add: response_json_def toy_network_def or_else_def)
  have body: "read_body [] [Inr ''ok''] = Inr ''ok''" by (simp add: MAX_FETCH_BODY_BYTES_def)
  have "write_response ''https://a.io/v1GET....'' 18 4 ''ok'' = (''https://a.io/v1GETok..'', 2)"
    by (simp add: write_response_def Let_def num checked_add_u64_def sum mem_write_def)
  then have out: "write_response ''https://a.io/v1GET....'' (fa_out_ptr toy_args) (fa_out_max_len toy_args) ''ok'' = (''https://a.io/v1GETok..'', 2)"
    by (simp add: toy_args_def)
  show ?thesis by (simp add: flexi_fetch_def args req sent body json out del: read_body.simps)
qed

theorem sandbox_reaches_allowed_urls_only_witness:
  "\<forall>T. \<exists>uss. fold (sandbox_call_effect toy_network T toy_allowlist) [WasmFetch 1000 10 toy_args (Some ''https://a.io/v1GET....'')] []
     = concat uss \<and> length uss = 1 \<and> list_all (\<lambda>us. length us \<le> 10 \<and> list_all (reachable_url toy_url toy_allowlist) us) uss"
proof
  fix T :: http_texts
  show "\<exists>uss. fold (sandbox_call_effect toy_network T toy_allowlist) [WasmFetch 1000 10 toy_args (Some ''https://a.io/v1GET....'')] []
     = concat uss \<and> length uss = 1 \<and> list_all (\<lambda>us. length us \<le> 10 \<and> list_all (reachable_url toy_url toy_allowlist) us) uss"
    using sandbox_reaches_allowed_urls_only [OF toy_faithful, of T toy_allowlist
        "[WasmFetch 1000 10 toy_args (Some ''https://a.io/v1GET....'')]" "[]"]
    by (simp add: toy_network_def)
qed

theorem flexi_fetch_memory_safe_witness:
  "\<exists>status body. length body \<le> MAX_FETCH_BODY_BYTES \<and> length (response_json toy_network status body) = 2
     \<and> ''https://a.io/v1GETok..'' = take 18 ''https://a.io/v1GET....'' @ response_json toy_network status body @ drop 20 ''https://a.io/v1GET....''"
  using flexi_fetch_memory_safe [OF toy_fetch] by (simp add: toy_args_def)

section \<open>Limits of an execution\<close>

lemma unat_fuel: "unat (fuel_of cpu_millis) = min (cpu_millis * 10000) (2 ^ 64 - 1)"
  unfolding fuel_of_def by (simp add: unat_of_nat take_bit_nat_eq_self min_def)

text \<open>
  an execution returns a value only within its limits. When \<open>WasmSandbox::execute\<close>
  succeeds, the wall clock limit had not passed when the code was compiled and started, the module ran
  with ten thousand units of fuel per millisecond of CPU time (without wrap-around), with the
  configured memory limit and with a network budget of what was left of the wall clock, it ended without an
  error, and its output is at most as long as configured and is decoded in full: the pipes had
  room for one byte more than the limit, so that nothing was cut off unseen.
\<close>

theorem execution_within_limits:
  assumes "wasm_execute ro X = Inr v" and "or_else (ro_max_output_size ro) DEFAULT_MAX_STDOUT < 2 ^ 64 - 1"
  shows "wx_elapsed_queue X < ro_wall_clock_limit ro \<and> wx_elapsed_compile X < ro_wall_clock_limit ro
    \<and> wx_elapsed_run X < ro_wall_clock_limit ro
    \<and> (\<exists>limits input_json out.
         wx_input X = Inr input_json \<and> wx_call X limits input_json = (Inr (), out)
         \<and> unat (wl_fuel limits) = min (ro_cpu_time_limit ro * 10000) (2 ^ 64 - 1)
         \<and> wl_memory limits = ro_memory_limit ro
         \<and> wl_fetch_budget limits = ro_wall_clock_limit ro - wx_elapsed_run X
         \<and> wl_capacity limits = or_else (ro_max_output_size ro) DEFAULT_MAX_STDOUT + 1
         \<and> length out \<le> or_else (ro_max_output_size ro) DEFAULT_MAX_STDOUT
         \<and> is_utf8 (map of_char out)
         \<and> v = (if trim out = [] then wx_null X
                else case wx_parse_json X (trim out) of Some json \<Rightarrow> json | None \<Rightarrow> wx_string X (trim out)))"
proof -
  obtain input_json where input: "wx_input X = Inr input_json" and run: "wasm_run ro X input_json = Inr v"
    and early: "wx_elapsed_queue X < ro_wall_clock_limit ro" "wx_elapsed_compile X < ro_wall_clock_limit ro"
    using assms(1) unfolding wasm_execute_def
    by (auto split: sum.splits if_splits permit_outcome.splits compile_outcome.splits)
  define limits where "limits = \<lparr>wl_fuel = fuel_of (ro_cpu_time_limit ro), wl_memory = ro_memory_limit ro,
      wl_capacity = min (or_else (ro_max_output_size ro) DEFAULT_MAX_STDOUT + 1) (2 ^ 64 - 1),
      wl_fetch_budget = ro_wall_clock_limit ro - wx_elapsed_run X\<rparr>"
  from run obtain out where started: "wx_elapsed_run X < ro_wall_clock_limit ro"
    and call: "wx_call X limits input_json = (Inr (), out)"
    and decoded: "decode_output X (or_else (ro_max_output_size ro) DEFAULT_MAX_STDOUT) out = Inr v"
    unfolding wasm_run_def Let_def limits_def [symmetric] by (auto split: sum.splits if_splits prod.splits)
  from decoded have "length out \<le> or_else (ro_max_output_size ro) DEFAULT_MAX_STDOUT" "is_utf8 (map of_char out)"
    "v = (if trim out = [] then wx_null X
          else case wx_parse_json X (trim out) of Some json \<Rightarrow> json | None \<Rightarrow> wx_string X (trim out))"
    by (auto simp: decode_output_def Let_def split: if_splits option.splits)
  with early started call input assms(2) show ?thesis
    by (intro conjI exI [of _ limits] exI [of _ input_json] exI [of _ out]) (simp_all add: limits_def unat_fuel)
qed

definition toy_wasm :: "string wasm_world" where
  "toy_wasm = \<lparr>wx_linker = Inr (), wx_input = Inr ''1'', wx_client = Inr (), wx_set_fuel = Inr (), wx_elapsed_queue = 1,
     wx_permit = Permit, wx_elapsed_compile = 2, wx_compile = Compiled, wx_elapsed_compiled = 3, wx_elapsed_run = 3,
     wx_instantiate = (\<lambda>_. Inr ()), wx_start_func = Inr (), wx_call = (\<lambda>_ input_json. (Inr (), input_json)), wx_wall_timeout = False,
     wx_parse_json = Some, wx_null = ''null'', wx_string = (\<lambda>s. s), wx_limit_text = (\<lambda>_. []), wx_utf8_text = (\<lambda>_. [])\<rparr>"

definition toy_options :: runtime_options where
  "toy_options = \<lparr>ro_memory_limit = 65536, ro_cpu_time_limit = 50, ro_wall_clock_limit = 100, ro_network_allowlist = [],
     ro_max_output_size = Some 10\<rparr>"

theorem execution_within_limits_witness:
  "wasm_execute toy_options toy_wasm = Inr ''1''
   \<and> (\<exists>limits input_json out. wx_call toy_wasm limits input_json = (Inr (), out) \<and> unat (wl_fuel limits) = 500000 \<and> length out \<le> 10)"
proof -
  have "trim ''1'' = ''1''" by (rule trim_plain) (simp_all add: ascii_graph_def)
  then have run: "wasm_execute toy_options toy_wasm = Inr ''1''"
    by (simp add: wasm_execute_def wasm_run_def decode_output_def toy_wasm_def toy_options_def or_else_def)
  have "or_else (ro_max_output_size toy_options) DEFAULT_MAX_STDOUT < 2 ^ 64 - 1"
    by (simp add: toy_options_def or_else_def)
  from execution_within_limits [OF run this] obtain limits input_json out where
    "wx_call toy_wasm limits input_json = (Inr (), out)" "unat (wl_fuel limits) = 500000" "length out \<le> 10"
    by (auto simp: toy_options_def or_else_def)
  with run show ?thesis by blast
qed

section \<open>The JavaScript sandbox\<close>

definition MIN_DENO_HEAP_LIMIT :: nat where
  "MIN_DENO_HEAP_LIMIT = 16 * 1024 * 1024"

definition DEFAULT_MAX_OUTPUT_SIZE :: nat where
  "DEFAULT_MAX_OUTPUT_SIZE = 2 ^ 20"

definition clamp_nat :: "nat \<Rightarrow> nat \<Rightarrow> nat \<Rightarrow> nat" where
  "clamp_nat x lo hi = (if x < lo then lo else if hi < x then hi else x)"

definition near_heap_headroom :: "nat \<Rightarrow> nat" where
  "near_heap_headroom memory_limit = clamp_nat (memory_limit div 8) (256 * 1024) (16 * 1024 * 1024)"

definition initial_heap_limit :: "nat \<Rightarrow> nat" where
  "initial_heap_limit memory_limit = max (memory_limit - near_heap_headroom memory_limit) 1"

text \<open>How a run ends: the result of the event loop or the outer timeout, and what the watchdogs raised.\<close>

record deno_end =
  de_result :: "sandbox_error + unit"
  de_heap_oom :: bool
  de_cpu_clock_failed :: bool
  de_cpu_timeout :: bool
  de_wall_timeout :: bool

text \<open>
  \<open>dx_hardened\<close>: a debug build, or \<open>FLEXISUITE_DENO_HARDENED=1\<close>. \<open>dx_run\<close> gets the heap limit
  and the output bound and calls \<open>op_set_output\<close> with the texts of its list in order.
\<close>

record 'j deno_world =
  dx_hardened :: bool
  dx_permit :: bool
  dx_runtime :: "string + unit"
  dx_client :: "string + unit"
  dx_cpu_clock :: "string + unit"
  dx_input :: "string + string"
  dx_setup :: "string \<Rightarrow> string + unit"
  dx_run :: "nat \<Rightarrow> deno_end \<times> string list"
  dx_parse_json :: "string \<Rightarrow> string + 'j"
  dx_null :: 'j
  dx_join :: "string + unit"

definition deno_outcome :: "deno_end \<Rightarrow> 'j option \<Rightarrow> 'j \<Rightarrow> sandbox_error + 'j" where
  "deno_outcome e output null =
     (case de_result e of
        Inr _ \<Rightarrow> Inr (or_else output null)
      | Inl err \<Rightarrow>
          if de_heap_oom e then Inl MemoryLimitExceeded
          else if de_cpu_clock_failed e
          then Inl (RuntimeError ''failed to enforce CPU limit due to thread CPU clock error'')
          else if de_cpu_timeout e then Inl CpuLimitExceeded
          else if de_wall_timeout e then Inl Timeout
          else Inl err)"

definition set_outputs :: "nat \<Rightarrow> (string \<Rightarrow> string + 'j) \<Rightarrow> string list \<Rightarrow> 'j option" where
  "set_outputs max_output parse_json texts =
     fold (\<lambda>json out. fst (op_set_output (Some max_output) parse_json json out)) texts None"

definition deno_execute :: "runtime_options \<Rightarrow> 'j deno_world \<Rightarrow> sandbox_error + 'j" where
  "deno_execute ro X =
     (if \<not> dx_hardened X then Inl (InitError ''Deno runtime requires hardened sandbox deployment'')
      else if \<not> dx_permit X then Inl (InitError ''Deno execution semaphore is closed'')
      else if dx_join X \<noteq> Inr () then Inl (RuntimeError (case dx_join X of Inl e \<Rightarrow> e | Inr _ \<Rightarrow> []))
      else if ro_memory_limit ro < MIN_DENO_HEAP_LIMIT
      then Inl (InitError ''memory_limit is below the minimum Deno/V8 heap limit'')
      else (case and_then (dx_runtime X) (\<lambda>_. dx_client X) of
              Inl e \<Rightarrow> Inl (InitError e)
            | Inr _ \<Rightarrow>
                (case dx_cpu_clock X of
                   Inl e \<Rightarrow> Inl (RuntimeError e)
                 | Inr _ \<Rightarrow>
                     (case dx_input X of
                        Inl e \<Rightarrow> Inl (RuntimeError (''failed to serialize input: '' @ e))
                      | Inr input_json \<Rightarrow>
                          (case dx_setup X input_json of
                             Inl e \<Rightarrow> Inl (RuntimeError e)
                           | Inr _ \<Rightarrow>
                               (case dx_run X (initial_heap_limit (ro_memory_limit ro)) of
                                  (e, texts) \<Rightarrow>
                                    deno_outcome e
                                      (set_outputs (or_else (ro_max_output_size ro) DEFAULT_MAX_OUTPUT_SIZE) (dx_parse_json X) texts)
                                      (dx_null X)))))))"

lemma heap_headroom:
  assumes "MIN_DENO_HEAP_LIMIT \<le> m"
  shows "initial_heap_limit m + near_heap_headroom m = m \<and> 256 * 1024 \<le> near_heap_headroom m \<and> near_heap_headroom m \<le> 16 * 1024 * 1024"
  using assms unfolding initial_heap_limit_def near_heap_headroom_def clamp_nat_def MIN_DENO_HEAP_LIMIT_def by auto

lemma set_outputs_snoc:
  "set_outputs m P (texts @ [json]) = (if length json \<le> m then (case P json of Inr v \<Rightarrow> Some v | Inl _ \<Rightarrow> set_outputs m P texts) else set_outputs m P texts)"
  by (simp add: set_outputs_def op_set_output_def split: sum.splits)

lemma set_outputs_Nil: "set_outputs m P [] = None"
  by (simp add: set_outputs_def)

lemma set_outputs_Some:
  "set_outputs m P texts = Some v \<Longrightarrow> \<exists>json \<in> set texts. length json \<le> m \<and> P json = Inr v"
  by (induction texts rule: rev_induct) (auto simp: set_outputs_snoc set_outputs_Nil split: if_splits sum.splits)

text \<open>
  The JavaScript sandbox returns a value only from a hardened deployment with at least the minimum
  memory, after a run that ended without an error; V8's heap stays below the configured limit
  by the headroom it needs to unwind; and the value is \<open>null\<close> or was parsed from an output text of
  bounded length.
\<close>

theorem javascript_within_limits:
  assumes "deno_execute ro X = Inr v"
  shows "dx_hardened X \<and> MIN_DENO_HEAP_LIMIT \<le> ro_memory_limit ro
    \<and> initial_heap_limit (ro_memory_limit ro) + near_heap_headroom (ro_memory_limit ro) = ro_memory_limit ro
    \<and> 256 * 1024 \<le> near_heap_headroom (ro_memory_limit ro)
    \<and> (\<exists>e texts. dx_run X (initial_heap_limit (ro_memory_limit ro)) = (e, texts) \<and> de_result e = Inr ()
         \<and> (v = dx_null X
            \<or> (\<exists>json \<in> set texts. length json \<le> or_else (ro_max_output_size ro) DEFAULT_MAX_OUTPUT_SIZE
                   \<and> dx_parse_json X json = Inr v)))"
proof -
  obtain e texts where run: "dx_run X (initial_heap_limit (ro_memory_limit ro)) = (e, texts)" by fastforce
  let ?out = "set_outputs (or_else (ro_max_output_size ro) DEFAULT_MAX_OUTPUT_SIZE) (dx_parse_json X) texts"
  from assms have "dx_hardened X" and m: "MIN_DENO_HEAP_LIMIT \<le> ro_memory_limit ro" and "deno_outcome e ?out (dx_null X) = Inr v"
    unfolding deno_execute_def run by (auto split: if_splits sum.splits)
  moreover from this(3) have "de_result e = Inr ()" "v = or_else ?out (dx_null X)"
    by (auto simp: deno_outcome_def split: sum.splits if_splits)
  moreover from this(2) have "v = dx_null X \<or> ?out = Some v"
    by (cases ?out) (auto simp: or_else_def)
  ultimately show ?thesis
    using heap_headroom [OF m] run set_outputs_Some by fastforce
qed

end
