(* ===== verification/Archiver.thy ===== *)
theory Archiver
  imports Entity_History
begin

text \<open>
  The archiver, \<open>kernel-archiver/src/main.rs\<close>: it copies the unarchived rows of the entity history
  and of the audit log to an object store and then marks them as archived.

  The state is the database (theory \<open>Tenant_Tx\<close>), the session of the second, privileged connection,
  and the object store. \<open>ArchivableItem\<close> is a record of its methods and of the row's
  serialisation, with one instance per table. The object store, gzip, base64, JSON and date
  rendering are parameters; \<open>s3_laws\<close> states what the store promises. A panic is a value of the
  error type: it unwinds to \<open>main\<close> and ends the process.
\<close>

section \<open>Configuration\<close>

datatype lock_mode = Compliance | Governance

type_synonym i64 = "64 word"

record object_lock_config =
  lc_mode :: lock_mode
  lc_retain_days :: i64

record app_config =
  ac_database_url :: string
  ac_kernel_database_url :: string
  ac_s3_bucket :: string
  ac_region_name :: string
  ac_interval_secs :: u64
  ac_batch_size :: u64
  ac_tenant_ids :: "tenant_id list"
  ac_object_lock :: "object_lock_config option"

type_synonym env_vars = "string \<Rightarrow> string option"

text \<open>\<open>str::parse::<i64>\<close>\<close>

definition parse_i64 :: "string \<Rightarrow> i64 option" where
  "parse_i64 s =
     (let (neg, ds) = (case s of c # cs \<Rightarrow> if c = CHR ''-'' then (True, cs) else if c = CHR ''+'' then (False, cs) else (False, s)
                       | [] \<Rightarrow> (False, s));
          v = (if neg then - int (digits_value ds) else int (digits_value ds))
      in if ds \<noteq> [] \<and> list_all is_ascii_digit ds \<and> - (2 ^ 63) \<le> v \<and> v < 2 ^ 63 then Some (word_of_int v) else None)"

fun push_tenants :: "string list \<Rightarrow> tenant_id list \<Rightarrow> string + tenant_id list" where
  "push_tenants [] tenant_ids = Inr tenant_ids"
| "push_tenants (part # parts) tenant_ids =
     (let tenant = trim part
      in if tenant = [] then push_tenants parts tenant_ids
         else (case TenantId_new tenant of
                 Inl e \<Rightarrow> Inl e
               | Inr t \<Rightarrow> push_tenants parts (tenant_ids @ [t])))"

definition parse_tenant_ids :: "string \<Rightarrow> string + tenant_id list" where
  "parse_tenant_ids raw =
     and_then (push_tenants (split_char (CHR '','') raw) []) (\<lambda>tenant_ids.
       if tenant_ids = [] then Inl ''ARCHIVER_TENANT_IDS must contain at least one tenant'' else Inr tenant_ids)"

definition parse_object_lock_config :: "env_vars \<Rightarrow> string + object_lock_config option" where
  "parse_object_lock_config env =
     (case env ''S3_OBJECT_LOCK_MODE'' of
        None \<Rightarrow> Inr None
      | Some v \<Rightarrow>
          (let upper = map to_ascii_upper v
           in and_then (if upper = ''COMPLIANCE'' then Inr Compliance
                        else if upper = ''GOVERNANCE'' then Inr Governance
                        else Inl (''S3_OBJECT_LOCK_MODE must be COMPLIANCE or GOVERNANCE, got '' @ upper)) (\<lambda>mode.
              and_then (case env ''S3_OBJECT_LOCK_DAYS'' of
                          None \<Rightarrow> Inr 365
                        | Some d \<Rightarrow> ok_or ''S3_OBJECT_LOCK_DAYS must be an integer'' (parse_i64 d)) (\<lambda>days.
              if sint days \<le> 0 then Inl ''S3_OBJECT_LOCK_DAYS must be > 0''
              else Inr (Some \<lparr>lc_mode = mode, lc_retain_days = days\<rparr>)))))"

definition kernel_url :: "env_vars \<Rightarrow> string \<Rightarrow> string + string" where
  "kernel_url env database_url =
     (case env ''KERNEL_DATABASE_URL'' of
        Some url \<Rightarrow> Inr url
      | None \<Rightarrow>
          (let allow_fallback = (case env ''KERNEL_DATABASE_URL_ALLOW_FALLBACK'' of Some v \<Rightarrow> v | None \<Rightarrow> [])
           in if allow_fallback = ''1'' \<or> eq_ignore_ascii_case allow_fallback ''true'' then Inr database_url
              else Inl (''KERNEL_DATABASE_URL must be set. Set KERNEL_DATABASE_URL_ALLOW_FALLBACK=true to override this ''
                        @ ''requirement.'')))"

definition load_config :: "env_vars \<Rightarrow> string + app_config" where
  "load_config env =
     and_then (ok_or ''DATABASE_URL must be set'' (env ''DATABASE_URL'')) (\<lambda>database_url.
     and_then (kernel_url env database_url) (\<lambda>kernel_database_url.
     and_then (ok_or ''AUDIT_LOG_BUCKET must be set'' (env ''AUDIT_LOG_BUCKET'')) (\<lambda>s3_bucket.
     (let region_name = (case env ''AWS_REGION'' of Some v \<Rightarrow> v | None \<Rightarrow> ''us-east-1'')
      in and_then (case env ''ARCHIVER_INTERVAL'' of
                     Some v \<Rightarrow> ok_or ''ARCHIVER_INTERVAL must be an integer'' (parse_u64 v)
                   | None \<Rightarrow> Inr 60) (\<lambda>interval_secs.
         and_then (case env ''ARCHIVER_BATCH_SIZE'' of
                     Some v \<Rightarrow> and_then (ok_or ''ARCHIVER_BATCH_SIZE must be an integer'' (parse_u64 v)) (\<lambda>parsed.
                       if parsed = 0 then Inl ''ARCHIVER_BATCH_SIZE must be > 0'' else Inr parsed)
                   | None \<Rightarrow> Inr 100) (\<lambda>batch_size.
         and_then (and_then (ok_or ''ARCHIVER_TENANT_IDS must be set (comma-separated tenant IDs)'' (env ''ARCHIVER_TENANT_IDS''))
                     parse_tenant_ids) (\<lambda>tenant_ids.
         and_then (parse_object_lock_config env) (\<lambda>object_lock.
         Inr \<lparr>ac_database_url = database_url, ac_kernel_database_url = kernel_database_url, ac_s3_bucket = s3_bucket,
              ac_region_name = region_name, ac_interval_secs = interval_secs, ac_batch_size = batch_size,
              ac_tenant_ids = tenant_ids, ac_object_lock = object_lock\<rparr>)))))))) "

section \<open>Objects\<close>

text \<open>\<open>head_object\<close> answers, tells that there is no such object, or fails otherwise.\<close>

datatype head_answer = HeadFound | HeadNotFound | HeadFailed string

record put_request =
  pr_bucket :: string
  pr_key :: string
  pr_body :: string
  pr_content_type :: string
  pr_checksum :: string
  pr_lock :: "(lock_mode \<times> int) option"

datatype archive_failure = ArchiveFailed string | Panicked

record 'r archivable =
  av_id :: "'r \<Rightarrow> string"
  av_tenant_id :: "'r \<Rightarrow> string"
  av_created_at :: "'r \<Rightarrow> int"
  av_json :: "'r \<Rightarrow> string + string"

text \<open>\<open>ae_now\<close> is the program's clock at a call of the store; \<open>ae_retain_until\<close> adds days, where chrono can.\<close>

record ('j, 's) archiver_env =
  ae_repo :: "'j repo_env"
  ae_keys :: key_gen
  ae_history_json :: "'j entity_history \<Rightarrow> string + string"
  ae_audit_json :: "'j audit_log \<Rightarrow> string + string"
  ae_details :: "string \<Rightarrow> nat \<Rightarrow> nat \<Rightarrow> 'j"
  ae_date :: "int \<Rightarrow> string"
  ae_gzip :: "string \<Rightarrow> string + string"
  ae_base64 :: "byte list \<Rightarrow> string"
  ae_now :: "'s \<Rightarrow> int"
  ae_retain_until :: "int \<Rightarrow> i64 \<Rightarrow> int option"
  ae_head :: "string \<Rightarrow> string \<Rightarrow> 's \<Rightarrow> 's \<times> head_answer"
  ae_put :: "put_request \<Rightarrow> 's \<Rightarrow> 's \<times> (string + unit)"

definition history_item :: "('j, 's) archiver_env \<Rightarrow> 'j entity_history archivable" where
  "history_item E = \<lparr>av_id = eh_id, av_tenant_id = eh_tenant_id, av_created_at = eh_created_at, av_json = ae_history_json E\<rparr>"

definition audit_item :: "('j, 's) archiver_env \<Rightarrow> 'j audit_log archivable" where
  "audit_item E = \<lparr>av_id = al_id, av_tenant_id = al_tenant_id, av_created_at = al_created_at, av_json = ae_audit_json E\<rparr>"

text \<open>A character outside ASCII becomes one underscore; of its bytes only the first is no continuation byte.\<close>

definition key_byte :: "char \<Rightarrow> char" where
  "key_byte c = (if is_ascii_alphanumeric c \<or> c = CHR ''-'' \<or> c = CHR ''_'' \<or> c = CHR ''.'' then c else CHR ''_'')"

definition sanitize_key_segment :: "string \<Rightarrow> string" where
  "sanitize_key_segment raw = map key_byte (filter (\<lambda>c. \<not> utf8_cont (of_char c)) raw)"

definition sanitize_tenant_id_for_key :: "string \<Rightarrow> string" where
  "sanitize_tenant_id_for_key raw = sanitize_key_segment raw"

definition sanitize_archive_id_for_key :: "string \<Rightarrow> string" where
  "sanitize_archive_id_for_key raw = sanitize_key_segment raw"

definition archive_key :: "('j, 's) archiver_env \<Rightarrow> 'r archivable \<Rightarrow> string \<Rightarrow> 'r \<Rightarrow> string" where
  "archive_key E A key_prefix item =
     key_prefix @ ''/'' @ sanitize_tenant_id_for_key (av_tenant_id A item) @ ''/'' @ ae_date E (av_created_at A item) @ ''/''
       @ sanitize_archive_id_for_key (av_id A item) @ ''.json.gz''"

definition s3_object_exists :: "('j, 's) archiver_env \<Rightarrow> string \<Rightarrow> string \<Rightarrow> 's \<Rightarrow> 's \<times> (string + bool)" where
  "s3_object_exists E bucket key s =
     (case ae_head E bucket key s of
        (s, HeadFound) \<Rightarrow> (s, Inr True)
      | (s, HeadNotFound) \<Rightarrow> (s, Inr False)
      | (s, HeadFailed e) \<Rightarrow> (s, Inl e))"

definition build_gzip_payload :: "('j, 's) archiver_env \<Rightarrow> string \<Rightarrow> string + string \<times> string" where
  "build_gzip_payload E json =
     and_then (ae_gzip E json) (\<lambda>compressed. Inr (compressed, ae_base64 E (rp_sha256 (ae_repo E) compressed)))"

definition put_archive_object ::
    "('j, 's) archiver_env \<Rightarrow> string \<Rightarrow> string \<Rightarrow> string \<Rightarrow> string \<Rightarrow> object_lock_config option \<Rightarrow> 's
      \<Rightarrow> 's \<times> (archive_failure + unit)" where
  "put_archive_object E bucket key body checksum object_lock s =
     (let request = (\<lambda>lock. \<lparr>pr_bucket = bucket, pr_key = key, pr_body = body, pr_content_type = ''application/gzip'',
                             pr_checksum = checksum, pr_lock = lock\<rparr>);
          send = (\<lambda>lock. case ae_put E (request lock) s of
                           (s, Inl e) \<Rightarrow> (s, Inl (ArchiveFailed e)) | (s, Inr _) \<Rightarrow> (s, Inr ()))
      in case object_lock of
           None \<Rightarrow> send None
         | Some lock \<Rightarrow>
             (case ae_retain_until E (ae_now E s) (lc_retain_days lock) of
                None \<Rightarrow> (s, Inl Panicked)
              | Some t \<Rightarrow> send (Some (lc_mode lock, timestamp t))))"

fun archive_loop ::
    "('j, 's) archiver_env \<Rightarrow> 'r archivable \<Rightarrow> string \<Rightarrow> string \<Rightarrow> string \<Rightarrow> object_lock_config option \<Rightarrow> string \<Rightarrow> 'r list \<Rightarrow> string list
      \<Rightarrow> 's \<Rightarrow> 's \<times> (archive_failure + string list)" where
  "archive_loop E A record_kind key_prefix bucket lock_config expected_tenant_id [] archived_ids s = (s, Inr archived_ids)"
| "archive_loop E A record_kind key_prefix bucket lock_config expected_tenant_id (item # items) archived_ids s =
     (let continue = archive_loop E A record_kind key_prefix bucket lock_config expected_tenant_id items;
          key = archive_key E A key_prefix item
      in if av_tenant_id A item \<noteq> expected_tenant_id
         then (s, Inl (ArchiveFailed (''Tenant mismatch while archiving item '' @ av_id A item @ '' (kind: '' @ record_kind
                 @ ''). Expected tenant_id='' @ expected_tenant_id @ '', found tenant_id='' @ av_tenant_id A item)))
         else (case s3_object_exists E bucket key s of
                 (s, Inr True) \<Rightarrow> continue (archived_ids @ [av_id A item]) s
               | (s, Inl _) \<Rightarrow> continue archived_ids s
               | (s, Inr False) \<Rightarrow>
                   (case av_json A item of
                      Inl _ \<Rightarrow> continue archived_ids s
                    | Inr json \<Rightarrow>
                        (case build_gzip_payload E json of
                           Inl _ \<Rightarrow> continue archived_ids s
                         | Inr (payload, checksum) \<Rightarrow>
                             (case put_archive_object E bucket key payload checksum lock_config s of
                                (s, Inr _) \<Rightarrow> continue (archived_ids @ [av_id A item]) s
                              | (s, Inl Panicked) \<Rightarrow> (s, Inl Panicked)
                              | (s, Inl (ArchiveFailed _)) \<Rightarrow> continue archived_ids s)))))"

definition archive_items ::
    "('j, 's) archiver_env \<Rightarrow> 'r archivable \<Rightarrow> string \<Rightarrow> string \<Rightarrow> 'r list \<Rightarrow> string \<Rightarrow> object_lock_config option \<Rightarrow> string
      \<Rightarrow> 's \<Rightarrow> 's \<times> (archive_failure + string list)" where
  "archive_items E A record_kind key_prefix items bucket lock_config expected_tenant_id =
     archive_loop E A record_kind key_prefix bucket lock_config expected_tenant_id items []"

section \<open>Cycles\<close>

record ('j, 's) archiver =
  ar_db :: "'j repo_tables ddb"
  ar_kernel_session :: pg_session
  ar_s3 :: 's

text \<open>The archiver's system context; both connections reach the same database, each with its own session settings.\<close>

definition archiver_system_context :: "unit tenant_context" where
  "archiver_system_context = with_db system_tenant_context ()"

definition on_kernel_db :: "('j, 'a) repo_tx \<Rightarrow> ('j, 's) archiver \<Rightarrow> ('j, 's) archiver \<times> (data_error + 'a)" where
  "on_kernel_db m st =
     (let own = db_pg (ar_db st);
          view = (ar_db st)\<lparr>db_pg := (ar_kernel_session st)\<lparr>pg_nonces := pg_nonces own\<rparr>\<rparr>
      in case m view of (db, r) \<Rightarrow>
           (st\<lparr>ar_db := db\<lparr>db_pg := own\<lparr>pg_nonces := pg_nonces (db_pg db)\<rparr>\<rparr>, ar_kernel_session := db_pg db\<rparr>, r))"

definition archiver_rotate_keys :: "('j, 's) archiver_env \<Rightarrow> 'd ddb \<Rightarrow> 'd ddb \<times> (key_manager_error + unit)" where
  "archiver_rotate_keys E = on_core (rotate_keys (ae_keys E) archiver_system_context)"

definition archiver_token :: "('j, 's) archiver_env \<Rightarrow> tenant_id \<Rightarrow> 'd ddb \<Rightarrow> 'd ddb \<times> (key_manager_error + string)" where
  "archiver_token E tenant_id =
     on_core (generate_tenant_token (ae_keys E) (tx_hmac_hex (rp_tx (ae_repo E))) archiver_system_context tenant_id)"

definition generate_token_with_recovery :: "('j, 's) archiver_env \<Rightarrow> tenant_id \<Rightarrow> 'd ddb \<Rightarrow> 'd ddb \<times> string option" where
  "generate_token_with_recovery E tenant_id db =
     (case archiver_token E tenant_id db of
        (db, Inr token) \<Rightarrow> (db, Some token)
      | (db, Inl (NoActiveKey _)) \<Rightarrow>
          (case archiver_rotate_keys E db of
             (db, Inl _) \<Rightarrow> (db, None)
           | (db, Inr _) \<Rightarrow>
               (case archiver_token E tenant_id db of
                  (db, Inr token) \<Rightarrow> (db, Some token)
                | (db, Inl _) \<Rightarrow> (db, None)))
      | (db, Inl _) \<Rightarrow> (db, None))"

definition fetch_unarchived :: "('j, 's) archiver_env \<Rightarrow> u64 \<Rightarrow> tenant_scoped \<Rightarrow> ('j, 'j entity_history list \<times> 'j audit_log list) repo_tx" where
  "fetch_unarchived E batch_size repo =
     dbind (find_unarchived_entity_histories (ae_repo E) repo batch_size) (\<lambda>histories.
     dbind (find_unarchived_audit_logs (ae_repo E) repo batch_size) (\<lambda>logs. dreturn (histories, logs)))"

definition mark_archived :: "('j, 's) archiver_env \<Rightarrow> string list \<Rightarrow> string list \<Rightarrow> tenant_scoped \<Rightarrow> ('j, unit) repo_tx" where
  "mark_archived E entity_history_ids audit_log_ids repo =
     dbind (if entity_history_ids \<noteq> [] then mark_entity_histories_archived (ae_repo E) repo entity_history_ids else dreturn ()) (\<lambda>_.
     dbind (if audit_log_ids \<noteq> [] then mark_audit_logs_archived (ae_repo E) repo audit_log_ids else dreturn ()) (\<lambda>_. dreturn ()))"

text \<open>The marks of one tenant and the privileged audit entry, which is written on the other connection.\<close>

definition mark_and_audit :: "('j, 's) archiver_env \<Rightarrow> tenant_id \<Rightarrow> string list \<Rightarrow> string list \<Rightarrow> ('j, 's) archiver \<Rightarrow> ('j, 's) archiver" where
  "mark_and_audit E tenant_id entity_history_ids audit_log_ids st =
     (case generate_token_with_recovery E tenant_id (ar_db st) of
        (db, None) \<Rightarrow> st\<lparr>ar_db := db\<rparr>
      | (db, Some mark_token) \<Rightarrow>
          (case with_tenant_tx (rp_tx (ae_repo E)) (TenantContext_new tenant_id None :: unit tenant_context) mark_token
                  (mark_archived E entity_history_ids audit_log_ids) db of
             (db, Inl _) \<Rightarrow> st\<lparr>ar_db := db\<rparr>
           | (db, Inr _) \<Rightarrow>
               fst (on_kernel_db (kernel_with_tx (log_privileged_audit (ae_repo E) ''kernel_archiver.archive_records'' ''system:archive''
                       (ae_details E (tenant_str tenant_id) (length entity_history_ids) (length audit_log_ids))))
                     (st\<lparr>ar_db := db\<rparr>))))"

definition ids_or_none :: "archive_failure + string list \<Rightarrow> string list" where
  "ids_or_none r = (case r of Inl _ \<Rightarrow> [] | Inr ids \<Rightarrow> ids)"

definition archive_tenant :: "('j, 's) archiver_env \<Rightarrow> app_config \<Rightarrow> tenant_id \<Rightarrow> ('j, 's) archiver
    \<Rightarrow> ('j, 's) archiver \<times> (archive_failure + unit)" where
  "archive_tenant E config tenant_id st =
     (case generate_token_with_recovery E tenant_id (ar_db st) of
        (db, None) \<Rightarrow> (st\<lparr>ar_db := db\<rparr>, Inr ())
      | (db, Some fetch_token) \<Rightarrow>
          (case with_tenant_tx (rp_tx (ae_repo E)) (TenantContext_new tenant_id None :: unit tenant_context) fetch_token
                  (fetch_unarchived E (ac_batch_size config)) db of
             (db, Inl _) \<Rightarrow> (st\<lparr>ar_db := db\<rparr>, Inr ())
           | (db, Inr (histories, logs)) \<Rightarrow>
               (case archive_items E (history_item E) ''entity history'' ''entity-history'' histories (ac_s3_bucket config)
                       (ac_object_lock config) (tenant_str tenant_id) (ar_s3 st) of
                  (s3, Inl Panicked) \<Rightarrow> (st\<lparr>ar_db := db, ar_s3 := s3\<rparr>, Inl Panicked)
                | (s3, entity_histories_result) \<Rightarrow>
                    (case archive_items E (audit_item E) ''audit log'' ''audit-logs'' logs (ac_s3_bucket config)
                            (ac_object_lock config) (tenant_str tenant_id) s3 of
                       (s3, Inl Panicked) \<Rightarrow> (st\<lparr>ar_db := db, ar_s3 := s3\<rparr>, Inl Panicked)
                     | (s3, audit_logs_result) \<Rightarrow>
                         (let st = st\<lparr>ar_db := db, ar_s3 := s3\<rparr>;
                              entity_history_ids = ids_or_none entity_histories_result;
                              audit_log_ids = ids_or_none audit_logs_result
                          in if entity_history_ids = [] \<and> audit_log_ids = [] then (st, Inr ())
                             else (mark_and_audit E tenant_id entity_history_ids audit_log_ids st, Inr ()))))))"

fun archive_tenants :: "('j, 's) archiver_env \<Rightarrow> app_config \<Rightarrow> tenant_id list \<Rightarrow> ('j, 's) archiver
    \<Rightarrow> ('j, 's) archiver \<times> (archive_failure + unit)" where
  "archive_tenants E config [] st = (st, Inr ())"
| "archive_tenants E config (tenant_id # tenant_ids) st =
     (case archive_tenant E config tenant_id st of
        (st, Inl e) \<Rightarrow> (st, Inl e)
      | (st, Inr _) \<Rightarrow> archive_tenants E config tenant_ids st)"

definition run_archive_cycle :: "('j, 's) archiver_env \<Rightarrow> app_config \<Rightarrow> ('j, 's) archiver
    \<Rightarrow> ('j, 's) archiver \<times> (archive_failure + unit)" where
  "run_archive_cycle E config st =
     (case archiver_rotate_keys E (ar_db st) of
        (db, Inl _) \<Rightarrow> (st\<lparr>ar_db := db\<rparr>, Inl (ArchiveFailed ''failed to ensure active keys before archive cycle''))
      | (db, Inr _) \<Rightarrow> archive_tenants E config (ac_tenant_ids config) (st\<lparr>ar_db := db\<rparr>))"

section \<open>The process\<close>

datatype archiver_event = CtrlC | Tick

datatype archiver_exit = ExitOk | ExitErr string | ExitPanic

text \<open>The loop of \<open>main\<close> over the events it is given; it goes on waiting when they are used up.\<close>

fun archiver_loop :: "('j, 's) archiver_env \<Rightarrow> app_config \<Rightarrow> archiver_event list \<Rightarrow> ('j, 's) archiver
    \<Rightarrow> ('j, 's) archiver \<times> archiver_exit option" where
  "archiver_loop E config [] st = (st, None)"
| "archiver_loop E config (CtrlC # events) st = (st, Some ExitOk)"
| "archiver_loop E config (Tick # events) st =
     (case run_archive_cycle E config st of
        (st, Inl Panicked) \<Rightarrow> (st, Some ExitPanic)
      | (st, _) \<Rightarrow> archiver_loop E config events st)"

text \<open>\<open>connect\<close> opens a connection; \<open>role_row\<close> is the answer to \<open>SELECT session_user, current_user\<close>.\<close>

definition verify_kernel_role :: "string + (string \<times> string) option \<Rightarrow> string + unit" where
  "verify_kernel_role role_row =
     (case role_row of
        Inl _ \<Rightarrow> Inl ''failed to query session_user/current_user on kernel database connection''
      | Inr row \<Rightarrow>
          (let (session_role, current_role) = (case row of Some r \<Rightarrow> r | None \<Rightarrow> (''<unknown>'', ''<unknown>''))
           in if session_role \<noteq> ''flexi_kernel_admin'' \<or> current_role \<noteq> ''flexi_kernel_admin''
              then Inl (''Kernel database connection session_user/current_user is '' @ [CHR 0x27] @ session_role @ ''/'' @ current_role
                        @ [CHR 0x27] @ '', expected '' @ [CHR 0x27] @ ''flexi_kernel_admin/flexi_kernel_admin'' @ [CHR 0x27]
                        @ ''. Set KERNEL_DATABASE_URL to a connection string that authenticates as flexi_kernel_admin.'')
              else Inr ()))"

definition archiver_main ::
    "('j, 's) archiver_env \<Rightarrow> env_vars \<Rightarrow> (string \<Rightarrow> string + unit) \<Rightarrow> (string \<Rightarrow> string + (string \<times> string) option)
      \<Rightarrow> archiver_event list \<Rightarrow> ('j, 's) archiver \<Rightarrow> ('j, 's) archiver \<times> archiver_exit option" where
  "archiver_main E env connect role_row events st =
     (case load_config env of
        Inl e \<Rightarrow> (st, Some (ExitErr e))
      | Inr config \<Rightarrow>
          (case and_then (map_sum (\<lambda>_. ''failed to connect primary database'') id (connect (ac_database_url config))) (\<lambda>_.
                and_then (map_sum (\<lambda>_. ''failed to connect kernel admin database'') id (connect (ac_kernel_database_url config))) (\<lambda>_.
                verify_kernel_role (role_row (ac_kernel_database_url config)))) of
             Inl e \<Rightarrow> (st, Some (ExitErr e))
           | Inr _ \<Rightarrow>
               (case archiver_rotate_keys E (ar_db st) of
                  (db, Inl _) \<Rightarrow> (st\<lparr>ar_db := db\<rparr>, Some (ExitErr ''failed to initialize key rotation state at startup''))
                | (db, Inr _) \<Rightarrow>
                    if ac_interval_secs config = 0 then (st\<lparr>ar_db := db\<rparr>, Some ExitPanic)
                    else archiver_loop E config events (st\<lparr>ar_db := db\<rparr>))))"

section \<open>Object keys\<close>

definition plain_segment :: "string \<Rightarrow> bool" where
  "plain_segment s \<longleftrightarrow> list_all principal_byte s"

lemma key_byte_principal: "principal_byte c \<Longrightarrow> key_byte c = c"
  by (auto simp: key_byte_def principal_byte_def is_ascii_alphanumeric_def)

lemma principal_byte_ascii: "principal_byte c \<Longrightarrow> \<not> utf8_cont (of_char c)"
  by (auto simp: principal_byte_def utf8_cont_def is_ascii_lower_def is_ascii_upper_def is_ascii_digit_def)

lemma sanitize_plain [simp]: "plain_segment s \<Longrightarrow> sanitize_key_segment s = s"
  unfolding sanitize_key_segment_def plain_segment_def
  by (induction s) (auto simp: key_byte_principal principal_byte_ascii)

lemma valid_principal_plain: "is_valid_principal s \<Longrightarrow> plain_segment s"
  by (simp add: is_valid_principal_def plain_segment_def)

definition archive_path :: "string \<Rightarrow> string \<Rightarrow> string \<Rightarrow> string \<Rightarrow> string" where
  "archive_path key_prefix t d i = key_prefix @ CHR ''/'' # t @ CHR ''/'' # d @ CHR ''/'' # i @ ''.json.gz''"

interpretation path_segment: sep_format "CHR ''/''" plain_segment
  by unfold_locales (auto simp: plain_segment_def list_all_iff)

lemma archive_path_inj:
  assumes "archive_path p t d i = archive_path p t' d' i'" and plain: "plain_segment t" "plain_segment t'" "plain_segment i" "plain_segment i'"
  shows "t = t' \<and> d = d' \<and> i = i'"
proof -
  have "t @ CHR ''/'' # (d @ CHR ''/'' # i) = t' @ CHR ''/'' # (d' @ CHR ''/'' # i')"
    using assms(1) by (auto simp: archive_path_def)
  then have t: "t = t'" and di: "d @ CHR ''/'' # i = d' @ CHR ''/'' # i'" using path_segment.key_inj [OF plain(1,2)] by blast+
  have "plain_segment (rev i)" "plain_segment (rev i')" using plain(3,4) by (simp_all add: plain_segment_def)
  moreover have "rev i @ CHR ''/'' # rev d = rev i' @ CHR ''/'' # rev d'" using arg_cong [OF di, of rev] by simp
  ultimately have "rev i = rev i' \<and> rev d = rev d'" using path_segment.key_inj by blast
  with t show ?thesis by simp
qed

lemma archive_key_path:
  "plain_segment (av_tenant_id A r) \<Longrightarrow> plain_segment (av_id A r)
    \<Longrightarrow> archive_key E A p r = archive_path p (av_tenant_id A r) (ae_date E (av_created_at A r)) (av_id A r)"
  by (simp add: archive_key_def archive_path_def sanitize_tenant_id_for_key_def sanitize_archive_id_for_key_def)

section \<open>What the store holds\<close>

type_synonym objects = "string \<times> string \<Rightarrow> put_request option"

text \<open>
  The store keeps objects: asking changes nothing and tells the truth when it answers, a put that
  is confirmed stores the object, and one that fails stores it or does nothing.
\<close>

definition s3_laws :: "('j, 's) archiver_env \<Rightarrow> ('s \<Rightarrow> objects) \<Rightarrow> bool" where
  "s3_laws E objects \<longleftrightarrow>
     (\<forall>bucket key s s' a. ae_head E bucket key s = (s', a) \<longrightarrow> objects s' = objects s
        \<and> (a = HeadFound \<longrightarrow> objects s (bucket, key) \<noteq> None) \<and> (a = HeadNotFound \<longrightarrow> objects s (bucket, key) = None))
   \<and> (\<forall>req s s' a. ae_put E req s = (s', a) \<longrightarrow>
        objects s' = (objects s)((pr_bucket req, pr_key req) \<mapsto> req) \<or> objects s' = objects s \<and> (\<exists>e. a = Inl e))"

text \<open>An object holds a row: its body is the compressed serialisation of the row.\<close>

definition holds_row :: "('j, 's) archiver_env \<Rightarrow> 'r archivable \<Rightarrow> 'r \<Rightarrow> put_request \<Rightarrow> bool" where
  "holds_row E A r obj \<longleftrightarrow> (\<exists>json. av_json A r = Inr json \<and> ae_gzip E json = Inr (pr_body obj))"

text \<open>
  A table and the store agree: the object under a row's key holds that row as it was before its
  mark, a marked row has its object, and objects under keys of this kind belong to rows.
\<close>

definition kind_ok ::
    "('j, 's) archiver_env \<Rightarrow> 'r archivable \<Rightarrow> string \<Rightarrow> ('r \<Rightarrow> int option) \<Rightarrow> (int option \<Rightarrow> 'r \<Rightarrow> 'r) \<Rightarrow> string
      \<Rightarrow> 'r list \<Rightarrow> objects \<Rightarrow> bool" where
  "kind_ok E A key_prefix archived_at with_mark bucket rows objs \<longleftrightarrow>
     distinct (map (\<lambda>r. (av_id A r, av_tenant_id A r)) rows)
   \<and> (\<forall>r \<in> set rows. plain_segment (av_id A r) \<and> plain_segment (av_tenant_id A r))
   \<and> (\<forall>r \<in> set rows. case objs (bucket, archive_key E A key_prefix r) of
        None \<Rightarrow> archived_at r = None
      | Some obj \<Rightarrow> holds_row E A (with_mark None r) obj)
   \<and> (\<forall>t d i. plain_segment t \<longrightarrow> plain_segment i \<longrightarrow> objs (bucket, archive_path key_prefix t d i) \<noteq> None \<longrightarrow>
        (\<exists>r \<in> set rows. av_id A r = i \<and> av_tenant_id A r = t))"

text \<open>The ids of one tenant whose rows have their objects.\<close>

definition stored_ids :: "('j, 's) archiver_env \<Rightarrow> 'r archivable \<Rightarrow> string \<Rightarrow> string \<Rightarrow> 'r list \<Rightarrow> string \<Rightarrow> string list \<Rightarrow> objects \<Rightarrow> bool" where
  "stored_ids E A key_prefix bucket rows t ids objs \<longleftrightarrow>
     (\<forall>r \<in> set rows. av_tenant_id A r = t \<and> av_id A r \<in> set ids \<longrightarrow> objs (bucket, archive_key E A key_prefix r) \<noteq> None)"

text \<open>What a copy of some rows leaves: the table and the store agree, nothing else in the store changed, nothing vanished.\<close>

definition copied ::
    "('j, 's) archiver_env \<Rightarrow> 'r archivable \<Rightarrow> string \<Rightarrow> ('r \<Rightarrow> int option) \<Rightarrow> (int option \<Rightarrow> 'r \<Rightarrow> 'r) \<Rightarrow> string
      \<Rightarrow> 'r list \<Rightarrow> string \<Rightarrow> objects \<Rightarrow> objects \<Rightarrow> archive_failure + string list \<Rightarrow> bool" where
  "copied E A key_prefix archived_at with_mark bucket rows t objs objs' res \<longleftrightarrow>
     kind_ok E A key_prefix archived_at with_mark bucket rows objs' \<and> objs \<subseteq>\<^sub>m objs'
     \<and> (\<forall>b k. objs' (b, k) \<noteq> objs (b, k) \<longrightarrow> b = bucket \<and> starts_with k (key_prefix @ ''/''))
     \<and> (\<forall>ids. res = Inr ids \<longrightarrow> stored_ids E A key_prefix bucket rows t ids objs')"

lemma s3_head: "s3_laws E objects \<Longrightarrow> ae_head E bucket key s = (s', a) \<Longrightarrow> objects s' = objects s
    \<and> (a = HeadFound \<longrightarrow> objects s (bucket, key) \<noteq> None) \<and> (a = HeadNotFound \<longrightarrow> objects s (bucket, key) = None)"
  unfolding s3_laws_def by blast

lemma s3_put: "s3_laws E objects \<Longrightarrow> ae_put E req s = (s', a)
    \<Longrightarrow> objects s' = (objects s)((pr_bucket req, pr_key req) \<mapsto> req) \<or> objects s' = objects s \<and> (\<exists>e. a = Inl e)"
  unfolding s3_laws_def by blast

lemma s3_object_exists_laws:
  assumes "s3_laws E objects" and "s3_object_exists E bucket key s = (s', a)"
  shows "objects s' = objects s" "a = Inr True \<Longrightarrow> objects s (bucket, key) \<noteq> None" "a = Inr False \<Longrightarrow> objects s (bucket, key) = None"
proof -
  obtain s1 h where h: "ae_head E bucket key s = (s1, h)" by (cases "ae_head E bucket key s")
  have "s1 = s' \<and> (a = Inr True \<longrightarrow> h = HeadFound) \<and> (a = Inr False \<longrightarrow> h = HeadNotFound)"
    using assms(2) h by (cases h) (auto simp: s3_object_exists_def)
  with s3_head [OF assms(1) h]
  show "objects s' = objects s" "a = Inr True \<Longrightarrow> objects s (bucket, key) \<noteq> None" "a = Inr False \<Longrightarrow> objects s (bucket, key) = None"
    by blast+
qed

lemma put_archive_object_laws:
  assumes "s3_laws E objects" and "put_archive_object E bucket key body checksum lock s = (s', a)"
  obtains req where "objects s' = (objects s)((bucket, key) \<mapsto> req)" "pr_body req = body" | e where "objects s' = objects s" "a = Inl e"
proof -
  define req where "req = (\<lambda>l. \<lparr>pr_bucket = bucket, pr_key = key, pr_body = body, pr_content_type = ''application/gzip'',
    pr_checksum = checksum, pr_lock = l\<rparr>)"
  have "(\<exists>l b. ae_put E (req l) s = (s', b) \<and> (\<forall>e. b = Inl e \<longrightarrow> a = Inl (ArchiveFailed e))) \<or> s' = s \<and> a = Inl Panicked"
    using assms(2) unfolding put_archive_object_def Let_def req_def [symmetric]
    by (auto split: option.splits prod.splits sum.splits)
  then consider l b where "ae_put E (req l) s = (s', b)" "\<forall>e. b = Inl e \<longrightarrow> a = Inl (ArchiveFailed e)" | "s' = s" "a = Inl Panicked"
    by blast
  then show thesis
  proof cases
    case (1 l b)
    with s3_put [OF assms(1) 1(1)] that show thesis by (auto simp: req_def)
  next
    case 2
    with that(2) show thesis by simp
  qed
qed

section \<open>Copying the rows of a table\<close>

locale archive_kind =
  fixes E :: "('j, 's) archiver_env" and A :: "'r archivable" and key_prefix bucket :: string
    and archived_at :: "'r \<Rightarrow> int option" and with_mark :: "int option \<Rightarrow> 'r \<Rightarrow> 'r"
  assumes with_mark_key [simp]: "av_id A (with_mark a r) = av_id A r" "av_tenant_id A (with_mark a r) = av_tenant_id A r"
      "av_created_at A (with_mark a r) = av_created_at A r"
    and with_mark_same: "archived_at r = None \<Longrightarrow> with_mark None r = r"
    and with_mark_twice [simp]: "with_mark a (with_mark b r) = with_mark a r"
begin

abbreviation "table_ok \<equiv> kind_ok E A key_prefix archived_at with_mark bucket"
abbreviation "ids_stored \<equiv> stored_ids E A key_prefix bucket"

lemma with_mark_archive_key [simp]: "archive_key E A key_prefix (with_mark a r) = archive_key E A key_prefix r"
  by (simp add: archive_key_def)

lemma table_ok_put:
  assumes ok: "table_ok rows objs" and r: "r \<in> set rows" "archived_at r = None" and obj: "holds_row E A r obj"
  shows "table_ok rows (objs((bucket, archive_key E A key_prefix r) \<mapsto> obj))"
proof -
  have plain: "\<forall>r \<in> set rows. plain_segment (av_id A r) \<and> plain_segment (av_tenant_id A r)"
    and dist: "distinct (map (\<lambda>r. (av_id A r, av_tenant_id A r)) rows)" using ok by (auto simp: kind_ok_def)
  have same: "q = r" if "q \<in> set rows" "archive_key E A key_prefix q = archive_key E A key_prefix r" for q
  proof -
    have "av_tenant_id A q = av_tenant_id A r \<and> av_id A q = av_id A r"
      using that r(1) plain archive_path_inj by (metis archive_key_path)
    then show "q = r" using dist that(1) r(1) by (auto simp: distinct_map inj_on_def)
  qed
  show ?thesis
    unfolding kind_ok_def
  proof (intro conjI)
    show "\<forall>q \<in> set rows. case (objs((bucket, archive_key E A key_prefix r) \<mapsto> obj)) (bucket, archive_key E A key_prefix q) of
        None \<Rightarrow> archived_at q = None | Some obj \<Rightarrow> holds_row E A (with_mark None q) obj"
    proof
      fix q assume q: "q \<in> set rows"
      then have old: "case objs (bucket, archive_key E A key_prefix q) of None \<Rightarrow> archived_at q = None | Some obj \<Rightarrow> holds_row E A (with_mark None q) obj"
        using ok by (simp add: kind_ok_def)
      show "case (objs((bucket, archive_key E A key_prefix r) \<mapsto> obj)) (bucket, archive_key E A key_prefix q) of
          None \<Rightarrow> archived_at q = None | Some obj \<Rightarrow> holds_row E A (with_mark None q) obj"
      proof (cases "archive_key E A key_prefix q = archive_key E A key_prefix r")
        case True
        with same [OF q] obj with_mark_same [OF r(2)] show ?thesis by simp
      next
        case False
        with old show ?thesis by simp
      qed
    qed
    show "\<forall>t d i. plain_segment t \<longrightarrow> plain_segment i
        \<longrightarrow> (objs((bucket, archive_key E A key_prefix r) \<mapsto> obj)) (bucket, archive_path key_prefix t d i) \<noteq> None
        \<longrightarrow> (\<exists>r \<in> set rows. av_id A r = i \<and> av_tenant_id A r = t)"
    proof (intro allI impI)
      fix t d i assume ti: "plain_segment t" "plain_segment i"
        and some: "(objs((bucket, archive_key E A key_prefix r) \<mapsto> obj)) (bucket, archive_path key_prefix t d i) \<noteq> None"
      show "\<exists>r \<in> set rows. av_id A r = i \<and> av_tenant_id A r = t"
      proof (cases "archive_key E A key_prefix r = archive_path key_prefix t d i")
        case True
        then have "av_tenant_id A r = t \<and> av_id A r = i"
          using archive_path_inj ti plain r(1) archive_key_path [of A r E key_prefix] by metis
        with r(1) show ?thesis by blast
      next
        case False
        then have "objs (bucket, archive_path key_prefix t d i) \<noteq> None" using some by (auto split: if_splits)
        with ok ti show ?thesis unfolding kind_ok_def by blast
      qed
    qed
  qed (use plain dist in auto)
qed

lemma table_ok_mark:
  assumes "table_ok rows objs" and "\<And>r. r \<in> set rows \<Longrightarrow> marked r \<Longrightarrow> objs (bucket, archive_key E A key_prefix r) \<noteq> None"
  shows "table_ok (map (\<lambda>r. if marked r then with_mark (Some now) r else r) rows) objs"
proof -
  let ?f = "\<lambda>r. if marked r then with_mark (Some now) r else r"
  have keys: "av_id A (?f r) = av_id A r" "av_tenant_id A (?f r) = av_tenant_id A r" "archive_key E A key_prefix (?f r) = archive_key E A key_prefix r"
    "with_mark None (?f r) = with_mark None r" for r
    by simp_all
  have "\<forall>r \<in> set rows. marked r \<longrightarrow> objs (bucket, archive_key E A key_prefix r) \<noteq> None" using assms(2) by blast
  then show ?thesis
    unfolding kind_ok_def set_map map_map comp_def ball_simps bex_simps keys
    using assms(1) by (auto simp: kind_ok_def split: option.splits)
qed

lemma table_ok_append:
  assumes "table_ok rows objs" and "plain_segment (av_id A r)" "plain_segment (av_tenant_id A r)" "archived_at r = None"
    and fresh: "(av_id A r, av_tenant_id A r) \<notin> (\<lambda>r. (av_id A r, av_tenant_id A r)) ` set rows"
  shows "table_ok (rows @ [r]) objs"
proof -
  have "objs (bucket, archive_key E A key_prefix r) = None"
    using assms(1,2,3) fresh archive_key_path [of A r E key_prefix] unfolding kind_ok_def by (metis (no_types, lifting) image_eqI)
  then show ?thesis using assms by (auto simp: kind_ok_def)
qed

lemma table_ok_objects:
  "table_ok rows objs \<Longrightarrow> (\<And>k. starts_with k (key_prefix @ ''/'') \<Longrightarrow> objs' (bucket, k) = objs (bucket, k)) \<Longrightarrow> table_ok rows objs'"
proof -
  assume ok: "table_ok rows objs" and same: "\<And>k. starts_with k (key_prefix @ ''/'') \<Longrightarrow> objs' (bucket, k) = objs (bucket, k)"
  have "objs' (bucket, archive_path key_prefix t d i) = objs (bucket, archive_path key_prefix t d i)" for t d i
    by (rule same) (simp add: archive_path_def starts_with_iff)
  moreover have "objs' (bucket, archive_key E A key_prefix r) = objs (bucket, archive_key E A key_prefix r)" for r
    by (rule same) (simp add: archive_key_def starts_with_iff)
  ultimately show "table_ok rows objs'" using ok unfolding kind_ok_def by simp
qed

lemma ids_stored_mono: "ids_stored rows t ids objs \<Longrightarrow> objs \<subseteq>\<^sub>m objs' \<Longrightarrow> ids_stored rows t ids objs'"
  unfolding stored_ids_def by (metis domIff map_le_implies_dom_le subsetD)

abbreviation "rows_copied \<equiv> copied E A key_prefix archived_at with_mark bucket"

lemma copied_trans:
  "objs \<subseteq>\<^sub>m objs1 \<Longrightarrow> (\<forall>b k. objs1 (b, k) \<noteq> objs (b, k) \<longrightarrow> b = bucket \<and> starts_with k (key_prefix @ ''/'')) \<Longrightarrow> rows_copied rows t objs1 objs' res
    \<Longrightarrow> rows_copied rows t objs objs' res"
  unfolding copied_def by (metis map_le_trans)

lemma ids_stored_snoc:
  assumes "table_ok rows objs" "ids_stored rows t ids objs" and "r \<in> set rows" "objs (bucket, archive_key E A key_prefix r) \<noteq> None"
    "av_tenant_id A r = t"
  shows "ids_stored rows t (ids @ [av_id A r]) objs"
  unfolding stored_ids_def
proof (intro ballI impI)
  fix q assume q: "q \<in> set rows" "av_tenant_id A q = t \<and> av_id A q \<in> set (ids @ [av_id A r])"
  show "objs (bucket, archive_key E A key_prefix q) \<noteq> None"
  proof (cases "av_id A q = av_id A r")
    case True
    then have "q = r" using assms(1,3,5) q by (auto simp: kind_ok_def distinct_map inj_on_def)
    with assms(4) show ?thesis by simp
  next
    case False
    with q assms(2) show ?thesis by (auto simp: stored_ids_def)
  qed
qed

lemma archive_loop_copied:
  assumes laws: "s3_laws E objects"
  shows "archive_loop E A kind key_prefix bucket lock t items ids s = (s', res) \<Longrightarrow> table_ok rows (objects s)
    \<Longrightarrow> set items \<subseteq> {r \<in> set rows. archived_at r = None} \<Longrightarrow> ids_stored rows t ids (objects s)
    \<Longrightarrow> rows_copied rows t (objects s) (objects s') res"
proof (induction items arbitrary: ids s)
  case Nil
  then show ?case by (auto simp: copied_def)
next
  case (Cons r items)
  let ?key = "archive_key E A key_prefix r"
  have r: "r \<in> set rows" "archived_at r = None" and items: "set items \<subseteq> {r \<in> set rows. archived_at r = None}" using Cons.prems(3) by auto
  have stop: "rows_copied rows t (objects s) (objects s) (Inl e)" for e using Cons.prems(2) by (simp add: copied_def)
  show ?case
  proof (cases "av_tenant_id A r = t")
    case False
    then have "s' = s" "\<exists>e. res = Inl e" using Cons.prems(1) by (auto simp: Let_def)
    with stop show ?thesis by auto
  next
    case t: True
    obtain s1 a where ex: "s3_object_exists E bucket ?key s = (s1, a)" by (cases "s3_object_exists E bucket ?key s")
    note s1 = s3_object_exists_laws [OF laws ex]
    have IH: "rows_copied rows t (objects s) (objects s') res"
      if "archive_loop E A kind key_prefix bucket lock t items ids' s2 = (s', res)" "objects s2 = objects s" "ids_stored rows t ids' (objects s)" for ids' s2
      using Cons.IH [OF that(1) _ items] that(2,3) Cons.prems(2) by simp
    consider "a = Inr True" | e where "a = Inl e" | "a = Inr False" by (cases a) auto
    then show ?thesis
    proof cases
      case 1
      then show ?thesis using Cons.prems(1) t ex IH [OF _ s1(1) ids_stored_snoc [OF Cons.prems(2,4) r(1) _ t]] s1(2) by (simp add: Let_def)
    next
      case (2 e)
      then show ?thesis using Cons.prems(1) t ex IH [OF _ s1(1) Cons.prems(4)] by (simp add: Let_def)
    next
      case 3
      note none = s1(3) [OF 3]
      show ?thesis
      proof (cases "\<exists>json payload checksum. av_json A r = Inr json \<and> build_gzip_payload E json = Inr (payload, checksum)")
        case False
        then have "archive_loop E A kind key_prefix bucket lock t items ids s1 = (s', res)"
          using Cons.prems(1) t ex 3 by (auto simp: Let_def split: sum.splits)
        then show ?thesis using IH s1(1) Cons.prems(4) by blast
      next
        case True
        then obtain json payload checksum where p: "av_json A r = Inr json" "build_gzip_payload E json = Inr (payload, checksum)" by blast
        obtain s2 b where put: "put_archive_object E bucket ?key payload checksum lock s1 = (s2, b)"
          by (cases "put_archive_object E bucket ?key payload checksum lock s1")
        have step: "archive_loop E A kind key_prefix bucket lock t items (ids @ [av_id A r]) s2 = (s', res)" if "b = Inr u" for u
          using Cons.prems(1) t ex 3 p put that by (simp add: Let_def)
        have skip: "archive_loop E A kind key_prefix bucket lock t items ids s2 = (s', res) \<or> s' = s2 \<and> res = Inl Panicked" if "b = Inl e" for e
          using Cons.prems(1) t ex 3 p put that by (cases e) (simp_all add: Let_def)
        show ?thesis
        proof (rule put_archive_object_laws [OF laws put])
          fix e assume same: "objects s2 = objects s1" and b: "b = Inl e"
          with skip [OF b] IH s1(1) Cons.prems(4) stop show ?thesis by auto
        next
          fix req assume up: "objects s2 = (objects s1)((bucket, ?key) \<mapsto> req)" and body: "pr_body req = payload"
          have "holds_row E A r req" using p body by (auto simp: holds_row_def build_gzip_payload_def and_then_Inr)
          then have ok2: "table_ok rows (objects s2)" using table_ok_put [OF Cons.prems(2) r] up s1(1) by simp
          have le: "objects s \<subseteq>\<^sub>m objects s2" using up s1(1) none by (auto simp: map_le_def)
          have other: "\<forall>b k. objects s2 (b, k) \<noteq> objects s (b, k) \<longrightarrow> b = bucket \<and> starts_with k (key_prefix @ ''/'')"
            using up s1(1) by (auto simp: archive_key_def starts_with_iff)
          note ids2 = ids_stored_mono [OF Cons.prems(4) le]
          have "rows_copied rows t (objects s2) (objects s') res"
          proof (cases b)
            case (Inr u)
            have "objects s2 (bucket, ?key) \<noteq> None" using up by simp
            from Cons.IH [OF step [OF Inr] ok2 items ids_stored_snoc [OF ok2 ids2 r(1) this t]] show ?thesis .
          next
            case (Inl e)
            with skip [OF Inl] Cons.IH [OF _ ok2 items ids2] ok2 show ?thesis by (auto simp: copied_def)
          qed
          with le other show ?thesis by (rule copied_trans)
        qed
      qed
    qed
  qed
qed

lemma archive_items_copied:
  assumes "s3_laws E objects" "archive_items E A kind key_prefix items bucket lock t s = (s', res)" "table_ok rows (objects s)"
    "set items \<subseteq> {r \<in> set rows. archived_at r = None}"
  shows "rows_copied rows t (objects s) (objects s') res"
  using archive_loop_copied [OF assms(1) _ assms(3,4)] assms(2) by (simp add: archive_items_def stored_ids_def)

end

section \<open>The two tables\<close>

definition mark_history :: "int option \<Rightarrow> 'j entity_history \<Rightarrow> 'j entity_history" where
  "mark_history a h = h\<lparr>eh_archived_at := a\<rparr>"

definition mark_audit :: "int option \<Rightarrow> 'j audit_log \<Rightarrow> 'j audit_log" where
  "mark_audit a l = l\<lparr>al_archived_at := a\<rparr>"

interpretation histories: archive_kind E "history_item E" "''entity-history''" bucket eh_archived_at mark_history
  for E :: "('j, 's) archiver_env" and bucket :: string
  by unfold_locales (simp_all add: history_item_def mark_history_def)

interpretation audits: archive_kind E "audit_item E" "''audit-logs''" bucket al_archived_at mark_audit
  for E :: "('j, 's) archiver_env" and bucket :: string
  by unfold_locales (simp_all add: audit_item_def mark_audit_def)

text \<open>Both tables agree with the store.\<close>

definition tables_archived :: "('j, 's) archiver_env \<Rightarrow> string \<Rightarrow> objects \<Rightarrow> 'j repo_tables \<Rightarrow> bool" where
  "tables_archived E bucket objs d \<longleftrightarrow>
     kind_ok E (history_item E) ''entity-history'' eh_archived_at mark_history bucket (rt_histories d) objs
   \<and> kind_ok E (audit_item E) ''audit-logs'' al_archived_at mark_audit bucket (rt_audits d) objs"

definition archive_ok :: "('j, 's) archiver_env \<Rightarrow> ('s \<Rightarrow> objects) \<Rightarrow> string \<Rightarrow> ('j, 's) archiver \<Rightarrow> bool" where
  "archive_ok E objects bucket st \<longleftrightarrow> tables_archived E bucket (objects (ar_s3 st)) (db_tables (ar_db st))"

lemma fetch_keeps: "tx_keeps (rp_tx (ae_repo E)) t (\<lambda>x. x = d) (fetch_unarchived E n sc)"
  unfolding fetch_unarchived_def find_unarchived_entity_histories_def find_unarchived_audit_logs_def
  by (intro tx_keeps_bind tx_keeps_statement tx_keeps_return) auto

lemma fetched_rows:
  assumes "with_tenant_tx (rp_tx (ae_repo E)) ctx token (fetch_unarchived E n) db = (db', r)"
  shows "db_tables db' = db_tables db"
    "r = Inr (hs, ls) \<Longrightarrow> set hs \<subseteq> {h \<in> set (rt_histories (db_tables db)). eh_archived_at h = None}
        \<and> set ls \<subseteq> {l \<in> set (rt_audits (db_tables db)). al_archived_at l = None}"
proof -
  show "db_tables db' = db_tables db"
    using with_tenant_tx_keeps [where P = "\<lambda>x. x = db_tables db" and ?s0.0 = db and f = "fetch_unarchived E n", OF refl fetch_keeps,
        of ctx token] assms by simp
  assume r: "r = Inr (hs, ls)"
  obtain s1 s2 where s1: "tx_entered (rp_tx (ae_repo E)) ctx token db s1" and run: "fetch_unarchived E n (tx_scope ctx) s1 = (s2, Inr (hs, ls))"
    using assms r by (blast elim: with_tenant_tx_Inr)
  have hs: "find_unarchived_entity_histories (ae_repo E) (tx_scope ctx) n s1 = (s3, Inr hs')
      \<Longrightarrow> set hs' \<subseteq> {h \<in> set (rt_histories (db_tables s1)). eh_archived_at h = None} \<and> db_tables s3 = db_tables s1
        \<and> in_scope (rp_tx (ae_repo E)) (tenant_str (ctx_tenant_id ctx)) s3" for s3 hs'
    using tx_entered_scope(1) [OF s1] unfolding find_unarchived_entity_histories_def
    by (auto simp: scoped_statement_Inr visible_def in_scope_def dest!: in_set_takeD)
  have ls: "find_unarchived_audit_logs (ae_repo E) (tx_scope ctx) n s3 = (s4, Inr ls')
      \<Longrightarrow> in_scope (rp_tx (ae_repo E)) (tenant_str (ctx_tenant_id ctx)) s3
      \<Longrightarrow> set ls' \<subseteq> {l \<in> set (rt_audits (db_tables s3)). al_archived_at l = None}" for s3 s4 ls'
    unfolding find_unarchived_audit_logs_def by (auto simp: scoped_statement_Inr visible_def dest!: in_set_takeD)
  from run obtain s3 hs' s4 ls' where "find_unarchived_entity_histories (ae_repo E) (tx_scope ctx) n s1 = (s3, Inr hs')"
      "find_unarchived_audit_logs (ae_repo E) (tx_scope ctx) n s3 = (s4, Inr ls')" "hs = hs'" "ls = ls'"
    by (auto simp: fetch_unarchived_def dbind_Inr dreturn_def)
  then have "set hs \<subseteq> {h \<in> set (rt_histories (db_tables s1)). eh_archived_at h = None}"
      "set ls \<subseteq> {l \<in> set (rt_audits (db_tables s1)). al_archived_at l = None}"
    using hs [of s3 hs'] ls [of s3 s4 ls'] by simp_all
  then show "set hs \<subseteq> {h \<in> set (rt_histories (db_tables db)). eh_archived_at h = None}
        \<and> set ls \<subseteq> {l \<in> set (rt_audits (db_tables db)). al_archived_at l = None}"
    unfolding tx_entered_scope(2) [OF s1] by (rule conjI)
qed

lemma chunks_subset: "c \<in> set (chunks n xs) \<Longrightarrow> set c \<subseteq> set xs"
proof (induction n xs rule: chunks.induct)
  case (1 n xs)
  then show ?case
    by (subst (asm) (2) chunks.simps) (auto split: if_splits dest: in_set_takeD in_set_dropD)
qed

lemma tx_keeps_for_each_in: "(\<And>x. x \<in> set xs \<Longrightarrow> tx_keeps E t P (f x)) \<Longrightarrow> tx_keeps E t P (for_each f xs)"
  by (induction xs) (auto intro: tx_keeps_return tx_keeps_bind)

text \<open>The tables agree with the store, and the rows about to be marked have their objects.\<close>

definition markable :: "('j, 's) archiver_env \<Rightarrow> string \<Rightarrow> objects \<Rightarrow> string \<Rightarrow> string list \<Rightarrow> string list \<Rightarrow> 'j repo_tables \<Rightarrow> bool" where
  "markable E bucket objs t hids lids d \<longleftrightarrow> tables_archived E bucket objs d
     \<and> stored_ids E (history_item E) ''entity-history'' bucket (rt_histories d) t hids objs
     \<and> stored_ids E (audit_item E) ''audit-logs'' bucket (rt_audits d) t lids objs"

lemma stored_ids_map:
  assumes "\<And>r. av_id A (f r) = av_id A r \<and> av_tenant_id A (f r) = av_tenant_id A r \<and> av_created_at A (f r) = av_created_at A r"
  shows "stored_ids E A p bucket (map f rows) t ids objs = stored_ids E A p bucket rows t ids objs"
  using assms by (simp add: stored_ids_def archive_key_def)

lemma mark_histories_keeps:
  assumes "set ids \<subseteq> set hids"
  shows "tx_keeps (rp_tx (ae_repo E)) t (markable E bucket objs t hids lids) (mark_histories_chunk (ae_repo E) sc ids)"
  unfolding mark_histories_chunk_def
proof (rule tx_keeps_clock, rule tx_keeps_statement)
  fix s :: "'a repo_tables ddb" and d d' r
  let ?m = "\<lambda>h. Some t = Some (eh_tenant_id h) \<and> eh_id h \<in> set ids \<and> eh_tenant_id h = tenant_str (ts_tenant_id sc) \<and> eh_archived_at h = None"
  assume ok: "markable E bucket objs t hids lids d"
    and "Inr (d\<lparr>rt_histories := update_visible eh_tenant_id (Some t)
              (\<lambda>h. eh_id h \<in> set ids \<and> eh_tenant_id h = tenant_str (ts_tenant_id sc) \<and> eh_archived_at h = None)
              (\<lambda>h. h\<lparr>eh_archived_at := Some (sql_now s)\<rparr>) (rt_histories d)\<rparr>, ()) = Inr (d', r)"
  then have d': "d' = d\<lparr>rt_histories := map (\<lambda>h. if ?m h then mark_history (Some (sql_now s)) h else h) (rt_histories d)\<rparr>"
    by (auto simp: update_visible_def mark_history_def)
  have "kind_ok E (history_item E) ''entity-history'' eh_archived_at mark_history bucket
      (map (\<lambda>h. if ?m h then mark_history (Some (sql_now s)) h else h) (rt_histories d)) objs"
    using ok assms by (intro histories.table_ok_mark) (auto simp: markable_def tables_archived_def stored_ids_def history_item_def)
  moreover have "stored_ids E (history_item E) ''entity-history'' bucket
      (map (\<lambda>h. if ?m h then mark_history (Some (sql_now s)) h else h) (rt_histories d)) t hids objs"
    using ok by (subst stored_ids_map) (simp_all add: markable_def history_item_def mark_history_def)
  ultimately show "markable E bucket objs t hids lids d'" using ok by (simp add: markable_def tables_archived_def d')
qed

lemma mark_audits_keeps:
  assumes "set ids \<subseteq> set lids"
  shows "tx_keeps (rp_tx (ae_repo E)) t (markable E bucket objs t hids lids) (mark_audits_chunk (ae_repo E) sc ids)"
  unfolding mark_audits_chunk_def
proof (rule tx_keeps_clock, rule tx_keeps_statement)
  fix s :: "'a repo_tables ddb" and d d' r
  let ?m = "\<lambda>l. Some t = Some (al_tenant_id l) \<and> al_id l \<in> set ids \<and> al_tenant_id l = tenant_str (ts_tenant_id sc) \<and> al_archived_at l = None"
  assume ok: "markable E bucket objs t hids lids d"
    and "Inr (d\<lparr>rt_audits := update_visible al_tenant_id (Some t)
              (\<lambda>l. al_id l \<in> set ids \<and> al_tenant_id l = tenant_str (ts_tenant_id sc) \<and> al_archived_at l = None)
              (\<lambda>l. l\<lparr>al_archived_at := Some (sql_now s)\<rparr>) (rt_audits d)\<rparr>, ()) = Inr (d', r)"
  then have d': "d' = d\<lparr>rt_audits := map (\<lambda>l. if ?m l then mark_audit (Some (sql_now s)) l else l) (rt_audits d)\<rparr>"
    by (auto simp: update_visible_def mark_audit_def)
  have "kind_ok E (audit_item E) ''audit-logs'' al_archived_at mark_audit bucket
      (map (\<lambda>l. if ?m l then mark_audit (Some (sql_now s)) l else l) (rt_audits d)) objs"
    using ok assms by (intro audits.table_ok_mark) (auto simp: markable_def tables_archived_def stored_ids_def audit_item_def)
  moreover have "stored_ids E (audit_item E) ''audit-logs'' bucket
      (map (\<lambda>l. if ?m l then mark_audit (Some (sql_now s)) l else l) (rt_audits d)) t lids objs"
    using ok by (subst stored_ids_map) (simp_all add: markable_def audit_item_def mark_audit_def)
  ultimately show "markable E bucket objs t hids lids d'" using ok by (simp add: markable_def tables_archived_def d')
qed

lemma mark_archived_keeps:
  "tx_keeps (rp_tx (ae_repo E)) t (markable E bucket objs t hids lids) (mark_archived E hids lids sc)"
  unfolding mark_archived_def mark_entity_histories_archived_def mark_audit_logs_archived_def
  by (auto intro!: tx_keeps_bind tx_keeps_return tx_keeps_for_each_in mark_histories_keeps mark_audits_keeps chunks_subset)

text \<open>The privileged audit entry is a new row of the system tenant.\<close>

lemma log_privileged_audit_row:
  assumes "log_privileged_audit R action resource details s = (s', Inr u)"
  obtains l n where "db_tables s' = (db_tables s)\<lparr>rt_audits := rt_audits (db_tables s) @ [l]\<rparr>" "al_id l = rp_uuid R n"
    "al_tenant_id l = ''system''" "al_archived_at l = None"
    "(al_id l, al_tenant_id l) \<notin> (\<lambda>l. (al_id l, al_tenant_id l)) ` set (rt_audits (db_tables s))"
proof -
  let ?l = "\<lparr>al_id = rp_uuid R (kt_drawn (db_core s)), al_tenant_id = ''system'', al_actor_id = ''kernel_admin'',
     al_action = action, al_resource = resource, al_details = details, al_ip_address = None,
     al_user_agent = Some ''kernel-background-runner'', al_created_at = sql_now s, al_archived_at = None\<rparr>"
  have "db_tables s' = (db_tables s)\<lparr>rt_audits := rt_audits (db_tables s) @ [?l]\<rparr>
      \<and> (al_id ?l, al_tenant_id ?l) \<notin> (\<lambda>l. (al_id l, al_tenant_id l)) ` set (rt_audits (db_tables s))"
    using assms
    by (auto simp: log_privileged_audit_def dbind_def draw_uuid_def insert_audit_def scoped_statement_def row_insert_def
        set_context_def Let_def db_answered_def simp del: db_answered_simps split: if_splits option.splits sum.splits prod.splits)
  then show thesis by (intro that [of ?l]) simp_all
qed

lemma kernel_with_tx_tables:
  assumes "kernel_with_tx f s0 = (s', r)"
  shows "db_tables s' = db_tables s0 \<or> (\<exists>s x. f (db_answered s0) = (s, Inr x) \<and> db_tables s' = db_tables s)"
  using assms by (auto simp: kernel_with_tx_def db_rollback_def split: if_splits sum.splits prod.splits)

lemma kernel_audit_tables:
  assumes "on_kernel_db (kernel_with_tx (log_privileged_audit (ae_repo E) action resource details)) st = (st', r)"
    and ids: "\<And>n. plain_segment (rp_uuid (ae_repo E) n)" and ok: "tables_archived E bucket objs (db_tables (ar_db st))"
  shows "tables_archived E bucket objs (db_tables (ar_db st')) \<and> ar_s3 st' = ar_s3 st"
proof -
  define view where "view = (ar_db st)\<lparr>db_pg := (ar_kernel_session st)\<lparr>pg_nonces := pg_nonces (db_pg (ar_db st))\<rparr>\<rparr>"
  obtain db q where run: "kernel_with_tx (log_privileged_audit (ae_repo E) action resource details) view = (db, q)"
    by (cases "kernel_with_tx (log_privileged_audit (ae_repo E) action resource details) view")
  have st': "db_tables (ar_db st') = db_tables db" "ar_s3 st' = ar_s3 st"
    using assms(1) run by (auto simp: on_kernel_db_def Let_def view_def [symmetric])
  have same: "db_tables view = db_tables (ar_db st)" by (simp add: view_def)
  from kernel_with_tx_tables [OF run] consider "db_tables db = db_tables view"
    | s x where "log_privileged_audit (ae_repo E) action resource details (db_answered view) = (s, Inr x)" "db_tables db = db_tables s"
    by blast
  then show ?thesis
  proof cases
    case 1
    with ok st' same show ?thesis by simp
  next
    case (2 s x)
    show ?thesis
    proof (rule log_privileged_audit_row [OF 2(1)])
      fix l n
      assume l: "db_tables s = (db_tables (db_answered view))\<lparr>rt_audits := rt_audits (db_tables (db_answered view)) @ [l]\<rparr>"
        "al_id l = rp_uuid (ae_repo E) n" "al_tenant_id l = ''system''" "al_archived_at l = None"
        "(al_id l, al_tenant_id l) \<notin> (\<lambda>l. (al_id l, al_tenant_id l)) ` set (rt_audits (db_tables (db_answered view)))"
      have "kind_ok E (audit_item E) ''audit-logs'' al_archived_at mark_audit bucket (rt_audits (db_tables (ar_db st)) @ [l]) objs"
        using ok l same ids [of n] valid_principal_plain [OF valid_principal_system]
        by (intro audits.table_ok_append) (simp_all add: tables_archived_def audit_item_def)
      with ok l(1) 2(2) st' same show ?thesis by (simp add: tables_archived_def)
    qed
  qed
qed

lemma token_recovery_tables: "generate_token_with_recovery E t db = (db', r) \<Longrightarrow> db_tables db' = db_tables db"
  unfolding generate_token_with_recovery_def archiver_token_def archiver_rotate_keys_def
  by (auto dest!: on_core_tables split: prod.splits sum.splits key_manager_error.splits)

lemma mark_and_audit_ok:
  assumes ids: "\<And>n. plain_segment (rp_uuid (ae_repo E) n)"
    and ok: "markable E bucket objs (tenant_str t) hids lids (db_tables (ar_db st))"
  shows "tables_archived E bucket objs (db_tables (ar_db (mark_and_audit E t hids lids st)))
    \<and> ar_s3 (mark_and_audit E t hids lids st) = ar_s3 st"
proof -
  obtain db tok where tok: "generate_token_with_recovery E t (ar_db st) = (db, tok)" by (cases "generate_token_with_recovery E t (ar_db st)")
  have ok1: "markable E bucket objs (tenant_str t) hids lids (db_tables db)" using ok token_recovery_tables [OF tok] by simp
  show ?thesis
  proof (cases tok)
    case None
    then show ?thesis using ok1 tok by (simp add: mark_and_audit_def markable_def)
  next
    case (Some mark_token)
    let ?ctx = "TenantContext_new t None :: unit tenant_context"
    obtain db2 r where r: "with_tenant_tx (rp_tx (ae_repo E)) ?ctx mark_token (mark_archived E hids lids) db = (db2, r)"
      by (cases "with_tenant_tx (rp_tx (ae_repo E)) ?ctx mark_token (mark_archived E hids lids) db")
    have ctx: "tenant_str (ctx_tenant_id ?ctx) = tenant_str t" by (simp add: TenantContext_new_def)
    have "markable E bucket objs (tenant_str t) hids lids (db_tables db2)"
      using with_tenant_tx_keeps [where P = "markable E bucket objs (tenant_str t) hids lids" and ctx = ?ctx and f = "mark_archived E hids lids"
          and ?s0.0 = db and token = mark_token and E = "rp_tx (ae_repo E)", OF ok1, unfolded ctx, OF mark_archived_keeps] r
      by simp
    then have ok2: "tables_archived E bucket objs (db_tables (ar_db (st\<lparr>ar_db := db2\<rparr>)))" by (simp add: markable_def)
    show ?thesis
    proof (cases r)
      case (Inl e)
      with ok2 show ?thesis using tok Some r by (simp add: mark_and_audit_def)
    next
      case (Inr u)
      obtain st3 q where q: "on_kernel_db (kernel_with_tx (log_privileged_audit (ae_repo E) ''kernel_archiver.archive_records'' ''system:archive''
          (ae_details E (tenant_str t) (length hids) (length lids)))) (st\<lparr>ar_db := db2\<rparr>) = (st3, q)"
        by (cases "on_kernel_db (kernel_with_tx (log_privileged_audit (ae_repo E) ''kernel_archiver.archive_records'' ''system:archive''
          (ae_details E (tenant_str t) (length hids) (length lids)))) (st\<lparr>ar_db := db2\<rparr>)")
      have "mark_and_audit E t hids lids st = st3" using tok Some r Inr q by (simp add: mark_and_audit_def)
      with kernel_audit_tables [OF q ids ok2] show ?thesis by simp
    qed
  qed
qed

lemma copied_other_table:
  assumes "copied E (history_item E) ''entity-history'' eh_archived_at mark_history bucket rows t objs objs' res" and "kind_ok E (audit_item E) ''audit-logs'' al_archived_at mark_audit bucket logs objs"
  shows "kind_ok E (audit_item E) ''audit-logs'' al_archived_at mark_audit bucket logs objs'"
proof (rule audits.table_ok_objects [OF assms(2)])
  fix k assume "starts_with k (''audit-logs'' @ ''/'')"
  then have "\<not> starts_with k (''entity-history'' @ ''/'')" by (auto simp: starts_with_iff)
  then show "objs' (bucket, k) = objs (bucket, k)" using assms(1) unfolding copied_def by blast
qed

lemma copied_first_table:
  assumes "copied E (audit_item E) ''audit-logs'' al_archived_at mark_audit bucket rows t objs objs' res" and "kind_ok E (history_item E) ''entity-history'' eh_archived_at mark_history bucket hs objs"
  shows "kind_ok E (history_item E) ''entity-history'' eh_archived_at mark_history bucket hs objs'"
proof (rule histories.table_ok_objects [OF assms(2)])
  fix k assume "starts_with k (''entity-history'' @ ''/'')"
  then have "\<not> starts_with k (''audit-logs'' @ ''/'')" by (auto simp: starts_with_iff)
  then show "objs' (bucket, k) = objs (bucket, k)" using assms(1) unfolding copied_def by blast
qed

text \<open>Copying both tables, whether or not the second copy comes to an end.\<close>

lemma both_copied:
  assumes laws: "s3_laws E objects" and ok: "tables_archived E bucket (objects s) d"
    and rows: "set hs \<subseteq> {h \<in> set (rt_histories d). eh_archived_at h = None}" "set ls \<subseteq> {l \<in> set (rt_audits d). al_archived_at l = None}"
    and h: "archive_items E (history_item E) k1 ''entity-history'' hs bucket lock t s = (s1, r1)"
  shows "tables_archived E bucket (objects s1) d"
    and "archive_items E (audit_item E) k2 ''audit-logs'' ls bucket lock t s1 = (s2, r2) \<Longrightarrow> tables_archived E bucket (objects s2) d
      \<and> markable E bucket (objects s2) t (ids_or_none r1) (ids_or_none r2) d"
proof -
  have k: "kind_ok E (history_item E) ''entity-history'' eh_archived_at mark_history bucket (rt_histories d) (objects s)"
    "kind_ok E (audit_item E) ''audit-logs'' al_archived_at mark_audit bucket (rt_audits d) (objects s)"
    using ok by (simp_all add: tables_archived_def)
  note c1 = histories.archive_items_copied [OF laws h k(1) rows(1)]
  note k1 = copied_other_table [OF c1 k(2)]
  have h1: "kind_ok E (history_item E) ''entity-history'' eh_archived_at mark_history bucket (rt_histories d) (objects s1)"
    using c1 by (simp add: copied_def)
  with k1 show "tables_archived E bucket (objects s1) d" by (simp add: tables_archived_def)
  assume l: "archive_items E (audit_item E) k2 ''audit-logs'' ls bucket lock t s1 = (s2, r2)"
  note c2 = audits.archive_items_copied [OF laws l k1 rows(2)]
  have t2: "tables_archived E bucket (objects s2) d"
    using copied_first_table [OF c2 h1] c2 by (simp add: tables_archived_def copied_def)
  moreover have "stored_ids E (history_item E) ''entity-history'' bucket (rt_histories d) t (ids_or_none r1) (objects s2)"
  proof (cases r1)
    case (Inl e)
    then show ?thesis by (simp add: ids_or_none_def stored_ids_def)
  next
    case (Inr ids)
    with c1 c2 show ?thesis by (auto simp: ids_or_none_def copied_def copied_def intro: histories.ids_stored_mono)
  qed
  moreover have "stored_ids E (audit_item E) ''audit-logs'' bucket (rt_audits d) t (ids_or_none r2) (objects s2)"
    using c2 by (cases r2) (auto simp: ids_or_none_def stored_ids_def copied_def)
  ultimately show "tables_archived E bucket (objects s2) d \<and> markable E bucket (objects s2) t (ids_or_none r1) (ids_or_none r2) d"
    by (simp add: markable_def)
qed

lemma archive_tenant_ok:
  assumes laws: "s3_laws E objects" and ids: "\<And>n. plain_segment (rp_uuid (ae_repo E) n)" and ok: "archive_ok E objects (ac_s3_bucket config) st"
    and run: "archive_tenant E config t st = (st', r)"
  shows "archive_ok E objects (ac_s3_bucket config) st'"
proof -
  obtain db tok where tok: "generate_token_with_recovery E t (ar_db st) = (db, tok)" by (cases "generate_token_with_recovery E t (ar_db st)")
  note tables = token_recovery_tables [OF tok]
  let ?ctx = "TenantContext_new t None :: unit tenant_context"
  show ?thesis
  proof (cases tok)
    case None
    then show ?thesis using run tok tables ok by (auto simp: archive_tenant_def archive_ok_def)
  next
    case (Some fetch_token)
    obtain db2 q where q: "with_tenant_tx (rp_tx (ae_repo E)) ?ctx fetch_token (fetch_unarchived E (ac_batch_size config)) db = (db2, q)"
      by (cases "with_tenant_tx (rp_tx (ae_repo E)) ?ctx fetch_token (fetch_unarchived E (ac_batch_size config)) db")
    note same = fetched_rows(1) [OF q]
    show ?thesis
    proof (cases q)
      case (Inl e)
      then show ?thesis using run tok Some q same tables ok by (auto simp: archive_tenant_def archive_ok_def)
    next
      case (Inr p)
      obtain hs ls where p: "p = (hs, ls)" by (cases p)
      note rows = fetched_rows(2) [OF q, unfolded Inr p, OF refl]
      obtain s1 r1 where h: "archive_items E (history_item E) ''entity history'' ''entity-history'' hs (ac_s3_bucket config)
          (ac_object_lock config) (tenant_str t) (ar_s3 st) = (s1, r1)"
        by (cases "archive_items E (history_item E) ''entity history'' ''entity-history'' hs (ac_s3_bucket config)
          (ac_object_lock config) (tenant_str t) (ar_s3 st)")
      obtain s2 r2 where l: "archive_items E (audit_item E) ''audit log'' ''audit-logs'' ls (ac_s3_bucket config)
          (ac_object_lock config) (tenant_str t) s1 = (s2, r2)"
        by (cases "archive_items E (audit_item E) ''audit log'' ''audit-logs'' ls (ac_s3_bucket config)
          (ac_object_lock config) (tenant_str t) s1")
      have ok1: "tables_archived E (ac_s3_bucket config) (objects (ar_s3 st)) (db_tables db)" using ok tables by (simp add: archive_ok_def)
      note both = both_copied [OF laws ok1 conjunct1 [OF rows] conjunct2 [OF rows] h]
      note second = both(2) [OF l]
      show ?thesis
      proof (cases "r1 = Inl Panicked \<or> r2 = Inl Panicked")
        case True
        then show ?thesis
          using run tok Some q Inr p h l both(1) conjunct1 [OF second] same
          by (cases "r1 = Inl Panicked") (auto simp: archive_tenant_def archive_ok_def split: sum.splits archive_failure.splits)
      next
        case False
        let ?st = "st\<lparr>ar_db := db2, ar_s3 := s2\<rparr>"
        have end_state: "st' = ?st \<or> st' = mark_and_audit E t (ids_or_none r1) (ids_or_none r2) ?st"
          using run tok Some q Inr p h l False
          by (auto simp: archive_tenant_def Let_def split: sum.splits archive_failure.splits if_splits)
        have "tables_archived E (ac_s3_bucket config) (objects s2) (db_tables (ar_db (mark_and_audit E t (ids_or_none r1) (ids_or_none r2) ?st)))
            \<and> ar_s3 (mark_and_audit E t (ids_or_none r1) (ids_or_none r2) ?st) = ar_s3 ?st"
          using mark_and_audit_ok [OF ids, of "ac_s3_bucket config" "objects s2" t "ids_or_none r1" "ids_or_none r2" ?st] conjunct2 [OF second] same
          by simp
        with end_state conjunct1 [OF second] same show ?thesis by (auto simp: archive_ok_def)
      qed
    qed
  qed
qed

lemma archive_tenants_ok:
  assumes laws: "s3_laws E objects" and ids: "\<And>n. plain_segment (rp_uuid (ae_repo E) n)"
  shows "archive_ok E objects (ac_s3_bucket config) st \<Longrightarrow> archive_tenants E config ts st = (st', r)
    \<Longrightarrow> archive_ok E objects (ac_s3_bucket config) st'"
proof (induction ts arbitrary: st)
  case Nil
  then show ?case by simp
next
  case (Cons t ts)
  obtain st1 q where q: "archive_tenant E config t st = (st1, q)" by (cases "archive_tenant E config t st")
  note ok = archive_tenant_ok [OF laws ids Cons.prems(1) q]
  with Cons.prems(2) q Cons.IH [OF ok] show ?case by (cases q) auto
qed

lemma rotate_ok:
  assumes "archiver_rotate_keys E (ar_db st) = (db, r)" and "archive_ok E objects bucket st"
  shows "archive_ok E objects bucket (st\<lparr>ar_db := db\<rparr>)"
  using assms unfolding archiver_rotate_keys_def by (simp add: archive_ok_def on_core_tables [of _ "ar_db st" db r])

lemma run_archive_cycle_ok:
  assumes "s3_laws E objects" "\<And>n. plain_segment (rp_uuid (ae_repo E) n)" "archive_ok E objects (ac_s3_bucket config) st"
    and run: "run_archive_cycle E config st = (st', r)"
  shows "archive_ok E objects (ac_s3_bucket config) st'"
proof -
  obtain db q where q: "archiver_rotate_keys E (ar_db st) = (db, q)" by (cases "archiver_rotate_keys E (ar_db st)")
  note ok = rotate_ok [OF q assms(3)]
  show ?thesis
  proof (cases q)
    case (Inl e)
    with run q ok show ?thesis by (auto simp: run_archive_cycle_def)
  next
    case (Inr u)
    with run q have "archive_tenants E config (ac_tenant_ids config) (st\<lparr>ar_db := db\<rparr>) = (st', r)" by (simp add: run_archive_cycle_def)
    with archive_tenants_ok [OF assms(1,2) ok] show ?thesis by blast
  qed
qed

lemma archiver_loop_ok:
  assumes "s3_laws E objects" "\<And>n. plain_segment (rp_uuid (ae_repo E) n)"
  shows "archive_ok E objects (ac_s3_bucket config) st \<Longrightarrow> archiver_loop E config events st = (st', exit)
    \<Longrightarrow> archive_ok E objects (ac_s3_bucket config) st'"
proof (induction events arbitrary: st)
  case Nil
  then show ?case by simp
next
  case (Cons e events)
  show ?case
  proof (cases e)
    case CtrlC
    with Cons.prems show ?thesis by simp
  next
    case Tick
    obtain st1 q where q: "run_archive_cycle E config st = (st1, q)" by (cases "run_archive_cycle E config st")
    note ok = run_archive_cycle_ok [OF assms Cons.prems(1) q]
    have "st' = st1 \<or> archiver_loop E config events st1 = (st', exit)"
      using Cons.prems(2) Tick q by (auto split: sum.splits archive_failure.splits)
    with ok Cons.IH [OF ok] show ?thesis by blast
  qed
qed

lemma archiver_main_cases:
  assumes "archiver_main E env connect role_row events st = (st', exit)"
  obtains e where "st' = st" "exit = Some (ExitErr e)"
  | config db r where "load_config env = Inr config" "verify_kernel_role (role_row (ac_kernel_database_url config)) = Inr ()"
      "archiver_rotate_keys E (ar_db st) = (db, r)"
      "st' = st\<lparr>ar_db := db\<rparr> \<or> archiver_loop E config events (st\<lparr>ar_db := db\<rparr>) = (st', exit)"
proof (cases "load_config env")
  case (Inl e)
  then have "st' = st" "exit = Some (ExitErr e)" using assms by (auto simp: archiver_main_def)
  with that(1) show thesis .
next
  case (Inr config)
  let ?start = "and_then (map_sum (\<lambda>_. ''failed to connect primary database'') id (connect (ac_database_url config))) (\<lambda>_.
                and_then (map_sum (\<lambda>_. ''failed to connect kernel admin database'') id (connect (ac_kernel_database_url config))) (\<lambda>_.
                verify_kernel_role (role_row (ac_kernel_database_url config))))"
  show thesis
  proof (cases ?start)
    case (Inl e)
    then have "st' = st" "exit = Some (ExitErr e)" using assms Inr by (auto simp: archiver_main_def)
    with that(1) show thesis .
  next
    case up: (Inr u)
    then have role: "verify_kernel_role (role_row (ac_kernel_database_url config)) = Inr ()" by (auto simp: and_then_Inr)
    obtain db r where r: "archiver_rotate_keys E (ar_db st) = (db, r)" by (cases "archiver_rotate_keys E (ar_db st)")
    have "st' = st\<lparr>ar_db := db\<rparr> \<or> archiver_loop E config events (st\<lparr>ar_db := db\<rparr>) = (st', exit)"
      using assms Inr up r by (auto simp: archiver_main_def split: sum.splits if_splits)
    with that(2) [OF Inr role r] show thesis .
  qed
qed

section \<open>Configurations\<close>

lemma push_tenants_valid:
  "push_tenants parts acc = Inr ts \<Longrightarrow> \<forall>t \<in> set acc. is_valid_principal (tenant_str t) \<and> tenant_str t \<noteq> ''system''
    \<Longrightarrow> \<forall>t \<in> set ts. is_valid_principal (tenant_str t) \<and> tenant_str t \<noteq> ''system''"
proof (induction parts acc rule: push_tenants.induct)
  case (1 acc)
  then show ?case by simp
next
  case (2 part parts acc)
  show ?case
  proof (cases "trim part = []")
    case True
    with 2 show ?thesis by (simp add: Let_def)
  next
    case False
    then obtain t where t: "TenantId_new (trim part) = Inr t" "push_tenants parts (acc @ [t]) = Inr ts"
      using 2(3) by (auto simp: Let_def split: sum.splits)
    then show ?thesis using 2(2) [OF refl False t(1) t(2)] 2(4) by (auto simp: TenantId_new_Inr)
  qed
qed

lemma object_lock_positive: "parse_object_lock_config env = Inr (Some l) \<Longrightarrow> 0 < sint (lc_retain_days l)"
  by (auto simp: parse_object_lock_config_def Let_def and_then_Inr split: option.splits if_splits)

lemma kernel_url_explicit:
  "kernel_url env url = Inr kurl \<Longrightarrow> env ''KERNEL_DATABASE_URL'' = Some kurl
    \<or> kurl = url \<and> (\<exists>v. env ''KERNEL_DATABASE_URL_ALLOW_FALLBACK'' = Some v \<and> (v = ''1'' \<or> eq_ignore_ascii_case v ''true''))"
  by (auto simp: kernel_url_def Let_def eq_ignore_ascii_case_def split: option.splits if_splits)

lemma load_config_Inr:
  assumes "load_config env = Inr c"
  shows "env ''DATABASE_URL'' = Some (ac_database_url c)" "kernel_url env (ac_database_url c) = Inr (ac_kernel_database_url c)"
    "ac_batch_size c \<noteq> 0" "parse_object_lock_config env = Inr (ac_object_lock c)"
    "\<exists>raw. env ''ARCHIVER_TENANT_IDS'' = Some raw \<and> parse_tenant_ids raw = Inr (ac_tenant_ids c)"
  using assms by (auto simp: load_config_def Let_def and_then_Inr split: option.splits if_splits)

section \<open>Properties\<close>

text \<open>
  C12 (safety): nothing that is marked as archived is lost. Whatever the object store answers
  within its laws, whatever statements, commits or keys fail, and wherever the process panics
  or is told to stop, a row of the entity history or of the audit log that carries an archive mark has an
  object under its own key that holds the row as it was before the mark.
\<close>

theorem archived_rows_are_stored:
  assumes "s3_laws E objects" and "\<And>n. plain_segment (rp_uuid (ae_repo E) n)"
    and "load_config env = Inr config" and "archive_ok E objects (ac_s3_bucket config) st"
    and "archiver_main E env connect role_row events st = (st', exit)"
  shows "archive_ok E objects (ac_s3_bucket config) st'
    \<and> (\<forall>h \<in> set (rt_histories (db_tables (ar_db st'))). eh_archived_at h \<noteq> None \<longrightarrow>
        (\<exists>obj. objects (ar_s3 st') (ac_s3_bucket config, archive_key E (history_item E) ''entity-history'' h) = Some obj
          \<and> holds_row E (history_item E) (h\<lparr>eh_archived_at := None\<rparr>) obj))
    \<and> (\<forall>l \<in> set (rt_audits (db_tables (ar_db st'))). al_archived_at l \<noteq> None \<longrightarrow>
        (\<exists>obj. objects (ar_s3 st') (ac_s3_bucket config, archive_key E (audit_item E) ''audit-logs'' l) = Some obj
          \<and> holds_row E (audit_item E) (l\<lparr>al_archived_at := None\<rparr>) obj))"
proof -
  have ok: "archive_ok E objects (ac_s3_bucket config) st'"
    using assms(5)
  proof (cases rule: archiver_main_cases)
    case (1 e)
    with assms(4) show ?thesis by simp
  next
    case (2 c db r)
    then have "archive_ok E objects (ac_s3_bucket config) (st\<lparr>ar_db := db\<rparr>)" using rotate_ok assms(4) by blast
    with archiver_loop_ok [OF assms(1,2)] 2(1,4) assms(3) show ?thesis by auto
  qed
  then show ?thesis
    by (auto simp: archive_ok_def tables_archived_def kind_ok_def mark_history_def mark_audit_def split: option.splits)
qed

text \<open>
  the archiver touches nothing before it is sure of its rights and its configuration.
  If its run changed any state, the privileged connection authenticated as and acts as
  \<open>flexi_kernel_admin\<close>, the privileged database was named on its own or the fallback was allowed
  explicitly, at least one tenant is configured, every tenant identifier is valid and none is the
  system tenant, batches are not empty, and a retention period is positive.
\<close>

theorem archiver_start_is_checked:
  assumes "archiver_main E env connect role_row events st = (st', exit)" and "st' \<noteq> st"
  shows "\<exists>config. load_config env = Inr config
    \<and> role_row (ac_kernel_database_url config) = Inr (Some (''flexi_kernel_admin'', ''flexi_kernel_admin''))
    \<and> (env ''KERNEL_DATABASE_URL'' = Some (ac_kernel_database_url config)
        \<or> (\<exists>v. env ''KERNEL_DATABASE_URL_ALLOW_FALLBACK'' = Some v \<and> (v = ''1'' \<or> eq_ignore_ascii_case v ''true'')))
    \<and> ac_tenant_ids config \<noteq> []
    \<and> (\<forall>t \<in> set (ac_tenant_ids config). is_valid_principal (tenant_str t) \<and> tenant_str t \<noteq> ''system'')
    \<and> 0 < ac_batch_size config \<and> (\<forall>l. ac_object_lock config = Some l \<longrightarrow> 0 < sint (lc_retain_days l))"
  using assms(1)
proof (cases rule: archiver_main_cases)
  case (1 e)
  with assms(2) show ?thesis by simp
next
  case (2 config db r)
  note c = load_config_Inr [OF 2(1)]
  have role: "role_row (ac_kernel_database_url config) = Inr (Some (''flexi_kernel_admin'', ''flexi_kernel_admin''))"
    using 2(2) by (auto simp: verify_kernel_role_def split: sum.splits option.splits if_splits prod.splits)
  obtain raw where raw: "parse_tenant_ids raw = Inr (ac_tenant_ids config)" using c(5) by blast
  have tenants: "ac_tenant_ids config \<noteq> []" "\<forall>t \<in> set (ac_tenant_ids config). is_valid_principal (tenant_str t) \<and> tenant_str t \<noteq> ''system''"
    using raw push_tenants_valid [of "split_char (CHR '','') raw" "[]"] by (auto simp: parse_tenant_ids_def and_then_Inr split: if_splits)
  have lock: "\<forall>l. ac_object_lock config = Some l \<longrightarrow> 0 < sint (lc_retain_days l)" using c(4) object_lock_positive by auto
  have batch: "0 < ac_batch_size config" using c(3) by (simp add: word_neq_0_conv)
  have url: "env ''KERNEL_DATABASE_URL'' = Some (ac_kernel_database_url config)
      \<or> (\<exists>v. env ''KERNEL_DATABASE_URL_ALLOW_FALLBACK'' = Some v \<and> (v = ''1'' \<or> eq_ignore_ascii_case v ''true''))"
    using kernel_url_explicit [OF c(2)] by blast
  show ?thesis by (intro exI [of _ config] conjI 2(1) role url tenants batch lock)
qed

text \<open>A zero interval is accepted by the configuration, and the timer cannot be made from it: the process panics.\<close>

theorem zero_interval_panics:
  assumes "load_config env = Inr config" "ac_interval_secs config = 0"
    and "archiver_main E env connect role_row events st = (st', exit)"
  shows "exit = Some ExitPanic \<or> (\<exists>e. exit = Some (ExitErr e))"
  using assms by (auto simp: archiver_main_def split: sum.splits prod.splits)

section \<open>Witnesses\<close>

text \<open>A store that keeps what it is given, an environment for it, and a database with one archived and one unarchived row.\<close>

definition toy_objects :: "put_request list \<Rightarrow> objects" where
  "toy_objects s = map_of (map (\<lambda>r. ((pr_bucket r, pr_key r), r)) s)"

definition toy_archiver :: "(nat, put_request list) archiver_env" where
  "toy_archiver = \<lparr>ae_repo = sample_repo, ae_keys = sample_gen, ae_history_json = (\<lambda>h. Inr (eh_id h)), ae_audit_json = (\<lambda>l. Inr (al_id l)),
     ae_details = (\<lambda>t n m. n + m), ae_date = (\<lambda>_. ''2025/01/31''), ae_gzip = (\<lambda>json. Inr (''gz'' @ json)), ae_base64 = (\<lambda>_. ''''),
     ae_now = (\<lambda>s. int (length s)), ae_retain_until = (\<lambda>now days. Some (now + sint days)),
     ae_head = (\<lambda>bucket key s. (s, if toy_objects s (bucket, key) = None then HeadNotFound else HeadFound)),
     ae_put = (\<lambda>req s. (req # s, Inr ()))\<rparr>"

lemma toy_s3_laws: "s3_laws toy_archiver toy_objects"
  by (auto simp: s3_laws_def toy_archiver_def toy_objects_def)

lemma toy_uuid: "plain_segment (rp_uuid (ae_repo toy_archiver) n)"
proof -
  have "list_all principal_byte (dec_of_nat n)"
    using dec_of_nat_digits [of n] by (auto simp: list_all_iff principal_byte_def)
  then show ?thesis
    by (simp add: toy_archiver_def sample_repo_def plain_segment_def principal_byte_def is_ascii_lower_def)
qed

definition toy_vars :: env_vars where
  "toy_vars = [''DATABASE_URL'' \<mapsto> ''pg'', ''KERNEL_DATABASE_URL'' \<mapsto> ''kpg'', ''AUDIT_LOG_BUCKET'' \<mapsto> ''b'',
     ''ARCHIVER_TENANT_IDS'' \<mapsto> ''t1'', ''ARCHIVER_INTERVAL'' \<mapsto> ''0'']"

definition toy_config :: app_config where
  "toy_config = \<lparr>ac_database_url = ''pg'', ac_kernel_database_url = ''kpg'', ac_s3_bucket = ''b'', ac_region_name = ''us-east-1'',
     ac_interval_secs = 0, ac_batch_size = 100, ac_tenant_ids = [TenantId ''t1''], ac_object_lock = None\<rparr>"

lemma toy_load_config: "load_config toy_vars = Inr toy_config"
proof -
  have "trim ''t1'' = ''t1''" by (rule trim_plain) (simp_all add: ascii_graph_def)
  moreover have "TenantId_new ''t1'' = Inr (TenantId ''t1'')"
    by (simp add: TenantId_new_Inr is_valid_principal_def principal_byte_def is_ascii_lower_def is_ascii_digit_def)
  ultimately have "parse_tenant_ids ''t1'' = Inr [TenantId ''t1'']" by (simp add: parse_tenant_ids_def)
  moreover have "parse_u64 ''0'' = Some 0" by (simp add: parse_u64_def is_ascii_digit_def digits_value_def)
  ultimately show ?thesis
    by (simp add: load_config_def toy_vars_def toy_config_def kernel_url_def parse_object_lock_config_def Let_def)
qed

definition toy_history :: "string \<Rightarrow> nat entity_history" where
  "toy_history i = \<lparr>eh_id = i, eh_tenant_id = ''t1'', eh_entity_id = ''e'', eh_entity_type = ''app'', eh_change_type = ''CREATE'',
     eh_version = 1, eh_diff = 5, eh_created_at = 0, eh_created_by = ''system'', eh_archived_at = None\<rparr>"

definition toy_request :: put_request where
  "toy_request = \<lparr>pr_bucket = ''b'', pr_key = archive_key toy_archiver (history_item toy_archiver) ''entity-history'' (toy_history ''h1''),
     pr_body = ''gzh1'', pr_content_type = ''application/gzip'', pr_checksum = '''', pr_lock = None\<rparr>"

definition toy_store :: "(nat, put_request list) archiver" where
  "toy_store = \<lparr>ar_db = sample_ddb (empty_tables\<lparr>rt_histories := [mark_history (Some 9) (toy_history ''h1''), toy_history ''h2'']\<rparr>),
     ar_kernel_session = db_pg (sample_ddb ()), ar_s3 = [toy_request]\<rparr>"

lemma toy_store_ok: "archive_ok toy_archiver toy_objects ''b'' toy_store"
proof -
  note hk = histories.table_ok_append [where E = toy_archiver and bucket = "''b''"]
  have plain: "plain_segment ''h1''" "plain_segment ''h2''" "plain_segment ''t1''"
    by (simp_all add: plain_segment_def principal_byte_def is_ascii_lower_def is_ascii_digit_def)
  have start: "kind_ok toy_archiver (history_item toy_archiver) ''entity-history'' eh_archived_at mark_history ''b'' [] Map.empty"
    "kind_ok toy_archiver (audit_item toy_archiver) ''audit-logs'' al_archived_at mark_audit ''b'' [] Map.empty"
    by (simp_all add: kind_ok_def)
  have "kind_ok toy_archiver (history_item toy_archiver) ''entity-history'' eh_archived_at mark_history ''b''
      (([] @ [toy_history ''h1'']) @ [toy_history ''h2'']) Map.empty"
    by (intro hk start(1)) (simp_all add: plain history_item_def toy_history_def)
  then have "kind_ok toy_archiver (history_item toy_archiver) ''entity-history'' eh_archived_at mark_history ''b''
      [toy_history ''h1'', toy_history ''h2'']
      (Map.empty((''b'', archive_key toy_archiver (history_item toy_archiver) ''entity-history'' (toy_history ''h1'')) \<mapsto> toy_request))"
    by (intro histories.table_ok_put)
      (simp_all add: toy_history_def holds_row_def history_item_def toy_archiver_def toy_request_def)
  then have "kind_ok toy_archiver (history_item toy_archiver) ''entity-history'' eh_archived_at mark_history ''b''
      [toy_history ''h1'', toy_history ''h2''] (toy_objects [toy_request])"
    by (simp add: toy_objects_def toy_request_def)
  then have "kind_ok toy_archiver (history_item toy_archiver) ''entity-history'' eh_archived_at mark_history ''b''
      (map (\<lambda>h. if eh_id h = ''h1'' then mark_history (Some 9) h else h) [toy_history ''h1'', toy_history ''h2'']) (toy_objects [toy_request])"
    by (rule histories.table_ok_mark) (auto simp: toy_objects_def toy_request_def toy_history_def)
  moreover have "kind_ok toy_archiver (audit_item toy_archiver) ''audit-logs'' al_archived_at mark_audit ''b'' [] (toy_objects [toy_request])"
    by (rule audits.table_ok_objects [OF start(2)])
      (auto simp: toy_objects_def toy_request_def archive_key_def starts_with_iff)
  ultimately show ?thesis
    by (simp add: archive_ok_def tables_archived_def toy_store_def sample_ddb_def empty_tables_def toy_history_def)
qed

theorem archived_rows_are_stored_witness:
  "archive_ok toy_archiver toy_objects ''b'' (fst (archiver_main toy_archiver toy_vars (\<lambda>_. Inr ())
      (\<lambda>_. Inr (Some (''flexi_kernel_admin'', ''flexi_kernel_admin''))) [Tick, CtrlC] toy_store))"
proof -
  have bucket: "ac_s3_bucket toy_config = ''b''" by (simp add: toy_config_def)
  show ?thesis
    using archived_rows_are_stored [OF toy_s3_laws toy_uuid toy_load_config _ surjective_pairing] toy_store_ok unfolding bucket by blast
qed

definition toy_failing :: "(nat, put_request list) archiver" where
  "toy_failing = toy_store\<lparr>ar_db := (ar_db toy_store)\<lparr>db_core := (db_core (ar_db toy_store))\<lparr>kt_faults := [True]\<rparr>\<rparr>\<rparr>"

theorem archiver_start_is_checked_witness:
  "\<exists>config. load_config toy_vars = Inr config \<and> ac_tenant_ids config \<noteq> []"
proof -
  let ?role = "\<lambda>_. Inr (Some (''flexi_kernel_admin'', ''flexi_kernel_admin''))"
  have rotate: "archiver_rotate_keys toy_archiver (ar_db toy_failing)
      = ((ar_db toy_failing)\<lparr>db_core := (db_core (ar_db toy_failing))\<lparr>kt_faults := []\<rparr>\<rparr>, Inl (DbError ''connection''))"
    by (simp add: archiver_rotate_keys_def on_core_def rotate_keys_def ensure_system_def archiver_system_context_def kernel_defs
        with_context_def txn_bind_def rotate_key_type_def transaction_def plain_statement_def statement_def toy_failing_def Let_def)
  have "fst (archiver_main toy_archiver toy_vars (\<lambda>_. Inr ()) ?role [] toy_failing)
      = toy_failing\<lparr>ar_db := (ar_db toy_failing)\<lparr>db_core := (db_core (ar_db toy_failing))\<lparr>kt_faults := []\<rparr>\<rparr>\<rparr>"
    by (simp add: archiver_main_def toy_load_config rotate verify_kernel_role_def)
  also have "\<dots> \<noteq> toy_failing"
  proof
    assume "toy_failing\<lparr>ar_db := (ar_db toy_failing)\<lparr>db_core := (db_core (ar_db toy_failing))\<lparr>kt_faults := []\<rparr>\<rparr>\<rparr> = toy_failing"
    then have "kt_faults (db_core (ar_db (toy_failing\<lparr>ar_db := (ar_db toy_failing)\<lparr>db_core := (db_core (ar_db toy_failing))\<lparr>kt_faults := []\<rparr>\<rparr>\<rparr>)))
        = kt_faults (db_core (ar_db toy_failing))" by (rule arg_cong)
    then show False by (simp add: toy_failing_def)
  qed
  finally have changed: "fst (archiver_main toy_archiver toy_vars (\<lambda>_. Inr ()) ?role [] toy_failing) \<noteq> toy_failing" .
  show ?thesis using archiver_start_is_checked [OF surjective_pairing changed] by blast
qed

end
