(* ===== verification/Sanitizer.thy ===== *)
theory Sanitizer
  imports Json_Types
begin

text \<open>
  Masking of personal data: \<open>PIISanitizer\<close> of \<open>kernel-core/src/diagnostics/sanitizer.rs\<close>.

  The regex crate is the function \<open>sz_pieces\<close>: it splits a text into what lies between the matches
  of a pattern and the matches, each with its capture groups, group 0 being the match. The patterns
  are named as the statics of the file. \<open>sz_parse\<close> is \<open>Url::parse\<close>, \<open>sz_clean\<close> removes query and
  fragment of a parsed URL and prints it.
\<close>

section \<open>Definitions\<close>

datatype sanitizer_regex = EMAIL_REGEX | BEARER_TOKEN_REGEX | API_KEY_REGEX | URL_REGEX

record 'u sanitizer_env =
  sz_pieces :: "sanitizer_regex \<Rightarrow> string \<Rightarrow> (string + string list) list"
  sz_parse :: "string \<Rightarrow> 'u option"
  sz_clean :: "'u \<Rightarrow> string"

definition replace_all :: "'u sanitizer_env \<Rightarrow> sanitizer_regex \<Rightarrow> string \<Rightarrow> (string list \<Rightarrow> string) \<Rightarrow> string" where
  "replace_all Z re text f = concat (map (\<lambda>p. case p of Inl t \<Rightarrow> t | Inr caps \<Rightarrow> f caps) (sz_pieces Z re text))"

definition capture :: "string list \<Rightarrow> nat \<Rightarrow> string" where
  "capture caps i = (if i < length caps then caps ! i else [])"

definition MAX_DEPTH :: nat where
  "MAX_DEPTH = 32"

definition strip_url :: "'u sanitizer_env \<Rightarrow> string list \<Rightarrow> string" where
  "strip_url Z caps =
     (let url_str = capture caps 0
      in case sz_parse Z url_str of Some url \<Rightarrow> sz_clean Z url | None \<Rightarrow> url_str)"

definition sanitize_text :: "'u sanitizer_env \<Rightarrow> string \<Rightarrow> string" where
  "sanitize_text Z text =
     (let sanitized = replace_all Z EMAIL_REGEX text (\<lambda>_. ''***EMAIL***'');
          sanitized = replace_all Z BEARER_TOKEN_REGEX sanitized (\<lambda>_. ''Bearer ***TOKEN***'');
          sanitized = replace_all Z API_KEY_REGEX sanitized (\<lambda>caps. capture caps 1 @ '': ***SECRET***'')
      in replace_all Z URL_REGEX sanitized (strip_url Z))"

definition sanitize_url :: "'u sanitizer_env \<Rightarrow> string \<Rightarrow> string" where
  "sanitize_url Z url_str =
     (case sz_parse Z url_str of
        Some url \<Rightarrow> sanitize_text Z (sz_clean Z url)
      | None \<Rightarrow> sanitize_text Z url_str)"

definition sanitize_string :: "'u sanitizer_env \<Rightarrow> string \<Rightarrow> string" where
  "sanitize_string Z s =
     (if starts_with s ''http://'' \<or> starts_with s ''https://'' then sanitize_url Z s else sanitize_text Z s)"

text \<open>One entry of the rebuilt object; a masked key gets a counter from its second use on.\<close>

definition insert_sanitized :: "'u sanitizer_env \<Rightarrow> string \<times> json \<Rightarrow> (string \<Rightarrow> nat) \<times> (string \<times> json) list
    \<Rightarrow> (string \<Rightarrow> nat) \<times> (string \<times> json) list" where
  "insert_sanitized Z entry st =
     (let (key, val) = entry;
          (key_counters, obj) = st;
          sanitized_key = sanitize_text Z key;
          key_index = key_counters sanitized_key;
          output_key = (if key_index = 0 then sanitized_key else sanitized_key @ ''_'' @ dec_of_nat key_index)
      in (key_counters(sanitized_key := key_index + 1), json_insert output_key val obj))"

fun sanitize_value_inner :: "'u sanitizer_env \<Rightarrow> nat \<Rightarrow> json \<Rightarrow> json" where
  "sanitize_value_inner Z 0 v = JString ''<max_depth_reached>''"
| "sanitize_value_inner Z (Suc d) v =
     (case v of
        JString s \<Rightarrow> JString (sanitize_string Z s)
      | JArray arr \<Rightarrow> JArray (map (sanitize_value_inner Z d) arr)
      | JObject entries \<Rightarrow>
          JObject (snd (fold (insert_sanitized Z) (map (\<lambda>(key, val). (key, sanitize_value_inner Z d val)) entries) (\<lambda>_. 0, [])))
      | _ \<Rightarrow> v)"

definition sanitize_value :: "'u sanitizer_env \<Rightarrow> json \<Rightarrow> json" where
  "sanitize_value Z v = sanitize_value_inner Z MAX_DEPTH v"

section \<open>Lemmas\<close>

text \<open>What a masked value consists of.\<close>

definition masked_strings :: "'u sanitizer_env \<Rightarrow> string set" where
  "masked_strings Z = insert ''<max_depth_reached>'' (range (sanitize_string Z))"

definition masked_keys :: "'u sanitizer_env \<Rightarrow> string set" where
  "masked_keys Z = range (sanitize_text Z) \<union> {sanitize_text Z k @ ''_'' @ dec_of_nat n | k n. 0 < n}"

definition masked :: "'u sanitizer_env \<Rightarrow> nat \<Rightarrow> json \<Rightarrow> bool" where
  "masked Z d v \<longleftrightarrow> json_depth v \<le> d \<and> json_strings v \<subseteq> masked_strings Z \<and> json_keys v \<subseteq> masked_keys Z"

lemma insert_sanitized_entries:
  "set (snd (insert_sanitized Z (k, v) st)) \<subseteq> set (snd st) \<union> (masked_keys Z \<times> {v})"
  using json_insert_set by (fastforce simp: insert_sanitized_def Let_def masked_keys_def split: prod.splits if_splits)

lemma fold_sanitized_entries:
  "set (snd (fold (insert_sanitized Z) entries st)) \<subseteq> set (snd st) \<union> (masked_keys Z \<times> snd ` set entries)"
proof (induction entries arbitrary: st)
  case Nil
  then show ?case by simp
next
  case (Cons e entries)
  obtain k v where e: "e = (k, v)" by (cases e)
  show ?case using Cons [of "insert_sanitized Z e st"] insert_sanitized_entries [of Z k v st] unfolding e by auto
qed

lemma sanitize_inner_masked: "masked Z (Suc d) (sanitize_value_inner Z d v)"
proof (induction d arbitrary: v)
  case 0
  then show ?case by (simp add: masked_def masked_strings_def)
next
  case (Suc d)
  show ?case
  proof (cases v)
    case (JObject entries)
    let ?out = "snd (fold (insert_sanitized Z) (map (\<lambda>(key, val). (key, sanitize_value_inner Z d val)) entries) (\<lambda>_. 0, []))"
    have out: "k \<in> masked_keys Z \<and> masked Z (Suc d) x" if "(k, x) \<in> set ?out" for k x
      using that fold_sanitized_entries [of Z "map (\<lambda>(key, val). (key, sanitize_value_inner Z d val)) entries" "(\<lambda>_. 0, [])"] Suc by auto
    have "json_depth (JObject ?out) \<le> Suc (Suc d)" using out unfolding json_depth_object by (auto simp: masked_def)
    moreover have "json_strings (JObject ?out) \<subseteq> masked_strings Z" "json_keys (JObject ?out) \<subseteq> masked_keys Z"
      using out by (auto simp: masked_def)
    ultimately show ?thesis using JObject by (simp add: masked_def del: json_depth.simps json_strings.simps json_keys.simps)
  next
    case (JArray vs)
    have "json_depth (JArray (map (sanitize_value_inner Z d) vs)) \<le> Suc (Suc d)"
      using Suc unfolding json_depth_array by (auto simp: masked_def)
    then show ?thesis using Suc JArray by (auto simp: masked_def)
  qed (auto simp: masked_def masked_strings_def)
qed

lemma sanitize_inner_object:
  "0 < d \<Longrightarrow> sanitize_value_inner Z d (JObject entries)
    = JObject (snd (fold (insert_sanitized Z) (map (\<lambda>(key, val). (key, sanitize_value_inner Z (d - 1) val)) entries) (\<lambda>_. 0, [])))"
  by (cases d) auto

lemma sanitize_inner_string: "0 < d \<Longrightarrow> sanitize_value_inner Z d (JString s) = JString (sanitize_string Z s)"
  by (cases d) auto

section \<open>Properties\<close>

text \<open>
  C30 (type): a masked value is at most 33 levels deep, however deep the payload is, and nothing
  in it escapes the masking: each of its strings is a masked string or the placeholder of the depth limit, and each
  of its keys is a masked key, with a counter where it is used again.
\<close>

theorem sanitized_value_is_masked:
  "json_depth (sanitize_value Z v) \<le> MAX_DEPTH + 1
   \<and> json_strings (sanitize_value Z v) \<subseteq> insert ''<max_depth_reached>'' (range (sanitize_string Z))
   \<and> json_keys (sanitize_value Z v) \<subseteq> range (sanitize_text Z) \<union> {sanitize_text Z k @ ''_'' @ dec_of_nat n | k n. 0 < n}"
  using sanitize_inner_masked [of Z MAX_DEPTH v] by (simp add: masked_def masked_strings_def masked_keys_def sanitize_value_def)

text \<open>
  the counter does not keep keys apart. If an earlier key already reads like the
  second use of a mask, the entry inserted under the counted key replaces it, and one of the
  three values is gone, although the code means to keep all of them.
\<close>

theorem sanitized_entry_lost:
  assumes "sanitize_text Z k0 = p @ ''_1''" "sanitize_text Z k1 = p" "sanitize_text Z k2 = p"
  shows "sanitize_value Z (JObject [(k0, v0), (k1, v1), (k2, v2)])
    = JObject [(p @ ''_1'', sanitize_value_inner Z 31 v2), (p, sanitize_value_inner Z 31 v1)]"
proof -
  have "char_of (49 :: nat) = CHR ''1''" by code_simp
  then have "dec_of_nat 1 = ''1''" by (simp add: dec_of_nat.simps digit_char_def)
  then show ?thesis using assms by (simp add: sanitize_value_def MAX_DEPTH_def sanitize_inner_object insert_sanitized_def Let_def json_insert_def)
qed

text \<open>A sanitizer whose e-mail pattern matches any text with an at sign as a whole, and whose other patterns match nothing.\<close>

definition toy_sanitizer :: "unit sanitizer_env" where
  "toy_sanitizer = \<lparr>sz_pieces = (\<lambda>re text. if re = EMAIL_REGEX \<and> CHR ''@'' \<in> set text then [Inr [text]] else [Inl text]),
     sz_parse = (\<lambda>_. None), sz_clean = (\<lambda>_. [])\<rparr>"

lemma toy_sanitize_text: "sanitize_text toy_sanitizer text = (if CHR ''@'' \<in> set text then ''***EMAIL***'' else text)"
  by (simp add: sanitize_text_def replace_all_def toy_sanitizer_def Let_def)

theorem sanitized_entry_lost_witness:
  "sanitize_value toy_sanitizer (JObject [(''***EMAIL***_1'', JString ''x''), (''a@b.com'', JString ''y''), (''c@d.com'', JString ''z'')])
     = JObject [(''***EMAIL***_1'', JString ''z''), (''***EMAIL***'', JString ''y'')]"
proof -
  have "sanitize_value_inner toy_sanitizer 31 (JString ''y'') = JString ''y''" "sanitize_value_inner toy_sanitizer 31 (JString ''z'') = JString ''z''"
    by (simp_all add: sanitize_inner_string sanitize_string_def toy_sanitize_text starts_with_def)
  then show ?thesis
    using sanitized_entry_lost [of toy_sanitizer "''***EMAIL***_1''" "''***EMAIL***''" "''a@b.com''" "''c@d.com''" "JString ''x''" "JString ''y''" "JString ''z''"]
    by (simp add: toy_sanitize_text)
qed

end
