(* ===== verification/Diagnostics_Api.thy ===== *)
theory Diagnostics_Api
  imports Sanitizer Repository Http_Types
begin

text \<open>
  The diagnostics endpoints: \<open>kernel-api/src/diagnostics.rs\<close> and the domain types of
  \<open>kernel-core/src/diagnostics/mod.rs\<close>.

  A handler is a function of the request's tenant context and payload on the database state. The
  sanitizer is the one of theory \<open>Sanitizer\<close>, tokens come from theory \<open>Key_Manager\<close>, transactions and
  repository from theories \<open>Tenant_Tx\<close> and \<open>Repository\<close> with JSON values as payloads. The JSON
  writer, chrono's rendering of times and the answer of \<open>DatabaseConnection::ping\<close> are arguments.
\<close>

section \<open>Definitions\<close>

subsection \<open>Domain types\<close>

record diagnostic_context =
  dc_component_id :: string
  dc_props :: json
  dc_dom_snapshot :: string
  dc_metrics :: "json option"

record core_policy =
  cp_tenant_id :: tenant_id
  cp_enabled :: bool
  cp_updated_at :: int
  cp_updated_by :: "user_id option"

definition DiagnosticPolicy_new :: "tenant_id \<Rightarrow> bool \<Rightarrow> user_id option \<Rightarrow> int \<Rightarrow> core_policy" where
  "DiagnosticPolicy_new tenant_id enabled updated_by now =
     \<lparr>cp_tenant_id = tenant_id, cp_enabled = enabled, cp_updated_at = now, cp_updated_by = updated_by\<rparr>"

definition is_diagnostics_enabled :: "core_policy option \<Rightarrow> bool" where
  "is_diagnostics_enabled policy = (case policy of Some p \<Rightarrow> cp_enabled p | None \<Rightarrow> False)"

text \<open>\<open>serde_json::to_value\<close> of the context.\<close>

definition optional_json :: "json option \<Rightarrow> json" where
  "optional_json v = (case v of None \<Rightarrow> JNull | Some x \<Rightarrow> x)"

definition context_value :: "diagnostic_context \<Rightarrow> json" where
  "context_value c = JObject [(''component_id'', JString (dc_component_id c)), (''props'', dc_props c),
     (''dom_snapshot'', JString (dc_dom_snapshot c)), (''metrics'', optional_json (dc_metrics c))]"

subsection \<open>Requests and answers\<close>

record report_request =
  rd_error_code :: string
  rd_context :: diagnostic_context
  rd_suggestion :: "string option"

record 'u diag_env =
  dg_repo :: "json repo_env"
  dg_keys :: key_gen
  dg_sanitizer :: "'u sanitizer_env"
  dg_text :: "json \<Rightarrow> string"
  dg_time :: "int \<Rightarrow> string"

definition json_response :: "'u diag_env \<Rightarrow> nat \<Rightarrow> json \<Rightarrow> http_response" where
  "json_response D status v =
     \<lparr>resp_status = status, resp_body = dg_text D v, resp_headers = [(''content-type'', ''application/json'')]\<rparr>"

definition report_json :: "'u diag_env \<Rightarrow> json diagnostic_report \<Rightarrow> json" where
  "report_json D r = JObject [(''trace_id'', JString (dr_trace_id r)), (''tenant_id'', JString (dr_tenant_id r)),
     (''error_code'', JString (dr_error_code r)), (''context'', dr_context r),
     (''suggestion'', optional_json (map_option JString (dr_suggestion r))), (''created_at'', JString (dg_time D (dr_created_at r)))]"

datatype policy_response = Configured diagnostic_policy | NotConfigured string bool

definition policy_json :: "'u diag_env \<Rightarrow> policy_response \<Rightarrow> json" where
  "policy_json D p =
     (case p of
        Configured m \<Rightarrow> JObject [(''tenant_id'', JString (dp_tenant_id m)), (''enabled'', JBool (dp_enabled m)),
          (''updated_at'', JString (dg_time D (dp_updated_at m))), (''updated_by'', optional_json (map_option JString (dp_updated_by m)))]
      | NotConfigured t enabled \<Rightarrow> JObject [(''tenant_id'', JString t), (''enabled'', JBool enabled)])"

definition MAX_STRING_LEN :: nat where
  "MAX_STRING_LEN = 256"

definition MAX_DOM_SNAPSHOT_LEN :: nat where
  "MAX_DOM_SNAPSHOT_LEN = 1024 * 1024"

definition validate_string_length :: "string \<Rightarrow> nat \<Rightarrow> nat + unit" where
  "validate_string_length value max_len = (if length value > max_len then Inl 400 else Inr ())"

definition generate_token_or_500 :: "'u diag_env \<Rightarrow> 'db tenant_context \<Rightarrow> 'd ddb \<Rightarrow> 'd ddb \<times> (nat + string)" where
  "generate_token_or_500 D ctx s =
     (case on_core (generate_tenant_token (dg_keys D) (tx_hmac_hex (rp_tx (dg_repo D))) ctx (ctx_tenant_id ctx)) s of
        (s, Inr token) \<Rightarrow> (s, Inr token)
      | (s, Inl (NoActiveKey _)) \<Rightarrow> (s, Inl 503)
      | (s, Inl _) \<Rightarrow> (s, Inl 500))"

text \<open>What all handlers with a transaction share: a token, the connection, the transaction.\<close>

definition in_tenant_tx :: "'u diag_env \<Rightarrow> 'db tenant_context \<Rightarrow> (tenant_scoped \<Rightarrow> (json, 'a) repo_tx) \<Rightarrow> json repo_tables ddb
    \<Rightarrow> json repo_tables ddb \<times> (nat + 'a)" where
  "in_tenant_tx D ctx f s =
     (case generate_token_or_500 D ctx s of
        (s, Inl status) \<Rightarrow> (s, Inl status)
      | (s, Inr token) \<Rightarrow>
          (case context_db ctx of
             Inl _ \<Rightarrow> (s, Inl 500)
           | Inr _ \<Rightarrow>
               (case with_tenant_tx (rp_tx (dg_repo D)) ctx token f s of
                  (s, Inl _) \<Rightarrow> (s, Inl 500)
                | (s, Inr x) \<Rightarrow> (s, Inr x))))"

definition answer :: "(nat + http_response) \<Rightarrow> http_response" where
  "answer r = (case r of Inl status \<Rightarrow> status_into_response status | Inr resp \<Rightarrow> resp)"

subsection \<open>Handlers\<close>

definition check_report_lengths :: "report_request \<Rightarrow> nat + unit" where
  "check_report_lengths payload =
     and_then (validate_string_length (rd_error_code payload) MAX_STRING_LEN) (\<lambda>_.
     and_then (case rd_suggestion payload of None \<Rightarrow> Inr () | Some suggestion \<Rightarrow> validate_string_length suggestion MAX_STRING_LEN) (\<lambda>_.
     validate_string_length (dc_dom_snapshot (rd_context payload)) MAX_DOM_SNAPSHOT_LEN))"

definition sanitize_report :: "'u sanitizer_env \<Rightarrow> report_request \<Rightarrow> report_request" where
  "sanitize_report Z payload =
     (let c = rd_context payload
      in \<lparr>rd_error_code = sanitize_text Z (rd_error_code payload),
          rd_context = c\<lparr>dc_props := sanitize_value Z (dc_props c), dc_dom_snapshot := sanitize_text Z (dc_dom_snapshot c),
                         dc_metrics := map_option (sanitize_value Z) (dc_metrics c)\<rparr>,
          rd_suggestion = map_option (sanitize_text Z) (rd_suggestion payload)\<rparr>)"

definition save_report :: "'u diag_env \<Rightarrow> string \<Rightarrow> report_request \<Rightarrow> tenant_scoped \<Rightarrow> (json, json diagnostic_report option) repo_tx" where
  "save_report D trace_id payload repo =
     dbind (get_diagnostic_policy (dg_repo D) repo) (\<lambda>policy.
       if \<not> (case policy of Some p \<Rightarrow> dp_enabled p | None \<Rightarrow> False) then dreturn None
       else (\<lambda>s. dbind (create_diagnostic_report (dg_repo D) repo
                   \<lparr>ra_trace_id = ActiveSet trace_id, ra_error_code = ActiveSet (rd_error_code payload),
                    ra_context = ActiveSet (context_value (rd_context payload)), ra_suggestion = ActiveSet (rd_suggestion payload),
                    ra_created_at = ActiveSet (utc_now s)\<rparr>)
                 (\<lambda>saved. dreturn (Some saved)) s))"

definition report_diagnostic :: "'u diag_env \<Rightarrow> 'db tenant_context \<Rightarrow> report_request \<Rightarrow> json repo_tables ddb
    \<Rightarrow> json repo_tables ddb \<times> http_response" where
  "report_diagnostic D ctx payload s =
     (case check_report_lengths payload of
        Inl status \<Rightarrow> (s, status_into_response status)
      | Inr _ \<Rightarrow>
          (let payload = sanitize_report (dg_sanitizer D) payload;
               trace_id = rp_uuid (dg_repo D) (kt_drawn (db_core s));
               s = s\<lparr>db_core := (db_core s)\<lparr>kt_drawn := kt_drawn (db_core s) + 1\<rparr>\<rparr>
           in apsnd (\<lambda>r. answer (map_sum id (\<lambda>saved. case saved of
                    Some r \<Rightarrow> json_response D 201 (JObject [(''trace_id'', JString (dr_trace_id r))])
                  | None \<Rightarrow> json_response D 200 (JObject [(''status'', JString ''dropped_by_policy'')])) r))
                (in_tenant_tx D ctx (save_report D trace_id payload) s)))"

definition query_diagnostic :: "'u diag_env \<Rightarrow> 'db tenant_context \<Rightarrow> string \<Rightarrow> json repo_tables ddb
    \<Rightarrow> json repo_tables ddb \<times> http_response" where
  "query_diagnostic D ctx trace_id s =
     (case validate_string_length trace_id MAX_STRING_LEN of
        Inl status \<Rightarrow> (s, status_into_response status)
      | Inr _ \<Rightarrow>
          apsnd (\<lambda>r. answer (map_sum id (\<lambda>found. case found of
                   Some report \<Rightarrow> json_response D 200 (report_json D report)
                 | None \<Rightarrow> status_into_response 404) r))
            (in_tenant_tx D ctx (\<lambda>repo. get_diagnostic_report (dg_repo D) repo trace_id) s))"

definition get_policy :: "'u diag_env \<Rightarrow> 'db tenant_context \<Rightarrow> json repo_tables ddb \<Rightarrow> json repo_tables ddb \<times> http_response" where
  "get_policy D ctx s =
     apsnd (\<lambda>r. answer (map_sum id (\<lambda>found. json_response D 200 (policy_json D (case found of
                 Some policy \<Rightarrow> Configured policy
               | None \<Rightarrow> NotConfigured (tenant_str (ctx_tenant_id ctx)) False))) r))
       (in_tenant_tx D ctx (get_diagnostic_policy (dg_repo D)) s)"

definition update_policy :: "'db tenant_context \<Rightarrow> bool \<Rightarrow> json repo_tables ddb \<Rightarrow> json repo_tables ddb \<times> http_response" where
  "update_policy ctx payload s = (s, status_into_response 403)"

datatype ping_answer = PingOk | PingFailed | PingTimedOut

definition get_health :: "'u diag_env \<Rightarrow> ('db \<Rightarrow> ping_answer) \<Rightarrow> 'db tenant_context \<Rightarrow> http_response" where
  "get_health D ping ctx =
     (case context_db ctx of
        Inl _ \<Rightarrow> status_into_response 503
      | Inr db \<Rightarrow>
          (case ping db of
             PingOk \<Rightarrow> json_response D 200 (JObject [(''status'', JString ''ok'')])
           | _ \<Rightarrow> json_response D 503 (JObject [(''status'', JString ''error''), (''details'', JString ''Database connectivity failed'')])))"

definition healthz_probe :: "'u diag_env \<Rightarrow> http_response" where
  "healthz_probe D = json_response D 200 (JObject [(''status'', JString ''ok'')])"

section \<open>Lemmas\<close>

text \<open>What a transaction does to the tables: nothing, or what its closure did for the tenant.\<close>

lemma with_tenant_tx_tables:
  assumes "with_tenant_tx E ctx token f s0 = (s', r)"
  shows "db_tables s' = db_tables s0 \<and> (\<exists>e. r = Inl e)
    \<or> (\<exists>s1 s2 x. in_scope E (tenant_str (ctx_tenant_id ctx)) s1 \<and> db_tables s1 = db_tables s0 \<and> f (tx_scope ctx) s1 = (s2, Inr x)
        \<and> db_tables s' = db_tables s2 \<and> (\<forall>y. r = Inr y \<longrightarrow> y = x))"
proof (cases "\<exists>s1. tx_entered E ctx token s0 s1")
  case True
  then obtain s1 where s1: "tx_entered E ctx token s0 s1" ..
  obtain s2 q where q: "f (tx_scope ctx) s1 = (s2, q)" by (cases "f (tx_scope ctx) s1")
  show ?thesis
  proof (cases q)
    case (Inl e)
    then show ?thesis using assms q unfolding with_tenant_tx_entered [OF s1] by auto
  next
    case (Inr x)
    then have "db_tables s' = db_tables s0 \<and> (\<exists>e. r = Inl e) \<or> db_tables s' = db_tables s2 \<and> (\<forall>y. r = Inr y \<longrightarrow> y = x)"
      using assms q unfolding with_tenant_tx_entered [OF s1] by (auto split: if_splits)
    then show ?thesis using tx_entered_scope(1,2) [OF s1] q Inr by blast
  qed
next
  case False
  then show ?thesis using with_tenant_tx_not_entered [of E ctx token s0 f] assms by auto
qed

lemma generate_token_tables: "generate_token_or_500 D ctx s = (s', r) \<Longrightarrow> db_tables s' = db_tables s"
  unfolding generate_token_or_500_def
  by (auto dest!: on_core_tables split: prod.splits sum.splits key_manager_error.splits)

lemma generate_token_status: "generate_token_or_500 D ctx s = (s', Inl c) \<Longrightarrow> c \<in> {500, 503}"
  unfolding generate_token_or_500_def by (auto split: prod.splits sum.splits key_manager_error.splits)

lemma in_tenant_tx_tables:
  assumes "in_tenant_tx D ctx f s = (s', r)"
  shows "db_tables s' = db_tables s \<and> (\<exists>c \<in> {500, 503}. r = Inl c)
    \<or> (\<exists>s1 s2 x. in_scope (rp_tx (dg_repo D)) (tenant_str (ctx_tenant_id ctx)) s1 \<and> db_tables s1 = db_tables s
        \<and> f (tx_scope ctx) s1 = (s2, Inr x) \<and> db_tables s' = db_tables s2 \<and> (r = Inr x \<or> r = Inl 500))"
proof -
  obtain s1 t where t: "generate_token_or_500 D ctx s = (s1, t)" by (cases "generate_token_or_500 D ctx s")
  note tables = generate_token_tables [OF t]
  show ?thesis
  proof (cases t)
    case (Inl c)
    then show ?thesis using assms t tables generate_token_status [of D ctx s s1 c] by (auto simp: in_tenant_tx_def)
  next
    case (Inr token)
    show ?thesis
    proof (cases "context_db ctx")
      case (Inl e)
      then show ?thesis using assms t Inr tables by (auto simp: in_tenant_tx_def)
    next
      case db: (Inr d)
      obtain s2 q where q: "with_tenant_tx (rp_tx (dg_repo D)) ctx token f s1 = (s2, q)" by (cases "with_tenant_tx (rp_tx (dg_repo D)) ctx token f s1")
      have "s' = s2 \<and> (case q of Inl _ \<Rightarrow> r = Inl 500 | Inr x \<Rightarrow> r = Inr x)"
        using assms t Inr db q by (auto simp: in_tenant_tx_def split: sum.splits)
      then show ?thesis using with_tenant_tx_tables [OF q] tables by (cases q) auto
    qed
  qed
qed

lemma save_report_run:
  assumes "in_scope (rp_tx (dg_repo D)) (tenant_str (ts_tenant_id repo)) s" and "save_report D trace_id payload repo s = (s', Inr x)"
  shows "x = None \<and> db_tables s' = db_tables s
    \<or> (\<exists>r. x = Some r \<and> db_tables s' = (db_tables s)\<lparr>rt_reports := rt_reports (db_tables s) @ [r]\<rparr>
        \<and> dr_trace_id r = trace_id \<and> dr_tenant_id r = tenant_str (ts_tenant_id repo) \<and> dr_error_code r = rd_error_code payload
        \<and> dr_context r = context_value (rd_context payload) \<and> dr_suggestion r = rd_suggestion payload
        \<and> (\<exists>p \<in> set (rt_policies (db_tables s)). dp_tenant_id p = tenant_str (ts_tenant_id repo) \<and> dp_enabled p))"
proof -
  let ?t = "tenant_str (ts_tenant_id repo)"
  obtain s1 policy where pol: "get_diagnostic_policy (dg_repo D) repo s = (s1, Inr policy)"
    using assms(2) by (auto simp: save_report_def dbind_Inr)
  have s1: "db_tables s1 = db_tables s" "in_scope (rp_tx (dg_repo D)) ?t s1"
    and policy: "policy = find (\<lambda>r. dp_tenant_id r = ?t) (visible dp_tenant_id (Some ?t) (rt_policies (db_tables s)))"
    using pol [unfolded get_diagnostic_policy_def scoped_statement_Inr [OF assms(1)]] assms(1) by (auto simp: in_scope_def)
  show ?thesis
  proof (cases "\<exists>p. policy = Some p \<and> dp_enabled p")
    case False
    then have "dreturn None s1 = (s', Inr x)" using assms(2) pol by (auto simp: save_report_def dbind_def split: option.splits)
    with s1(1) show ?thesis by (simp add: dreturn_def)
  next
    case True
    then obtain p where p: "policy = Some p" "dp_enabled p" by blast
    have "p \<in> set (rt_policies (db_tables s)) \<and> dp_tenant_id p = ?t"
      using p(1) policy by (auto simp: find_Some_iff visible_def dest!: nth_mem)
    moreover obtain s2 r where c: "create_diagnostic_report (dg_repo D) repo
                   \<lparr>ra_trace_id = ActiveSet trace_id, ra_error_code = ActiveSet (rd_error_code payload),
                    ra_context = ActiveSet (context_value (rd_context payload)), ra_suggestion = ActiveSet (rd_suggestion payload),
                    ra_created_at = ActiveSet (utc_now s1)\<rparr> s1 = (s2, Inr r)" and x: "x = Some r" "s' = s2"
      using assms(2) pol p by (auto simp: save_report_def dbind_def dreturn_def split: prod.splits sum.splits)
    ultimately show ?thesis
      using s1 p(2) by (auto simp: create_diagnostic_report_def Let_def dbind_Inr dreturn_def not_null_def scoped_statement_Inr [OF s1(2)]
          row_insert_def split: if_splits)
  qed
qed

section \<open>Properties\<close>

text \<open>
  C31 (safety): diagnostics are opt-in and masked. A report reaches the database only as one new row
  of the caller's tenant, and only if that tenant has a policy that is enabled; its texts, its
  properties and its metrics have passed the sanitizer, and only the component identifier is stored as it
  was sent. Status 201 means that the row is there, 200 that nothing was stored, and any
  other answer is an error.
\<close>

theorem report_stored_only_by_consent:
  assumes "report_diagnostic D ctx payload s = (s', resp)"
  shows "(db_tables s' = db_tables s \<and> resp_status resp \<in> {200, 400, 500, 503})
    \<or> (\<exists>r c. db_tables s' = (db_tables s)\<lparr>rt_reports := rt_reports (db_tables s) @ [r]\<rparr> \<and> resp_status resp \<in> {201, 500}
        \<and> dr_tenant_id r = tenant_str (ctx_tenant_id ctx)
        \<and> (\<exists>p \<in> set (rt_policies (db_tables s)). dp_tenant_id p = tenant_str (ctx_tenant_id ctx) \<and> dp_enabled p)
        \<and> dr_error_code r = sanitize_text (dg_sanitizer D) (rd_error_code payload)
        \<and> dr_suggestion r = map_option (sanitize_text (dg_sanitizer D)) (rd_suggestion payload)
        \<and> dr_context r = context_value c
        \<and> dc_props c = sanitize_value (dg_sanitizer D) (dc_props (rd_context payload))
        \<and> dc_dom_snapshot c = sanitize_text (dg_sanitizer D) (dc_dom_snapshot (rd_context payload))
        \<and> dc_metrics c = map_option (sanitize_value (dg_sanitizer D)) (dc_metrics (rd_context payload))
        \<and> dc_component_id c = dc_component_id (rd_context payload))"
proof (cases "check_report_lengths payload")
  case (Inl c)
  then have "c = 400" by (auto simp: check_report_lengths_def and_then_Inl validate_string_length_def split: if_splits option.splits)
  with assms Inl show ?thesis by (auto simp: report_diagnostic_def status_into_response_def)
next
  case (Inr u)
  let ?p = "sanitize_report (dg_sanitizer D) payload"
  let ?s = "s\<lparr>db_core := (db_core s)\<lparr>kt_drawn := kt_drawn (db_core s) + 1\<rparr>\<rparr>"
  obtain q where q: "in_tenant_tx D ctx (save_report D (rp_uuid (dg_repo D) (kt_drawn (db_core s))) ?p) ?s = (s', q)"
    and resp: "resp = answer (map_sum id (\<lambda>saved. case saved of
                    Some r \<Rightarrow> json_response D 201 (JObject [(''trace_id'', JString (dr_trace_id r))])
                  | None \<Rightarrow> json_response D 200 (JObject [(''status'', JString ''dropped_by_policy'')])) q)"
    using assms Inr by (auto simp: report_diagnostic_def Let_def apsnd_eq_iff)
  have status: "q = Inl c \<Longrightarrow> resp_status resp = c" "q = Inr None \<Longrightarrow> resp_status resp = 200" "q = Inr (Some r) \<Longrightarrow> resp_status resp = 201" for c r
    by (simp_all add: resp answer_def status_into_response_def json_response_def)
  have tenant: "tenant_str (ts_tenant_id (tx_scope ctx)) = tenant_str (ctx_tenant_id ctx)" by (simp add: tx_scope_def)
  from in_tenant_tx_tables [OF q] show ?thesis
  proof (elim disjE exE conjE bexE)
    fix c assume "db_tables s' = db_tables ?s" "q = Inl c" "c \<in> {500, 503}"
    then show ?thesis using status(1) by auto
  next
    fix s1 s2 x assume s1: "in_scope (rp_tx (dg_repo D)) (tenant_str (ctx_tenant_id ctx)) s1" "db_tables s1 = db_tables ?s"
      and run: "save_report D (rp_uuid (dg_repo D) (kt_drawn (db_core s))) ?p (tx_scope ctx) s1 = (s2, Inr x)"
      and s': "db_tables s' = db_tables s2" and qx: "q = Inr x"
    from save_report_run [OF _ run, unfolded tenant, OF s1(1)] show ?thesis
      using s1(2) s' qx status(2,3) by (auto simp: sanitize_report_def Let_def intro!: exI [of _ "rd_context ?p"])
  next
    fix s1 s2 x assume s1: "in_scope (rp_tx (dg_repo D)) (tenant_str (ctx_tenant_id ctx)) s1" "db_tables s1 = db_tables ?s"
      and run: "save_report D (rp_uuid (dg_repo D) (kt_drawn (db_core s))) ?p (tx_scope ctx) s1 = (s2, Inr x)"
      and s': "db_tables s' = db_tables s2" and qx: "q = Inl 500"
    from save_report_run [OF _ run, unfolded tenant, OF s1(1)] show ?thesis
      using s1(2) s' status(1) [OF qx] by (auto simp: sanitize_report_def Let_def intro!: exI [of _ "rd_context ?p"])
  qed
qed

text \<open>A database with one key, a tenant that has opted in, and a report whose error code holds an address.\<close>

definition toy_repo :: "json repo_env" where
  "toy_repo = \<lparr>rp_tx = sample_env, rp_sha256 = (\<lambda>_. []), rp_uuid = (\<lambda>n. ''u''), rp_diff = (\<lambda>a b. Inr b), rp_entity_json = (\<lambda>r. Inr (er_content r))\<rparr>"

definition toy_diag :: "unit diag_env" where
  "toy_diag = \<lparr>dg_repo = toy_repo, dg_keys = sample_gen\<lparr>kg_uuid := (\<lambda>_. ''n'')\<rparr>, dg_sanitizer = toy_sanitizer, dg_text = (\<lambda>_. ''{}''),
     dg_time = (\<lambda>_. ''now'')\<rparr>"

definition opted_in :: "json repo_tables" where
  "opted_in = \<lparr>rt_entities = [], rt_histories = [], rt_audits = [], rt_reports = [],
     rt_policies = [\<lparr>dp_tenant_id = ''t1'', dp_enabled = True, dp_updated_at = 0, dp_updated_by = None\<rparr>]\<rparr>"

definition toy_state :: "nat \<Rightarrow> json repo_tables ddb" where
  "toy_state n = (sample_ddb opted_in)\<lparr>db_core := sample_kdb\<lparr>kt_drawn := n\<rparr>\<rparr>"

definition toy_entered :: "nat \<Rightarrow> json repo_tables ddb" where
  "toy_entered n = (toy_state n)\<lparr>db_pg := \<lparr>pg_nonces = [''n''], pg_hmac_secret = Some ''i'', pg_current_tenant = Some ''t1'', pg_ctx_sig = Some ''ab''\<rparr>\<rparr>"

definition toy_report :: report_request where
  "toy_report = \<lparr>rd_error_code = ''E a@b.com'', rd_context = \<lparr>dc_component_id = ''c'', dc_props = JNull, dc_dom_snapshot = [], dc_metrics = None\<rparr>,
     rd_suggestion = None\<rparr>"

lemma toy_fault: "\<not> db_fault (toy_state n)" "db_answered (toy_state n) = toy_state n" "\<not> db_fault (toy_entered n)"
    "db_answered (toy_entered n) = toy_entered n"
  by (simp_all add: db_fault_def db_answered_def toy_state_def toy_entered_def sample_kdb_def)

lemma toy_token: "generate_token_or_500 toy_diag sample_ctx (toy_state n) = (toy_state (n + 1), Inr sample_token)"
proof -
  have ts: "timestamp 5 = 0" by (simp add: timestamp_def)
  have z: "dec_of_int 0 = ''0''" by code_simp
  show ?thesis
    by (simp add: generate_token_or_500_def on_core_def generate_tenant_token_def get_active_key_internal_def with_context_def context_db_def
        sample_ctx_def toy_state_def sample_ddb_def select_one_def statement_def txn_bind_def txn_return_def sample_kdb_key toy_diag_def
        toy_repo_def sample_env_def Let_def ts z sample_token_def)
qed

lemma toy_tx_entered: "tx_entered sample_env sample_ctx sample_token (toy_state n) (toy_entered n)"
proof -
  have sp: "split_char (CHR '':'') sample_token = [''v2'', ''hmac-1'', ''0'', ''n'', ''t1'', ''ab'']" "sample_token \<noteq> []"
    "\<not> starts_with sample_token ''dev-token:''"
    by (simp_all add: sample_token_def starts_with_def)
  have b: "sample_bigint ''0'' = Some 0" by code_simp
  show ?thesis
    unfolding tx_entered_def authorize_statement_def toy_fault(2) Let_def
    using toy_fault(1) [of n]
    by (simp add: authorize_tenant_def parse_tenant_from_token_def sp b sample_env_def sample_ddb_def toy_entered_def toy_state_def
        sample_ctx_def sample_kdb_key Let_def)
qed

lemma toy_save:
  "\<exists>s r. save_report toy_diag ''u'' p (tx_scope sample_ctx) (toy_entered n) = (s, Inr (Some r)) \<and> \<not> db_fault s"
proof -
  have scope: "in_scope sample_env ''t1'' (toy_entered n)"
    using tx_entered_scope(1) [OF toy_tx_entered [of n]] by (simp add: sample_ctx_def)
  have tables: "db_tables (toy_entered n) = opted_in" by (simp add: toy_entered_def toy_state_def sample_ddb_def)
  have same: "toy_entered n\<lparr>db_tables := opted_in\<rparr> = toy_entered n" by (simp add: toy_entered_def toy_state_def sample_ddb_def)
  let ?sc = "tx_scope sample_ctx"
  have sc: "tenant_str (ts_tenant_id ?sc) = ''t1''" by (simp add: tx_scope_def sample_ctx_def)
  have "\<exists>q. get_diagnostic_policy toy_repo ?sc (toy_entered n) = (toy_entered n, Inr (Some q)) \<and> dp_enabled q"
    unfolding get_diagnostic_policy_def toy_repo_def
    by (simp add: scoped_statement_up [OF scope toy_fault(3)] toy_fault tables same sc) (simp add: opted_in_def visible_def)
  then obtain q where q: "get_diagnostic_policy toy_repo ?sc (toy_entered n) = (toy_entered n, Inr (Some q))" "dp_enabled q" by blast
  have free: "rt_reports opted_in = []" by (simp add: opted_in_def)
  have "\<exists>s r. create_diagnostic_report toy_repo ?sc
                   \<lparr>ra_trace_id = ActiveSet ''u'', ra_error_code = ActiveSet (rd_error_code p),
                    ra_context = ActiveSet (context_value (rd_context p)), ra_suggestion = ActiveSet (rd_suggestion p),
                    ra_created_at = ActiveSet (utc_now (toy_entered n))\<rparr> (toy_entered n) = (s, Inr r) \<and> \<not> db_fault s"
    unfolding create_diagnostic_report_def toy_repo_def
    by (simp add: scoped_statement_up [OF scope toy_fault(3)] toy_fault tables sc dbind_def dreturn_def not_null_def Let_def row_insert_def free)
      (simp add: db_fault_def toy_entered_def toy_state_def sample_kdb_def)
  then show ?thesis using q by (auto simp: save_report_def dbind_def dreturn_def toy_diag_def)
qed

theorem report_stored_only_by_consent_witness:
  "\<exists>s' r. fst (report_diagnostic toy_diag sample_ctx toy_report (toy_state 0)) = s' \<and> rt_reports (db_tables s') = [r] \<and> dr_error_code r = ''***EMAIL***''"
proof -
  let ?p = "sanitize_report toy_sanitizer toy_report"
  let ?run = "report_diagnostic toy_diag sample_ctx toy_report (toy_state 0)"
  obtain s r where save: "save_report toy_diag ''u'' ?p (tx_scope sample_ctx) (toy_entered 2) = (s, Inr (Some r))" "\<not> db_fault s"
    using toy_save by blast
  have lengths: "check_report_lengths toy_report = Inr ()"
    by (simp add: check_report_lengths_def toy_report_def validate_string_length_def MAX_STRING_LEN_def MAX_DOM_SNAPSHOT_LEN_def)
  have start: "toy_state 0\<lparr>db_core := (db_core (toy_state 0))\<lparr>kt_drawn := Suc 0\<rparr>\<rparr> = toy_state 1" "kt_drawn (db_core (toy_state 0)) = 0"
    by (simp_all add: toy_state_def)
  have tx: "with_tenant_tx sample_env sample_ctx sample_token (save_report toy_diag ''u'' ?p) (toy_state 2)
      = (db_end_settings (toy_state 2) (db_answered s), Inr (Some r))"
    unfolding with_tenant_tx_entered [OF toy_tx_entered [of 2]] using save by simp
  have D: "dg_repo toy_diag = toy_repo" "rp_tx toy_repo = sample_env" "rp_uuid toy_repo n = ''u''" "dg_sanitizer toy_diag = toy_sanitizer" for n
    by (simp_all add: toy_diag_def toy_repo_def)
  have db: "context_db sample_ctx = Inr ()" by (simp add: context_db_def sample_ctx_def)
  have tok: "generate_token_or_500 toy_diag sample_ctx (toy_state 1) = (toy_state 2, Inr sample_token)"
    using toy_token [of 1] by (simp add: numeral_2_eq_2)
  have "in_tenant_tx toy_diag sample_ctx (save_report toy_diag ''u'' ?p) (toy_state 1)
      = (db_end_settings (toy_state 2) (db_answered s), Inr (Some r))"
    unfolding in_tenant_tx_def D tok using tx by (simp add: db)
  then have status: "resp_status (snd ?run) = 201"
    by (simp add: report_diagnostic_def lengths Let_def D start answer_def json_response_def)
  show ?thesis
    using report_stored_only_by_consent [OF surjective_pairing [of ?run]] status
    by (auto simp: toy_state_def sample_ddb_def opted_in_def D(4) toy_sanitize_text toy_report_def)
qed

end
