(* ===== verification/Idempotency_Listener.thy ===== *)
theory Idempotency_Listener
  imports Idempotency_Redis "HOL-Library.Multiset"
begin

text \<open>
  How requests that wait for an in-flight claim are woken (\<open>kernel-api/src/middleware.rs\<close>):
  \<open>register_waiter\<close> and the listener tasks of \<open>spawn_channel_listener\<close>, run concurrently.

  The map \<open>subscriptions\<close> is only changed under its lock, so that a critical section is one step.
  A request that registers is between two steps, \<open>register_begin\<close> and \<open>register_finish\<close>, while
  it awaits Redis; it may be dropped there. A task has a program counter at each of its awaits.
  \<open>pw_held\<close> are the \<open>Notify\<close> objects that a request still holds, that is, whose weak references upgrade;
  \<open>pw_enabled\<close> those whose \<open>notified()\<close> future is enabled, \<open>pw_permits\<close> those with a stored permit.
  \<open>notify_waiters\<close> wakes enabled futures only and stores no permit.
\<close>

section \<open>The state\<close>

datatype task_pc = TaskConnecting | TaskSubscribing | TaskStreaming | TaskClosing

record listener_task =
  lt_channel :: string
  lt_pc :: task_pc
  lt_inbox :: nat

record registration =
  rg_channel :: string
  rg_notify :: nat
  rg_should_spawn :: bool

record pubsub_world =
  pw_subscriptions :: "string \<rightharpoonup> channel_subscription_state"
  pw_notifies :: nat
  pw_registering :: "registration multiset"
  pw_tasks :: "listener_task multiset"
  pw_held :: "nat set"
  pw_permits :: "nat set"
  pw_enabled :: "nat set"
  pw_woken :: "nat set"

definition pubsub_start :: pubsub_world where
  "pubsub_start = \<lparr>pw_subscriptions = Map.empty, pw_notifies = 0, pw_registering = {#}, pw_tasks = {#},
     pw_held = {}, pw_permits = {}, pw_enabled = {}, pw_woken = {}\<rparr>"

section \<open>Registration\<close>

definition spawn_channel_listener :: "string \<Rightarrow> pubsub_world \<Rightarrow> pubsub_world" where
  "spawn_channel_listener channel s =
     s\<lparr>pw_tasks := add_mset \<lparr>lt_channel = channel, lt_pc = TaskConnecting, lt_inbox = 0\<rparr> (pw_tasks s)\<rparr>"

definition register_begin :: "string \<Rightarrow> pubsub_world \<Rightarrow> pubsub_world" where
  "register_begin channel s =
     (let notify = pw_notifies s;
          state = (case pw_subscriptions s channel of
                     Some st \<Rightarrow> st | None \<Rightarrow> \<lparr>cs_waiters = [], cs_running = False\<rparr>);
          should_spawn = (\<not> cs_running state);
          state' = \<lparr>cs_waiters = cs_waiters state @ [notify], cs_running = True\<rparr>
      in s\<lparr>pw_notifies := notify + 1, pw_held := insert notify (pw_held s),
           pw_subscriptions := (pw_subscriptions s)(channel \<mapsto> state'),
           pw_registering := add_mset \<lparr>rg_channel = channel, rg_notify = notify, rg_should_spawn = should_spawn\<rparr> (pw_registering s)\<rparr>)"

text \<open>\<open>res\<close> is what the GET of the claim's key returned.\<close>

definition register_finish :: "idem_codec \<Rightarrow> unit + string option \<Rightarrow> registration \<Rightarrow> pubsub_world \<Rightarrow> pubsub_world" where
  "register_finish C res rg s =
     (let should_notify = (case res of
                             Inr (Some v) \<Rightarrow> from_json C v \<noteq> None
                           | Inr None \<Rightarrow> True
                           | Inl _ \<Rightarrow> False);
          s = s\<lparr>pw_registering := pw_registering s - {#rg#}\<rparr>;
          s = (if should_notify then s\<lparr>pw_permits := insert (rg_notify rg) (pw_permits s)\<rparr> else s)
      in if rg_should_spawn rg then spawn_channel_listener (rg_channel rg) s else s)"

text \<open>The request is dropped while it awaits Redis: its \<open>Notify\<close> goes, and the rest is not run.\<close>

definition register_dropped :: "registration \<Rightarrow> pubsub_world \<Rightarrow> pubsub_world" where
  "register_dropped rg s =
     s\<lparr>pw_registering := pw_registering s - {#rg#}, pw_held := pw_held s - {rg_notify rg}\<rparr>"

text \<open>The request that got the \<open>Notify\<close> enables its future, and lets go of it when woken or timed out.\<close>

definition enable_notified :: "nat \<Rightarrow> pubsub_world \<Rightarrow> pubsub_world" where
  "enable_notified n s =
     (if n \<in> pw_permits s then s\<lparr>pw_permits := pw_permits s - {n}, pw_woken := insert n (pw_woken s)\<rparr>
      else s\<lparr>pw_enabled := insert n (pw_enabled s)\<rparr>)"

definition drop_notify :: "nat \<Rightarrow> pubsub_world \<Rightarrow> pubsub_world" where
  "drop_notify n s = s\<lparr>pw_held := pw_held s - {n}, pw_enabled := pw_enabled s - {n}\<rparr>"

section \<open>The listener task\<close>

definition notify_all :: "nat list \<Rightarrow> pubsub_world \<Rightarrow> pubsub_world" where
  "notify_all ns s = s\<lparr>pw_woken := pw_woken s \<union> (set ns \<inter> pw_enabled s), pw_enabled := pw_enabled s - set ns\<rparr>"

text \<open>TaskConnecting or subscribing failed.\<close>

definition listener_failed :: "string \<Rightarrow> pubsub_world \<Rightarrow> pubsub_world" where
  "listener_failed channel s =
     (case pw_subscriptions s channel of
        None \<Rightarrow> s
      | Some state \<Rightarrow>
          (case notify_waiters_and_prune (\<lambda>n. n \<in> pw_held s) (cs_waiters state) of
             (notified, kept, _) \<Rightarrow>
               (notify_all notified s)\<lparr>pw_subscriptions := (pw_subscriptions s)(channel \<mapsto> \<lparr>cs_waiters = kept, cs_running = False\<rparr>)\<rparr>))"

text \<open>A tick, and a message: whether the loop goes on.\<close>

definition listener_tick :: "string \<Rightarrow> pubsub_world \<Rightarrow> pubsub_world \<times> bool" where
  "listener_tick channel s =
     (case pw_subscriptions s channel of
        None \<Rightarrow> (s, False)
      | Some state \<Rightarrow>
          (case prune_waiters (\<lambda>n. n \<in> pw_held s) (cs_waiters state) of
             (kept, alive) \<Rightarrow>
               (s\<lparr>pw_subscriptions := (pw_subscriptions s)(channel \<mapsto> state\<lparr>cs_waiters := kept\<rparr>)\<rparr>, alive > 0)))"

definition listener_message :: "string \<Rightarrow> pubsub_world \<Rightarrow> pubsub_world \<times> bool" where
  "listener_message channel s =
     (case pw_subscriptions s channel of
        None \<Rightarrow> (s, False)
      | Some state \<Rightarrow>
          (case notify_waiters_and_prune (\<lambda>n. n \<in> pw_held s) (cs_waiters state) of
             (notified, kept, alive) \<Rightarrow>
               ((notify_all notified s)\<lparr>pw_subscriptions := (pw_subscriptions s)(channel \<mapsto> state\<lparr>cs_waiters := kept\<rparr>)\<rparr>, alive > 0)))"

text \<open>After the loop, and after UNSUBSCRIBE: the entry is removed, or the task is replaced.\<close>

definition listener_closed :: "string \<Rightarrow> pubsub_world \<Rightarrow> pubsub_world" where
  "listener_closed channel s =
     (case pw_subscriptions s channel of
        None \<Rightarrow> s
      | Some state \<Rightarrow>
          (case prune_waiters (\<lambda>n. n \<in> pw_held s) (cs_waiters state) of
             (kept, alive) \<Rightarrow>
               if alive = 0 then s\<lparr>pw_subscriptions := (pw_subscriptions s)(channel := None)\<rparr>
               else spawn_channel_listener channel
                 (s\<lparr>pw_subscriptions := (pw_subscriptions s)(channel \<mapsto> \<lparr>cs_waiters = kept, cs_running = True\<rparr>)\<rparr>)))"

text \<open>A PUBLISH reaches the tasks that are subscribed when it is made.\<close>

definition redis_publish :: "string \<Rightarrow> pubsub_world \<Rightarrow> pubsub_world" where
  "redis_publish channel s =
     s\<lparr>pw_tasks := image_mset (\<lambda>t. if lt_channel t = channel \<and> lt_pc t \<in> {TaskStreaming, TaskClosing} then t\<lparr>lt_inbox := lt_inbox t + 1\<rparr> else t) (pw_tasks s)\<rparr>"

text \<open>\<open>register_waiter\<close> has returned the \<open>Notify\<close>, and the request holds it.\<close>

definition returned :: "nat \<Rightarrow> pubsub_world \<Rightarrow> bool" where
  "returned n s \<longleftrightarrow> n \<in> pw_held s \<and> n \<notin> rg_notify ` set_mset (pw_registering s)"

text \<open>The loop of a task: one turn of it per step.\<close>

definition loop_turn :: "listener_task \<Rightarrow> listener_task multiset \<Rightarrow> pubsub_world \<times> bool \<Rightarrow> pubsub_world" where
  "loop_turn t others r = (fst r)\<lparr>pw_tasks := add_mset (t\<lparr>lt_pc := if snd r then TaskStreaming else TaskClosing\<rparr>) others\<rparr>"

inductive pubsub_step :: "idem_codec \<Rightarrow> pubsub_world \<Rightarrow> pubsub_world \<Rightarrow> bool" for C where
  Begin: "pubsub_step C s (register_begin channel s)"
| Finish: "rg \<in># pw_registering s \<Longrightarrow> pubsub_step C s (register_finish C res rg s)"
| Cancelled: "rg \<in># pw_registering s \<Longrightarrow> pubsub_step C s (register_dropped rg s)"
| Enable: "returned n s \<Longrightarrow> pubsub_step C s (enable_notified n s)"
| Drop: "returned n s \<Longrightarrow> pubsub_step C s (drop_notify n s)"
| Publish: "pubsub_step C s (redis_publish channel s)"
| Connected: "pw_tasks s = add_mset t ts \<Longrightarrow> lt_pc t = TaskConnecting \<Longrightarrow>
    pubsub_step C s (s\<lparr>pw_tasks := add_mset (t\<lparr>lt_pc := TaskSubscribing\<rparr>) ts\<rparr>)"
| Subscribed: "pw_tasks s = add_mset t ts \<Longrightarrow> lt_pc t = TaskSubscribing \<Longrightarrow>
    pubsub_step C s (s\<lparr>pw_tasks := add_mset (t\<lparr>lt_pc := TaskStreaming\<rparr>) ts\<rparr>)"
| Failed: "pw_tasks s = add_mset t ts \<Longrightarrow> lt_pc t \<in> {TaskConnecting, TaskSubscribing} \<Longrightarrow>
    pubsub_step C s ((listener_failed (lt_channel t) s)\<lparr>pw_tasks := ts\<rparr>)"
| Tick: "pw_tasks s = add_mset t ts \<Longrightarrow> lt_pc t = TaskStreaming \<Longrightarrow>
    pubsub_step C s (loop_turn t ts (listener_tick (lt_channel t) s))"
| Message: "pw_tasks s = add_mset t ts \<Longrightarrow> lt_pc t = TaskStreaming \<Longrightarrow> 0 < lt_inbox t \<Longrightarrow>
    pubsub_step C s (loop_turn (t\<lparr>lt_inbox := lt_inbox t - 1\<rparr>) ts (listener_message (lt_channel t) s))"
| Ended: "pw_tasks s = add_mset t ts \<Longrightarrow> lt_pc t = TaskStreaming \<Longrightarrow> pubsub_step C s (loop_turn t ts (s, False))"
| Closed: "pw_tasks s = add_mset t ts \<Longrightarrow> lt_pc t = TaskClosing \<Longrightarrow>
    pubsub_step C s (listener_closed (lt_channel t) (s\<lparr>pw_tasks := ts\<rparr>))"

text \<open>
  Without another step between its two, registration is \<open>register_waiter\<close> of theory \<open>Idempotency_Redis\<close>.
\<close>

definition pubsub_of :: "'s redis_world \<Rightarrow> pubsub_world \<Rightarrow> pubsub_world" where
  "pubsub_of w s = s\<lparr>pw_subscriptions := rw_subscriptions w, pw_notifies := rw_notifies w, pw_permits := rw_permits w\<rparr>"

lemma register_waiter_steps:
  assumes "register_waiter R C key ch w = (w', n)" and "pw_registering s = {#}"
  shows "\<exists>rg s'. pw_registering (register_begin ch (pubsub_of w s)) = {#rg#} \<and> rg_notify rg = n
    \<and> s' = register_finish C (snd (conn_get R key w)) rg (register_begin ch (pubsub_of w s))
    \<and> pw_subscriptions s' = rw_subscriptions w' \<and> pw_notifies s' = rw_notifies w' \<and> pw_permits s' = rw_permits w'
    \<and> pw_tasks s' = pw_tasks s + mset (map (\<lambda>c. \<lparr>lt_channel = c, lt_pc = TaskConnecting, lt_inbox = 0\<rparr>) (drop (length (rw_spawned w)) (rw_spawned w')))"
proof -
  have get: "conn_get R key (w\<lparr>rw_notifies := k, rw_subscriptions := f\<rparr>)
      = ((fst (conn_get R key w))\<lparr>rw_notifies := k, rw_subscriptions := f\<rparr>, snd (conn_get R key w))" for k f
    by (simp add: conn_get_def take_fault_def split: bool.split)
  obtain w2 res where w2: "conn_get R key w = (w2, res)" by (cases "conn_get R key w")
  then have "rw_permits w2 = rw_permits w" "rw_spawned w2 = rw_spawned w"
    by (auto simp: conn_get_def take_fault_def split: bool.splits)
  note w2' = this
  obtain st where st: "(case rw_subscriptions w ch of Some st \<Rightarrow> st | None \<Rightarrow> \<lparr>cs_waiters = [], cs_running = False\<rparr>) = st" by blast
  obtain b where b: "(case res of Inr (Some v) \<Rightarrow> from_json C v \<noteq> None | Inr None \<Rightarrow> True | Inl _ \<Rightarrow> False) = b" by blast
  let ?rg = "\<lparr>rg_channel = ch, rg_notify = rw_notifies w, rg_should_spawn = (\<not> cs_running st)\<rparr>"
  have "pw_registering (register_begin ch (pubsub_of w s)) = {#?rg#}" "rw_notifies w = n"
    using assms by (simp_all add: register_begin_def register_waiter_def pubsub_of_def Let_def st split: prod.splits)
  moreover have "w' = (let w3 = (if b then w2\<lparr>rw_notifies := rw_notifies w + 1, rw_subscriptions := (rw_subscriptions w)(ch \<mapsto> \<lparr>cs_waiters = cs_waiters st @ [rw_notifies w], cs_running = True\<rparr>),
        rw_permits := insert (rw_notifies w) (rw_permits w)\<rparr> else w2\<lparr>rw_notifies := rw_notifies w + 1, rw_subscriptions := (rw_subscriptions w)(ch \<mapsto> \<lparr>cs_waiters = cs_waiters st @ [rw_notifies w], cs_running = True\<rparr>)\<rparr>)
      in if cs_running st then w3 else w3\<lparr>rw_spawned := rw_spawned w @ [ch]\<rparr>)"
    using assms(1) w2' by (auto simp: register_waiter_def Let_def get w2 st b split: if_splits)
  ultimately show ?thesis using w2' assms(2)
    by (intro exI [of _ ?rg] exI [of _ "register_finish C res ?rg (register_begin ch (pubsub_of w s))"] conjI; cases b; cases "cs_running st") (simp_all add: register_finish_def register_begin_def pubsub_of_def spawn_channel_listener_def
        Let_def w2 st b)
qed

section \<open>One listener per channel\<close>

text \<open>The tasks of a channel, and the requests that are about to start one.\<close>

definition listeners_of :: "string \<Rightarrow> pubsub_world \<Rightarrow> nat" where
  "listeners_of channel s =
     size (filter_mset (\<lambda>t. lt_channel t = channel) (pw_tasks s))
     + size (filter_mset (\<lambda>rg. rg_channel rg = channel \<and> rg_should_spawn rg) (pw_registering s))"

definition marked_running :: "string \<Rightarrow> pubsub_world \<Rightarrow> bool" where
  "marked_running channel s \<longleftrightarrow> (\<exists>st. pw_subscriptions s channel = Some st \<and> cs_running st)"

definition served :: "string \<Rightarrow> pubsub_world \<Rightarrow> bool" where
  "served channel s \<longleftrightarrow> listeners_of channel s = (if marked_running channel s then 1 else 0)"

text \<open>A channel that is marked as running although nobody listens to it.\<close>

definition stranded :: "string \<Rightarrow> pubsub_world \<Rightarrow> bool" where
  "stranded channel s \<longleftrightarrow> marked_running channel s \<and> listeners_of channel s = 0"

definition one_listener :: "pubsub_world \<Rightarrow> bool" where
  "one_listener s \<longleftrightarrow> (\<forall>channel. served channel s \<or> stranded channel s)"

lemma register_begin_simps [simp]:
  "listeners_of ch (register_begin c s) = listeners_of ch s + (if ch = c \<and> \<not> marked_running c s then 1 else 0)"
  "marked_running ch (register_begin c s) \<longleftrightarrow> ch = c \<or> marked_running ch s"
  by (auto simp: register_begin_def listeners_of_def marked_running_def Let_def split: option.split)

lemma register_finish_simps:
  assumes "rg \<in># pw_registering s"
  shows "listeners_of ch (register_finish C res rg s) = listeners_of ch s"
    and "marked_running ch (register_finish C res rg s) \<longleftrightarrow> marked_running ch s"
proof -
  obtain M where "pw_registering s = add_mset rg M" using assms by (metis insert_DiffM)
  then show "listeners_of ch (register_finish C res rg s) = listeners_of ch s"
    by (simp add: register_finish_def spawn_channel_listener_def listeners_of_def Let_def)
  show "marked_running ch (register_finish C res rg s) \<longleftrightarrow> marked_running ch s"
    by (simp add: register_finish_def spawn_channel_listener_def marked_running_def Let_def)
qed

lemma register_dropped_simps:
  assumes "rg \<in># pw_registering s"
  shows "listeners_of ch s = listeners_of ch (register_dropped rg s) + (if rg_channel rg = ch \<and> rg_should_spawn rg then 1 else 0)"
    and "marked_running ch (register_dropped rg s) \<longleftrightarrow> marked_running ch s"
proof -
  obtain M where "pw_registering s = add_mset rg M" using assms by (metis insert_DiffM)
  then show "listeners_of ch s = listeners_of ch (register_dropped rg s) + (if rg_channel rg = ch \<and> rg_should_spawn rg then 1 else 0)"
    by (simp add: register_dropped_def listeners_of_def)
qed (simp add: register_dropped_def marked_running_def)

lemma waiting_simps [simp]:
  "listeners_of ch (enable_notified n s) = listeners_of ch s" "marked_running ch (enable_notified n s) \<longleftrightarrow> marked_running ch s"
  "listeners_of ch (drop_notify n s) = listeners_of ch s" "marked_running ch (drop_notify n s) \<longleftrightarrow> marked_running ch s"
  by (simp_all add: enable_notified_def drop_notify_def listeners_of_def marked_running_def)

lemma redis_publish_simps [simp]:
  "listeners_of ch (redis_publish c s) = listeners_of ch s" "marked_running ch (redis_publish c s) \<longleftrightarrow> marked_running ch s"
proof -
  have "filter_mset (\<lambda>t. lt_channel t = ch) (image_mset (\<lambda>t. if P t then t\<lparr>lt_inbox := lt_inbox t + 1\<rparr> else t) M)
    = image_mset (\<lambda>t. if P t then t\<lparr>lt_inbox := lt_inbox t + 1\<rparr> else t) (filter_mset (\<lambda>t. lt_channel t = ch) M)"
    for P and M :: "listener_task multiset" by (induction M) auto
  then show "listeners_of ch (redis_publish c s) = listeners_of ch s" by (simp add: redis_publish_def listeners_of_def)
qed (simp add: redis_publish_def marked_running_def)

text \<open>What the critical sections of a task leave of the other fields.\<close>

lemma listener_sections [simp]:
  "pw_registering (listener_failed c s) = pw_registering s" "pw_tasks (fst (listener_tick c s)) = pw_tasks s"
  "pw_registering (fst (listener_tick c s)) = pw_registering s" "pw_registering (fst (listener_message c s)) = pw_registering s"
  "marked_running ch (fst (listener_tick c s)) \<longleftrightarrow> marked_running ch s"
  "marked_running ch (fst (listener_message c s)) \<longleftrightarrow> marked_running ch s"
  "marked_running ch (listener_failed c s) \<longleftrightarrow> ch \<noteq> c \<and> marked_running ch s"
  by (auto simp: listener_failed_def listener_tick_def listener_message_def notify_all_def notify_waiters_and_prune_def prune_waiters_def
      marked_running_def Let_def split: option.split)

lemma marked_running_tasks [simp]: "marked_running ch (s\<lparr>pw_tasks := ts\<rparr>) = marked_running ch s"
  by (simp add: marked_running_def)

lemma loop_turn_simps:
  assumes "pw_tasks s = add_mset t ts" "lt_channel t' = lt_channel t" "pw_registering (fst r) = pw_registering s"
  shows "listeners_of ch (loop_turn t' ts r) = listeners_of ch s" "marked_running ch (loop_turn t' ts r) = marked_running ch (fst r)"
  using assms by (simp_all add: loop_turn_def listeners_of_def)

lemma task_moves:
  "pw_tasks s = add_mset t ts \<Longrightarrow> listeners_of ch (s\<lparr>pw_tasks := add_mset (t\<lparr>lt_pc := pc\<rparr>) ts\<rparr>) = listeners_of ch s"
  by (simp add: listeners_of_def)

lemma listener_closed_simps:
  assumes "pw_tasks s = add_mset t ts" "lt_channel t = c" "marked_running c s" "listeners_of c s = 1"
  shows "listeners_of ch (listener_closed c (s\<lparr>pw_tasks := ts\<rparr>)) = (if ch = c then (if marked_running c (listener_closed c (s\<lparr>pw_tasks := ts\<rparr>)) then 1 else 0) else listeners_of ch s)"
    and "ch \<noteq> c \<Longrightarrow> marked_running ch (listener_closed c (s\<lparr>pw_tasks := ts\<rparr>)) = marked_running ch s"
  using assms by (auto simp: listener_closed_def prune_waiters_def spawn_channel_listener_def listeners_of_def marked_running_def Let_def
      split: option.split)

lemma listeners_of_task: "t \<in># pw_tasks s \<Longrightarrow> 0 < listeners_of (lt_channel t) s"
  by (auto simp: listeners_of_def dest!: multi_member_split)

lemma task_served: "one_listener s \<Longrightarrow> t \<in># pw_tasks s \<Longrightarrow> marked_running (lt_channel t) s \<and> listeners_of (lt_channel t) s = 1"
  using listeners_of_task [of t s] by (auto simp: one_listener_def served_def stranded_def split: if_splits dest!: spec [of _ "lt_channel t"])

text \<open>Only the drop of the request that is to start it takes a channel's listener away.\<close>

lemma pubsub_step_served:
  assumes "pubsub_step C s s'" and "one_listener s" and "served ch s"
  shows "served ch s' \<or> stranded ch s' \<and> (\<exists>rg \<in># pw_registering s. rg_channel rg = ch \<and> rg_should_spawn rg \<and> s' = register_dropped rg s)"
  using assms(1)
proof cases
  case (Cancelled rg)
  with register_dropped_simps [OF Cancelled(2), of ch] assms(3) show ?thesis
    by (auto simp: served_def stranded_def split: if_splits)
next
  case (Closed t ts)
  with assms(2) have t: "marked_running (lt_channel t) s" "listeners_of (lt_channel t) s = 1" using task_served by force+
  with listener_closed_simps [OF Closed(2) refl this] assms(3) show ?thesis
    unfolding Closed(1) served_def by auto
next
  case (Failed t ts)
  with assms(2) have "marked_running (lt_channel t) s" "listeners_of (lt_channel t) s = 1" using task_served by force+
  moreover have "listeners_of ch s = listeners_of ch s' + (if ch = lt_channel t then 1 else 0)"
    using Failed by (simp add: listeners_of_def)
  moreover have "marked_running ch s' \<longleftrightarrow> ch \<noteq> lt_channel t \<and> marked_running ch s" by (simp add: Failed(1))
  ultimately have "served ch s'" using assms(3) by (cases "ch = lt_channel t"; cases "marked_running ch s") (simp_all add: served_def)
  then show ?thesis ..
qed (use assms(3) in \<open>simp_all add: served_def register_finish_simps loop_turn_simps task_moves\<close>)

lemma stranded_step:
  assumes "pubsub_step C s s'" and "stranded ch s"
  shows "stranded ch s'"
proof -
  have other: "lt_channel t \<noteq> ch" if "t \<in># pw_tasks s" for t
    using listeners_of_task [OF that] assms(2) by (auto simp: stranded_def)
  from assms(1) show ?thesis
  proof cases
    case (Cancelled rg)
    with assms(2) register_dropped_simps [OF Cancelled(2), of ch] show ?thesis by (simp add: stranded_def)
  next
    case (Closed t ts)
    with other [of t] assms(2) show ?thesis
      by (auto simp: stranded_def listener_closed_def prune_waiters_def spawn_channel_listener_def listeners_of_def marked_running_def
          Let_def split: option.split)
  next
    case (Failed t ts)
    with other [of t] assms(2) show ?thesis by (simp add: stranded_def listeners_of_def)
  qed (use assms(2) in \<open>auto simp: stranded_def register_finish_simps loop_turn_simps task_moves\<close>)
qed

lemma stranded_steps: "(pubsub_step C)\<^sup>*\<^sup>* s s' \<Longrightarrow> stranded ch s \<Longrightarrow> stranded ch s'"
  by (induction rule: rtranclp_induct) (auto intro: stranded_step)

lemma reachable_one_listener: "(pubsub_step C)\<^sup>*\<^sup>* pubsub_start s \<Longrightarrow> one_listener s"
proof (induction rule: rtranclp_induct)
  case base
  show ?case by (simp add: one_listener_def served_def pubsub_start_def listeners_of_def marked_running_def)
next
  case (step s s')
  have "served ch s' \<or> stranded ch s'" for ch
    using pubsub_step_served [OF step.hyps(2) step.IH, of ch] stranded_step [OF step.hyps(2), of ch] step.IH
    unfolding one_listener_def by blast
  then show ?case by (simp add: one_listener_def)
qed

lemma drop_strands:
  assumes "one_listener s" and "rg \<in># pw_registering s" "rg_should_spawn rg"
  shows "stranded (rg_channel rg) (register_dropped rg s)"
proof -
  have "0 < listeners_of (rg_channel rg) s" using assms(2,3) by (auto simp: listeners_of_def dest!: multi_member_split)
  then have "listeners_of (rg_channel rg) s = 1" "marked_running (rg_channel rg) s"
    using assms(1) [unfolded one_listener_def, rule_format, of "rg_channel rg"]
    by (auto simp: served_def stranded_def split: if_splits)
  then show ?thesis using register_dropped_simps [OF assms(2), of "rg_channel rg"] assms(3) by (simp add: stranded_def)
qed

lemma stranded_by_drop:
  assumes "(pubsub_step C)\<^sup>*\<^sup>* pubsub_start s" and "stranded ch s"
  shows "\<exists>s1 rg. (pubsub_step C)\<^sup>*\<^sup>* pubsub_start s1 \<and> rg \<in># pw_registering s1 \<and> rg_channel rg = ch \<and> rg_should_spawn rg
    \<and> (pubsub_step C)\<^sup>*\<^sup>* (register_dropped rg s1) s"
  using assms
proof (induction rule: rtranclp_induct)
  case base
  then show ?case by (simp add: stranded_def pubsub_start_def marked_running_def)
next
  case (step s s')
  show ?case
  proof (cases "stranded ch s")
    case True
    then show ?thesis using step.IH step.hyps(2) by (meson rtranclp.rtrancl_into_rtrancl)
  next
    case False
    then have "served ch s" using reachable_one_listener [OF step.hyps(1)] by (auto simp: one_listener_def)
    moreover have "\<not> served ch s'" using step.prems by (simp add: served_def stranded_def)
    ultimately show ?thesis
      using pubsub_step_served [OF step.hyps(2) reachable_one_listener [OF step.hyps(1)]] step.hyps(1) by blast
  qed
qed

text \<open>
  C33 (invariant): Whatever requests, tasks and Redis do, however they interleave, and whichever requests are
  dropped in the middle: a channel never has two listeners, counting the request that is about to
  start one, and has none unless its entry is marked as running. A channel that is marked as
  running has its listener, except exactly in the one case that a request which was to start it
  was dropped while it registered.
\<close>

theorem one_listener_per_channel:
  assumes "(pubsub_step C)\<^sup>*\<^sup>* pubsub_start s"
  shows "listeners_of channel s \<le> 1 \<and> (\<not> marked_running channel s \<longrightarrow> listeners_of channel s = 0)
    \<and> (marked_running channel s \<and> listeners_of channel s = 0 \<longleftrightarrow>
        (\<exists>s1 rg. (pubsub_step C)\<^sup>*\<^sup>* pubsub_start s1 \<and> rg \<in># pw_registering s1 \<and> rg_channel rg = channel \<and> rg_should_spawn rg
           \<and> (pubsub_step C)\<^sup>*\<^sup>* (register_dropped rg s1) s))"
proof -
  have "served channel s \<or> stranded channel s" using reachable_one_listener [OF assms] by (simp add: one_listener_def)
  moreover have "stranded channel s \<longleftrightarrow> (\<exists>s1 rg. (pubsub_step C)\<^sup>*\<^sup>* pubsub_start s1 \<and> rg \<in># pw_registering s1
      \<and> rg_channel rg = channel \<and> rg_should_spawn rg \<and> (pubsub_step C)\<^sup>*\<^sup>* (register_dropped rg s1) s)"
    using stranded_by_drop [OF assms] stranded_steps [OF _ drop_strands [OF reachable_one_listener]] by blast
  ultimately show ?thesis by (auto simp: served_def stranded_def split: if_splits)
qed

definition sample_registration :: registration where
  "sample_registration = \<lparr>rg_channel = ''c'', rg_notify = 0, rg_should_spawn = True\<rparr>"

lemma sample_begin: "pw_registering (register_begin ''c'' pubsub_start) = {#sample_registration#}"
  by (simp add: register_begin_def pubsub_start_def sample_registration_def)

text \<open>Two requests wait on one channel; of another pair the first one, which was to start the listener, is dropped.\<close>

theorem one_listener_per_channel_witness:
  "listeners_of ''c'' (register_begin ''c'' (register_begin ''c'' pubsub_start)) = 1
   \<and> listeners_of ''d'' (register_begin ''c'' (register_begin ''c'' pubsub_start)) = 0
   \<and> listeners_of ''c'' (register_begin ''c'' (register_dropped sample_registration (register_begin ''c'' pubsub_start))) = 0"
proof -
  let ?s1 = "register_begin ''c'' pubsub_start"
  let ?s = "register_begin ''c'' ?s1" and ?s' = "register_begin ''c'' (register_dropped sample_registration ?s1)"
  have steps: "(pubsub_step numbering_codec)\<^sup>*\<^sup>* pubsub_start ?s1" "(pubsub_step numbering_codec)\<^sup>*\<^sup>* ?s1 ?s"
    by (blast intro: Begin)+
  have drop: "sample_registration \<in># pw_registering ?s1" by (simp add: sample_begin)
  then have "(pubsub_step numbering_codec)\<^sup>*\<^sup>* ?s1 (register_dropped sample_registration ?s1)" by (blast intro: Cancelled)
  moreover have end': "(pubsub_step numbering_codec)\<^sup>*\<^sup>* (register_dropped sample_registration ?s1) ?s'" by (blast intro: Begin)
  ultimately have s': "(pubsub_step numbering_codec)\<^sup>*\<^sup>* pubsub_start ?s'" using steps(1) by (meson rtranclp_trans)
  have s: "(pubsub_step numbering_codec)\<^sup>*\<^sup>* pubsub_start ?s" using steps by (rule rtranclp_trans)
  have "0 < listeners_of ''c'' ?s"
    by (simp add: listeners_of_def register_begin_def pubsub_start_def)
  moreover have "\<not> marked_running ''d'' ?s" by (simp add: marked_running_def register_begin_def pubsub_start_def)
  moreover have "listeners_of ''c'' ?s' = 0"
    using one_listener_per_channel [OF s', of "''c''"] steps(1) drop end' by (force simp: sample_registration_def)
  ultimately show ?thesis using one_listener_per_channel [OF s, of "''c''"] one_listener_per_channel [OF s, of "''d''"] by linarith
qed

section \<open>Dropped requests and lost messages\<close>

text \<open>
  C34 (error): When the request that is to start a channel's listener is dropped while it awaits Redis, as
  happens when its client disconnects, the channel is lost for good: its entry stays marked as
  running, no task ever serves it, and no later request starts one, so that nobody who waits on the
  channel is woken by a message again.
\<close>

theorem dropped_registration_strands_channel:
  assumes "(pubsub_step C)\<^sup>*\<^sup>* pubsub_start s" and "rg \<in># pw_registering s" "rg_should_spawn rg"
    and "(pubsub_step C)\<^sup>*\<^sup>* (register_dropped rg s) s'"
  shows "marked_running (rg_channel rg) s' \<and> (\<forall>t \<in># pw_tasks s'. lt_channel t \<noteq> rg_channel rg)
    \<and> (\<forall>r \<in># pw_registering s'. rg_channel r = rg_channel rg \<longrightarrow> \<not> rg_should_spawn r)"
proof -
  have "stranded (rg_channel rg) s'"
    using stranded_steps [OF assms(4) drop_strands [OF reachable_one_listener [OF assms(1)] assms(2,3)]] .
  then show ?thesis by (auto simp: stranded_def listeners_of_def filter_mset_eq_conv dest!: multi_member_split)
qed

theorem dropped_registration_strands_channel_witness:
  "\<exists>s'. s' = register_begin ''c'' (register_dropped sample_registration (register_begin ''c'' pubsub_start))
     \<and> marked_running ''c'' s' \<and> filter_mset (\<lambda>t. lt_channel t = ''c'') (pw_tasks s') = {#}
     \<and> size (pw_registering s') = 1"
proof -
  let ?s' = "register_begin ''c'' (register_dropped sample_registration (register_begin ''c'' pubsub_start))"
  have rg: "sample_registration \<in># pw_registering (register_begin ''c'' pubsub_start)" "rg_should_spawn sample_registration"
    "rg_channel sample_registration = ''c''" by (simp add: sample_begin) (simp_all add: sample_registration_def)
  have start: "(pubsub_step numbering_codec)\<^sup>*\<^sup>* pubsub_start (register_begin ''c'' pubsub_start)" by (blast intro: Begin)
  have "(pubsub_step numbering_codec)\<^sup>*\<^sup>* (register_dropped sample_registration (register_begin ''c'' pubsub_start)) ?s'"
    by (blast intro: Begin)
  from dropped_registration_strands_channel [OF start rg(1,2) this]
  have "marked_running ''c'' ?s' \<and> (\<forall>t \<in># pw_tasks ?s'. lt_channel t \<noteq> ''c'')" unfolding rg(3) by blast
  moreover have "size (pw_registering ?s') = 1"
    by (simp add: register_begin_def register_dropped_def pubsub_start_def sample_registration_def)
  ultimately show ?thesis by (simp add: filter_mset_eq_conv)
qed

text \<open>
  The key is read before the listener subscribes, so a completion that is published in between is lost:
  while the task of a channel connects or subscribes, a PUBLISH changes nothing, and the waiters
  stay as they are until another message comes or their wait times out.
\<close>

theorem publish_before_subscription_is_lost:
  assumes "(pubsub_step C)\<^sup>*\<^sup>* pubsub_start s" and "t \<in># pw_tasks s" "lt_pc t \<in> {TaskConnecting, TaskSubscribing}"
  shows "redis_publish (lt_channel t) s = s"
proof -
  obtain ts where ts: "pw_tasks s = add_mset t ts" using assms(2) by (blast dest: multi_member_split)
  have one: "listeners_of (lt_channel t) s = 1" using task_served [OF reachable_one_listener [OF assms(1)] assms(2)] by simp
  have "lt_channel u \<noteq> lt_channel t" if "u \<in># ts" for u
    using one ts that by (auto simp: listeners_of_def split: if_splits dest!: multi_member_split)
  then have "image_mset (\<lambda>u. if lt_channel u = lt_channel t \<and> lt_pc u \<in> {TaskStreaming, TaskClosing} then u\<lparr>lt_inbox := lt_inbox u + 1\<rparr> else u) ts
      = image_mset (\<lambda>u. u) ts" by (intro image_mset_cong) auto
  with ts assms(3) show ?thesis by (auto simp: redis_publish_def)
qed

text \<open>
  A request registers while the claim is in flight and enables its future; the owner completes and
  publishes; only then the task connects and subscribes.
\<close>

definition lost_wakeup :: pubsub_world where
  "lost_wakeup = (enable_notified 0 (register_finish (numbering_codec\<lparr>from_json := \<lambda>_. None\<rparr>) (Inr (Some ''IN_FLIGHT|u|h|1'')) sample_registration
     (register_begin ''c'' pubsub_start)))"

lemma lost_wakeup_state:
  "lost_wakeup = \<lparr>pw_subscriptions = [''c'' \<mapsto> \<lparr>cs_waiters = [0], cs_running = True\<rparr>], pw_notifies = 1, pw_registering = {#},
     pw_tasks = {#\<lparr>lt_channel = ''c'', lt_pc = TaskConnecting, lt_inbox = 0\<rparr>#}, pw_held = {0}, pw_permits = {}, pw_enabled = {0}, pw_woken = {}\<rparr>"
  by (simp add: lost_wakeup_def enable_notified_def register_finish_def register_begin_def pubsub_start_def sample_registration_def
      spawn_channel_listener_def numbering_codec_def Let_def)

theorem publish_before_subscription_is_lost_witness:
  "redis_publish ''c'' lost_wakeup = lost_wakeup \<and> 0 \<in> pw_enabled lost_wakeup \<and> pw_woken lost_wakeup = {}"
proof -
  let ?C = "numbering_codec\<lparr>from_json := \<lambda>_. None\<rparr>" and ?s = "register_begin ''c'' pubsub_start"
  let ?s' = "register_finish ?C (Inr (Some ''IN_FLIGHT|u|h|1'')) sample_registration ?s"
  have "pubsub_step ?C pubsub_start ?s" by (rule Begin)
  moreover have "pubsub_step ?C ?s ?s'" by (rule Finish) (simp add: sample_begin)
  moreover have "pubsub_step ?C ?s' lost_wakeup" unfolding lost_wakeup_def
    by (rule Enable) (simp add: returned_def register_finish_def register_begin_def pubsub_start_def sample_registration_def
        spawn_channel_listener_def Let_def)
  ultimately have "(pubsub_step ?C)\<^sup>*\<^sup>* pubsub_start lost_wakeup"
    by (intro rtranclp.rtrancl_into_rtrancl [OF rtranclp.rtrancl_into_rtrancl [OF r_into_rtranclp]])
  from publish_before_subscription_is_lost [OF this, of "\<lparr>lt_channel = ''c'', lt_pc = TaskConnecting, lt_inbox = 0\<rparr>"]
  show ?thesis by (simp add: lost_wakeup_state)
qed

text \<open>A message that the task does receive wakes every enabled future on the channel.\<close>

lemma message_wakes_all:
  "pw_subscriptions s ch = Some st \<Longrightarrow> set (cs_waiters st) \<inter> pw_held s \<inter> pw_enabled s \<subseteq> pw_woken (fst (listener_message ch s))"
  by (auto simp: listener_message_def notify_waiters_and_prune_def notify_all_def Let_def)

end
