(* ===== verification/Middleware_Config.thy ===== *)
theory Middleware_Config
  imports Quota Idempotency_Middleware
begin

text \<open>
  How the middleware is configured and its stores are chosen (\<open>kernel-api/src/middleware.rs\<close>):
  \<open>MiddlewareConfig::default\<close> with its readers of environment variables, \<open>MiddlewareState::new_with_redis\<close>
  and the functions that keep credentials out of its messages.

  The environment is a map; opening a Redis client and connecting it are arguments. \<open>str::parse::<f64>\<close>
  is written out: a literal has its exact rational value, as all floating-point numbers in theory
  \<open>Quota\<close>, but literals beyond the range of the type become infinite or zero.
\<close>

section \<open>Floating-point literals\<close>

definition pow10 :: "int \<Rightarrow> rat" where
  "pow10 e = (if e < 0 then 1 / 10 ^ nat (- e) else 10 ^ nat e)"

text \<open>Half a unit beyond the largest finite number a literal rounds to infinity, up to half the smallest to zero.\<close>

definition f64_of_rat :: "rat \<Rightarrow> f64" where
  "f64_of_rat r =
     (if \<bar>r\<bar> \<ge> 2 ^ 1024 - 2 ^ 970 then NonFin else if \<bar>r\<bar> \<le> 1 / 2 ^ 1075 then Fin 0 else Fin r)"

fun split_sign :: "string \<Rightarrow> bool \<times> string" where
  "split_sign (c # cs) = (if c = CHR ''-'' then (True, cs) else if c = CHR ''+'' then (False, cs) else (False, c # cs))"
| "split_sign [] = (False, [])"

definition parse_exponent :: "string \<Rightarrow> int option" where
  "parse_exponent s =
     (case split_sign s of (neg, ds) \<Rightarrow>
        if ds \<noteq> [] \<and> list_all is_ascii_digit ds then Some (if neg then - int (digits_value ds) else int (digits_value ds)) else None)"

definition parse_mantissa :: "string \<Rightarrow> (nat \<times> nat) option" where
  "parse_mantissa s =
     (case (case split_once_char (CHR ''.'') s of Some p \<Rightarrow> p | None \<Rightarrow> (s, [])) of (whole, places) \<Rightarrow>
        if whole @ places \<noteq> [] \<and> list_all is_ascii_digit (whole @ places)
        then Some (digits_value (whole @ places), length places) else None)"

definition parse_number :: "string \<Rightarrow> rat option" where
  "parse_number s =
     (case (case split_once_char (CHR ''e'') (map to_ascii_lower s) of Some (m, e) \<Rightarrow> (m, parse_exponent e) | None \<Rightarrow> (s, Some 0)) of
        (m, Some e) \<Rightarrow> map_option (\<lambda>(n, k). of_nat n * pow10 (e - int k)) (parse_mantissa m)
      | (_, None) \<Rightarrow> None)"

definition parse_f64 :: "string \<Rightarrow> f64 option" where
  "parse_f64 s =
     (case split_sign s of (neg, rest) \<Rightarrow>
        if map to_ascii_lower rest \<in> {''inf'', ''infinity'', ''nan''} then Some NonFin
        else map_option (\<lambda>r. f64_of_rat (if neg then - r else r)) (parse_number rest))"

section \<open>Configuration from the environment\<close>

type_synonym process_env = "string \<Rightarrow> string option"

definition get_env_duration :: "process_env \<Rightarrow> string \<Rightarrow> nat \<Rightarrow> duration" where
  "get_env_duration env key default_secs =
     (case env key of
        Some v \<Rightarrow> (case parse_u64 v of Some s \<Rightarrow> unat s * 1000 | None \<Rightarrow> default_secs * 1000)
      | None \<Rightarrow> default_secs * 1000)"

definition get_env_usize :: "process_env \<Rightarrow> string \<Rightarrow> nat \<Rightarrow> nat" where
  "get_env_usize env key default_val =
     (case env key of
        Some v \<Rightarrow> (case parse_u64 v of Some s \<Rightarrow> unat s | None \<Rightarrow> default_val)
      | None \<Rightarrow> default_val)"

definition get_env_string :: "process_env \<Rightarrow> string \<Rightarrow> string \<Rightarrow> string" where
  "get_env_string env key default_val = (case env key of Some v \<Rightarrow> v | None \<Rightarrow> default_val)"

definition get_env_bool :: "process_env \<Rightarrow> string \<Rightarrow> bool \<Rightarrow> bool" where
  "get_env_bool env key default_val =
     (case env key of
        Some v \<Rightarrow>
          (let s = map to_ascii_lower (trim v)
           in if s \<in> {''1'', ''true'', ''yes'', ''on''} then True
              else if s \<in> {''0'', ''false'', ''no'', ''off''} then False
              else default_val)
      | None \<Rightarrow> default_val)"

definition get_env_f64 :: "process_env \<Rightarrow> string \<Rightarrow> rat \<Rightarrow> f64" where
  "get_env_f64 env key default_val =
     (case env key of
        Some v \<Rightarrow> (case parse_f64 v of
                     Some s \<Rightarrow> if positive_finite s then s else Fin default_val
                   | None \<Rightarrow> Fin default_val)
      | None \<Rightarrow> Fin default_val)"

record middleware_config =
  mc_idempotency_ttl :: duration
  mc_action_ttl :: duration
  mc_max_body_size :: nat
  mc_max_replay_body_size :: nat
  mc_inflight_wait_timeout :: duration
  mc_redis_url :: string
  mc_require_redis :: bool
  mc_quota :: quota_config

text \<open>The four variables of a layer, with their defaults.\<close>

definition layer_from_env :: "process_env \<Rightarrow> string \<Rightarrow> rat \<Rightarrow> rat \<Rightarrow> rat \<Rightarrow> quota_layer_config" where
  "layer_from_env env name rate capacity cost =
     \<lparr>ql_rate = get_env_f64 env (''QUOTA_'' @ name @ ''_RATE'') rate,
      ql_capacity = get_env_f64 env (''QUOTA_'' @ name @ ''_CAPACITY'') capacity,
      ql_cost = get_env_f64 env (''QUOTA_'' @ name @ ''_COST'') cost,
      ql_backoff_s = get_env_f64 env (''QUOTA_'' @ name @ ''_BACKOFF_S'') 30\<rparr>"

definition MiddlewareConfig_default :: "process_env \<Rightarrow> middleware_config" where
  "MiddlewareConfig_default env =
     \<lparr>mc_idempotency_ttl = get_env_duration env ''IDEMPOTENCY_TTL_SECS'' (24 * 60 * 60),
      mc_action_ttl = get_env_duration env ''ACTION_TTL_SECS'' (24 * 60 * 60),
      mc_max_body_size = get_env_usize env ''MAX_BODY_SIZE_BYTES'' (10 * 1024 * 1024),
      mc_max_replay_body_size = get_env_usize env ''MAX_REPLAY_BODY_SIZE_BYTES'' (10 * 1024 * 1024),
      mc_inflight_wait_timeout = get_env_duration env ''INFLIGHT_WAIT_TIMEOUT_SECS'' 5,
      mc_redis_url = get_env_string env ''REDIS_URL'' ''redis://127.0.0.1:6379'',
      mc_require_redis = get_env_bool env ''REQUIRE_REDIS'' True,
      mc_quota = \<lparr>qc_system_hard_limit = layer_from_env env ''SYSTEM_HARD_LIMIT'' 1000 1000 1,
        qc_tenant_budget = layer_from_env env ''TENANT_BUDGET'' 1000 3000 5,
        qc_api_rate_limit = layer_from_env env ''API_RATE_LIMIT'' (16666 / 1000) 100 1,
        qc_circuit_breaker = layer_from_env env ''CIRCUIT_BREAKER'' 10 100 1,
        qc_tenant_overrides = Map.empty\<rparr>\<rparr>"

text \<open>The part of it that the idempotency middleware reads, and what \<open>Debug\<close> prints.\<close>

definition idem_part :: "middleware_config \<Rightarrow> idem_config" where
  "idem_part c = \<lparr>ic_max_body_size = mc_max_body_size c, ic_max_replay_body_size = mc_max_replay_body_size c,
     ic_idempotency_ttl = mc_idempotency_ttl c, ic_inflight_wait_timeout = mc_inflight_wait_timeout c\<rparr>"

definition debug_middleware_config :: "middleware_config \<Rightarrow> middleware_config" where
  "debug_middleware_config c = c\<lparr>mc_redis_url := ''<redacted>''\<rparr>"

section \<open>Redis addresses in messages\<close>

fun split_once_str :: "string \<Rightarrow> string \<Rightarrow> (string \<times> string) option" where
  "split_once_str p [] = (if p = [] then Some ([], []) else None)"
| "split_once_str p (x # xs) =
     (if starts_with (x # xs) p then Some ([], drop (length p) (x # xs))
      else map_option (\<lambda>(a, b). (x # a, b)) (split_once_str p xs))"

definition after_last :: "char \<Rightarrow> string \<Rightarrow> string" where
  "after_last c s = (case split_once_char c (rev s) of Some (host, _) \<Rightarrow> rev host | None \<Rightarrow> s)"

definition redact_redis_url :: "string \<Rightarrow> string" where
  "redact_redis_url redis_url =
     (case split_once_str ''://'' redis_url of
        Some (scheme, remainder) \<Rightarrow>
          (let after_auth = after_last (CHR ''@'') remainder;
               host_port = hd (split_char (CHR ''/'') after_auth)
           in if host_port \<noteq> [] then scheme @ ''://'' @ host_port else ''<redacted-redis-url>'')
      | None \<Rightarrow> ''<redacted-redis-url>'')"

lemma split_once_str_eq: "split_once_str p s = Some (a, b) \<Longrightarrow> s = a @ p @ b"
proof (induction p s arbitrary: a rule: split_once_str.induct)
  case (2 p x xs)
  then show ?case by (auto simp: starts_with_def split: if_splits) (metis append_take_drop_id)
qed (auto split: if_splits)

text \<open>\<open>str::replace\<close> with a pattern that is not empty.\<close>

function replace_str :: "string \<Rightarrow> string \<Rightarrow> string \<Rightarrow> string" where
  "replace_str p r s =
     (case split_once_str p s of
        Some (a, b) \<Rightarrow> if p = [] then s else a @ r @ replace_str p r b
      | None \<Rightarrow> s)"
  by pat_completeness auto

termination
  by (relation "measure (\<lambda>(p, r, s). length s)") (auto dest: split_once_str_eq)

declare replace_str.simps [simp del]

definition sanitize_redis_error :: "string \<Rightarrow> string \<Rightarrow> string" where
  "sanitize_redis_error error_text redis_url = replace_str redis_url (redact_redis_url redis_url) error_text"

section \<open>The state of the middleware\<close>

text \<open>Which stores serve the three interfaces; \<open>'m\<close> is the connection manager of the redis crate.\<close>

datatype 'm stores = RedisStores 'm | InMemoryStores

record 'm middleware_state =
  ms_stores :: "'m stores"
  ms_config :: middleware_config

text \<open>\<open>redis_open\<close> and \<open>redis_connect\<close> are \<open>Client::open\<close> and \<open>get_connection_manager\<close>.\<close>

record ('c, 'm) redis_client =
  redis_open :: "string \<Rightarrow> string + 'c"
  redis_connect :: "'c \<Rightarrow> string + 'm"

text \<open>An error ends the start, or activates the fallback and is logged: the first component is the log.\<close>

definition fallback :: "middleware_config \<Rightarrow> string \<Rightarrow> string list \<times> (string + 'm middleware_state)" where
  "fallback config msg =
     (if mc_require_redis config then ([], Inl msg) else ([msg], Inr \<lparr>ms_stores = InMemoryStores, ms_config = config\<rparr>))"

definition new_with_redis :: "('c, 'm) redis_client \<Rightarrow> middleware_config \<Rightarrow> string list \<times> (string + 'm middleware_state)" where
  "new_with_redis R config =
     (let url = mc_redis_url config; redacted_redis_url = redact_redis_url url in
      if \<not> starts_with url ''redis://'' \<and> \<not> starts_with url ''rediss://''
      then fallback config (''REDIS_URL must use redis:// or rediss:// scheme, got: '' @ redacted_redis_url)
      else (case redis_open R url of
              Inr c \<Rightarrow>
                (case redis_connect R c of
                   Inr manager \<Rightarrow> ([], Inr \<lparr>ms_stores = RedisStores manager, ms_config = config\<rparr>)
                 | Inl e \<Rightarrow> fallback config (''Failed to create Redis connection manager for '' @ redacted_redis_url @ '': ''
                     @ sanitize_redis_error e url))
            | Inl e \<Rightarrow> fallback config (''Invalid Redis URL ('' @ redacted_redis_url @ ''): '' @ sanitize_redis_error e url)))"

text \<open>One turn of the cleanup task: the idempotency store, then the action store.\<close>

definition cleanup_turn :: "('i \<Rightarrow> 'i) \<Rightarrow> ('a \<Rightarrow> 'a) \<Rightarrow> 'i \<times> 'a \<Rightarrow> 'i \<times> 'a" where
  "cleanup_turn idem_cleanup action_cleanup w = (idem_cleanup (fst w), action_cleanup (snd w))"

section \<open>What the configuration guarantees\<close>

lemma get_env_f64_positive: "0 < d \<Longrightarrow> positive_finite (get_env_f64 env key d)"
  by (simp add: get_env_f64_def split: option.split)

lemma layer_from_env_valid: "0 < r \<Longrightarrow> 0 < c \<Longrightarrow> 0 < k \<Longrightarrow> valid_quota (layer_from_env env name r c k)"
  by (simp add: valid_quota_def layer_from_env_def get_env_f64_positive)

lemma default_layer_valid: "valid_quota (layer_default (mc_quota (MiddlewareConfig_default env)) layer)"
  by (cases layer) (simp_all add: MiddlewareConfig_default_def layer_from_env_valid)

lemma positive_finite_iff: "positive_finite x \<longleftrightarrow> (\<exists>r. x = Fin r \<and> 0 < r)"
  by (cases x) auto

text \<open>
  C35 (type): Whatever the environment holds, every layer of every tenant is charged by the configured
  numbers and the Lua script is called with finite positive ones: a rate, capacity, cost or backoff
  that is not a positive finite number never reaches Redis, nor does a layer ever go unchecked.
\<close>

theorem configured_layers_are_checked:
  "\<exists>ck a. layer_config sha256 (mc_quota (MiddlewareConfig_default env)) t layer = Some ck
     \<and> ck_config ck = layer_default (mc_quota (MiddlewareConfig_default env)) layer
     \<and> lua_args_of ck = Some a \<and> 0 < la_rate a \<and> 0 < la_capacity a \<and> 0 < la_cost a \<and> 0 < la_backoff_s a"
proof -
  let ?c = "mc_quota (MiddlewareConfig_default env)"
  have "qc_tenant_overrides ?c = Map.empty" by (simp add: MiddlewareConfig_default_def)
  moreover have "valid_quota (layer_default ?c layer)" by (rule default_layer_valid)
  ultimately show ?thesis by (auto simp: layer_config_def validate_quota_def valid_quota_def positive_finite_iff)
qed

text \<open>
  When Redis is required the middleware never starts on in-memory stores: a wrong scheme, a bad
  address and a failing connection each end the start with an error. When it is not required the
  start always succeeds, and falls back to the in-memory stores exactly in those cases, with one
  logged reason.
\<close>

theorem required_redis_is_never_replaced:
  assumes "new_with_redis R config = (logged, res)"
  shows "(mc_require_redis config \<longrightarrow> logged = [] \<and> (\<forall>st. res = Inr st \<longrightarrow> (\<exists>m. ms_stores st = RedisStores m)))
    \<and> (\<not> mc_require_redis config \<longrightarrow> (\<exists>st. res = Inr st \<and> ms_config st = config \<and> (ms_stores st = InMemoryStores \<longleftrightarrow> length logged = 1)))
    \<and> (\<forall>st m. res = Inr st \<and> ms_stores st = RedisStores m \<longrightarrow>
         ms_config st = config \<and> (\<exists>c. redis_open R (mc_redis_url config) = Inr c \<and> redis_connect R c = Inr m))"
  using assms by (auto simp: new_with_redis_def fallback_def Let_def split: if_splits sum.splits)

section \<open>Credentials\<close>

lemma split_once_str_append:
  assumes "\<not> contains_str (a @ butlast p) p" and "p \<noteq> []"
  shows "split_once_str p (a @ p @ b) = Some (a, b)"
  using assms
proof (induction a)
  case Nil
  then show ?case by (cases p) (simp_all add: starts_with_def)
next
  case (Cons x a)
  have "\<not> starts_with (x # a @ p @ b) p"
  proof
    assume "starts_with (x # a @ p @ b) p"
    then have "take (length p) (x # a @ p @ b) = p" by (simp add: starts_with_def)
    moreover have "take (length p) (x # a @ p @ b) = take (length p) (x # a @ butlast p)"
      using Cons.prems(2) by (cases p rule: rev_cases) (auto simp: take_Cons')
    ultimately show False using Cons.prems(1) by (simp add: starts_with_def)
  qed
  with Cons show ?case by simp
qed

lemma after_last_at: "c \<notin> set b \<Longrightarrow> after_last c (a @ c # b) = b"
proof -
  assume "c \<notin> set b"
  then have "split_once_char c (rev b @ c # rev a) = Some (rev b, rev a)" by (simp add: split_once_char_Some)
  then show ?thesis by (simp add: after_last_def)
qed

lemma after_last_none: "c \<notin> set s \<Longrightarrow> after_last c s = s"
proof -
  assume "c \<notin> set s"
  then have "split_once_char c (rev s) = None"
    by (cases "split_once_char c (rev s)") (auto simp: split_once_char_Some, metis in_set_conv_decomp set_rev)
  then show ?thesis by (simp add: after_last_def)
qed

lemma contains_str_iff: "contains_str s p \<longleftrightarrow> split_once_str p s \<noteq> None"
  by (induction s) auto

text \<open>
  What is said of a Redis address never depends on its credentials: with any user and password, and
  whatever characters they have, the redacted address is the one of the same address without
  them, and so is an error of the Redis client that starts with the address, once sanitised.
\<close>

theorem redis_credentials_are_hidden:
  assumes "\<not> contains_str (scheme @ '':/'') ''://''" and "CHR ''@'' \<notin> set rest"
    and "url = scheme @ ''://'' @ userinfo @ ''@'' @ rest" and "\<not> contains_str details url"
  shows "redact_redis_url url = redact_redis_url (scheme @ ''://'' @ rest)
    \<and> sanitize_redis_error (url @ details) url = redact_redis_url (scheme @ ''://'' @ rest) @ details"
proof -
  have split: "split_once_str ''://'' (scheme @ ''://'' @ b) = Some (scheme, b)" for b
    using split_once_str_append [of scheme "''://''" b] assms(1) by simp
  have "after_last (CHR ''@'') (userinfo @ ''@'' @ rest) = rest" using after_last_at [OF assms(2)] by simp
  then have red: "redact_redis_url url = redact_redis_url (scheme @ ''://'' @ rest)"
    using split after_last_none [OF assms(2)] by (simp only: assms(3) redact_redis_url_def) simp
  have "url \<noteq> []" using assms(3) by simp
  then obtain c cs where url: "url = c # cs" by (cases url) simp_all
  then have "split_once_str url (url @ details) = Some ([], details)" by (simp add: starts_with_def)
  moreover have "split_once_str url details = None" using assms(4) unfolding contains_str_iff by blast
  moreover from calculation(2) have "replace_str url r details = details" for r by (subst replace_str.simps) simp
  ultimately have "replace_str url r (url @ details) = r @ details" for r
    by (subst replace_str.simps) (simp only: option.case prod.case url list.distinct if_False append_Nil)
  then show ?thesis using red by (simp add: sanitize_redis_error_def)
qed

theorem redis_credentials_are_hidden_witness:
  "sanitize_redis_error ''redis://u:p@h:1/0: refused'' ''redis://u:p@h:1/0'' = redact_redis_url ''redis://h:1/0'' @ '': refused''"
  using redis_credentials_are_hidden [of "''redis''" "''h:1/0''" "''redis://u:p@h:1/0''" "''u:p''" "'': refused''"]
  by (simp add: starts_with_def)

definition sample_middleware_config :: middleware_config where
  "sample_middleware_config = MiddlewareConfig_default [''REDIS_URL'' \<mapsto> ''http://u:p@h'', ''REQUIRE_REDIS'' \<mapsto> ''false'']"

definition unreachable_redis :: "(unit, unit) redis_client" where
  "unreachable_redis = \<lparr>redis_open = (\<lambda>_. Inr ()), redis_connect = (\<lambda>_. Inl ''refused'')\<rparr>"

theorem required_redis_is_never_replaced_witness:
  "\<exists>logged st. new_with_redis unreachable_redis sample_middleware_config = (logged, Inr st) \<and> ms_stores st = InMemoryStores \<and> length logged = 1"
proof -
  have "trim ''false'' = ''false''" by (rule trim_plain) (simp_all add: ascii_graph_def)
  moreover have "map to_ascii_lower ''false'' = ''false''" by code_simp
  ultimately have req: "\<not> mc_require_redis sample_middleware_config"
    by (simp add: sample_middleware_config_def MiddlewareConfig_default_def get_env_bool_def)
  have url: "mc_redis_url sample_middleware_config = ''http://u:p@h''"
    by (simp add: sample_middleware_config_def MiddlewareConfig_default_def get_env_string_def)
  obtain logged res where run: "new_with_redis unreachable_redis sample_middleware_config = (logged, res)" by fastforce
  with url have "res = Inr \<lparr>ms_stores = InMemoryStores, ms_config = sample_middleware_config\<rparr>"
    using req by (auto simp: new_with_redis_def fallback_def starts_with_def)
  with required_redis_is_never_replaced [OF run] req run show ?thesis by auto
qed

end
