(* ===== verification/Action_Store.thy ===== *)
theory Action_Store
  imports Idempotency_Redis
begin

text \<open>
  The action stores of \<open>kernel-api/src/middleware.rs\<close>: the trait \<open>ActionStore\<close>, its in-memory and
  its Redis implementation, and the two functions through which the handlers use it.

  The contract is the locale \<open>action_store\<close>; both implementations interpret it. Redis is the
  world of theory \<open>Idempotency_Redis\<close>; serde\_json on the record is an argument. Instants and
  durations are milliseconds; a sum of \<open>u64\<close> seconds wraps around, as in a release build.
\<close>

section \<open>The trait\<close>

datatype action_status = ActionPending | ActionCompleted | ActionFailed

record action_record =
  ar_status :: action_status
  ar_expires_at :: instant

record 'w action_ops =
  ao_record :: "tenant_id \<Rightarrow> string \<Rightarrow> action_status \<Rightarrow> duration \<Rightarrow> 'w \<Rightarrow> 'w"
  ao_get :: "tenant_id \<Rightarrow> string \<Rightarrow> 'w \<Rightarrow> 'w \<times> action_record option"
  ao_cleanup :: "'w \<Rightarrow> 'w"

definition record_action :: "'w action_ops \<Rightarrow> duration \<Rightarrow> tenant_id \<Rightarrow> string \<Rightarrow> action_status \<Rightarrow> 'w \<Rightarrow> 'w" where
  "record_action ops action_ttl tenant_id action_id status w = ao_record ops tenant_id action_id status action_ttl w"

definition get_action :: "'w action_ops \<Rightarrow> tenant_id \<Rightarrow> string \<Rightarrow> 'w \<Rightarrow> 'w \<times> action_record option" where
  "get_action ops tenant_id action_id w = ao_get ops tenant_id action_id w"

section \<open>The contract\<close>

text \<open>
  \<open>view\<close> is the status that is visible for an action of a tenant, \<open>keys\<close> the actions the contract is for,
  \<open>avail\<close> says that the backend answers, and \<open>fits w ttl\<close> that the expiry time can be computed.
\<close>

locale action_store =
  fixes ops :: "'w action_ops"
    and view :: "'w \<Rightarrow> tenant_id \<times> string \<Rightarrow> action_status option"
    and keys :: "(tenant_id \<times> string) set"
    and avail :: "'w \<Rightarrow> bool"
    and fits :: "'w \<Rightarrow> duration \<Rightarrow> bool"
  assumes recorded: "(t, a) \<in> keys \<Longrightarrow> fits w ttl \<Longrightarrow> view (ao_record ops t a st ttl w) \<in> {view w, (view w)((t, a) \<mapsto> st)}"
    and records: "(t, a) \<in> keys \<Longrightarrow> fits w ttl \<Longrightarrow> avail w \<Longrightarrow>
      view (ao_record ops t a st ttl w) = (view w)((t, a) \<mapsto> st) \<and> avail (ao_record ops t a st ttl w)"
    and got: "(t, a) \<in> keys \<Longrightarrow> ao_get ops t a w = (w', r) \<Longrightarrow>
      view w' = view w \<and> (\<forall>x. r = Some x \<longrightarrow> view w (t, a) = Some (ar_status x))"
    and gets: "(t, a) \<in> keys \<Longrightarrow> avail w \<Longrightarrow> ao_get ops t a w = (w', r) \<Longrightarrow> avail w' \<and> map_option ar_status r = view w (t, a)"
    and cleaned: "view (ao_cleanup ops w) = view w"
begin

text \<open>An action is read back as it was recorded last, and recording one does not show in any other.\<close>

lemma read_back:
  assumes "(t, a) \<in> keys" "(t', a') \<in> keys" "avail w" "fits w ttl"
    and "get_action ops t' a' (record_action ops ttl t a st w) = (w', r)"
  shows "map_option ar_status r = (if (t', a') = (t, a) then Some st else view w (t', a'))"
  using gets [OF assms(2) _ assms(5) [unfolded get_action_def]] records [OF assms(1,4,3), of st]
  by (auto simp: record_action_def)

end

section \<open>In memory\<close>

record mem_actions =
  ma_inner :: "tenant_id \<times> string \<rightharpoonup> action_record"
  ma_now :: instant

definition mem_action_record :: "tenant_id \<Rightarrow> string \<Rightarrow> action_status \<Rightarrow> duration \<Rightarrow> mem_actions \<Rightarrow> mem_actions" where
  "mem_action_record tenant_id action_id status ttl m =
     m\<lparr>ma_inner := (ma_inner m)((tenant_id, action_id) \<mapsto> \<lparr>ar_status = status, ar_expires_at = ma_now m + ttl\<rparr>)\<rparr>"

definition mem_action_get :: "tenant_id \<Rightarrow> string \<Rightarrow> mem_actions \<Rightarrow> mem_actions \<times> action_record option" where
  "mem_action_get tenant_id action_id m =
     (m, Option.bind (ma_inner m (tenant_id, action_id)) (\<lambda>r. if ar_expires_at r > ma_now m then Some r else None))"

definition mem_action_cleanup :: "mem_actions \<Rightarrow> mem_actions" where
  "mem_action_cleanup m =
     m\<lparr>ma_inner := (\<lambda>k. Option.bind (ma_inner m k) (\<lambda>r. if ar_expires_at r > ma_now m then Some r else None))\<rparr>"

definition mem_action_ops :: "mem_actions action_ops" where
  "mem_action_ops = \<lparr>ao_record = mem_action_record, ao_get = mem_action_get, ao_cleanup = mem_action_cleanup\<rparr>"

definition mem_action_view :: "mem_actions \<Rightarrow> tenant_id \<times> string \<Rightarrow> action_status option" where
  "mem_action_view m k = Option.bind (ma_inner m k) (\<lambda>r. if ar_expires_at r > ma_now m then Some (ar_status r) else None)"

interpretation mem_actions: action_store mem_action_ops mem_action_view UNIV "\<lambda>_. True" "\<lambda>m ttl. 0 < ttl"
proof
  fix t :: tenant_id and a :: string and m m' :: mem_actions and ttl :: duration and st r
  have upd: "mem_action_view (mem_action_record t a st ttl m) = (mem_action_view m)((t, a) \<mapsto> st)" if "0 < ttl"
    using that by (auto simp: mem_action_view_def mem_action_record_def fun_eq_iff)
  then show "0 < ttl \<Longrightarrow> mem_action_view (ao_record mem_action_ops t a st ttl m) \<in> {mem_action_view m, (mem_action_view m)((t, a) \<mapsto> st)}"
    and "0 < ttl \<Longrightarrow> True \<Longrightarrow> mem_action_view (ao_record mem_action_ops t a st ttl m) = (mem_action_view m)((t, a) \<mapsto> st) \<and> True"
    by (simp_all add: mem_action_ops_def)
  show "ao_get mem_action_ops t a m = (m', r) \<Longrightarrow>
      mem_action_view m' = mem_action_view m \<and> (\<forall>x. r = Some x \<longrightarrow> mem_action_view m (t, a) = Some (ar_status x))"
    and "True \<Longrightarrow> ao_get mem_action_ops t a m = (m', r) \<Longrightarrow> True \<and> map_option ar_status r = mem_action_view m (t, a)"
    by (cases "ma_inner m (t, a)"; auto simp: mem_action_ops_def mem_action_get_def mem_action_view_def split: if_splits)+
  show "mem_action_view (ao_cleanup mem_action_ops m) = mem_action_view m"
    by (auto simp: mem_action_ops_def mem_action_cleanup_def mem_action_view_def fun_eq_iff split: Option.bind_splits)
qed

section \<open>In Redis\<close>

definition action_format_key :: "(string \<Rightarrow> byte list) \<Rightarrow> string \<Rightarrow> string \<Rightarrow> string" where
  "action_format_key sha256 tenant_id action_id =
     append_sha256_hex sha256 action_id (append_sha256_hex sha256 tenant_id ''action:'' @ '':'')"

record redis_action_record_dto =
  ad_status :: action_status
  ad_expires_at_ts :: u64

record action_codec =
  action_to_json :: "redis_action_record_dto \<Rightarrow> string option"
  action_from_json :: "string \<Rightarrow> redis_action_record_dto option"

definition unix_secs :: "'s redis_world \<Rightarrow> u64" where
  "unix_secs w = rw_unix_ms w div 1000"

text \<open>\<open>SETEX key secs value\<close>.\<close>

definition conn_set_ex :: "'s redis_kv \<Rightarrow> string \<Rightarrow> string \<Rightarrow> nat \<Rightarrow> 's redis_world \<Rightarrow> 's redis_world \<times> (unit + unit)" where
  "conn_set_ex R key val ex w =
     (case take_fault w of
        (w', True) \<Rightarrow> (w', Inl ())
      | (w', False) \<Rightarrow> (w'\<lparr>rw_db := kv_set R (rw_db w') (rw_time w') key val ex\<rparr>, Inr ()))"

definition redis_action_record :: "'s redis_kv \<Rightarrow> action_codec \<Rightarrow> (string \<Rightarrow> byte list) \<Rightarrow> tenant_id \<Rightarrow> string \<Rightarrow> action_status \<Rightarrow> duration
    \<Rightarrow> 's redis_world \<Rightarrow> 's redis_world" where
  "redis_action_record R C sha256 tenant_id action_id status ttl w =
     (let key = action_format_key sha256 (tenant_str tenant_id) action_id;
          ttl_secs = max (ttl div 1000) 1;
          expires_at_ts = unix_secs w + of_nat ttl_secs;
          dto = \<lparr>ad_status = status, ad_expires_at_ts = expires_at_ts\<rparr>
      in case action_to_json C dto of
           Some json \<Rightarrow> fst (conn_set_ex R key json ttl_secs w)
         | None \<Rightarrow> w)"

definition redis_action_get :: "'s redis_kv \<Rightarrow> action_codec \<Rightarrow> (string \<Rightarrow> byte list) \<Rightarrow> tenant_id \<Rightarrow> string \<Rightarrow> 's redis_world
    \<Rightarrow> 's redis_world \<times> action_record option" where
  "redis_action_get R C sha256 tenant_id action_id w =
     (case conn_get R (action_format_key sha256 (tenant_str tenant_id) action_id) w of
        (w, Inl _) \<Rightarrow> (w, None)
      | (w, Inr None) \<Rightarrow> (w, None)
      | (w, Inr (Some s)) \<Rightarrow>
          (case action_from_json C s of
             None \<Rightarrow> (w, None)
           | Some dto \<Rightarrow>
               (let now_ts = unix_secs w;
                    remaining = (if ad_expires_at_ts dto > now_ts then ad_expires_at_ts dto - now_ts else 0)
                in if remaining = 0 then (w, None)
                   else (w, Some \<lparr>ar_status = ad_status dto, ar_expires_at = rw_now w + unat remaining * 1000\<rparr>))))"

definition redis_action_ops :: "'s redis_kv \<Rightarrow> action_codec \<Rightarrow> (string \<Rightarrow> byte list) \<Rightarrow> 's redis_world action_ops" where
  "redis_action_ops R C sha256 =
     \<lparr>ao_record = redis_action_record R C sha256, ao_get = redis_action_get R C sha256, ao_cleanup = (\<lambda>w. w)\<rparr>"

text \<open>What is relied on: records survive the JSON round trip, and the hashed identifiers do not collide.\<close>

definition action_codec_laws :: "action_codec \<Rightarrow> bool" where
  "action_codec_laws C \<longleftrightarrow> (\<forall>d. \<exists>s. action_to_json C d = Some s \<and> action_from_json C s = Some d)"

definition action_keys_ok :: "(string \<Rightarrow> byte list) \<Rightarrow> (tenant_id \<times> string) set \<Rightarrow> bool" where
  "action_keys_ok sha256 keys \<longleftrightarrow> sha256_ok sha256 (\<Union>(t, a) \<in> keys. {tenant_str t, a})"

definition live_action :: "action_codec \<Rightarrow> u64 \<Rightarrow> string \<Rightarrow> action_status option" where
  "live_action C now_ts s =
     Option.bind (action_from_json C s) (\<lambda>dto. if ad_expires_at_ts dto > now_ts then Some (ad_status dto) else None)"

definition redis_action_view :: "'s redis_kv \<Rightarrow> action_codec \<Rightarrow> (string \<Rightarrow> byte list) \<Rightarrow> (tenant_id \<times> string) set
    \<Rightarrow> 's redis_world \<Rightarrow> tenant_id \<times> string \<Rightarrow> action_status option" where
  "redis_action_view R C sha256 keys w k =
     (if k \<in> keys
      then Option.bind (kv_get R (rw_db w) (rw_time w) (action_format_key sha256 (tenant_str (fst k)) (snd k))) (live_action C (unix_secs w))
      else None)"

definition action_fits :: "'s redis_world \<Rightarrow> duration \<Rightarrow> bool" where
  "action_fits w ttl \<longleftrightarrow> unat (unix_secs w) + max (ttl div 1000) 1 < 2 ^ 64"

lemma action_format_key_inj:
  assumes "action_keys_ok sha256 keys" and "(t, a) \<in> keys" "(t', a') \<in> keys"
  shows "action_format_key sha256 (tenant_str t) a = action_format_key sha256 (tenant_str t') a' \<longleftrightarrow> t = t' \<and> a = a'"
proof -
  let ?S = "\<Union>(t, a) \<in> keys. {tenant_str t, a}"
  have sha: "sha256_ok sha256 ?S" using assms(1) by (simp add: action_keys_ok_def)
  have S: "tenant_str t \<in> ?S" "tenant_str t' \<in> ?S" "a \<in> ?S" "a' \<in> ?S" using assms(2,3) by auto
  have "action_format_key sha256 (tenant_str t) a = action_format_key sha256 (tenant_str t') a'
      \<longleftrightarrow> tenant_str t = tenant_str t' \<and> a = a'"
    using sha256_hex_eq [OF sha S(1,2), of "CHR '':'' # hex_of_bytes (sha256 a)" "CHR '':'' # hex_of_bytes (sha256 a')"]
      sha256_hex_eq [OF sha S(3,4), of "[]" "[]"]
    by (simp add: action_format_key_def append_sha256_hex_def)
  then show ?thesis using tenant_id.expand by auto
qed

lemma action_later:
  assumes "action_fits w ttl"
  shows "unix_secs w + of_nat (max (ttl div 1000) 1) > unix_secs w"
proof -
  let ?n = "max (ttl div 1000) 1"
  have n: "?n < 2 ^ 64" using assms by (simp add: action_fits_def)
  then have u: "unat (of_nat ?n :: u64) = ?n" by (simp add: unsigned_of_nat take_bit_nat_eq_self)
  then have "unat (unix_secs w + of_nat ?n) = unat (unix_secs w) + ?n"
    using assms unat_add_u64 [of "unix_secs w" "of_nat ?n"] by (simp add: action_fits_def)
  then show ?thesis by (simp add: word_less_nat_alt)
qed

lemma fault_taken:
  "take_fault w = (w', b) \<Longrightarrow> rw_db w' = rw_db w \<and> rw_time w' = rw_time w \<and> unix_secs w' = unix_secs w
     \<and> (redis_avail w \<longrightarrow> \<not> b \<and> redis_avail w')"
  by (cases "rw_faults w") (auto simp: take_fault_def redis_avail_def unix_secs_def)

lemma redis_action_recorded:
  assumes R: "redis_kv_laws R" and C: "action_codec_laws C" and keys: "action_keys_ok sha256 keys" "(t, a) \<in> keys" and fits: "action_fits w ttl"
  shows "redis_action_view R C sha256 keys (redis_action_record R C sha256 t a st ttl w)
      \<in> {redis_action_view R C sha256 keys w, (redis_action_view R C sha256 keys w)((t, a) \<mapsto> st)}"
    and "redis_avail w \<Longrightarrow> redis_action_view R C sha256 keys (redis_action_record R C sha256 t a st ttl w)
      = (redis_action_view R C sha256 keys w)((t, a) \<mapsto> st) \<and> redis_avail (redis_action_record R C sha256 t a st ttl w)"
proof -
  let ?v = "redis_action_view R C sha256 keys" and ?w = "redis_action_record R C sha256 t a st ttl w" and ?ex = "max (ttl div 1000) 1"
  let ?dto = "\<lparr>ad_status = st, ad_expires_at_ts = unix_secs w + of_nat ?ex\<rparr>"
  obtain json where json: "action_to_json C ?dto = Some json" "action_from_json C json = Some ?dto"
    using C unfolding action_codec_laws_def by blast
  obtain w1 b where f: "take_fault w = (w1, b)" by (cases "take_fault w")
  note w1 = fault_taken [OF f]
  have run: "?w = (if b then w1 else w1\<lparr>rw_db := kv_set R (rw_db w1) (rw_time w1) (action_format_key sha256 (tenant_str t) a) json ?ex\<rparr>)"
    using f json by (simp add: redis_action_record_def conn_set_ex_def Let_def)
  have live: "live_action C (unix_secs w) json = Some st" using json(2) action_later [OF fits] by (simp add: live_action_def)
  have set: "?v (w1\<lparr>rw_db := kv_set R (rw_db w1) (rw_time w1) (action_format_key sha256 (tenant_str t) a) json ?ex\<rparr>) = (?v w)((t, a) \<mapsto> st)"
  proof
    fix k :: "tenant_id \<times> string"
    obtain t' a' where k: "k = (t', a')" by (cases k)
    have get: "0 < ex \<Longrightarrow> kv_get R (kv_set R (rw_db w) (rw_time w) (action_format_key sha256 (tenant_str t) a) json ex) (rw_time w) k'
        = (if k' = action_format_key sha256 (tenant_str t) a then Some json else kv_get R (rw_db w) (rw_time w) k')" for k' ex
      using R by (simp add: redis_kv_laws_def)
    have secs: "unix_secs (w1\<lparr>rw_db := d\<rparr>) = unix_secs w" for d using w1 by (simp add: unix_secs_def)
    show "?v (w1\<lparr>rw_db := kv_set R (rw_db w1) (rw_time w1) (action_format_key sha256 (tenant_str t) a) json ?ex\<rparr>) k = ((?v w)((t, a) \<mapsto> st)) k"
    proof (cases "k \<in> keys")
      case True
      then have "action_format_key sha256 (tenant_str t') a' = action_format_key sha256 (tenant_str t) a \<longleftrightarrow> k = (t, a)"
        using action_format_key_inj [OF keys(1) _ keys(2)] k by auto
      then show ?thesis using True w1 live by (auto simp: redis_action_view_def secs get k)
    next
      case False
      then show ?thesis using keys(2) by (auto simp: redis_action_view_def)
    qed
  qed
  have same: "?v w1 = ?v w" using w1 by (simp add: redis_action_view_def fun_eq_iff)
  show "?v ?w \<in> {?v w, (?v w)((t, a) \<mapsto> st)}" using run set same by auto
  show "redis_avail w \<Longrightarrow> ?v ?w = (?v w)((t, a) \<mapsto> st) \<and> redis_avail ?w"
    using run set w1 by (auto simp: redis_avail_def)
qed

lemma redis_action_got:
  assumes "(t, a) \<in> keys" and get: "redis_action_get R C sha256 t a w = (w', r)"
  shows "redis_action_view R C sha256 keys w' = redis_action_view R C sha256 keys w"
    and "\<forall>x. r = Some x \<longrightarrow> redis_action_view R C sha256 keys w (t, a) = Some (ar_status x)"
    and "redis_avail w \<Longrightarrow> redis_avail w' \<and> map_option ar_status r = redis_action_view R C sha256 keys w (t, a)"
proof -
  let ?key = "action_format_key sha256 (tenant_str t) a"
  obtain w1 b where f: "take_fault w = (w1, b)" by (cases "take_fault w")
  note w1 = fault_taken [OF f]
  let ?found = "Option.bind (kv_get R (rw_db w) (rw_time w) ?key) (live_action C (unix_secs w))"
  have view: "redis_action_view R C sha256 keys w (t, a) = ?found" using assms(1) by (simp add: redis_action_view_def)
  have w': "w' = w1" "if b then r = None else map_option ar_status r = ?found"
    using get f w1
    by (cases b; cases "kv_get R (rw_db w) (rw_time w) ?key";
        auto simp: redis_action_get_def conn_get_def live_action_def Let_def split: option.splits if_splits)+
  show "redis_action_view R C sha256 keys w' = redis_action_view R C sha256 keys w"
    using w1 w'(1) by (simp add: redis_action_view_def fun_eq_iff)
  show "\<forall>x. r = Some x \<longrightarrow> redis_action_view R C sha256 keys w (t, a) = Some (ar_status x)"
    using w'(2) view by (auto split: if_splits)
  show "redis_avail w \<Longrightarrow> redis_avail w' \<and> map_option ar_status r = redis_action_view R C sha256 keys w (t, a)"
    using w1 w' view by auto
qed

text \<open>
  C32 (refinement): The Redis action store implements the contract of action stores: a record that Redis accepts
  shows as the status of that action of that tenant and in no other action, one that it does not
  accept changes nothing, a read returns what is visible or, when Redis fails, nothing, and never
  an action's status under another action or tenant.
\<close>

theorem redis_actions_implement_contract:
  assumes "redis_kv_laws R" "action_codec_laws C" "action_keys_ok sha256 keys"
  shows "action_store (redis_action_ops R C sha256) (redis_action_view R C sha256 keys) keys redis_avail action_fits"
proof
  let ?ops = "redis_action_ops R C sha256" and ?v = "redis_action_view R C sha256 keys"
  have ops: "ao_record ?ops = redis_action_record R C sha256" "ao_get ?ops = redis_action_get R C sha256" "ao_cleanup ?ops w = w" for w
    by (simp_all add: redis_action_ops_def)
  fix t a w w' ttl st r
  show "(t, a) \<in> keys \<Longrightarrow> action_fits w ttl \<Longrightarrow> ?v (ao_record ?ops t a st ttl w) \<in> {?v w, (?v w)((t, a) \<mapsto> st)}"
    unfolding ops by (rule redis_action_recorded(1) [OF assms])
  show "(t, a) \<in> keys \<Longrightarrow> action_fits w ttl \<Longrightarrow> redis_avail w \<Longrightarrow>
      ?v (ao_record ?ops t a st ttl w) = (?v w)((t, a) \<mapsto> st) \<and> redis_avail (ao_record ?ops t a st ttl w)"
    unfolding ops by (rule redis_action_recorded(2) [OF assms])
  show "(t, a) \<in> keys \<Longrightarrow> ao_get ?ops t a w = (w', r) \<Longrightarrow> ?v w' = ?v w \<and> (\<forall>x. r = Some x \<longrightarrow> ?v w (t, a) = Some (ar_status x))"
    unfolding ops by (intro conjI redis_action_got(1,2))
  show "(t, a) \<in> keys \<Longrightarrow> redis_avail w \<Longrightarrow> ao_get ?ops t a w = (w', r) \<Longrightarrow> redis_avail w' \<and> map_option ar_status r = ?v w (t, a)"
    unfolding ops by (rule redis_action_got(3))
  show "?v (ao_cleanup ?ops w) = ?v w" unfolding ops ..
qed

definition tally_codec :: action_codec where
  "tally_codec =
     \<lparr>action_to_json = (\<lambda>d. Some ((case ad_status d of ActionPending \<Rightarrow> CHR ''P'' | ActionCompleted \<Rightarrow> CHR ''C'' | ActionFailed \<Rightarrow> CHR ''F'')
        # replicate (unat (ad_expires_at_ts d)) CHR ''x'')),
      action_from_json = (\<lambda>s. case s of [] \<Rightarrow> None
        | c # xs \<Rightarrow> Some \<lparr>ad_status = (if c = CHR ''P'' then ActionPending else if c = CHR ''C'' then ActionCompleted else ActionFailed),
            ad_expires_at_ts = of_nat (length xs)\<rparr>)\<rparr>"

lemma tally_codec_laws: "action_codec_laws tally_codec"
  by (auto simp: action_codec_laws_def tally_codec_def split: action_status.split)

theorem redis_actions_implement_contract_witness:
  "action_store (redis_action_ops map_kv tally_codec sample_sha256)
     (redis_action_view map_kv tally_codec sample_sha256 {(TenantId ''a'', ''act''), (TenantId ''tb'', ''act'')})
     {(TenantId ''a'', ''act''), (TenantId ''tb'', ''act'')} redis_avail action_fits
   \<and> action_fits \<lparr>rw_db = Map.empty, rw_time = 0, rw_now = 0, rw_unix_ms = 0, rw_uuids = 0, rw_notifies = 0, rw_faults = [],
        rw_subscriptions = Map.empty, rw_permits = {}, rw_spawned = [], rw_published = []\<rparr> 1000"
proof
  have "action_keys_ok sample_sha256 {(TenantId ''a'', ''act''), (TenantId ''tb'', ''act'')}"
    by (auto simp: action_keys_ok_def sha256_ok_def sample_sha256_def inj_on_def)
  then show "action_store (redis_action_ops map_kv tally_codec sample_sha256)
     (redis_action_view map_kv tally_codec sample_sha256 {(TenantId ''a'', ''act''), (TenantId ''tb'', ''act'')})
     {(TenantId ''a'', ''act''), (TenantId ''tb'', ''act'')} redis_avail action_fits"
    by (intro redis_actions_implement_contract map_kv_laws tally_codec_laws)
qed (simp add: action_fits_def unix_secs_def)

end
