(* ===== verification/Api_App.thy ===== *)
theory Api_App
  imports Rbac Api_Auth Middleware_Config Action_Store Json_Types
begin

text \<open>
  The API application of \<open>kernel-api/src/lib.rs\<close>: the chain of middlewares in front of a protected
  route, the handlers of the file, and the security headers on every response.

  Each middleware is the definition of its own theory. The chain runs on one world \<open>'w\<close>: the record
  \<open>app\<close> holds what acts on it, namely the database, the quota check, the stores and the clock, and
  the configuration and libraries. Path matching and the answers for unmatched paths are axum's.
\<close>

section \<open>The application\<close>

record ('v, 'db, 'w) app =
  ap_paseto :: "'v paseto_env"
  ap_http :: http_env
  ap_clock :: "u64 option"
  ap_auth :: auth_globals
  ap_conn :: 'db
  ap_tx :: tx_env
  ap_keys :: key_gen
  ap_get_db :: "'w \<Rightarrow> rbac_tables ddb"
  ap_put_db :: "rbac_tables ddb \<Rightarrow> 'w \<Rightarrow> 'w"
  ap_check_quota :: "tenant_id \<Rightarrow> quota_layer list \<Rightarrow> 'w \<Rightarrow> 'w \<times> (quota_violation + unit)"
  ap_idem :: "'w idempotency_ops"
  ap_await :: "nat \<Rightarrow> 'w \<Rightarrow> 'w \<times> bool"
  ap_now :: "'w \<Rightarrow> instant"
  ap_url_path :: "string \<Rightarrow> string option"
  ap_sha256 :: "string \<Rightarrow> byte list"
  ap_actions :: "'w action_ops"
  ap_uuid :: "'w \<Rightarrow> 'w \<times> string"
  ap_json :: "json \<Rightarrow> string"
  ap_config :: middleware_config

record app_request =
  ar_authorization :: "string option"
  ar_http :: idem_request

type_synonym ('db, 'w) app_handler = "'db tenant_context \<Rightarrow> idem_request \<Rightarrow> 'w \<Rightarrow> 'w \<times> idem_response"

section \<open>Handlers\<close>

definition json_body :: "('v, 'db, 'w) app \<Rightarrow> nat \<Rightarrow> (string \<times> string) list \<Rightarrow> json \<Rightarrow> idem_response" where
  "json_body A status headers body =
     \<lparr>rs_status = status, rs_headers = fold (\<lambda>(n, v). hm_insert n v) headers [(''content-type'', ''application/json'')],
      rs_body = Some (ap_json A body)\<rparr>"

definition liveness :: idem_response where
  "liveness = plain_response 200"

definition readiness_db_timeout :: "environment \<Rightarrow> duration" where
  "readiness_db_timeout env =
     (case Option.bind (env ''HEALTH_READINESS_DB_TIMEOUT_MS'') parse_u64 of
        Some v \<Rightarrow> if v > 0 then unat v else 1000
      | None \<Rightarrow> 1000)"

text \<open>\<open>ping timeout\<close> is what \<open>timeout(db.ping())\<close> returns for the connection: None when time ran out.\<close>

definition readiness :: "(duration \<Rightarrow> 'db \<Rightarrow> (string + unit) option) \<Rightarrow> environment \<Rightarrow> 'db tenant_context \<Rightarrow> idem_response" where
  "readiness ping env ctx =
     (let timeout = readiness_db_timeout env in
      case with_system_context ctx (\<lambda>system_ctx.
             case context_db system_ctx of
               Inl e \<Rightarrow> Inl (''context error: '' @ e)
             | Inr db \<Rightarrow>
                 (case ping timeout db of
                    Some (Inr _) \<Rightarrow> Inr ()
                  | Some (Inl e) \<Rightarrow> Inl (''db ping failed: '' @ e)
                  | None \<Rightarrow> Inl (''db ping timed out after '' @ dec_of_nat timeout @ ''ms''))) of
        Inr (Inr _) \<Rightarrow> (plain_response 200)\<lparr>rs_body := Some ''OK''\<rparr>
      | Inr (Inl e) \<Rightarrow> (plain_response 503)\<lparr>rs_body := Some ''Unhealthy (DB)''\<rparr>
      | Inl e \<Rightarrow> (plain_response 503)\<lparr>rs_body := Some ''Unhealthy (Context)''\<rparr>)"

definition write_test :: "('v, 'db, 'w) app \<Rightarrow> ('db, 'w) app_handler" where
  "write_test A ctx req w =
     (let (w, action_id) = ap_uuid A w;
          w = record_action (ap_actions A) (mc_action_ttl (ap_config A)) (ctx_tenant_id ctx) action_id ActionCompleted w
      in (w, json_body A 201 [(''x-action-id'', action_id), (''x-result-version'', ''v1'')]
           (JObject [(''action_id'', JString action_id), (''result_version'', JString ''v1''), (''result'', JString ''OK'')])))"

fun status_json :: "action_status \<Rightarrow> json" where
  "status_json ActionPending = JString ''PENDING''"
| "status_json ActionCompleted = JString ''COMPLETED''"
| "status_json ActionFailed = JString ''FAILED''"

definition get_action_status :: "('v, 'db, 'w) app \<Rightarrow> string \<Rightarrow> ('db, 'w) app_handler" where
  "get_action_status A action_id ctx req w =
     (case get_action (ap_actions A) (ctx_tenant_id ctx) action_id w of
        (w, Some r) \<Rightarrow> (w, json_body A 200 [] (JObject [(''action_id'', JString action_id), (''status'', status_json (ar_status r))]))
      | (w, None) \<Rightarrow> (w, plain_response 404))"

definition build_json_error_response :: "('v, 'db, 'w) app \<Rightarrow> string \<Rightarrow> nat \<Rightarrow> string option \<Rightarrow> idem_response" where
  "build_json_error_response A message status request_id =
     json_body A status [] (JObject ([(''status'', JNumber (PosInt (of_nat status))), (''error'', JString message)]
       @ (case request_id of Some i \<Rightarrow> [(''request_id'', JString i)] | None \<Rightarrow> [])))"

section \<open>The chain\<close>

text \<open>A response of theory \<open>Http_Types\<close>, whose headers are insertions in order, as a header map.\<close>

definition as_idem_response :: "http_response \<Rightarrow> idem_response" where
  "as_idem_response r =
     \<lparr>rs_status = resp_status r, rs_headers = fold (\<lambda>(n, v). hm_insert n v) (resp_headers r) [], rs_body = Some (resp_body r)\<rparr>"

definition or_status :: "'w \<times> (nat + idem_response) \<Rightarrow> 'w \<times> idem_response" where
  "or_status r = (fst r, case snd r of Inl c \<Rightarrow> plain_response c | Inr resp \<Rightarrow> resp)"

definition idempotent_layer :: "('v, 'db, 'w) app \<Rightarrow> 'db tenant_context \<Rightarrow> ('db, 'w) app_handler \<Rightarrow> idem_request \<Rightarrow> 'w \<Rightarrow> 'w \<times> idem_response" where
  "idempotent_layer A ctx handler req w =
     or_status (idempotency_middleware (ap_idem A) (ap_await A) (ap_now A) (ap_http A) (ap_url_path A) (ap_sha256 A)
       (idem_part (ap_config A)) (handler ctx) (req\<lparr>rq_tenant := Some (ctx_tenant_id ctx), rq_has_state := True\<rparr>) w)"

definition quota_layer_of :: "('v, 'db, 'w) app \<Rightarrow> 'db tenant_context \<Rightarrow> ('w \<Rightarrow> 'w \<times> idem_response) \<Rightarrow> 'w \<Rightarrow> 'w \<times> idem_response" where
  "quota_layer_of A ctx next_run w =
     (case quota_middleware (ap_http A) (ap_check_quota A) (Some ctx) (Some (ap_config A)) next_run w of
        (w, Inl violation) \<Rightarrow> (w, as_idem_response violation)
      | (w, Inr resp) \<Rightarrow> (w, resp))"

definition permissions_layer :: "('v, 'db, 'w) app \<Rightarrow> 'db tenant_context \<Rightarrow> string \<Rightarrow> ('db rbac_request \<Rightarrow> 'w \<Rightarrow> 'w \<times> idem_response)
    \<Rightarrow> 'w \<Rightarrow> 'w \<times> idem_response" where
  "permissions_layer A ctx token next_run w =
     (case load_permissions_middleware (ap_tx A) (ap_keys A) \<lparr>rq_context = Some ctx, rq_bearer_token = Some token, rq_permissions = None\<rparr>
             (\<lambda>req s. (s, req)) (ap_get_db A w) of
        (s, Inl c) \<Rightarrow> (ap_put_db A s w, plain_response c)
      | (s, Inr req) \<Rightarrow> next_run req (ap_put_db A s w))"

definition auth_layer :: "('v, 'db, 'w) app \<Rightarrow> app_request \<Rightarrow> ('db tenant_context \<Rightarrow> string \<Rightarrow> 'w \<Rightarrow> 'w \<times> idem_response) \<Rightarrow> 'w \<Rightarrow> 'w \<times> idem_response" where
  "auth_layer A req next_run w =
     (case auth_middleware (ap_paseto A) (ap_http A) (ap_clock A) (ap_auth A) (ap_conn A) (ar_authorization req) of
        Inl c \<Rightarrow> (w, plain_response c)
      | Inr (ctx, token) \<Rightarrow> next_run ctx token w)"

text \<open>Auth, LoadPermissions, RequirePermission, Quota, Idempotency, handler: outermost first.\<close>

definition protected_route :: "('v, 'db, 'w) app \<Rightarrow> string \<Rightarrow> ('db, 'w) app_handler \<Rightarrow> app_request \<Rightarrow> 'w \<Rightarrow> 'w \<times> idem_response" where
  "protected_route A permission handler req =
     auth_layer A req (\<lambda>ctx token.
       permissions_layer A ctx token (\<lambda>rbac_req w.
         or_status (require_permission permission rbac_req (\<lambda>_.
           quota_layer_of A ctx (idempotent_layer A ctx handler (ar_http req))) w)))"

definition auth_only_route :: "('v, 'db, 'w) app \<Rightarrow> ('db tenant_context \<Rightarrow> idem_response) \<Rightarrow> app_request \<Rightarrow> 'w \<Rightarrow> 'w \<times> idem_response" where
  "auth_only_route A handler req = auth_layer A req (\<lambda>ctx token w. (w, handler ctx))"

section \<open>Security headers\<close>

definition security_headers :: "(string \<times> string) list" where
  "security_headers =
     [(''x-frame-options'', ''DENY''), (''x-content-type-options'', ''nosniff''),
      (''strict-transport-security'', ''max-age=31536000; includeSubDomains; preload''),
      (''content-security-policy'', ''default-src ''@ [CHR 0x27] @ ''none'' @ [CHR 0x27] @ ''; frame-ancestors '' @ [CHR 0x27] @ ''none'' @ [CHR 0x27] @ '';''),
      (''cross-origin-opener-policy'', ''same-origin''), (''cross-origin-embedder-policy'', ''require-corp''),
      (''cross-origin-resource-policy'', ''same-origin'')]"

definition with_security_headers :: "idem_response \<Rightarrow> idem_response" where
  "with_security_headers resp = resp\<lparr>rs_headers := fold (\<lambda>(n, v). hm_insert n v) security_headers (rs_headers resp)\<rparr>"

text \<open>The routes of the file, with the permissions of the protected ones.\<close>

datatype endpoint = Health | Healthz | Readiness | Test | Action string

definition serve :: "('v, 'db, 'w) app \<Rightarrow> (duration \<Rightarrow> 'db \<Rightarrow> (string + unit) option) \<Rightarrow> environment \<Rightarrow> endpoint \<Rightarrow> app_request \<Rightarrow> 'w
    \<Rightarrow> 'w \<times> idem_response" where
  "serve A ping env endpoint req w = apsnd with_security_headers
     (case endpoint of
        Health \<Rightarrow> (w, liveness)
      | Healthz \<Rightarrow> (w, json_body A 200 [] (JObject [(''status'', JString ''ok'')]))
      | Readiness \<Rightarrow> auth_only_route A (readiness ping env) req w
      | Test \<Rightarrow> protected_route A ''test:write'' (write_test A) req w
      | Action action_id \<Rightarrow> protected_route A ''action:read'' (get_action_status A action_id) req w)"

text \<open>
  The routes of \<open>kernel-api/src/diagnostics.rs\<close>, nested under \<open>/api/v1/diagnostics\<close>; their handlers are
  those of theory \<open>Diagnostics_Api\<close> and act on their own part of the world.
\<close>

datatype diag_endpoint = DiagReport | DiagQuery | DiagHealth | DiagGetPolicy | DiagUpdatePolicy

fun diagnostics_permission :: "diag_endpoint \<Rightarrow> string" where
  "diagnostics_permission DiagReport = ''diagnostics:write''"
| "diagnostics_permission DiagQuery = ''diagnostics:read''"
| "diagnostics_permission DiagHealth = ''diagnostics:read''"
| "diagnostics_permission DiagGetPolicy = ''diagnostics:read''"
| "diagnostics_permission DiagUpdatePolicy = ''diagnostics:write''"

definition serve_diagnostics :: "('v, 'db, 'w) app \<Rightarrow> (diag_endpoint \<Rightarrow> ('db, 'w) app_handler) \<Rightarrow> diag_endpoint \<Rightarrow> app_request \<Rightarrow> 'w
    \<Rightarrow> 'w \<times> idem_response" where
  "serve_diagnostics A handlers endpoint req w =
     apsnd with_security_headers (protected_route A (diagnostics_permission endpoint) (handlers endpoint) req w)"

section \<open>Properties\<close>

lemma auth_layer_cases:
  obtains c where "auth_middleware (ap_paseto A) (ap_http A) (ap_clock A) (ap_auth A) (ap_conn A) (ar_authorization req) = Inl c"
      "\<And>k. auth_layer A req k w = (w, plain_response c)"
  | ctx token where "auth_middleware (ap_paseto A) (ap_http A) (ap_clock A) (ap_auth A) (ap_conn A) (ar_authorization req) = Inr (ctx, token)"
      "\<And>k. auth_layer A req k w = k ctx token w"
  by (cases "auth_middleware (ap_paseto A) (ap_http A) (ap_clock A) (ap_auth A) (ap_conn A) (ar_authorization req)")
    (auto simp: auth_layer_def)

lemma permissions_layer_cases:
  obtains c s where "\<And>k. permissions_layer A ctx token k w = (ap_put_db A s w, plain_response c)"
  | u s ps where "ctx_user_id ctx = Some u"
      "set ps = Collect (granted (db_tables (ap_get_db A w)) (tenant_str (ctx_tenant_id ctx)) (user_str u))"
      "\<And>k. permissions_layer A ctx token k w
         = k \<lparr>rq_context = Some ctx, rq_bearer_token = Some token, rq_permissions = Some (UserPermissions (permission_string ` set ps))\<rparr> (ap_put_db A s w)"
proof -
  let ?req = "\<lparr>rq_context = Some ctx, rq_bearer_token = Some token, rq_permissions = None\<rparr>"
  obtain s r where run: "load_permissions_middleware (ap_tx A) (ap_keys A) ?req (\<lambda>req s. (s, req)) (ap_get_db A w) = (s, r)" by fastforce
  from run show thesis
  proof (cases rule: load_permissions_cases)
    case (1 c)
    with run have "permissions_layer A ctx token k w = (ap_put_db A s w, plain_response c)" for k by (simp add: permissions_layer_def)
    then show thesis by (rule that(1))
  next
    case (2 ctx' u s2 ps resp)
    with run have "permissions_layer A ctx token k w
         = k \<lparr>rq_context = Some ctx, rq_bearer_token = Some token, rq_permissions = Some (UserPermissions (permission_string ` set ps))\<rparr> (ap_put_db A s w)" for k
      by (simp add: permissions_layer_def)
    with 2 show thesis by (intro that(2)) auto
  qed
qed

text \<open>
  C3 (safety): Nothing behind a protected route runs unless every guard in front of it let the request pass. Either
  the answer and the state are the same whatever the handler does; or the bearer token
  authenticated a user of a tenant, the tables grant that user in that tenant the permission of
  the route, the quota check admitted the four layers for that tenant, and the answer is what the
  idempotency middleware makes of the handler for that tenant, from the state the check left.
\<close>

theorem handlers_run_behind_all_guards:
  "(\<forall>handler'. protected_route A permission handler' req w = protected_route A permission handler req w)
   \<or> (\<exists>ctx token u p w1 w2.
        auth_middleware (ap_paseto A) (ap_http A) (ap_clock A) (ap_auth A) (ap_conn A) (ar_authorization req) = Inr (ctx, token)
        \<and> ctx_user_id ctx = Some u
        \<and> granted (db_tables (ap_get_db A w)) (tenant_str (ctx_tenant_id ctx)) (user_str u) p \<and> permission_string p = permission
        \<and> ap_check_quota A (ctx_tenant_id ctx) [SystemHardLimit, CircuitBreaker, TenantBudget, ApiRateLimit] w1 = (w2, Inr ())
        \<and> protected_route A permission handler req w = idempotent_layer A ctx handler (ar_http req) w2)"
proof (cases rule: auth_layer_cases [of A req w])
  case (1 c)
  then show ?thesis by (simp add: protected_route_def)
next
  case auth: (2 ctx token)
  show ?thesis
  proof (cases rule: permissions_layer_cases [of A ctx token w])
    case (1 c s)
    then show ?thesis by (simp add: protected_route_def auth(2))
  next
    case perms: (2 u s ps)
    let ?w1 = "ap_put_db A s w"
    show ?thesis
    proof (cases "permission \<in> permission_string ` set ps")
      case False
      then have "protected_route A permission h req w = (?w1, plain_response 403)" for h
        by (simp add: protected_route_def auth(2) perms(3) require_permission_def has_permission_def or_status_def)
      then show ?thesis by simp
    next
      case True
      then obtain p where p: "granted (db_tables (ap_get_db A w)) (tenant_str (ctx_tenant_id ctx)) (user_str u) p" "permission_string p = permission"
        using perms(2) by auto
      have run: "protected_route A permission h req w = quota_layer_of A ctx (idempotent_layer A ctx h (ar_http req)) ?w1" for h
        using True by (simp add: protected_route_def auth(2) perms(3) require_permission_def has_permission_def or_status_def split: prod.split)
      obtain w2 v where quota: "ap_check_quota A (ctx_tenant_id ctx) [SystemHardLimit, CircuitBreaker, TenantBudget, ApiRateLimit] ?w1 = (w2, v)" by fastforce
      show ?thesis
      proof (cases v)
        case (Inl violation)
        then show ?thesis unfolding run using quota by (simp add: quota_layer_of_def quota_middleware_def)
      next
        case (Inr x)
        then have "protected_route A permission handler req w = idempotent_layer A ctx handler (ar_http req) w2"
          unfolding run using quota by (simp add: quota_layer_of_def quota_middleware_def apsnd_def map_prod_def split: prod.split)
        with auth(1) perms(1) p quota Inr show ?thesis by auto
      qed
    qed
  qed
qed

lemma hm_insert_other:
  "filter (\<lambda>h. fst h = n) (hm_insert m v hs) = (if n = map to_ascii_lower m then [(n, v)] else filter (\<lambda>h. fst h = n) hs)"
  by (auto simp: hm_insert_def intro: filter_cong)

lemma fold_hm_insert:
  assumes "distinct (map fst l)" "list_all (\<lambda>(n, v). map to_ascii_lower n = n) l" "(n, v) \<in> set l"
  shows "filter (\<lambda>h. fst h = n) (fold (\<lambda>(n, v). hm_insert n v) l hs) = [(n, v)]"
  using assms
proof (induction l arbitrary: hs)
  case (Cons x l)
  obtain m u where x: "x = (m, u)" by (cases x)
  have keep: "filter (\<lambda>h. fst h = n) (fold (\<lambda>(n, v). hm_insert n v) l hs) = filter (\<lambda>h. fst h = n) hs"
    if "n \<notin> fst ` set l" "list_all (\<lambda>(n, v). map to_ascii_lower n = n) l" for hs
    using that by (induction l arbitrary: hs) (auto simp: hm_insert_other)
  show ?case
  proof (cases "(n, v) \<in> set l")
    case True
    then show ?thesis using Cons x by simp
  next
    case False
    then have "n = m" "v = u" using Cons.prems(3) x by auto
    then show ?thesis using Cons.prems x keep [of "hm_insert m u hs"] by (simp add: hm_insert_other)
  qed
qed simp

text \<open>
  Every response of the application, from whatever route, layer or handler, carries each security
  header exactly once and with the configured value, even if a handler or a replayed response set
  another.
\<close>

theorem responses_carry_security_headers:
  "list_all (\<lambda>(n, v). filter (\<lambda>h. fst h = n) (rs_headers (snd (serve A ping env endpoint req w))) = [(n, v)]) security_headers
   \<and> list_all (\<lambda>(n, v). filter (\<lambda>h. fst h = n) (rs_headers (snd (serve_diagnostics A handlers diag req w))) = [(n, v)]) security_headers"
proof -
  have "distinct (map fst security_headers)" by (simp add: security_headers_def)
  moreover have "list_all (\<lambda>(n, v). map to_ascii_lower n = n) security_headers" by code_simp
  ultimately show ?thesis
    by (auto simp: list_all_iff serve_def serve_diagnostics_def with_security_headers_def fold_hm_insert)
qed

text \<open>
  C36 (functional): With any store that keeps the contract of action stores, an action written by a tenant is answered as
  completed to that tenant under the identifier that the response named, and to nobody else: any
  other question is answered as if the action had not been written.
\<close>

theorem action_status_is_tenant_private:
  assumes "action_store (ap_actions A) view keys avail fits"
    and "(ctx_tenant_id ctx, snd (ap_uuid A w)) \<in> keys" "(ctx_tenant_id ctx', action_id) \<in> keys"
    and "avail (fst (ap_uuid A w))" "fits (fst (ap_uuid A w)) (mc_action_ttl (ap_config A))"
    and "write_test A ctx req w = (w1, resp)"
  shows "hm_get ''x-action-id'' (rs_headers resp) = Some (snd (ap_uuid A w))
    \<and> snd (get_action_status A action_id ctx' req' w1) =
      (case (if ctx_tenant_id ctx' = ctx_tenant_id ctx \<and> action_id = snd (ap_uuid A w) then Some ActionCompleted
             else view (fst (ap_uuid A w)) (ctx_tenant_id ctx', action_id)) of
         Some st \<Rightarrow> json_body A 200 [] (JObject [(''action_id'', JString action_id), (''status'', status_json st)])
       | None \<Rightarrow> plain_response 404)"
proof -
  obtain w0 i where i: "ap_uuid A w = (w0, i)" by (cases "ap_uuid A w")
  then have w1: "w1 = record_action (ap_actions A) (mc_action_ttl (ap_config A)) (ctx_tenant_id ctx) i ActionCompleted w0"
    and resp: "rs_headers resp = fold (\<lambda>(n, v). hm_insert n v) [(''x-action-id'', i), (''x-result-version'', ''v1'')] [(''content-type'', ''application/json'')]"
    using assms(6) by (auto simp: write_test_def json_body_def)
  obtain w2 r where get: "get_action (ap_actions A) (ctx_tenant_id ctx') action_id w1 = (w2, r)" by fastforce
  then have found: "map_option ar_status r = (if ctx_tenant_id ctx' = ctx_tenant_id ctx \<and> action_id = i then Some ActionCompleted
      else view w0 (ctx_tenant_id ctx', action_id))"
    using action_store.read_back [OF assms(1), of "ctx_tenant_id ctx" i "ctx_tenant_id ctx'" action_id w0 _ ActionCompleted w2 r]
      assms(2-5) i w1 by simp
  have "snd (get_action_status A action_id ctx' req' w1) =
      (case map_option ar_status r of
         Some st \<Rightarrow> json_body A 200 [] (JObject [(''action_id'', JString action_id), (''status'', status_json st)])
       | None \<Rightarrow> plain_response 404)"
    using get by (cases r) (simp_all add: get_action_status_def)
  moreover have "hm_get ''x-action-id'' (rs_headers resp) = Some i"
    by (simp add: resp hm_insert_def hm_get_def to_ascii_lower_def is_ascii_upper_def)
  ultimately show ?thesis using i by (simp add: found)
qed

text \<open>The in-memory store, in an application of which the rest is arbitrary.\<close>

definition with_memory_actions :: "('v, 'db, mem_actions) app \<Rightarrow> ('v, 'db, mem_actions) app" where
  "with_memory_actions A = A\<lparr>ap_actions := mem_action_ops, ap_uuid := (\<lambda>w. (w, ''u1'')), ap_config := MiddlewareConfig_default Map.empty\<rparr>"

definition no_actions :: mem_actions where
  "no_actions = \<lparr>ma_inner = Map.empty, ma_now = 5\<rparr>"

theorem action_status_is_tenant_private_witness:
  "\<forall>(A :: ('v, 'db, mem_actions) app) req.
     (\<lambda>w1. snd (get_action_status (with_memory_actions A) ''u1'' (TenantContext_new (TenantId ''t1'') None) req w1)
            = json_body (with_memory_actions A) 200 [] (JObject [(''action_id'', JString ''u1''), (''status'', JString ''COMPLETED'')])
          \<and> snd (get_action_status (with_memory_actions A) ''u1'' (TenantContext_new (TenantId ''t2'') None) req w1) = plain_response 404)
       (fst (write_test (with_memory_actions A) (TenantContext_new (TenantId ''t1'') None) req no_actions))"
proof (intro allI)
  fix A :: "('v, 'db, mem_actions) app" and req
  let ?A = "with_memory_actions A" and ?c1 = "TenantContext_new (TenantId ''t1'') None :: 'db tenant_context"
    and ?c2 = "TenantContext_new (TenantId ''t2'') None :: 'db tenant_context"
  obtain w1 resp where run: "write_test ?A ?c1 req no_actions = (w1, resp)" by fastforce
  have parts: "ap_actions ?A = mem_action_ops" "ap_uuid ?A w = (w, ''u1'')" "0 < mc_action_ttl (ap_config ?A)" for w
    by (simp_all add: with_memory_actions_def MiddlewareConfig_default_def get_env_duration_def)
  have store: "action_store (ap_actions ?A) mem_action_view UNIV (\<lambda>_. True) (\<lambda>m ttl. 0 < ttl)"
    unfolding parts by unfold_locales
  have tenants: "ctx_tenant_id ?c1 = TenantId ''t1''" "ctx_tenant_id ?c2 = TenantId ''t2''" by (simp_all add: TenantContext_new_def)
  have "mem_action_view no_actions k = None" for k by (simp add: mem_action_view_def no_actions_def)
  with action_status_is_tenant_private [OF store _ _ _ _ run, of ?c1 "''u1''" req]
    action_status_is_tenant_private [OF store _ _ _ _ run, of ?c2 "''u1''" req]
  show "(\<lambda>w1. snd (get_action_status ?A ''u1'' ?c1 req w1)
            = json_body ?A 200 [] (JObject [(''action_id'', JString ''u1''), (''status'', JString ''COMPLETED'')])
          \<and> snd (get_action_status ?A ''u1'' ?c2 req w1) = plain_response 404)
       (fst (write_test ?A ?c1 req no_actions))"
    by (simp add: run parts tenants)
qed

end
