(* ===== verification/Api_Startup.thy ===== *)
theory Api_Startup
  imports Api_App
begin

text \<open>
  How the API process starts (\<open>kernel-api/src/main.rs\<close>), and the profile of its node
  (\<open>kernel-api/src/profile.rs\<close>).

  \<open>main\<close> is one definition: its result is the reason for \<open>exit(1)\<close>, or what is being served. The
  database driver, the Redis client, the parser of socket addresses and \<open>bind\<close> are arguments; YAML and
  the file system are arguments of the profile.
\<close>

section \<open>Profiles\<close>

record slo_profile =
  sp_version :: string
  sp_updated_at :: string
  sp_region_mode :: string
  sp_intra_region_only :: bool
  sp_client_server_rtt_ms_excluded :: bool
  sp_cpu_vcpu :: nat
  sp_memory_gb :: u64
  sp_nic_gbps :: "32 word"
  sp_other :: "(string \<times> json) list"

text \<open>\<open>exists_at\<close> and \<open>read_at\<close> are the file system; a file that does not open reads as None.\<close>

fun first_profile :: "(string \<Rightarrow> bool) \<Rightarrow> (string \<Rightarrow> string option) \<Rightarrow> (string \<Rightarrow> slo_profile option) \<Rightarrow> string list \<Rightarrow> slo_profile option" where
  "first_profile exists_at read_at from_yaml [] = None"
| "first_profile exists_at read_at from_yaml (path # paths) =
     (if exists_at path then Option.bind (read_at path) from_yaml else first_profile exists_at read_at from_yaml paths)"

definition load_profile_with_path :: "(string \<Rightarrow> bool) \<Rightarrow> (string \<Rightarrow> string option) \<Rightarrow> (string \<Rightarrow> slo_profile option) \<Rightarrow> string option
    \<Rightarrow> slo_profile option" where
  "load_profile_with_path exists_at read_at from_yaml path_override =
     first_profile exists_at read_at from_yaml
       ((case path_override of Some path \<Rightarrow> [path] | None \<Rightarrow> []) @ [''ops/slo_profile.yaml'', ''../ops/slo_profile.yaml''])"

definition load_profile :: "environment \<Rightarrow> (string \<Rightarrow> bool) \<Rightarrow> (string \<Rightarrow> string option) \<Rightarrow> (string \<Rightarrow> slo_profile option) \<Rightarrow> slo_profile option" where
  "load_profile env exists_at read_at from_yaml = load_profile_with_path exists_at read_at from_yaml (env ''SLO_PROFILE_PATH'')"

text \<open>The products of the memory check are exact here; the code computes them in \<open>f64\<close>.\<close>

definition check_environment :: "nat \<Rightarrow> u64 \<Rightarrow> slo_profile \<Rightarrow> bool" where
  "check_environment cpu_count total_mem_bytes profile \<longleftrightarrow>
     \<not> cpu_count < sp_cpu_vcpu profile
     \<and> \<not> (of_nat (unat total_mem_bytes) :: rat) < of_nat (unat (sp_memory_gb profile)) * (9 / 10) * 1024 ^ 3"

lemma existing_override_decides:
  "exists_at path \<Longrightarrow> load_profile_with_path exists_at read_at from_yaml (Some path) = Option.bind (read_at path) from_yaml"
  by (simp add: load_profile_with_path_def)

section \<open>The start of the process\<close>

record ('v, 'db, 'c, 'm, 'a) start_env =
  su_paseto :: "'v paseto_env"
  su_vars :: environment
  su_connect :: "string \<Rightarrow> string + 'db"
  su_keys :: key_gen
  su_redis :: "('c, 'm) redis_client"
  su_parse_addr :: "string \<Rightarrow> 'a option"
  su_bind :: "'a \<Rightarrow> string + unit"

datatype exit_reason =
    ExitAuth string
  | ExitNoDatabaseUrl
  | ExitDatabase string
  | ExitKeyRotation key_manager_error
  | ExitRevocationListener string
  | ExitMiddleware string
  | ExitBindAddress string
  | ExitBind string

record ('db, 'c, 'm, 'a) serving =
  sv_db :: 'db
  sv_listener :: 'c
  sv_state :: "'m middleware_state"
  sv_addr :: 'a

definition api_main :: "('v, 'db, 'c, 'm, 'a) start_env \<Rightarrow> auth_globals \<Rightarrow> kdb
    \<Rightarrow> auth_globals \<times> kdb \<times> (exit_reason + ('db, 'c, 'm, 'a) serving)" where
  "api_main S g k =
     (case init_auth_config (su_paseto S) (su_vars S) g of
        (g, Inl msg) \<Rightarrow> (g, k, Inl (ExitAuth msg))
      | (g, Inr _) \<Rightarrow>
          (case su_vars S ''DATABASE_URL'' of
             None \<Rightarrow> (g, k, Inl ExitNoDatabaseUrl)
           | Some db_url \<Rightarrow>
               (case su_connect S db_url of
                  Inl e \<Rightarrow> (g, k, Inl (ExitDatabase e))
                | Inr db \<Rightarrow>
                    (case rotate_keys (su_keys S) (with_db system_tenant_context db) k of
                       (k, Inl e) \<Rightarrow> (g, k, Inl (ExitKeyRotation e))
                     | (k, Inr _) \<Rightarrow>
                         (let config = MiddlewareConfig_default (su_vars S) in
                          case redis_open (su_redis S) (mc_redis_url config) of
                            Inl e \<Rightarrow> (g, k, Inl (ExitRevocationListener e))
                          | Inr redis_client \<Rightarrow>
                              (case snd (new_with_redis (su_redis S) config) of
                                 Inl e \<Rightarrow> (g, k, Inl (ExitMiddleware e))
                               | Inr state \<Rightarrow>
                                   (let addr_str = get_env_string (su_vars S) ''KERNEL_API_HOST'' ''127.0.0.1'' @ '':''
                                          @ get_env_string (su_vars S) ''KERNEL_API_PORT'' ''3000''
                                    in case su_parse_addr S addr_str of
                                         None \<Rightarrow> (g, k, Inl (ExitBindAddress addr_str))
                                       | Some addr \<Rightarrow>
                                           (case su_bind S addr of
                                              Inl e \<Rightarrow> (g, k, Inl (ExitBind e))
                                            | Inr _ \<Rightarrow> (g, k, Inr \<lparr>sv_db = db, sv_listener = redis_client, sv_state = state, sv_addr = addr\<rparr>)))))))))"

text \<open>What ends the process first, and its exit status.\<close>

datatype first_event = ListenerReturned | ListenerPanicked | ServerFailed | ServerReturned

fun exit_status :: "first_event \<Rightarrow> nat" where
  "exit_status ListenerReturned = 1"
| "exit_status ListenerPanicked = 1"
| "exit_status ServerFailed = 1"
| "exit_status ServerReturned = 0"

lemma init_auth_config_ready:
  assumes "init_auth_config E env g = (g', Inr ())"
  shows "\<exists>ks pk. ag_keyset g' = Some ks \<and> ag_public_key g' = Some pk"
proof -
  obtain pk ks where "init_decoded pk ks g = (g', Inr ())"
    using assms by (auto simp: init_auth_config_def Let_def split: sum.splits option.splits)
  then show ?thesis by (cases "validate_key_material ks") (auto simp: init_decoded_def Let_def split: if_splits)
qed

lemma required_stores:
  assumes "snd (new_with_redis R config) = Inr st" and "mc_require_redis config"
  shows "\<exists>m. ms_stores st = RedisStores m"
  using assms by (auto simp: new_with_redis_def fallback_def Let_def split: if_splits sum.splits)

text \<open>
  The process serves requests only when everything they rely on is in place: the keyset is loaded, the
  database answered and its keys were rotated without an error, the revocation listener has a
  client for the configured Redis address, required Redis stores are connected, and the socket is
  bound to the configured address. In every other case it ends, and it has touched the key table only
  if the authentication was configured and the database answered.
\<close>

theorem served_only_when_ready:
  "case api_main S g k of
     (g', k', Inr sv) \<Rightarrow>
       (\<exists>ks pk. ag_keyset g' = Some ks \<and> ag_public_key g' = Some pk)
       \<and> rotate_keys (su_keys S) (with_db system_tenant_context (sv_db sv)) k = (k', Inr ())
       \<and> redis_open (su_redis S) (mc_redis_url (MiddlewareConfig_default (su_vars S))) = Inr (sv_listener sv)
       \<and> snd (new_with_redis (su_redis S) (MiddlewareConfig_default (su_vars S))) = Inr (sv_state sv)
       \<and> (if mc_require_redis (MiddlewareConfig_default (su_vars S)) then \<exists>m. ms_stores (sv_state sv) = RedisStores m else True)
       \<and> su_bind S (sv_addr sv) = Inr ()
   | (g', k', Inl reason) \<Rightarrow>
       k' = k \<or> (\<exists>db r. (\<exists>url. su_vars S ''DATABASE_URL'' = Some url \<and> su_connect S url = Inr db)
                  \<and> snd (init_auth_config (su_paseto S) (su_vars S) g) = Inr ()
                  \<and> rotate_keys (su_keys S) (with_db system_tenant_context db) k = (k', r))"
proof -
  obtain g' k' res where run: "api_main S g k = (g', k', res)" by (metis surj_pair)
  show ?thesis
  proof (cases res)
    case (Inl reason)
    then show ?thesis using run unfolding api_main_def Let_def
      by (auto split: prod.splits sum.splits option.splits)
  next
    case (Inr sv)
    with run have "init_auth_config (su_paseto S) (su_vars S) g = (g', Inr ())"
      "rotate_keys (su_keys S) (with_db system_tenant_context (sv_db sv)) k = (k', Inr ())"
      "redis_open (su_redis S) (mc_redis_url (MiddlewareConfig_default (su_vars S))) = Inr (sv_listener sv)"
      "snd (new_with_redis (su_redis S) (MiddlewareConfig_default (su_vars S))) = Inr (sv_state sv)" "su_bind S (sv_addr sv) = Inr ()"
      unfolding api_main_def Let_def by (auto split: prod.splits sum.splits option.splits)
    with init_auth_config_ready [of "su_paseto S" "su_vars S" g g'] required_stores [of "su_redis S" "MiddlewareConfig_default (su_vars S)" "sv_state sv"]
    show ?thesis by (simp add: run Inr)
  qed
qed

end
