(* ===== verification/Sandbox_Watchdog.thy ===== *)
theory Sandbox_Watchdog
  imports Sandbox_Fetch
begin

text \<open>
  The watchdogs of the sandboxes: the thread that interrupts a WebAssembly execution
  (\<open>kernel-runtime/src/wasm_runtime.rs\<close>), the wall-clock and the CPU watchdog of a JavaScript execution with the group
  that stops them, and how their flags reach the result (\<open>deno_runtime.rs\<close>).

  A watchdog's loop is a function of what it observes in each turn: the time that has passed, in nanoseconds,
  and whether it was told to stop. When the observations end before it has decided, it is still
  watching. That a sleeping thread wakes up no earlier than after its slice and at most \<open>lag\<close> later
  is the hypothesis of what is said about time.
\<close>

section \<open>The loops\<close>

definition SLEEP_SLICE :: nat where
  "SLEEP_SLICE = 10 * 1000000"

datatype watchdog_state = Watching | Stopped | Fired nat | ClockFailed

text \<open>
  A turn reads the clock and then the flag, in the loop as well as after it; a turn before the limit
  ends in a sleep.
\<close>

fun wall_watchdog :: "nat \<Rightarrow> (nat \<times> bool) list \<Rightarrow> watchdog_state" where
  "wall_watchdog limit [] = Watching"
| "wall_watchdog limit ((elapsed, cancelled) # obs) =
     (if elapsed < limit then (if cancelled then Stopped else wall_watchdog limit obs)
      else if \<not> cancelled then Fired elapsed else Stopped)"

text \<open>The one of a WebAssembly execution gets what is left of the limit when the module is compiled.\<close>

definition wasm_watchdog :: "runtime_options \<Rightarrow> nat \<Rightarrow> (nat \<times> bool) list \<Rightarrow> watchdog_state" where
  "wasm_watchdog ro elapsed obs = wall_watchdog (ro_wall_clock_limit ro - elapsed) obs"

text \<open>\<open>clock_gettime\<close> returns a code and the two fields of a \<open>timespec\<close>.\<close>

definition thread_cpu_time :: "int \<times> int \<times> int \<Rightarrow> string + nat" where
  "thread_cpu_time t =
     (let (rc, tv_sec, tv_nsec) = t in
      if rc \<noteq> 0 then Inl ''failed to read thread CPU usage''
      else if tv_sec < 0 \<or> tv_nsec < 0 then Inl ''thread CPU clock returned negative timestamp''
      else if tv_nsec \<ge> 1000000000 then Inl ''thread CPU clock returned invalid nanoseconds''
      else Inr (nat (tv_sec * 1000000000 + tv_nsec)))"

text \<open>A turn reads the flag, the CPU clock, and the flag again before it sleeps.\<close>

fun cpu_watchdog :: "nat \<Rightarrow> nat \<Rightarrow> (bool \<times> (int \<times> int \<times> int) \<times> bool) list \<Rightarrow> watchdog_state" where
  "cpu_watchdog limit start [] = Watching"
| "cpu_watchdog limit start ((cancelled, clock, cancelled') # obs) =
     (if cancelled then Stopped
      else (case thread_cpu_time clock of
              Inr now \<Rightarrow> if now - start \<ge> limit then Fired (now - start)
                         else if cancelled' then Stopped else cpu_watchdog limit start obs
            | Inl _ \<Rightarrow> ClockFailed))"

text \<open>
  The flags at the end of a JavaScript execution. \<open>ended\<close> is the result of the event loop, None when
  the outer timeout came first; \<open>near_heap\<close> says that V8 called back near its heap limit.
\<close>

definition deno_end_of :: "bool \<Rightarrow> watchdog_state \<Rightarrow> watchdog_state \<Rightarrow> (sandbox_error + unit) option \<Rightarrow> deno_end" where
  "deno_end_of near_heap wall cpu ended =
     \<lparr>de_result = (case ended of Some res \<Rightarrow> res | None \<Rightarrow> Inl Timeout),
      de_heap_oom = near_heap,
      de_cpu_clock_failed = (cpu = ClockFailed),
      de_cpu_timeout = (case cpu of Fired _ \<Rightarrow> True | _ \<Rightarrow> False),
      de_wall_timeout = (ended = None \<or> (case wall of Fired _ \<Rightarrow> True | _ \<Rightarrow> False))\<rparr>"

text \<open>How many executions and compilations run at once, from the number of processors.\<close>

definition sandbox_permits :: "nat option \<Rightarrow> nat" where
  "sandbox_permits parallelism = clamp_nat (or_else parallelism 2) 2 8"

section \<open>A watchdog stops what runs too long\<close>

text \<open>The turns of a thread that starts in time and sleeps a slice, give or take \<open>lag\<close>.\<close>

fun timely :: "nat \<Rightarrow> nat \<Rightarrow> nat list \<Rightarrow> bool" where
  "timely lag t [] \<longleftrightarrow> True"
| "timely lag t (x # xs) \<longleftrightarrow> t \<le> x \<and> x \<le> t + lag \<and> timely lag (x + SLEEP_SLICE) xs"

lemma wall_watchdog_running:
  "timely lag t ts \<Longrightarrow> wall_watchdog limit (map (\<lambda>x. (x, False)) ts) = Watching \<Longrightarrow> ts \<noteq> [] \<Longrightarrow> last ts < limit \<and> t + (length ts - 1) * SLEEP_SLICE \<le> last ts"
proof (induction ts arbitrary: t)
  case (Cons x xs)
  show ?case
  proof (cases "xs = []")
    case False
    then have "last xs < limit \<and> x + SLEEP_SLICE + (length xs - 1) * SLEEP_SLICE \<le> last xs"
      using Cons by (auto split: if_splits)
    moreover have "length xs * SLEEP_SLICE = SLEEP_SLICE + (length xs - 1) * SLEEP_SLICE"
      using False by (cases xs) auto
    ultimately show ?thesis using Cons.prems(1) False by simp
  qed (use Cons.prems in \<open>auto split: if_splits\<close>)
qed simp

lemma wall_watchdog_fired:
  "timely lag t ts \<Longrightarrow> t < limit + SLEEP_SLICE \<Longrightarrow> wall_watchdog limit (map (\<lambda>x. (x, False)) ts) = s \<Longrightarrow> s \<noteq> Watching
     \<Longrightarrow> \<exists>e. s = Fired e \<and> limit \<le> e \<and> e < limit + SLEEP_SLICE + lag"
  by (induction ts arbitrary: t) (auto split: if_splits)

text \<open>
  C40 (bounds): Code that runs too long is interrupted in time. If nobody stops the watchdog and its thread wakes up at
  most \<open>lag\<close> later than it asked for, then it raises the timeout after at most one turn per slice of the limit and
  one more, not before the limit and less than a slice and \<open>lag\<close> behind it.
\<close>

theorem watchdog_fires_in_time:
  assumes "timely lag 0 ts" and "length ts \<ge> limit div SLEEP_SLICE + 2"
  shows "\<exists>e. wall_watchdog limit (map (\<lambda>x. (x, False)) ts) = Fired e \<and> limit \<le> e \<and> e < limit + SLEEP_SLICE + lag"
proof -
  let ?s = "wall_watchdog limit (map (\<lambda>x. (x, False)) ts)"
  have "?s \<noteq> Watching"
  proof
    assume w: "?s = Watching"
    have "ts \<noteq> []" using assms(2) by auto
    then have "(length ts - 1) * SLEEP_SLICE < limit" using wall_watchdog_running [OF assms(1) w] by simp
    moreover have "(limit div SLEEP_SLICE + 1) * SLEEP_SLICE \<le> (length ts - 1) * SLEEP_SLICE"
      using assms(2) by (intro mult_right_mono) auto
    moreover have "limit < (limit div SLEEP_SLICE + 1) * SLEEP_SLICE"
      by (simp add: SLEEP_SLICE_def)
    ultimately show False by linarith
  qed
  then show ?thesis using wall_watchdog_fired [OF assms(1)] by (simp add: SLEEP_SLICE_def)
qed

theorem watchdog_fires_in_time_witness:
  "\<exists>e. wall_watchdog 15000000 (map (\<lambda>x. (x, False)) [1000, 10002000, 20003000]) = Fired e \<and> 15000000 \<le> e \<and> e < 25001000"
  using watchdog_fires_in_time [of 1000 "[1000, 10002000, 20003000]" 15000000] by (simp add: SLEEP_SLICE_def)

text \<open>Told to stop, a watchdog stops at its next turn and raises nothing: joining it takes one sleep at most.\<close>

lemma wall_watchdog_stops:
  "wall_watchdog limit (map (\<lambda>x. (x, False)) ts) = Watching \<Longrightarrow> wall_watchdog limit (map (\<lambda>x. (x, False)) ts @ (t, True) # obs) = Stopped"
  by (induction ts) (auto split: if_splits)

lemma cpu_watchdog_stops:
  "cpu_watchdog limit start obs = Watching \<Longrightarrow> cpu_watchdog limit start (obs @ (True, clock, c) # obs') = Stopped"
  by (induction limit start obs rule: cpu_watchdog.induct) (auto split: if_splits sum.splits)

text \<open>The CPU watchdog never lets a turn pass with the limit used up or the clock unreadable.\<close>

lemma cpu_watchdog_watches:
  "cpu_watchdog limit start obs = Watching \<Longrightarrow> (c, clock, c') \<in> set obs \<Longrightarrow> \<exists>now. thread_cpu_time clock = Inr now \<and> now - start < limit"
  by (induction limit start obs rule: cpu_watchdog.induct) (auto split: if_splits sum.splits)

text \<open>
  What the client is told when an execution was terminated: the strictest limit that was hit, in the order memory,
  CPU clock, CPU time, wall clock; an error of the script itself only if no limit was.
\<close>

theorem termination_is_explained:
  assumes "ended = None \<or> ended = Some (Inl err)"
  shows "deno_outcome (deno_end_of near_heap wall cpu ended) output null =
     Inl (if near_heap then MemoryLimitExceeded
          else case cpu of
                 ClockFailed \<Rightarrow> RuntimeError ''failed to enforce CPU limit due to thread CPU clock error''
               | Fired _ \<Rightarrow> CpuLimitExceeded
               | _ \<Rightarrow> (if ended = None \<or> (\<exists>e. wall = Fired e) then Timeout else err))"
  using assms by (auto simp: deno_outcome_def deno_end_of_def split: watchdog_state.split)

end
