(* ===== verification/Authorize_Original.thy ===== *)
theory Authorize_Original
  imports Key_Manager
begin

text \<open>
  The SQL function \<open>flexi.authorize_tenant\<close> before keys were kept in a table, as migration
  \<open>m20240216_000001_init_rls.rs\<close> creates it and the rollback of \<open>m20250521_000001_key_management.rs\<close> restores it,
  and the tables and trigger that make a nonce usable once. Theory \<open>Key_Manager\<close> has the present function.

  A session's used nonces there are the nonces of the table \<open>nonce_uniqueness\<close> here.
\<close>

section \<open>Nonces\<close>

text \<open>Nonces with their times: the partitioned table and the table that guards it.\<close>

record nonce_tables =
  nt_nonces :: "(string \<times> int) list"
  nt_uniqueness :: "(string \<times> int) list"

definition check_nonce_uniqueness :: "string \<times> int \<Rightarrow> nonce_tables \<Rightarrow> string + nonce_tables" where
  "check_nonce_uniqueness r t =
     (if fst r \<in> fst ` set (nt_uniqueness t) then Inl ''Nonce already used''
      else Inr (t\<lparr>nt_uniqueness := r # nt_uniqueness t\<rparr>))"

text \<open>The trigger runs before the insertion; the key of the partitioned table has the time in it.\<close>

definition insert_nonce :: "string \<times> int \<Rightarrow> nonce_tables \<Rightarrow> string + nonce_tables" where
  "insert_nonce r t =
     and_then (check_nonce_uniqueness r t) (\<lambda>t.
       if r \<in> set (nt_nonces t) then Inl ''Nonce already used'' else Inr (t\<lparr>nt_nonces := r # nt_nonces t\<rparr>))"

section \<open>The function\<close>

definition authorize_tenant_original :: "(string \<Rightarrow> string \<Rightarrow> string) \<Rightarrow> (string \<Rightarrow> int option) \<Rightarrow> int \<Rightarrow> string
    \<Rightarrow> pg_session \<Rightarrow> string + pg_session" where
  "authorize_tenant_original hmac_hex bigint now token_val pg =
     (if token_val = [] then Inl ''Missing or empty tenant token''
      else (case split_char (CHR '':'') token_val of
              [ver, kid_val, ts_str, nonce_val, tenant_id_val, sig] \<Rightarrow>
                if ver \<noteq> ''v2'' then Inl (''Unsupported token version: '' @ ver)
                else (case bigint ts_str of
                        None \<Rightarrow> Inl ''invalid input syntax for type bigint''
                      | Some ts \<Rightarrow>
                          (let now_ts = (now + 500000) div 1000000 in
                           if ts < now_ts - 30 \<or> ts > now_ts + 30 then Inl ''Token timestamp expired or future (skew > 30s)''
                           else (case pg_hmac_secret pg of
                                   None \<Rightarrow> Inl ''HMAC secret not set''
                                 | Some secret \<Rightarrow>
                                     if secret = [] then Inl ''HMAC secret not set''
                                     else if sig \<noteq> hmac_hex secret (join '':'' [ver, kid_val, ts_str, nonce_val, tenant_id_val])
                                     then Inl ''Invalid signature''
                                     else if nonce_val \<in> set (pg_nonces pg) then Inl ''Nonce already used''
                                     else Inr (pg\<lparr>pg_nonces := nonce_val # pg_nonces pg,
                                            pg_current_tenant := Some tenant_id_val,
                                            pg_ctx_sig := Some (hmac_hex secret tenant_id_val)\<rparr>))))
            | _ \<Rightarrow> Inl ''Invalid token format''))"

section \<open>Properties\<close>

text \<open>What the tables hold together: every nonce is in the guard, once.\<close>

definition nonces_guarded :: "nonce_tables \<Rightarrow> bool" where
  "nonces_guarded t \<longleftrightarrow> set (nt_nonces t) = set (nt_uniqueness t) \<and> distinct (map fst (nt_uniqueness t))"

text \<open>
  The two nonce tables and the trigger implement a set of used nonces: an insertion succeeds exactly for
  a nonce never used, at whatever time, adds that nonce only, and keeps the partitioned table and
  its guard in agreement.
\<close>

theorem insert_nonce_refines_set:
  assumes "nonces_guarded t"
  shows "case insert_nonce (n, at) t of
      Inl e \<Rightarrow> n \<in> fst ` set (nt_uniqueness t)
    | Inr t' \<Rightarrow> n \<notin> fst ` set (nt_uniqueness t) \<and> fst ` set (nt_uniqueness t') = insert n (fst ` set (nt_uniqueness t)) \<and> nonces_guarded t'"
  using assms by (force simp: insert_nonce_def check_nonce_uniqueness_def nonces_guarded_def)

text \<open>
  With one secret for the tokens and the context the present function and the original agree on every token,
  refusals and their messages included.
\<close>

theorem original_agrees_on_shared_secret:
  assumes "pg_hmac_secret pg = Some secret" "secret \<noteq> []"
    and "\<And>ver kid ts n t sig. split_char (CHR '':'') token = [ver, kid, ts, n, t, sig] \<Longrightarrow> lookup_secret rows now kid = Some secret"
  shows "authorize_tenant_original hmac_hex bigint now token pg = authorize_tenant hmac_hex bigint rows now token pg"
  using assms(1,2) assms(3)
  by (auto simp: authorize_tenant_original_def authorize_tenant_def Let_def split: list.split option.split)

text \<open>
  A token is accepted once: whoever presents it again, at whatever time and under whatever secret,
  as long as the nonces are kept, is refused.
\<close>

theorem original_accepts_once:
  assumes "authorize_tenant_original hmac_hex bigint now token pg = Inr pg'" and "set (pg_nonces pg') \<subseteq> set (pg_nonces pg2)"
  shows "\<exists>e. authorize_tenant_original hmac_hex bigint now2 token pg2 = Inl e"
  using assms by (auto simp: authorize_tenant_original_def Let_def split: if_splits list.splits option.splits)

text \<open>
  After the rollback no token of the key table opens a tenant, unless its signature is also the
  one under the session's secret: what counts is that secret alone, whatever key the token names.
\<close>

theorem original_ignores_key_table:
  assumes "authorize_tenant_original hmac_hex bigint now token pg = Inr pg'"
  shows "\<exists>secret kid ts n t. pg_hmac_secret pg = Some secret \<and> secret \<noteq> []
    \<and> split_char (CHR '':'') token = [''v2'', kid, ts, n, t, hmac_hex secret (join '':'' [''v2'', kid, ts, n, t])]
    \<and> n \<notin> set (pg_nonces pg) \<and> pg_nonces pg' = n # pg_nonces pg \<and> pg_current_tenant pg' = Some t"
  using assms by (auto simp: authorize_tenant_original_def Let_def split: if_splits list.splits option.splits)

end
