(* ===== verification/Rbac_Tables.thy ===== *)
theory Rbac_Tables
  imports Rbac
begin

text \<open>
  The constraints of the five tables of role-based access control, migration \<open>m20250627_000005_create_rbac.rs\<close>:
  primary keys, unique keys, foreign keys that cascade on deletion, and the tenant policy, as
  they decide insertions and deletions; the creation and removal of the tables; the
  seeding helper of \<open>kernel-data/src/rbac.rs\<close>.

  The rows and the query are those of theory \<open>Rbac\<close>. PostgreSQL checks the policy of a new row first, then the
  keys, then what the row refers to; checks and cascades of foreign keys are not subject to policies.
\<close>

section \<open>Constraints\<close>

datatype rbac_error = PolicyViolation | UniqueViolation | ForeignKeyViolation

definition role_key :: "role_row \<Rightarrow> string \<times> string" where "role_key r = (rl_id r, rl_tenant_id r)"
definition role_unique :: "role_row \<Rightarrow> string list" where "role_unique r = [rl_tenant_id r, rl_name r]"

definition permission_key :: "permission_row \<Rightarrow> string \<times> string" where "permission_key p = (pm_id p, pm_tenant_id p)"
definition permission_unique :: "permission_row \<Rightarrow> string list" where
  "permission_unique p = [pm_tenant_id p, pm_role_id p, pm_resource p, pm_action p]"
definition permission_role :: "permission_row \<Rightarrow> string \<times> string" where "permission_role p = (pm_role_id p, pm_tenant_id p)"

definition group_key :: "group_row \<Rightarrow> string \<times> string" where "group_key g = (gp_id g, gp_tenant_id g)"
definition group_unique :: "group_row \<Rightarrow> string list" where "group_unique g = [gp_tenant_id g, gp_name g]"

definition member_key :: "group_member_row \<Rightarrow> string \<times> string" where "member_key m = (gm_id m, gm_tenant_id m)"
definition member_unique :: "group_member_row \<Rightarrow> string list" where "member_unique m = [gm_tenant_id m, gm_group_id m, gm_user_id m]"
definition member_group :: "group_member_row \<Rightarrow> string \<times> string" where "member_group m = (gm_group_id m, gm_tenant_id m)"

definition group_role_key :: "group_role_row \<Rightarrow> string \<times> string" where "group_role_key x = (gr_id x, gr_tenant_id x)"
definition group_role_unique :: "group_role_row \<Rightarrow> string list" where
  "group_role_unique x = [gr_tenant_id x, gr_group_id x, gr_role_id x]"
definition group_role_group :: "group_role_row \<Rightarrow> string \<times> string" where "group_role_group x = (gr_group_id x, gr_tenant_id x)"
definition group_role_role :: "group_role_row \<Rightarrow> string \<times> string" where "group_role_role x = (gr_role_id x, gr_tenant_id x)"

lemmas key_defs =
  role_key_def role_unique_def permission_key_def permission_unique_def permission_role_def group_key_def group_unique_def
  member_key_def member_unique_def member_group_def group_role_key_def group_role_unique_def group_role_group_def group_role_role_def

section \<open>Insertions and deletions\<close>

definition table_insert :: "('r \<Rightarrow> string \<times> string) \<Rightarrow> ('r \<Rightarrow> string list) \<Rightarrow> string option \<Rightarrow> 'r \<Rightarrow> 'r list \<Rightarrow> rbac_error + 'r list" where
  "table_insert key uniq policy r rows =
     (if policy \<noteq> Some (snd (key r)) then Inl PolicyViolation
      else if key r \<in> key ` set rows \<or> uniq r \<in> uniq ` set rows then Inl UniqueViolation
      else Inr (rows @ [r]))"

definition insert_role :: "string option \<Rightarrow> role_row \<Rightarrow> rbac_tables \<Rightarrow> rbac_error + rbac_tables" where
  "insert_role policy r d =
     map_sum id (\<lambda>rows. d\<lparr>rb_roles := rows\<rparr>) (table_insert role_key role_unique policy r (rb_roles d))"

definition insert_permission :: "string option \<Rightarrow> permission_row \<Rightarrow> rbac_tables \<Rightarrow> rbac_error + rbac_tables" where
  "insert_permission policy p d =
     and_then (table_insert permission_key permission_unique policy p (rb_permissions d)) (\<lambda>rows.
       if permission_role p \<notin> role_key ` set (rb_roles d) then Inl ForeignKeyViolation else Inr (d\<lparr>rb_permissions := rows\<rparr>))"

definition insert_group :: "string option \<Rightarrow> group_row \<Rightarrow> rbac_tables \<Rightarrow> rbac_error + rbac_tables" where
  "insert_group policy g d =
     map_sum id (\<lambda>rows. d\<lparr>rb_groups := rows\<rparr>) (table_insert group_key group_unique policy g (rb_groups d))"

definition insert_group_member :: "string option \<Rightarrow> group_member_row \<Rightarrow> rbac_tables \<Rightarrow> rbac_error + rbac_tables" where
  "insert_group_member policy m d =
     and_then (table_insert member_key member_unique policy m (rb_group_members d)) (\<lambda>rows.
       if member_group m \<notin> group_key ` set (rb_groups d) then Inl ForeignKeyViolation else Inr (d\<lparr>rb_group_members := rows\<rparr>))"

definition insert_group_role :: "string option \<Rightarrow> group_role_row \<Rightarrow> rbac_tables \<Rightarrow> rbac_error + rbac_tables" where
  "insert_group_role policy x d =
     and_then (table_insert group_role_key group_role_unique policy x (rb_group_roles d)) (\<lambda>rows.
       if group_role_group x \<notin> group_key ` set (rb_groups d) \<or> group_role_role x \<notin> role_key ` set (rb_roles d)
       then Inl ForeignKeyViolation else Inr (d\<lparr>rb_group_roles := rows\<rparr>))"

text \<open>\<open>ON DELETE CASCADE\<close>: what refers to a deleted role or group is deleted with it.\<close>

definition deletes :: "('r \<Rightarrow> string) \<Rightarrow> string option \<Rightarrow> ('r \<Rightarrow> bool) \<Rightarrow> 'r \<Rightarrow> bool" where
  "deletes tenant policy P r \<longleftrightarrow> policy = Some (tenant r) \<and> P r"

definition delete_roles :: "string option \<Rightarrow> (role_row \<Rightarrow> bool) \<Rightarrow> rbac_tables \<Rightarrow> rbac_tables" where
  "delete_roles policy P d =
     (let gone = map role_key (filter (deletes rl_tenant_id policy P) (rb_roles d))
      in d\<lparr>rb_roles := filter (\<lambda>r. \<not> deletes rl_tenant_id policy P r) (rb_roles d),
           rb_permissions := filter (\<lambda>p. permission_role p \<notin> set gone) (rb_permissions d),
           rb_group_roles := filter (\<lambda>x. group_role_role x \<notin> set gone) (rb_group_roles d)\<rparr>)"

definition delete_groups :: "string option \<Rightarrow> (group_row \<Rightarrow> bool) \<Rightarrow> rbac_tables \<Rightarrow> rbac_tables" where
  "delete_groups policy P d =
     (let gone = map group_key (filter (deletes gp_tenant_id policy P) (rb_groups d))
      in d\<lparr>rb_groups := filter (\<lambda>g. \<not> deletes gp_tenant_id policy P g) (rb_groups d),
           rb_group_members := filter (\<lambda>m. member_group m \<notin> set gone) (rb_group_members d),
           rb_group_roles := filter (\<lambda>x. group_role_group x \<notin> set gone) (rb_group_roles d)\<rparr>)"

definition delete_permissions :: "string option \<Rightarrow> (permission_row \<Rightarrow> bool) \<Rightarrow> rbac_tables \<Rightarrow> rbac_tables" where
  "delete_permissions policy P d = d\<lparr>rb_permissions := filter (\<lambda>p. \<not> deletes pm_tenant_id policy P p) (rb_permissions d)\<rparr>"

definition delete_group_members :: "string option \<Rightarrow> (group_member_row \<Rightarrow> bool) \<Rightarrow> rbac_tables \<Rightarrow> rbac_tables" where
  "delete_group_members policy P d = d\<lparr>rb_group_members := filter (\<lambda>m. \<not> deletes gm_tenant_id policy P m) (rb_group_members d)\<rparr>"

definition delete_group_roles :: "string option \<Rightarrow> (group_role_row \<Rightarrow> bool) \<Rightarrow> rbac_tables \<Rightarrow> rbac_tables" where
  "delete_group_roles policy P d = d\<lparr>rb_group_roles := filter (\<lambda>x. \<not> deletes gr_tenant_id policy P x) (rb_group_roles d)\<rparr>"

text \<open>What the tables can come to hold: the policy of each statement is that of its session.\<close>

definition empty_tables :: rbac_tables where
  "empty_tables = \<lparr>rb_permissions = [], rb_roles = [], rb_groups = [], rb_group_roles = [], rb_group_members = []\<rparr>"

inductive rbac_reachable :: "rbac_tables \<Rightarrow> bool" where
  created: "rbac_reachable empty_tables"
| role: "rbac_reachable d \<Longrightarrow> insert_role policy r d = Inr d' \<Longrightarrow> rbac_reachable d'"
| permission: "rbac_reachable d \<Longrightarrow> insert_permission policy p d = Inr d' \<Longrightarrow> rbac_reachable d'"
| "group": "rbac_reachable d \<Longrightarrow> insert_group policy g d = Inr d' \<Longrightarrow> rbac_reachable d'"
| member: "rbac_reachable d \<Longrightarrow> insert_group_member policy m d = Inr d' \<Longrightarrow> rbac_reachable d'"
| group_role: "rbac_reachable d \<Longrightarrow> insert_group_role policy x d = Inr d' \<Longrightarrow> rbac_reachable d'"
| no_roles: "rbac_reachable d \<Longrightarrow> rbac_reachable (delete_roles policy P1 d)"
| no_groups: "rbac_reachable d \<Longrightarrow> rbac_reachable (delete_groups policy P2 d)"
| no_permissions: "rbac_reachable d \<Longrightarrow> rbac_reachable (delete_permissions policy P3 d)"
| no_members: "rbac_reachable d \<Longrightarrow> rbac_reachable (delete_group_members policy P4 d)"
| no_group_roles: "rbac_reachable d \<Longrightarrow> rbac_reachable (delete_group_roles policy P5 d)"

section \<open>Keys stay keys, references stay valid\<close>

definition keyed :: "('r \<Rightarrow> string \<times> string) \<Rightarrow> ('r \<Rightarrow> string list) \<Rightarrow> 'r list \<Rightarrow> bool" where
  "keyed key uniq rows \<longleftrightarrow> distinct (map key rows) \<and> distinct (map uniq rows)"

definition refers :: "('r \<Rightarrow> string \<times> string) \<Rightarrow> 'r list \<Rightarrow> ('s \<Rightarrow> string \<times> string) \<Rightarrow> 's list \<Rightarrow> bool" where
  "refers ref rows key targets \<longleftrightarrow> (\<forall>r \<in> set rows. ref r \<in> key ` set targets)"

definition rbac_wf :: "rbac_tables \<Rightarrow> bool" where
  "rbac_wf d \<longleftrightarrow>
     keyed role_key role_unique (rb_roles d) \<and> keyed permission_key permission_unique (rb_permissions d)
     \<and> keyed group_key group_unique (rb_groups d) \<and> keyed member_key member_unique (rb_group_members d)
     \<and> keyed group_role_key group_role_unique (rb_group_roles d)
     \<and> refers permission_role (rb_permissions d) role_key (rb_roles d)
     \<and> refers member_group (rb_group_members d) group_key (rb_groups d)
     \<and> refers group_role_group (rb_group_roles d) group_key (rb_groups d)
     \<and> refers group_role_role (rb_group_roles d) role_key (rb_roles d)"

lemma keyed_insert: "table_insert key uniq policy r rows = Inr rows' \<Longrightarrow> keyed key uniq rows \<Longrightarrow> keyed key uniq rows' \<and> rows' = rows @ [r]"
  by (auto simp: table_insert_def keyed_def split: if_splits)

lemma keyed_filter [simp]: "keyed key uniq rows \<Longrightarrow> keyed key uniq (filter P rows)"
  by (simp add: keyed_def distinct_map_filter)

lemma keyed_Nil [simp]: "keyed key uniq []"
  by (simp add: keyed_def)

lemma refers_Nil [simp]: "refers ref [] key targets"
  by (simp add: refers_def)

lemma refers_append [simp]: "refers ref (rows @ [r]) key targets \<longleftrightarrow> refers ref rows key targets \<and> ref r \<in> key ` set targets"
  by (auto simp: refers_def)

lemma refers_more [simp]: "refers ref rows key targets \<Longrightarrow> refers ref rows key (targets @ [t])"
  by (auto simp: refers_def)

lemma refers_filter [simp]: "refers ref rows key targets \<Longrightarrow> refers ref (filter P rows) key targets"
  by (auto simp: refers_def)

text \<open>A cascade leaves nothing that refers to a deleted row.\<close>

lemma refers_cascade [simp]:
  "refers ref rows key targets \<Longrightarrow>
     refers ref (filter (\<lambda>r. ref r \<notin> key ` {x \<in> set targets. P x}) rows) key (filter (\<lambda>x. \<not> P x) targets)"
  by (auto simp: refers_def)

lemma wf_insert:
  "rbac_wf d \<Longrightarrow> insert_role policy r d = Inr d' \<Longrightarrow> rbac_wf d'"
  "rbac_wf d \<Longrightarrow> insert_permission policy p d = Inr d' \<Longrightarrow> rbac_wf d'"
  "rbac_wf d \<Longrightarrow> insert_group policy g d = Inr d' \<Longrightarrow> rbac_wf d'"
  "rbac_wf d \<Longrightarrow> insert_group_member policy m d = Inr d' \<Longrightarrow> rbac_wf d'"
  "rbac_wf d \<Longrightarrow> insert_group_role policy x d = Inr d' \<Longrightarrow> rbac_wf d'"
  unfolding insert_role_def insert_permission_def insert_group_def insert_group_member_def insert_group_role_def rbac_wf_def
  by (auto dest!: keyed_insert simp: and_then_Inr map_sum_eq_Inr split: if_splits)

lemma wf_delete:
  "rbac_wf d \<Longrightarrow> rbac_wf (delete_roles policy P1 d)"
  "rbac_wf d \<Longrightarrow> rbac_wf (delete_groups policy P2 d)"
  "rbac_wf d \<Longrightarrow> rbac_wf (delete_permissions policy P3 d)"
  "rbac_wf d \<Longrightarrow> rbac_wf (delete_group_members policy P4 d)"
  "rbac_wf d \<Longrightarrow> rbac_wf (delete_group_roles policy P5 d)"
  by (simp_all add: rbac_wf_def delete_roles_def delete_groups_def delete_permissions_def delete_group_members_def
      delete_group_roles_def)

lemma reachable_wf: "rbac_reachable d \<Longrightarrow> rbac_wf d"
proof (induction rule: rbac_reachable.induct)
  case created
  show ?case by (simp add: rbac_wf_def empty_tables_def)
qed (auto intro: wf_insert wf_delete)

section \<open>Creating and dropping the tables\<close>

datatype rbac_table = Roles | Permissions | Groups | Group_Members | Group_Roles

fun references :: "rbac_table \<Rightarrow> rbac_table list" where
  "references Roles = []"
| "references Permissions = [Roles]"
| "references Groups = []"
| "references Group_Members = [Groups]"
| "references Group_Roles = [Groups, Roles]"

text \<open>The tables that exist, and those that force their tenant policy on everybody.\<close>

record rbac_schema =
  sc_tables :: "rbac_table list"
  sc_protected :: "rbac_table list"

definition create_table :: "rbac_table \<Rightarrow> rbac_schema \<Rightarrow> string + rbac_schema" where
  "create_table t s =
     (if t \<notin> set (sc_tables s) \<and> \<not> list_all (\<lambda>u. u \<in> set (sc_tables s)) (references t) then Inl ''relation does not exist''
      else Inr (s\<lparr>sc_tables := List.insert t (sc_tables s)\<rparr>))"

definition protect_table :: "rbac_table \<Rightarrow> rbac_schema \<Rightarrow> string + rbac_schema" where
  "protect_table t s =
     (if t \<notin> set (sc_tables s) then Inl ''relation does not exist'' else Inr (s\<lparr>sc_protected := List.insert t (sc_protected s)\<rparr>))"

definition drop_table :: "rbac_table \<Rightarrow> rbac_schema \<Rightarrow> string + rbac_schema" where
  "drop_table t s =
     (if list_ex (\<lambda>u. t \<in> set (references u)) (sc_tables s) then Inl ''other objects depend on it''
      else Inr (s\<lparr>sc_tables := filter (\<lambda>u. u \<noteq> t) (sc_tables s), sc_protected := filter (\<lambda>u. u \<noteq> t) (sc_protected s)\<rparr>))"

fun each_table :: "(rbac_table \<Rightarrow> rbac_schema \<Rightarrow> string + rbac_schema) \<Rightarrow> rbac_table list \<Rightarrow> rbac_schema \<Rightarrow> string + rbac_schema" where
  "each_table f [] s = Inr s"
| "each_table f (t # ts) s = and_then (f t s) (each_table f ts)"

definition rbac_up :: "rbac_schema \<Rightarrow> string + rbac_schema" where
  "rbac_up s = and_then (each_table create_table [Roles, Permissions, Groups, Group_Members, Group_Roles] s)
     (each_table protect_table [Roles, Permissions, Groups, Group_Members, Group_Roles])"

definition rbac_down :: "rbac_schema \<Rightarrow> string + rbac_schema" where
  "rbac_down s = each_table drop_table [Group_Roles, Group_Members, Groups, Permissions, Roles] s"

section \<open>The seeding helper\<close>

text \<open>\<open>ids\<close> are the identifiers it draws, \<open>now\<close> the time it reads once.\<close>

definition seed_rbac_membership_for_tests ::
    "(nat \<Rightarrow> string) \<Rightarrow> int \<Rightarrow> string option \<Rightarrow> string \<Rightarrow> string \<Rightarrow> rbac_tables \<Rightarrow> rbac_error + rbac_tables" where
  "seed_rbac_membership_for_tests ids now policy tenant_id user_id d =
     and_then (insert_role policy \<lparr>rl_id = ids 0, rl_tenant_id = tenant_id, rl_name = ''role-1'', rl_description = ''desc''\<rparr> d) (\<lambda>d.
     and_then (insert_permission policy \<lparr>pm_id = ids 1, pm_tenant_id = tenant_id, pm_role_id = ids 0, pm_resource = ''res-1'',
        pm_action = ''act-1'', pm_created_at = now, pm_updated_at = now\<rparr> d) (\<lambda>d.
     and_then (insert_group policy \<lparr>gp_id = ids 2, gp_tenant_id = tenant_id, gp_name = ''group-1'', gp_description = ''desc''\<rparr> d) (\<lambda>d.
     and_then (insert_group_role policy \<lparr>gr_id = ids 3, gr_tenant_id = tenant_id, gr_group_id = ids 2, gr_role_id = ids 0\<rparr> d)
       (insert_group_member policy \<lparr>gm_id = ids 4, gm_tenant_id = tenant_id, gm_group_id = ids 2, gm_user_id = user_id\<rparr>))))"

section \<open>Properties\<close>

text \<open>The permissions through three tables: without the roles and the groups.\<close>

definition three_table_query :: "string \<Rightarrow> string \<Rightarrow> rbac_tables \<Rightarrow> permission_row list" where
  "three_table_query t u d = filter (\<lambda>p. pm_tenant_id p = t
     \<and> list_ex (\<lambda>x. gr_tenant_id x = t \<and> gr_role_id x = pm_role_id p
         \<and> list_ex (\<lambda>m. gm_tenant_id m = t \<and> gm_group_id m = gr_group_id x \<and> gm_user_id m = u) (rb_group_members d)) (rb_group_roles d))
     (rb_permissions d)"

lemma grantedI:
  assumes "p \<in> set (rb_permissions d)" "pm_tenant_id p = t" "r \<in> set (rb_roles d)" "role_key r = (pm_role_id p, t)"
    and "x \<in> set (rb_group_roles d)" "gr_tenant_id x = t" "gr_role_id x = pm_role_id p"
    and "g \<in> set (rb_groups d)" "group_key g = (gr_group_id x, t)"
    and "m \<in> set (rb_group_members d)" "gm_tenant_id m = t" "gm_group_id m = gr_group_id x" "gm_user_id m = u"
  shows "granted d t u p"
  unfolding granted_def
  by (intro conjI bexI [of _ r] bexI [of _ x] bexI [of _ g] bexI [of _ m]) (use assms in \<open>auto simp: key_defs\<close>)

lemma granted_three_tables:
  assumes "rbac_wf d"
  shows "granted d t u p \<longleftrightarrow> p \<in> set (three_table_query t u d)"
proof
  assume "granted d t u p"
  then show "p \<in> set (three_table_query t u d)"
    unfolding granted_def three_table_query_def list_ex_iff by fastforce
next
  assume "p \<in> set (three_table_query t u d)"
  then obtain x m where p: "p \<in> set (rb_permissions d)" "pm_tenant_id p = t"
    and x: "x \<in> set (rb_group_roles d)" "gr_tenant_id x = t" "gr_role_id x = pm_role_id p"
    and m: "m \<in> set (rb_group_members d)" "gm_tenant_id m = t" "gm_group_id m = gr_group_id x" "gm_user_id m = u"
    by (auto simp: three_table_query_def list_ex_iff)
  from assms p obtain r where r: "r \<in> set (rb_roles d)" "role_key r = (pm_role_id p, t)"
    by (fastforce simp: rbac_wf_def refers_def permission_role_def)
  from assms x obtain g where g: "g \<in> set (rb_groups d)" "group_key g = (gr_group_id x, t)"
    by (fastforce simp: rbac_wf_def refers_def group_role_group_def)
  show "granted d t u p" by (rule grantedI [OF p r x g m])
qed

text \<open>
  C37 (equivalence): The query for the permissions of a user joins five tables, and three would do: in every state
  that insertions and deletions can bring about, under whatever policies they run, the foreign
  keys make the roles and the groups in the middle redundant. The answer is read off the
  permissions, the roles of the groups and the members of the groups.
\<close>

theorem five_table_join_needs_three:
  assumes "rbac_reachable d"
  shows "set (permission_query (Some t) t u d) = set (three_table_query t u d)"
  using granted_three_tables [OF reachable_wf [OF assms]] by (auto simp: permission_query_granted)

definition one_grant :: rbac_tables where
  "one_grant =
     \<lparr>rb_permissions = [\<lparr>pm_id = ''p'', pm_tenant_id = ''t'', pm_role_id = ''r'', pm_resource = ''res-1'', pm_action = ''act-1'',
        pm_created_at = 0, pm_updated_at = 0\<rparr>],
      rb_roles = [\<lparr>rl_id = ''r'', rl_tenant_id = ''t'', rl_name = ''role-1'', rl_description = ''desc''\<rparr>],
      rb_groups = [\<lparr>gp_id = ''g'', gp_tenant_id = ''t'', gp_name = ''group-1'', gp_description = ''desc''\<rparr>],
      rb_group_roles = [\<lparr>gr_id = ''x'', gr_tenant_id = ''t'', gr_group_id = ''g'', gr_role_id = ''r''\<rparr>],
      rb_group_members = [\<lparr>gm_id = ''m'', gm_tenant_id = ''t'', gm_group_id = ''g'', gm_user_id = ''u''\<rparr>]\<rparr>"

lemmas insert_defs = insert_role_def insert_permission_def insert_group_def insert_group_member_def insert_group_role_def table_insert_def

definition sample_ids :: "nat \<Rightarrow> string" where
  "sample_ids n = [''r'', ''p'', ''g'', ''x'', ''m''] ! n"

lemma seeded: "seed_rbac_membership_for_tests sample_ids 0 (Some ''t'') ''t'' ''u'' empty_tables = Inr one_grant"
  by (simp add: seed_rbac_membership_for_tests_def insert_defs key_defs empty_tables_def one_grant_def sample_ids_def)

lemma seed_reachable:
  assumes "rbac_reachable d" and "seed_rbac_membership_for_tests ids now policy t u d = Inr d'"
  shows "rbac_reachable d'"
proof -
  obtain d1 d2 d3 d4 r p g x m where steps: "insert_role policy r d = Inr d1" "insert_permission policy p d1 = Inr d2"
      "insert_group policy g d2 = Inr d3" "insert_group_role policy x d3 = Inr d4" "insert_group_member policy m d4 = Inr d'"
    using assms(2) unfolding seed_rbac_membership_for_tests_def and_then_Inr by blast
  have "rbac_reachable d4"
    by (rule group_role [OF rbac_reachable.group [OF permission [OF role [OF assms(1) steps(1)] steps(2)] steps(3)] steps(4)])
  then show ?thesis by (rule member [OF _ steps(5)])
qed

theorem five_table_join_needs_three_witness:
  "rbac_reachable one_grant \<and> permission_query (Some ''t'') ''t'' ''u'' one_grant \<noteq> []
     \<and> set (permission_query (Some ''t'') ''t'' ''u'' one_grant) = set (three_table_query ''t'' ''u'' one_grant)"
proof (intro conjI)
  show reachable: "rbac_reachable one_grant" by (rule seed_reachable [OF created seeded])
  show "set (permission_query (Some ''t'') ''t'' ''u'' one_grant) = set (three_table_query ''t'' ''u'' one_grant)"
    by (rule five_table_join_needs_three [OF reachable])
  show "permission_query (Some ''t'') ''t'' ''u'' one_grant \<noteq> []"
    by (simp add: permission_query_def rows_for_def one_grant_def)
qed

text \<open>
  Deleting roles takes away their permissions and nothing else: afterwards a user has exactly the
  permissions granted before that belong to no deleted role of the session's tenant. Other
  tenants keep all they had, whatever identifiers the rows share.
\<close>

theorem role_deletion_revokes_exactly:
  "granted (delete_roles policy P d) t u p \<longleftrightarrow>
     granted d t u p \<and> \<not> (policy = Some t \<and> (\<exists>r \<in> set (rb_roles d). rl_tenant_id r = t \<and> rl_id r = pm_role_id p \<and> P r))"
proof -
  let ?gone = "{r \<in> set (rb_roles d). deletes rl_tenant_id policy P r}"
  have gone: "(policy = Some t \<and> (\<exists>r \<in> set (rb_roles d). rl_tenant_id r = t \<and> rl_id r = pm_role_id p \<and> P r))
      \<longleftrightarrow> (pm_role_id p, t) \<in> role_key ` ?gone"
    by (auto simp: deletes_def role_key_def image_iff)
  show ?thesis
    unfolding gone
  proof (intro iffI conjI)
    assume "granted (delete_roles policy P d) t u p"
    then show "granted d t u p" and "(pm_role_id p, t) \<notin> role_key ` ?gone"
      by (auto simp: granted_def delete_roles_def permission_role_def)
  next
    assume *: "granted d t u p \<and> (pm_role_id p, t) \<notin> role_key ` ?gone"
    then obtain r x g m where c: "p \<in> set (rb_permissions d)" "pm_tenant_id p = t" "r \<in> set (rb_roles d)" "role_key r = (pm_role_id p, t)"
        "x \<in> set (rb_group_roles d)" "gr_tenant_id x = t" "gr_role_id x = pm_role_id p" "g \<in> set (rb_groups d)"
        "group_key g = (gr_group_id x, t)" "m \<in> set (rb_group_members d)" "gm_tenant_id m = t" "gm_group_id m = gr_group_id x" "gm_user_id m = u"
      by (auto simp: granted_def role_key_def group_key_def)
    have "\<not> deletes rl_tenant_id policy P r" using * c(3,4) by (metis (mono_tags, lifting) image_eqI mem_Collect_eq)
    then show "granted (delete_roles policy P d) t u p"
      by (intro grantedI [where r = r and x = x and g = g and m = m])
        (use * c in \<open>simp_all add: delete_roles_def permission_role_def group_role_role_def\<close>)
  qed
qed

text \<open>The seeding helper grants what it seeds, and can run once per tenant: the names are fixed and unique.\<close>

lemma inserted:
  "insert_role policy r d = Inr d' \<Longrightarrow> d' = d\<lparr>rb_roles := rb_roles d @ [r]\<rparr>"
  "insert_permission policy p d = Inr d' \<Longrightarrow> d' = d\<lparr>rb_permissions := rb_permissions d @ [p]\<rparr>"
  "insert_group policy g d = Inr d' \<Longrightarrow> d' = d\<lparr>rb_groups := rb_groups d @ [g]\<rparr>"
  "insert_group_member policy m d = Inr d' \<Longrightarrow> d' = d\<lparr>rb_group_members := rb_group_members d @ [m]\<rparr>"
  "insert_group_role policy x d = Inr d' \<Longrightarrow> d' = d\<lparr>rb_group_roles := rb_group_roles d @ [x]\<rparr>"
  by (auto simp: insert_defs and_then_Inr map_sum_eq_Inr split: if_splits)

lemma seeded_rows:
  assumes "seed_rbac_membership_for_tests ids now policy t u d = Inr d'"
  shows "d' = \<lparr>rb_permissions = rb_permissions d @ [\<lparr>pm_id = ids 1, pm_tenant_id = t, pm_role_id = ids 0, pm_resource = ''res-1'',
        pm_action = ''act-1'', pm_created_at = now, pm_updated_at = now\<rparr>],
      rb_roles = rb_roles d @ [\<lparr>rl_id = ids 0, rl_tenant_id = t, rl_name = ''role-1'', rl_description = ''desc''\<rparr>],
      rb_groups = rb_groups d @ [\<lparr>gp_id = ids 2, gp_tenant_id = t, gp_name = ''group-1'', gp_description = ''desc''\<rparr>],
      rb_group_roles = rb_group_roles d @ [\<lparr>gr_id = ids 3, gr_tenant_id = t, gr_group_id = ids 2, gr_role_id = ids 0\<rparr>],
      rb_group_members = rb_group_members d @ [\<lparr>gm_id = ids 4, gm_tenant_id = t, gm_group_id = ids 2, gm_user_id = u\<rparr>]\<rparr>"
proof -
  let ?p = "\<lparr>pm_id = ids 1, pm_tenant_id = t, pm_role_id = ids 0, pm_resource = ''res-1'', pm_action = ''act-1'',
    pm_created_at = now, pm_updated_at = now\<rparr>"
  obtain d1 d2 d3 d4 where
      "insert_role policy \<lparr>rl_id = ids 0, rl_tenant_id = t, rl_name = ''role-1'', rl_description = ''desc''\<rparr> d = Inr d1"
      "insert_permission policy ?p d1 = Inr d2"
      "insert_group policy \<lparr>gp_id = ids 2, gp_tenant_id = t, gp_name = ''group-1'', gp_description = ''desc''\<rparr> d2 = Inr d3"
      "insert_group_role policy \<lparr>gr_id = ids 3, gr_tenant_id = t, gr_group_id = ids 2, gr_role_id = ids 0\<rparr> d3 = Inr d4"
      "insert_group_member policy \<lparr>gm_id = ids 4, gm_tenant_id = t, gm_group_id = ids 2, gm_user_id = u\<rparr> d4 = Inr d'"
    using assms unfolding seed_rbac_membership_for_tests_def and_then_Inr by blast
  note this(1) [THEN inserted(1)] this(2) [THEN inserted(2)] this(3) [THEN inserted(3)] this(4) [THEN inserted(5)] this(5) [THEN inserted(4)]
  then show ?thesis by (cases d) simp
qed

theorem seeding_grants:
  assumes "seed_rbac_membership_for_tests ids now policy t u d = Inr d'"
  shows "\<exists>p. granted d' t u p \<and> permission_string p = ''res-1:act-1''"
proof (intro exI conjI)
  let ?p = "\<lparr>pm_id = ids 1, pm_tenant_id = t, pm_role_id = ids 0, pm_resource = ''res-1'', pm_action = ''act-1'',
    pm_created_at = now, pm_updated_at = now\<rparr>"
  show "granted d' t u ?p" unfolding seeded_rows [OF assms] granted_def by simp
  show "permission_string ?p = ''res-1:act-1''" by (simp add: permission_string_def)
qed

theorem seeding_twice_fails:
  assumes "seed_rbac_membership_for_tests ids now (Some t) t u d = Inr d'"
  shows "seed_rbac_membership_for_tests ids' now' (Some t) t u' d' = Inl UniqueViolation"
  unfolding seeded_rows [OF assms]
  by (simp add: seed_rbac_membership_for_tests_def insert_role_def table_insert_def key_defs)

text \<open>Both directions of the migration succeed from any state, even when a previous run stopped half way.\<close>

theorem rbac_up_protects_all:
  "\<exists>s'. rbac_up s = Inr s' \<and> {Roles, Permissions, Groups, Group_Members, Group_Roles} \<subseteq> set (sc_tables s') \<inter> set (sc_protected s')"
  by (simp add: rbac_up_def create_table_def protect_table_def)

theorem rbac_down_removes_all:
  "\<exists>s'. rbac_down s = Inr s' \<and> sc_tables s' = [] \<and> sc_protected s' = []"
proof -
  have none: "filter (\<lambda>t. t \<noteq> Group_Roles \<and> t \<noteq> Group_Members \<and> t \<noteq> Groups \<and> t \<noteq> Permissions \<and> t \<noteq> Roles) ts = []" for ts
    by (auto simp: filter_empty_conv) (metis rbac_table.exhaust)
  have refs: "t \<in> set (references u) \<longleftrightarrow> (t = Roles \<and> (u = Permissions \<or> u = Group_Roles) \<or> t = Groups \<and> (u = Group_Members \<or> u = Group_Roles))" for t u
    by (cases u) auto
  show ?thesis
    by (auto simp: rbac_down_def drop_table_def list_ex_iff refs none conj_assoc)
qed

end
