(* ===== verification/Kernel_Role.thy ===== *)
theory Kernel_Role
  imports Kernel_Prelude
begin

text \<open>
  The database role that owns the kernel's privileged function, as the migration
  \<open>kernel-data/migration/src/m20250627_000006_kernel_context_functions.rs\<close> provisions it and its rollback
  restores it. (The function itself, \<open>flexi.log_privileged_audit\<close>, is in theory \<open>Repository\<close>.)

  The state is the catalogue as far as the two scripts read and write it. Each script runs in one
  transaction: an exception leaves the catalogue as it was. The text of a \<open>jsonb\<close> value and its
  parser are an argument; \<open>LIKE\<close> patterns and \<open>substring\<close> are written out.
\<close>

section \<open>The catalogue\<close>

record definer_role =
  dr_canlogin :: bool
  dr_inherit :: bool
  dr_super :: bool
  dr_bypassrls :: bool
  dr_comment :: "string option"

datatype function_owner = MigrationRunner | KernelDefiner

record admin_role =
  ad_function_execute :: bool
  ad_schema_usage :: bool

text \<open>
  The roles \<open>flexi_kernel_definer\<close> and \<open>flexi_kernel_admin\<close>, the direct grants of the former (USAGE and CREATE
  on the schema, INSERT on the audit log, EXECUTE on \<open>authorized_tenant_id\<close>), the function's owner
  and whether PUBLIC may call it; whether the runner may give functions away, and whether
  something else depends on the definer role.
\<close>

record catalogue =
  cl_definer :: "definer_role option"
  cl_usage :: bool
  cl_create :: bool
  cl_insert :: bool
  cl_execute :: bool
  cl_function :: "function_owner option"
  cl_public_execute :: bool
  cl_admin :: "admin_role option"
  cl_may_transfer :: bool
  cl_other_dependencies :: bool

text \<open>What a comment records of the privileges before the migration; a field that is missing is None.\<close>

record role_baseline =
  rb_old_comment :: "string option"
  rb_usage :: "bool option"
  rb_create :: "bool option"
  rb_insert :: "bool option"
  rb_execute :: "bool option"

record jsonb_env =
  jsonb_text :: "role_baseline \<Rightarrow> string"
  jsonb_parse :: "string \<Rightarrow> role_baseline option"

definition created_marker :: string where
  "created_marker = ''Created by migration m20250627_000006''"

definition baseline_prefix :: string where
  "baseline_prefix = ''flexi:m20250627_000006:''"

text \<open>\<open>LIKE 'flexi:m20250627_000006:%'\<close>, where an underscore stands for any character.\<close>

definition like_baseline :: "string \<Rightarrow> bool" where
  "like_baseline c \<longleftrightarrow> starts_with c ''flexi:m20250627'' \<and> length c > 15 \<and> starts_with (drop 16 c) ''000006:''"

definition is_baseline :: "string option \<Rightarrow> bool" where
  "is_baseline comment = (case comment of Some c \<Rightarrow> like_baseline c | None \<Rightarrow> False)"

definition coalesce_false :: "bool option \<Rightarrow> bool" where
  "coalesce_false b = (case b of Some x \<Rightarrow> x | None \<Rightarrow> False)"

section \<open>The migration\<close>

definition create_audit_function :: "catalogue \<Rightarrow> catalogue" where
  "create_audit_function d =
     d\<lparr>cl_function := Some (case cl_function d of Some owner \<Rightarrow> owner | None \<Rightarrow> MigrationRunner), cl_public_execute := False\<rparr>"

definition provision_role :: "catalogue \<Rightarrow> catalogue" where
  "provision_role d =
     (if cl_definer d = None
      then d\<lparr>cl_definer := Some \<lparr>dr_canlogin = False, dr_inherit = False, dr_super = False, dr_bypassrls = False,
               dr_comment = Some created_marker\<rparr>\<rparr>
      else d)"

definition validate_role :: "catalogue \<Rightarrow> string + definer_role" where
  "validate_role d =
     (case cl_definer d of
        None \<Rightarrow> Inl ''Role flexi_kernel_definer does not exist after provisioning.''
      | Some r \<Rightarrow>
          if dr_canlogin r then Inl ''Role flexi_kernel_definer must be NOLOGIN.''
          else if dr_inherit r then Inl ''Role flexi_kernel_definer must be NOINHERIT.''
          else if dr_super r then Inl ''Role flexi_kernel_definer must not be SUPERUSER.''
          else if dr_bypassrls r then Inl ''Role flexi_kernel_definer must not have BYPASSRLS.''
          else Inr r)"

definition record_baseline :: "jsonb_env \<Rightarrow> definer_role \<Rightarrow> catalogue \<Rightarrow> catalogue" where
  "record_baseline J r d =
     (if dr_comment r \<noteq> Some created_marker \<and> \<not> is_baseline (dr_comment r)
      then d\<lparr>cl_definer := Some (r\<lparr>dr_comment := Some (baseline_prefix @ jsonb_text J
             \<lparr>rb_old_comment = dr_comment r, rb_usage = Some (cl_usage d), rb_create = Some (cl_create d),
              rb_insert = Some (cl_insert d), rb_execute = Some (cl_execute d)\<rparr>)\<rparr>)\<rparr>
      else d)"

definition transfer_function :: "catalogue \<Rightarrow> string + catalogue" where
  "transfer_function d =
     (if cl_may_transfer d then Inr (d\<lparr>cl_function := Some KernelDefiner\<rparr>) else Inl ''must be able to SET ROLE'')"

text \<open>The recorded baseline, if the comment is one; a comment that does not parse is an error.\<close>

definition recorded_baseline :: "jsonb_env \<Rightarrow> string \<Rightarrow> string + role_baseline" where
  "recorded_baseline J comment = ok_or ''invalid input syntax for type json'' (jsonb_parse J (drop (length baseline_prefix) comment))"

definition trim_create :: "jsonb_env \<Rightarrow> catalogue \<Rightarrow> string + catalogue" where
  "trim_create J d =
     (case Option.bind (cl_definer d) dr_comment of
        Some comment \<Rightarrow>
          if comment = created_marker then Inr (d\<lparr>cl_create := False\<rparr>)
          else if like_baseline comment
          then map_sum id (\<lambda>b. if coalesce_false (rb_create b) then d else d\<lparr>cl_create := False\<rparr>) (recorded_baseline J comment)
          else Inr (d\<lparr>cl_create := False\<rparr>)
      | None \<Rightarrow> Inr (d\<lparr>cl_create := False\<rparr>))"

definition migration_up :: "jsonb_env \<Rightarrow> catalogue \<Rightarrow> string + catalogue" where
  "migration_up J d =
     (let d = provision_role (create_audit_function d) in
      and_then (validate_role d) (\<lambda>r.
      let d = (record_baseline J r d)\<lparr>cl_usage := True, cl_create := True\<rparr> in
      and_then (transfer_function d) (\<lambda>d.
      and_then (trim_create J d) (\<lambda>d.
      Inr (d\<lparr>cl_insert := True, cl_execute := True,
             cl_admin := map_option (\<lambda>a. a\<lparr>ad_function_execute := True, ad_schema_usage := True\<rparr>) (cl_admin d)\<rparr>)))))"

section \<open>The rollback\<close>

definition revoke_definer :: "bool \<Rightarrow> bool \<Rightarrow> bool \<Rightarrow> bool \<Rightarrow> catalogue \<Rightarrow> catalogue" where
  "revoke_definer u c i e d =
     d\<lparr>cl_usage := cl_usage d \<and> \<not> u, cl_create := cl_create d \<and> \<not> c,
       cl_insert := cl_insert d \<and> \<not> i, cl_execute := cl_execute d \<and> \<not> e\<rparr>"

definition drop_definer :: "catalogue \<Rightarrow> string + catalogue" where
  "drop_definer d =
     (if cl_other_dependencies d \<or> cl_usage d \<or> cl_create d \<or> cl_insert d \<or> cl_execute d \<or> cl_function d = Some KernelDefiner
      then Inl ''role cannot be dropped because some objects depend on it''
      else Inr (d\<lparr>cl_definer := None\<rparr>))"

text \<open>Revoking a privilege on a function that does not exist is an error; dropping it if it exists is none.\<close>

definition drop_audit_function :: "catalogue \<Rightarrow> string + catalogue" where
  "drop_audit_function d =
     (if cl_admin d \<noteq> None \<and> cl_function d = None then Inl ''function flexi.log_privileged_audit does not exist''
      else Inr (d\<lparr>cl_admin := map_option (\<lambda>a. a\<lparr>ad_function_execute := False\<rparr>) (cl_admin d), cl_function := None, cl_public_execute := False\<rparr>))"

definition restore_definer :: "definer_role \<Rightarrow> role_baseline \<Rightarrow> catalogue \<Rightarrow> catalogue" where
  "restore_definer r b d =
     (revoke_definer (\<not> coalesce_false (rb_usage b)) (\<not> coalesce_false (rb_create b))
        (\<not> coalesce_false (rb_insert b)) (\<not> coalesce_false (rb_execute b)) d)\<lparr>cl_definer := Some (r\<lparr>dr_comment := rb_old_comment b\<rparr>)\<rparr>"

definition migration_down :: "jsonb_env \<Rightarrow> catalogue \<Rightarrow> string + catalogue" where
  "migration_down J d =
     (let role_comment = Option.bind (cl_definer d) dr_comment in
      and_then (drop_audit_function d) (\<lambda>d.
        case cl_definer d of
          None \<Rightarrow> Inr d
        | Some r \<Rightarrow>
            if role_comment = Some created_marker then drop_definer (revoke_definer True True True True d)
            else (case role_comment of
                    Some comment \<Rightarrow>
                      if like_baseline comment then map_sum id (\<lambda>b. restore_definer r b d) (recorded_baseline J comment)
                      else Inr (revoke_definer True True True True d)
                  | None \<Rightarrow> Inr (revoke_definer True True True True d))))"

section \<open>Properties\<close>

definition jsonb_laws :: "jsonb_env \<Rightarrow> bool" where
  "jsonb_laws J \<longleftrightarrow> (\<forall>b. jsonb_parse J (jsonb_text J b) = Some b)"

text \<open>A database before the migration: no audit function, and what a missing role cannot have.\<close>

definition before_migration :: "catalogue \<Rightarrow> bool" where
  "before_migration d \<longleftrightarrow> cl_function d = None \<and> \<not> cl_public_execute d \<and> cl_may_transfer d
     \<and> (case cl_definer d of
          None \<Rightarrow> \<not> cl_usage d \<and> \<not> cl_create d \<and> \<not> cl_insert d \<and> \<not> cl_execute d \<and> \<not> cl_other_dependencies d
        | Some r \<Rightarrow> \<not> dr_canlogin r \<and> \<not> dr_inherit r \<and> \<not> dr_super r \<and> \<not> dr_bypassrls r
            \<and> dr_comment r \<noteq> Some created_marker \<and> \<not> is_baseline (dr_comment r))
     \<and> pred_option (\<lambda>a. \<not> ad_function_execute a) (cl_admin d)"

lemma baseline_like [simp]: "like_baseline (baseline_prefix @ x)"
  by (simp add: like_baseline_def baseline_prefix_def starts_with_def)

lemma baseline_not_marker [simp]: "baseline_prefix @ x \<noteq> created_marker"
  by (simp add: baseline_prefix_def created_marker_def)

lemma recorded_baseline_text: "jsonb_laws J \<Longrightarrow> recorded_baseline J (baseline_prefix @ jsonb_text J b) = Inr b"
  by (simp add: recorded_baseline_def jsonb_laws_def)

text \<open>
  C38 (roundtrip): The migration gives the definer role no more than it needs, and its rollback takes back what
  it gave. From any database before the migration, with the role provisioned beforehand with
  whatever grants and comment, or without it, the migration succeeds; the function then belongs to a role
  that cannot log in, inherits nothing and is subject to row-level security, is closed to PUBLIC, and
  the role can create objects in the schema only if it could before. Rolling back restores the
  database exactly, except that a kernel administrator keeps USAGE on the schema.
\<close>

theorem migration_rolls_back:
  assumes "jsonb_laws J" and "before_migration d"
  shows "\<exists>d' r. migration_up J d = Inr d'
    \<and> cl_function d' = Some KernelDefiner \<and> \<not> cl_public_execute d'
    \<and> cl_definer d' = Some r \<and> \<not> dr_canlogin r \<and> \<not> dr_inherit r \<and> \<not> dr_super r \<and> \<not> dr_bypassrls r
    \<and> cl_create d' = cl_create d
    \<and> migration_down J d' = Inr (d\<lparr>cl_admin := map_option (\<lambda>a. a\<lparr>ad_schema_usage := True\<rparr>) (cl_admin d)\<rparr>)"
proof (cases "cl_definer d")
  case None
  then show ?thesis using assms(2)
    by (cases d; cases "cl_admin d") (auto simp: migration_up_def migration_down_def before_migration_def create_audit_function_def provision_role_def
        validate_role_def record_baseline_def transfer_function_def trim_create_def drop_audit_function_def restore_definer_def revoke_definer_def drop_definer_def Let_def)
next
  case (Some r)
  note b = recorded_baseline_text [OF assms(1)]
  from Some assms(2) show ?thesis
    by (cases d; cases "cl_admin d") (auto simp: migration_up_def migration_down_def before_migration_def create_audit_function_def provision_role_def
        validate_role_def record_baseline_def transfer_function_def trim_create_def drop_audit_function_def restore_definer_def revoke_definer_def coalesce_false_def b Let_def)
qed

text \<open>A text for baselines: a digit per field, then the comment.\<close>

fun flag_char :: "bool option \<Rightarrow> char" where
  "flag_char None = CHR ''n''"
| "flag_char (Some b) = (if b then CHR ''t'' else CHR ''f'')"

definition char_flag :: "char \<Rightarrow> bool option" where
  "char_flag c = (if c = CHR ''n'' then None else Some (c = CHR ''t''))"

fun parse_flags :: "string \<Rightarrow> role_baseline option" where
  "parse_flags (u # c # i # e # k # comment) =
     Some \<lparr>rb_old_comment = (if k = CHR ''n'' then None else Some comment), rb_usage = char_flag u, rb_create = char_flag c,
           rb_insert = char_flag i, rb_execute = char_flag e\<rparr>"
| "parse_flags _ = None"

definition flag_jsonb :: jsonb_env where
  "flag_jsonb =
     \<lparr>jsonb_text = (\<lambda>b. [flag_char (rb_usage b), flag_char (rb_create b), flag_char (rb_insert b), flag_char (rb_execute b),
        flag_char (map_option (\<lambda>_. True) (rb_old_comment b))] @ (case rb_old_comment b of Some c \<Rightarrow> c | None \<Rightarrow> [])),
      jsonb_parse = parse_flags\<rparr>"

lemma char_flag_char [simp]: "char_flag (flag_char b) = b"
  by (cases b) (simp_all add: char_flag_def)

lemma flag_jsonb_laws: "jsonb_laws flag_jsonb"
  by (simp add: jsonb_laws_def flag_jsonb_def split: option.split)

definition sample_catalogue :: catalogue where
  "sample_catalogue =
     \<lparr>cl_definer = Some \<lparr>dr_canlogin = False, dr_inherit = False, dr_super = False, dr_bypassrls = False, dr_comment = Some ''ops''\<rparr>,
      cl_usage = True, cl_create = False, cl_insert = False, cl_execute = True, cl_function = None, cl_public_execute = False,
      cl_admin = Some \<lparr>ad_function_execute = False, ad_schema_usage = False\<rparr>, cl_may_transfer = True, cl_other_dependencies = True\<rparr>"

theorem migration_rolls_back_witness:
  "\<exists>d'. migration_up flag_jsonb sample_catalogue = Inr d' \<and> cl_function d' = Some KernelDefiner
     \<and> migration_down flag_jsonb d' = Inr (sample_catalogue\<lparr>cl_admin := Some \<lparr>ad_function_execute = False, ad_schema_usage = True\<rparr>\<rparr>)"
proof -
  have "before_migration sample_catalogue"
    by (simp add: before_migration_def sample_catalogue_def created_marker_def is_baseline_def like_baseline_def starts_with_def)
  from migration_rolls_back [OF flag_jsonb_laws this] show ?thesis by (auto simp: sample_catalogue_def)
qed

end
