(* ===== verification/Sql_Linter.thy ===== *)
theory Sql_Linter
  imports Kernel_Prelude
begin

text \<open>
  The SQL security linter, \<open>ops/linters/src/bin/sql-linter.rs\<close>: it scans SQL files and Rust migrations for
  SECURITY DEFINER functions that do not fix their search path or are not revoked from PUBLIC.

  A text is its UTF-8 bytes. The parsers work on the rest of the input where the code keeps an index
  into it. The regex crate is an argument: \<open>find_iter\<close> for a pattern gives the matches of a text in order, as
  byte offsets. The walk over the directory tree is the list of its files.
\<close>

section \<open>Argument lists\<close>

text \<open>Splitting at the commas: \<open>depth\<close> counts open brackets.\<close>

definition unbalanced :: "string \<Rightarrow> string" where
  "unbalanced args_list = ''Unbalanced parentheses/brackets in args list: '' @ args_list"

fun split_args :: "string \<Rightarrow> string \<Rightarrow> string list \<Rightarrow> string \<Rightarrow> nat \<Rightarrow> bool \<Rightarrow> string + string list" where
  "split_args list [] args current depth in_quote =
     (if in_quote then Inl (''Unterminated quote in args list: '' @ list)
      else if depth \<noteq> 0 then Inl (unbalanced list)
      else Inr (if trim current \<noteq> [] then args @ [trim current] else args))"
| "split_args list (c # cs) args current depth in_quote =
     (if c = CHR 0x27 then split_args list cs args (current @ [c]) depth (\<not> in_quote)
      else if \<not> in_quote \<and> (c = CHR ''('' \<or> c = CHR ''['') then split_args list cs args (current @ [c]) (depth + 1) in_quote
      else if \<not> in_quote \<and> (c = CHR '')'' \<or> c = CHR '']'')
      then if depth = 0 then Inl (unbalanced list) else split_args list cs args (current @ [c]) (depth - 1) in_quote
      else if c = CHR '','' \<and> depth = 0 \<and> \<not> in_quote then split_args list cs (args @ [trim current]) [] depth in_quote
      else split_args list cs args (current @ [c]) depth in_quote)"

text \<open>\<open>str::split_whitespace\<close>.\<close>

definition starts_space :: "string \<Rightarrow> bool" where
  "starts_space s \<longleftrightarrow> list_ex (starts_with s) white_space_utf8"

fun take_word :: "string \<Rightarrow> string \<times> string" where
  "take_word [] = ([], [])"
| "take_word (c # cs) = (if starts_space (c # cs) then ([], c # cs) else apfst (Cons c) (take_word cs))"

definition skip_whitespace :: "string \<Rightarrow> string" where
  "skip_whitespace s = strip_prefixes white_space_utf8 s"

lemma strip_prefixes_length: "length (strip_prefixes ws s) \<le> length s"
proof (induction ws s rule: strip_prefixes.induct)
  case (1 ws s)
  show ?case
  proof (cases "find (\<lambda>w. w \<noteq> [] \<and> starts_with s w) ws")
    case (Some w)
    then show ?thesis using 1 [OF Some] by (simp add: strip_prefixes.simps [of ws s])
  qed (simp add: strip_prefixes.simps [of ws s])
qed

lemma take_word_length: "length (snd (take_word s)) \<le> length s"
  by (induction s) auto

lemma strip_prefixes_stops: "strip_prefixes ws s = t \<Longrightarrow> find (\<lambda>w. w \<noteq> [] \<and> starts_with t w) ws = None"
proof (induction ws s rule: strip_prefixes.induct)
  case (1 ws s)
  show ?case
  proof (cases "find (\<lambda>w. w \<noteq> [] \<and> starts_with s w) ws")
    case None
    then show ?thesis using "1.prems" by (simp add: strip_prefixes.simps [of ws s])
  next
    case (Some w)
    then show ?thesis using "1.IH" [OF Some] "1.prems" by (simp add: strip_prefixes.simps [of ws s])
  qed
qed

lemma white_space_nonempty: "w \<in> set white_space_utf8 \<Longrightarrow> w \<noteq> []"
  by (auto simp: white_space_utf8_def)

lemma skip_whitespace_stops: "\<not> starts_space (skip_whitespace s)"
  using strip_prefixes_stops [of white_space_utf8 s] white_space_nonempty
  by (auto simp: starts_space_def skip_whitespace_def find_None_iff list_ex_iff)

function split_whitespace :: "string \<Rightarrow> string list" where
  "split_whitespace s =
     (if skip_whitespace s = [] then []
      else fst (take_word (skip_whitespace s)) # split_whitespace (snd (take_word (skip_whitespace s))))"
  by pat_completeness auto
termination
proof (relation "measure length")
  fix s assume "skip_whitespace s \<noteq> []"
  then obtain c cs where c: "skip_whitespace s = c # cs" by (cases "skip_whitespace s") auto
  have "\<not> starts_space (c # cs)" using skip_whitespace_stops [of s] c by simp
  then have "length (snd (take_word (skip_whitespace s))) \<le> length cs" using take_word_length [of cs] c by simp
  also have "\<dots> < length s" using strip_prefixes_length [of white_space_utf8 s] c by (simp add: skip_whitespace_def)
  finally show "(snd (take_word (skip_whitespace s)), s) \<in> measure length" by simp
qed simp

declare split_whitespace.simps [simp del]

text \<open>The type of one argument: without its mode, its default and its name.\<close>

fun before_default :: "string list \<Rightarrow> string list" where
  "before_default [] = []"
| "before_default (p # ps) = (if eq_ignore_ascii_case p ''DEFAULT'' then [] else p # before_default ps)"

definition arg_type :: "string \<Rightarrow> string option" where
  "arg_type s =
     (case split_whitespace s of
        [] \<Rightarrow> None
      | first # rest \<Rightarrow>
          (let leading_mode = map to_ascii_upper first;
               parts = (if leading_mode \<in> {''IN'', ''OUT'', ''INOUT'', ''VARIADIC''} then rest else first # rest)
           in if leading_mode = ''OUT'' \<or> parts = [] then None
              else (case before_default parts of
                      [] \<Rightarrow> None
                    | [t] \<Rightarrow> Some t
                    | _ # ts \<Rightarrow> Some (join '' '' ts))))"

definition tokenize_args :: "string \<Rightarrow> string + string list" where
  "tokenize_args args_list = map_sum id (List.map_filter arg_type) (split_args args_list args_list [] [] 0 False)"

section \<open>Signatures\<close>

definition is_ascii_alphabetic :: "char \<Rightarrow> bool" where
  "is_ascii_alphabetic c \<longleftrightarrow> is_ascii_upper c \<or> is_ascii_lower c"

definition ident_char :: "char \<Rightarrow> bool" where
  "ident_char c \<longleftrightarrow> is_ascii_alphanumeric c \<or> c = CHR ''_'' \<or> c = CHR ''$''"

text \<open>Up to and with the closing double quote, where two of them stand for one.\<close>

fun take_quoted :: "string \<Rightarrow> (string \<times> string) option" where
  "take_quoted [] = None"
| "take_quoted (c # cs) =
     (if c = CHR 0x22
      then (case cs of
              d # ds \<Rightarrow> if d = CHR 0x22 then map_option (apfst (\<lambda>a. c # d # a)) (take_quoted ds) else Some ([c], cs)
            | [] \<Rightarrow> Some ([c], cs))
      else map_option (apfst (Cons c)) (take_quoted cs))"

text \<open>An identifier and the rest of the input.\<close>

definition parse_identifier_part :: "string \<Rightarrow> string + string \<times> string" where
  "parse_identifier_part input =
     (case input of
        [] \<Rightarrow> Inl ''Unexpected end while parsing function identifier''
      | first # cs \<Rightarrow>
          if first = CHR 0x22
          then (case take_quoted cs of
                  Some (part, rest) \<Rightarrow> Inr (first # part, rest)
                | None \<Rightarrow> Inl ''Unterminated double-quoted identifier in CREATE FUNCTION'')
          else if is_ascii_alphabetic first \<or> first = CHR ''_''
          then Inr (first # takeWhile ident_char cs, dropWhile ident_char cs)
          else Inl ''Invalid function identifier in CREATE FUNCTION'')"

lemma take_quoted_length: "take_quoted s = Some (a, r) \<Longrightarrow> length r < length s"
  by (induction s arbitrary: a r rule: take_quoted.induct) (fastforce split: if_splits list.splits)+

lemma parse_identifier_part_length: "parse_identifier_part s = Inr (p, r) \<Longrightarrow> length r < length s"
  by (auto simp: parse_identifier_part_def le_imp_less_Suc length_dropWhile_le dest: take_quoted_length split: list.splits if_splits option.splits)

text \<open>The parts after the first, each behind a dot; the rest has no leading white space.\<close>

function more_parts :: "string list \<Rightarrow> string \<Rightarrow> string + string list \<times> string" where
  "more_parts parts input =
     (let rest = skip_whitespace input in
      if rest = [] \<or> hd rest \<noteq> CHR ''.'' then Inr (parts, rest)
      else (case parse_identifier_part (skip_whitespace (tl rest)) of
              Inl e \<Rightarrow> Inl e
            | Inr (part, rest) \<Rightarrow> more_parts (parts @ [part]) rest))"
  by pat_completeness auto
termination
proof (relation "measure (\<lambda>(ps, s). length s)")
  fix parts :: "string list" and input rest part r and y :: "string \<times> string"
  assume rest: "rest = skip_whitespace input" "\<not> (rest = [] \<or> hd rest \<noteq> CHR ''.'')"
    and y: "parse_identifier_part (skip_whitespace (tl rest)) = Inr y" "(part, r) = y"
  have "length r < length (skip_whitespace (tl rest))" using parse_identifier_part_length y by metis
  also have "\<dots> \<le> length (tl rest)" unfolding skip_whitespace_def by (rule strip_prefixes_length)
  also have "\<dots> \<le> length rest" by simp
  also have "\<dots> \<le> length input" unfolding rest(1) skip_whitespace_def by (rule strip_prefixes_length)
  finally show "((parts @ [part], r), parts, input) \<in> measure (\<lambda>(ps, s). length s)" by simp
qed simp

declare more_parts.simps [simp del]

text \<open>The arguments, up to the parenthesis that closes them; quotes are doubled inside themselves.\<close>

fun scan_args :: "string \<Rightarrow> string \<Rightarrow> nat \<Rightarrow> bool \<Rightarrow> bool \<Rightarrow> string + string" where
  "scan_args args [] depth sq dq =
     (if sq \<or> dq then Inl ''Unterminated quote while parsing CREATE FUNCTION arguments''
      else Inl ''Unmatched parentheses while parsing CREATE FUNCTION arguments'')"
| "scan_args args (c # cs) depth sq dq =
     (if sq then
        (if c = CHR 0x27
         then (case cs of
                 d # ds \<Rightarrow> if d = CHR 0x27 then scan_args (args @ [c, d]) ds depth sq dq else scan_args (args @ [c]) cs depth False dq
               | [] \<Rightarrow> scan_args (args @ [c]) cs depth False dq)
         else scan_args (args @ [c]) cs depth sq dq)
      else if dq then
        (if c = CHR 0x22
         then (case cs of
                 d # ds \<Rightarrow> if d = CHR 0x22 then scan_args (args @ [c, d]) ds depth sq dq else scan_args (args @ [c]) cs depth sq False
               | [] \<Rightarrow> scan_args (args @ [c]) cs depth sq False)
         else scan_args (args @ [c]) cs depth sq dq)
      else if c = CHR 0x27 then scan_args (args @ [c]) cs depth True dq
      else if c = CHR 0x22 then scan_args (args @ [c]) cs depth sq True
      else if c = CHR ''('' then scan_args (args @ [c]) cs (depth + 1) sq dq
      else if c = CHR '')''
      then if depth = 0 then Inl ''Unbalanced closing parenthesis while parsing CREATE FUNCTION arguments''
           else if depth = 1 then Inr args
           else scan_args (args @ [c]) cs (depth - 1) sq dq
      else scan_args (args @ [c]) cs depth sq dq)"

definition parse_create_function_signature :: "string \<Rightarrow> string + string \<times> string" where
  "parse_create_function_signature input =
     and_then (parse_identifier_part (skip_whitespace input)) (\<lambda>(first_part, rest).
     and_then (more_parts [first_part] rest) (\<lambda>(parts, rest).
       if rest = [] \<or> hd rest \<noteq> CHR ''('' then Inl (''Expected '' @ [CHR 0x27] @ ''('' @ [CHR 0x27] @ '' after CREATE FUNCTION name'')
       else map_sum id (\<lambda>args. (join ''.'' parts, args)) (scan_args [] (tl rest) 1 False False)))"

section \<open>The linter\<close>

datatype pattern = SecurityDefiner | SearchPath | CreateFunction | KernelMode | TargetedRevoke string "string list"

type_synonym find_iter = "pattern \<Rightarrow> string \<Rightarrow> (nat \<times> nat) list"

datatype complaint =
    Unreadable
  | ForbiddenKernelMode
  | NoSearchPath
  | NoCreateFunction
  | BadSignature string
  | BadArgs string
  | NoRevoke string "string list"

definition get_line_number :: "string \<Rightarrow> nat \<Rightarrow> nat" where
  "get_line_number content byte_offset = length (filter (\<lambda>c. c = CHR 0x0A) (take byte_offset content)) + 1"

definition is_char_boundary :: "string \<Rightarrow> nat \<Rightarrow> bool" where
  "is_char_boundary s i \<longleftrightarrow> i = 0 \<or> i = length s \<or> i < length s \<and> \<not> utf8_cont (of_char (s ! i))"

fun floor_boundary :: "string \<Rightarrow> nat \<Rightarrow> nat" where
  "floor_boundary s 0 = 0"
| "floor_boundary s (Suc i) = (if is_char_boundary s (Suc i) then Suc i else floor_boundary s i)"

text \<open>One match of SECURITY DEFINER, at \<open>start\<close>.\<close>

definition check_definer :: "find_iter \<Rightarrow> string \<Rightarrow> nat \<Rightarrow> complaint list" where
  "check_definer rx content start =
     (let matches = rx CreateFunction (take start content);
          last_func_span = (if matches = [] then None else Some (last matches));
          start_lookback = floor_boundary content (case last_func_span of Some (func_start, _) \<Rightarrow> func_start | None \<Rightarrow> 0);
          end_lookahead = floor_boundary content (min (length content) (start + 500));
          window = take (end_lookahead - start_lookback) (drop start_lookback content)
      in (if rx SearchPath window = [] then [NoSearchPath] else [])
         @ (case last_func_span of
              None \<Rightarrow> [NoCreateFunction]
            | Some (func_start, func_end) \<Rightarrow>
                (case parse_create_function_signature (drop func_end content) of
                   Inl e \<Rightarrow> [BadSignature e]
                 | Inr (func_name, args_list) \<Rightarrow>
                     (case tokenize_args args_list of
                        Inl e \<Rightarrow> [BadArgs e]
                      | Inr arg_types \<Rightarrow>
                          if rx (TargetedRevoke func_name arg_types) (drop (floor_boundary content func_start) content) = []
                          then [NoRevoke func_name arg_types] else []))))"

definition lint_content :: "find_iter \<Rightarrow> bool \<Rightarrow> string \<Rightarrow> (nat \<times> complaint) list" where
  "lint_content rx is_migration content =
     (if is_migration then map (\<lambda>(start, _). (get_line_number content start, ForbiddenKernelMode)) (rx KernelMode content) else [])
     @ concat (map (\<lambda>(start, _). map (Pair (get_line_number content start)) (check_definer rx content start)) (rx SecurityDefiner content))"

text \<open>An entry of the directory tree; \<open>fe_content\<close> is None when reading it fails.\<close>

record file_entry =
  fe_path :: string
  fe_components :: "string list"
  fe_is_file :: bool
  fe_extension :: "string option"
  fe_content :: "string option"

fun in_ops_linters :: "string list \<Rightarrow> bool" where
  "in_ops_linters (a # b # cs) \<longleftrightarrow> a = ''ops'' \<and> b = ''linters'' \<or> in_ops_linters (b # cs)"
| "in_ops_linters _ \<longleftrightarrow> False"

definition skipped_entry :: "file_entry \<Rightarrow> bool" where
  "skipped_entry f \<longleftrightarrow>
     list_ex (\<lambda>s. starts_with s ''.'' \<and> s \<noteq> ''.'' \<and> s \<noteq> ''..'') (fe_components f)
     \<or> ''target'' \<in> set (fe_components f) \<or> in_ops_linters (fe_components f)"

definition lint_entry :: "find_iter \<Rightarrow> file_entry \<Rightarrow> (nat \<times> complaint) list" where
  "lint_entry rx f =
     (let is_migration = contains_str (fe_path f) ''migration'' in
      if skipped_entry f \<or> \<not> fe_is_file f then []
      else if fe_extension f = Some ''sql'' \<or> fe_extension f = Some ''rs'' \<and> is_migration
      then (case fe_content f of None \<Rightarrow> [(0, Unreadable)] | Some content \<Rightarrow> lint_content rx is_migration content)
      else [])"

definition linter_main :: "find_iter \<Rightarrow> file_entry list \<Rightarrow> (string \<times> nat \<times> complaint) list \<times> bool" where
  "linter_main rx entries =
     (let complaints = concat (map (\<lambda>f. map (Pair (fe_path f)) (lint_entry rx f)) entries)
      in (complaints, complaints = []))"

section \<open>Signatures are read back\<close>

text \<open>Text between quotes in which every quote is doubled, identifiers, and balanced argument lists.\<close>

fun doubled :: "char \<Rightarrow> string \<Rightarrow> bool" where
  "doubled q [] \<longleftrightarrow> True"
| "doubled q (c # cs) \<longleftrightarrow> (if c = q then (case cs of d # ds \<Rightarrow> d = q \<and> doubled q ds | [] \<Rightarrow> False) else doubled q cs)"

definition sql_identifier :: "string \<Rightarrow> bool" where
  "sql_identifier p \<longleftrightarrow>
     (\<exists>c cs. p = c # cs \<and> (is_ascii_alphabetic c \<or> c = CHR ''_'') \<and> list_all ident_char cs)
     \<or> (\<exists>body. p = CHR 0x22 # body @ [CHR 0x22] \<and> doubled (CHR 0x22) body)"

inductive balanced :: "string \<Rightarrow> bool" where
  Empty: "balanced []"
| Plain: "c \<notin> {CHR ''('', CHR '')'', CHR 0x22, CHR 0x27} \<Longrightarrow> balanced s \<Longrightarrow> balanced (c # s)"
| Paren: "balanced a \<Longrightarrow> balanced s \<Longrightarrow> balanced (CHR ''('' # a @ CHR '')'' # s)"
| Quoted: "q \<in> {CHR 0x22, CHR 0x27} \<Longrightarrow> doubled q body \<Longrightarrow> balanced s \<Longrightarrow> s = [] \<or> hd s \<noteq> q \<Longrightarrow> balanced (q # body @ q # s)"

lemma scan_single_quoted:
  assumes "doubled (CHR 0x27) body" and "r = [] \<or> hd r \<noteq> CHR 0x27"
  shows "scan_args acc (body @ CHR 0x27 # r) d True False = scan_args (acc @ body @ [CHR 0x27]) r d False False"
  using assms(1)
proof (induction "CHR 0x27" body arbitrary: acc rule: doubled.induct)
  case 1
  then show ?case using assms(2) by (cases r) auto
next
  case (2 c cs)
  show ?case
  proof (cases "c = CHR 0x27")
    case True
    then obtain ds where ds: "cs = CHR 0x27 # ds" "doubled (CHR 0x27) ds" using 2(3) by (cases cs) auto
    then show ?thesis using True 2(1) [OF True ds] by simp
  next
    case False
    then show ?thesis using 2 by simp
  qed
qed

lemma scan_double_quoted:
  assumes "doubled (CHR 0x22) body" and "r = [] \<or> hd r \<noteq> CHR 0x22"
  shows "scan_args acc (body @ CHR 0x22 # r) d False True = scan_args (acc @ body @ [CHR 0x22]) r d False False"
  using assms(1)
proof (induction "CHR 0x22" body arbitrary: acc rule: doubled.induct)
  case 1
  then show ?case using assms(2) by (cases r) auto
next
  case (2 c cs)
  show ?case
  proof (cases "c = CHR 0x22")
    case True
    then obtain ds where ds: "cs = CHR 0x22 # ds" "doubled (CHR 0x22) ds" using 2(3) by (cases cs) auto
    then show ?thesis using True 2(1) [OF True ds] by simp
  next
    case False
    then show ?thesis using 2 by simp
  qed
qed

lemma scan_balanced:
  "balanced a \<Longrightarrow> r = [] \<or> hd r \<notin> {CHR 0x22, CHR 0x27} \<Longrightarrow>
     scan_args acc (a @ r) (Suc d) False False = scan_args (acc @ a) r (Suc d) False False"
proof (induction a arbitrary: acc d r rule: balanced.induct)
  case (Quoted q body s)
  have follow: "s @ r = [] \<or> hd (s @ r) \<noteq> q" using Quoted.hyps(1,4) Quoted.prems by (cases s) auto
  have "scan_args acc ((q # body @ q # s) @ r) (Suc d) False False = scan_args (acc @ q # body @ [q]) (s @ r) (Suc d) False False"
    using Quoted.hyps(1,2) follow scan_single_quoted [of body "s @ r" "acc @ [q]" "Suc d"] scan_double_quoted [of body "s @ r" "acc @ [q]" "Suc d"]
    by auto
  then show ?case using Quoted.IH [OF Quoted.prems] by simp
qed auto

lemma take_quoted_doubled:
  assumes "doubled (CHR 0x22) body" and "r = [] \<or> hd r \<noteq> CHR 0x22"
  shows "take_quoted (body @ CHR 0x22 # r) = Some (body @ [CHR 0x22], r)"
  using assms(1)
proof (induction "CHR 0x22" body rule: doubled.induct)
  case 1
  then show ?case using assms(2) by (cases r) auto
next
  case (2 c cs)
  show ?case
  proof (cases "c = CHR 0x22")
    case True
    then obtain ds where ds: "cs = CHR 0x22 # ds" "doubled (CHR 0x22) ds" using 2(3) by (cases cs) auto
    then show ?thesis using True 2(1) [OF True ds] by simp
  next
    case False
    then show ?thesis using 2 by simp
  qed
qed

lemma parse_identifier:
  assumes "sql_identifier p" and "r \<noteq> []" "\<not> ident_char (hd r)" "hd r \<noteq> CHR 0x22"
  shows "parse_identifier_part (p @ r) = Inr (p, r)"
  using assms(1) unfolding sql_identifier_def
proof
  assume "\<exists>c cs. p = c # cs \<and> (is_ascii_alphabetic c \<or> c = CHR ''_'') \<and> list_all ident_char cs"
  then obtain c cs where p: "p = c # cs" "is_ascii_alphabetic c \<or> c = CHR ''_''" "list_all ident_char cs" by blast
  have "c \<noteq> CHR 0x22" using p(2) by (auto simp: is_ascii_alphabetic_def is_ascii_upper_def is_ascii_lower_def)
  moreover have "takeWhile ident_char (cs @ r) = cs" "dropWhile ident_char (cs @ r) = r"
    using p(3) assms(2,3) by (cases r; simp add: list_all_iff)+
  ultimately show ?thesis using p(1,2) by (simp add: parse_identifier_part_def)
next
  assume "\<exists>body. p = CHR 0x22 # body @ [CHR 0x22] \<and> doubled (CHR 0x22) body"
  then show ?thesis using take_quoted_doubled [of _ r] assms(4) by (auto simp: parse_identifier_part_def)
qed

lemma skip_whitespace_graph: "ascii_graph c \<Longrightarrow> skip_whitespace (c # cs) = c # cs"
  using white_space_not_graph(1) unfolding skip_whitespace_def by (intro strip_prefixes_none) auto

lemma alphabetic_graph: "is_ascii_alphabetic c \<Longrightarrow> ascii_graph c"
  by (auto simp: is_ascii_alphabetic_def is_ascii_upper_def is_ascii_lower_def ascii_graph_def)

lemma identifier_graph: "sql_identifier p \<Longrightarrow> ascii_graph (hd p) \<and> p \<noteq> []"
  unfolding sql_identifier_def using alphabetic_graph by (elim disjE exE conjE) (simp_all add: ascii_graph_def)

lemma join_dots: "join ''.'' (p # ps) = p @ concat (map (Cons (CHR ''.'')) ps)"
  by (induction ps arbitrary: p) auto

lemma more_parts_read:
  "list_all sql_identifier qs \<Longrightarrow> more_parts ps (concat (map (Cons (CHR ''.'')) qs) @ CHR ''('' # x) = Inr (ps @ qs, CHR ''('' # x)"
proof (induction qs arbitrary: ps)
  case Nil
  show ?case by (simp add: more_parts.simps [of ps] skip_whitespace_graph ascii_graph_def)
next
  case (Cons q qs)
  let ?rest = "concat (map (Cons (CHR ''.'')) qs) @ CHR ''('' # x"
  obtain c cs where q: "q = c # cs" "ascii_graph c" using Cons.prems identifier_graph [of q] by (cases q) auto
  have "parse_identifier_part (q @ ?rest) = Inr (q, ?rest)"
    using Cons.prems by (intro parse_identifier; cases qs)
      (auto simp: ident_char_def is_ascii_alphanumeric_def is_ascii_digit_def is_ascii_upper_def is_ascii_lower_def)
  moreover have "skip_whitespace (q @ ?rest) = q @ ?rest" using q by (simp add: skip_whitespace_graph)
  ultimately show ?case
    using Cons.IH [of "ps @ [q]"] Cons.prems
    by (simp add: more_parts.simps [of ps] skip_whitespace_graph ascii_graph_def)
qed

lemma signature_read:
  assumes "parts \<noteq> []" and "list_all sql_identifier parts" and "balanced args"
  shows "parse_create_function_signature (join ''.'' parts @ ''('' @ args @ '')'' @ rest) = Inr (join ''.'' parts, args)"
proof -
  obtain p qs where parts: "parts = p # qs" using assms(1) by (cases parts) auto
  let ?x = "args @ CHR '')'' # rest"
  let ?rest = "concat (map (Cons (CHR ''.'')) qs) @ CHR ''('' # ?x"
  have input: "join ''.'' parts @ ''('' @ args @ '')'' @ rest = p @ ?rest" by (simp add: parts join_dots del: join.simps)
  obtain c cs where p: "p = c # cs" "ascii_graph c" using assms(2) identifier_graph [of p] parts by (cases p) auto
  then have skip: "skip_whitespace (p @ ?rest) = p @ ?rest" by (simp add: skip_whitespace_graph)
  have "parse_identifier_part (p @ ?rest) = Inr (p, ?rest)"
    using assms(2) parts by (intro parse_identifier; cases qs)
      (auto simp: ident_char_def is_ascii_alphanumeric_def is_ascii_digit_def is_ascii_upper_def is_ascii_lower_def)
  moreover have "more_parts [p] ?rest = Inr (parts, CHR ''('' # ?x)"
    using more_parts_read [of qs "[p]" ?x] assms(2) parts by simp
  moreover have "scan_args [] ?x 1 False False = Inr args"
    using scan_balanced [OF assms(3), of "CHR '')'' # rest" "[]" 0] by simp
  ultimately show ?thesis
    unfolding input parse_create_function_signature_def skip by simp
qed

text \<open>
  C39 (roundtrip): The linter reads every signature it can meet: for a name of plain or quoted parts and an argument list
  whose parentheses are balanced outside its quotes, whatever quotes, commas and nested brackets
  it has, the parser returns exactly that name and that list, however the text goes on.
\<close>

theorem signatures_are_read_back:
  assumes "parts \<noteq> []" and "list_all sql_identifier parts" and "balanced args"
  shows "parse_create_function_signature (join ''.'' parts @ ''('' @ args @ '')'' @ rest) = Inr (join ''.'' parts, args)"
  using assms by (rule signature_read)

theorem signatures_are_read_back_witness:
  "parse_create_function_signature ''flexi.log(a text, b int) RETURNS void'' = Inr (''flexi.log'', ''a text, b int'')"
proof -
  have "list_all sql_identifier [''flexi'', ''log'']"
    by (auto simp: sql_identifier_def is_ascii_alphabetic_def is_ascii_lower_def is_ascii_upper_def ident_char_def is_ascii_alphanumeric_def)
  moreover have "balanced ''a text, b int''" by (intro balanced.intros) auto
  ultimately show ?thesis
    using signatures_are_read_back [of "[''flexi'', ''log'']" "''a text, b int''" "'' RETURNS void''"] by simp
qed

section \<open>A search path that belongs to another function\<close>

text \<open>
  The patterns as matchers that return the rest of the text, for ASCII texts; \<open>\s\<close> is greedy, which is no
  restriction where the next token is not white space.
\<close>

type_synonym matcher = "string \<Rightarrow> string option"

fun other_case :: "char \<Rightarrow> char" where
  "other_case (Char b0 b1 b2 b3 b4 b5 b6 b7) = Char b0 b1 b2 b3 b4 (\<not> b5) b6 b7"

fun lit :: "string \<Rightarrow> matcher" where
  "lit [] s = Some s"
| "lit (p # ps) [] = None"
| "lit (p # ps) (c # cs) = (if c = p \<or> other_case c = p \<and> is_ascii_alphabetic c then lit ps cs else None)"

definition is_space :: "char \<Rightarrow> bool" where
  "is_space c \<longleftrightarrow> c \<in> {CHR '' '', CHR 0x09, CHR 0x0A, CHR 0x0B, CHR 0x0C, CHR 0x0D}"

definition ws0 :: matcher where
  "ws0 s = Some (dropWhile is_space s)"

definition ws1 :: matcher where
  "ws1 s = (case s of c # cs \<Rightarrow> if is_space c then ws0 cs else None | [] \<Rightarrow> None)"

fun in_sequence :: "matcher list \<Rightarrow> matcher" where
  "in_sequence [] s = Some s"
| "in_sequence (m # ms) s = (case m s of Some r \<Rightarrow> in_sequence ms r | None \<Rightarrow> None)"

definition either :: "matcher \<Rightarrow> matcher \<Rightarrow> matcher" where
  "either a b s = (case a s of Some r \<Rightarrow> Some r | None \<Rightarrow> b s)"

fun anywhere :: "matcher \<Rightarrow> matcher" where
  "anywhere m [] = m []"
| "anywhere m (c # cs) = (case m (c # cs) of Some r \<Rightarrow> Some r | None \<Rightarrow> anywhere m cs)"

definition search_path_value :: matcher where
  "search_path_value = in_sequence [lit ''search_path'', ws0, either (lit ''='') (lit ''TO''), ws0, lit ''flexi'', ws0, lit '','', ws0,
     lit ''pg_catalog'', ws0, lit '','', ws0, lit ''pg_temp'']"

fun ascii_pattern :: "pattern \<Rightarrow> matcher" where
  "ascii_pattern SecurityDefiner = in_sequence [lit ''SECURITY'', ws1, lit ''DEFINER'']"
| "ascii_pattern CreateFunction = in_sequence [lit ''CREATE'', ws1, either (in_sequence [lit ''OR'', ws1, lit ''REPLACE'', ws1, lit ''FUNCTION'', ws1])
     (in_sequence [lit ''FUNCTION'', ws1])]"
| "ascii_pattern SearchPath = in_sequence [lit ''SET'', ws1,
     either (in_sequence [either (lit ''SESSION'') (lit ''LOCAL''), ws1, search_path_value]) search_path_value]"
| "ascii_pattern KernelMode = lit ''flexi.kernel_mode''"
| "ascii_pattern (TargetedRevoke name types) = in_sequence [lit ''REVOKE'', ws1, anywhere (in_sequence ([ws1, lit ''ON'', ws1, lit ''FUNCTION'', ws1,
     lit name, ws0, lit ''('', ws0, in_sequence (concat (map (\<lambda>t. [lit t, ws0, either (lit '','') (in_sequence []), ws0]) types)),
     lit '')'', ws1, lit ''FROM'', ws1, lit ''PUBLIC'']))]"

text \<open>Matches from left to right, the next one behind the last: \<open>skip\<close> counts what the last one covers.\<close>

fun matches_from :: "matcher \<Rightarrow> nat \<Rightarrow> nat \<Rightarrow> string \<Rightarrow> (nat \<times> nat) list" where
  "matches_from m pos skip [] = []"
| "matches_from m pos (Suc skip) (c # cs) = matches_from m (pos + 1) skip cs"
| "matches_from m pos 0 (c # cs) =
     (case m (c # cs) of
        Some r \<Rightarrow> (let n = length cs - length r in (pos, pos + n + 1) # matches_from m (pos + 1) n cs)
      | None \<Rightarrow> matches_from m (pos + 1) 0 cs)"

definition ascii_rx :: find_iter where
  "ascii_rx p s = matches_from (ascii_pattern p) 0 0 s"

definition unsafe_function :: string where
  "unsafe_function = ''CREATE FUNCTION f() SECURITY DEFINER AS 1; REVOKE ALL ON FUNCTION f() FROM PUBLIC; ''"

definition next_function :: string where
  "next_function = ''CREATE FUNCTION g() SET search_path = flexi, pg_catalog, pg_temp AS 2;''"


lemma example_definer:
  "ascii_rx SecurityDefiner unsafe_function = [(20, 36)]" "ascii_rx SecurityDefiner (unsafe_function @ next_function) = [(20, 36)]"
  by code_simp+

lemma example_search_path: "ascii_rx SearchPath unsafe_function = []" by code_simp

lemma example_search_path2: "ascii_rx SearchPath (unsafe_function @ next_function) \<noteq> []" by code_simp

lemma example_create: "ascii_rx CreateFunction (take 20 unsafe_function) = [(0, 16)]" "take 20 (unsafe_function @ next_function) = take 20 unsafe_function"
  by code_simp+

lemma example_signature:
  "parse_create_function_signature (drop 16 unsafe_function) = Inr (''f'', [])"
  "parse_create_function_signature (drop 16 (unsafe_function @ next_function)) = Inr (''f'', [])"
proof -
  have f: "list_all sql_identifier [''f'']" by (simp add: sql_identifier_def is_ascii_alphabetic_def is_ascii_lower_def)
  show "parse_create_function_signature (drop 16 unsafe_function) = Inr (''f'', [])"
    using signature_read [OF _ f Empty, of "drop 19 unsafe_function"] by (simp add: unsafe_function_def)
  show "parse_create_function_signature (drop 16 (unsafe_function @ next_function)) = Inr (''f'', [])"
    using signature_read [OF _ f Empty, of "drop 19 unsafe_function @ next_function"] by (simp add: unsafe_function_def)
qed

lemma example_args: "tokenize_args [] = Inr []" by code_simp

lemma example_revoke:
  "ascii_rx (TargetedRevoke ''f'' []) unsafe_function \<noteq> []" "ascii_rx (TargetedRevoke ''f'' []) (unsafe_function @ next_function) \<noteq> []"
  by code_simp+

lemma example_line: "get_line_number unsafe_function 20 = 1" by code_simp

lemma floor_boundary_length [simp]: "floor_boundary s (length s) = length s"
  by (cases "length s") (simp_all add: is_char_boundary_def)

lemma example_lengths: "length unsafe_function < 520" "length (unsafe_function @ next_function) < 520"
  by (simp_all add: unsafe_function_def next_function_def)

text \<open>What is reported for one match, when the whole text is within reach of it.\<close>

lemma check_definer_near:
  assumes "rx CreateFunction (take start content) = [(0, e)]" and "length content < start + 500"
    and "parse_create_function_signature (drop e content) = Inr (name, args)" and "tokenize_args args = Inr types"
  shows "check_definer rx content start = (if rx SearchPath content = [] then [NoSearchPath] else [])
     @ (if rx (TargetedRevoke name types) content = [] then [NoRevoke name types] else [])"
proof -
  have "min (length content) (start + 500) = length content" using assms(2) by simp
  then show ?thesis using assms by (simp add: check_definer_def)
qed

text \<open>
  The linter accepts a SECURITY DEFINER function that sets no search path if the function after it does: it
  looks for the setting from the function's own CREATE up to 500 bytes behind SECURITY DEFINER,
  without stopping at the next CREATE FUNCTION. The first of the two functions alone is
  reported, and both together pass.
\<close>

theorem search_path_of_next_function_accepted:
  "lint_content ascii_rx False unsafe_function = [(1, NoSearchPath)] \<and> lint_content ascii_rx False (unsafe_function @ next_function) = []"
proof
  have "check_definer ascii_rx unsafe_function 20 = [NoSearchPath]"
    using check_definer_near [of ascii_rx 20 unsafe_function 16, OF example_create(1) _ example_signature(1) example_args] example_lengths(1) example_search_path example_revoke(1)
    by simp
  then show "lint_content ascii_rx False unsafe_function = [(1, NoSearchPath)]"
    by (simp add: lint_content_def example_definer(1) example_line)
  have "check_definer ascii_rx (unsafe_function @ next_function) 20 = []"
    using check_definer_near [of ascii_rx 20 "unsafe_function @ next_function" 16, OF _ _ example_signature(2) example_args] example_lengths(2) example_search_path2 example_revoke(2)
    unfolding example_create(2) by (simp add: example_create(1))
  then show "lint_content ascii_rx False (unsafe_function @ next_function) = []"
    by (simp add: lint_content_def example_definer(2))
qed

end
