(* ===== verification/Traceability_Linter.thy ===== *)
theory Traceability_Linter
  imports Kernel_Prelude "HOL-Library.List_Lexorder" "HOL-Library.Char_ord"
begin

text \<open>
  The traceability linter, \<open>ops/linters/src/bin/traceability-linter.rs\<close>: requirement identifiers in the code must
  be in the verification matrix, and the matrix and the implementation plan must name the same.

  \<open>find_reqs\<close> is the regex crate's list of matches; the walk over the tree is a list of entries
  and errors, before \<open>filter_entry\<close>. Printing a complaint is returning it.
\<close>

datatype file_read = Content string | NotFound | ReadError

record walk_entry =
  we_path :: string
  we_components :: "string list"
  we_is_file :: bool
  we_extension :: "string option"
  we_size :: "nat option"
  we_content :: "string option"

text \<open>An error of the walk, and whether it is a missing permission or a file that went away.\<close>

datatype walked = Walked walk_entry | WalkError bool

datatype trace_complaint =
    MatrixNotFound
  | MatrixUnreadable
  | PlanUnreadable
  | MissingInMatrix "string list"
  | MissingInPlan "string list"
  | TraversalFailed
  | UndefinedReq string string

definition EXTENSIONLESS_TEXT_MAX_BYTES :: nat where
  "EXTENSIONLESS_TEXT_MAX_BYTES = 256 * 1024"

definition extract_reqs :: "(string \<Rightarrow> string list) \<Rightarrow> string \<Rightarrow> string set" where
  "extract_reqs find_reqs content = set (find_reqs content)"

text \<open>The sorted difference of the identifiers of two texts.\<close>

definition missing_reqs :: "(string \<Rightarrow> string list) \<Rightarrow> string \<Rightarrow> string set \<Rightarrow> string list" where
  "missing_reqs find_reqs content known = sort (remdups (filter (\<lambda>r. r \<notin> known) (find_reqs content)))"

fun ops_linters_path :: "string list \<Rightarrow> bool" where
  "ops_linters_path (a # b # cs) \<longleftrightarrow> a = ''ops'' \<and> b = ''linters'' \<or> ops_linters_path (b # cs)"
| "ops_linters_path _ \<longleftrightarrow> False"

text \<open>\<open>filter_entry\<close> on the path relative to the root; what is under a refused directory is refused with it.\<close>

definition walked_into :: "walk_entry \<Rightarrow> bool" where
  "walked_into e \<longleftrightarrow>
     ''target'' \<notin> set (we_components e) \<and> \<not> ops_linters_path (we_components e)
     \<and> \<not> list_ex (\<lambda>s. starts_with s ''.'' \<and> s \<noteq> ''.'' \<and> s \<noteq> ''..'') (we_components e)"

definition should_scan :: "walk_entry \<Rightarrow> bool" where
  "should_scan e =
     (case we_extension e of
        Some ext \<Rightarrow> list_ex (\<lambda>allowed. eq_ignore_ascii_case allowed ext)
          [''rs'', ''sql'', ''md'', ''txt'', ''toml'', ''sh'', ''yaml'', ''yml'', ''json'']
      | None \<Rightarrow> (case we_size e of Some n \<Rightarrow> n \<le> EXTENSIONLESS_TEXT_MAX_BYTES | None \<Rightarrow> False))"

definition scan_entry :: "(string \<Rightarrow> string list) \<Rightarrow> string set \<Rightarrow> string list \<Rightarrow> walked \<Rightarrow> trace_complaint list" where
  "scan_entry find_reqs matrix_reqs documents w =
     (case w of
        WalkError benign \<Rightarrow> if benign then [] else [TraversalFailed]
      | Walked e \<Rightarrow>
          if \<not> walked_into e \<or> we_path e \<in> set documents \<or> \<not> we_is_file e \<or> \<not> should_scan e then []
          else (case we_content e of
                  None \<Rightarrow> []
                | Some content \<Rightarrow> map (\<lambda>r. UndefinedReq r (we_path e)) (filter (\<lambda>r. r \<notin> matrix_reqs) (remdups (find_reqs content)))))"

definition trace_main :: "(string \<Rightarrow> string list) \<Rightarrow> file_read \<Rightarrow> file_read \<Rightarrow> string list \<Rightarrow> walked list \<Rightarrow> trace_complaint list" where
  "trace_main find_reqs matrix plan documents walk =
     (case matrix of
        NotFound \<Rightarrow> [MatrixNotFound]
      | ReadError \<Rightarrow> [MatrixUnreadable]
      | Content matrix_content \<Rightarrow>
          (let matrix_reqs = extract_reqs find_reqs matrix_content;
               scanned = concat (map (scan_entry find_reqs matrix_reqs documents) walk)
           in case plan of
                ReadError \<Rightarrow> [PlanUnreadable]
              | NotFound \<Rightarrow> scanned
              | Content plan_content \<Rightarrow>
                  (let missing_in_matrix = missing_reqs find_reqs plan_content matrix_reqs;
                       missing_in_plan = missing_reqs find_reqs matrix_content (extract_reqs find_reqs plan_content)
                   in (if missing_in_matrix \<noteq> [] then [MissingInMatrix missing_in_matrix] else [])
                      @ (if missing_in_plan \<noteq> [] then [MissingInPlan missing_in_plan] else []) @ scanned)))"

section \<open>What a pass means\<close>

lemma missing_none: "missing_reqs find_reqs content known = [] \<longleftrightarrow> extract_reqs find_reqs content \<subseteq> known"
  by (auto simp: missing_reqs_def extract_reqs_def filter_empty_conv simp flip: set_empty)

lemma scan_entry_none:
  "scan_entry find_reqs known documents w = [] \<longleftrightarrow>
     (case w of WalkError benign \<Rightarrow> benign
      | Walked e \<Rightarrow> walked_into e \<and> we_path e \<notin> set documents \<and> we_is_file e \<and> should_scan e \<longrightarrow>
          (\<forall>content. we_content e = Some content \<longrightarrow> extract_reqs find_reqs content \<subseteq> known))"
  by (auto simp: scan_entry_def extract_reqs_def filter_empty_conv split: walked.split option.split)

lemma walked_ball:
  "(\<forall>w\<in>set walk. case w of Walked e \<Rightarrow> Q e | WalkError benign \<Rightarrow> benign) \<longleftrightarrow>
     WalkError False \<notin> set walk \<and> (\<forall>e. Walked e \<in> set walk \<longrightarrow> Q e)"
proof (induction walk)
  case (Cons w walk)
  then show ?case
    by (cases w) auto
qed simp

text \<open>
  The linter passes exactly when the matrix can be read, the plan is missing or names the same requirements,
  the walk met no serious error, and every requirement named in a scanned file is in the matrix.
\<close>

theorem trace_main_passes:
  "trace_main find_reqs matrix plan documents walk = [] \<longleftrightarrow>
     (\<exists>m. matrix = Content m
        \<and> (plan = NotFound \<or> (\<exists>p. plan = Content p \<and> extract_reqs find_reqs p = extract_reqs find_reqs m))
        \<and> WalkError False \<notin> set walk
        \<and> (\<forall>e content. Walked e \<in> set walk \<and> walked_into e \<and> we_path e \<notin> set documents \<and> we_is_file e \<and> should_scan e
             \<and> we_content e = Some content \<longrightarrow> extract_reqs find_reqs content \<subseteq> extract_reqs find_reqs m))"
proof -
  have scanned: "(\<forall>w\<in>set walk. scan_entry find_reqs known documents w = []) \<longleftrightarrow>
      WalkError False \<notin> set walk
      \<and> (\<forall>e content. Walked e \<in> set walk \<and> walked_into e \<and> we_path e \<notin> set documents \<and> we_is_file e \<and> should_scan e
             \<and> we_content e = Some content \<longrightarrow> extract_reqs find_reqs content \<subseteq> known)" for known
    by (simp add: scan_entry_none walked_ball) blast
  show ?thesis
  proof (cases matrix; cases plan)
    fix m p
    assume "matrix = Content m" "plan = Content p"
    then show ?thesis
      by (simp add: trace_main_def scanned missing_none Let_def)
  qed (simp_all add: trace_main_def scanned missing_none)
qed

end
