(* ===== verification/Spec2Isabelle.thy ===== *)
theory Spec2Isabelle
  imports Gap_Tracker Quota Idempotency_Middleware Registry_Storage Api_Auth Rbac Entity_History Event_Outbox Event_Streams Sandbox_Fetch Archiver Diagnostics_Api Idempotency_Listener Api_Startup
    Sandbox_Watchdog Authorize_Original Rbac_Tables Kernel_Role Sql_Linter Traceability_Linter
begin

text \<open>
  FlexiSuite kernel: a verification library for the multi-tenant kernel under \<open>src/\<close>.

  \<^bold>\<open>The program.\<close> A request enters \<open>kernel-api\<close>, is authenticated (\<open>auth.rs\<close>), charged against
  the quotas and made idempotent (\<open>middleware.rs\<close>), and on guarded routes checked for a permission
  (\<open>middleware/rbac.rs\<close>). Handlers reach PostgreSQL only through \<open>kernel-data\<close>: \<open>with_tenant_tx\<close>
  presents a tenant token, issued by the key manager of \<open>kernel-core\<close>, to the SQL function
  \<open>flexi.authorize_tenant\<close>, and row-level security shows the rows of that tenant only. Inside the
  transaction run the tenant repository, the permission query and the event outbox. Published events
  travel through Redis streams, and consumers order them with the gap tracker of \<open>kernel-core\<close>.
  \<open>kernel-registry\<close> stores signed application manifests and artifacts, verified against a trust root.
  \<open>kernel-runtime\<close> runs an application's code in a WebAssembly or a JavaScript sandbox that reaches the
  network through a filter only. \<open>kernel-archiver\<close> copies old history and audit rows to an object
  store. Clients report failures to the diagnostics endpoints, which mask personal data. The start of
  the API process configures all this from the environment, and two linters under \<open>ops/linters\<close> watch
  over the migrations and the requirement documents.

  \<^bold>\<open>The theories,\<close> bottom up; each models the file it names, definition by definition under the
  names of the code.

  \<^item> \<open>Kernel_Prelude\<close>: strings as byte lists, \<open>split\<close>, \<open>trim\<close>, decimal numbers, checked and
    saturating \<open>u64\<close> arithmetic, results as sums; the lemmas on them that every theory shares.
  \<^item> \<open>Auth_Context\<close> (\<open>kernel-data/src/auth_context.rs\<close>): tenant and user identifiers, contexts, the
    system scope. A system context cannot be made from an identifier that passes validation.
  \<^item> \<open>Event_Types\<close> (\<open>kernel-data/src/event/types.rs\<close>, order functions of \<open>kernel-core/src/event.rs\<close>):
    order modes, shards, stream keys, the order on events.
  \<^item> \<open>Gap_Tracker\<close> (\<open>kernel-core/src/event.rs\<close>): the state machine that delivers one ordering key's
    events, with a step relation over its calls and reachability.
  \<^item> \<open>Http_Types\<close>, \<open>Quota\<close>, \<open>Idempotency_Core\<close>, \<open>Idempotency_Store\<close>, \<open>Idempotency_Redis\<close>,
    \<open>Idempotency_Middleware\<close> (\<open>kernel-core/src/quota.rs\<close>, \<open>kernel-core/src/idempotency.rs\<close>,
    \<open>kernel-api/src/middleware.rs\<close>): responses and digests; the Lua token buckets and the quota
    middleware; the canonical request target; the store interface as a locale, with what other
    clients may do in the middle of a call, met by the in-memory and by the Redis store; the middleware proved over the interface.
  \<^item> \<open>Supply_Chain\<close>, \<open>Registry_Trust\<close>, \<open>Registry_Storage\<close> (\<open>kernel-core/src/supplychain.rs\<close>,
    \<open>kernel-registry/src\<close>): manifest verification, the trust root, canonical digests, storage paths.
  \<^item> \<open>Key_Manager\<close> (\<open>kernel-core/src/auth/key_manager.rs\<close>, the key migration): rotation, revocation,
    tenant tokens and their verification in the database.
  \<^item> \<open>Tenant_Tx\<close> (\<open>kernel-data/src/connection.rs\<close>, the row-level security migration): a database is
    the core tables (keys, nonces, clock), the session settings, the remaining tables and a schedule
    of faults; a statement may fail, a commit may be lost. \<open>tx_keeps\<close> and its lemmas carry invariants
    through transactions.
  \<^item> \<open>Repository\<close>, \<open>Entity_History\<close> (\<open>kernel-data/src/repository.rs\<close>, \<open>kernel_context.rs\<close>, the entities
    and their migrations): every repository operation as a statement under the tenant policy; a
    relational argument for isolation; the history as an audit trail.
  \<^item> \<open>Api_Auth\<close> (\<open>kernel-api/src/auth.rs\<close>): keyset configuration, token verification, the revocation
    listener as a step function over an explicit program counter.
  \<^item> \<open>Rbac\<close> (\<open>kernel-data/src/rbac.rs\<close>, \<open>kernel-api/src/middleware/rbac.rs\<close>): the permission join and
    the two middleware functions on a route.
  \<^item> \<open>Event_Outbox\<close>, \<open>Event_Streams\<close> (\<open>kernel-data/src/event/repository.rs\<close>, \<open>redis_producer.rs\<close>,
    \<open>redis_consumer.rs\<close>): sequence numbers and the outbox; publishing, polling, claiming, acknowledging.
  \<^item> \<open>Authorize_Original\<close>, \<open>Rbac_Tables\<close>, \<open>Kernel_Role\<close> (\<open>kernel-data/migration/src\<close>): the first version of
    \<open>authorize_tenant\<close>, which a rollback restores, and the nonce tables; keys, references, cascades and
    policies of the five permission tables, under which the query can do without two of them; the role that
    owns the privileged audit function, provisioned and rolled back.
  \<^item> \<open>Sandbox_Network\<close>, \<open>Sandbox_Fetch\<close>, \<open>Sandbox_Watchdog\<close> (\<open>kernel-runtime/src/lib.rs\<close>, \<open>wasm_runtime.rs\<close>, \<open>deno_runtime.rs\<close>): the
    allowlist, the address filter and the resolver; the host functions over the guest's memory, the
    budgets, and how an execution's end becomes a result; the watchdog threads turn by turn.
  \<^item> \<open>Archiver\<close> (\<open>kernel-archiver/src/main.rs\<close>): start, collection in batches, upload, marking and the audit
    entry, over the database of \<open>Tenant_Tx\<close>; no row is marked that is not stored.
  \<^item> \<open>Json_Types\<close>, \<open>Sanitizer\<close>, \<open>Diagnostics_Api\<close> (\<open>kernel-core/src/diagnostics\<close>, \<open>kernel-api/src/diagnostics.rs\<close>): JSON
    values, the masking of personal data, the endpoints with their limits and the consent policy.
  \<^item> \<open>Action_Store\<close>, \<open>Idempotency_Listener\<close>, \<open>Middleware_Config\<close> (\<open>kernel-api/src/middleware.rs\<close>): the action
    stores as two interpretations of one locale; registration of waiters and channel listeners as an
    interleaving of steps; the configuration with the grammar of decimal fractions, and the choice of stores.
  \<^item> \<open>Api_App\<close>, \<open>Api_Startup\<close> (\<open>kernel-api/src/lib.rs\<close>, \<open>main.rs\<close>, \<open>profile.rs\<close>): the composition of the
    middlewares on a protected route and the handlers behind it; the process start with each of its exits.
  \<^item> \<open>Sql_Linter\<close>, \<open>Traceability_Linter\<close> (\<open>ops/linters/src/bin\<close>): the parser of function signatures, which reads
    back what is well formed, the checks, and what a pass means.

  \<^bold>\<open>Machine integers\<close> are words of their width; \<open>usize\<close> has 64 bits. Additions that the code checks or
  saturates are written so. Lengths of lists and durations are natural numbers or integers where no
  wrap-around can arise from values the code admits.

  \<^bold>\<open>Code that is not under\<close> \<open>src/\<close> is an argument of the definitions that use it, collected in records:
  PASETO, Ed25519, SHA-256, HMAC, base64 and RFC 3339; JSON values and their diff; UUIDs; HTTP header
  validity; the Redis commands, hashes and client; the object stores and gzip; regular expressions and
  URL parsing; the WebAssembly and JavaScript engines; address parsing and binding; the YAML reader, the file
  system and the environment; error texts of the database. What a
  theorem needs of it is a named law (\<open>map_redis_laws\<close>, \<open>streams_ok\<close>, \<open>object_store_laws\<close> and so on),
  and a concrete instance shows that the law can hold. PostgreSQL tables are lists of rows with the
  keys, constraints and policies of the migrations.

  \<^bold>\<open>Loops and fuel.\<close> The acquire loop of the idempotency middleware is bounded in the code by its number of
  attempts, and the model counts down the same number. The cursor loop of \<open>claim_pending\<close> is bounded by
  Redis only: it is a partial function whose result is an option, and that it returns is a theorem
  under the documented behaviour of XAUTOCLAIM, which scans the pending entries in the order of their
  identifiers, and as long as no other client makes further entries pending. The scanning loops over texts (\<open>strip_prefixes\<close>,
  \<open>replace_str\<close>, \<open>split_whitespace\<close>, \<open>more_parts\<close>) and \<open>chunks\<close> have termination proofs by the length of what is
  left. Background tasks that run for ever are modelled by one turn of their loop. All other loops are
  structural recursions.

  \<^bold>\<open>Not modelled.\<close> Logging and metrics; build scripts; generated entity relations, indexes without
  constraints and column defaults of the migrations; grants on the SQL functions other than those of
  \<open>Kernel_Role\<close>; development-only branches (\<open>test-utils\<close>, \<open>enable_dev_auth\<close>) apart from the seeding helper, and
  tests. Of the sandboxes, the engines themselves, the text of the JavaScript prelude and WASI. Matching of paths to
  routes and the answers for unmatched ones are axum's.
\<close>

end
